(* ===== verification/Prelude.thy ===== *)
theory Prelude
  imports Main "HOL-Library.Word" "HOL-Library.Multiset"
begin

unbundle bit_operations_syntax

text \<open>
  Shared vocabulary of the development: the Go types and idioms that several
  components use, and the lemmas about them.

  \<^item> a Go \<^verbatim>\<open>string\<close> is a \<open>string\<close> (a list of 8-bit characters, so \<open>length\<close> counts
    bytes as \<^verbatim>\<open>len\<close> does); a \<^verbatim>\<open>[]byte\<close> is a list of \<open>8 word\<close>;
  \<^item> \<^verbatim>\<open>time.Time\<close> and \<^verbatim>\<open>time.Duration\<close> are integers (nanoseconds); every call of
    \<^verbatim>\<open>time.Now()\<close> is an argument of the operation that makes it;
  \<^item> a Go map is a partial function; \<^verbatim>\<open>len(m)\<close> is \<open>map_len m\<close>; where a result depends on
    the (unspecified) order of a \<^verbatim>\<open>range\<close> loop over a map, the operation takes that order as
    a list of keys;
  \<^item> \<^verbatim>\<open>for i, x := range xs { if p(x) { xs = append(xs[:i], xs[i+1:]...); break } }\<close>, the
    idiom the code uses to delete from a slice, is \<open>remove_first p xs\<close>;
  \<^item> a run-time panic is \<open>None\<close> of an option, an \<^verbatim>\<open>error\<close> result the left side of a sum.
\<close>

section \<open>Types and collections of facts\<close>

type_synonym byte = "8 word"
type_synonym bytes = "byte list"
type_synonym time = int
type_synonym duration = int

named_theorems go_simps \<open>unfolding of the shared Go idioms\<close>
named_theorems inv_intros \<open>preservation of the components' invariants\<close>

definition bytes_of :: "string \<Rightarrow> bytes" where
  "bytes_of s = map of_char s"

lemma length_bytes_of [simp]: "length (bytes_of s) = length s"
  by (simp add: bytes_of_def)

definition millisecond :: duration where "millisecond = 1000000"
definition second :: duration where "second = 1000000000"
definition minute :: duration where "minute = 60 * second"

text \<open>Integer division in Go truncates towards zero.\<close>

definition go_quot :: "int \<Rightarrow> int \<Rightarrow> int" where
  "go_quot a b = sgn a * sgn b * (\<bar>a\<bar> div \<bar>b\<bar>)"

lemma go_quot_nonneg: "0 \<le> a \<Longrightarrow> 0 \<le> b \<Longrightarrow> go_quot a b = a div b"
  by (cases "a = 0"; cases "b = 0") (auto simp: go_quot_def sgn_if)

section \<open>Deleting the first matching element of a slice\<close>

fun remove_first :: "('a \<Rightarrow> bool) \<Rightarrow> 'a list \<Rightarrow> 'a list" where
  "remove_first p [] = []"
| "remove_first p (x # xs) = (if p x then xs else x # remove_first p xs)"

lemma remove_first_none [simp]: "\<not> (\<exists>x\<in>set xs. p x) \<Longrightarrow> remove_first p xs = xs"
  by (induction xs) auto

lemma remove_first_eq_remove1: "remove_first (\<lambda>x. x = a) xs = remove1 a xs"
  by (induction xs) auto

lemma set_remove_first_subset: "set (remove_first p xs) \<subseteq> set xs"
  by (induction xs) auto

lemma distinct_remove_first [intro]: "distinct xs \<Longrightarrow> distinct (remove_first p xs)"
  by (induction xs) (use set_remove_first_subset in fastforce)+

lemma filter_not_remove_first:
  "filter (\<lambda>x. \<not> p x) (remove_first p xs) = filter (\<lambda>x. \<not> p x) xs"
  by (induction xs) auto

lemma length_remove_first:
  "length (remove_first p xs) = (if \<exists>x\<in>set xs. p x then length xs - 1 else length xs)"
proof (induction xs)
  case (Cons x xs)
  show ?case
  proof (cases "\<exists>y\<in>set xs. p y")
    case True
    then have "0 < length xs" by auto
    with True Cons show ?thesis by auto
  qed (use Cons in auto)
qed simp

lemma map_remove_first:
  "map f (remove_first (\<lambda>x. f x = k) xs) = remove1 k (map f xs)"
  by (induction xs) auto

lemma remove_first_distinct_filter:
  "distinct (map f xs) \<Longrightarrow> remove_first (\<lambda>x. f x = k) xs = filter (\<lambda>x. f x \<noteq> k) xs"
proof (induction xs)
  case (Cons x xs)
  show ?case
  proof (cases "f x = k")
    case True
    with Cons.prems have "\<forall>y\<in>set xs. f y \<noteq> k" by (auto simp: image_iff)
    then have "filter (\<lambda>x. f x \<noteq> k) xs = xs" by (simp add: filter_id_conv)
    with True show ?thesis by simp
  qed (use Cons in simp)
qed simp

text \<open>What a list of goroutines has in hand, when one of them changes.\<close>

lemma mset_concat_map_update:
  "i < length xs \<Longrightarrow> mset (concat (map f (xs[i := y]))) + mset (f (xs ! i)) = mset (concat (map f xs)) + mset (f y)"
proof (induction xs arbitrary: i)
  case (Cons x xs)
  then show ?case by (cases i) (auto simp: ac_simps)
qed simp

section \<open>Maps\<close>

definition map_len :: "('k \<rightharpoonup> 'v) \<Rightarrow> nat" where
  "map_len m = card (dom m)"

lemma map_len_empty [simp]: "map_len Map.empty = 0"
  by (simp add: map_len_def)

lemma map_len_upd:
  "finite (dom m) \<Longrightarrow> map_len (m(k \<mapsto> v)) = (if k \<in> dom m then map_len m else Suc (map_len m))"
  by (simp add: map_len_def card_insert_if insert_absorb)

lemma map_len_upd_le: "finite (dom m) \<Longrightarrow> map_len (m(k \<mapsto> v)) \<le> Suc (map_len m)"
  by (simp add: map_len_upd)

lemma map_len_del:
  "finite (dom m) \<Longrightarrow> k \<in> dom m \<Longrightarrow> Suc (map_len (m(k := None))) = map_len m"
  unfolding map_len_def by (metis card.remove dom_fun_upd)

lemma map_len_del_absent: "k \<notin> dom m \<Longrightarrow> m(k := None) = m"
  by (auto simp: fun_eq_iff domIff)

lemma map_len_0_iff: "finite (dom m) \<Longrightarrow> map_len m = 0 \<longleftrightarrow> m = Map.empty"
  by (simp add: map_len_def)

text \<open>\<open>filter_map P m\<close> is the map a \<^verbatim>\<open>range\<close> loop leaves that deletes every entry failing \<open>P\<close>.\<close>

definition filter_map :: "('k \<Rightarrow> 'v \<Rightarrow> bool) \<Rightarrow> ('k \<rightharpoonup> 'v) \<Rightarrow> ('k \<rightharpoonup> 'v)" where
  "filter_map P m = (\<lambda>k. case m k of None \<Rightarrow> None | Some v \<Rightarrow> if P k v then Some v else None)"

lemma filter_map_Some: "filter_map P m k = Some v \<longleftrightarrow> m k = Some v \<and> P k v"
  by (auto simp: filter_map_def split: option.splits)

lemma filter_map_None: "filter_map P m k = None \<longleftrightarrow> (\<forall>v. m k = Some v \<longrightarrow> \<not> P k v)"
  by (auto simp: filter_map_def split: option.splits)

lemma dom_filter_map: "dom (filter_map P m) \<subseteq> dom m"
  by (auto simp: filter_map_Some)

lemma finite_dom_filter_map [simp]: "finite (dom m) \<Longrightarrow> finite (dom (filter_map P m))"
  by (rule finite_subset [OF dom_filter_map])

section \<open>Substrings\<close>

text \<open>\<^verbatim>\<open>bytes.HasPrefix\<close> and \<^verbatim>\<open>bytes.Contains\<close>.\<close>

definition has_prefix :: "'a list \<Rightarrow> 'a list \<Rightarrow> bool" where
  "has_prefix s p \<longleftrightarrow> length p \<le> length s \<and> take (length p) s = p"

fun contains_sub :: "'a list \<Rightarrow> 'a list \<Rightarrow> bool" where
  "contains_sub [] p = (p = [])"
| "contains_sub (x # xs) p = (has_prefix (x # xs) p \<or> contains_sub xs p)"

lemma has_prefix_append: "has_prefix s p \<longleftrightarrow> (\<exists>r. s = p @ r)"
proof
  assume "has_prefix s p"
  then have "s = p @ drop (length p) s"
    unfolding has_prefix_def by (metis append_take_drop_id)
  then show "\<exists>r. s = p @ r" ..
qed (auto simp: has_prefix_def)

lemma contains_sub_iff: "contains_sub s p \<longleftrightarrow> (\<exists>l r. s = l @ p @ r)"
proof (induction s)
  case (Cons x xs)
  show ?case
  proof
    assume "contains_sub (x # xs) p"
    with Cons consider r where "x # xs = p @ r" | l r where "xs = l @ p @ r"
      by (auto simp: has_prefix_append)
    then show "\<exists>l r. x # xs = l @ p @ r"
      by cases (metis append_Nil, metis append_Cons)
  next
    assume "\<exists>l r. x # xs = l @ p @ r"
    then obtain l r where lr: "x # xs = l @ p @ r" by blast
    show "contains_sub (x # xs) p"
    proof (cases l)
      case Nil
      with lr have "has_prefix (x # xs) p" by (auto simp: has_prefix_append)
      then show ?thesis by simp
    next
      case (Cons y ys)
      with lr have "xs = ys @ p @ r" by simp
      with Cons.IH show ?thesis by auto
    qed
  qed
qed auto

section \<open>Hashes of the standard library\<close>

text \<open>\<^verbatim>\<open>hash/fnv\<close>: FNV-1a on 32 and 64 bits.\<close>

definition fnv32a :: "bytes \<Rightarrow> 32 word" where
  "fnv32a bs = fold (\<lambda>b h. (h XOR ucast b) * 16777619) bs 2166136261"

definition fnv64a :: "bytes \<Rightarrow> 64 word" where
  "fnv64a bs = fold (\<lambda>b h. (h XOR ucast b) * 1099511628211) bs 14695981039346656037"

section \<open>Decimal formatting\<close>

text \<open>The \<^verbatim>\<open>%d\<close> verb of \<^verbatim>\<open>fmt\<close>.\<close>

fun show_nat :: "nat \<Rightarrow> string" where
  "show_nat n = (if n < 10 then [char_of (48 + n)] else show_nat (n div 10) @ [char_of (48 + n mod 10)])"

declare show_nat.simps [simp del]

definition show_int :: "int \<Rightarrow> string" where
  "show_int i = (if i < 0 then CHR ''-'' # show_nat (nat (- i)) else show_nat (nat i))"

section \<open>Lists\<close>

lemma find_map_eq: "find P (map f xs) = map_option f (find (\<lambda>x. P (f x)) xs)"
  by (induction xs) auto

lemma find_Some_append_first:
  "find P xs = Some x \<Longrightarrow> \<exists>us vs. xs = us @ x # vs \<and> P x \<and> (\<forall>u\<in>set us. \<not> P u)"
proof (induction xs)
  case (Cons y ys)
  show ?case
  proof (cases "P y")
    case True
    with Cons.prems show ?thesis by (intro exI[of _ "[]"] exI[of _ ys]) auto
  next
    case False
    with Cons obtain us vs where "ys = us @ x # vs" "P x" "\<forall>u\<in>set us. \<not> P u" by auto
    with False show ?thesis by (intro exI[of _ "y # us"] exI[of _ vs]) auto
  qed
qed simp

lemma find_in_set: "find P xs = Some x \<Longrightarrow> x \<in> set xs \<and> P x"
  by (induction xs) (auto split: if_splits)

end
