(* ===== verification/Mux_Errors.thy ===== *)
theory Mux_Errors
  imports Prelude
begin

text \<open>
  \<^verbatim>\<open>pkg/errors\<close>: the error values of the framework (\<^verbatim>\<open>errors.go\<close>), the manager that
  counts, logs, recovers, handles and reports them (\<^verbatim>\<open>handler.go\<close>), the built-in
  handlers, recoveries and reporters (\<^verbatim>\<open>builtin.go\<close>), the keyword classification of
  foreign errors (\<^verbatim>\<open>converter.go\<close>) and the HTTP and gRPC status tables
  (\<^verbatim>\<open>middleware.go\<close>). Stack capture and the text that goes to the log are left out.
\<close>

section \<open>Error values\<close>

type_synonym ErrorCode = int

datatype ErrorLevel = LevelTrace | LevelDebug | LevelInfo | LevelWarn | LevelError | LevelFatal

datatype ErrorCategory =
    CategorySystem | CategoryNetwork | CategoryProtocol | CategoryBuffer | CategoryConfig
  | CategoryAuth | CategoryValidation | CategoryBusiness | CategoryWASM | CategoryGovernance
  | CategorySecurity

text \<open>The levels are consecutive \<^verbatim>\<open>iota\<close> constants, compared as integers.\<close>

primrec level_rank :: "ErrorLevel \<Rightarrow> nat" where
  "level_rank LevelTrace = 0"
| "level_rank LevelDebug = 1"
| "level_rank LevelInfo = 2"
| "level_rank LevelWarn = 3"
| "level_rank LevelError = 4"
| "level_rank LevelFatal = 5"

lemma level_rank_inject: "level_rank a = level_rank b \<Longrightarrow> a = b"
  by (cases a; cases b) auto

instantiation ErrorLevel :: linorder
begin

definition less_eq_ErrorLevel :: "ErrorLevel \<Rightarrow> ErrorLevel \<Rightarrow> bool" where
  "less_eq_ErrorLevel a b \<longleftrightarrow> level_rank a \<le> level_rank b"

definition less_ErrorLevel :: "ErrorLevel \<Rightarrow> ErrorLevel \<Rightarrow> bool" where
  "less_ErrorLevel a b \<longleftrightarrow> level_rank a < level_rank b"

instance
  by standard (auto simp: less_eq_ErrorLevel_def less_ErrorLevel_def dest: level_rank_inject)

end

definition categoryName :: "ErrorCategory \<Rightarrow> string" where
  "categoryName c = (case c of
     CategorySystem \<Rightarrow> ''system'' | CategoryNetwork \<Rightarrow> ''network''
   | CategoryProtocol \<Rightarrow> ''protocol'' | CategoryBuffer \<Rightarrow> ''buffer''
   | CategoryConfig \<Rightarrow> ''config'' | CategoryAuth \<Rightarrow> ''auth''
   | CategoryValidation \<Rightarrow> ''validation'' | CategoryBusiness \<Rightarrow> ''business''
   | CategoryWASM \<Rightarrow> ''wasm'' | CategoryGovernance \<Rightarrow> ''governance''
   | CategorySecurity \<Rightarrow> ''security'')"

text \<open>A value of the \<^verbatim>\<open>Context\<close> map (an \<^verbatim>\<open>interface{}\<close>): the code stores integers and strings.\<close>

datatype ctx_value = CtxInt int | CtxString string

text \<open>\<^verbatim>\<open>MuxError\<close>; the cause is kept as the text its \<^verbatim>\<open>Error\<close> method prints.\<close>

record MuxError =
  err_Code :: ErrorCode
  err_Message :: string
  err_Category :: ErrorCategory
  err_Level :: ErrorLevel
  err_Timestamp :: time
  err_Cause :: "string option"
  err_Context :: "string \<rightharpoonup> ctx_value"

definition ErrCodeSystemUnknown :: ErrorCode where "ErrCodeSystemUnknown = 1000"
definition ErrCodeSystemOutOfMemory :: ErrorCode where "ErrCodeSystemOutOfMemory = 1001"
definition ErrCodeSystemResourceLimit :: ErrorCode where "ErrCodeSystemResourceLimit = 1002"
definition ErrCodeSystemInternalError :: ErrorCode where "ErrCodeSystemInternalError = 1003"
definition ErrCodeSystemShutdown :: ErrorCode where "ErrCodeSystemShutdown = 1004"
definition ErrCodeSystemPanic :: ErrorCode where "ErrCodeSystemPanic = 1005"
definition ErrCodeNetworkUnknown :: ErrorCode where "ErrCodeNetworkUnknown = 2000"
definition ErrCodeNetworkTimeout :: ErrorCode where "ErrCodeNetworkTimeout = 2001"
definition ErrCodeNetworkConnectionLost :: ErrorCode where "ErrCodeNetworkConnectionLost = 2002"
definition ErrCodeNetworkRefused :: ErrorCode where "ErrCodeNetworkRefused = 2003"
definition ErrCodeNetworkUnreachable :: ErrorCode where "ErrCodeNetworkUnreachable = 2004"
definition ErrCodeNetworkTLSError :: ErrorCode where "ErrCodeNetworkTLSError = 2005"
definition ErrCodeProtocolUnsupported :: ErrorCode where "ErrCodeProtocolUnsupported = 3002"
definition ErrCodeBufferNotEnough :: ErrorCode where "ErrCodeBufferNotEnough = 4001"
definition ErrCodeBufferOverflow :: ErrorCode where "ErrCodeBufferOverflow = 4002"
definition ErrCodeBufferPoolEmpty :: ErrorCode where "ErrCodeBufferPoolEmpty = 4004"
definition ErrCodeConfigNotFound :: ErrorCode where "ErrCodeConfigNotFound = 5001"
definition ErrCodeConfigInvalid :: ErrorCode where "ErrCodeConfigInvalid = 5002"
definition ErrCodeAuthUnknown :: ErrorCode where "ErrCodeAuthUnknown = 6000"
definition ErrCodeAuthUnauthorized :: ErrorCode where "ErrCodeAuthUnauthorized = 6001"
definition ErrCodeAuthForbidden :: ErrorCode where "ErrCodeAuthForbidden = 6002"
definition ErrCodeAuthTokenExpired :: ErrorCode where "ErrCodeAuthTokenExpired = 6003"
definition ErrCodeAuthTokenInvalid :: ErrorCode where "ErrCodeAuthTokenInvalid = 6004"
definition ErrCodeValidationRequired :: ErrorCode where "ErrCodeValidationRequired = 7001"
definition ErrCodeValidationFormat :: ErrorCode where "ErrCodeValidationFormat = 7002"
definition ErrCodeValidationRange :: ErrorCode where "ErrCodeValidationRange = 7003"
definition ErrCodeBusinessLogicError :: ErrorCode where "ErrCodeBusinessLogicError = 8001"
definition ErrCodeBusinessRuleViolation :: ErrorCode where "ErrCodeBusinessRuleViolation = 8003"
definition ErrCodeWASMCompileError :: ErrorCode where "ErrCodeWASMCompileError = 9001"
definition ErrCodeWASMRuntimeError :: ErrorCode where "ErrCodeWASMRuntimeError = 9002"
definition ErrCodeGovernanceUnknown :: ErrorCode where "ErrCodeGovernanceUnknown = 10000"
definition ErrCodeGovernancePolicyViolation :: ErrorCode where "ErrCodeGovernancePolicyViolation = 10001"
definition ErrCodeGovernanceRateLimit :: ErrorCode where "ErrCodeGovernanceRateLimit = 10003"

lemmas err_codes =
  ErrCodeSystemUnknown_def ErrCodeSystemOutOfMemory_def ErrCodeSystemResourceLimit_def
  ErrCodeSystemInternalError_def ErrCodeSystemShutdown_def ErrCodeSystemPanic_def
  ErrCodeNetworkUnknown_def ErrCodeNetworkTimeout_def ErrCodeNetworkConnectionLost_def
  ErrCodeNetworkRefused_def ErrCodeNetworkUnreachable_def ErrCodeNetworkTLSError_def
  ErrCodeProtocolUnsupported_def ErrCodeBufferNotEnough_def ErrCodeBufferOverflow_def
  ErrCodeBufferPoolEmpty_def ErrCodeConfigNotFound_def ErrCodeConfigInvalid_def
  ErrCodeAuthUnknown_def ErrCodeAuthUnauthorized_def ErrCodeAuthForbidden_def
  ErrCodeAuthTokenExpired_def ErrCodeAuthTokenInvalid_def ErrCodeValidationRequired_def
  ErrCodeValidationFormat_def ErrCodeValidationRange_def ErrCodeBusinessLogicError_def
  ErrCodeBusinessRuleViolation_def ErrCodeWASMCompileError_def ErrCodeWASMRuntimeError_def
  ErrCodeGovernanceUnknown_def ErrCodeGovernancePolicyViolation_def ErrCodeGovernanceRateLimit_def

definition New :: "ErrorCode \<Rightarrow> ErrorCategory \<Rightarrow> ErrorLevel \<Rightarrow> string \<Rightarrow> time \<Rightarrow> MuxError" where
  "New code category level message now =
     \<lparr>err_Code = code, err_Message = message, err_Category = category, err_Level = level,
      err_Timestamp = now, err_Cause = None, err_Context = Map.empty\<rparr>"

definition Wrap ::
  "string \<Rightarrow> ErrorCode \<Rightarrow> ErrorCategory \<Rightarrow> ErrorLevel \<Rightarrow> string \<Rightarrow> time \<Rightarrow> MuxError" where
  "Wrap err code category level message now =
     (New code category level message now)\<lparr>err_Cause := Some err\<rparr>"

definition WithContext :: "MuxError \<Rightarrow> string \<Rightarrow> ctx_value \<Rightarrow> MuxError" where
  "WithContext e key value = e\<lparr>err_Context := (err_Context e)(key \<mapsto> value)\<rparr>"

definition WithCause :: "MuxError \<Rightarrow> string \<Rightarrow> MuxError" where
  "WithCause e cause = e\<lparr>err_Cause := Some cause\<rparr>"

text \<open>\<^verbatim>\<open>Error()\<close>: \<^verbatim>\<open>[category:code] message\<close>, with the cause appended when there is one.\<close>

definition ErrorText :: "MuxError \<Rightarrow> string" where
  "ErrorText e =
     ''['' @ categoryName (err_Category e) @ '':'' @ show_int (err_Code e) @ ''] '' @ err_Message e
     @ (case err_Cause e of Some c \<Rightarrow> '': '' @ c | None \<Rightarrow> [])"

text \<open>\<^verbatim>\<open>Is\<close>: two errors match when their codes do; \<open>None\<close> is a target that is no \<^verbatim>\<open>MuxError\<close>.\<close>

definition Is :: "MuxError \<Rightarrow> MuxError option \<Rightarrow> bool" where
  "Is e target = (case target of Some t \<Rightarrow> err_Code e = err_Code t | None \<Rightarrow> False)"

definition error_messages :: "(ErrorCode \<times> string) list" where
  "error_messages =
    [(1000, ''Unknown system error''), (1001, ''System out of memory''),
     (1002, ''System resource limit exceeded''), (1003, ''Internal system error''),
     (1004, ''System is shutting down''),
     (2000, ''Unknown network error''), (2001, ''Network operation timeout''),
     (2002, ''Network connection lost''), (2003, ''Network connection refused''),
     (2004, ''Network unreachable''), (2005, ''TLS/SSL error''),
     (3000, ''Unknown protocol error''), (3001, ''Invalid protocol''),
     (3002, ''Unsupported protocol''), (3003, ''Protocol version error''),
     (3004, ''Protocol parse error''),
     (4000, ''Unknown buffer error''), (4001, ''Buffer not enough''), (4002, ''Buffer overflow''),
     (4003, ''Buffer corrupted''), (4004, ''Buffer pool empty''),
     (5000, ''Unknown config error''), (5001, ''Config not found''), (5002, ''Invalid config''),
     (5003, ''Config parse error''), (5004, ''Config validation error''),
     (6000, ''Unknown auth error''), (6001, ''Unauthorized''), (6002, ''Forbidden''),
     (6003, ''Token expired''), (6004, ''Invalid token''),
     (7000, ''Unknown validation error''), (7001, ''Required field missing''),
     (7002, ''Invalid format''), (7003, ''Value out of range''), (7004, ''Duplicate value''),
     (8000, ''Unknown business error''), (8001, ''Business logic error''),
     (8002, ''Invalid business state''), (8003, ''Business rule violation''),
     (9000, ''Unknown WASM error''), (9001, ''WASM compile error''),
     (9002, ''WASM runtime error''), (9003, ''WASM memory error''),
     (9004, ''WASM function not found''),
     (10000, ''Unknown governance error''), (10001, ''Policy violation''),
     (10002, ''Circuit breaker activated''), (10003, ''Rate limit exceeded''),
     (10004, ''Load balancer error'')]"

definition GetErrorMessage :: "ErrorCode \<Rightarrow> string" where
  "GetErrorMessage code =
     (case map_of error_messages code of Some m \<Rightarrow> m | None \<Rightarrow> ''Unknown error'')"

definition GetErrorCategory :: "ErrorCode \<Rightarrow> ErrorCategory" where
  "GetErrorCategory code =
     (if 1000 \<le> code \<and> code < 2000 then CategorySystem
      else if 2000 \<le> code \<and> code < 3000 then CategoryNetwork
      else if 3000 \<le> code \<and> code < 4000 then CategoryProtocol
      else if 4000 \<le> code \<and> code < 5000 then CategoryBuffer
      else if 5000 \<le> code \<and> code < 6000 then CategoryConfig
      else if 6000 \<le> code \<and> code < 7000 then CategoryAuth
      else if 7000 \<le> code \<and> code < 8000 then CategoryValidation
      else if 8000 \<le> code \<and> code < 9000 then CategoryBusiness
      else if 9000 \<le> code \<and> code < 10000 then CategoryWASM
      else if 10000 \<le> code \<and> code < 11000 then CategoryGovernance
      else CategorySystem)"

section \<open>HTTP and gRPC status\<close>

definition getHTTPStatusCode :: "MuxError \<Rightarrow> int" where
  "getHTTPStatusCode e = (let c = err_Code e in
     if c = ErrCodeAuthUnauthorized then 401
     else if c = ErrCodeAuthForbidden then 403
     else if c = ErrCodeAuthTokenExpired \<or> c = ErrCodeAuthTokenInvalid then 401
     else if c = ErrCodeValidationRequired \<or> c = ErrCodeValidationFormat
             \<or> c = ErrCodeValidationRange then 400
     else if c = ErrCodeConfigNotFound then 404
     else if c = ErrCodeConfigInvalid then 400
     else if c = ErrCodeNetworkTimeout then 408
     else if c = ErrCodeNetworkRefused \<or> c = ErrCodeNetworkUnreachable then 503
     else if c = ErrCodeSystemOutOfMemory \<or> c = ErrCodeSystemResourceLimit then 507
     else if c = ErrCodeSystemPanic \<or> c = ErrCodeSystemInternalError then 500
     else if c = ErrCodeBusinessLogicError then 422
     else if c = ErrCodeBusinessRuleViolation then 409
     else (case err_Level e of
             LevelFatal \<Rightarrow> 500 | LevelError \<Rightarrow> 500 | LevelWarn \<Rightarrow> 400 | _ \<Rightarrow> 500))"

text \<open>The codes of \<^verbatim>\<open>google.golang.org/grpc/codes\<close> that the interceptor returns.\<close>

datatype grpc_code =
    Unauthenticated | PermissionDenied | InvalidArgument | NotFound | DeadlineExceeded
  | Unavailable | ResourceExhausted | Internal | FailedPrecondition | AlreadyExists | Unknown

definition getGRPCCode :: "MuxError \<Rightarrow> grpc_code" where
  "getGRPCCode e = (let c = err_Code e in
     if c = ErrCodeAuthUnauthorized then Unauthenticated
     else if c = ErrCodeAuthForbidden then PermissionDenied
     else if c = ErrCodeAuthTokenExpired \<or> c = ErrCodeAuthTokenInvalid then Unauthenticated
     else if c = ErrCodeValidationRequired \<or> c = ErrCodeValidationFormat
             \<or> c = ErrCodeValidationRange then InvalidArgument
     else if c = ErrCodeConfigNotFound then NotFound
     else if c = ErrCodeConfigInvalid then InvalidArgument
     else if c = ErrCodeNetworkTimeout then DeadlineExceeded
     else if c = ErrCodeNetworkRefused \<or> c = ErrCodeNetworkUnreachable then Unavailable
     else if c = ErrCodeSystemOutOfMemory \<or> c = ErrCodeSystemResourceLimit then ResourceExhausted
     else if c = ErrCodeSystemPanic \<or> c = ErrCodeSystemInternalError then Internal
     else if c = ErrCodeBusinessLogicError then FailedPrecondition
     else if c = ErrCodeBusinessRuleViolation then AlreadyExists
     else (case err_Level e of
             LevelFatal \<Rightarrow> Internal | LevelError \<Rightarrow> Internal
           | LevelWarn \<Rightarrow> InvalidArgument | _ \<Rightarrow> Unknown))"

text \<open>The HTTP status that stands for each gRPC code: the specification both tables refine.\<close>

fun http_of_grpc :: "grpc_code \<Rightarrow> int" where
  "http_of_grpc Unauthenticated = 401"
| "http_of_grpc PermissionDenied = 403"
| "http_of_grpc InvalidArgument = 400"
| "http_of_grpc NotFound = 404"
| "http_of_grpc DeadlineExceeded = 408"
| "http_of_grpc Unavailable = 503"
| "http_of_grpc ResourceExhausted = 507"
| "http_of_grpc Internal = 500"
| "http_of_grpc FailedPrecondition = 422"
| "http_of_grpc AlreadyExists = 409"
| "http_of_grpc Unknown = 500"

lemma http_grpc_agree: "getHTTPStatusCode e = http_of_grpc (getGRPCCode e)"
  unfolding getHTTPStatusCode_def getGRPCCode_def Let_def
  by (simp split: ErrorLevel.split)

section \<open>Classifying foreign errors\<close>

text \<open>
  \<^verbatim>\<open>contains\<close>: a keyword matches where every byte is equal to the text's byte or differs
  from it by exactly 32 in either direction (bytes wrap around).
\<close>

definition byte_matches :: "char \<Rightarrow> char \<Rightarrow> bool" where
  "byte_matches c k \<longleftrightarrow>
     (of_char c :: byte) = of_char k \<or> (of_char c :: byte) = of_char k - 32
     \<or> (of_char c :: byte) = of_char k + 32"

definition matches_at :: "string \<Rightarrow> string \<Rightarrow> nat \<Rightarrow> bool" where
  "matches_at s k i \<longleftrightarrow> (\<forall>j<length k. byte_matches (s ! (i + j)) (k ! j))"

definition contains_kw :: "string \<Rightarrow> string list \<Rightarrow> bool" where
  "contains_kw s ks \<longleftrightarrow>
     (\<exists>k\<in>set ks. length k \<le> length s \<and> (\<exists>i\<in>set [0..<Suc (length s - length k)]. matches_at s k i))"

lemma byte_matches_refl [simp]: "byte_matches c c"
  by (simp add: byte_matches_def)

lemma matches_at_exact: "matches_at (l @ k @ r) k (length l)"
  by (simp add: matches_at_def nth_append)

text \<open>The switch over the message text at the end of \<^verbatim>\<open>convertBuiltin\<close>.\<close>

definition convertText :: "string \<Rightarrow> time \<Rightarrow> MuxError" where
  "convertText m now =
     (if contains_kw m [''timeout'', ''timed out'']
      then New ErrCodeNetworkTimeout CategoryNetwork LevelError m now
      else if contains_kw m [''connection refused'', ''refused'']
      then New ErrCodeNetworkRefused CategoryNetwork LevelError m now
      else if contains_kw m [''connection reset'', ''reset'']
      then New ErrCodeNetworkConnectionLost CategoryNetwork LevelError m now
      else if contains_kw m [''out of memory'', ''memory'']
      then New ErrCodeSystemOutOfMemory CategorySystem LevelFatal m now
      else if contains_kw m [''not found'', ''no such'']
      then New ErrCodeConfigNotFound CategoryConfig LevelError m now
      else if contains_kw m [''permission denied'', ''forbidden'']
      then New ErrCodeAuthForbidden CategoryAuth LevelError m now
      else if contains_kw m [''invalid'', ''malformed'']
      then New ErrCodeValidationFormat CategoryValidation LevelError m now
      else if contains_kw m [''overflow'', ''too large'']
      then New ErrCodeBufferOverflow CategoryBuffer LevelError m now
      else if contains_kw m [''not enough'', ''insufficient'']
      then New ErrCodeBufferNotEnough CategoryBuffer LevelError m now
      else New ErrCodeSystemUnknown CategorySystem LevelError m now)"

text \<open>
  What the code inspects of an \<^verbatim>\<open>error\<close> value: whether its chain holds a \<^verbatim>\<open>MuxError\<close>, a
  \<^verbatim>\<open>net.Error\<close> (with its two flags) or an errno, and the text it prints.
\<close>

datatype errno = ECONNREFUSED | ENETUNREACH | ETIMEDOUT | ENOMEM | EMFILE | ENFILE | OtherErrno

record go_error =
  as_MuxError :: "MuxError option"
  as_NetError :: "(bool \<times> bool) option"  \<comment> \<open>Timeout(), Temporary()\<close>
  as_Errno :: "errno option"
  error_text :: string
  error_type :: string

definition convertErrno :: "errno \<Rightarrow> time \<Rightarrow> MuxError option" where
  "convertErrno n now = (case n of
     ECONNREFUSED \<Rightarrow> Some (New ErrCodeNetworkRefused CategoryNetwork LevelError ''Connection refused'' now)
   | ENETUNREACH \<Rightarrow> Some (New ErrCodeNetworkUnreachable CategoryNetwork LevelError ''Network unreachable'' now)
   | ETIMEDOUT \<Rightarrow> Some (New ErrCodeNetworkTimeout CategoryNetwork LevelError ''Connection timeout'' now)
   | ENOMEM \<Rightarrow> Some (New ErrCodeSystemOutOfMemory CategorySystem LevelFatal ''Out of memory'' now)
   | EMFILE \<Rightarrow> Some (New ErrCodeSystemResourceLimit CategorySystem LevelError ''Too many open files'' now)
   | ENFILE \<Rightarrow> Some (New ErrCodeSystemResourceLimit CategorySystem LevelError ''Too many open files'' now)
   | OtherErrno \<Rightarrow> None)"

definition convertBuiltin :: "go_error \<Rightarrow> time \<Rightarrow> MuxError" where
  "convertBuiltin err now =
     (case as_NetError err of
        Some (timeout, temporary) \<Rightarrow>
          if timeout then New ErrCodeNetworkTimeout CategoryNetwork LevelError ''Network timeout'' now
          else if temporary
          then New ErrCodeNetworkConnectionLost CategoryNetwork LevelWarn ''Temporary network error'' now
          else (case Option.bind (as_Errno err) (\<lambda>n. convertErrno n now) of
                  Some e \<Rightarrow> e | None \<Rightarrow> convertText (error_text err) now)
      | None \<Rightarrow>
          (case Option.bind (as_Errno err) (\<lambda>n. convertErrno n now) of
             Some e \<Rightarrow> e | None \<Rightarrow> convertText (error_text err) now))"

text \<open>\<^verbatim>\<open>Convert\<close>, with the registered converters as a map from the error's dynamic type.\<close>

definition Convert ::
  "(string \<rightharpoonup> (go_error \<Rightarrow> MuxError)) \<Rightarrow> go_error option \<Rightarrow> time \<Rightarrow> MuxError option" where
  "Convert converters err now = (case err of
     None \<Rightarrow> None
   | Some e \<Rightarrow> (case as_MuxError e of
       Some m \<Rightarrow> Some m
     | None \<Rightarrow> (case converters (error_type e) of
         Some f \<Rightarrow> Some (f e)
       | None \<Rightarrow> Some (convertBuiltin e now))))"

lemma contains_kw_sub:
  assumes "k \<in> set ks" and "contains_sub s k"
  shows "contains_kw s ks"
proof -
  from assms(2) obtain l r where s: "s = l @ k @ r" by (auto simp: contains_sub_iff)
  then have "length l \<in> set [0..<Suc (length s - length k)]" and "length k \<le> length s" by auto
  with s matches_at_exact assms(1) show ?thesis unfolding contains_kw_def by blast
qed

text \<open>An error is well classified when its category is the one its code's range stands for.\<close>

definition well_classified :: "MuxError \<Rightarrow> bool" where
  "well_classified e \<longleftrightarrow> err_Category e = GetErrorCategory (err_Code e)"

lemma well_classified_New [simp]:
  "well_classified (New c cat l m now) \<longleftrightarrow> cat = GetErrorCategory c"
  by (simp add: well_classified_def New_def)

lemma GetErrorCategory_codes [simp]:
  "GetErrorCategory ErrCodeNetworkTimeout = CategoryNetwork"
  "GetErrorCategory ErrCodeNetworkRefused = CategoryNetwork"
  "GetErrorCategory ErrCodeNetworkUnreachable = CategoryNetwork"
  "GetErrorCategory ErrCodeNetworkConnectionLost = CategoryNetwork"
  "GetErrorCategory ErrCodeSystemOutOfMemory = CategorySystem"
  "GetErrorCategory ErrCodeSystemResourceLimit = CategorySystem"
  "GetErrorCategory ErrCodeSystemUnknown = CategorySystem"
  "GetErrorCategory ErrCodeConfigNotFound = CategoryConfig"
  "GetErrorCategory ErrCodeAuthForbidden = CategoryAuth"
  "GetErrorCategory ErrCodeValidationFormat = CategoryValidation"
  "GetErrorCategory ErrCodeBufferOverflow = CategoryBuffer"
  "GetErrorCategory ErrCodeBufferNotEnough = CategoryBuffer"
  by (simp_all add: GetErrorCategory_def err_codes)

lemma well_classified_convertText [simp]: "well_classified (convertText m now)"
  unfolding convertText_def by simp

lemma well_classified_convertErrno: "convertErrno n now = Some e \<Longrightarrow> well_classified e"
  unfolding convertErrno_def by (cases n) auto

lemma well_classified_convertBuiltin: "well_classified (convertBuiltin err now)"
  unfolding convertBuiltin_def
  by (auto split: option.split prod.split simp: bind_eq_Some_conv dest: well_classified_convertErrno)

end
