(* ===== verification/Error_Manager.thy ===== *)
theory Error_Manager
  imports Mux_Errors
begin

text \<open>
  The error manager of \<^verbatim>\<open>pkg/errors/handler.go\<close> and the built-in handlers, recoveries
  and reporters of \<^verbatim>\<open>builtin.go\<close>. The Go interface \<^verbatim>\<open>ErrorHandler\<close> is the locale
  \<open>prioritised_handlers\<close>, interpreted on the built-in handlers. Locks are left out: every
  method runs under the manager's lock. \<^verbatim>\<open>logger.Fatalf\<close> ends the process
  (\<^verbatim>\<open>os.Exit(1)\<close>), which is a result of its own.
\<close>

section \<open>The ordered handler list\<close>

text \<open>The loop of \<^verbatim>\<open>RegisterHandler\<close>: before the first handler of lower priority, else at the end.\<close>

fun insert_by_priority :: "('h \<Rightarrow> int) \<Rightarrow> 'h \<Rightarrow> 'h list \<Rightarrow> 'h list" where
  "insert_by_priority prio h [] = [h]"
| "insert_by_priority prio h (x # xs) =
     (if prio h > prio x then h # x # xs else x # insert_by_priority prio h xs)"

text \<open>The loop of \<^verbatim>\<open>handleError\<close>: the first handler that can handle the error runs, the rest do not.\<close>

fun dispatch ::
  "('h \<Rightarrow> 'e \<Rightarrow> bool) \<Rightarrow> ('e \<Rightarrow> 'w \<Rightarrow> 'h \<Rightarrow> 'h \<times> 'w) \<Rightarrow> 'e \<Rightarrow> 'w \<Rightarrow> 'h list \<Rightarrow> 'h list \<times> 'w" where
  "dispatch can run e w [] = ([], w)"
| "dispatch can run e w (h # hs) =
     (if can h e then (let (h', w') = run e w h in (h' # hs, w'))
      else (let (hs', w') = dispatch can run e w hs in (h # hs', w')))"

definition by_priority :: "('h \<Rightarrow> int) \<Rightarrow> 'h list \<Rightarrow> bool" where
  "by_priority prio hs \<longleftrightarrow> sorted (map (\<lambda>h. - prio h) hs)"

lemma set_insert_by_priority [simp]: "set (insert_by_priority prio h hs) = insert h (set hs)"
  by (induction hs) auto

lemma mset_insert_by_priority [simp]: "mset (insert_by_priority prio h hs) = add_mset h (mset hs)"
  by (induction hs) auto

lemma by_priority_insert [inv_intros]:
  "by_priority prio hs \<Longrightarrow> by_priority prio (insert_by_priority prio h hs)"
  unfolding by_priority_def by (induction hs) (auto simp: less_imp_le)

lemma filter_insert_by_priority:
  assumes "by_priority prio hs"
  shows "filter (\<lambda>x. prio x = k) (insert_by_priority prio h hs) =
         filter (\<lambda>x. prio x = k) hs @ (if prio h = k then [h] else [])"
  using assms
proof (induction hs)
  case (Cons x xs)
  then have IH: "filter (\<lambda>x. prio x = k) (insert_by_priority prio h xs) =
      filter (\<lambda>x. prio x = k) xs @ (if prio h = k then [h] else [])"
    by (simp add: by_priority_def)
  show ?case
  proof (cases "prio h > prio x")
    case True
    with Cons.prems have "\<forall>y\<in>set (x # xs). prio y < prio h" by (force simp: by_priority_def)
    then have "filter (\<lambda>y. prio y = prio h) (x # xs) = []" by (auto simp: filter_empty_conv)
    with True show ?thesis by (cases "prio h = k") auto
  next
    case False
    with IH show ?thesis by simp
  qed
qed simp

lemma registered_invariants:
  defines "reg \<equiv> \<lambda>prio hs0 regs. foldl (\<lambda>hs h. insert_by_priority prio h hs) hs0 regs"
  assumes "by_priority prio hs0"
  shows "by_priority prio (reg prio hs0 regs)"
    and "mset (reg prio hs0 regs) = mset hs0 + mset regs"
    and "filter (\<lambda>x. prio x = k) (reg prio hs0 regs) =
         filter (\<lambda>x. prio x = k) hs0 @ filter (\<lambda>x. prio x = k) regs"
  unfolding reg_def using assms(2)
  by (induction regs arbitrary: hs0) (auto simp: by_priority_insert filter_insert_by_priority)

lemma registered_sort_key:
  "foldl (\<lambda>hs h. insert_by_priority prio h hs) [] regs = sort_key (\<lambda>h. - prio h) regs"
proof (rule properties_for_sort_key [symmetric])
  let ?r = "foldl (\<lambda>hs h. insert_by_priority prio h hs) [] regs"
  have e: "by_priority prio []" by (simp add: by_priority_def)
  show "mset ?r = mset regs" using registered_invariants(2)[OF e, of regs] by simp
  show "sorted (map (\<lambda>h. - prio h) ?r)"
    using registered_invariants(1)[OF e, of regs] by (simp add: by_priority_def)
  fix k assume "k \<in> set ?r"
  show "filter (\<lambda>x. - prio k = - prio x) ?r = filter (\<lambda>x. - prio k = - prio x) regs"
    using registered_invariants(3)[OF e, of "prio k" regs] by (simp add: eq_commute[of "prio k"])
qed

text \<open>
  What the manager relies on of the interface \<^verbatim>\<open>ErrorHandler\<close>: handling an error leaves the
  handler's priority as it is.
\<close>

locale prioritised_handlers =
  fixes prio :: "'h \<Rightarrow> int"
    and can :: "'h \<Rightarrow> 'e \<Rightarrow> bool"
    and run :: "'e \<Rightarrow> 'w \<Rightarrow> 'h \<Rightarrow> 'h \<times> 'w"
  assumes prio_run: "prio (fst (run e w h)) = prio h"
begin

lemma map_prio_dispatch: "map prio (fst (dispatch can run e w hs)) = map prio hs"
proof (induction hs)
  case (Cons h hs)
  then show ?case by (simp add: case_prod_beta prio_run)
qed simp

lemma by_priority_dispatch:
  assumes "by_priority prio hs"
  shows "by_priority prio (fst (dispatch can run e w hs))"
proof -
  have "map (\<lambda>h. - prio h) (fst (dispatch can run e w hs)) = map (\<lambda>h. - prio h) hs"
    using arg_cong[OF map_prio_dispatch[of e w hs], of "map uminus"] by (simp add: comp_def)
  with assms show ?thesis by (simp add: by_priority_def)
qed

lemma dispatch_decompose:
  "find (\<lambda>h. can h e) hs = Some h \<Longrightarrow>
   \<exists>us vs. hs = us @ h # vs \<and> (\<forall>u\<in>set us. \<not> can u e) \<and>
     dispatch can run e w hs = (us @ fst (run e w h) # vs, snd (run e w h))"
proof (induction hs)
  case (Cons x xs)
  show ?case
  proof (cases "can x e")
    case True
    with Cons.prems show ?thesis
      by (intro exI[of _ "[]"] exI[of _ xs]) (auto split: prod.split)
  next
    case False
    with Cons obtain us vs where "xs = us @ h # vs" "\<forall>u\<in>set us. \<not> can u e"
      "dispatch can run e w xs = (us @ fst (run e w h) # vs, snd (run e w h))" by auto
    with False show ?thesis by (intro exI[of _ "x # us"] exI[of _ vs]) auto
  qed
qed simp

lemma dispatch_none: "find (\<lambda>h. can h e) hs = None \<Longrightarrow> dispatch can run e w hs = (hs, w)"
  by (induction hs) (auto split: if_splits)

lemma dispatched_is_highest:
  assumes "by_priority prio hs" and "find (\<lambda>h. can h e) hs = Some h"
    and "h' \<in> set hs" and "can h' e"
  shows "prio h' \<le> prio h"
proof -
  obtain us vs where "hs = us @ h # vs" "\<forall>u\<in>set us. \<not> can u e"
    using find_Some_append_first[OF assms(2)] by blast
  with assms show ?thesis by (auto simp: by_priority_def sorted_append)
qed

end

section \<open>The built-in handlers\<close>

record breaker =
  brk_priority :: int
  brk_failureThreshold :: int
  brk_failureCount :: int
  brk_lastFailureTime :: time
  brk_resetTimeout :: duration
  brk_isOpen :: bool

text \<open>
  The shutdown channel: how many signals it can still buffer (or hand to a waiting receiver),
  and how many were sent.
\<close>

record shutdown_chan =
  chan_room :: nat
  chan_sent :: nat

datatype ErrorHandler =
    LoggingErrorHandler int
  | CircuitBreakerErrorHandler breaker
  | GracefulShutdownErrorHandler int

definition NewCircuitBreakerErrorHandler :: "int \<Rightarrow> int \<Rightarrow> duration \<Rightarrow> ErrorHandler" where
  "NewCircuitBreakerErrorHandler prio threshold timeout =
     CircuitBreakerErrorHandler
       \<lparr>brk_priority = prio, brk_failureThreshold = threshold, brk_failureCount = 0,
        brk_lastFailureTime = 0, brk_resetTimeout = timeout, brk_isOpen = False\<rparr>"

definition breaker_Handle :: "time \<Rightarrow> breaker \<Rightarrow> breaker" where
  "breaker_Handle now b =
     (let b' = b\<lparr>brk_failureCount := brk_failureCount b + 1, brk_lastFailureTime := now\<rparr>
      in if brk_failureCount b' \<ge> brk_failureThreshold b' then b'\<lparr>brk_isOpen := True\<rparr> else b')"

text \<open>\<^verbatim>\<open>IsOpen\<close> resets an expired breaker before it answers.\<close>

definition breaker_IsOpen :: "time \<Rightarrow> breaker \<Rightarrow> bool \<times> breaker" where
  "breaker_IsOpen now b =
     (let b' = (if brk_isOpen b \<and> now - brk_lastFailureTime b > brk_resetTimeout b
                then b\<lparr>brk_isOpen := False, brk_failureCount := 0\<rparr> else b)
      in (brk_isOpen b', b'))"

definition shutdown_Handle :: "MuxError \<Rightarrow> shutdown_chan \<Rightarrow> shutdown_chan" where
  "shutdown_Handle err ch =
     (if (err_Level err = LevelFatal \<or> err_Code err = ErrCodeSystemShutdown) \<and> chan_room ch > 0
      then ch\<lparr>chan_room := chan_room ch - 1, chan_sent := chan_sent ch + 1\<rparr> else ch)"

fun handler_Priority :: "ErrorHandler \<Rightarrow> int" where
  "handler_Priority (LoggingErrorHandler p) = p"
| "handler_Priority (CircuitBreakerErrorHandler b) = brk_priority b"
| "handler_Priority (GracefulShutdownErrorHandler p) = p"

fun handler_CanHandle :: "ErrorHandler \<Rightarrow> MuxError \<Rightarrow> bool" where
  "handler_CanHandle (LoggingErrorHandler p) err = True"
| "handler_CanHandle (CircuitBreakerErrorHandler b) err =
     (err_Category err = CategoryNetwork \<or> err_Category err = CategorySystem)"
| "handler_CanHandle (GracefulShutdownErrorHandler p) err =
     (err_Level err = LevelFatal \<or> err_Code err = ErrCodeSystemShutdown)"

text \<open>\<^verbatim>\<open>Handle\<close> of each handler; every one returns \<^verbatim>\<open>nil\<close>.\<close>

fun handler_Handle ::
  "time \<Rightarrow> MuxError \<Rightarrow> shutdown_chan \<Rightarrow> ErrorHandler \<Rightarrow> ErrorHandler \<times> shutdown_chan" where
  "handler_Handle now err ch (LoggingErrorHandler p) = (LoggingErrorHandler p, ch)"
| "handler_Handle now err ch (CircuitBreakerErrorHandler b) =
     (CircuitBreakerErrorHandler (breaker_Handle now b), ch)"
| "handler_Handle now err ch (GracefulShutdownErrorHandler p) =
     (GracefulShutdownErrorHandler p, shutdown_Handle err ch)"

interpretation mux_handlers: prioritised_handlers
  handler_Priority handler_CanHandle "handler_Handle now"
proof
  fix e w h
  show "handler_Priority (fst (handler_Handle now e w h)) = handler_Priority h"
    by (cases h) (simp_all add: breaker_Handle_def Let_def)
qed

section \<open>Recoveries and reporters\<close>

text \<open>What a recovery's \<^verbatim>\<open>error\<close> result can be; \<open>None\<close> is \<^verbatim>\<open>nil\<close>.\<close>

datatype rec_error = MaxRetriesExceeded int | ContextDone | RetrySameError

datatype ErrorRecovery =
    RetryErrorRecovery int duration
  | ResourceCleanupErrorRecovery "string option list"

text \<open>
  \<^verbatim>\<open>RetryErrorRecovery.Recover\<close>; \<open>ctx_done\<close> says whether the context is done before the
  delay is over. On the branch that retries, the code returns the error itself.
\<close>

definition retryCount :: "MuxError \<Rightarrow> int" where
  "retryCount err = (case err_Context err ''retry_count'' of Some (CtxInt c) \<Rightarrow> c | _ \<Rightarrow> 0)"

definition retry_Recover :: "int \<Rightarrow> bool \<Rightarrow> MuxError \<Rightarrow> MuxError \<times> rec_error option" where
  "retry_Recover maxRetries ctx_done err =
     (if retryCount err \<ge> maxRetries then (err, Some (MaxRetriesExceeded maxRetries))
      else if ctx_done then (err, Some ContextDone)
      else (WithContext err ''retry_count'' (CtxInt (retryCount err + 1)), Some RetrySameError))"

fun recovery_CanRecover :: "ErrorRecovery \<Rightarrow> MuxError \<Rightarrow> bool" where
  "recovery_CanRecover (RetryErrorRecovery m d) err =
     (err_Category err = CategoryNetwork \<or> err_Code err = ErrCodeSystemResourceLimit
      \<or> err_Code err = ErrCodeBufferPoolEmpty)"
| "recovery_CanRecover (ResourceCleanupErrorRecovery fs) err =
     (err_Category err = CategorySystem \<or> err_Code err = ErrCodeSystemOutOfMemory
      \<or> err_Code err = ErrCodeSystemResourceLimit)"

text \<open>
  \<^verbatim>\<open>Recover\<close>: the changed error, the result, and how many cleanup functions were called
  (all of them, failures included; the list holds what each call returns).
\<close>

fun recovery_Recover ::
  "bool \<Rightarrow> MuxError \<Rightarrow> ErrorRecovery \<Rightarrow> MuxError \<times> rec_error option \<times> nat" where
  "recovery_Recover ctx_done err (RetryErrorRecovery m d) =
     (let (err', r) = retry_Recover m ctx_done err in (err', r, 0))"
| "recovery_Recover ctx_done err (ResourceCleanupErrorRecovery fs) = (err, None, length fs)"

text \<open>\<^verbatim>\<open>tryRecover\<close>: the first recovery that can, and only that one.\<close>

fun tryRecover ::
  "bool \<Rightarrow> MuxError \<Rightarrow> ErrorRecovery list \<Rightarrow> MuxError \<times> rec_error option \<times> nat" where
  "tryRecover ctx_done err [] = (err, None, 0)"
| "tryRecover ctx_done err (r # rs) =
     (if recovery_CanRecover r err then recovery_Recover ctx_done err r
      else tryRecover ctx_done err rs)"

record reporter_metrics =
  last_error_code :: ErrorCode
  last_error_category :: ErrorCategory
  last_error_level :: ErrorLevel
  last_error_time :: time

datatype ErrorReporter =
    MetricsErrorReporter "reporter_metrics option"
  | AlertErrorReporter ErrorLevel

text \<open>\<^verbatim>\<open>Report\<close>: the reporter afterwards and the number of alerts it logged.\<close>

fun reporter_Report :: "MuxError \<Rightarrow> ErrorReporter \<Rightarrow> ErrorReporter \<times> nat" where
  "reporter_Report err (MetricsErrorReporter m) =
     (MetricsErrorReporter (Some \<lparr>last_error_code = err_Code err,
        last_error_category = err_Category err, last_error_level = err_Level err,
        last_error_time = err_Timestamp err\<rparr>), 0)"
| "reporter_Report err (AlertErrorReporter threshold) =
     (AlertErrorReporter threshold, if err_Level err \<ge> threshold then 1 else 0)"

fun reportError :: "MuxError \<Rightarrow> ErrorReporter list \<Rightarrow> ErrorReporter list \<times> nat" where
  "reportError err [] = ([], 0)"
| "reportError err (r # rs) =
     (let (r', a) = reporter_Report err r; (rs', b) = reportError err rs in (r' # rs', a + b))"

section \<open>The manager\<close>

record ErrorMetrics =
  TotalErrors :: int
  ErrorsByCode :: "ErrorCode \<rightharpoonup> int"
  ErrorsByLevel :: "ErrorLevel \<rightharpoonup> int"
  ErrorsByCategory :: "ErrorCategory \<rightharpoonup> int"
  LastError :: "MuxError option"
  LastErrorTime :: time

record ErrorManager =
  em_handlers :: "ErrorHandler list"
  em_reporters :: "ErrorReporter list"
  em_recoveries :: "ErrorRecovery list"
  em_metrics :: ErrorMetrics

definition emptyMetrics :: ErrorMetrics where
  "emptyMetrics = \<lparr>TotalErrors = 0, ErrorsByCode = Map.empty, ErrorsByLevel = Map.empty,
     ErrorsByCategory = Map.empty, LastError = None, LastErrorTime = 0\<rparr>"

definition NewErrorManager :: ErrorManager where
  "NewErrorManager = \<lparr>em_handlers = [], em_reporters = [], em_recoveries = [],
     em_metrics = emptyMetrics\<rparr>"

definition RegisterHandler :: "ErrorHandler \<Rightarrow> ErrorManager \<Rightarrow> ErrorManager" where
  "RegisterHandler h em =
     em\<lparr>em_handlers := insert_by_priority handler_Priority h (em_handlers em)\<rparr>"

definition RegisterReporter :: "ErrorReporter \<Rightarrow> ErrorManager \<Rightarrow> ErrorManager" where
  "RegisterReporter r em = em\<lparr>em_reporters := em_reporters em @ [r]\<rparr>"

definition RegisterRecovery :: "ErrorRecovery \<Rightarrow> ErrorManager \<Rightarrow> ErrorManager" where
  "RegisterRecovery r em = em\<lparr>em_recoveries := em_recoveries em @ [r]\<rparr>"

definition ResetMetrics :: "ErrorManager \<Rightarrow> ErrorManager" where
  "ResetMetrics em = em\<lparr>em_metrics := emptyMetrics\<rparr>"

text \<open>\<^verbatim>\<open>GetMetrics\<close> copies the maps.\<close>

definition GetMetrics :: "ErrorManager \<Rightarrow> ErrorMetrics" where
  "GetMetrics em = em_metrics em"

definition count_up :: "('k \<rightharpoonup> int) \<Rightarrow> 'k \<Rightarrow> ('k \<rightharpoonup> int)" where
  "count_up m k = m(k \<mapsto> (case m k of None \<Rightarrow> 0 | Some n \<Rightarrow> n) + 1)"

definition updateMetrics :: "time \<Rightarrow> MuxError \<Rightarrow> ErrorMetrics \<Rightarrow> ErrorMetrics" where
  "updateMetrics now err m =
     \<lparr>TotalErrors = TotalErrors m + 1,
      ErrorsByCode = count_up (ErrorsByCode m) (err_Code err),
      ErrorsByLevel = count_up (ErrorsByLevel m) (err_Level err),
      ErrorsByCategory = count_up (ErrorsByCategory m) (err_Category err),
      LastError = Some err, LastErrorTime = now\<rparr>"

definition handleError ::
  "time \<Rightarrow> MuxError \<Rightarrow> shutdown_chan \<Rightarrow> ErrorManager \<Rightarrow> ErrorManager \<times> shutdown_chan" where
  "handleError now err ch em =
     (let (hs, ch') = dispatch handler_CanHandle (handler_Handle now) err ch (em_handlers em)
      in (em\<lparr>em_handlers := hs\<rparr>, ch'))"

text \<open>
  \<^verbatim>\<open>Handle\<close>. \<open>err\<close> is what \<^verbatim>\<open>errors.As\<close> finds: \<open>None\<close> when the error's chain holds no
  \<^verbatim>\<open>MuxError\<close>, and then \<^verbatim>\<open>updateMetrics\<close> dereferences a nil pointer. \<open>logError\<close> exits the
  process at level fatal, after the metrics were updated and before anything else.
\<close>

datatype handle_result =
    Panicked
  | Exited ErrorManager
  | Returned ErrorManager shutdown_chan MuxError "rec_error option" nat nat

definition Handle ::
  "bool \<Rightarrow> time \<Rightarrow> MuxError option \<Rightarrow> shutdown_chan \<Rightarrow> ErrorManager \<Rightarrow> handle_result" where
  "Handle ctx_done now err ch em = (case err of
     None \<Rightarrow> Panicked
   | Some e \<Rightarrow>
       (let em1 = em\<lparr>em_metrics := updateMetrics now e (em_metrics em)\<rparr> in
        if err_Level e = LevelFatal then Exited em1
        else
          (let (e2, recovered, cleaned) = tryRecover ctx_done e (em_recoveries em1);
               (em3, ch3) = handleError now e2 ch em1;
               (rs, alerts) = reportError e2 (em_reporters em3)
           in Returned (em3\<lparr>em_reporters := rs\<rparr>) ch3 e2 recovered cleaned alerts)))"

definition InitBuiltinHandlers :: "ErrorManager \<Rightarrow> ErrorManager" where
  "InitBuiltinHandlers em =
     RegisterReporter (AlertErrorReporter LevelError)
     (RegisterReporter (MetricsErrorReporter None)
     (RegisterRecovery (ResourceCleanupErrorRecovery [])
     (RegisterRecovery (RetryErrorRecovery 3 second)
     (RegisterHandler (GracefulShutdownErrorHandler 1000)
     (RegisterHandler (NewCircuitBreakerErrorHandler 100 5 (30 * second))
     (RegisterHandler (LoggingErrorHandler 0) em))))))"

section \<open>Lemmas and properties\<close>

lemma em_handlers_foldl_RegisterHandler:
  "em_handlers (foldl (\<lambda>em h. RegisterHandler h em) em regs) =
   foldl (\<lambda>hs h. insert_by_priority handler_Priority h hs) (em_handlers em) regs"
  by (induction regs arbitrary: em) (simp_all add: RegisterHandler_def)

lemma builtin_handlers:
  "em_handlers (InitBuiltinHandlers NewErrorManager) =
     [GracefulShutdownErrorHandler 1000, NewCircuitBreakerErrorHandler 100 5 (30 * second),
      LoggingErrorHandler 0]"
  "em_recoveries (InitBuiltinHandlers NewErrorManager) =
     [RetryErrorRecovery 3 second, ResourceCleanupErrorRecovery []]"
  by (simp_all add: InitBuiltinHandlers_def NewErrorManager_def RegisterHandler_def
        RegisterReporter_def RegisterRecovery_def NewCircuitBreakerErrorHandler_def)

lemma retry_Recover_frame:
  "retry_Recover m d e = (e', r) \<Longrightarrow>
   err_Code e' = err_Code e \<and> err_Level e' = err_Level e \<and> err_Category e' = err_Category e"
  by (auto simp: retry_Recover_def WithContext_def split: if_splits)

lemma tryRecover_frame:
  "tryRecover d e rs = (e', r, n) \<Longrightarrow>
   err_Code e' = err_Code e \<and> err_Level e' = err_Level e \<and> err_Category e' = err_Category e"
proof (induction rs)
  case (Cons x xs)
  then show ?case
    by (cases x) (auto split: if_splits prod.splits dest: retry_Recover_frame)
qed simp

lemma retry_Recover_never_nil: "snd (retry_Recover m d e) \<noteq> None"
  by (simp add: retry_Recover_def)

text \<open>
  C1. Whatever the order of registration, the manager keeps its handlers in a stable sort by
  decreasing priority: a handler of higher priority always comes first, and among equals the
  one registered first.
\<close>

theorem RegisterHandler_is_stable_sort:
  "em_handlers (foldl (\<lambda>em h. RegisterHandler h em) NewErrorManager regs) =
   sort_key (\<lambda>h. - handler_Priority h) regs"
  using registered_sort_key[of handler_Priority regs]
  by (simp add: em_handlers_foldl_RegisterHandler NewErrorManager_def)

text \<open>
  With the handlers in priority order, an error that some handler can take runs exactly
  one handler: one of the highest priority among those that can take it. Every other handler is
  unchanged and the list stays in priority order.
\<close>

lemma handleError_runs_highest:
  assumes sorted: "by_priority handler_Priority (em_handlers em)"
    and h: "h \<in> set (em_handlers em)" "handler_CanHandle h err"
  shows "\<exists>us x vs. em_handlers em = us @ x # vs \<and> handler_CanHandle x err \<and>
    (\<forall>y\<in>set (em_handlers em). handler_CanHandle y err \<longrightarrow> handler_Priority y \<le> handler_Priority x) \<and>
    handleError now err ch em =
      (em\<lparr>em_handlers := us @ fst (handler_Handle now err ch x) # vs\<rparr>,
       snd (handler_Handle now err ch x)) \<and>
    by_priority handler_Priority (us @ fst (handler_Handle now err ch x) # vs)"
proof -
  obtain x where x: "find (\<lambda>h. handler_CanHandle h err) (em_handlers em) = Some x"
    using h by (metis find_None_iff not_None_eq)
  from mux_handlers.dispatch_decompose[OF x, of now ch] obtain us vs where
    d: "em_handlers em = us @ x # vs" "dispatch handler_CanHandle (handler_Handle now) err ch
      (em_handlers em) = (us @ fst (handler_Handle now err ch x) # vs, snd (handler_Handle now err ch x))"
    by blast
  moreover have "by_priority handler_Priority (us @ fst (handler_Handle now err ch x) # vs)"
    using mux_handlers.by_priority_dispatch[OF sorted, of now err ch] d(2) by simp
  moreover have "handler_CanHandle x err" using find_in_set[OF x] by simp
  ultimately show ?thesis
    using mux_handlers.dispatched_is_highest[OF sorted x]
    by (intro exI[of _ us] exI[of _ x] exI[of _ vs]) (auto simp: handleError_def)
qed

lemma handleError_runs_highest_witness:
  "\<exists>us x vs. em_handlers (InitBuiltinHandlers NewErrorManager) = us @ x # vs"
  using handleError_runs_highest[of "InitBuiltinHandlers NewErrorManager" "LoggingErrorHandler 0"
      "New ErrCodeNetworkTimeout CategoryNetwork LevelError ''t'' 0" 0 "\<lparr>chan_room = 1, chan_sent = 0\<rparr>"]
  by (auto simp: builtin_handlers NewCircuitBreakerErrorHandler_def by_priority_def)


text \<open>
  The built-in retry recovery never reports success: for every error it takes (network
  errors, resource limits, an empty buffer pool) recovery fails, and no cleanup function of a
  recovery registered after it runs, even for the system errors those are meant for.
\<close>

lemma retry_recovery_always_fails:
  assumes "recovery_CanRecover (RetryErrorRecovery m d) err"
  shows "\<exists>err' e. tryRecover ctx_done err (RetryErrorRecovery m d # rs) = (err', Some e, 0)
           \<and> (e = RetrySameError \<longrightarrow> retryCount err' = retryCount err + 1 \<and> retryCount err' \<le> m)"
  using assms
  by (auto simp: retry_Recover_def WithContext_def Let_def retryCount_def split: option.split ctx_value.split)

lemma retry_recovery_always_fails_witness:
  "\<exists>err' e. tryRecover False (New ErrCodeSystemResourceLimit CategorySystem LevelError ''limit'' 0)
     (em_recoveries (InitBuiltinHandlers NewErrorManager)) = (err', Some e, 0)"
  using retry_recovery_always_fails[of 3 second
      "New ErrCodeSystemResourceLimit CategorySystem LevelError ''limit'' 0" False
      "[ResourceCleanupErrorRecovery []]"]
  by (auto simp: builtin_handlers New_def)

end
