(* ===== verification/Bytes_Buffer.thy ===== *)
theory Bytes_Buffer
  imports Prelude
begin

text \<open>
  \<^verbatim>\<open>pkg/buffer/bytes_buffer.go\<close>: the growable byte buffer with separate read and write
  positions, its fixed-width, varint and zigzag codecs. An operation that can panic (a slice
  expression out of range) returns \<open>None\<close> there. The scratch array \<^verbatim>\<open>temp\<close> is left out: the
  bytes the code copies from it are the ones it has just put there.
\<close>

section \<open>State\<close>

datatype ByteOrder = BigEndian | LittleEndian

datatype buf_error = ErrNotEnough | ErrOverflow | EOF

record BytesBuffer =
  buf :: bytes
  rpos :: int
  wpos :: int
  order :: ByteOrder
  buf_cap :: nat

definition NewBytesBufferWithOrder :: "nat \<Rightarrow> ByteOrder \<Rightarrow> BytesBuffer" where
  "NewBytesBufferWithOrder n ord =
     \<lparr>buf = replicate n 0, rpos = 0, wpos = 0, order = ord, buf_cap = n\<rparr>"

definition NewBytesBuffer :: "nat \<Rightarrow> BytesBuffer" where
  "NewBytesBuffer n = NewBytesBufferWithOrder n BigEndian"

text \<open>A slice passed in by the caller may have spare capacity \<open>c\<close> beyond its length.\<close>

definition CreateBytesBufferWithOrder :: "bytes \<Rightarrow> nat \<Rightarrow> ByteOrder \<Rightarrow> BytesBuffer" where
  "CreateBytesBufferWithOrder data c ord =
     \<lparr>buf = data, rpos = 0, wpos = int (length data), order = ord, buf_cap = length data + c\<rparr>"

definition CreateBytesBuffer :: "bytes \<Rightarrow> nat \<Rightarrow> BytesBuffer" where
  "CreateBytesBuffer data c = CreateBytesBufferWithOrder data c BigEndian"

definition Remain :: "BytesBuffer \<Rightarrow> int" where
  "Remain b = wpos b - rpos b"

definition Len :: "BytesBuffer \<Rightarrow> int" where
  "Len b = wpos b - 0"

definition Cap :: "BytesBuffer \<Rightarrow> int" where
  "Cap b = int (buf_cap b)"

definition Reset :: "BytesBuffer \<Rightarrow> BytesBuffer" where
  "Reset b = b\<lparr>rpos := 0, wpos := 0\<rparr>"

definition SetRPos :: "BytesBuffer \<Rightarrow> int \<Rightarrow> BytesBuffer" where
  "SetRPos b pos = b\<lparr>rpos := pos\<rparr>"

definition GetRPos :: "BytesBuffer \<Rightarrow> int" where
  "GetRPos b = rpos b"

definition GetWPos :: "BytesBuffer \<Rightarrow> int" where
  "GetWPos b = wpos b"

text \<open>\<^verbatim>\<open>b.buf[:b.wpos]\<close>. Between length and capacity the slice would show the hidden tail of
  the array; the invariant \<open>buf_wf\<close> below keeps the position within the length.\<close>

definition Bytes :: "BytesBuffer \<Rightarrow> bytes option" where
  "Bytes b = (if 0 \<le> wpos b \<and> wpos b \<le> int (length (buf b)) then Some (take (nat (wpos b)) (buf b)) else None)"

section \<open>Writing\<close>

definition grow :: "BytesBuffer \<Rightarrow> int \<Rightarrow> BytesBuffer option" where
  "grow b n = (let m = 2 * int (length (buf b)) + n in
     if 0 \<le> m \<and> 0 \<le> wpos b \<and> wpos b \<le> int (length (buf b))
     then (let old = take (nat (wpos b)) (buf b);
               new = take (nat m) (old @ replicate (nat m - length old) 0)
           in Some (b\<lparr>buf := new, buf_cap := nat m\<rparr>))
     else None)"

definition SetWPos :: "BytesBuffer \<Rightarrow> int \<Rightarrow> BytesBuffer option" where
  "SetWPos b pos =
     (if int (length (buf b)) < pos
      then map_option (\<lambda>b. b\<lparr>wpos := pos\<rparr>) (grow b (pos - int (length (buf b))))
      else Some (b\<lparr>wpos := pos\<rparr>))"

text \<open>\<^verbatim>\<open>copy(b.buf[b.wpos:], src)\<close>: as many bytes as fit, from the write position.\<close>

definition copy_at :: "bytes \<Rightarrow> int \<Rightarrow> bytes \<Rightarrow> bytes option" where
  "copy_at dst pos src =
     (if 0 \<le> pos \<and> pos \<le> int (length dst)
      then (let p = nat pos; n = min (length dst - p) (length src)
            in Some (take p dst @ take n src @ drop (p + n) dst))
      else None)"

definition Write :: "BytesBuffer \<Rightarrow> bytes \<Rightarrow> BytesBuffer option" where
  "Write b bs = (let l = int (length bs) in
     Option.bind (if int (length (buf b)) < wpos b + l then grow b l else Some b) (\<lambda>b.
     Option.bind (copy_at (buf b) (wpos b) bs) (\<lambda>new.
     Some (b\<lparr>buf := new, wpos := wpos b + l\<rparr>))))"

definition WriteString :: "BytesBuffer \<Rightarrow> string \<Rightarrow> BytesBuffer option" where
  "WriteString b str = Write b (bytes_of str)"

definition WriteByte :: "BytesBuffer \<Rightarrow> byte \<Rightarrow> BytesBuffer option" where
  "WriteByte b c =
     Option.bind (if int (length (buf b)) < wpos b + 1 then grow b 1 else Some b) (\<lambda>b.
     if 0 \<le> wpos b \<and> wpos b < int (length (buf b))
     then Some (b\<lparr>buf := (buf b)[nat (wpos b) := c], wpos := wpos b + 1\<rparr>) else None)"

text \<open>\<^verbatim>\<open>encoding/binary\<close>: \<open>k\<close> bytes, least significant first, or reversed.\<close>

definition le_bytes :: "nat \<Rightarrow> 'a::len word \<Rightarrow> bytes" where
  "le_bytes k u = map (\<lambda>i. ucast (drop_bit (8 * i) u)) [0..<k]"

fun le_word :: "bytes \<Rightarrow> 'a::len word" where
  "le_word [] = 0"
| "le_word (b # bs) = ucast b OR push_bit 8 (le_word bs)"

definition put_uint :: "ByteOrder \<Rightarrow> nat \<Rightarrow> 'a::len word \<Rightarrow> bytes" where
  "put_uint ord k u = (case ord of LittleEndian \<Rightarrow> le_bytes k u | BigEndian \<Rightarrow> rev (le_bytes k u))"

definition get_uint :: "ByteOrder \<Rightarrow> bytes \<Rightarrow> 'a::len word" where
  "get_uint ord bs = (case ord of LittleEndian \<Rightarrow> le_word bs | BigEndian \<Rightarrow> le_word (rev bs))"

definition WriteUint16 :: "BytesBuffer \<Rightarrow> 16 word \<Rightarrow> BytesBuffer option" where
  "WriteUint16 b u = Write b (put_uint (order b) 2 u)"

definition WriteUint32 :: "BytesBuffer \<Rightarrow> 32 word \<Rightarrow> BytesBuffer option" where
  "WriteUint32 b u = Write b (put_uint (order b) 4 u)"

definition WriteUint64 :: "BytesBuffer \<Rightarrow> 64 word \<Rightarrow> BytesBuffer option" where
  "WriteUint64 b u = Write b (put_uint (order b) 8 u)"

section \<open>Reading\<close>

text \<open>
  \<^verbatim>\<open>Read(p)\<close> with \<open>len p = n\<close>: the bytes copied into \<open>p\<close>. The code bounds the read by the
  length of the array, not by the write position.
\<close>

definition Read :: "BytesBuffer \<Rightarrow> nat \<Rightarrow> (BytesBuffer \<times> (buf_error + bytes)) option" where
  "Read b n =
     (if rpos b \<ge> int (length (buf b)) then Some (b, Inl EOF)
      else if rpos b < 0 then None
      else (let got = take n (drop (nat (rpos b)) (buf b))
            in Some (b\<lparr>rpos := rpos b + int (length got)\<rparr>, Inr got)))"

definition ReadFull :: "BytesBuffer \<Rightarrow> nat \<Rightarrow> (BytesBuffer \<times> (buf_error + bytes)) option" where
  "ReadFull b n =
     (if Remain b < int n then Some (b, Inl ErrNotEnough)
      else if rpos b < 0 \<or> rpos b > int (length (buf b)) then None
      else (let got = take n (drop (nat (rpos b)) (buf b))
            in if length got < n then Some (b, Inl ErrNotEnough)
               else Some (b\<lparr>rpos := rpos b + int (length got)\<rparr>, Inr got)))"

text \<open>The common shape of \<^verbatim>\<open>Next\<close> and the fixed-width reads: \<open>n\<close> bytes at the read position.\<close>

definition Next :: "BytesBuffer \<Rightarrow> int \<Rightarrow> (BytesBuffer \<times> (buf_error + bytes)) option" where
  "Next b n =
     (if n > Remain b then Some (b, Inl ErrNotEnough)
      else if 0 \<le> rpos b \<and> 0 \<le> n \<and> rpos b + n \<le> int (length (buf b))
      then Some (b\<lparr>rpos := rpos b + n\<rparr>, Inr (take (nat n) (drop (nat (rpos b)) (buf b))))
      else None)"

definition map_read :: "('a \<Rightarrow> 'c) \<Rightarrow> (BytesBuffer \<times> (buf_error + 'a)) option
    \<Rightarrow> (BytesBuffer \<times> (buf_error + 'c)) option" where
  "map_read f r = map_option (map_prod id (map_sum id f)) r"

definition ReadUint16 :: "BytesBuffer \<Rightarrow> (BytesBuffer \<times> (buf_error + 16 word)) option" where
  "ReadUint16 b = map_read (get_uint (order b)) (Next b 2)"

definition ReadUint32 :: "BytesBuffer \<Rightarrow> (BytesBuffer \<times> (buf_error + 32 word)) option" where
  "ReadUint32 b = map_read (get_uint (order b)) (Next b 4)"

definition ReadUint64 :: "BytesBuffer \<Rightarrow> (BytesBuffer \<times> (buf_error + 64 word)) option" where
  "ReadUint64 b = map_read (get_uint (order b)) (Next b 8)"

definition ReadInt :: "BytesBuffer \<Rightarrow> (BytesBuffer \<times> (buf_error + int)) option" where
  "ReadInt b = map_read uint (ReadUint32 b)"

definition ReadByte :: "BytesBuffer \<Rightarrow> (BytesBuffer \<times> (buf_error + byte)) option" where
  "ReadByte b =
     (if rpos b \<ge> int (length (buf b)) then Some (b, Inl EOF)
      else if rpos b < 0 then None
      else Some (b\<lparr>rpos := rpos b + 1\<rparr>, Inr (buf b ! nat (rpos b))))"

section \<open>Varints\<close>

text \<open>
  \<^verbatim>\<open>WriteVarint\<close> and \<^verbatim>\<open>ReadVarint\<close> only use the byte operations, so the loops are stated over
  any of them; \<open>l\<close> counts the bytes written, the reader starts at \<open>offset\<close> with \<open>k\<close> rounds left.
\<close>

lemma unat_drop_bit_7_less: "128 \<le> u \<Longrightarrow> unat (drop_bit 7 u) < unat (u :: 64 word)"
proof -
  assume "128 \<le> u"
  then have "128 \<le> unat u" by (simp add: word_le_nat_alt)
  then show ?thesis by (simp add: drop_bit_eq_div unat_div)
qed

function write_varint :: "('b \<Rightarrow> byte \<Rightarrow> 'b option) \<Rightarrow> 'b \<Rightarrow> 64 word \<Rightarrow> int \<Rightarrow> ('b \<times> int) option" where
  "write_varint put b u l =
     (if u \<ge> 128
      then (case put b (ucast ((u AND 0x7f) OR 0x80)) of
              None \<Rightarrow> None | Some b' \<Rightarrow> write_varint put b' (drop_bit 7 u) (l + 1))
      else (case put b (ucast u) of None \<Rightarrow> None | Some b' \<Rightarrow> Some (b', l + 1)))"
  by pat_completeness auto
termination
  by (relation "measure (\<lambda>(put, b, u, l). unat u)") (auto simp: unat_drop_bit_7_less)

declare write_varint.simps [simp del]

fun read_varint ::
  "('b \<Rightarrow> ('b \<times> (buf_error + byte)) option) \<Rightarrow> nat \<Rightarrow> nat \<Rightarrow> 64 word \<Rightarrow> 'b
   \<Rightarrow> ('b \<times> (buf_error + 64 word)) option" where
  "read_varint get 0 offset x b = Some (b, Inl ErrOverflow)"
| "read_varint get (Suc k) offset x b = (case get b of
     None \<Rightarrow> None
   | Some (b', Inl err) \<Rightarrow> Some (b', Inl err)
   | Some (b', Inr temp) \<Rightarrow>
       if temp AND 0x80 \<noteq> 0x80
       then Some (b', Inr (x OR push_bit offset (ucast temp)))
       else read_varint get k (offset + 7) (x OR push_bit offset (ucast (temp AND 0x7f))) b')"

definition WriteVarint :: "BytesBuffer \<Rightarrow> 64 word \<Rightarrow> (BytesBuffer \<times> int) option" where
  "WriteVarint b u = write_varint WriteByte b u 0"

text \<open>The offsets 0, 7, ..., 63: ten rounds.\<close>

definition ReadVarint :: "BytesBuffer \<Rightarrow> (BytesBuffer \<times> (buf_error + 64 word)) option" where
  "ReadVarint b = read_varint ReadByte 10 0 0 b"

definition zigzag64 :: "64 word \<Rightarrow> 64 word" where
  "zigzag64 u = push_bit 1 u XOR signed_drop_bit 63 u"

definition unzigzag64 :: "64 word \<Rightarrow> 64 word" where
  "unzigzag64 x = drop_bit 1 x XOR - (x AND 1)"

definition zigzag32 :: "32 word \<Rightarrow> 64 word" where
  "zigzag32 u = ucast (push_bit 1 u XOR signed_drop_bit 31 u)"

definition unzigzag32 :: "64 word \<Rightarrow> 64 word" where
  "unzigzag32 x = ucast (drop_bit 1 (ucast x :: 32 word) XOR - (ucast (x AND 1) :: 32 word))"

definition WriteZigzag64 :: "BytesBuffer \<Rightarrow> 64 word \<Rightarrow> (BytesBuffer \<times> int) option" where
  "WriteZigzag64 b u = WriteVarint b (zigzag64 u)"

definition WriteZigzag32 :: "BytesBuffer \<Rightarrow> 32 word \<Rightarrow> (BytesBuffer \<times> int) option" where
  "WriteZigzag32 b u = WriteVarint b (zigzag32 u)"

definition ReadZigzag64 :: "BytesBuffer \<Rightarrow> (BytesBuffer \<times> (buf_error + 64 word)) option" where
  "ReadZigzag64 b = map_read unzigzag64 (ReadVarint b)"

definition ReadZigzag32 :: "BytesBuffer \<Rightarrow> (BytesBuffer \<times> (buf_error + 64 word)) option" where
  "ReadZigzag32 b = map_read unzigzag32 (ReadVarint b)"

section \<open>Codec lemmas\<close>

lemma length_le_bytes [simp]: "length (le_bytes k u) = k"
  by (simp add: le_bytes_def)

lemma length_put_uint [simp]: "length (put_uint ord k u) = k"
  by (simp add: put_uint_def split: ByteOrder.split)

lemma le_bytes_Suc: "le_bytes (Suc k) u = ucast u # le_bytes k (drop_bit 8 u)"
proof -
  have "[0..<Suc k] = 0 # map Suc [0..<k]" by (simp add: upt_conv_Cons map_Suc_upt del: upt_Suc)
  then show ?thesis by (simp add: le_bytes_def drop_bit_drop_bit add.commute)
qed

lemma le_word_le_bytes: "le_word (le_bytes k u) = take_bit (8 * k) (u :: 'a::len word)"
proof (induction k arbitrary: u)
  case (Suc k)
  have "ucast (ucast u :: byte) OR push_bit 8 (take_bit (8 * k) (drop_bit 8 u)) = take_bit (8 * Suc k) u"
    by (rule bit_word_eqI) (auto simp: bit_simps)
  with Suc show ?case by (simp add: le_bytes_Suc)
qed (simp add: le_bytes_def)

lemma get_put_uint: "LENGTH('a) \<le> 8 * k \<Longrightarrow> get_uint ord (put_uint ord k (u :: 'a::len word)) = u"
  by (simp add: get_uint_def put_uint_def le_word_le_bytes take_bit_word_eq_self split: ByteOrder.split)

text \<open>The bytes a varint is made of.\<close>

function varint_bytes :: "64 word \<Rightarrow> bytes" where
  "varint_bytes u = (if u \<ge> 128 then ucast ((u AND 0x7f) OR 0x80) # varint_bytes (drop_bit 7 u)
                     else [ucast u])"
  by pat_completeness auto
termination
  by (relation "measure unat") (auto simp: unat_drop_bit_7_less)

declare varint_bytes.simps [simp del]

lemma length_varint_bytes_aux: "unat u < 2 ^ (7 * Suc n) \<Longrightarrow> length (varint_bytes u) \<le> Suc n"
proof (induction n arbitrary: u)
  case 0
  then have "\<not> 128 \<le> u" by (simp add: word_le_nat_alt)
  then show ?case by (simp add: varint_bytes.simps[of u])
next
  case (Suc n)
  have "unat (drop_bit 7 u) = unat u div 128" by (simp add: drop_bit_eq_div unat_div)
  also have "\<dots> < 2 ^ (7 * Suc n)"
    using Suc.prems by (simp add: less_mult_imp_div_less power_add)
  finally show ?case using Suc.IH[of "drop_bit 7 u"] by (simp add: varint_bytes.simps[of u])
qed

lemma length_varint_bytes: "length (varint_bytes u) \<le> 10"
proof -
  have "unat u < 2 ^ 64" using unsigned_less[of u] by simp
  then have "unat u < 2 ^ (7 * Suc 9)" by simp
  then show ?thesis using length_varint_bytes_aux[of u 9] by simp
qed

lemma length_varint_bytes_pos: "0 < length (varint_bytes u)"
  by (subst varint_bytes.simps) simp

lemma bit_128 [simp]: "bit (128 :: 'a::len word) k \<longleftrightarrow> k = 7 \<and> 7 < LENGTH('a)"
proof -
  have "(128 :: 'a word) = 2 ^ 7" by simp
  then show ?thesis by (simp only: bit_exp_iff) (auto simp: bit_simps)
qed

lemma bit_128_int [simp]: "bit (128 :: int) k \<longleftrightarrow> k = 7"
proof -
  have "(128 :: int) = 2 ^ 7" by simp
  then show ?thesis by (simp only: bit_exp_iff) (auto simp: bit_simps)
qed

lemma and_127: "(u :: 'a::len word) AND 0x7f = take_bit 7 u"
  by (simp add: take_bit_eq_mask mask_eq_exp_minus_1)

lemma continuation_byte:
  "(ucast (((u :: 64 word) AND 0x7f) OR 0x80) :: byte) AND 0x80 = 0x80"
  "ucast ((ucast ((u AND 0x7f) OR 0x80) :: byte) AND 0x7f) = u AND 0x7f"
  unfolding and_127 by (rule bit_word_eqI; auto simp: bit_simps)+

lemma take_bit_7_less_128: "\<not> (128 :: 64 word) \<le> u \<Longrightarrow> take_bit 7 u = u"
proof -
  assume "\<not> 128 \<le> u"
  then have "unat u < 128" by (simp add: word_le_nat_alt)
  then have "unat (take_bit 7 u) = unat u" by (simp add: take_bit_eq_mod unat_mod)
  then show ?thesis by (simp only: word_unat_eq_iff)
qed

lemma last_byte:
  assumes "\<not> (128 :: 64 word) \<le> u"
  shows "(ucast u :: byte) AND 0x80 \<noteq> 0x80" and "ucast (ucast u :: byte) = u"
proof -
  note u = take_bit_7_less_128[OF assms]
  have high: "\<not> bit u m" if "7 \<le> m" for m
    using u that by (metis bit_take_bit_iff not_less)
  have "bit (0x80 :: byte) 7" by simp
  moreover have "\<not> bit ((ucast u :: byte) AND 0x80) 7" using high[of 7] by (simp add: bit_simps)
  ultimately show "(ucast u :: byte) AND 0x80 \<noteq> 0x80" by metis
  show "ucast (ucast u :: byte) = u"
  proof (rule bit_word_eqI)
    fix m show "bit (ucast (ucast u :: byte) :: 64 word) m = bit u m"
      using high[of m] by (cases "7 \<le> m") (auto simp: bit_simps)
  qed
qed

lemma varint_step: "push_bit n (u AND 0x7f) OR push_bit (n + 7) (drop_bit 7 u) = push_bit n (u :: 64 word)"
  unfolding and_127
proof (rule bit_word_eqI)
  fix m
  have "n + 7 \<le> m \<Longrightarrow> 7 + (m - (n + 7)) = m - n" by arith
  then show "bit (push_bit n (take_bit 7 u) OR push_bit (n + 7) (drop_bit 7 u)) m = bit (push_bit n u) m"
    by (cases "n + 7 \<le> m") (auto simp: bit_simps)
qed

section \<open>Byte channels\<close>

text \<open>
  What the varint codec relies on: a component that takes bytes at one end (\<open>put\<close>) and gives
  them at the other (\<open>get\<close>) in order; \<open>pending\<close> is what has been put and not yet got.
\<close>

locale byte_channel =
  fixes put :: "'b \<Rightarrow> byte \<Rightarrow> 'b option"
    and get :: "'b \<Rightarrow> ('b \<times> (buf_error + byte)) option"
    and inv :: "'b \<Rightarrow> bool"
    and pending :: "'b \<Rightarrow> bytes"
  assumes put_ok: "inv b \<Longrightarrow> \<exists>b'. put b c = Some b' \<and> inv b' \<and> pending b' = pending b @ [c]"
    and get_ok: "inv b \<Longrightarrow> pending b = c # cs \<Longrightarrow>
                 \<exists>b'. get b = Some (b', Inr c) \<and> inv b' \<and> pending b' = cs"
begin

lemma write_varint_pending:
  "inv b \<Longrightarrow> \<exists>b'. write_varint put b u l = Some (b', l + int (length (varint_bytes u))) \<and> inv b' \<and>
     pending b' = pending b @ varint_bytes u"
proof (induction u arbitrary: b l rule: varint_bytes.induct)
  case (1 u)
  show ?case
  proof (cases "u \<ge> 128")
    case True
    from put_ok[OF "1.prems"] obtain b1 where
      b1: "put b (ucast ((u AND 0x7f) OR 0x80)) = Some b1" "inv b1"
        "pending b1 = pending b @ [ucast ((u AND 0x7f) OR 0x80)]" by blast
    from "1.IH"[OF True b1(2), of "l + 1"] True b1 show ?thesis
      by (auto simp: write_varint.simps[of put b u l] varint_bytes.simps[of u] algebra_simps)
  next
    case False
    from put_ok[OF "1.prems"] obtain b1 where
      "put b (ucast u) = Some b1" "inv b1" "pending b1 = pending b @ [ucast u]" by blast
    with False show ?thesis
      by (auto simp: write_varint.simps[of put b u l] varint_bytes.simps[of u])
  qed
qed

lemma read_varint_pending:
  "inv b \<Longrightarrow> pending b = varint_bytes u @ rest \<Longrightarrow> length (varint_bytes u) \<le> k \<Longrightarrow>
   \<exists>b'. read_varint get k n x b = Some (b', Inr (x OR push_bit n u)) \<and> inv b' \<and> pending b' = rest"
proof (induction u arbitrary: b k n x rule: varint_bytes.induct)
  case (1 u)
  from "1.prems"(3) obtain k' where k: "k = Suc k'"
    using length_varint_bytes_pos[of u] by (cases k) auto
  show ?case
  proof (cases "u \<ge> 128")
    case True
    let ?c = "ucast ((u AND 0x7f) OR 0x80) :: byte"
    have p: "pending b = ?c # (varint_bytes (drop_bit 7 u) @ rest)"
      using "1.prems"(2) True by (simp add: varint_bytes.simps[of u])
    from get_ok[OF "1.prems"(1) p] obtain b1 where
      b1: "get b = Some (b1, Inr ?c)" "inv b1" "pending b1 = varint_bytes (drop_bit 7 u) @ rest" by blast
    have "length (varint_bytes (drop_bit 7 u)) \<le> k'"
      using "1.prems"(3) True k by (simp add: varint_bytes.simps[of u])
    from "1.IH"[OF True b1(2,3) this, of "n + 7" "x OR push_bit n (ucast (?c AND 0x7f))"]
    show ?thesis
      using k b1 continuation_byte[of u] varint_step[of n u]
      by (simp add: or.assoc add.commute[of 7])
  next
    case False
    with "1.prems"(2) have p: "pending b = ucast u # rest" by (simp add: varint_bytes.simps[of u])
    from get_ok[OF "1.prems"(1) p] obtain b1 where
      "get b = Some (b1, Inr (ucast u))" "inv b1" "pending b1 = rest" by blast
    with k last_byte[OF False] show ?thesis by simp
  qed
qed

lemma varint_channel_roundtrip:
  assumes "inv b" and "pending b = []"
  shows "\<exists>b1 b2. write_varint put b u 0 = Some (b1, int (length (varint_bytes u))) \<and>
     read_varint get 10 0 0 b1 = Some (b2, Inr u) \<and> inv b2 \<and> pending b2 = []"
proof -
  from write_varint_pending[OF assms(1), of u 0] assms(2) obtain b1 where
    b1: "write_varint put b u 0 = Some (b1, int (length (varint_bytes u)))" "inv b1"
      "pending b1 = varint_bytes u @ []" by auto
  from read_varint_pending[OF b1(2,3) length_varint_bytes, of 0 0] b1(1) show ?thesis by auto
qed

end

section \<open>The buffer as a byte channel\<close>

definition buf_wf :: "BytesBuffer \<Rightarrow> bool" where
  "buf_wf b \<longleftrightarrow> 0 \<le> rpos b \<and> rpos b \<le> wpos b \<and> wpos b \<le> int (length (buf b))"

definition unread :: "BytesBuffer \<Rightarrow> bytes" where
  "unread b = drop (nat (rpos b)) (take (nat (wpos b)) (buf b))"

lemma length_unread: "buf_wf b \<Longrightarrow> int (length (unread b)) = Remain b"
  by (auto simp: buf_wf_def unread_def Remain_def)

lemma buf_wfE:
  assumes "buf_wf b"
  obtains r w where "rpos b = int r" "wpos b = int w" "r \<le> w" "w \<le> length (buf b)"
proof -
  from assms have "0 \<le> rpos b" "0 \<le> wpos b" by (auto simp: buf_wf_def)
  then obtain r w where "rpos b = int r" "wpos b = int w" by (metis nonneg_int_cases)
  with assms show thesis by (intro that[of r w]) (auto simp: buf_wf_def)
qed

lemma grow_ok:
  assumes "buf_wf b" and "0 \<le> n"
  shows "\<exists>b'. grow b n = Some b' \<and> buf_wf b' \<and> rpos b' = rpos b \<and> wpos b' = wpos b \<and>
     order b' = order b \<and> take (nat (wpos b)) (buf b') = take (nat (wpos b)) (buf b) \<and>
     int (length (buf b')) = 2 * int (length (buf b)) + n"
proof -
  from assms(1) obtain r w where b: "rpos b = int r" "wpos b = int w" "r \<le> w" "w \<le> length (buf b)"
    by (rule buf_wfE)
  obtain k where n: "n = int k" using assms(2) by (metis nonneg_int_cases)
  have m: "nat (2 * int (length (buf b)) + int k) = 2 * length (buf b) + k" by linarith
  let ?new = "take (2 * length (buf b) + k)
    (take w (buf b) @ replicate (2 * length (buf b) + k - length (take w (buf b))) 0)"
  have "length ?new = 2 * length (buf b) + k" using b(4) by simp
  moreover have "take w ?new = take w (buf b)" using b(4) by (simp add: min_def)
  ultimately show ?thesis
    using b m n by (simp add: grow_def buf_wf_def Let_def)
qed

lemma copy_at_ok:
  assumes "p + length src \<le> length dst"
  shows "copy_at dst (int p) src = Some (take p dst @ src @ drop (p + length src) dst)"
  using assms by (auto simp: copy_at_def Let_def min_def)

text \<open>After the check at the head of every write, the array has room for it.\<close>

lemma ensure_room:
  assumes "buf_wf b"
  shows "\<exists>b'. (if int (length (buf b)) < wpos b + int n then grow b (int n) else Some b) = Some b' \<and>
     buf_wf b' \<and> rpos b' = rpos b \<and> wpos b' = wpos b \<and> order b' = order b \<and>
     take (nat (wpos b)) (buf b') = take (nat (wpos b)) (buf b) \<and>
     nat (wpos b) + n \<le> length (buf b')"
proof (cases "int (length (buf b)) < wpos b + int n")
  case True
  from grow_ok[OF assms, of "int n"] obtain b' where
    "grow b (int n) = Some b'" "buf_wf b'" "rpos b' = rpos b" "wpos b' = wpos b" "order b' = order b"
    "take (nat (wpos b)) (buf b') = take (nat (wpos b)) (buf b)"
    "int (length (buf b')) = 2 * int (length (buf b)) + int n" by auto
  moreover from this have "nat (wpos b) + n \<le> length (buf b')"
    using assms unfolding buf_wf_def by linarith
  ultimately show ?thesis using True by auto
next
  case False
  moreover from this have "nat (wpos b) + n \<le> length (buf b)"
    using assms unfolding buf_wf_def by linarith
  ultimately show ?thesis using assms by auto
qed

lemma Write_ok:
  assumes wf: "buf_wf b"
  shows "\<exists>b'. Write b bs = Some b' \<and> buf_wf b' \<and> unread b' = unread b @ bs \<and>
     rpos b' = rpos b \<and> wpos b' = wpos b + int (length bs) \<and> order b' = order b"
proof -
  from wf obtain r w where b: "rpos b = int r" "wpos b = int w" "r \<le> w" "w \<le> length (buf b)"
    by (rule buf_wfE)
  obtain b1 where b1: "(if int (length (buf b)) < wpos b + int (length bs) then grow b (int (length bs))
      else Some b) = Some b1" "rpos b1 = int r" "wpos b1 = int w" "order b1 = order b"
    "take w (buf b1) = take w (buf b)" "w + length bs \<le> length (buf b1)"
    using ensure_room[OF wf, of "length bs"] b by auto
  let ?new = "take w (buf b1) @ bs @ drop (w + length bs) (buf b1)"
  let ?b' = "b1\<lparr>buf := ?new, wpos := int w + int (length bs)\<rparr>"
  have "take (w + length bs) ?new = take w (buf b) @ bs"
    using b1(5,6) b(4) by simp
  then have "unread ?b' = drop r (take w (buf b) @ bs)"
    using b1 by (simp add: unread_def nat_add_distrib del: take_append)
  also have "\<dots> = unread b @ bs" using b by (simp add: unread_def)
  finally have "unread ?b' = unread b @ bs" .
  moreover have "buf_wf ?b'" using b1 b by (simp add: buf_wf_def)
  ultimately show ?thesis
    using b1 b copy_at_ok[OF b1(6)] by (simp add: Write_def Let_def)
qed

lemma WriteByte_ok:
  assumes wf: "buf_wf b"
  shows "\<exists>b'. WriteByte b c = Some b' \<and> buf_wf b' \<and> unread b' = unread b @ [c]"
proof -
  from wf obtain r w where b: "rpos b = int r" "wpos b = int w" "r \<le> w" "w \<le> length (buf b)"
    by (rule buf_wfE)
  obtain b1 where b1: "(if int (length (buf b)) < wpos b + 1 then grow b 1 else Some b) = Some b1"
    "rpos b1 = int r" "wpos b1 = int w" "take w (buf b1) = take w (buf b)" "w + 1 \<le> length (buf b1)"
    using ensure_room[OF wf, of 1, unfolded of_nat_1] b by auto
  let ?b' = "b1\<lparr>buf := (buf b1)[w := c], wpos := int w + 1\<rparr>"
  have "take (Suc w) ((buf b1)[w := c]) = take w (buf b) @ [c]"
    using b1(4,5) by (simp add: take_Suc_conv_app_nth)
  moreover have "nat (int w + 1) = Suc w" by simp
  ultimately have "unread ?b' = drop r (take w (buf b) @ [c])"
    using b1 by (simp add: unread_def)
  also have "\<dots> = unread b @ [c]" using b by (simp add: unread_def)
  finally have "unread ?b' = unread b @ [c]" .
  moreover have "buf_wf ?b'" using b1 b by (simp add: buf_wf_def)
  ultimately show ?thesis using b1 b by (simp add: WriteByte_def)
qed

text \<open>Moving the read position forward within what has been written drops that much.\<close>

lemma advance_ok:
  assumes wf: "buf_wf b" and k: "k \<le> length (unread b)"
  shows "buf_wf (b\<lparr>rpos := rpos b + int k\<rparr>)" and "unread (b\<lparr>rpos := rpos b + int k\<rparr>) = drop k (unread b)"
    and "take k (drop (nat (rpos b)) (buf b)) = take k (unread b)"
proof -
  from wf obtain r w where b: "rpos b = int r" "wpos b = int w" "r \<le> w" "w \<le> length (buf b)"
    by (rule buf_wfE)
  with k have rk: "r + k \<le> w" by (simp add: unread_def)
  with b show "buf_wf (b\<lparr>rpos := rpos b + int k\<rparr>)" by (simp add: buf_wf_def)
  show "unread (b\<lparr>rpos := rpos b + int k\<rparr>) = drop k (unread b)"
    using b by (simp add: unread_def nat_add_distrib add.commute)
  show "take k (drop (nat (rpos b)) (buf b)) = take k (unread b)"
    using b rk by (simp add: unread_def take_drop min_def add.commute)
qed

lemma ReadByte_ok:
  assumes wf: "buf_wf b" and u: "unread b = c # cs"
  shows "\<exists>b'. ReadByte b = Some (b', Inr c) \<and> buf_wf b' \<and> unread b' = cs"
proof -
  from wf obtain r w where b: "rpos b = int r" "wpos b = int w" "r \<le> w" "w \<le> length (buf b)"
    by (rule buf_wfE)
  have "length (unread b) = w - r" using b by (simp add: unread_def)
  with u have lt: "r < w" by simp
  have "take 1 (drop r (buf b)) = [c]" using advance_ok(3)[OF wf, of 1] u b by simp
  with lt b have "buf b ! r = c" by (simp add: take_Suc_conv_app_nth hd_drop_conv_nth[symmetric] take_Suc)
  with lt b show ?thesis using advance_ok(1,2)[OF wf, of 1] u by (simp add: ReadByte_def)
qed

lemma Next_ok:
  assumes wf: "buf_wf b" and k: "k \<le> length (unread b)"
  shows "\<exists>b'. Next b (int k) = Some (b', Inr (take k (unread b))) \<and> buf_wf b' \<and>
     unread b' = drop k (unread b) \<and> order b' = order b"
  using advance_ok[OF assms] length_unread[OF wf] k wf
  by (auto simp: Next_def Remain_def buf_wf_def)

interpretation buf_channel: byte_channel WriteByte ReadByte buf_wf unread
  using WriteByte_ok ReadByte_ok by unfold_locales blast+

lemma buf_wf_New [simp]: "buf_wf (NewBytesBufferWithOrder n ord)" "unread (NewBytesBufferWithOrder n ord) = []"
  by (simp_all add: NewBytesBufferWithOrder_def buf_wf_def unread_def)

lemma buf_wf_Create [simp]:
  "buf_wf (CreateBytesBufferWithOrder d c ord)" "unread (CreateBytesBufferWithOrder d c ord) = d"
  by (simp_all add: CreateBytesBufferWithOrder_def buf_wf_def unread_def)

lemma buf_wf_Reset [simp]: "buf_wf (Reset b)" "unread (Reset b) = []"
  by (simp_all add: Reset_def buf_wf_def unread_def)

lemma write_read_uint:
  assumes wf: "buf_wf b" and e: "unread b = []" and len: "LENGTH('a) \<le> 8 * k"
  shows "\<exists>b1 b2. Write b (put_uint (order b) k (u :: 'a::len word)) = Some b1 \<and>
     map_read (get_uint (order b1)) (Next b1 (int k)) = Some (b2, Inr u) \<and> unread b2 = []"
proof -
  obtain b1 where b1: "Write b (put_uint (order b) k u) = Some b1" "buf_wf b1"
    "unread b1 = put_uint (order b) k u" "order b1 = order b"
    using Write_ok[OF wf, of "put_uint (order b) k u"] e by auto
  obtain b2 where "Next b1 (int k) = Some (b2, Inr (put_uint (order b) k u))" "unread b2 = []"
    using Next_ok[OF b1(2), of k] b1(3) by auto
  with b1 len show ?thesis by (auto simp: map_read_def get_put_uint)
qed

section \<open>Zigzag\<close>

lemma signed_drop_bit_sign:
  assumes "Suc n = LENGTH('a)"
  shows "signed_drop_bit n (u :: 'a::len word) = (if bit u n then - 1 else 0)"
  by (rule bit_word_eqI) (auto simp: bit_simps not_le assms[symmetric])

lemma push_bit_and_one: "0 < n \<Longrightarrow> push_bit n (u :: 'a::len word) AND 1 = 0"
  by (rule bit_word_eqI) (auto simp: bit_simps)

lemma not_push_bit_and_one: "0 < n \<Longrightarrow> NOT (push_bit n (u :: 'a::len word)) AND 1 = 1"
  by (rule bit_word_eqI) (auto simp: bit_simps)

lemma ucast_not_push_bit_and_one:
  "0 < n \<Longrightarrow> (ucast (NOT (push_bit n (u :: 32 word))) :: 64 word) AND 1 = 1"
  by (rule bit_word_eqI) (auto simp: bit_simps)

lemma drop_not_push:
  assumes m: "Suc m = LENGTH('a)" "bit u m" and k: "k = 1"
  shows "drop_bit k (NOT (push_bit k (u :: 'a::len word))) XOR - 1 = u"
proof (rule bit_word_eqI)
  fix n assume n: "n < LENGTH('a)"
  show "bit (drop_bit k (NOT (push_bit k u)) XOR - 1) n = bit u n"
  proof (cases "n = m")
    case True
    have "\<not> k + m < LENGTH('a)" using m k by simp
    with True m n show ?thesis by (simp add: bit_simps)
  next
    case False
    then have "k + n < LENGTH('a)" using m k n by simp
    with n show ?thesis by (auto simp: bit_simps)
  qed
qed

lemma drop_push:
  assumes m: "Suc m = LENGTH('a)" "\<not> bit u m" and k: "k = 1"
  shows "drop_bit k (push_bit k (u :: 'a::len word)) = u"
proof (rule bit_word_eqI)
  fix n assume n: "n < LENGTH('a)"
  show "bit (drop_bit k (push_bit k u)) n = bit u n"
  proof (cases "n = m")
    case True
    have "\<not> k + m < LENGTH('a)" using m k by simp
    with True m n show ?thesis by (simp add: bit_simps)
  next
    case False
    then have "k + n < LENGTH('a)" using m k n by simp
    with n show ?thesis by (auto simp: bit_simps)
  qed
qed

lemma ucast_32_64_32 [simp]: "(ucast (ucast (x :: 32 word) :: 64 word) :: 32 word) = x"
  by (rule bit_word_eqI) (auto simp: bit_simps)

lemma ucast_push_bit_and_one: "0 < n \<Longrightarrow> (ucast (push_bit n (u :: 32 word)) :: 64 word) AND 1 = 0"
  by (rule bit_word_eqI) (auto simp: bit_simps)

lemma unzigzag64_zigzag64: "unzigzag64 (zigzag64 u) = u"
proof (cases "bit u 63")
  case True
  then have z: "zigzag64 u = NOT (push_bit 1 u)"
    by (simp add: zigzag64_def signed_drop_bit_sign)
  have "NOT (push_bit 1 u) AND 1 = 1" by (rule not_push_bit_and_one) simp
  moreover have "drop_bit 1 (NOT (push_bit 1 u)) XOR - 1 = u"
    by (rule drop_not_push [OF _ True]) simp_all
  ultimately show ?thesis by (simp add: unzigzag64_def z)
next
  case False
  then have z: "zigzag64 u = push_bit 1 u"
    by (simp add: zigzag64_def signed_drop_bit_sign)
  have "push_bit 1 u AND 1 = 0" by (rule push_bit_and_one) simp
  moreover have "drop_bit 1 (push_bit 1 u) = u"
    by (rule drop_push [OF _ False]) simp_all
  ultimately show ?thesis by (simp add: unzigzag64_def z)
qed

lemma unzigzag32_zigzag32: "unzigzag32 (zigzag32 u) = ucast u"
proof (cases "bit u 31")
  case True
  then have z: "zigzag32 u = ucast (NOT (push_bit 1 u))"
    by (simp add: zigzag32_def signed_drop_bit_sign)
  have "(ucast (NOT (push_bit 1 u)) :: 64 word) AND 1 = 1"
    by (rule ucast_not_push_bit_and_one) simp
  moreover have "drop_bit 1 (NOT (push_bit 1 u)) XOR - 1 = u"
    by (rule drop_not_push [OF _ True]) simp_all
  ultimately show ?thesis by (simp add: unzigzag32_def z)
next
  case False
  then have z: "zigzag32 u = ucast (push_bit 1 u)"
    by (simp add: zigzag32_def signed_drop_bit_sign)
  have "(ucast (push_bit 1 u) :: 64 word) AND 1 = 0" by (rule ucast_push_bit_and_one) simp
  moreover have "drop_bit 1 (push_bit 1 u) = u"
    by (rule drop_push [OF _ False]) simp_all
  ultimately show ?thesis by (simp add: unzigzag32_def z)
qed

lemma varint_buffer_roundtrip:
  assumes "buf_wf b" and "unread b = []"
  shows "\<exists>b1 b2 n. WriteVarint b u = Some (b1, n) \<and> 1 \<le> n \<and> n \<le> 10 \<and>
    ReadVarint b1 = Some (b2, Inr u) \<and> buf_wf b2 \<and> unread b2 = []"
proof -
  from buf_channel.varint_channel_roundtrip[OF assms, of u] obtain b1 b2 where
    "write_varint WriteByte b u 0 = Some (b1, int (length (varint_bytes u)))"
    "read_varint ReadByte 10 0 0 b1 = Some (b2, Inr u)" "buf_wf b2" "unread b2 = []" by blast
  then show ?thesis
    using length_varint_bytes[of u] length_varint_bytes_pos[of u]
    by (intro exI[of _ b1] exI[of _ b2] exI[of _ "int (length (varint_bytes u))"])
       (simp add: WriteVarint_def ReadVarint_def Suc_le_eq)
qed

section \<open>Properties\<close>

text \<open>
  C3. On a well-formed buffer with nothing pending, a varint written is read back unchanged for
  every 64-bit value, takes between one and ten bytes, and leaves nothing behind.
\<close>

theorem varint_roundtrip:
  assumes "buf_wf b" and "unread b = []"
  shows "\<exists>b1 b2 n. WriteVarint b u = Some (b1, n) \<and> 1 \<le> n \<and> n \<le> 10 \<and>
    ReadVarint b1 = Some (b2, Inr u) \<and> buf_wf b2 \<and> unread b2 = []"
  by (rule varint_buffer_roundtrip [OF assms])

theorem varint_roundtrip_witness:
  "\<exists>b1 b2 n. WriteVarint (NewBytesBuffer 1) 300 = Some (b1, n) \<and> ReadVarint b1 = Some (b2, Inr 300)"
  using varint_roundtrip[of "NewBytesBuffer 1" 300] by (auto simp: NewBytesBuffer_def)

text \<open>
  Zigzag values survive the round trip through the buffer at both widths; the 32-bit reader
  returns the value widened to 64 bits.
\<close>

lemma zigzag_roundtrip:
  assumes "buf_wf b" and "unread b = []"
  shows "(\<exists>b1 b2 n. WriteZigzag64 b u = Some (b1, n) \<and> ReadZigzag64 b1 = Some (b2, Inr u)) \<and>
    (\<exists>b1 b2 n. WriteZigzag32 b v = Some (b1, n) \<and> ReadZigzag32 b1 = Some (b2, Inr (ucast v)))"
  using varint_buffer_roundtrip[OF assms, of "zigzag64 u"] varint_buffer_roundtrip[OF assms, of "zigzag32 v"]
  by (fastforce simp: WriteZigzag64_def ReadZigzag64_def WriteZigzag32_def ReadZigzag32_def
      map_read_def unzigzag64_zigzag64 unzigzag32_zigzag32)

lemma zigzag_roundtrip_witness:
  "\<exists>b1 b2 n. WriteZigzag32 (NewBytesBuffer 8) (- 2) = Some (b1, n) \<and>
     ReadZigzag32 b1 = Some (b2, Inr (ucast (- 2 :: 32 word)))"
  using zigzag_roundtrip[of "NewBytesBuffer 8" 0 "- 2"] by (auto simp: NewBytesBuffer_def)

text \<open>
  Integers of 16, 32 and 64 bits survive the round trip in either byte order.
\<close>

lemma uint_roundtrip:
  assumes "buf_wf b" and "unread b = []"
  shows "(\<exists>b1 b2. WriteUint16 b u = Some b1 \<and> ReadUint16 b1 = Some (b2, Inr u)) \<and>
    (\<exists>b1 b2. WriteUint32 b v = Some b1 \<and> ReadUint32 b1 = Some (b2, Inr v)) \<and>
    (\<exists>b1 b2. WriteUint64 b w = Some b1 \<and> ReadUint64 b1 = Some (b2, Inr w))"
  using write_read_uint[OF assms, of 2 u] write_read_uint[OF assms, of 4 v]
    write_read_uint[OF assms, of 8 w]
  by (auto simp: WriteUint16_def ReadUint16_def WriteUint32_def ReadUint32_def
      WriteUint64_def ReadUint64_def)

lemma uint_roundtrip_witness:
  "\<exists>b1 b2. WriteUint16 (NewBytesBufferWithOrder 0 LittleEndian) 0x1234 = Some b1 \<and>
     ReadUint16 b1 = Some (b2, Inr 0x1234)"
  using uint_roundtrip[of "NewBytesBufferWithOrder 0 LittleEndian" "0x1234" 0 0] by auto

text \<open>
  C4. The buffer is a first-in first-out queue of bytes: a write never panics, grows the array as
  needed and appends to what is unread; \<^verbatim>\<open>Next\<close> then takes any prefix of that, in order.
\<close>

theorem Write_Next_fifo:
  assumes "buf_wf b"
  shows "\<exists>b'. Write b bs = Some b' \<and> buf_wf b' \<and> unread b' = unread b @ bs \<and>
    (\<forall>k\<le>length (unread b) + length bs. \<exists>b''. Next b' (int k) = Some (b'', Inr (take k (unread b @ bs))) \<and>
       buf_wf b'' \<and> unread b'' = drop k (unread b @ bs))"
proof -
  obtain b' where b': "Write b bs = Some b'" "buf_wf b'" "unread b' = unread b @ bs"
    using Write_ok[OF assms, of bs] by auto
  have "\<exists>b''. Next b' (int k) = Some (b'', Inr (take k (unread b @ bs))) \<and>
      buf_wf b'' \<and> unread b'' = drop k (unread b @ bs)"
    if "k \<le> length (unread b) + length bs" for k
    using Next_ok[OF b'(2), of k] b'(3) that by auto
  with b' show ?thesis by auto
qed

theorem Write_Next_fifo_witness:
  "\<exists>b'. Write (CreateBytesBuffer [1] 0) [2, 3] = Some b' \<and> unread b' = [1, 2, 3]"
  using Write_Next_fifo[of "CreateBytesBuffer [1] 0" "[2, 3]"] by (auto simp: CreateBytesBuffer_def)

text \<open>
  \<^verbatim>\<open>Read\<close> is bounded by the array instead of the write position: it delivers the unread bytes
  first, and when it is asked for more than those while the array is longer, it goes on into bytes
  nobody wrote and leaves the buffer with a negative number of remaining bytes.
\<close>

lemma Read_past_write_position:
  assumes wf: "buf_wf b" and lt: "rpos b < int (length (buf b))"
  shows "\<exists>b' got. Read b n = Some (b', Inr got) \<and>
    int (length got) = min (int n) (int (length (buf b)) - rpos b) \<and>
    take (length (unread b)) got = take n (unread b) \<and>
    (Remain b' < 0 \<longleftrightarrow> Remain b < int n \<and> wpos b < int (length (buf b)))"
proof -
  from wf obtain r w where b: "rpos b = int r" "wpos b = int w" "r \<le> w" "w \<le> length (buf b)"
    by (rule buf_wfE)
  let ?got = "take n (drop r (buf b))"
  have "unread b = take (w - r) (drop r (buf b))" using b by (simp add: unread_def drop_take)
  then have "take (length (unread b)) ?got = take n (unread b)"
    using b by (simp add: min.commute)
  moreover have "int (length ?got) = min (int n) (int (length (buf b)) - int r)"
    using b by (simp add: min.commute of_nat_diff[symmetric] del: of_nat_diff)
  ultimately show ?thesis
    using b lt by (auto simp: Read_def Let_def Remain_def min_def split: if_splits)
qed

lemma Read_past_write_position_witness:
  "\<exists>b' got. Read ((NewBytesBuffer 4)\<lparr>buf := [7, 0, 0, 0], wpos := 1\<rparr>) 4 = Some (b', Inr got) \<and>
     length got = 4 \<and> Remain b' < 0"
  using Read_past_write_position[of "(NewBytesBuffer 4)\<lparr>buf := [7, 0, 0, 0], wpos := 1\<rparr>" 4]
  by (auto simp: NewBytesBuffer_def NewBytesBufferWithOrder_def buf_wf_def Remain_def)

end
