(* ===== verification/Buffer_Pool.thy ===== *)
theory Buffer_Pool
  imports Bytes_Buffer
begin

text \<open>
  \<^verbatim>\<open>pkg/buffer/unified_pool.go\<close>: the buffer pool, a lock-free stack of buffers (a linked list
  whose head is changed by compare-and-swap) with an atomic counter beside it and a
  \<^verbatim>\<open>sync.Pool\<close> behind it. Threads run \<^verbatim>\<open>Get\<close> and \<^verbatim>\<open>Put\<close> concurrently; every atomic
  instruction (load, compare-and-swap, add) is a step of its own, so all interleavings of the
  code's shared accesses are interleavings of \<open>step\<close>. Nodes and buffers are addresses; a new
  node has an address that was never used before (the garbage collector does not reuse one that
  a thread still holds).
\<close>

section \<open>State\<close>

text \<open>Where a thread is inside \<^verbatim>\<open>Get\<close> or \<^verbatim>\<open>Put\<close>.\<close>

datatype pc = Idle
  | GetStart            \<comment> \<open>about to load the head\<close>
  | GetRead nat         \<comment> \<open>loaded this head, about to read its next field\<close>
  | GetCas nat "nat option"  \<comment> \<open>about to swap the head for the next node\<close>
  | GetDec nat          \<comment> \<open>node taken, counter not decremented yet\<close>
  | GetSync             \<comment> \<open>list was empty, about to ask the \<^verbatim>\<open>sync.Pool\<close>\<close>
  | PutStart nat        \<comment> \<open>buffer reset, about to load the counter\<close>
  | PutNew nat          \<comment> \<open>counter was below the maximum, about to make a node\<close>
  | PutLoop nat         \<comment> \<open>node made, about to load the head\<close>
  | PutCas nat "nat option"  \<comment> \<open>next field set to this head, about to swap\<close>
  | PutInc              \<comment> \<open>node linked, counter not incremented yet\<close>
  | PutSync nat         \<comment> \<open>about to give the buffer to the \<^verbatim>\<open>sync.Pool\<close>\<close>

record pool =
  head :: "nat option"
  count :: "64 word"
  defaultSize :: nat
  maxPoolSize :: nat
  node_buf :: "nat \<Rightarrow> nat"
  node_next :: "nat \<Rightarrow> nat option"
  next_node :: nat
  heap :: "nat \<Rightarrow> BytesBuffer"
  next_buf :: nat
  sync_pool :: "nat list"
  pcs :: "pc list"
  owned :: "nat \<Rightarrow> nat set"

definition NewUnifiedBufferPool :: "int \<Rightarrow> int \<Rightarrow> nat \<Rightarrow> pool" where
  "NewUnifiedBufferPool dsize mx threads =
     \<lparr>head = None, count = 0,
      defaultSize = nat (if dsize \<le> 0 then 4096 else dsize),
      maxPoolSize = nat (if mx \<le> 0 then 1000 else mx),
      node_buf = (\<lambda>_. 0), node_next = (\<lambda>_. None), next_node = 0,
      heap = (\<lambda>_. NewBytesBuffer 0), next_buf = 0, sync_pool = [],
      pcs = replicate threads Idle, owned = (\<lambda>_. {})\<rparr>"

definition set_pc :: "nat \<Rightarrow> pc \<Rightarrow> pool \<Rightarrow> pool" where
  "set_pc t p s = s\<lparr>pcs := (pcs s)[t := p]\<rparr>"

definition give :: "nat \<Rightarrow> nat \<Rightarrow> pool \<Rightarrow> pool" where
  "give t b s = s\<lparr>heap := (heap s)(b := Reset (heap s b)), owned := (owned s)(t := insert b (owned s t))\<rparr>"

section \<open>Operations, one atomic instruction at a time\<close>

text \<open>
  \<open>choice\<close> is what the \<^verbatim>\<open>sync.Pool\<close> decides: to return one of the buffers it holds, or to call
  its \<^verbatim>\<open>New\<close>. The \<^verbatim>\<open>sync.Pool\<close> may also drop a buffer at any time (\<open>Sync_drop\<close>).
\<close>

definition Get_step :: "nat \<Rightarrow> nat option \<Rightarrow> pool \<Rightarrow> pool option" where
  "Get_step t choice s = (case pcs s ! t of
     Idle \<Rightarrow> Some (set_pc t GetStart s)
   | GetStart \<Rightarrow> Some (case head s of None \<Rightarrow> set_pc t GetSync s | Some h \<Rightarrow> set_pc t (GetRead h) s)
   | GetRead h \<Rightarrow> Some (set_pc t (GetCas h (node_next s h)) s)
   | GetCas h n \<Rightarrow> Some (if head s = Some h then set_pc t (GetDec h) (s\<lparr>head := n\<rparr>)
                         else set_pc t GetStart s)
   | GetDec h \<Rightarrow> Some (set_pc t Idle (give t (node_buf s h) (s\<lparr>count := count s + NOT 0\<rparr>)))
   | GetSync \<Rightarrow> (case choice of
         None \<Rightarrow> (let b = next_buf s in Some (set_pc t Idle (give t b
                   (s\<lparr>heap := (heap s)(b := NewBytesBuffer (defaultSize s)), next_buf := b + 1\<rparr>))))
       | Some b \<Rightarrow> if b \<in> set (sync_pool s)
                   then Some (set_pc t Idle (give t b (s\<lparr>sync_pool := remove1 b (sync_pool s)\<rparr>)))
                   else None)
   | _ \<Rightarrow> None)"

text \<open>\<^verbatim>\<open>Put(buf)\<close> on a buffer the thread owns; it gives up the ownership when it calls.\<close>

definition Put_call :: "nat \<Rightarrow> nat \<Rightarrow> pool \<Rightarrow> pool option" where
  "Put_call t b s = (if pcs s ! t = Idle \<and> b \<in> owned s t
     then Some (set_pc t (PutStart b) (s\<lparr>heap := (heap s)(b := Reset (heap s b)),
                                         owned := (owned s)(t := owned s t - {b})\<rparr>))
     else None)"

definition Put_step :: "nat \<Rightarrow> pool \<Rightarrow> pool option" where
  "Put_step t s = (case pcs s ! t of
     PutStart b \<Rightarrow> Some (set_pc t (if count s < of_nat (maxPoolSize s) then PutNew b else PutSync b) s)
   | PutNew b \<Rightarrow> (let n = next_node s in
       Some (set_pc t (PutLoop n) (s\<lparr>node_buf := (node_buf s)(n := b),
         node_next := (node_next s)(n := None), next_node := n + 1\<rparr>)))
   | PutLoop n \<Rightarrow> Some (set_pc t (PutCas n (head s)) (s\<lparr>node_next := (node_next s)(n := head s)\<rparr>))
   | PutCas n h \<Rightarrow> Some (if head s = h then set_pc t PutInc (s\<lparr>head := Some n\<rparr>)
                         else set_pc t (PutLoop n) s)
   | PutInc \<Rightarrow> Some (set_pc t Idle (s\<lparr>count := count s + 1\<rparr>))
   | PutSync b \<Rightarrow> Some (set_pc t Idle (s\<lparr>sync_pool := b # sync_pool s\<rparr>))
   | _ \<Rightarrow> None)"

text \<open>A client works on a buffer it owns; the collector empties part of the \<^verbatim>\<open>sync.Pool\<close>.\<close>

definition Client_use :: "nat \<Rightarrow> nat \<Rightarrow> BytesBuffer \<Rightarrow> pool \<Rightarrow> pool option" where
  "Client_use t b x s = (if b \<in> owned s t then Some (s\<lparr>heap := (heap s)(b := x)\<rparr>) else None)"

text \<open>A client makes a buffer of its own, as \<^verbatim>\<open>PreAllocate\<close> does.\<close>

definition Client_new :: "nat \<Rightarrow> nat \<Rightarrow> pool \<Rightarrow> pool option" where
  "Client_new t n s = (let b = next_buf s in
     Some (s\<lparr>heap := (heap s)(b := NewBytesBuffer n), next_buf := b + 1,
             owned := (owned s)(t := insert b (owned s t))\<rparr>))"

definition Sync_drop :: "nat \<Rightarrow> pool \<Rightarrow> pool option" where
  "Sync_drop b s = (if b \<in> set (sync_pool s) then Some (s\<lparr>sync_pool := remove1 b (sync_pool s)\<rparr>) else None)"

definition Count :: "pool \<Rightarrow> 64 word" where
  "Count s = count s"

inductive step :: "pool \<Rightarrow> pool \<Rightarrow> bool" where
  step_get: "t < length (pcs s) \<Longrightarrow> Get_step t c s = Some s' \<Longrightarrow> step s s'"
| step_put_call: "t < length (pcs s) \<Longrightarrow> Put_call t b s = Some s' \<Longrightarrow> step s s'"
| step_put: "t < length (pcs s) \<Longrightarrow> Put_step t s = Some s' \<Longrightarrow> step s s'"
| step_client: "t < length (pcs s) \<Longrightarrow> Client_use t b x s = Some s' \<Longrightarrow> step s s'"
| step_new: "t < length (pcs s) \<Longrightarrow> Client_new t n s = Some s' \<Longrightarrow> step s s'"
| step_drop: "Sync_drop b s = Some s' \<Longrightarrow> step s s'"

inductive reachable :: "int \<Rightarrow> int \<Rightarrow> nat \<Rightarrow> pool \<Rightarrow> bool" for dsize mx threads where
  reach_init: "reachable dsize mx threads (NewUnifiedBufferPool dsize mx threads)"
| reach_step: "reachable dsize mx threads s \<Longrightarrow> step s s' \<Longrightarrow> reachable dsize mx threads s'"

inductive_cases stepE: "step s s'"

section \<open>The list and the places of buffers\<close>

text \<open>The nodes linked from a head, and where every buffer is.\<close>

fun chain :: "(nat \<Rightarrow> nat option) \<Rightarrow> nat option \<Rightarrow> nat list \<Rightarrow> bool" where
  "chain nx h [] = (h = None)"
| "chain nx h (n # ns) = (h = Some n \<and> chain nx (nx n) ns)"

datatype place = Unborn | Linked nat | Shared | Owned nat | Held nat

fun pc_buf :: "(nat \<Rightarrow> nat) \<Rightarrow> pc \<Rightarrow> nat option" where
  "pc_buf nb (GetDec n) = Some (nb n)"
| "pc_buf nb (PutStart b) = Some b"
| "pc_buf nb (PutNew b) = Some b"
| "pc_buf nb (PutLoop n) = Some (nb n)"
| "pc_buf nb (PutCas n h) = Some (nb n)"
| "pc_buf nb (PutSync b) = Some b"
| "pc_buf nb _ = None"

fun private_node :: "pc \<Rightarrow> nat option" where
  "private_node (PutLoop n) = Some n"
| "private_node (PutCas n h) = Some n"
| "private_node _ = None"

fun known_node :: "pc \<Rightarrow> nat option" where
  "known_node (GetRead h) = Some h"
| "known_node (GetCas h n) = Some h"
| "known_node (GetDec h) = Some h"
| "known_node _ = None"

definition decrementing :: "pc \<Rightarrow> bool" where "decrementing p \<longleftrightarrow> (\<exists>n. p = GetDec n)"
definition adding :: "pc \<Rightarrow> bool" where
  "adding p \<longleftrightarrow> (\<exists>b. p = PutNew b) \<or> (\<exists>n. p = PutLoop n) \<or> (\<exists>n h. p = PutCas n h)"

lemma chain_upd: "n \<notin> set ns \<Longrightarrow> chain (nx(n := x)) h ns = chain nx h ns"
  by (induction ns arbitrary: h) auto

lemma chain_None [simp]: "chain nx None ns \<longleftrightarrow> ns = []"
  by (cases ns) auto

lemma chain_Some: "chain nx (Some n) ns \<longleftrightarrow> (\<exists>ms. ns = n # ms \<and> chain nx (nx n) ms)"
  by (cases ns) auto

section \<open>Invariants\<close>

text \<open>The nodes: \<open>xs\<close> is the list of the pool.\<close>

definition nodes_inv :: "pool \<Rightarrow> nat list \<Rightarrow> bool" where
  "nodes_inv s xs \<longleftrightarrow> chain (node_next s) (head s) xs \<and> distinct xs \<and> (\<forall>n\<in>set xs. n < next_node s) \<and>
     (\<forall>t<length (pcs s). \<forall>n. private_node (pcs s ! t) = Some n \<longrightarrow> n < next_node s \<and> n \<notin> set xs \<and>
        (\<forall>t'<length (pcs s). (private_node (pcs s ! t') = Some n \<longrightarrow> t' = t) \<and> known_node (pcs s ! t') \<noteq> Some n)) \<and>
     (\<forall>t<length (pcs s). \<forall>h. known_node (pcs s ! t) = Some h \<longrightarrow> h < next_node s) \<and>
     (\<forall>t<length (pcs s). \<forall>h n. pcs s ! t = GetCas h n \<longrightarrow> node_next s h = n) \<and>
     (\<forall>t<length (pcs s). \<forall>h n. pcs s ! t = PutCas n h \<longrightarrow> node_next s n = h)"

text \<open>The list after thread \<open>t\<close> makes its next step.\<close>

definition list_after :: "pool \<Rightarrow> nat \<Rightarrow> nat list \<Rightarrow> nat list" where
  "list_after s t xs = (case pcs s ! t of
     GetCas h n \<Rightarrow> if head s = Some h then tl xs else xs
   | PutCas n h \<Rightarrow> if head s = h then n # xs else xs
   | _ \<Rightarrow> xs)"

lemma nodes_init: "nodes_inv (NewUnifiedBufferPool dsize mx threads) []"
  by (simp add: nodes_inv_def NewUnifiedBufferPool_def)

lemma nodes_invD:
  assumes "nodes_inv s xs"
  shows "t < length (pcs s) \<Longrightarrow> private_node (pcs s ! t) = Some n \<Longrightarrow> n < next_node s"
    and "t < length (pcs s) \<Longrightarrow> private_node (pcs s ! t) = Some n \<Longrightarrow> n \<notin> set xs"
    and "t < length (pcs s) \<Longrightarrow> private_node (pcs s ! t) = Some n \<Longrightarrow> t' < length (pcs s) \<Longrightarrow>
         private_node (pcs s ! t') = Some n \<Longrightarrow> t' = t"
    and "t < length (pcs s) \<Longrightarrow> private_node (pcs s ! t) = Some n \<Longrightarrow> t' < length (pcs s) \<Longrightarrow>
         known_node (pcs s ! t') \<noteq> Some n"
    and "t < length (pcs s) \<Longrightarrow> known_node (pcs s ! t) = Some h \<Longrightarrow> h < next_node s"
    and "t < length (pcs s) \<Longrightarrow> pcs s ! t = GetCas h m \<Longrightarrow> node_next s h = m"
    and "t < length (pcs s) \<Longrightarrow> pcs s ! t = PutCas m' g \<Longrightarrow> node_next s m' = g"
    and "n \<in> set xs \<Longrightarrow> n < next_node s" and "distinct xs" and "chain (node_next s) (head s) xs"
  using assms unfolding nodes_inv_def by blast+

text \<open>One thread moves to \<open>p\<close>; it writes only next fields of its own private or new nodes.\<close>

lemma nodes_update:
  assumes inv: "nodes_inv s xs" and t: "t < length (pcs s)"
    and pcs: "pcs s' = (pcs s)[t := p]" and nn: "next_node s \<le> next_node s'"
    and list: "chain (node_next s') (head s') xs'" "distinct xs'" "\<And>n. n \<in> set xs' \<Longrightarrow>
       n < next_node s' \<and> (n \<in> set xs \<or> private_node (pcs s ! t) = Some n)"
    and priv: "\<And>n. private_node p = Some n \<Longrightarrow> n < next_node s' \<and> n \<notin> set xs' \<and>
       (private_node (pcs s ! t) = Some n \<or> next_node s \<le> n)"
    and known: "\<And>n. known_node p = Some n \<Longrightarrow> known_node (pcs s ! t) = Some n \<or> n \<in> set xs"
    and own: "\<And>n. private_node p = Some n \<Longrightarrow> known_node p = None"
    and cas: "\<And>h n. p = GetCas h n \<Longrightarrow> node_next s' h = n" "\<And>n h. p = PutCas n h \<Longrightarrow> node_next s' n = h"
    and frame: "\<And>n. node_next s' n \<noteq> node_next s n \<Longrightarrow> private_node (pcs s ! t) = Some n \<or> next_node s \<le> n"
  shows "nodes_inv s' xs'"
proof -
  note d = nodes_invD[OF inv]
  have other: "pcs s' ! t' = pcs s ! t'" if "t' \<noteq> t" for t' using that pcs by simp
  have self: "pcs s' ! t = p" using pcs t by simp
  have len: "length (pcs s') = length (pcs s)" using pcs by simp
  have k: "n < next_node s \<and> (\<forall>t'<length (pcs s). private_node (pcs s ! t') \<noteq> Some n)" if "known_node p = Some n" for n
    using known[OF that] d(2,4,5,8) t by blast
  have pr: "n < next_node s' \<and> n \<notin> set xs'" if "t' < length (pcs s)" "private_node (pcs s' ! t') = Some n" for t' n
  proof (cases "t' = t")
    case False
    with that other have p': "private_node (pcs s ! t') = Some n" by simp
    have "n \<notin> set xs'"
      using list(3)[of n] d(2)[OF that(1) p'] d(3)[OF that(1) p' t] False by blast
    with d(1)[OF that(1) p'] nn show ?thesis by simp
  qed (use that self priv in auto)
  have uniq: "t2 = t1" if "t1 < length (pcs s)" "t2 < length (pcs s)" "private_node (pcs s' ! t1) = Some n"
    "private_node (pcs s' ! t2) = Some n" for t1 t2 n
    using that self other priv[of n] d(1)[of t1 n] d(1)[of t2 n] d(3)[of t1 n t2] d(3)[of t n t1] d(3)[of t n t2] t
    by (cases "t1 = t"; cases "t2 = t") auto
  have sep: "known_node (pcs s' ! t2) \<noteq> Some n" if "t1 < length (pcs s)" "t2 < length (pcs s)"
    "private_node (pcs s' ! t1) = Some n" for t1 t2 n
  proof (cases "t2 = t")
    case True
    show ?thesis
    proof (cases "t1 = t")
      case False
      then show ?thesis using that(1,3) True self other[of t1] k[of n] by auto
    qed (use that True self own[of n] in simp)
  next
    case False
    show ?thesis
    proof (cases "t1 = t")
      case True
      with that(3) self priv[of n] have "private_node (pcs s ! t) = Some n \<or> next_node s \<le> n" by blast
      with False other[of t2] d(4)[OF t _ that(2), of n] d(5)[OF that(2), of n] show ?thesis by fastforce
    next
      case False
      with \<open>t2 \<noteq> t\<close> other[of t1] other[of t2] that(3) d(4)[OF that(1) _ that(2), of n] show ?thesis by simp
    qed
  qed
  have kn: "h < next_node s'" if "t' < length (pcs s)" "known_node (pcs s' ! t') = Some h" for t' h
    using that self other k[of h] d(5)[of t' h] nn by (cases "t' = t") auto
  have cg: "node_next s' h = n" if "t' < length (pcs s)" "pcs s' ! t' = GetCas h n" for t' h n
  proof (cases "t' = t")
    case False
    with that other have p': "pcs s ! t' = GetCas h n" by simp
    then have "known_node (pcs s ! t') = Some h" by simp
    with d(4)[OF t, of h t'] d(5)[OF that(1), of h] that(1) have "node_next s' h = node_next s h"
      using frame[of h] by fastforce
    with d(6)[OF that(1) p'] show ?thesis by simp
  qed (use that self cas in auto)
  have cp: "node_next s' n = h" if "t' < length (pcs s)" "pcs s' ! t' = PutCas n h" for t' h n
  proof (cases "t' = t")
    case False
    with that other have p': "pcs s ! t' = PutCas n h" by simp
    then have "private_node (pcs s ! t') = Some n" by simp
    with d(3)[OF t, of n t'] d(1)[OF that(1), of n] that(1) False have "node_next s' n = node_next s n"
      using frame[of n] by fastforce
    with d(7)[OF that(1) p'] show ?thesis by simp
  qed (use that self cas in auto)
  show ?thesis unfolding nodes_inv_def len using list pr uniq sep kn cg cp by blast
qed

lemma nodes_Get_step:
  assumes inv: "nodes_inv s xs" and t: "t < length (pcs s)" and step: "Get_step t c s = Some s'"
  shows "nodes_inv s' (list_after s t xs)"
proof -
  note d = nodes_invD[OF inv]
  show ?thesis
  proof (cases "pcs s ! t")
    case (GetCas h n)
    with d(6)[OF t, of h n] have nx: "node_next s h = n" by simp
    show ?thesis
    proof (cases "head s = Some h")
      case True
      with d(10) nx obtain ys where ys: "xs = h # ys" "chain (node_next s) n ys" by (auto simp: chain_Some)
      have "h < next_node s" "\<forall>m\<in>set ys. m < next_node s" "distinct ys" "h \<notin> set ys" using d(8,9) ys(1) by auto
      moreover have "s' = set_pc t (GetDec h) (s\<lparr>head := n\<rparr>)" "list_after s t xs = ys"
        using step GetCas True ys(1) by (simp_all add: Get_step_def list_after_def)
      ultimately show ?thesis using ys GetCas
        by (intro nodes_update[OF inv t, where p = "GetDec h"]) (simp_all add: set_pc_def)
    next
      case False
      then have "s' = set_pc t GetStart s" "list_after s t xs = xs"
        using step GetCas by (simp_all add: Get_step_def list_after_def)
      then show ?thesis using d(8-10)
        by (intro nodes_update[OF inv t, where p = GetStart]) (simp_all add: set_pc_def)
    qed
  qed (use step d(8-10) in \<open>intro nodes_update[OF inv t, where p = "pcs s' ! t"];
       auto simp: Get_step_def list_after_def set_pc_def give_def Let_def chain_Some t split: option.splits if_splits\<close>)+
qed

lemma nodes_Put_step:
  assumes inv: "nodes_inv s xs" and t: "t < length (pcs s)" and step: "Put_step t s = Some s'"
  shows "nodes_inv s' (list_after s t xs)"
proof -
  note d = nodes_invD[OF inv]
  show ?thesis
  proof (cases "pcs s ! t")
    case (PutNew b)
    have "next_node s \<notin> set xs" using d(8)[of "next_node s"] by blast
    with PutNew show ?thesis using step d(8-10)
      by (intro nodes_update[OF inv t, where p = "pcs s' ! t"])
         (auto simp: Put_step_def list_after_def set_pc_def Let_def t chain_upd less_Suc_eq split: if_splits)
  next
    case (PutLoop n)
    then show ?thesis using step d(8-10) d(1,2)[OF t, of n]
      by (intro nodes_update[OF inv t, where p = "pcs s' ! t"])
         (auto simp: Put_step_def list_after_def set_pc_def t chain_upd split: if_splits)
  next
    case (PutCas n h)
    then show ?thesis using step d(8-10) d(1,2)[OF t, of n] d(7)[OF t, of n h]
      by (intro nodes_update[OF inv t, where p = "pcs s' ! t"])
         (auto simp: Put_step_def list_after_def set_pc_def t split: if_splits)
  qed (use step d(8-10) in \<open>intro nodes_update[OF inv t, where p = "pcs s' ! t"];
       auto simp: Put_step_def list_after_def set_pc_def t split: if_splits\<close>)+
qed


text \<open>The buffers: \<open>L\<close> gives each buffer the one place it may be in; everything but an owned buffer
  is reset.\<close>

definition clean :: "BytesBuffer \<Rightarrow> bool" where
  "clean b \<longleftrightarrow> rpos b = 0 \<and> wpos b = 0"

lemma clean_Reset [simp]: "clean (Reset b)" by (simp add: clean_def Reset_def)

lemma clean_New [simp]: "clean (NewBytesBuffer n)"
  by (simp add: clean_def NewBytesBuffer_def NewBytesBufferWithOrder_def)

definition place_inv :: "pool \<Rightarrow> nat list \<Rightarrow> (nat \<Rightarrow> place) \<Rightarrow> bool" where
  "place_inv s xs L \<longleftrightarrow> (\<forall>n\<in>set xs. L (node_buf s n) = Linked n) \<and>
     distinct (sync_pool s) \<and> (\<forall>b\<in>set (sync_pool s). L b = Shared) \<and>
     (\<forall>t b. b \<in> owned s t \<longrightarrow> L b = Owned t) \<and>
     (\<forall>t<length (pcs s). \<forall>b. pc_buf (node_buf s) (pcs s ! t) = Some b \<longrightarrow> L b = Held t) \<and>
     (\<forall>b\<ge>next_buf s. L b = Unborn) \<and>
     (\<forall>b. (\<forall>t. L b \<noteq> Owned t) \<longrightarrow> clean (heap s b))"

lemma place_invD:
  assumes "place_inv s xs L"
  shows "n \<in> set xs \<Longrightarrow> L (node_buf s n) = Linked n"
    and "distinct (sync_pool s)" and "b \<in> set (sync_pool s) \<Longrightarrow> L b = Shared"
    and "b \<in> owned s t \<Longrightarrow> L b = Owned t"
    and "t < length (pcs s) \<Longrightarrow> pc_buf (node_buf s) (pcs s ! t) = Some b \<Longrightarrow> L b = Held t"
    and "next_buf s \<le> b \<Longrightarrow> L b = Unborn"
    and "(\<And>t. L b \<noteq> Owned t) \<Longrightarrow> clean (heap s b)"
  using assms unfolding place_inv_def by blast+

lemma pc_buf_upd: "private_node p \<noteq> Some n \<Longrightarrow> known_node p \<noteq> Some n \<Longrightarrow> pc_buf (nb(n := b)) p = pc_buf nb p"
  by (cases p) auto

text \<open>Thread \<open>t\<close> moves one buffer \<open>b0\<close> (from its own hands, the list or the \<^verbatim>\<open>sync.Pool\<close>) to \<open>p1\<close>.\<close>

lemma place_update:
  assumes inv: "place_inv s xs L" and t: "t < length (pcs s)" and pcs: "pcs s' = (pcs s)[t := p]"
    and src: "L b0 = Owned t \<or> L b0 = Held t \<or> L b0 = Unborn \<or> L b0 = Shared \<or> (\<exists>n. L b0 = Linked n)"
    and nb: "node_buf s' = node_buf s"
    and list: "\<And>n. n \<in> set xs' \<Longrightarrow> (if node_buf s n = b0 then p1 = Linked n else n \<in> set xs)"
    and sync: "distinct (sync_pool s')" "\<And>b. b \<in> set (sync_pool s') \<Longrightarrow> (if b = b0 then p1 = Shared else b \<in> set (sync_pool s))"
    and own: "\<And>t' b. b \<in> owned s' t' \<Longrightarrow> (if b = b0 then p1 = Owned t' else b \<in> owned s t')"
    and hand: "\<And>b. pc_buf (node_buf s) p = Some b \<Longrightarrow> b = b0 \<and> p1 = Held t"
    and others: "\<And>t'. t' < length (pcs s) \<Longrightarrow> t' \<noteq> t \<Longrightarrow> L b0 \<noteq> Held t'"
    and born: "next_buf s \<le> next_buf s'" "b0 < next_buf s'"
    and cleaned: "clean (heap s' b0) \<or> p1 = Owned t" and frame: "\<And>b. b \<noteq> b0 \<Longrightarrow> heap s' b = heap s b"
  shows "place_inv s' xs' (L(b0 := p1))"
proof -
  note d = place_invD[OF inv]
  have hold: "(L(b0 := p1)) b = Held t'" if "t' < length (pcs s)" "pc_buf (node_buf s) (pcs s' ! t') = Some b" for t' b
  proof (cases "t' = t")
    case True
    with that pcs hand[of b] show ?thesis by simp
  next
    case False
    with that pcs have "L b = Held t'" using d(5)[of t' b] by simp
    with others[OF that(1) False] show ?thesis by auto
  qed
  have cl: "clean (heap s' b)" if "\<forall>t. (L(b0 := p1)) b \<noteq> Owned t" for b
    using that cleaned frame[of b] d(7)[of b] by (cases "b = b0") auto
  have un: "(L(b0 := p1)) b = Unborn" if "next_buf s' \<le> b" for b
    using that born d(6)[of b] by simp
  have li: "(L(b0 := p1)) (node_buf s n) = Linked n" if "n \<in> set xs'" for n
    using list[OF that] d(1)[of n] by (simp split: if_splits)
  have sy: "(L(b0 := p1)) b = Shared" if "b \<in> set (sync_pool s')" for b
    using sync(2)[OF that] d(3)[of b] by (simp split: if_splits)
  have ow: "(L(b0 := p1)) b = Owned t'" if "b \<in> owned s' t'" for b t'
    using own[OF that] d(4)[of b t'] by (simp split: if_splits)
  have len: "length (pcs s') = length (pcs s)" using pcs by simp
  show ?thesis unfolding place_inv_def len nb using hold cl un li sy ow sync(1) by blast
qed

text \<open>A step that moves no buffer.\<close>

lemma place_stay:
  assumes inv: "place_inv s xs L" and t: "t < length (pcs s)" and pcs: "pcs s' = (pcs s)[t := p]"
    and same: "\<And>n. n \<in> set xs \<Longrightarrow> node_buf s' n = node_buf s n" "sync_pool s' = sync_pool s" "owned s' = owned s"
      "next_buf s' = next_buf s" "heap s' = heap s"
    and hand: "\<And>b. pc_buf (node_buf s') p = Some b \<Longrightarrow> pc_buf (node_buf s) (pcs s ! t) = Some b"
    and frame: "\<And>t'. t' < length (pcs s) \<Longrightarrow> t' \<noteq> t \<Longrightarrow>
       pc_buf (node_buf s') (pcs s ! t') = pc_buf (node_buf s) (pcs s ! t')"
  shows "place_inv s' xs L"
proof -
  note d = place_invD[OF inv]
  have hold: "L b = Held t'" if "t' < length (pcs s)" "pc_buf (node_buf s') (pcs s' ! t') = Some b" for t' b
  proof (cases "t' = t")
    case True
    with that pcs hand[of b] d(5)[of t b] show ?thesis by simp
  next
    case False
    with that pcs frame[OF that(1)] have "pc_buf (node_buf s) (pcs s ! t') = Some b" by simp
    with d(5)[OF that(1)] show ?thesis by blast
  qed
  have len: "length (pcs s') = length (pcs s)" using pcs by simp
  show ?thesis unfolding place_inv_def len same(2-5) using hold d(1-4,6,7) same(1) by simp
qed

lemma place_init: "place_inv (NewUnifiedBufferPool dsize mx threads) [] (\<lambda>_. Unborn)"
  by (auto simp: place_inv_def NewUnifiedBufferPool_def)

lemma place_Get_step:
  assumes nodes: "nodes_inv s xs" and inv: "place_inv s xs L" and t: "t < length (pcs s)"
    and step: "Get_step t c s = Some s'"
  shows "\<exists>L'. place_inv s' (list_after s t xs) L'"
proof (cases "pcs s ! t")
  case (GetCas h n)
  note d = place_invD[OF inv]
  show ?thesis
  proof (cases "head s = Some h")
    case True
    with nodes obtain ys where ys: "xs = h # ys" "h \<notin> set ys" by (auto simp: nodes_inv_def chain_Some)
    have Lh: "L (node_buf s h) = Linked h" using d(1)[of h] ys(1) by simp
    have neq: "m \<in> set xs \<and> node_buf s m \<noteq> node_buf s h" if "m \<in> set ys" for m
    proof -
      have m: "m \<in> set xs" "m \<noteq> h" using that ys by auto
      then show ?thesis using d(1)[OF m(1)] Lh by (metis place.inject(1))
    qed
    have s': "s' = set_pc t (GetDec h) (s\<lparr>head := n\<rparr>)" "list_after s t xs = ys"
      using step GetCas True ys(1) by (simp_all add: Get_step_def list_after_def)
    have "place_inv s' ys (L(node_buf s h := Held t))"
      by (rule place_update[OF inv t, where p = "GetDec h"])
         (use s' Lh neq d(2-4) d(6,7)[of "node_buf s h"] in \<open>fastforce simp: set_pc_def not_less split: if_splits\<close>)+
    with s'(2) show ?thesis by auto
  next
    case False
    with step GetCas have s': "s' = set_pc t GetStart s" "list_after s t xs = xs"
      by (simp_all add: Get_step_def list_after_def)
    have "place_inv s' xs L" by (rule place_stay[OF inv t, where p = GetStart]) (simp_all add: s'(1) set_pc_def)
    with s'(2) show ?thesis by auto
  qed
next
  case (GetDec h)
  note d = place_invD[OF inv]
  have Lh: "L (node_buf s h) = Held t" using d(5)[OF t] GetDec by simp
  have s': "s' = set_pc t Idle (give t (node_buf s h) (s\<lparr>count := count s + NOT 0\<rparr>))"
    using step GetDec by (simp add: Get_step_def)
  have born: "node_buf s h < next_buf s" using d(6)[of "node_buf s h"] Lh by (metis not_less place.distinct(7))
  have "place_inv s' xs (L(node_buf s h := Owned t))"
  proof (rule place_update[OF inv t, where p = Idle])
    fix n assume "n \<in> set xs"
    then show "if node_buf s n = node_buf s h then Owned t = Linked n else n \<in> set xs"
      using d(1)[of n] Lh by auto
  next
    fix b assume "b \<in> set (sync_pool s')"
    then show "if b = node_buf s h then Owned t = Shared else b \<in> set (sync_pool s)"
      using d(3)[of b] Lh by (auto simp: s' set_pc_def give_def)
  next
    fix t' b assume "b \<in> owned s' t'"
    then show "if b = node_buf s h then Owned t = Owned t' else b \<in> owned s t'"
      using d(4)[of b t'] Lh by (auto simp: s' set_pc_def give_def split: if_splits)
  qed (use Lh born d(2) in \<open>simp_all add: s' set_pc_def give_def\<close>)
  with GetDec show ?thesis by (auto simp: list_after_def)
next
  case GetSync
  note d = place_invD[OF inv]
  show ?thesis
  proof (cases c)
    case None
    have Lb: "L (next_buf s) = Unborn" using d(6) by simp
    have "place_inv s' xs (L(next_buf s := Owned t))"
      by (rule place_update[OF inv t, where p = Idle])
         (use step GetSync None Lb d(1-4) in \<open>fastforce simp: Get_step_def set_pc_def give_def Let_def split: if_splits\<close>)+
    with GetSync show ?thesis by (auto simp: list_after_def)
  next
    case (Some b)
    with step GetSync have b: "b \<in> set (sync_pool s)" and
      s': "s' = set_pc t Idle (give t b (s\<lparr>sync_pool := remove1 b (sync_pool s)\<rparr>))"
      by (auto simp: Get_step_def split: if_splits)
    have Lb: "L b = Shared" using d(3)[OF b] .
    have "place_inv s' xs (L(b := Owned t))"
      by (rule place_update[OF inv t, where p = Idle])
         (use Lb d(1-4) d(6)[of b] in \<open>fastforce simp: s' set_pc_def give_def not_less split: if_splits\<close>)+
    with GetSync show ?thesis by (auto simp: list_after_def)
  qed
next
  case Idle
  have "place_inv s' xs L"
    by (rule place_stay[OF inv t, where p = GetStart]) (use step Idle in \<open>auto simp: Get_step_def set_pc_def\<close>)
  with Idle show ?thesis by (auto simp: list_after_def)
next
  case GetStart
  have "place_inv s' xs L"
    by (rule place_stay[OF inv t, where p = "case head s of None \<Rightarrow> GetSync | Some h \<Rightarrow> GetRead h"])
       (use step GetStart in \<open>auto simp: Get_step_def set_pc_def split: option.splits\<close>)
  with GetStart show ?thesis by (auto simp: list_after_def)
next
  case (GetRead h)
  have "place_inv s' xs L"
    by (rule place_stay[OF inv t, where p = "GetCas h (node_next s h)"])
       (use step GetRead in \<open>auto simp: Get_step_def set_pc_def\<close>)
  with GetRead show ?thesis by (auto simp: list_after_def)
qed (use step in \<open>simp_all add: Get_step_def\<close>)

lemma place_Put_step:
  assumes nodes: "nodes_inv s xs" and inv: "place_inv s xs L" and t: "t < length (pcs s)"
    and step: "Put_step t s = Some s'"
  shows "\<exists>L'. place_inv s' (list_after s t xs) L'"
proof (cases "pcs s ! t")
  case (PutStart b)
  have "place_inv s' xs L"
    by (rule place_stay[OF inv t, where p = "pcs s' ! t"])
       (use step PutStart t in \<open>auto simp: Put_step_def set_pc_def split: if_splits\<close>)
  with PutStart show ?thesis by (auto simp: list_after_def)
next
  case (PutNew b)
  note n = nodes_invD[OF nodes]
  have fresh: "next_node s \<notin> set xs" using n(8)[of "next_node s"] by blast
  have frame: "pc_buf ((node_buf s)(next_node s := b)) (pcs s ! t') = pc_buf (node_buf s) (pcs s ! t')"
    if "t' < length (pcs s)" for t'
    using n(1,5)[OF that, of "next_node s"] by (intro pc_buf_upd) auto
  have "place_inv s' xs L"
    by (rule place_stay[OF inv t, where p = "PutLoop (next_node s)"])
       (use step PutNew fresh frame in \<open>auto simp: Put_step_def set_pc_def Let_def\<close>)
  with PutNew show ?thesis by (auto simp: list_after_def)
next
  case (PutLoop n)
  have "place_inv s' xs L"
    by (rule place_stay[OF inv t, where p = "PutCas n (head s)"])
       (use step PutLoop in \<open>auto simp: Put_step_def set_pc_def\<close>)
  with PutLoop show ?thesis by (auto simp: list_after_def)
next
  case (PutCas n h)
  note d = place_invD[OF inv]
  show ?thesis
  proof (cases "head s = h")
    case True
    have Ln: "L (node_buf s n) = Held t" using d(5)[OF t] PutCas by simp
    have neq: "node_buf s m \<noteq> node_buf s n" if "m \<in> set xs" for m using d(1)[OF that] Ln by auto
    have s': "s' = set_pc t PutInc (s\<lparr>head := Some n\<rparr>)" "list_after s t xs = n # xs"
      using step PutCas True by (simp_all add: Put_step_def list_after_def)
    have "place_inv s' (n # xs) (L(node_buf s n := Linked n))"
      by (rule place_update[OF inv t, where p = PutInc])
         (use s' Ln neq d(2-4) d(6,7)[of "node_buf s n"] in \<open>fastforce simp: set_pc_def not_less split: if_splits\<close>)+
    with s'(2) show ?thesis by auto
  next
    case False
    with step PutCas have s': "s' = set_pc t (PutLoop n) s" "list_after s t xs = xs"
      by (simp_all add: Put_step_def list_after_def)
    have "place_inv s' xs L"
      by (rule place_stay[OF inv t, where p = "PutLoop n"]) (use PutCas in \<open>simp_all add: s'(1) set_pc_def\<close>)
    with s'(2) show ?thesis by auto
  qed
next
  case PutInc
  have "place_inv s' xs L"
    by (rule place_stay[OF inv t, where p = Idle]) (use step PutInc in \<open>auto simp: Put_step_def set_pc_def\<close>)
  with PutInc show ?thesis by (auto simp: list_after_def)
next
  case (PutSync b)
  note d = place_invD[OF inv]
  have Lb: "L b = Held t" using d(5)[OF t] PutSync by simp
  have "place_inv s' xs (L(b := Shared))"
    by (rule place_update[OF inv t, where p = Idle])
       (use step PutSync Lb d(1-4) d(6,7)[of b] in \<open>fastforce simp: Put_step_def set_pc_def not_less split: if_splits\<close>)+
  with PutSync show ?thesis by (auto simp: list_after_def)
qed (use step in \<open>simp_all add: Put_step_def\<close>)


lemma place_Put_call:
  assumes nodes: "nodes_inv s xs" and inv: "place_inv s xs L" and t: "t < length (pcs s)"
    and step: "Put_call t b s = Some s'"
  shows "nodes_inv s' xs" and "\<exists>L'. place_inv s' xs L'"
proof -
  note d = place_invD[OF inv] and n = nodes_invD[OF nodes]
  from step have idle: "pcs s ! t = Idle" and b: "b \<in> owned s t" and
    s': "s' = set_pc t (PutStart b) (s\<lparr>heap := (heap s)(b := Reset (heap s b)), owned := (owned s)(t := owned s t - {b})\<rparr>)"
    by (auto simp: Put_call_def split: if_splits)
  show "nodes_inv s' xs" using n(8-10) idle
    by (intro nodes_update[OF nodes t, where p = "PutStart b"]) (auto simp: s' set_pc_def)
  have Lb: "L b = Owned t" using d(4)[OF b] .
  have born: "b < next_buf s" using d(6)[of b] Lb by (metis not_less place.distinct(5))
  have "place_inv s' xs (L(b := Held t))"
  proof (rule place_update[OF inv t, where p = "PutStart b"])
    fix t' c assume "c \<in> owned s' t'"
    then show "if c = b then Held t = Owned t' else c \<in> owned s t'"
      using d(4)[of c t'] Lb by (auto simp: s' set_pc_def split: if_splits)
  next
    fix n assume "n \<in> set xs"
    then show "if node_buf s n = b then Held t = Linked n else n \<in> set xs" using d(1)[of n] Lb by auto
  next
    fix c assume "c \<in> set (sync_pool s')"
    then show "if c = b then Held t = Shared else c \<in> set (sync_pool s)"
      using d(3)[of c] Lb by (auto simp: s' set_pc_def)
  qed (use Lb born d(2) in \<open>simp_all add: s' set_pc_def\<close>)
  then show "\<exists>L'. place_inv s' xs L'" by blast
qed

lemma nodes_cong:
  assumes "node_next s' = node_next s" "head s' = head s" "next_node s' = next_node s" "pcs s' = pcs s"
  shows "nodes_inv s' xs = nodes_inv s xs"
  unfolding nodes_inv_def assms ..

lemma place_Client_use:
  assumes nodes: "nodes_inv s xs" and inv: "place_inv s xs L" and step: "Client_use t b x s = Some s'"
  shows "nodes_inv s' xs" and "place_inv s' xs L"
proof -
  note d = place_invD[OF inv]
  from step have s': "s' = s\<lparr>heap := (heap s)(b := x)\<rparr>" and b: "b \<in> owned s t"
    by (auto simp: Client_use_def split: if_splits)
  show "nodes_inv s' xs" using nodes by (subst nodes_cong[where s = s]) (simp_all add: s')
  have "\<forall>c. (\<forall>t. L c \<noteq> Owned t) \<longrightarrow> clean (heap s' c)"
    using d(4)[OF b] d(7) by (auto simp: s')
  moreover have eqs: "node_buf s' = node_buf s" "sync_pool s' = sync_pool s" "owned s' = owned s" "pcs s' = pcs s"
    "next_buf s' = next_buf s" by (simp_all add: s')
  ultimately show "place_inv s' xs L"
    using inv unfolding place_inv_def eqs by (elim conjE, intro conjI)
qed

lemma place_Client_new:
  assumes nodes: "nodes_inv s xs" and inv: "place_inv s xs L" and t: "t < length (pcs s)"
    and step: "Client_new t n s = Some s'"
  shows "nodes_inv s' xs" and "\<exists>L'. place_inv s' xs L'"
proof -
  note d = place_invD[OF inv]
  have s': "s' = s\<lparr>heap := (heap s)(next_buf s := NewBytesBuffer n), next_buf := next_buf s + 1,
       owned := (owned s)(t := insert (next_buf s) (owned s t))\<rparr>"
    using step by (simp add: Client_new_def Let_def)
  show "nodes_inv s' xs" using nodes by (subst nodes_cong[where s = s]) (simp_all add: s')
  have Lb: "L (next_buf s) = Unborn" using d(6) by simp
  have hands: "pc_buf (node_buf s) (pcs s ! t) \<noteq> Some (next_buf s)" using d(5)[OF t] Lb by auto
  have "place_inv s' xs (L(next_buf s := Owned t))"
  proof -
    have "L b = Held t'" if "t' < length (pcs s)" "pc_buf (node_buf s) (pcs s ! t') = Some b" for t' b
      using d(5)[OF that] .
    moreover have "clean (heap s' b)" if "\<forall>t'. (L(next_buf s := Owned t)) b \<noteq> Owned t'" for b
      using that d(7)[of b] by (cases "b = next_buf s") (auto simp: s')
    moreover have "(L(next_buf s := Owned t)) b = Owned t'" if "b \<in> owned s' t'" for b t'
      using that d(4)[of b t'] Lb by (auto simp: s' split: if_splits)
    moreover have "(L(next_buf s := Owned t)) (node_buf s m) = Linked m" if "m \<in> set xs" for m
      using d(1)[OF that] Lb by auto
    moreover have "(L(next_buf s := Owned t)) b = Shared" if "b \<in> set (sync_pool s)" for b
      using d(3)[OF that] Lb by auto
    moreover have "(L(next_buf s := Owned t)) b = Held t'"
      if "t' < length (pcs s)" "pc_buf (node_buf s) (pcs s ! t') = Some b" for t' b
      using d(5)[OF that] Lb by auto
    moreover have "(L(next_buf s := Owned t)) b = Unborn" if "next_buf s + 1 \<le> b" for b
      using d(6)[of b] that by auto
    moreover have eqs: "node_buf s' = node_buf s" "sync_pool s' = sync_pool s" "pcs s' = pcs s"
      "next_buf s' = next_buf s + 1" by (simp_all add: s')
    ultimately show ?thesis unfolding place_inv_def eqs using d(2) by blast
  qed
  then show "\<exists>L'. place_inv s' xs L'" by blast
qed

lemma place_Sync_drop:
  assumes nodes: "nodes_inv s xs" and inv: "place_inv s xs L" and step: "Sync_drop b s = Some s'"
  shows "nodes_inv s' xs" and "place_inv s' xs L"
proof -
  note d = place_invD[OF inv]
  from step have s': "s' = s\<lparr>sync_pool := remove1 b (sync_pool s)\<rparr>"
    by (auto simp: Sync_drop_def split: if_splits)
  show "nodes_inv s' xs" using nodes by (subst nodes_cong[where s = s]) (simp_all add: s')
  have "\<forall>c\<in>set (remove1 b (sync_pool s)). L c = Shared"
    using d(3) set_remove1_subset[of b "sync_pool s"] by blast
  moreover have "distinct (remove1 b (sync_pool s))" using d(2) by simp
  moreover have eqs: "node_buf s' = node_buf s" "sync_pool s' = remove1 b (sync_pool s)" "owned s' = owned s"
    "pcs s' = pcs s" "next_buf s' = next_buf s" "heap s' = heap s" by (simp_all add: s')
  ultimately show "place_inv s' xs L"
    using inv unfolding place_inv_def eqs by (elim conjE, intro conjI)
qed

section \<open>The counter\<close>

definition tally :: "(pc \<Rightarrow> bool) \<Rightarrow> pool \<Rightarrow> nat" where
  "tally P s = length (filter P (pcs s))"

lemma filter_update_count:
  "t < length ps \<Longrightarrow>
   length (filter P (ps[t := p])) + of_bool (P (ps ! t)) = length (filter P ps) + of_bool (P p)"
proof (induction ps arbitrary: t)
  case (Cons q ps)
  then show ?case by (cases t) auto
qed simp

lemma tally_step:
  assumes "t < length (pcs s)" "pcs s' = (pcs s)[t := p]"
  shows "tally P s' + of_bool (P (pcs s ! t)) = tally P s + of_bool (P p)"
  using filter_update_count[OF assms(1), of P p] assms(2) by (simp add: tally_def)

lemma filter_disjoint_count:
  "(\<And>x. \<not> (P x \<and> Q x)) \<Longrightarrow> (\<And>x. \<not> (P x \<and> R x)) \<Longrightarrow> (\<And>x. \<not> (Q x \<and> R x)) \<Longrightarrow>
   length (filter P xs) + length (filter Q xs) + length (filter R xs) \<le> length xs"
proof (induction xs)
  case (Cons x xs)
  then show ?case by (cases "P x"; cases "Q x"; cases "R x") fastforce+
qed simp

definition count_inv :: "pool \<Rightarrow> nat list \<Rightarrow> bool" where
  "count_inv s xs \<longleftrightarrow>
     count s = of_int (int (length xs + tally decrementing s) - int (tally (\<lambda>p. p = PutInc) s)) \<and>
     (pcs s \<noteq> [] \<longrightarrow> length xs + tally decrementing s + tally adding s < maxPoolSize s + length (pcs s))"

lemma unat_of_int_64: "0 \<le> v \<Longrightarrow> v < 2 ^ 64 \<Longrightarrow> unat (of_int v :: 64 word) = nat v"
  by (simp add: unsigned_of_int take_bit_int_eq_self)

lemma count_check:
  assumes inv: "count_inv s xs" and t: "t < length (pcs s)" and pc: "pcs s ! t = PutStart b"
    and size: "maxPoolSize s + length (pcs s) \<le> 2 ^ 64" and pos: "0 < maxPoolSize s"
    and below: "count s < of_nat (maxPoolSize s)"
  shows "Suc (length xs + tally decrementing s + tally adding s) < maxPoolSize s + length (pcs s)"
proof -
  let ?v = "int (length xs + tally decrementing s) - int (tally (\<lambda>p. p = PutInc) s)"
  have cnt: "count s = of_int ?v"
    and le: "length xs + tally decrementing s + tally adding s < maxPoolSize s + length (pcs s)"
    using inv t unfolding count_inv_def by (metis, metis list.size(3) not_less_zero)
  have "PutStart b \<in> set (filter (\<lambda>p. \<exists>b. p = PutStart b) (pcs s))" using t pc by (auto simp: in_set_conv_nth)
  then have "0 < length (filter (\<lambda>p. \<exists>b. p = PutStart b) (pcs s))" by (rule length_pos_if_in_set)
  moreover have "length (filter (\<lambda>p. p = PutInc) (pcs s)) + length (filter adding (pcs s)) +
      length (filter (\<lambda>p. \<exists>b. p = PutStart b) (pcs s)) \<le> length (pcs s)"
    by (rule filter_disjoint_count) (auto simp: adding_def)
  ultimately have room: "tally (\<lambda>p. p = PutInc) s + tally adding s + 1 \<le> length (pcs s)"
    unfolding tally_def by linarith
  have "0 < length (pcs s)" using t by linarith
  then have "maxPoolSize s < 2 ^ 64" using size by linarith
  then have "unat (of_nat (maxPoolSize s) :: 64 word) = maxPoolSize s" by (simp add: unsigned_of_nat take_bit_nat_eq_self)
  with below have low: "unat (count s) < maxPoolSize s" by (simp add: word_less_nat_alt)
  have "?v < int (maxPoolSize s)"
  proof (cases "0 \<le> ?v")
    case True
    have "length xs + tally decrementing s < 2 ^ 64" using le size by linarith
    then have "int (length xs + tally decrementing s) < int (2 ^ 64)" by (simp only: of_nat_less_iff)
    then have "?v < 2 ^ 64" by simp
    with True have "unat (count s) = nat ?v" unfolding cnt by (rule unat_of_int_64)
    with True have "int (unat (count s)) = ?v" by (simp only: int_nat_eq) simp
    with low show ?thesis by linarith
  qed (use pos in linarith)
  then show ?thesis using room by linarith
qed

lemma decrementing_simps [simp]:
  "\<not> decrementing Idle" "\<not> decrementing GetStart" "\<not> decrementing (GetRead h)" "\<not> decrementing (GetCas h n)"
  "decrementing (GetDec h)" "\<not> decrementing GetSync" "\<not> decrementing (PutStart b)" "\<not> decrementing (PutNew b)"
  "\<not> decrementing (PutLoop m)" "\<not> decrementing (PutCas m g)" "\<not> decrementing PutInc" "\<not> decrementing (PutSync b)"
  by (simp_all add: decrementing_def)

lemma adding_simps [simp]:
  "\<not> adding Idle" "\<not> adding GetStart" "\<not> adding (GetRead h)" "\<not> adding (GetCas h n)"
  "\<not> adding (GetDec h)" "\<not> adding GetSync" "\<not> adding (PutStart b)" "adding (PutNew b)"
  "adding (PutLoop m)" "adding (PutCas m g)" "\<not> adding PutInc" "\<not> adding (PutSync b)"
  by (simp_all add: adding_def)

text \<open>The effect of a step on the counter matches its effect on the list and the tallies.\<close>

lemma count_update:
  assumes inv: "count_inv s xs" and t: "t < length (pcs s)" and pcs: "pcs s' = (pcs s)[t := p]"
    and mx: "maxPoolSize s' = maxPoolSize s"
    and cnt: "count s' = count s + of_int dc"
    and bal: "int (length xs') + of_bool (decrementing p) + of_bool (pcs s ! t = PutInc) =
              int (length xs) + of_bool (decrementing (pcs s ! t)) + of_bool (p = PutInc) + dc"
    and bnd: "length xs' + of_bool (decrementing p) + of_bool (adding p) \<le>
              length xs + of_bool (decrementing (pcs s ! t)) + of_bool (adding (pcs s ! t)) \<or>
              length xs' + tally decrementing s' + tally adding s' < maxPoolSize s + length (pcs s)"
  shows "count_inv s' xs'"
proof -
  let ?I = "\<lambda>p. p = PutInc"
  note tl = tally_step[OF t pcs, of decrementing] tally_step[OF t pcs, of adding] tally_step[OF t pcs, of ?I]
  have "int (length xs' + tally decrementing s') - int (tally ?I s') =
        int (length xs + tally decrementing s) - int (tally ?I s) + dc"
    using tl(1,3)[THEN arg_cong[of _ _ int]] bal by simp
  moreover have "count s = of_int (int (length xs + tally decrementing s) - int (tally ?I s))"
    using inv unfolding count_inv_def by blast
  ultimately have 1: "count s' = of_int (int (length xs' + tally decrementing s') - int (tally ?I s'))"
    using cnt by (simp only: of_int_add)
  have len: "length (pcs s') = length (pcs s)" "pcs s' \<noteq> [] \<longleftrightarrow> pcs s \<noteq> []" using pcs by simp_all
  have "length xs' + tally decrementing s' + tally adding s' < maxPoolSize s + length (pcs s)" if "pcs s \<noteq> []"
    using bnd tl(1,2) inv that unfolding count_inv_def by linarith
  with 1 show ?thesis unfolding count_inv_def len mx by blast
qed

lemma count_Get_step:
  assumes nodes: "nodes_inv s xs" and inv: "count_inv s xs" and t: "t < length (pcs s)"
    and step: "Get_step t c s = Some s'"
  shows "count_inv s' (list_after s t xs)"
proof (cases "pcs s ! t")
  case (GetCas h n)
  show ?thesis
  proof (cases "head s = Some h")
    case True
    with nodes obtain ys where "xs = h # ys" by (auto simp: nodes_inv_def chain_Some)
    with step GetCas True show ?thesis
      by (intro count_update[OF inv t, where p = "GetDec h" and dc = 0])
         (auto simp: Get_step_def list_after_def set_pc_def)
  next
    case False
    with step GetCas show ?thesis
      by (intro count_update[OF inv t, where p = GetStart and dc = 0])
         (auto simp: Get_step_def list_after_def set_pc_def)
  qed
next
  case (GetDec h)
  with step show ?thesis
    by (intro count_update[OF inv t, where p = Idle and dc = "-1"])
       (auto simp: Get_step_def list_after_def set_pc_def give_def)
next
  case GetStart
  with step show ?thesis
    by (intro count_update[OF inv t, where p = "case head s of None \<Rightarrow> GetSync | Some h \<Rightarrow> GetRead h" and dc = 0])
       (auto simp: Get_step_def list_after_def set_pc_def split: option.splits)
next
  case GetSync
  with step show ?thesis
    by (intro count_update[OF inv t, where p = Idle and dc = 0])
       (auto simp: Get_step_def list_after_def set_pc_def give_def Let_def split: option.splits if_splits)
next
  case Idle
  with step show ?thesis
    by (intro count_update[OF inv t, where p = GetStart and dc = 0])
       (auto simp: Get_step_def list_after_def set_pc_def)
next
  case (GetRead h)
  with step show ?thesis
    by (intro count_update[OF inv t, where p = "GetCas h (node_next s h)" and dc = 0])
       (auto simp: Get_step_def list_after_def set_pc_def)
qed (use step in \<open>simp_all add: Get_step_def\<close>)

lemma count_Put_step:
  assumes inv: "count_inv s xs" and t: "t < length (pcs s)" and step: "Put_step t s = Some s'"
    and size: "maxPoolSize s + length (pcs s) \<le> 2 ^ 64" "0 < maxPoolSize s"
  shows "count_inv s' (list_after s t xs)"
proof (cases "pcs s ! t")
  case (PutStart b)
  show ?thesis
  proof (cases "count s < of_nat (maxPoolSize s)")
    case True
    with step PutStart have s': "s' = set_pc t (PutNew b) s" by (simp add: Put_step_def)
    then have pcs: "pcs s' = (pcs s)[t := PutNew b]" by (simp add: set_pc_def)
    have "tally decrementing s' = tally decrementing s" "tally adding s' = Suc (tally adding s)"
      using tally_step[OF t pcs, of decrementing] tally_step[OF t pcs, of adding] PutStart by simp_all
    with count_check[OF inv t PutStart size True] PutStart show ?thesis
      by (intro count_update[OF inv t pcs, where dc = 0]) (simp_all add: s' list_after_def set_pc_def)
  next
    case False
    with step PutStart show ?thesis
      by (intro count_update[OF inv t, where p = "PutSync b" and dc = 0])
         (auto simp: Put_step_def list_after_def set_pc_def)
  qed
next
  case (PutNew b)
  with step show ?thesis
    by (intro count_update[OF inv t, where p = "PutLoop (next_node s)" and dc = 0])
       (auto simp: Put_step_def list_after_def set_pc_def Let_def)
next
  case (PutLoop n)
  with step show ?thesis
    by (intro count_update[OF inv t, where p = "PutCas n (head s)" and dc = 0])
       (auto simp: Put_step_def list_after_def set_pc_def)
next
  case (PutCas n h)
  with step show ?thesis
    by (intro count_update[OF inv t, where p = "if head s = h then PutInc else PutLoop n" and dc = 0])
       (auto simp: Put_step_def list_after_def set_pc_def)
next
  case PutInc
  with step show ?thesis
    by (intro count_update[OF inv t, where p = Idle and dc = 1])
       (auto simp: Put_step_def list_after_def set_pc_def)
next
  case (PutSync b)
  with step show ?thesis
    by (intro count_update[OF inv t, where p = Idle and dc = 0])
       (auto simp: Put_step_def list_after_def set_pc_def)
qed (use step in \<open>simp_all add: Put_step_def\<close>)

lemma count_Put_call:
  assumes inv: "count_inv s xs" and t: "t < length (pcs s)" and step: "Put_call t b s = Some s'"
  shows "count_inv s' xs"
  by (rule count_update[OF inv t, where p = "PutStart b" and dc = 0])
     (use step in \<open>auto simp: Put_call_def set_pc_def split: if_splits\<close>)

lemma count_frame:
  "count_inv s xs \<Longrightarrow> pcs s' = pcs s \<Longrightarrow> count s' = count s \<Longrightarrow> maxPoolSize s' = maxPoolSize s \<Longrightarrow> count_inv s' xs"
  by (simp add: count_inv_def tally_def)

section \<open>Reachable states\<close>

definition pool_inv :: "pool \<Rightarrow> bool" where
  "pool_inv s \<longleftrightarrow> (\<exists>xs L. nodes_inv s xs \<and> place_inv s xs L \<and> count_inv s xs)"

lemma step_config: "step s s' \<Longrightarrow> maxPoolSize s' = maxPoolSize s \<and> length (pcs s') = length (pcs s)"
  by (induction rule: step.induct)
     (auto simp: Get_step_def Put_step_def Put_call_def Client_use_def Client_new_def Sync_drop_def set_pc_def give_def Let_def
       split: pc.splits option.splits if_splits)

lemma reachable_config:
  "reachable dsize mx threads s \<Longrightarrow>
   maxPoolSize s = nat (if mx \<le> 0 then 1000 else mx) \<and> length (pcs s) = threads"
  by (induction rule: reachable.induct) (auto simp: step_config NewUnifiedBufferPool_def)

lemma pool_inv_step [inv_intros]:
  assumes inv: "pool_inv s" and step: "step s s'"
    and size: "maxPoolSize s + length (pcs s) \<le> 2 ^ 64" "0 < maxPoolSize s"
  shows "pool_inv s'"
proof -
  from inv obtain xs L where i: "nodes_inv s xs" "place_inv s xs L" "count_inv s xs"
    unfolding pool_inv_def by blast
  from step show ?thesis
  proof (cases rule: step.cases)
    case (step_get t c)
    show ?thesis unfolding pool_inv_def
      using nodes_Get_step[OF i(1) step_get] place_Get_step[OF i(1,2) step_get] count_Get_step[OF i(1,3) step_get]
      by blast
  next
    case (step_put_call t b)
    show ?thesis unfolding pool_inv_def
      using place_Put_call[OF i(1,2) step_put_call] count_Put_call[OF i(3) step_put_call] by blast
  next
    case (step_put t)
    show ?thesis unfolding pool_inv_def
      using nodes_Put_step[OF i(1) step_put] place_Put_step[OF i(1,2) step_put] count_Put_step[OF i(3) step_put size]
      by blast
  next
    case (step_client t b x)
    have "count_inv s' xs"
      by (rule count_frame[OF i(3)]) (use step_client in \<open>auto simp: Client_use_def split: if_splits\<close>)
    with place_Client_use[OF i(1,2) step_client(2)] show ?thesis unfolding pool_inv_def by blast
  next
    case (step_new t n)
    have "count_inv s' xs"
      by (rule count_frame[OF i(3)]) (use step_new in \<open>auto simp: Client_new_def Let_def\<close>)
    with place_Client_new[OF i(1,2) step_new] show ?thesis unfolding pool_inv_def by blast
  next
    case (step_drop b)
    have "count_inv s' xs"
      by (rule count_frame[OF i(3)]) (use step_drop in \<open>auto simp: Sync_drop_def split: if_splits\<close>)
    with place_Sync_drop[OF i(1,2) step_drop] show ?thesis unfolding pool_inv_def by blast
  qed
qed

lemma reachable_pool_inv:
  assumes "reachable dsize mx threads s" and "max 1000 mx + int threads \<le> 2 ^ 64"
  shows "pool_inv s"
  using assms(1)
proof (induction rule: reachable.induct)
  case reach_init
  have "count_inv (NewUnifiedBufferPool dsize mx threads) []"
    by (auto simp: count_inv_def tally_def NewUnifiedBufferPool_def decrementing_def adding_def)
  with nodes_init place_init show ?case unfolding pool_inv_def by blast
next
  case (reach_step s s')
  from reachable_config[OF reach_step.hyps(1)] assms(2)
  have "maxPoolSize s + length (pcs s) \<le> 2 ^ 64" "0 < maxPoolSize s" by (auto split: if_splits)
  with reach_step show ?case by (blast intro: pool_inv_step)
qed

text \<open>The free list, read off the heap: follow the next fields from the head.\<close>

fun walk :: "nat \<Rightarrow> (nat \<Rightarrow> nat option) \<Rightarrow> nat option \<Rightarrow> nat list" where
  "walk 0 nx h = []"
| "walk (Suc k) nx None = []"
| "walk (Suc k) nx (Some n) = n # walk k nx (nx n)"

definition free_list :: "pool \<Rightarrow> nat list" where
  "free_list s = walk (next_node s) (node_next s) (head s)"

lemma walk_chain: "chain nx h ns \<Longrightarrow> length ns \<le> k \<Longrightarrow> walk k nx h = ns"
proof (induction ns arbitrary: h k)
  case Nil
  then show ?case by (cases k) auto
next
  case (Cons n ns)
  then show ?case by (cases k) auto
qed

lemma free_list_eq:
  assumes "nodes_inv s xs"
  shows "free_list s = xs"
proof -
  note d = nodes_invD[OF assms]
  have "card (set xs) \<le> card {..<next_node s}" by (rule card_mono) (use d(8) in auto)
  then have "length xs \<le> next_node s" using distinct_card[OF d(9)] by simp
  with d(10) show ?thesis unfolding free_list_def by (rule walk_chain)
qed

text \<open>Runs, as lists of actions.\<close>

datatype action = AGet nat "nat option" | ACall nat nat | APut nat

fun act :: "action \<Rightarrow> pool \<Rightarrow> pool option" where
  "act (AGet t c) s = (if t < length (pcs s) then Get_step t c s else None)"
| "act (ACall t b) s = (if t < length (pcs s) then Put_call t b s else None)"
| "act (APut t) s = (if t < length (pcs s) then Put_step t s else None)"

fun run :: "action list \<Rightarrow> pool \<Rightarrow> pool option" where
  "run [] s = Some s"
| "run (a # as) s = (case act a s of None \<Rightarrow> None | Some s' \<Rightarrow> run as s')"

lemma act_step: "act a s = Some s' \<Longrightarrow> step s s'"
  by (cases a) (auto intro: step.intros split: if_splits)

lemma run_reachable: "reachable dsize mx threads s \<Longrightarrow> run as s = Some s' \<Longrightarrow> reachable dsize mx threads s'"
proof (induction as arbitrary: s)
  case (Cons a as)
  from Cons.prems(2) obtain s1 where "act a s = Some s1" "run as s1 = Some s'" by (auto split: option.splits)
  with Cons show ?case by (blast intro: reach_step act_step)
qed simp

lemma replicate_5: "replicate 5 x = [x, x, x, x, x]" and replicate_2: "replicate 2 x = [x, x]"
  by (simp_all add: eval_nat_numeral)

lemmas run_simps = Get_step_def Put_step_def Put_call_def set_pc_def give_def Let_def NewUnifiedBufferPool_def

lemmas reachable_inv = reachable_pool_inv[unfolded pool_inv_def]

text \<open>A run: thread 0 gets two new buffers and puts the first one back, up to the point where
  the node is linked and the counter not incremented yet.\<close>

definition demo_actions :: "action list" where
  "demo_actions = [AGet 0 None, AGet 0 None, AGet 0 None, AGet 0 None, AGet 0 None, AGet 0 None,
     ACall 0 0, APut 0, APut 0, APut 0, APut 0]"

definition demo :: pool where
  "demo = the (run demo_actions (NewUnifiedBufferPool 16 1 2))"

lemma demo_run: "run demo_actions (NewUnifiedBufferPool 16 1 2) = Some demo"
  by (simp add: demo_def demo_actions_def run_simps replicate_2)

lemma demo_reachable: "reachable 16 1 2 demo"
  by (rule run_reachable[OF reach_init demo_run])

lemma demo_owned: "owned demo 0 = {1}"
  by (auto simp: demo_def demo_actions_def run_simps replicate_2)

text \<open>
  C5. Whatever the interleaving, a buffer that a client has obtained from the pool and not put
  back belongs to that client alone: no other client owns it, no operation in flight holds it,
  and it is neither in the free list nor in the \<^verbatim>\<open>sync.Pool\<close>. Every buffer waiting in the free
  list is reset.
\<close>

theorem pool_buffers_exclusive:
  assumes "reachable dsize mx threads s" and "max 1000 mx + int threads \<le> 2 ^ 64"
  shows "(\<forall>t b. b \<in> owned s t \<longrightarrow>
            (\<forall>t'. b \<in> owned s t' \<longrightarrow> t' = t) \<and> b \<notin> node_buf s ` set (free_list s) \<and>
            b \<notin> set (sync_pool s) \<and> (\<forall>t'<threads. pc_buf (node_buf s) (pcs s ! t') \<noteq> Some b)) \<and>
         distinct (map (node_buf s) (free_list s)) \<and>
         (\<forall>n\<in>set (free_list s). rpos (heap s (node_buf s n)) = 0 \<and> wpos (heap s (node_buf s n)) = 0)"
proof -
  from reachable_inv[OF assms] obtain xs L where i: "nodes_inv s xs" "place_inv s xs L" by blast
  note d = place_invD[OF i(2)]
  have xs: "free_list s = xs" using free_list_eq[OF i(1)] .
  have len: "length (pcs s) = threads" using reachable_config[OF assms(1)] by blast
  have "inj_on (node_buf s) (set xs)" by (rule inj_onI) (metis d(1) place.inject(1))
  then have "distinct (map (node_buf s) xs)" using nodes_invD(9)[OF i(1)] by (simp add: distinct_map)
  moreover have "clean (heap s (node_buf s n))" if "n \<in> set xs" for n using d(7) d(1)[OF that] by simp
  moreover have "(\<forall>t'. b \<in> owned s t' \<longrightarrow> t' = t) \<and> b \<notin> node_buf s ` set xs \<and>
      b \<notin> set (sync_pool s) \<and> (\<forall>t'<threads. pc_buf (node_buf s) (pcs s ! t') \<noteq> Some b)"
    if "b \<in> owned s t" for t b
  proof -
    have b: "L b = Owned t" using d(4)[OF that] .
    then have "t' = t" if "b \<in> owned s t'" for t' using d(4)[OF that] by simp
    moreover have "b \<notin> node_buf s ` set xs" "b \<notin> set (sync_pool s)" using d(1,3) b by fastforce+
    moreover have "pc_buf (node_buf s) (pcs s ! t') \<noteq> Some b" if "t' < threads" for t'
      using d(5)[of t' b] b that len by auto
    ultimately show ?thesis by blast
  qed
  ultimately show ?thesis unfolding xs clean_def by blast
qed

theorem pool_buffers_exclusive_witness: "1 \<in> owned demo 0 \<and> 1 \<notin> node_buf demo ` set (free_list demo)"
proof
  show "1 \<in> owned demo 0" by (simp add: demo_owned)
  then show "1 \<notin> node_buf demo ` set (free_list demo)" using pool_buffers_exclusive[OF demo_reachable] by auto
qed

text \<open>
  The free list never holds more than \<^verbatim>\<open>maxPoolSize\<close> buffers plus one for each thread but
  one (the check of the counter and the push are not one atomic action), and when no operation
  is in flight \<^verbatim>\<open>Count\<close> is its exact length.
\<close>

lemma pool_count_exact_when_quiet:
  assumes "reachable dsize mx threads s" and "max 1000 mx + int threads \<le> 2 ^ 64" and "0 < threads"
  shows "length (free_list s) < nat (if mx \<le> 0 then 1000 else mx) + threads \<and>
         ((\<forall>t<threads. pcs s ! t = Idle) \<longrightarrow> Count s = of_nat (length (free_list s)))"
proof -
  from reachable_inv[OF assms(1,2)] obtain xs where i: "nodes_inv s xs" "count_inv s xs" by blast
  have xs: "free_list s = xs" using free_list_eq[OF i(1)] .
  have c: "maxPoolSize s = nat (if mx \<le> 0 then 1000 else mx)" "length (pcs s) = threads"
    using reachable_config[OF assms(1)] by blast+
  have "length xs < maxPoolSize s + length (pcs s)" using i(2) c(2) assms(3) by (auto simp: count_inv_def)
  moreover have "Count s = of_nat (length xs)" if idle: "\<forall>t<threads. pcs s ! t = Idle"
  proof -
    have "\<forall>p\<in>set (pcs s). p = Idle" using idle c(2) by (auto simp: in_set_conv_nth)
    then have "tally decrementing s = 0" "tally (\<lambda>p. p = PutInc) s = 0"
      by (auto simp: tally_def filter_empty_conv)
    with i(2) show ?thesis by (simp add: count_inv_def Count_def)
  qed
  ultimately show ?thesis unfolding xs c by simp
qed

lemma demo_quiet: "act (APut 0) demo = Some (demo\<lparr>count := 1, pcs := [Idle, Idle]\<rparr>)"
  by (simp add: demo_def demo_actions_def run_simps replicate_2)

lemma demo_quiet_reachable: "reachable 16 1 2 (demo\<lparr>count := 1, pcs := [Idle, Idle]\<rparr>)"
  by (rule reach_step[OF demo_reachable act_step[OF demo_quiet]])

lemma pool_count_exact_when_quiet_witness:
  "Count (demo\<lparr>count := 1, pcs := [Idle, Idle]\<rparr>) =
   of_nat (length (free_list (demo\<lparr>count := 1, pcs := [Idle, Idle]\<rparr>)))"
  using pool_count_exact_when_quiet[OF demo_quiet_reachable]
  by (simp add: numeral_2_eq_2 less_Suc_eq)

text \<open>
  The counter can wrap: it is incremented only after the node is linked, so a \<^verbatim>\<open>Get\<close>
  that takes the node of a \<^verbatim>\<open>Put\<close> that has not counted it yet leaves \<^verbatim>\<open>Count\<close> at
  \<^verbatim>\<open>2^64 - 1\<close> with an empty free list, and every \<^verbatim>\<open>Put\<close> that checks it then bypasses the list.
\<close>

lemma count_transiently_wraps:
  "\<exists>s. reachable 16 1 2 s \<and> unat (Count s) = 2 ^ 64 - 1 \<and> free_list s = [] \<and> \<not> Count s < of_nat (maxPoolSize s)"
proof -
  let ?get = "replicate 5 (AGet 1 None)"
  obtain s where s: "run ?get demo = Some s" "Count s = - 1" "free_list s = []" "maxPoolSize s = 1"
    by (simp add: demo_def demo_actions_def run_simps replicate_2 free_list_def Count_def replicate_5)
  have "reachable 16 1 2 s" by (rule run_reachable[OF demo_reachable s(1)])
  moreover have "\<not> Count s < of_nat (maxPoolSize s)" unfolding s by simp
  moreover have "unat (Count s) = 2 ^ 64 - 1" unfolding s by (simp add: unsigned_minus_1_eq_mask mask_eq_exp_minus_1)
  ultimately show ?thesis using s by blast
qed

section \<open>One operation running alone\<close>

definition free_bufs :: "pool \<Rightarrow> nat list" where
  "free_bufs s = map (node_buf s) (free_list s)"

lemma chain_unique: "chain nx h xs \<Longrightarrow> chain nx h ys \<Longrightarrow> xs = ys"
proof (induction xs arbitrary: h ys)
  case (Cons x xs)
  then show ?case by (cases ys) auto
qed auto

lemma reachable_free_list:
  assumes "reachable dsize mx threads s" "max 1000 mx + int threads \<le> 2 ^ 64"
  shows "chain (node_next s) (head s) xs \<longleftrightarrow> free_list s = xs"
  using reachable_inv[OF assms] free_list_eq nodes_invD(10) chain_unique by metis

lemma reachable_fresh:
  assumes "reachable dsize mx threads s" "max 1000 mx + int threads \<le> 2 ^ 64"
  shows "next_node s \<notin> set (free_list s)"
  using reachable_inv[OF assms] free_list_eq nodes_invD(8) by (metis less_irrefl)

definition Get_alone :: "nat \<Rightarrow> action list" where
  "Get_alone t = replicate 5 (AGet t None)"

definition Put_alone :: "nat \<Rightarrow> nat \<Rightarrow> action list" where
  "Put_alone t b = ACall t b # replicate 5 (APut t)"

lemma get_alone_pops:
  assumes reach: "reachable dsize mx threads s" "max 1000 mx + int threads \<le> 2 ^ 64"
    and t: "t < threads" and idle: "pcs s ! t = Idle" and top: "free_bufs s = b # bs"
  shows "\<exists>s'. run (Get_alone t) s = Some s' \<and> pcs s' = pcs s \<and> free_bufs s' = bs \<and>
           owned s' t = insert b (owned s t)"
proof -
  have len: "length (pcs s) = threads" using reachable_config[OF reach(1)] by blast
  note free = reachable_free_list[OF _ reach(2)]
  from top obtain n ns where n: "free_list s = n # ns" "node_buf s n = b" "map (node_buf s) ns = bs"
    by (auto simp: free_bufs_def)
  then have c: "head s = Some n" "chain (node_next s) (node_next s n) ns"
    using free[OF reach(1), of "n # ns"] by simp_all
  then obtain s' where s': "run (Get_alone t) s = Some s'" "pcs s' = (pcs s)[t := Idle]"
    "node_buf s' = node_buf s" "node_next s' = node_next s" "head s' = node_next s n"
    "owned s' t = insert b (owned s t)"
    using t idle n(2) len by (simp add: Get_alone_def run_simps replicate_5)
  have "free_list s' = ns"
    using free[OF run_reachable[OF reach(1) s'(1)], of ns] c(2) s'(4,5) by simp
  moreover have "pcs s' = pcs s" using s'(2) idle by (metis list_update_id)
  ultimately show ?thesis using s' n(3) by (auto simp: free_bufs_def)
qed

lemma put_alone_pushes:
  assumes reach: "reachable dsize mx threads s" "max 1000 mx + int threads \<le> 2 ^ 64"
    and t: "t < threads" and idle: "pcs s ! t = Idle"
    and b: "b \<in> owned s t" and room: "count s < of_nat (maxPoolSize s)"
  shows "\<exists>s'. run (Put_alone t b) s = Some s' \<and> pcs s' = pcs s \<and> free_bufs s' = b # free_bufs s \<and>
           owned s' t = owned s t - {b} \<and> count s' = count s + 1"
proof -
  let ?n = "next_node s"
  have len: "length (pcs s) = threads" using reachable_config[OF reach(1)] by blast
  note free = reachable_free_list[OF _ reach(2)]
  obtain s' where s': "run (Put_alone t b) s = Some s'" "pcs s' = (pcs s)[t := Idle]"
    "node_buf s' = (node_buf s)(?n := b)" "node_next s' = (node_next s)(?n := head s)"
    "head s' = Some ?n" "owned s' t = owned s t - {b}" "count s' = count s + 1"
    using t idle b room len by (simp add: Put_alone_def run_simps replicate_5)
  have fresh: "?n \<notin> set (free_list s)" using reachable_fresh[OF reach] .
  then have "free_list s' = ?n # free_list s"
    using free[OF run_reachable[OF reach(1) s'(1)], of "?n # free_list s"] s'(4,5)
      free[OF reach(1), of "free_list s"] by (simp add: chain_upd)
  moreover have "pcs s' = pcs s" using s'(2) idle by (metis list_update_id)
  ultimately show ?thesis using fresh s' by (auto simp: free_bufs_def)
qed

text \<open>
  A \<^verbatim>\<open>Get\<close> or \<^verbatim>\<open>Put\<close> that is not disturbed by another thread finishes, in five atomic
  steps, and acts on the pool as pop and push on a stack: \<^verbatim>\<open>Get\<close> hands out the buffer put
  back last, \<^verbatim>\<open>Put\<close> below the maximum puts its buffer on top.
\<close>

lemma pool_alone_is_stack:
  assumes "reachable dsize mx threads s" "max 1000 mx + int threads \<le> 2 ^ 64"
    and "t < threads" and "pcs s ! t = Idle"
  shows "(\<forall>b bs. free_bufs s = b # bs \<longrightarrow> (\<exists>s'. run (Get_alone t) s = Some s' \<and> pcs s' = pcs s \<and>
            free_bufs s' = bs \<and> owned s' t = insert b (owned s t))) \<and>
         (\<forall>b. b \<in> owned s t \<and> count s < of_nat (maxPoolSize s) \<longrightarrow>
            (\<exists>s'. run (Put_alone t b) s = Some s' \<and> pcs s' = pcs s \<and>
              free_bufs s' = b # free_bufs s \<and> owned s' t = owned s t - {b} \<and> count s' = count s + 1))"
  using get_alone_pops[OF assms] put_alone_pushes[OF assms] by blast

lemma pool_alone_is_stack_witness:
  "\<exists>s'. run (Get_alone 1) demo = Some s' \<and> pcs s' = pcs demo \<and> free_bufs s' = [] \<and> 0 \<in> owned s' 1"
proof -
  have "free_bufs demo = [0]" "pcs demo ! 1 = Idle"
    by (simp_all add: free_bufs_def free_list_def demo_def demo_actions_def run_simps replicate_2)
  with pool_alone_is_stack[OF demo_reachable, of 1] show ?thesis by auto
qed

section \<open>Preallocation\<close>

text \<open>\<^verbatim>\<open>PreAllocate(count)\<close> by one thread while no other uses the pool (it runs at start-up,
  under a \<^verbatim>\<open>sync.Once\<close>); \<^verbatim>\<open>int(count)\<close> reads the counter as a signed number.\<close>

fun PreAllocate :: "nat \<Rightarrow> nat \<Rightarrow> pool \<Rightarrow> pool option" where
  "PreAllocate 0 t s = Some s"
| "PreAllocate (Suc k) t s =
     (if sint (count s) < int (maxPoolSize s)
      then Option.bind (Client_new t (defaultSize s) s) (\<lambda>s1.
           Option.bind (run (Put_alone t (next_buf s)) s1) (PreAllocate k t))
      else Some s)"

definition GetGlobalUnifiedPool :: "nat \<Rightarrow> pool option" where
  "GetGlobalUnifiedPool threads = PreAllocate 100 0 (NewUnifiedBufferPool 4096 1000 threads)"

lemma reachable_count:
  assumes "reachable dsize mx threads s" "max 1000 mx + int threads \<le> 2 ^ 64" "0 < threads"
    and idle: "pcs s = replicate threads Idle"
  shows "count s = of_nat (length (free_bufs s)) \<and>
         length (free_bufs s) < maxPoolSize s + threads"
proof -
  from reachable_inv[OF assms(1,2)] obtain xs where i: "nodes_inv s xs" "count_inv s xs" by blast
  have "tally decrementing s = 0" "tally (\<lambda>p. p = PutInc) s = 0" "pcs s \<noteq> []"
    using assms(3) by (auto simp: tally_def idle)
  with i(2) show ?thesis
    by (simp add: count_inv_def free_bufs_def free_list_eq[OF i(1)] idle)
qed

lemma PreAllocate_fills:
  assumes bound: "max 1000 mx + int threads \<le> 2 ^ 63" and threads: "0 < threads"
  shows "reachable dsize mx threads s \<Longrightarrow> pcs s = replicate threads Idle \<Longrightarrow>
     length (free_bufs s) \<le> maxPoolSize s \<Longrightarrow>
     \<exists>s'. PreAllocate k 0 s = Some s' \<and> reachable dsize mx threads s' \<and> pcs s' = replicate threads Idle \<and>
          maxPoolSize s' = maxPoolSize s \<and>
          length (free_bufs s') = min (length (free_bufs s) + k) (maxPoolSize s)"
proof (induction k arbitrary: s)
  case (Suc k)
  let ?m = "length (free_bufs s)"
  have bound': "max 1000 mx + int threads \<le> 2 ^ 64" using bound by simp
  have cnt: "count s = of_nat ?m" using reachable_count[OF Suc.prems(1) bound' threads Suc.prems(2)] by blast
  have "maxPoolSize s = nat (if mx \<le> 0 then 1000 else mx)" using reachable_config[OF Suc.prems(1)] by blast
  then have "int (maxPoolSize s) < 2 ^ 63" using bound threads by (auto split: if_splits)
  then have mx: "maxPoolSize s < 2 ^ 63" by simp
  have sm: "sint (count s) = int ?m"
    using Suc.prems(3) mx unfolding cnt by (simp add: signed_of_nat signed_take_bit_eq_if_positive
      take_bit_nat_eq_self bit_iff_odd flip: of_nat_take_bit)
  show ?case
  proof (cases "?m < maxPoolSize s")
    case False
    with Suc.prems sm show ?thesis by auto
  next
    case True
    obtain s1 where s1: "Client_new 0 (defaultSize s) s = Some s1" by (simp add: Client_new_def Let_def)
    then have f: "count s1 = count s" "maxPoolSize s1 = maxPoolSize s" "pcs s1 = pcs s" "free_bufs s1 = free_bufs s"
      "next_buf s \<in> owned s1 0"
      by (auto simp: Client_new_def Let_def free_bufs_def free_list_def)
    have r1: "reachable dsize mx threads s1"
      by (rule reach_step[OF Suc.prems(1)], rule step_new[OF _ s1]) (use Suc.prems(2) threads in simp)
    have "count s1 < of_nat (maxPoolSize s1)"
      using True mx unfolding f cnt by (simp add: word_less_nat_alt unsigned_of_nat take_bit_nat_eq_self)
    with put_alone_pushes[OF r1 bound' threads _ f(5)] Suc.prems(2) f threads obtain s2 where
      s2: "run (Put_alone 0 (next_buf s)) s1 = Some s2" "pcs s2 = pcs s1" "free_bufs s2 = next_buf s # free_bufs s1"
      by auto
    have r2: "reachable dsize mx threads s2" by (rule run_reachable[OF r1 s2(1)])
    have m2: "maxPoolSize s2 = maxPoolSize s" using reachable_config[OF r2] reachable_config[OF Suc.prems(1)] by simp
    have "length (free_bufs s2) \<le> maxPoolSize s2" using True s2(3) f(4) m2 by simp
    from Suc.IH[OF r2 _ this] s2(2,3) f Suc.prems(2) m2 True s1 s2(1) sm show ?thesis by auto
  qed
qed auto

text \<open>
  Preallocating on a fresh pool leaves exactly \<^verbatim>\<open>min(count, maxPoolSize)\<close> buffers in the free
  list and \<^verbatim>\<open>Count\<close> equal to that; the global pool starts with 100.
\<close>

lemma PreAllocate_exact:
  assumes "max 1000 mx + int threads \<le> 2 ^ 63" and "0 < threads"
  shows "\<exists>s. PreAllocate k 0 (NewUnifiedBufferPool dsize mx threads) = Some s \<and>
     length (free_list s) = min k (nat (if mx \<le> 0 then 1000 else mx)) \<and>
     Count s = of_nat (min k (nat (if mx \<le> 0 then 1000 else mx)))"
proof -
  have init: "pcs (NewUnifiedBufferPool dsize mx threads) = replicate threads Idle"
    "free_bufs (NewUnifiedBufferPool dsize mx threads) = []"
    "maxPoolSize (NewUnifiedBufferPool dsize mx threads) = nat (if mx \<le> 0 then 1000 else mx)"
    by (simp_all add: NewUnifiedBufferPool_def free_bufs_def free_list_def)
  obtain s where s: "PreAllocate k 0 (NewUnifiedBufferPool dsize mx threads) = Some s"
    "reachable dsize mx threads s" "pcs s = replicate threads Idle"
    "length (free_bufs s) = min k (nat (if mx \<le> 0 then 1000 else mx))"
    using PreAllocate_fills[OF assms reach_init init(1), of k] init(2,3) by auto
  have "Count s = of_nat (length (free_bufs s))"
    using reachable_count[OF s(2) _ assms(2) s(3)] assms(1) by (simp add: Count_def)
  with s show ?thesis by (simp add: free_bufs_def)
qed

lemma PreAllocate_exact_witness:
  "\<exists>s. GetGlobalUnifiedPool 4 = Some s \<and> length (free_list s) = 100 \<and> Count s = 100"
  using PreAllocate_exact[of 1000 4 100 4096] by (simp add: GetGlobalUnifiedPool_def)

section \<open>Acquire\<close>

text \<open>\<^verbatim>\<open>AcquireBytesBuffer(initSize)\<close>: the buffer of the pool, with a new array when it is too small.\<close>

definition AcquireBytesBuffer :: "int \<Rightarrow> BytesBuffer \<Rightarrow> BytesBuffer" where
  "AcquireBytesBuffer initSize b =
     (if initSize > Cap b then b\<lparr>buf := replicate (nat initSize) 0, buf_cap := nat initSize\<rparr> else b)"

lemma AcquireBytesBuffer_cap: "initSize \<le> Cap (AcquireBytesBuffer initSize b) \<and> Cap b \<le> Cap (AcquireBytesBuffer initSize b)"
  by (auto simp: AcquireBytesBuffer_def Cap_def)

end
