(* ===== verification/Cache_Contract.thy ===== *)
theory Cache_Contract
  imports Prelude
begin

text \<open>
  What a client of a cache may rely on, whatever the eviction policy: a hit returns the value
  that was stored last under that key and has not expired; any entry may be gone at any time.
  \<^verbatim>\<open>core/router\<close> has two such caches (\<open>Router_Cache\<close>, \<open>Enhanced_Router\<close>).
\<close>

fun run_ops :: "('op \<Rightarrow> 'c \<Rightarrow> ('c \<times> 'v option) option) \<Rightarrow> 'op list \<Rightarrow> 'c \<Rightarrow> ('c \<times> 'v option list) option" where
  "run_ops step [] c = Some (c, [])"
| "run_ops step (op # ops) c = (case step op c of None \<Rightarrow> None
     | Some (c', r) \<Rightarrow> map_option (\<lambda>(c'', rs). (c'', r # rs)) (run_ops step ops c'))"

text \<open>Every hit among the answers \<open>rs\<close> is the unexpired value the map \<open>m\<close> has by then.\<close>

fun answers_ok :: "('op \<Rightarrow> ('k \<rightharpoonup> 'v \<times> time) \<Rightarrow> ('k \<rightharpoonup> 'v \<times> time)) \<Rightarrow> ('op \<Rightarrow> ('k \<times> time) option) \<Rightarrow>
    'op list \<Rightarrow> ('k \<rightharpoonup> 'v \<times> time) \<Rightarrow> 'v option list \<Rightarrow> bool" where
  "answers_ok spec query [] m rs = (rs = [])"
| "answers_ok spec query (op # ops) m rs = (case rs of [] \<Rightarrow> False
     | r # rs' \<Rightarrow> (case r of None \<Rightarrow> True
         | Some v \<Rightarrow> (case query op of None \<Rightarrow> False
             | Some (k, now) \<Rightarrow> (case m k of None \<Rightarrow> False | Some (w, e) \<Rightarrow> v = w \<and> now \<le> e))) \<and>
       answers_ok spec query ops (spec op m) rs')"

text \<open>
  \<open>step op c\<close> runs an operation (\<open>None\<close>: it does not return), \<open>abs c\<close> is what the cache holds
  with the expiry times, \<open>spec op\<close> what the operation does to a map that never forgets,
  \<open>query op\<close> the key and the time of a lookup.
\<close>

locale lossy_cache =
  fixes step :: "'op \<Rightarrow> 'c \<Rightarrow> ('c \<times> 'v option) option"
    and inv :: "'c \<Rightarrow> bool"
    and abs :: "'c \<Rightarrow> ('k \<rightharpoonup> 'v \<times> time)"
    and spec :: "'op \<Rightarrow> ('k \<rightharpoonup> 'v \<times> time) \<Rightarrow> ('k \<rightharpoonup> 'v \<times> time)"
    and query :: "'op \<Rightarrow> ('k \<times> time) option"
    and ok :: "'op \<Rightarrow> bool"
  assumes step_total: "inv c \<Longrightarrow> ok op \<Longrightarrow> \<exists>c' r. step op c = Some (c', r) \<and> inv c' \<and> abs c' \<subseteq>\<^sub>m spec op (abs c)"
    and step_hit: "inv c \<Longrightarrow> ok op \<Longrightarrow> step op c = Some (c', Some v) \<Longrightarrow>
                   \<exists>k now e. query op = Some (k, now) \<and> abs c k = Some (v, e) \<and> now \<le> e"
    and spec_mono: "m \<subseteq>\<^sub>m m' \<Longrightarrow> spec op m \<subseteq>\<^sub>m spec op m'"
begin

lemma run_ops_refine:
  "inv c \<Longrightarrow> abs c \<subseteq>\<^sub>m m \<Longrightarrow> \<forall>op\<in>set ops. ok op \<Longrightarrow>
   \<exists>c' rs. run_ops step ops c = Some (c', rs) \<and> inv c' \<and> abs c' \<subseteq>\<^sub>m fold spec ops m \<and> answers_ok spec query ops m rs"
proof (induction ops arbitrary: c m)
  case (Cons op ops)
  from Cons.prems(3) have op: "ok op" by simp
  from step_total[OF Cons.prems(1) op] obtain c1 r where
    s: "step op c = Some (c1, r)" "inv c1" "abs c1 \<subseteq>\<^sub>m spec op (abs c)" by blast
  have m1: "abs c1 \<subseteq>\<^sub>m spec op m" using s(3) spec_mono[OF Cons.prems(2)] by (rule map_le_trans)
  from Cons.IH[OF s(2) m1] Cons.prems(3) obtain c2 rs where
    rest: "run_ops step ops c1 = Some (c2, rs)" "inv c2" "abs c2 \<subseteq>\<^sub>m fold spec ops (spec op m)"
      "answers_ok spec query ops (spec op m) rs" by auto
  have "answers_ok spec query (op # ops) m (r # rs)"
  proof (cases r)
    case (Some v)
    with step_hit[OF Cons.prems(1) op] s(1) obtain k now e where
      q: "query op = Some (k, now)" "abs c k = Some (v, e)" "now \<le> e" by blast
    from q(2) Cons.prems(2) have "m k = Some (v, e)" unfolding map_le_def by (metis domI)
    with q rest(4) Some show ?thesis by simp
  qed (use rest(4) in simp)
  with s rest show ?case by simp
qed simp

end

end
