(* ===== verification/Router_Cache.thy ===== *)
theory Router_Cache
  imports Complex_Main Cache_Contract
begin

text \<open>
  \<^verbatim>\<open>core/router/router_cache.go\<close>: the route cache with its recency list, memory accounting and
  eviction policies. Entries are shared by pointer between the map and the recency list, so both
  hold addresses into a heap of entries; \<^verbatim>\<open>Get\<close> updates an entry in place. The order of a
  \<^verbatim>\<open>range\<close> over the map and the clock of an eviction come from a \<open>range_env\<close>, which may depend on
  the whole state. Counters and sizes are unbounded (they would wrap after \<^verbatim>\<open>2^63\<close> bytes or
  requests); a hit rate is a rational number where the code rounds it to \<^verbatim>\<open>float64\<close>.
\<close>

section \<open>State\<close>

datatype cache_value = StringV string | BytesV bytes | NumV int | FloatV "64 word" | BoolV bool | OtherV nat

record CacheEntry =
  Key :: string
  Value :: cache_value
  ExpireTime :: time
  AccessTime :: time
  HitCount :: int
  Size :: int

record CacheStats =
  Hits :: int
  Misses :: int
  Evictions :: int
  StatSize :: int
  HitRate :: rat

datatype EvictionPolicy = LRU | LFU | TTL | FIFO | OtherPolicy int

record CacheConfig =
  Enabled :: bool
  MaxSize :: int
  CfgTTL :: duration

record RouterCache =
  config :: CacheConfig
  entries :: "string \<rightharpoonup> nat"
  accessOrder :: "nat list"
  heap :: "nat \<Rightarrow> CacheEntry"
  next_addr :: nat
  stats :: CacheStats
  running :: bool
  monitor :: "(int \<times> int) option"   \<comment> \<open>its hit and miss counters\<close>
  evictionPolicy :: EvictionPolicy
  maxMemoryUsage :: int
  currentMemory :: int

type_synonym range_env = "RouterCache \<Rightarrow> string list \<times> time"

definition emptyStats :: CacheStats where
  "emptyStats = \<lparr>Hits = 0, Misses = 0, Evictions = 0, StatSize = 0, HitRate = 0\<rparr>"

definition NewRouterCache :: "CacheConfig option \<Rightarrow> (int \<times> int) option \<Rightarrow> RouterCache" where
  "NewRouterCache cfg mon = \<lparr>
     config = (case cfg of Some c \<Rightarrow> c
               | None \<Rightarrow> \<lparr>Enabled = True, MaxSize = 10000, CfgTTL = 60 * minute\<rparr>),
     entries = Map.empty, accessOrder = [],
     heap = (\<lambda>_. \<lparr>Key = [], Value = NumV 0, ExpireTime = 0, AccessTime = 0, HitCount = 0, Size = 0\<rparr>),
     next_addr = 0, stats = emptyStats, running = False, monitor = mon, evictionPolicy = LRU,
     maxMemoryUsage = 100 * 1024 * 1024, currentMemory = 0\<rparr>"

definition Start :: "RouterCache \<Rightarrow> RouterCache" where
  "Start c = (if \<not> Enabled (config c) then c else if running c then c else c\<lparr>running := True\<rparr>)"

definition Stop :: "RouterCache \<Rightarrow> RouterCache" where
  "Stop c = (if \<not> running c then c else c\<lparr>running := False\<rparr>)"

section \<open>Operations\<close>

definition RecordCacheHit :: "(int \<times> int) option \<Rightarrow> (int \<times> int) option" where
  "RecordCacheHit mon = map_option (\<lambda>(h, m). (h + 1, m)) mon"

definition RecordCacheMiss :: "(int \<times> int) option \<Rightarrow> (int \<times> int) option" where
  "RecordCacheMiss mon = map_option (\<lambda>(h, m). (h, m + 1)) mon"

definition removeFromAccessOrder :: "nat \<Rightarrow> RouterCache \<Rightarrow> RouterCache" where
  "removeFromAccessOrder a c = c\<lparr>accessOrder := remove_first (\<lambda>e. e = a) (accessOrder c)\<rparr>"

definition updateAccessOrder :: "nat \<Rightarrow> RouterCache \<Rightarrow> RouterCache" where
  "updateAccessOrder a c = (let c = removeFromAccessOrder a c in c\<lparr>accessOrder := accessOrder c @ [a]\<rparr>)"

definition removeEntry :: "string \<Rightarrow> RouterCache \<Rightarrow> RouterCache" where
  "removeEntry k c = (case entries c k of
     None \<Rightarrow> c
   | Some a \<Rightarrow> (let c = removeFromAccessOrder a (c\<lparr>entries := (entries c)(k := None)\<rparr>)
       in c\<lparr>currentMemory := currentMemory c - Size (heap c a),
            stats := (stats c)\<lparr>Evictions := Evictions (stats c) + 1\<rparr>\<rparr>))"

definition evictLRU :: "RouterCache \<Rightarrow> RouterCache" where
  "evictLRU c = (case accessOrder c of [] \<Rightarrow> c | a # _ \<Rightarrow> removeEntry (Key (heap c a)) c)"

fun lfu_scan :: "RouterCache \<Rightarrow> string list \<Rightarrow> int \<times> string option \<Rightarrow> int \<times> string option" where
  "lfu_scan c [] best = best"
| "lfu_scan c (k # ks) best = lfu_scan c ks (case entries c k of
     None \<Rightarrow> best
   | Some a \<Rightarrow> if fst best = -1 \<or> HitCount (heap c a) < fst best then (HitCount (heap c a), Some k) else best)"

definition evictLFU :: "range_env \<Rightarrow> RouterCache \<Rightarrow> RouterCache" where
  "evictLFU env c = (if map_len (entries c) = 0 then c
     else case snd (lfu_scan c (fst (env c)) (-1, None)) of None \<Rightarrow> c | Some k \<Rightarrow> removeEntry k c)"

definition expired :: "RouterCache \<Rightarrow> time \<Rightarrow> string \<Rightarrow> bool" where
  "expired c now k = (case entries c k of None \<Rightarrow> False | Some a \<Rightarrow> now > ExpireTime (heap c a))"

definition evictExpired :: "range_env \<Rightarrow> RouterCache \<Rightarrow> RouterCache" where
  "evictExpired env c = (case List.find (expired c (snd (env c))) (fst (env c)) of
     Some k \<Rightarrow> removeEntry k c | None \<Rightarrow> evictLRU c)"

definition evictFIFO :: "RouterCache \<Rightarrow> RouterCache" where
  "evictFIFO c = evictLRU c"

definition evictOldest :: "range_env \<Rightarrow> RouterCache \<Rightarrow> RouterCache" where
  "evictOldest env c = (if accessOrder c = [] then c else case evictionPolicy c of
     LRU \<Rightarrow> evictLRU c | LFU \<Rightarrow> evictLFU env c | TTL \<Rightarrow> evictExpired env c | FIFO \<Rightarrow> evictFIFO c
   | OtherPolicy _ \<Rightarrow> evictLRU c)"

text \<open>The loop of \<^verbatim>\<open>evictToMakeSpace\<close>; it would not end if an eviction removed nothing.\<close>

partial_function (option) evict_loop :: "(RouterCache \<Rightarrow> RouterCache) \<Rightarrow> int \<Rightarrow> RouterCache \<Rightarrow> RouterCache option" where
  "evict_loop evict needed c =
     (if currentMemory c + needed > maxMemoryUsage c \<and> 0 < map_len (entries c)
      then evict_loop evict needed (evict c) else Some c)"

definition evictToMakeSpace :: "range_env \<Rightarrow> int \<Rightarrow> RouterCache \<Rightarrow> RouterCache option" where
  "evictToMakeSpace env needed c = evict_loop (evictOldest env) needed c"

definition estimateSize :: "cache_value \<Rightarrow> int" where
  "estimateSize v = (case v of StringV s \<Rightarrow> int (length s) | BytesV b \<Rightarrow> int (length b)
     | NumV _ \<Rightarrow> 8 | FloatV _ \<Rightarrow> 8 | BoolV _ \<Rightarrow> 1 | OtherV _ \<Rightarrow> 256)"

definition Get :: "string \<Rightarrow> time \<Rightarrow> time \<Rightarrow> RouterCache \<Rightarrow> RouterCache \<times> cache_value option" where
  "Get k now now2 c =
     (if \<not> Enabled (config c) then (c, None)
      else case entries c k of
        None \<Rightarrow> (c\<lparr>stats := (stats c)\<lparr>Misses := Misses (stats c) + 1\<rparr>,
                   monitor := RecordCacheMiss (monitor c)\<rparr>, None)
      | Some a \<Rightarrow>
          if now > ExpireTime (heap c a)
          then (let c = removeEntry k c
                in (c\<lparr>stats := (stats c)\<lparr>Misses := Misses (stats c) + 1\<rparr>,
                      monitor := RecordCacheMiss (monitor c)\<rparr>, None))
          else (let e = (heap c a)\<lparr>AccessTime := now2, HitCount := HitCount (heap c a) + 1\<rparr>;
                    c = c\<lparr>heap := (heap c)(a := e), stats := (stats c)\<lparr>Hits := Hits (stats c) + 1\<rparr>\<rparr>;
                    c = updateAccessOrder a c
                in (c\<lparr>monitor := RecordCacheHit (monitor c)\<rparr>, Some (Value e))))"

definition drop_existing :: "string \<Rightarrow> RouterCache \<Rightarrow> RouterCache" where
  "drop_existing k c = (case entries c k of None \<Rightarrow> c
     | Some a \<Rightarrow> removeFromAccessOrder a (c\<lparr>currentMemory := currentMemory c - Size (heap c a)\<rparr>))"

definition insert_new :: "string \<Rightarrow> cache_value \<Rightarrow> time \<Rightarrow> time \<Rightarrow> RouterCache \<Rightarrow> RouterCache" where
  "insert_new k v expireTime now c = (let a = next_addr c in
     c\<lparr>entries := (entries c)(k \<mapsto> a), next_addr := a + 1,
       heap := (heap c)(a := \<lparr>Key = k, Value = v, ExpireTime = expireTime, AccessTime = now,
                             HitCount = 0, Size = estimateSize v\<rparr>),
       accessOrder := accessOrder c @ [a], currentMemory := currentMemory c + estimateSize v\<rparr>)"

definition Set :: "range_env \<Rightarrow> string \<Rightarrow> cache_value \<Rightarrow> duration \<Rightarrow> time \<Rightarrow> time \<Rightarrow> RouterCache \<Rightarrow> RouterCache option" where
  "Set env k v ttl now now2 c =
     (if \<not> Enabled (config c) then Some c
      else Option.bind (if currentMemory c + estimateSize v > maxMemoryUsage c
                        then evictToMakeSpace env (estimateSize v) c else Some c) (\<lambda>c.
        let c = drop_existing k c;
            c = insert_new k v (if ttl = 0 then now + CfgTTL (config c) else now + ttl) now2 c
        in Some (if int (map_len (entries c)) > MaxSize (config c) then evictOldest env c else c)))"

definition Delete :: "string \<Rightarrow> RouterCache \<Rightarrow> RouterCache" where
  "Delete k c = removeEntry k c"

definition Clear :: "RouterCache \<Rightarrow> RouterCache" where
  "Clear c = c\<lparr>entries := Map.empty, accessOrder := [], currentMemory := 0, stats := emptyStats\<rparr>"

definition SetEvictionPolicy :: "EvictionPolicy \<Rightarrow> RouterCache \<Rightarrow> RouterCache" where
  "SetEvictionPolicy p c = c\<lparr>evictionPolicy := p\<rparr>"

text \<open>The ticks of the two background workers; \<open>ks\<close> is the order of the \<^verbatim>\<open>range\<close>.\<close>

definition cleanup :: "string list \<Rightarrow> time \<Rightarrow> RouterCache \<Rightarrow> RouterCache" where
  "cleanup ks now c = fold removeEntry (filter (expired c now) ks) c"

definition hit_rate :: "int \<Rightarrow> int \<Rightarrow> rat" where
  "hit_rate h m = (if h + m > 0 then of_int h / of_int (h + m) else 0)"

definition updateStats :: "RouterCache \<Rightarrow> RouterCache" where
  "updateStats c = c\<lparr>stats := (stats c)\<lparr>StatSize := int (map_len (entries c)),
     HitRate := (if Hits (stats c) + Misses (stats c) > 0
                 then hit_rate (Hits (stats c)) (Misses (stats c)) else HitRate (stats c))\<rparr>\<rparr>"

text \<open>\<^verbatim>\<open>GetStats\<close>: hits, misses, evictions, size, entry count, hit rate, memory.\<close>

definition GetStats :: "RouterCache \<Rightarrow> CacheStats \<times> nat \<times> int" where
  "GetStats c = ((stats c)\<lparr>HitRate := hit_rate (Hits (stats c)) (Misses (stats c))\<rparr>,
     map_len (entries c), currentMemory c)"

text \<open>\<^verbatim>\<open>GetEntries\<close>: a copy of every entry.\<close>

definition GetEntries :: "RouterCache \<Rightarrow> (string \<rightharpoonup> CacheEntry)" where
  "GetEntries c = (\<lambda>k. map_option (heap c) (entries c k))"

section \<open>The route wrapper\<close>

definition route_key :: "string \<Rightarrow> string \<Rightarrow> string" where
  "route_key meth path = meth @ '':'' @ path"

definition CacheRoute :: "range_env \<Rightarrow> string \<Rightarrow> string \<Rightarrow> cache_value \<Rightarrow> time \<Rightarrow> time \<Rightarrow> RouterCache \<Rightarrow> RouterCache option" where
  "CacheRoute env meth path r now now2 c = Set env (route_key meth path) r 0 now now2 c"

definition GetCachedRoute :: "string \<Rightarrow> string \<Rightarrow> time \<Rightarrow> time \<Rightarrow> RouterCache \<Rightarrow> RouterCache \<times> cache_value option" where
  "GetCachedRoute meth path now now2 c = Get (route_key meth path) now now2 c"

definition InvalidateRoute :: "string \<Rightarrow> string \<Rightarrow> RouterCache \<Rightarrow> RouterCache" where
  "InvalidateRoute meth path c = Delete (route_key meth path) c"

text \<open>\<^verbatim>\<open>filepath.Match\<close> is the argument \<open>pmatch\<close>; \<open>ks\<close> the order in which \<^verbatim>\<open>GetKeys\<close> lists the keys.\<close>

definition InvalidatePattern :: "(string \<Rightarrow> bool) \<Rightarrow> string list \<Rightarrow> RouterCache \<Rightarrow> RouterCache" where
  "InvalidatePattern pmatch ks c = fold Delete (filter pmatch ks) c"

section \<open>Invariant\<close>

definition cache_wf :: "RouterCache \<Rightarrow> bool" where
  "cache_wf c \<longleftrightarrow> distinct (accessOrder c) \<and> set (accessOrder c) = ran (entries c) \<and>
     (\<forall>k a. entries c k = Some a \<longrightarrow> Key (heap c a) = k \<and> a < next_addr c \<and> 0 \<le> Size (heap c a) \<and> 0 \<le> HitCount (heap c a)) \<and>
     currentMemory c = sum_list (map (\<lambda>a. Size (heap c a)) (accessOrder c))"

lemma cache_wfD:
  assumes "cache_wf c"
  shows "distinct (accessOrder c)" and "set (accessOrder c) = ran (entries c)"
    and "entries c k = Some a \<Longrightarrow> Key (heap c a) = k"
    and "entries c k = Some a \<Longrightarrow> a < next_addr c"
    and "entries c k = Some a \<Longrightarrow> 0 \<le> Size (heap c a)"
    and "entries c k = Some a \<Longrightarrow> a \<in> set (accessOrder c)"
    and "a \<in> set (accessOrder c) \<Longrightarrow> entries c (Key (heap c a)) = Some a"
    and "currentMemory c = sum_list (map (\<lambda>a. Size (heap c a)) (accessOrder c))"
    and "entries c k = Some a \<Longrightarrow> 0 \<le> HitCount (heap c a)"
proof -
  show 1: "distinct (accessOrder c)" "set (accessOrder c) = ran (entries c)"
    "entries c k = Some a \<Longrightarrow> Key (heap c a) = k" "entries c k = Some a \<Longrightarrow> a < next_addr c"
    "entries c k = Some a \<Longrightarrow> 0 \<le> Size (heap c a)"
    "currentMemory c = sum_list (map (\<lambda>a. Size (heap c a)) (accessOrder c))"
    "entries c k = Some a \<Longrightarrow> 0 \<le> HitCount (heap c a)"
    using assms unfolding cache_wf_def by blast+
  show "entries c k = Some a \<Longrightarrow> a \<in> set (accessOrder c)" using 1(2) by (auto simp: ran_def)
  show "a \<in> set (accessOrder c) \<Longrightarrow> entries c (Key (heap c a)) = Some a"
    using assms unfolding cache_wf_def ran_def by auto
qed

lemma dom_entries: "cache_wf c \<Longrightarrow> dom (entries c) = (\<lambda>a. Key (heap c a)) ` set (accessOrder c)"
  by (auto simp: cache_wfD(7) image_iff) (metis cache_wfD(3,6))

lemma finite_entries: "cache_wf c \<Longrightarrow> finite (dom (entries c))"
  by (simp add: dom_entries)

lemma map_len_entries: "cache_wf c \<Longrightarrow> map_len (entries c) = length (accessOrder c)"
proof -
  assume wf: "cache_wf c"
  have "inj_on (\<lambda>a. Key (heap c a)) (set (accessOrder c))"
    by (rule inj_onI) (metis cache_wfD(7)[OF wf] option.inject)
  then show ?thesis unfolding map_len_def dom_entries[OF wf]
    by (simp add: card_image distinct_card cache_wfD(1)[OF wf])
qed

lemma wf_New [inv_intros]: "cache_wf (NewRouterCache cfg mon)"
  by (simp add: cache_wf_def NewRouterCache_def)

lemma sum_list_remove1:
  "distinct xs \<Longrightarrow> a \<in> set xs \<Longrightarrow> sum_list (map f (remove1 a xs)) = sum_list (map f xs) - (f a :: int)"
  by (induction xs) auto

lemma removeFromAccessOrder_eq: "removeFromAccessOrder a c = c\<lparr>accessOrder := remove1 a (accessOrder c)\<rparr>"
  by (simp add: removeFromAccessOrder_def remove_first_eq_remove1)

lemma removeEntry_simps [simp]:
  "entries (removeEntry k c) = (entries c)(k := None)"
  "accessOrder (removeEntry k c) = (case entries c k of None \<Rightarrow> accessOrder c | Some a \<Rightarrow> remove1 a (accessOrder c))"
  "currentMemory (removeEntry k c) = (case entries c k of None \<Rightarrow> currentMemory c | Some a \<Rightarrow> currentMemory c - Size (heap c a))"
  "heap (removeEntry k c) = heap c" "config (removeEntry k c) = config c" "next_addr (removeEntry k c) = next_addr c"
  "maxMemoryUsage (removeEntry k c) = maxMemoryUsage c" "evictionPolicy (removeEntry k c) = evictionPolicy c"
  "monitor (removeEntry k c) = monitor c" "running (removeEntry k c) = running c"
  by (auto simp: removeEntry_def removeFromAccessOrder_eq Let_def fun_upd_idem split: option.split)

lemma wf_removeEntry [inv_intros]:
  assumes wf: "cache_wf c"
  shows "cache_wf (removeEntry k c)"
proof (cases "entries c k")
  case (Some a)
  note d = cache_wfD[OF wf]
  have a: "a \<in> set (accessOrder c)" using d(6)[OF Some] .
  have "b \<in> ran ((entries c)(k := None)) \<longleftrightarrow> b \<in> ran (entries c) - {a}" for b
  proof -
    have "b \<in> ran ((entries c)(k := None)) \<longleftrightarrow> (\<exists>j. j \<noteq> k \<and> entries c j = Some b)" by (auto simp: ran_def)
    also have "\<dots> \<longleftrightarrow> (\<exists>j. b \<noteq> a \<and> entries c j = Some b)"
      using d(3) Some by (metis option.inject)
    also have "\<dots> \<longleftrightarrow> b \<in> ran (entries c) - {a}" unfolding ran_def by blast
    finally show ?thesis .
  qed
  then have "ran ((entries c)(k := None)) = ran (entries c) - {a}" by blast
  then have "set (remove1 a (accessOrder c)) = ran ((entries c)(k := None))"
    using d(1,2) by (simp add: set_remove1_eq)
  moreover have "currentMemory c - Size (heap c a) = sum_list (map (\<lambda>a. Size (heap c a)) (remove1 a (accessOrder c)))"
    using sum_list_remove1[OF d(1) a] d(8) by simp
  ultimately show ?thesis using d(1,3-5,9) Some by (auto simp: cache_wf_def)
next
  case None
  then have "removeEntry k c = c" by (simp add: removeEntry_def)
  with wf show ?thesis by simp
qed

lemma map_len_removeEntry:
  "cache_wf c \<Longrightarrow> k \<in> dom (entries c) \<Longrightarrow> Suc (map_len (entries (removeEntry k c))) = map_len (entries c)"
  by (simp add: map_len_del finite_entries)

lemma removeEntry_memory_le:
  "cache_wf c \<Longrightarrow> currentMemory (removeEntry k c) \<le> currentMemory c"
  by (auto simp: cache_wfD(5) split: option.split)

text \<open>What the cache holds.\<close>

definition contents :: "RouterCache \<Rightarrow> (string \<rightharpoonup> cache_value \<times> time)" where
  "contents c = (\<lambda>k. map_option (\<lambda>a. (Value (heap c a), ExpireTime (heap c a))) (entries c k))"

lemma GetEntries_contents: "contents c = (\<lambda>k. map_option (\<lambda>e. (Value e, ExpireTime e)) (GetEntries c k))"
  by (simp add: contents_def GetEntries_def option.map_comp comp_def)

lemma contents_removeEntry: "contents (removeEntry k c) = (contents c)(k := None)"
  by (simp add: contents_def fun_eq_iff)

lemma contents_removeEntry_le: "contents (removeEntry k c) \<subseteq>\<^sub>m contents c"
  by (simp add: contents_removeEntry map_le_def)

section \<open>Evictions\<close>

text \<open>
  What \<^verbatim>\<open>evictToMakeSpace\<close> and \<^verbatim>\<open>Set\<close> need of an eviction policy: as long as the cache is not
  empty it removes one of the entries, by \<^verbatim>\<open>removeEntry\<close>.
\<close>

locale evictor =
  fixes evict :: "RouterCache \<Rightarrow> RouterCache"
  assumes evicts: "cache_wf c \<Longrightarrow> accessOrder c \<noteq> [] \<Longrightarrow> \<exists>k. k \<in> dom (entries c) \<and> evict c = removeEntry k c"
begin

lemma evict_wf: "cache_wf c \<Longrightarrow> accessOrder c \<noteq> [] \<Longrightarrow> cache_wf (evict c)"
  using evicts wf_removeEntry by metis

lemma evict_smaller:
  "cache_wf c \<Longrightarrow> accessOrder c \<noteq> [] \<Longrightarrow> Suc (length (accessOrder (evict c))) = length (accessOrder c)"
proof -
  assume c: "cache_wf c" "accessOrder c \<noteq> []"
  from evicts[OF c] obtain k where "k \<in> dom (entries c)" "evict c = removeEntry k c" by blast
  then show ?thesis using map_len_removeEntry[OF c(1)] map_len_entries[OF c(1)]
      map_len_entries[OF wf_removeEntry[OF c(1)]] by metis
qed

lemma loop_ends:
  "cache_wf c \<Longrightarrow> \<exists>c'. evict_loop evict needed c = Some c' \<and> cache_wf c' \<and> contents c' \<subseteq>\<^sub>m contents c \<and>
     config c' = config c \<and> maxMemoryUsage c' = maxMemoryUsage c \<and> evictionPolicy c' = evictionPolicy c \<and>
     length (accessOrder c') \<le> length (accessOrder c) \<and>
     (currentMemory c' + needed \<le> maxMemoryUsage c \<or> entries c' = Map.empty)"
proof (induction "length (accessOrder c)" arbitrary: c rule: less_induct)
  case less
  show ?case
  proof (cases "currentMemory c + needed > maxMemoryUsage c \<and> 0 < map_len (entries c)")
    case True
    then have ne: "accessOrder c \<noteq> []" using map_len_entries[OF less.prems] by auto
    from evicts[OF less.prems ne] obtain k where k: "evict c = removeEntry k c" by blast
    have "length (accessOrder (evict c)) < length (accessOrder c)" using evict_smaller[OF less.prems ne] by simp
    from less.hyps[OF this evict_wf[OF less.prems ne]] obtain c' where c':
      "evict_loop evict needed (evict c) = Some c'" "cache_wf c'" "contents c' \<subseteq>\<^sub>m contents (evict c)"
      "config c' = config (evict c)" "maxMemoryUsage c' = maxMemoryUsage (evict c)"
      "evictionPolicy c' = evictionPolicy (evict c)" "length (accessOrder c') \<le> length (accessOrder (evict c))"
      "currentMemory c' + needed \<le> maxMemoryUsage (evict c) \<or> entries c' = Map.empty" by blast
    have "contents c' \<subseteq>\<^sub>m contents c" using c'(3) contents_removeEntry_le k by (metis map_le_trans)
    with c' k True evict_smaller[OF less.prems ne] show ?thesis by (subst evict_loop.simps) auto
  next
    case False
    then have "currentMemory c + needed \<le> maxMemoryUsage c \<or> entries c = Map.empty"
      using map_len_0_iff[OF finite_entries[OF less.prems]] by auto
    with False less.prems show ?thesis by (subst evict_loop.simps) auto
  qed
qed

end

text \<open>The order of a \<^verbatim>\<open>range\<close> visits every key.\<close>

definition ranges_all :: "range_env \<Rightarrow> bool" where
  "ranges_all env \<longleftrightarrow> (\<forall>c. cache_wf c \<longrightarrow> set (fst (env c)) = dom (entries c))"

lemma evictLRU_first:
  assumes "cache_wf c" "accessOrder c = a # as"
  shows "entries c (Key (heap c a)) = Some a" and "evictLRU c = removeEntry (Key (heap c a)) c"
  using cache_wfD(7)[OF assms(1), of a] assms(2) by (simp_all add: evictLRU_def)

text \<open>The candidate of the LFU scan: nothing yet, or an entry with its hit count.\<close>

definition lfu_best :: "RouterCache \<Rightarrow> int \<times> string option \<Rightarrow> bool" where
  "lfu_best c r \<longleftrightarrow> r = (-1, None) \<or> (\<exists>k a. entries c k = Some a \<and> r = (HitCount (heap c a), Some k))"

lemma lfu_scan_least:
  assumes hits: "\<forall>k a. entries c k = Some a \<longrightarrow> 0 \<le> HitCount (heap c a)"
  shows "lfu_best c best \<Longrightarrow> lfu_best c (lfu_scan c ks best) \<and>
     (fst best \<noteq> -1 \<longrightarrow> fst (lfu_scan c ks best) \<noteq> -1 \<and> fst (lfu_scan c ks best) \<le> fst best) \<and>
     (\<forall>k\<in>set ks. \<forall>a. entries c k = Some a \<longrightarrow>
        fst (lfu_scan c ks best) \<noteq> -1 \<and> fst (lfu_scan c ks best) \<le> HitCount (heap c a))"
proof (induction ks arbitrary: best)
  case (Cons k ks)
  show ?case
  proof (cases "entries c k")
    case None
    with Cons.IH[OF Cons.prems] show ?thesis by simp
  next
    case (Some a)
    define b where "b = (if fst best = -1 \<or> HitCount (heap c a) < fst best then (HitCount (heap c a), Some k) else best)"
    have h: "0 \<le> HitCount (heap c a)" using hits Some by blast
    have "lfu_best c b" using Cons.prems Some by (auto simp: b_def lfu_best_def)
    from Cons.IH[OF this] have ih: "lfu_best c (lfu_scan c ks b)"
      "fst b \<noteq> -1 \<longrightarrow> fst (lfu_scan c ks b) \<noteq> -1 \<and> fst (lfu_scan c ks b) \<le> fst b"
      "\<forall>k\<in>set ks. \<forall>a. entries c k = Some a \<longrightarrow>
        fst (lfu_scan c ks b) \<noteq> -1 \<and> fst (lfu_scan c ks b) \<le> HitCount (heap c a)" by blast+
    have fb: "fst b \<noteq> -1" "fst b \<le> HitCount (heap c a)" "fst best \<noteq> -1 \<Longrightarrow> fst b \<le> fst best"
      using h by (auto simp: b_def)
    have step: "lfu_scan c (k # ks) best = lfu_scan c ks b" by (simp add: b_def Some)
    have "fst (lfu_scan c ks b) \<noteq> -1" "fst (lfu_scan c ks b) \<le> fst b" using ih(2) fb(1) by blast+
    with fb ih(1,3) Some show ?thesis unfolding step by auto
  qed
qed simp

lemma evictLFU_victim:
  assumes wf: "cache_wf c" and ne: "accessOrder c \<noteq> []" and env: "ranges_all env"
  shows "\<exists>k a. entries c k = Some a \<and> evictLFU env c = removeEntry k c \<and>
           (\<forall>j b. entries c j = Some b \<longrightarrow> HitCount (heap c a) \<le> HitCount (heap c b))"
proof -
  let ?ks = "fst (env c)"
  let ?r = "lfu_scan c ?ks (-1, None)"
  have ks: "set ?ks = dom (entries c)" using env wf by (auto simp: ranges_all_def)
  have hits: "\<forall>k a. entries c k = Some a \<longrightarrow> 0 \<le> HitCount (heap c a)" using cache_wfD(9)[OF wf] by blast
  have r: "lfu_best c ?r" "\<And>k a. entries c k = Some a \<Longrightarrow> fst ?r \<noteq> -1 \<and> fst ?r \<le> HitCount (heap c a)"
    using lfu_scan_least[OF hits, of "(-1, None)" ?ks] ks by (auto simp: lfu_best_def)
  have len: "0 < map_len (entries c)" using map_len_entries[OF wf] ne by simp
  then obtain k0 a0 where "entries c k0 = Some a0"
    by (metis map_len_0_iff[OF finite_entries[OF wf]] less_irrefl option.exhaust)
  with r(2) have "fst ?r \<noteq> -1" by blast
  with r(1) obtain k a where ka: "entries c k = Some a" "?r = (HitCount (heap c a), Some k)"
    unfolding lfu_best_def by auto
  then have "evictLFU env c = removeEntry k c" using len by (simp add: evictLFU_def)
  with ka r(2) show ?thesis by (metis fst_conv)
qed

interpretation lru: evictor evictLRU
proof
  fix c assume "cache_wf c" "accessOrder c \<noteq> []"
  then obtain a as where "accessOrder c = a # as" by (cases "accessOrder c") auto
  with evictLRU_first[OF \<open>cache_wf c\<close> this] show "\<exists>k. k \<in> dom (entries c) \<and> evictLRU c = removeEntry k c" by blast
qed

lemma evictExpired_victim:
  assumes "cache_wf c" "accessOrder c \<noteq> []"
  shows "\<exists>k. k \<in> dom (entries c) \<and> evictExpired env c = removeEntry k c"
proof (cases "List.find (expired c (snd (env c))) (fst (env c))")
  case None
  with lru.evicts[OF assms] show ?thesis by (simp add: evictExpired_def)
next
  case (Some k)
  then have "expired c (snd (env c)) k" using find_in_set by metis
  with Some show ?thesis by (auto simp: evictExpired_def expired_def split: option.splits)
qed

lemma evictOldest_victim:
  assumes "ranges_all env" "cache_wf c" "accessOrder c \<noteq> []"
  shows "\<exists>k. k \<in> dom (entries c) \<and> evictOldest env c = removeEntry k c"
  using lru.evicts[OF assms(2,3)] evictExpired_victim[OF assms(2,3), of env] evictLFU_victim[OF assms(2,3,1)] assms(3)
  by (auto simp: evictOldest_def evictFIFO_def split: EvictionPolicy.split)

lemma evictor_Oldest: "ranges_all env \<Longrightarrow> evictor (evictOldest env)"
  by unfold_locales (rule evictOldest_victim)

interpretation ttl: evictor "evictExpired env" for env
  by unfold_locales (rule evictExpired_victim)

text \<open>Such an order: the keys in the order of the recency list.\<close>

definition sorted_env :: "time \<Rightarrow> range_env" where
  "sorted_env now c = (map (\<lambda>a. Key (heap c a)) (accessOrder c), now)"


lemma sorted_env_ranges: "ranges_all (sorted_env now)"
  by (auto simp: ranges_all_def sorted_env_def dom_entries)

section \<open>The operations keep the invariant\<close>

lemma wf_stats [simp]: "cache_wf (c\<lparr>stats := x\<rparr>) = cache_wf c" "cache_wf (c\<lparr>monitor := y\<rparr>) = cache_wf c"
  "cache_wf (c\<lparr>running := r\<rparr>) = cache_wf c" "cache_wf (c\<lparr>evictionPolicy := p\<rparr>) = cache_wf c"
  by (simp_all add: cache_wf_def)

lemma contents_stats [simp]: "contents (c\<lparr>stats := x\<rparr>) = contents c" "contents (c\<lparr>monitor := y\<rparr>) = contents c"
  "contents (c\<lparr>running := r\<rparr>) = contents c" "contents (c\<lparr>evictionPolicy := p\<rparr>) = contents c"
  "contents (c\<lparr>accessOrder := os\<rparr>) = contents c" "contents (c\<lparr>currentMemory := m\<rparr>) = contents c"
  by (simp_all add: contents_def)

lemma sum_list_move: "distinct xs \<Longrightarrow> a \<in> set xs \<Longrightarrow> sum_list (map f (remove1 a xs @ [a])) = (sum_list (map f xs) :: int)"
  by (simp add: sum_list_remove1)

lemma Get_hit_state:
  assumes "entries c k = Some a" "Enabled (config c)" "\<not> now > ExpireTime (heap c a)"
  shows "Get k now now2 c = (c\<lparr>heap := (heap c)(a := (heap c a)\<lparr>AccessTime := now2, HitCount := HitCount (heap c a) + 1\<rparr>),
     stats := (stats c)\<lparr>Hits := Hits (stats c) + 1\<rparr>, accessOrder := remove1 a (accessOrder c) @ [a],
     monitor := RecordCacheHit (monitor c)\<rparr>, Some (Value (heap c a)))"
  using assms by (simp add: Get_def Let_def updateAccessOrder_def removeFromAccessOrder_eq)

lemma Get_contents_le: "contents (fst (Get k now now2 c)) \<subseteq>\<^sub>m contents c"
proof (cases "Enabled (config c) \<and> (\<exists>a. entries c k = Some a \<and> \<not> now > ExpireTime (heap c a))")
  case True
  then obtain a where "entries c k = Some a" "Enabled (config c)" "\<not> now > ExpireTime (heap c a)" by blast
  from Get_hit_state[OF this] show ?thesis by (auto simp: contents_def map_le_def)
next
  case False
  then show ?thesis
    by (auto simp: Get_def Let_def contents_removeEntry map_le_def split: option.split)
qed

lemma sum_Size_upd:
  "a \<notin> set xs \<or> Size x = Size (h a) \<Longrightarrow>
   (\<Sum>b\<leftarrow>xs. Size (if b = a then x else h b)) = (\<Sum>b\<leftarrow>xs. Size (h b))"
  by (intro arg_cong[of _ _ sum_list] map_cong) auto

lemma wf_Get [inv_intros]:
  assumes wf: "cache_wf c"
  shows "cache_wf (fst (Get k now now2 c))"
proof (cases "Enabled (config c) \<and> (\<exists>a. entries c k = Some a \<and> \<not> now > ExpireTime (heap c a))")
  case True
  then obtain a where a: "entries c k = Some a" "Enabled (config c)" "\<not> now > ExpireTime (heap c a)" by blast
  note d = cache_wfD[OF wf]
  have "set (remove1 a (accessOrder c) @ [a]) = ran (entries c)"
    using d(1,2) d(6)[OF a(1)] by auto
  moreover have "distinct (remove1 a (accessOrder c) @ [a])" using d(1) by simp
  moreover have "currentMemory c = sum_list (map (\<lambda>b. Size (heap c b)) (remove1 a (accessOrder c) @ [a]))"
    using sum_list_move[OF d(1) d(6)[OF a(1)]] d(8) by metis
  moreover have "0 \<le> HitCount (heap c a)" using d(9)[OF a(1)] .
  ultimately show ?thesis unfolding Get_hit_state[OF a] using d(3-5,9)
    by (auto simp: cache_wf_def sum_Size_upd)
next
  case False
  with wf show ?thesis by (auto simp: Get_def Let_def intro: inv_intros split: option.split)
qed

lemma wf_drop_insert:
  assumes wf: "cache_wf c"
  shows "cache_wf (insert_new k v e now (drop_existing k c))"
proof -
  note d = cache_wfD[OF wf]
  let ?n = "next_addr c" and ?os = "case entries c k of None \<Rightarrow> accessOrder c | Some a \<Rightarrow> remove1 a (accessOrder c)"
  have os: "set ?os = ran ((entries c)(k := None)) \<and> distinct ?os \<and>
     currentMemory (removeEntry k c) = sum_list (map (\<lambda>a. Size (heap c a)) ?os)"
    using wf_removeEntry[OF wf, of k] by (auto simp: cache_wf_def split: option.splits)
  have fresh: "?n \<notin> set ?os"
  proof
    assume "?n \<in> set ?os"
    then obtain j where "entries c j = Some ?n" using os by (auto simp: ran_def split: if_splits)
    with d(4) show False by blast
  qed
  have "set (?os @ [?n]) = ran ((entries c)(k \<mapsto> ?n))"
    using os by (auto simp: ran_def split: if_splits)
  moreover have "0 \<le> estimateSize v" by (simp add: estimateSize_def split: cache_value.split)
  ultimately show ?thesis using os fresh d(3-5,9)
    unfolding cache_wf_def insert_new_def drop_existing_def removeFromAccessOrder_eq Let_def
    by (auto simp: less_Suc_eq sum_Size_upd split: option.splits if_splits)
qed

lemma entries_drop_insert:
  "entries (insert_new k v e now (drop_existing k c)) = (entries c)(k \<mapsto> next_addr c)"
  "accessOrder (insert_new k v e now (drop_existing k c)) =
     (case entries c k of None \<Rightarrow> accessOrder c | Some a \<Rightarrow> remove1 a (accessOrder c)) @ [next_addr c]"
  "config (insert_new k v e now (drop_existing k c)) = config c"
  "maxMemoryUsage (insert_new k v e now (drop_existing k c)) = maxMemoryUsage c"
  "evictionPolicy (insert_new k v e now (drop_existing k c)) = evictionPolicy c"
  "heap (insert_new k v e now (drop_existing k c)) = (heap c)(next_addr c := \<lparr>Key = k, Value = v, ExpireTime = e,
     AccessTime = now, HitCount = 0, Size = estimateSize v\<rparr>)"
  "currentMemory (insert_new k v e now (drop_existing k c)) =
     (case entries c k of None \<Rightarrow> currentMemory c | Some a \<Rightarrow> currentMemory c - Size (heap c a)) + estimateSize v"
  by (simp_all add: insert_new_def drop_existing_def removeFromAccessOrder_eq Let_def split: option.split)

lemma contents_drop_insert:
  assumes "cache_wf c"
  shows "contents (insert_new k v e now (drop_existing k c)) = (contents c)(k \<mapsto> (v, e))"
proof
  fix j
  show "contents (insert_new k v e now (drop_existing k c)) j = ((contents c)(k \<mapsto> (v, e))) j"
    using cache_wfD(4)[OF assms, of j] by (cases "entries c j") (auto simp: contents_def entries_drop_insert)
qed

definition expiry :: "CacheConfig \<Rightarrow> duration \<Rightarrow> time \<Rightarrow> time" where
  "expiry cfg ttl now = (if ttl = 0 then now + CfgTTL cfg else now + ttl)"

text \<open>The state in which \<^verbatim>\<open>Set\<close> checks the size limit.\<close>

lemma Set_before_limit:
  assumes wf: "cache_wf c" and env: "ranges_all env" and on: "Enabled (config c)"
  shows "\<exists>c1 c3. Set env k v ttl now now2 c =
      Some (if int (map_len (entries c3)) > MaxSize (config c) then evictOldest env c3 else c3) \<and>
    cache_wf c1 \<and> contents c1 \<subseteq>\<^sub>m contents c \<and> config c1 = config c \<and> maxMemoryUsage c1 = maxMemoryUsage c \<and>
    evictionPolicy c1 = evictionPolicy c \<and> length (accessOrder c1) \<le> length (accessOrder c) \<and>
    (currentMemory c + estimateSize v \<le> maxMemoryUsage c \<longrightarrow> c1 = c) \<and>
    (currentMemory c1 + estimateSize v \<le> maxMemoryUsage c \<or> entries c1 = Map.empty) \<and>
    c3 = insert_new k v (expiry (config c) ttl now) now2 (drop_existing k c1)"
proof -
  let ?fits = "currentMemory c + estimateSize v \<le> maxMemoryUsage c"
  obtain c1 where c1: "(if \<not> ?fits then evictToMakeSpace env (estimateSize v) c else Some c) = Some c1"
    "cache_wf c1" "contents c1 \<subseteq>\<^sub>m contents c" "config c1 = config c" "maxMemoryUsage c1 = maxMemoryUsage c"
    "evictionPolicy c1 = evictionPolicy c" "length (accessOrder c1) \<le> length (accessOrder c)"
    "?fits \<longrightarrow> c1 = c" "currentMemory c1 + estimateSize v \<le> maxMemoryUsage c \<or> entries c1 = Map.empty"
  proof (cases ?fits)
    case True
    with wf that[of c] show ?thesis by simp
  next
    case False
    with evictor.loop_ends[OF evictor_Oldest[OF env] wf, of "estimateSize v"] that
    show ?thesis by (auto simp: evictToMakeSpace_def)
  qed
  let ?c3 = "insert_new k v (expiry (config c) ttl now) now2 (drop_existing k c1)"
  have cfg: "config (drop_existing k c1) = config c"
    using c1(4) by (simp add: drop_existing_def removeFromAccessOrder_eq split: option.split)
  have "Set env k v ttl now now2 c =
      Some (if int (map_len (entries ?c3)) > MaxSize (config c) then evictOldest env ?c3 else ?c3)"
    using c1(1,4) on by (simp add: Set_def Let_def not_le expiry_def entries_drop_insert cfg)
  with c1 show ?thesis by blast
qed

lemma Set_ok:
  assumes wf: "cache_wf c" and env: "ranges_all env" and on: "Enabled (config c)"
  shows "\<exists>c'. Set env k v ttl now now2 c = Some c' \<and> cache_wf c' \<and> config c' = config c \<and>
    maxMemoryUsage c' = maxMemoryUsage c \<and>
    contents c' \<subseteq>\<^sub>m (contents c)(k \<mapsto> (v, expiry (config c) ttl now)) \<and>
    currentMemory c' \<le> max (maxMemoryUsage c) (estimateSize v) \<and>
    (int (map_len (entries c)) \<le> MaxSize (config c) \<longrightarrow> int (map_len (entries c')) \<le> MaxSize (config c))"
proof -
  from Set_before_limit[OF assms] obtain c1 c3 where s:
    "Set env k v ttl now now2 c =
      Some (if int (map_len (entries c3)) > MaxSize (config c) then evictOldest env c3 else c3)"
    "cache_wf c1" "contents c1 \<subseteq>\<^sub>m contents c" "config c1 = config c" "maxMemoryUsage c1 = maxMemoryUsage c"
    "length (accessOrder c1) \<le> length (accessOrder c)"
    "currentMemory c1 + estimateSize v \<le> maxMemoryUsage c \<or> entries c1 = Map.empty"
    "c3 = insert_new k v (expiry (config c) ttl now) now2 (drop_existing k c1)" by blast
  have wf3: "cache_wf c3" unfolding s(8) by (rule wf_drop_insert[OF s(2)])
  have cont: "contents c3 \<subseteq>\<^sub>m (contents c)(k \<mapsto> (v, expiry (config c) ttl now))"
    unfolding s(8) contents_drop_insert[OF s(2)] using s(3) by (auto simp: map_le_def)
  have f3: "config c3 = config c" "maxMemoryUsage c3 = maxMemoryUsage c" "accessOrder c3 \<noteq> []"
    using s by (simp_all add: entries_drop_insert)
  have len3: "length (accessOrder c3) \<le> Suc (length (accessOrder c1))"
    unfolding s(8) entries_drop_insert by (auto simp: length_remove1 split: option.split)
  have "entries c1 = Map.empty \<Longrightarrow> currentMemory c1 = 0"
    using cache_wfD(2,8)[OF s(2)] by simp
  moreover have "currentMemory c3 \<le> currentMemory c1 + estimateSize v"
    using cache_wfD(5)[OF s(2)] by (auto simp: s(8) entries_drop_insert split: option.split)
  ultimately have mem3: "currentMemory c3 \<le> max (maxMemoryUsage c) (estimateSize v)" using s(7) by auto
  show ?thesis
  proof (cases "int (map_len (entries c3)) > MaxSize (config c)")
    case True
    from evictor.evicts[OF evictor_Oldest[OF env] wf3 f3(3)] obtain j where
      j: "j \<in> dom (entries c3)" "evictOldest env c3 = removeEntry j c3" by blast
    have "Suc (map_len (entries (removeEntry j c3))) = map_len (entries c3)"
      by (rule map_len_removeEntry[OF wf3 j(1)])
    moreover have "cache_wf (removeEntry j c3)" by (rule wf_removeEntry[OF wf3])
    moreover have "contents (removeEntry j c3) \<subseteq>\<^sub>m (contents c)(k \<mapsto> (v, expiry (config c) ttl now))"
      using contents_removeEntry_le cont by (rule map_le_trans)
    ultimately show ?thesis
      using True s(1) f3 j(2) mem3 removeEntry_memory_le[OF wf3, of j] len3 s(6)
      by (auto simp: map_len_entries wf s(2) wf3)
  qed (use s(1) wf3 f3 cont mem3 in auto)
qed

section \<open>The contract of the cache\<close>

datatype cache_op = GetOp string time time | SetOp range_env string cache_value duration time time
  | DeleteOp string | ClearOp | CleanupOp "string list" time | StatsOp | PolicyOp EvictionPolicy | StartOp | StopOp

fun cache_step :: "cache_op \<Rightarrow> RouterCache \<Rightarrow> (RouterCache \<times> cache_value option) option" where
  "cache_step (GetOp k now now2) c = Some (Get k now now2 c)"
| "cache_step (SetOp env k v ttl now now2) c = map_option (\<lambda>c. (c, None)) (Set env k v ttl now now2 c)"
| "cache_step (DeleteOp k) c = Some (Delete k c, None)"
| "cache_step ClearOp c = Some (Clear c, None)"
| "cache_step (CleanupOp ks now) c = Some (cleanup ks now c, None)"
| "cache_step StatsOp c = Some (updateStats c, None)"
| "cache_step (PolicyOp p) c = Some (SetEvictionPolicy p c, None)"
| "cache_step StartOp c = Some (Start c, None)"
| "cache_step StopOp c = Some (Stop c, None)"

fun cache_spec :: "CacheConfig \<Rightarrow> cache_op \<Rightarrow> (string \<rightharpoonup> cache_value \<times> time) \<Rightarrow> (string \<rightharpoonup> cache_value \<times> time)" where
  "cache_spec cfg (SetOp env k v ttl now now2) m = (if Enabled cfg then m(k \<mapsto> (v, expiry cfg ttl now)) else m)"
| "cache_spec cfg (DeleteOp k) m = m(k := None)"
| "cache_spec cfg ClearOp m = Map.empty"
| "cache_spec cfg _ m = m"

fun cache_query :: "cache_op \<Rightarrow> (string \<times> time) option" where
  "cache_query (GetOp k now now2) = Some (k, now)"
| "cache_query _ = None"

fun cache_ok :: "cache_op \<Rightarrow> bool" where
  "cache_ok (SetOp env k v ttl now now2) = ranges_all env"
| "cache_ok _ = True"

lemma fold_removeEntry:
  "cache_wf c \<Longrightarrow> cache_wf (fold removeEntry ks c) \<and> contents (fold removeEntry ks c) \<subseteq>\<^sub>m contents c \<and>
   config (fold removeEntry ks c) = config c"
proof (induction ks arbitrary: c)
  case (Cons k ks)
  from Cons.IH[OF wf_removeEntry[OF Cons.prems], of k] show ?case
    using contents_removeEntry_le map_le_trans by fastforce
qed simp

lemma Get_config [simp]: "config (fst (Get k now now2 c)) = config c"
  by (simp add: Get_def Let_def updateAccessOrder_def removeFromAccessOrder_eq split: option.split)

lemma wf_Clear [inv_intros]: "cache_wf (Clear c)"
  by (simp add: cache_wf_def Clear_def)

interpretation rc: lossy_cache cache_step "\<lambda>c. cache_wf c \<and> config c = cfg" contents "cache_spec cfg" cache_query cache_ok
  for cfg
proof
  fix c op assume c: "cache_wf c \<and> config c = cfg" and ok: "cache_ok op"
  show "\<exists>c' r. cache_step op c = Some (c', r) \<and> (cache_wf c' \<and> config c' = cfg) \<and>
      contents c' \<subseteq>\<^sub>m cache_spec cfg op (contents c)"
  proof (cases op)
    case (SetOp env k v ttl now now2)
    show ?thesis
    proof (cases "Enabled cfg")
      case True
      with Set_ok[of c env k v ttl now now2] c ok SetOp show ?thesis by auto
    next
      case False
      with c SetOp show ?thesis by (simp add: Set_def)
    qed
  next
    case (GetOp k now now2)
    with c show ?thesis using wf_Get[of c k now now2] Get_contents_le[of k now now2 c] Get_config[of k now now2 c]
      by (metis cache_spec.simps(4) cache_step.simps(1) prod.collapse)
  next
    case (CleanupOp ks now)
    with c fold_removeEntry[of c "filter (expired c now) ks"] show ?thesis by (simp add: cleanup_def)
  next
    case (DeleteOp k)
    with c show ?thesis by (simp add: Delete_def contents_removeEntry wf_removeEntry)
  next
    case ClearOp
    with c show ?thesis using wf_Clear[of c] by (simp add: Clear_def contents_def map_le_def)
  qed (use c in \<open>simp_all add: updateStats_def SetEvictionPolicy_def Start_def Stop_def\<close>)
next
  fix c op c' v assume c: "cache_wf c \<and> config c = cfg" and "cache_ok op" and s: "cache_step op c = Some (c', Some v)"
  then obtain k now now2 where g: "op = GetOp k now now2" "Get k now now2 c = (c', Some v)"
    by (cases op) (auto)
  then obtain a where "entries c k = Some a" "\<not> now > ExpireTime (heap c a)" "v = Value (heap c a)"
    by (auto simp: Get_def Let_def split: if_splits option.splits)
  then show "\<exists>k now e. cache_query op = Some (k, now) \<and> contents c k = Some (v, e) \<and> now \<le> e"
    using g by (auto simp: contents_def)
next
  fix m m' :: "string \<rightharpoonup> cache_value \<times> time" and op assume "m \<subseteq>\<^sub>m m'"
  then show "cache_spec cfg op m \<subseteq>\<^sub>m cache_spec cfg op m'"
    by (cases op) (auto simp: map_le_def)
qed

text \<open>
  C6. A hit is never stale or wrong: whatever operations are run on a new cache, under whatever
  eviction policy and order of the maps, every operation returns, and every hit of \<^verbatim>\<open>Get\<close> is
  the value of the last \<^verbatim>\<open>Set\<close> of that key, not deleted since and not expired.
\<close>

theorem cache_hits_are_current:
  assumes "\<forall>op\<in>set ops. cache_ok op"
  shows "\<exists>c rs. run_ops cache_step ops (NewRouterCache (Some cfg) mon) = Some (c, rs) \<and>
           answers_ok (cache_spec cfg) cache_query ops Map.empty rs"
proof -
  have "cache_wf (NewRouterCache (Some cfg) mon) \<and> config (NewRouterCache (Some cfg) mon) = cfg"
    "contents (NewRouterCache (Some cfg) mon) \<subseteq>\<^sub>m Map.empty"
    using wf_New[of "Some cfg" mon] by (simp_all add: NewRouterCache_def contents_def)
  from rc.run_ops_refine[OF this assms] show ?thesis by blast
qed

definition demo_cfg :: CacheConfig where
  "demo_cfg = \<lparr>Enabled = True, MaxSize = 1, CfgTTL = 10\<rparr>"

definition demo_ops :: "cache_op list" where
  "demo_ops = [SetOp (sorted_env 0) ''a'' (NumV 1) 0 0 0, GetOp ''a'' 5 5,
     SetOp (sorted_env 0) ''b'' (NumV 2) 0 6 6, GetOp ''a'' 7 7, GetOp ''b'' 17 17]"

lemma demo_ops_ok: "\<forall>op\<in>set demo_ops. cache_ok op"
  by (simp add: demo_ops_def sorted_env_ranges)

theorem cache_hits_are_current_witness:
  "\<exists>c rs. run_ops cache_step demo_ops (NewRouterCache (Some demo_cfg) None) = Some (c, rs) \<and>
     answers_ok (cache_spec demo_cfg) cache_query demo_ops Map.empty rs"
  by (rule cache_hits_are_current[OF demo_ops_ok])

text \<open>
  C7. \<^verbatim>\<open>Set\<close> returns (its eviction loop ends), keeps the number of entries within
  \<^verbatim>\<open>MaxSize\<close>, and keeps the accounted memory within the maximum or the size of the one value
  stored: an oversize value empties the cache and is stored all the same.
\<close>

theorem Set_keeps_limits:
  assumes "cache_wf c" and "ranges_all env" and "Enabled (config c)"
    and "int (map_len (entries c)) \<le> MaxSize (config c)"
  shows "\<exists>c'. Set env k v ttl now now2 c = Some c' \<and> cache_wf c' \<and>
           int (map_len (entries c')) \<le> MaxSize (config c) \<and>
           currentMemory c' \<le> max (maxMemoryUsage c) (estimateSize v)"
  using Set_ok[OF assms(1-3), of k v ttl now now2] assms(4) by blast

theorem Set_keeps_limits_witness:
  "\<exists>c'. Set (sorted_env 0) ''a'' (StringV ''xyz'') 0 5 5 (NewRouterCache None None) = Some c' \<and>
     int (map_len (entries c')) \<le> 10000 \<and> currentMemory c' \<le> 104857600"
  using Set_keeps_limits[OF wf_New[of None None] sorted_env_ranges[of 0], of "''a''" "StringV ''xyz''" 0 5 5]
  by (auto simp: NewRouterCache_def estimateSize_def)

text \<open>
  Under every policy that evicts by recency (LRU, the FIFO that is the same code, an unknown
  policy) with room for at least one entry, a value that has just been stored is found until it
  expires.
\<close>

lemma Set_then_Get:
  assumes "cache_wf c" and "ranges_all env" and "Enabled (config c)" and "1 \<le> MaxSize (config c)"
    and "evictionPolicy c \<noteq> LFU" and "evictionPolicy c \<noteq> TTL"
    and "t \<le> expiry (config c) ttl now"
  shows "\<exists>c'. Set env k v ttl now now2 c = Some c' \<and> snd (Get k t t2 c') = Some v"
proof -
  from Set_before_limit[OF assms(1-3)] obtain c1 c3 where s:
    "Set env k v ttl now now2 c =
      Some (if int (map_len (entries c3)) > MaxSize (config c) then evictOldest env c3 else c3)"
    "cache_wf c1" "evictionPolicy c1 = evictionPolicy c" "config c1 = config c"
    "c3 = insert_new k v (expiry (config c) ttl now) now2 (drop_existing k c1)" by blast
  have wf3: "cache_wf c3" unfolding s(5) by (rule wf_drop_insert[OF s(2)])
  let ?n = "next_addr c1" and ?os = "case entries c1 k of None \<Rightarrow> accessOrder c1 | Some a \<Rightarrow> remove1 a (accessOrder c1)"
  have ord: "accessOrder c3 = ?os @ [?n]" and k3: "entries c3 k = Some ?n"
    by (simp_all add: s(5) entries_drop_insert)
  have cfg3: "Enabled (config c3)" and val: "Value (heap c3 ?n) = v" "ExpireTime (heap c3 ?n) = expiry (config c) ttl now"
    using assms(3) s(4) by (simp_all add: s(5) entries_drop_insert)
  have hit: "snd (Get k t t2 c') = Some v" if "entries c' k = Some ?n" "heap c' = heap c3" "config c' = config c3" for c'
    using that val cfg3 assms(7) by (simp add: Get_hit_state)
  show ?thesis
  proof (cases "int (map_len (entries c3)) > MaxSize (config c)")
    case True
    then have "1 < length (accessOrder c3)" using assms(4) map_len_entries[OF wf3] by linarith
    then obtain a as where os: "?os = a # as" using ord by (cases ?os) auto
    then have a: "accessOrder c3 = a # as @ [?n]" using ord by simp
    then have "a \<noteq> ?n" using cache_wfD(1)[OF wf3] by simp
    then have kn: "Key (heap c3 a) \<noteq> k" using cache_wfD(7)[OF wf3, of a] a k3 by auto
    have "evictionPolicy c3 = evictionPolicy c" using s(3,5) by (simp add: entries_drop_insert)
    then have "evictOldest env c3 = evictLRU c3"
      using assms(5,6) a by (simp add: evictOldest_def evictFIFO_def split: EvictionPolicy.split)
    then have "evictOldest env c3 = removeEntry (Key (heap c3 a)) c3"
      using evictLRU_first(2)[OF wf3 a] by simp
    with True s(1) hit kn k3 show ?thesis by auto
  qed (use s(1) hit k3 in auto)
qed

lemma Set_then_Get_witness:
  "\<exists>c'. Set (sorted_env 0) ''a'' (NumV 7) 0 5 5 (NewRouterCache (Some demo_cfg) None) = Some c' \<and>
     snd (Get ''a'' 15 15 c') = Some (NumV 7)"
  using Set_then_Get[OF wf_New[of "Some demo_cfg" None] sorted_env_ranges[of 0], of 15 0 5 "''a''" "NumV 7" 5 15]
  by (simp add: NewRouterCache_def demo_cfg_def expiry_def)

text \<open>
  Under LFU a full cache whose entries have all been hit at least once takes no new key: the
  new entry starts with a hit count of 0, is the least used one, and \<^verbatim>\<open>Set\<close> evicts it before
  it returns.
\<close>

lemma LFU_rejects_new_keys:
  assumes wf: "cache_wf c" and env: "ranges_all env" and on: "Enabled (config c)"
    and lfu: "evictionPolicy c = LFU" and full: "int (map_len (entries c)) = MaxSize (config c)"
    and used: "\<forall>j a. entries c j = Some a \<longrightarrow> 0 < HitCount (heap c a)"
    and new: "entries c k = None" and fits: "currentMemory c + estimateSize v \<le> maxMemoryUsage c"
  shows "\<exists>c'. Set env k v ttl now now2 c = Some c' \<and> contents c' = contents c \<and> snd (Get k t t2 c') = None"
proof -
  from Set_before_limit[OF wf env on] fits obtain c3 where s:
    "Set env k v ttl now now2 c =
      Some (if int (map_len (entries c3)) > MaxSize (config c) then evictOldest env c3 else c3)"
    "c3 = insert_new k v (expiry (config c) ttl now) now2 (drop_existing k c)" by blast
  have wf3: "cache_wf c3" unfolding s(2) by (rule wf_drop_insert[OF wf])
  have over: "int (map_len (entries c3)) > MaxSize (config c)"
    using full new by (simp add: s(2) entries_drop_insert map_len_upd finite_entries[OF wf] domIff)
  have ne: "accessOrder c3 \<noteq> []" and pol: "evictionPolicy c3 = LFU"
    using lfu by (simp_all add: s(2) entries_drop_insert)
  from evictLFU_victim[OF wf3 ne env] obtain j a where v: "entries c3 j = Some a"
    "evictLFU env c3 = removeEntry j c3" "\<forall>i b. entries c3 i = Some b \<longrightarrow> HitCount (heap c3 a) \<le> HitCount (heap c3 b)"
    by blast
  have "HitCount (heap c3 (next_addr c)) = 0" "entries c3 k = Some (next_addr c)"
    by (simp_all add: s(2) entries_drop_insert)
  then have "HitCount (heap c3 a) \<le> 0" using v(3) by force
  have "j = k"
  proof (rule ccontr)
    assume "j \<noteq> k"
    then have "entries c j = Some a" using v(1) by (simp add: s(2) entries_drop_insert)
    moreover from this have "heap c3 a = heap c a"
      using cache_wfD(4)[OF wf] by (force simp: s(2) entries_drop_insert)
    ultimately show False using used \<open>HitCount (heap c3 a) \<le> 0\<close> by force
  qed
  then have "evictOldest env c3 = removeEntry k c3" using v(2) ne pol by (simp add: evictOldest_def)
  moreover have "contents (removeEntry k c3) = contents c"
    unfolding contents_removeEntry s(2) contents_drop_insert[OF wf]
    using new by (auto simp: fun_eq_iff contents_def)
  moreover have "snd (Get k t t2 (removeEntry k c3)) = None" by (simp add: Get_def)
  ultimately show ?thesis using s(1) over by auto
qed

definition lfu_cache :: RouterCache where
  "lfu_cache = fst (Get ''a'' 1 1 (the (Set (sorted_env 0) ''a'' (NumV 7) 0 0 0
     (SetEvictionPolicy LFU (NewRouterCache (Some demo_cfg) None)))))"

lemma lfu_cache_state: "lfu_cache = \<lparr>config = demo_cfg, entries = [''a'' \<mapsto> 0], accessOrder = [0],
   heap = (heap (NewRouterCache None None))(0 := \<lparr>Key = ''a'', Value = NumV 7, ExpireTime = 10, AccessTime = 1, HitCount = 1, Size = 8\<rparr>),
   next_addr = 1, stats = emptyStats\<lparr>Hits := 1\<rparr>, running = False, monitor = None, evictionPolicy = LFU,
   maxMemoryUsage = 104857600, currentMemory = 8\<rparr>"
  by (simp add: lfu_cache_def SetEvictionPolicy_def NewRouterCache_def demo_cfg_def Set_def Let_def drop_existing_def
      insert_new_def estimateSize_def map_len_upd Get_def updateAccessOrder_def removeFromAccessOrder_def
      emptyStats_def RecordCacheHit_def)

lemma lfu_cache_wf: "cache_wf lfu_cache"
  by (auto simp: cache_wf_def lfu_cache_state)

lemma LFU_rejects_new_keys_witness:
  "\<exists>c'. Set (sorted_env 0) ''b'' (NumV 8) 0 2 2 lfu_cache = Some c' \<and> snd (Get ''b'' 3 3 c') = None"
proof -
  have "Enabled (config lfu_cache)" "evictionPolicy lfu_cache = LFU"
    "int (map_len (entries lfu_cache)) = MaxSize (config lfu_cache)"
    "\<forall>j a. entries lfu_cache j = Some a \<longrightarrow> 0 < HitCount (heap lfu_cache a)"
    "entries lfu_cache ''b'' = None"
    "currentMemory lfu_cache + estimateSize (NumV 8) \<le> maxMemoryUsage lfu_cache"
    by (simp_all add: lfu_cache_state demo_cfg_def estimateSize_def map_len_upd)
  from LFU_rejects_new_keys[OF lfu_cache_wf sorted_env_ranges this] show ?thesis by blast
qed

end
