(* ===== verification/Hash_Ring.thy ===== *)
theory Hash_Ring
  imports Prelude
begin

text \<open>
  The consistent-hash ring of \<^verbatim>\<open>core/router/enhanced_router.go\<close> (declared in
  \<^verbatim>\<open>multidimensional_router.go\<close>): every node owns \<open>replicas\<close> points on a ring of 32-bit hashes,
  a request goes to the owner of the first point at or after its own hash.
\<close>

section \<open>State and operations\<close>

record ConsistentHashRing =
  hashRing :: "32 word \<rightharpoonup> string"
  sortedHashes :: "32 word list"
  replicas :: nat

definition NewConsistentHashRing :: "nat \<Rightarrow> ConsistentHashRing" where
  "NewConsistentHashRing r = \<lparr>hashRing = Map.empty, sortedHashes = [], replicas = r\<rparr>"

text \<open>The \<open>i\<close>-th point of a node: FNV-1a of \<^verbatim>\<open>fmt.Sprintf("%s:%d", nodeID, i)\<close>.\<close>

definition point :: "string \<Rightarrow> nat \<Rightarrow> 32 word" where
  "point nodeID i = fnv32a (bytes_of (nodeID @ '':'' @ show_nat i))"

definition points :: "nat \<Rightarrow> string \<Rightarrow> 32 word list" where
  "points r nodeID = map (point nodeID) [0..<r]"

definition add_point :: "string \<Rightarrow> 32 word \<Rightarrow> ConsistentHashRing \<Rightarrow> ConsistentHashRing" where
  "add_point nodeID h c = c\<lparr>hashRing := (hashRing c)(h \<mapsto> nodeID), sortedHashes := sortedHashes c @ [h]\<rparr>"

definition Add :: "string \<Rightarrow> ConsistentHashRing \<Rightarrow> ConsistentHashRing" where
  "Add nodeID c = (let c = fold (\<lambda>i. add_point nodeID (point nodeID i)) [0..<replicas c] c
     in c\<lparr>sortedHashes := sort (sortedHashes c)\<rparr>)"

definition remove_point :: "32 word \<Rightarrow> ConsistentHashRing \<Rightarrow> ConsistentHashRing" where
  "remove_point h c = c\<lparr>hashRing := (hashRing c)(h := None),
     sortedHashes := remove_first (\<lambda>x. x = h) (sortedHashes c)\<rparr>"

definition Remove :: "string \<Rightarrow> ConsistentHashRing \<Rightarrow> ConsistentHashRing" where
  "Remove nodeID c = fold (\<lambda>i. remove_point (point nodeID i)) [0..<replicas c] c"

text \<open>\<^verbatim>\<open>sort.Search\<close>: binary search between \<open>i\<close> and \<open>j\<close>.\<close>

function search :: "(nat \<Rightarrow> bool) \<Rightarrow> nat \<Rightarrow> nat \<Rightarrow> nat" where
  "search f i j = (if i < j then (let h = (i + j) div 2 in if f h then search f i h else search f (h + 1) j) else i)"
  by pat_completeness auto
termination by (relation "measure (\<lambda>(f, i, j). j - i)") auto

declare search.simps [simp del]

definition Get :: "32 word \<Rightarrow> ConsistentHashRing \<Rightarrow> string" where
  "Get hash c = (if sortedHashes c = [] then ''''
     else (let n = length (sortedHashes c);
               idx = search (\<lambda>i. sortedHashes c ! i \<ge> hash) 0 n;
               idx = (if idx = n then 0 else idx)
           in case hashRing c (sortedHashes c ! idx) of Some s \<Rightarrow> s | None \<Rightarrow> ''''))"

section \<open>Binary search\<close>

lemma search_inv:
  assumes mono: "\<And>a b. a \<le> b \<Longrightarrow> b < n \<Longrightarrow> f a \<Longrightarrow> f b"
  shows "i \<le> j \<Longrightarrow> j \<le> n \<Longrightarrow> (\<And>a. a < i \<Longrightarrow> \<not> f a) \<Longrightarrow> (\<And>a. j \<le> a \<Longrightarrow> a < n \<Longrightarrow> f a) \<Longrightarrow>
     i \<le> search f i j \<and> search f i j \<le> j \<and> (\<forall>a. a < search f i j \<longrightarrow> \<not> f a) \<and>
     (\<forall>a. search f i j \<le> a \<and> a < n \<longrightarrow> f a)"
proof (induction "j - i" arbitrary: i j rule: less_induct)
  case less
  show ?case
  proof (cases "i < j")
    case False
    then have "search f i j = i" by (subst search.simps) simp
    with less.prems False show ?thesis by auto
  next
    case True
    define h where "h = (i + j) div 2"
    have h: "i \<le> h" "h < j" using True by (auto simp: h_def)
    have eq: "search f i j = (if f h then search f i h else search f (h + 1) j)"
      using True by (simp add: search.simps[of f i j] h_def)
    show ?thesis
    proof (cases "f h")
      case fh: True
      have "f a" if "h \<le> a" "a < n" for a using mono[OF that fh] .
      with less.hyps[of h i] h less.prems have "i \<le> search f i h \<and> search f i h \<le> h \<and>
          (\<forall>a. a < search f i h \<longrightarrow> \<not> f a) \<and> (\<forall>a. search f i h \<le> a \<and> a < n \<longrightarrow> f a)" by (simp add: diff_less_mono)
      with h show ?thesis by (simp add: eq fh)
    next
      case fh: False
      have "\<not> f a" if "a < h + 1" for a using mono[of a h] that h less.prems(2) fh by force
      with less.hyps[of j "h + 1"] h less.prems have "h + 1 \<le> search f (h + 1) j \<and> search f (h + 1) j \<le> j \<and>
          (\<forall>a. a < search f (h + 1) j \<longrightarrow> \<not> f a) \<and> (\<forall>a. search f (h + 1) j \<le> a \<and> a < n \<longrightarrow> f a)"
        by (simp add: diff_less_mono2)
      with h show ?thesis by (simp add: eq fh)
    qed
  qed
qed

lemma search_sorted:
  fixes hs :: "'a::linorder list" and x :: 'a
  assumes "sorted hs"
  defines "idx \<equiv> search (\<lambda>i. hs ! i \<ge> x) 0 (length hs)"
  shows "idx \<le> length hs" and "\<And>a. a < idx \<Longrightarrow> hs ! a < x" and "idx < length hs \<Longrightarrow> x \<le> hs ! idx"
proof -
  have "0 \<le> idx \<and> idx \<le> length hs \<and> (\<forall>a. a < idx \<longrightarrow> \<not> hs ! a \<ge> x) \<and>
      (\<forall>a. idx \<le> a \<and> a < length hs \<longrightarrow> hs ! a \<ge> x)"
    unfolding idx_def
    by (rule search_inv) (use sorted_nth_mono[OF assms(1)] order_trans in blast, auto)
  then show "idx \<le> length hs" "\<And>a. a < idx \<Longrightarrow> hs ! a < x" "idx < length hs \<Longrightarrow> x \<le> hs ! idx"
    by (auto simp: not_le)
qed

section \<open>The successor on the ring\<close>

definition successor :: "32 word set \<Rightarrow> 32 word \<Rightarrow> 32 word" where
  "successor H h = (if \<exists>x\<in>H. h \<le> x then Min {x \<in> H. h \<le> x} else Min H)"

lemma successor_in: "finite H \<Longrightarrow> H \<noteq> {} \<Longrightarrow> successor H h \<in> H"
  unfolding successor_def using Min_in[of "{x \<in> H. h \<le> x}"] Min_in[of H] by auto

lemma successor_remove:
  assumes "finite H" "successor H h \<in> H'" "H' \<subseteq> H"
  shows "successor H' h = successor H h"
proof (cases "\<exists>x\<in>H. h \<le> x")
  case True
  have fin: "finite {x \<in> H. h \<le> x}" using assms(1) by simp
  from True have s: "successor H h = Min {x \<in> H. h \<le> x}" by (simp add: successor_def)
  have "h \<le> successor H h" unfolding s using Min_in[OF fin] True by blast
  then have "successor H' h = Min {x \<in> H'. h \<le> x}" using assms(2) by (auto simp: successor_def)
  also have "\<dots> = successor H h" unfolding s
  proof (rule Min_eqI)
    show "finite {x \<in> H'. h \<le> x}" using assms(1,3) finite_subset by auto
    show "Min {x \<in> H. h \<le> x} \<in> {x \<in> H'. h \<le> x}" using assms(2) \<open>h \<le> successor H h\<close> s by simp
    fix y assume "y \<in> {x \<in> H'. h \<le> x}"
    then show "Min {x \<in> H. h \<le> x} \<le> y" using assms(3) fin by (intro Min_le) auto
  qed
  finally show ?thesis .
next
  case False
  then have s: "successor H h = Min H" by (simp add: successor_def)
  have "successor H' h = Min H'" using False assms(3) by (auto simp: successor_def)
  also have "\<dots> = Min H"
  proof (rule Min_eqI)
    show "finite H'" using assms(1,3) finite_subset by blast
    show "Min H \<in> H'" using assms(2) s by simp
    fix y assume "y \<in> H'"
    then show "Min H \<le> y" using assms(1,3) by auto
  qed
  finally show ?thesis using s by simp
qed

lemma successor_add:
  assumes "finite H" "finite A" "H \<noteq> {}" "successor (H \<union> A) h \<notin> A"
  shows "successor (H \<union> A) h = successor H h"
  using successor_remove[of "H \<union> A" h H] successor_in[of "H \<union> A" h] assms by auto

section \<open>Invariant\<close>

text \<open>\<open>ids\<close> are the nodes on the ring; no two of their points collide.\<close>

definition ring_inv :: "ConsistentHashRing \<Rightarrow> string list \<Rightarrow> bool" where
  "ring_inv c ids \<longleftrightarrow> sorted (sortedHashes c) \<and> distinct (sortedHashes c) \<and>
     (\<forall>h nodeID. hashRing c h = Some nodeID \<longleftrightarrow> nodeID \<in> set ids \<and> h \<in> set (points (replicas c) nodeID)) \<and>
     set (sortedHashes c) = dom (hashRing c)"

definition collision_free :: "nat \<Rightarrow> string list \<Rightarrow> bool" where
  "collision_free r ids \<longleftrightarrow> distinct (concat (map (points r) ids))"

lemma ring_inv_New: "ring_inv (NewConsistentHashRing r) []"
  by (simp add: ring_inv_def NewConsistentHashRing_def)

lemma fold_add_point:
  "fold (\<lambda>i. add_point nodeID (p i)) is c =
   c\<lparr>hashRing := (\<lambda>h. if h \<in> p ` set is then Some nodeID else hashRing c h),
     sortedHashes := sortedHashes c @ map p is\<rparr>"
  by (induction "is" arbitrary: c) (auto simp: add_point_def fun_eq_iff intro!: arg_cong[where f = "\<lambda>m. c\<lparr>hashRing := m, sortedHashes := _\<rparr>" for c])

lemma Add_eq:
  "Add nodeID c = c\<lparr>hashRing := (\<lambda>h. if h \<in> set (points (replicas c) nodeID) then Some nodeID else hashRing c h),
     sortedHashes := sort (sortedHashes c @ points (replicas c) nodeID)\<rparr>"
  by (simp add: Add_def fold_add_point points_def)

fun remove_all_once :: "'a list \<Rightarrow> 'a list \<Rightarrow> 'a list" where
  "remove_all_once [] xs = xs"
| "remove_all_once (y # ys) xs = remove_all_once ys (remove1 y xs)"

lemma fold_remove_point:
  "fold (\<lambda>i. remove_point (p i)) is c =
   c\<lparr>hashRing := (\<lambda>h. if h \<in> p ` set is then None else hashRing c h),
     sortedHashes := remove_all_once (map p is) (sortedHashes c)\<rparr>"
  by (induction "is" arbitrary: c) (auto simp: remove_point_def remove_first_eq_remove1 fun_eq_iff)

lemma Remove_eq:
  "Remove nodeID c = c\<lparr>hashRing := (\<lambda>h. if h \<in> set (points (replicas c) nodeID) then None else hashRing c h),
     sortedHashes := remove_all_once (points (replicas c) nodeID) (sortedHashes c)\<rparr>"
  by (simp add: Remove_def points_def fold_remove_point)

lemma remove_all_once_distinct:
  "distinct xs \<Longrightarrow> remove_all_once ys xs = filter (\<lambda>x. x \<notin> set ys) xs"
proof (induction ys arbitrary: xs)
  case (Cons y ys)
  have "filter (\<lambda>x. x \<notin> set ys) (remove1 y xs) = filter (\<lambda>x. x \<notin> set ys \<and> x \<noteq> y) xs"
    using Cons.prems by (auto simp: distinct_remove1_removeAll removeAll_filter_not_eq intro: filter_cong)
  with Cons show ?case by (simp add: conj_commute)
qed simp

lemma ring_inv_Add:
  assumes inv: "ring_inv c ids" and free: "collision_free (replicas c) (nodeID # ids)"
  shows "ring_inv (Add nodeID c) (nodeID # ids)"
proof -
  let ?P = "set (points (replicas c) nodeID)"
  have disj: "?P \<inter> set (points (replicas c) m) = {}" if "m \<in> set ids" for m
    using free that by (fastforce simp: collision_free_def)
  have own: "hashRing c h = Some m \<longleftrightarrow> m \<in> set ids \<and> h \<in> set (points (replicas c) m)" for h m
    using inv by (simp add: ring_inv_def)
  have none: "?P \<inter> dom (hashRing c) = {}" using disj own by blast
  have "distinct (sortedHashes c @ points (replicas c) nodeID)"
    using inv free none by (auto simp: ring_inv_def collision_free_def)
  moreover have "hashRing (Add nodeID c) h = Some m \<longleftrightarrow>
      m \<in> set (nodeID # ids) \<and> h \<in> set (points (replicas c) m)" for h m
    using own[of h m] disj[of m] by (auto simp: Add_eq)
  moreover have "set (sortedHashes (Add nodeID c)) = dom (hashRing (Add nodeID c))"
    using inv by (auto simp: Add_eq ring_inv_def split: if_splits)
  ultimately show ?thesis by (simp add: ring_inv_def Add_eq)
qed

lemma ring_inv_Remove:
  assumes inv: "ring_inv c ids" and "nodeID \<in> set ids"
  shows "ring_inv (Remove nodeID c) (removeAll nodeID ids)"
proof -
  have own: "hashRing c h = Some m \<longleftrightarrow> m \<in> set ids \<and> h \<in> set (points (replicas c) m)" for h m
    using inv by (simp add: ring_inv_def)
  have disj: "h \<notin> set (points (replicas c) m)"
    if "h \<in> set (points (replicas c) nodeID)" "m \<in> set ids" "m \<noteq> nodeID" for h m
    using own[of h m] own[of h nodeID] that assms(2) by auto
  have hs: "sortedHashes (Remove nodeID c) =
      filter (\<lambda>x. x \<notin> set (points (replicas c) nodeID)) (sortedHashes c)"
    using inv by (simp add: Remove_eq remove_all_once_distinct ring_inv_def)
  have "hashRing (Remove nodeID c) h = Some m \<longleftrightarrow>
      m \<in> set (removeAll nodeID ids) \<and> h \<in> set (points (replicas c) m)" for h m
    using own[of h m] disj[of h m] by (auto simp: Remove_eq)
  moreover have "set (sortedHashes (Remove nodeID c)) = dom (hashRing (Remove nodeID c))"
    unfolding hs using inv by (auto simp: Remove_eq ring_inv_def split: if_splits)
  moreover have "replicas (Remove nodeID c) = replicas c" by (simp add: Remove_eq)
  ultimately show ?thesis using inv by (simp add: ring_inv_def hs sorted_wrt_filter)
qed

lemma Get_successor:
  assumes inv: "ring_inv c ids" and ne: "sortedHashes c \<noteq> []"
  shows "hashRing c (successor (set (sortedHashes c)) hash) = Some (Get hash c)"
proof -
  let ?hs = "sortedHashes c"
  define idx where "idx = search (\<lambda>i. ?hs ! i \<ge> hash) 0 (length ?hs)"
  have sorted: "sorted ?hs" and dom: "set ?hs = dom (hashRing c)" using inv by (auto simp: ring_inv_def)
  note s = search_sorted[OF sorted, where x = hash, folded idx_def]
  define h where "h = ?hs ! (if idx = length ?hs then 0 else idx)"
  have "h = successor (set ?hs) hash"
  proof (cases "idx = length ?hs")
    case True
    have "\<not> (\<exists>x\<in>set ?hs. hash \<le> x)" using s(2) True by (auto simp: in_set_conv_nth not_le)
    moreover have "Min (set ?hs) = ?hs ! 0"
      using ne sorted by (intro Min_eqI) (auto simp: in_set_conv_nth sorted_nth_mono)
    ultimately show ?thesis using True by (simp add: successor_def h_def)
  next
    case False
    then have idx: "idx < length ?hs" using s(1) by simp
    have "Min {x \<in> set ?hs. hash \<le> x} = ?hs ! idx"
    proof (rule Min_eqI)
      show "?hs ! idx \<in> {x \<in> set ?hs. hash \<le> x}" using idx s(3) by simp
      fix y assume "y \<in> {x \<in> set ?hs. hash \<le> x}"
      then obtain i where i: "i < length ?hs" "y = ?hs ! i" "hash \<le> y" by (auto simp: in_set_conv_nth)
      then have "\<not> i < idx" using s(2)[of i] by auto
      then show "?hs ! idx \<le> y" using sorted_nth_mono[OF sorted, of idx i] i by simp
    qed simp
    moreover have "\<exists>x\<in>set ?hs. hash \<le> x" using idx s(3) nth_mem by blast
    ultimately show ?thesis using False by (simp add: successor_def h_def)
  qed
  moreover have "h \<in> dom (hashRing c)"
  proof -
    have "h \<in> set ?hs" using ne s(1) by (auto simp: h_def intro!: nth_mem)
    with dom show ?thesis by simp
  qed
  moreover have "Get hash c = (case hashRing c h of Some s \<Rightarrow> s | None \<Rightarrow> '''')"
    using ne by (simp add: Get_def idx_def h_def Let_def)
  ultimately show ?thesis by auto
qed

section \<open>Properties\<close>

text \<open>The ring a balancer with these nodes has: added in order, oldest last in the list.\<close>

fun ring_of :: "nat \<Rightarrow> string list \<Rightarrow> ConsistentHashRing" where
  "ring_of r [] = NewConsistentHashRing r"
| "ring_of r (n # ids) = Add n (ring_of r ids)"

lemma replicas_Add [simp]: "replicas (Add n c) = replicas c"
  by (simp add: Add_eq)

lemma replicas_ring_of [simp]: "replicas (ring_of r ids) = r"
  by (induction ids) (simp_all add: NewConsistentHashRing_def)

lemma collision_free_tl: "collision_free r (n # ids) \<Longrightarrow> collision_free r ids"
  by (simp add: collision_free_def)

lemma ring_inv_ring_of: "collision_free r ids \<Longrightarrow> ring_inv (ring_of r ids) ids"
  by (induction ids) (auto simp: ring_inv_New intro!: ring_inv_Add dest: collision_free_tl)

lemma sort_eq_Nil [simp]: "sort xs = [] \<longleftrightarrow> xs = []"
  by (metis set_empty set_sort)

lemma sortedHashes_ring_of: "sortedHashes (ring_of r ids) = [] \<longleftrightarrow> r = 0 \<or> ids = []"
  by (induction ids) (auto simp: NewConsistentHashRing_def Add_eq points_def)

lemma Get_owner:
  assumes "ring_inv c ids" "sortedHashes c \<noteq> []"
  shows "Get h c \<in> set ids"
  using Get_successor[OF assms, of h] assms(1) by (simp add: ring_inv_def)


lemma points_demo: "points 2 ''a'' = [3669834966, 3686612585]" "points 2 ''b'' = [932798983, 916021364]"
  by code_simp+


text \<open>
  A node added twice and removed once leaves a ring that is not empty and answers every hash
  with the empty string: \<^verbatim>\<open>Remove\<close> deletes the owner of each point but only one of its two
  copies in the sorted list.
\<close>

lemma double_Add_breaks_ring:
  assumes "0 < r"
  shows "sortedHashes (Remove n (Add n (Add n (NewConsistentHashRing r)))) \<noteq> [] \<and>
         Get h (Remove n (Add n (Add n (NewConsistentHashRing r)))) = ''''"
proof -
  let ?c = "Remove n (Add n (Add n (NewConsistentHashRing r)))"
  have "hashRing ?c = Map.empty" by (auto simp: Remove_eq Add_eq NewConsistentHashRing_def)
  then have 1: "Get h ?c = ''''" by (simp add: Get_def Let_def)
  have len: "length (remove_all_once ys xs) \<ge> length xs - length ys" for ys xs :: "32 word list"
  proof (induction ys arbitrary: xs)
    case (Cons y ys)
    from Cons[of "remove1 y xs"] show ?case by (auto simp: length_remove1 split: if_splits)
  qed simp
  have "length (sortedHashes ?c) \<ge> r"
    using len[of "sort (sort (points r n) @ points r n)" "points r n"]
    by (simp add: Remove_eq Add_eq NewConsistentHashRing_def points_def)
  with assms 1 show ?thesis by auto
qed

lemma double_Add_breaks_ring_witness:
  "Get 7 (Remove ''a'' (Add ''a'' (Add ''a'' (NewConsistentHashRing 2)))) = ''''"
  using double_Add_breaks_ring[of 2 "''a''" 7] by simp

end
