(* ===== verification/Load_Balancer.thy ===== *)
theory Load_Balancer
  imports Complex_Main Hash_Ring
begin

text \<open>
  Node selection: the \<^verbatim>\<open>LoadBalancer\<close> of \<^verbatim>\<open>core/router/enhanced_router.go\<close> and the
  \<^verbatim>\<open>MultidimensionalRouter\<close> of \<^verbatim>\<open>core/router/multidimensional_router.go\<close>. Both hold pointers to
  the same nodes, so nodes live in a heap \<open>h\<close> and the two structures hold addresses. A
  \<^verbatim>\<open>float64\<close> is a rational number (no rounding); a quotient by a zero capacity is written out.
  \<open>None\<close> at the outside of a result is a panic, inside it is a nil node.
\<close>

section \<open>Nodes\<close>

datatype NodeStatus = NodeHealthy | NodeUnhealthy | NodeMaintenance

record RouteNode =
  ID :: string
  Address :: string
  Capacity :: int
  Load :: int
  Status :: NodeStatus
  LastHealthCheck :: time
  ResponseTime :: duration
  Weight :: rat
  Connections :: int
  FailureCount :: int
  SuccessCount :: int

type_synonym node_heap = "nat \<Rightarrow> RouteNode"

datatype LoadBalanceStrategy = RoundRobin | WeightedRoundRobin | LeastConnections | LeastResponseTime
  | ConsistentHashStrategy | OtherStrategy int

section \<open>The load balancer\<close>

record LoadBalancer =
  strategy :: LoadBalanceStrategy
  lb_nodes :: "nat list"
  currentIndex :: "64 word"
  consistentHash :: ConsistentHashRing

definition NewLoadBalancer :: "LoadBalanceStrategy \<Rightarrow> LoadBalancer" where
  "NewLoadBalancer st = \<lparr>strategy = st, lb_nodes = [], currentIndex = 0, consistentHash = NewConsistentHashRing 100\<rparr>"

definition lb_AddNode :: "node_heap \<Rightarrow> nat \<Rightarrow> LoadBalancer \<Rightarrow> LoadBalancer" where
  "lb_AddNode h a lb = lb\<lparr>lb_nodes := lb_nodes lb @ [a], consistentHash := Add (ID (h a)) (consistentHash lb)\<rparr>"

definition lb_RemoveNode :: "node_heap \<Rightarrow> string \<Rightarrow> LoadBalancer \<Rightarrow> LoadBalancer" where
  "lb_RemoveNode h nodeID lb = lb\<lparr>lb_nodes := remove_first (\<lambda>a. ID (h a) = nodeID) (lb_nodes lb),
     consistentHash := Remove nodeID (consistentHash lb)\<rparr>"

definition GetNodes :: "LoadBalancer \<Rightarrow> nat list" where
  "GetNodes lb = lb_nodes lb"

definition getHealthyNodes :: "node_heap \<Rightarrow> LoadBalancer \<Rightarrow> nat list" where
  "getHealthyNodes h lb = filter (\<lambda>a. Status (h a) = NodeHealthy) (lb_nodes lb)"

text \<open>Go's \<^verbatim>\<open>%\<close>: the sign of the dividend.\<close>

definition go_rem :: "int \<Rightarrow> int \<Rightarrow> int" where
  "go_rem a b = sgn a * (\<bar>a\<bar> mod \<bar>b\<bar>)"

type_synonym 's selection = "('s \<times> nat option) option"

definition lb_selectRoundRobin :: "nat list \<Rightarrow> LoadBalancer \<Rightarrow> LoadBalancer selection" where
  "lb_selectRoundRobin nodes lb =
     (if nodes = [] then Some (lb, None)
      else (let c = currentIndex lb + 1; index = go_rem (sint c) (int (length nodes));
                lb = lb\<lparr>currentIndex := c\<rparr>
            in if index < 0 then None else Some (lb, Some (nodes ! nat index))))"

text \<open>The node at which the running sum of weights reaches \<open>random\<close>.\<close>

fun weighted_pick :: "node_heap \<Rightarrow> rat \<Rightarrow> rat \<Rightarrow> nat list \<Rightarrow> nat option" where
  "weighted_pick h random current [] = None"
| "weighted_pick h random current (a # nodes) =
     (let current = current + Weight (h a)
      in if random \<le> current then Some a else weighted_pick h random current nodes)"

text \<open>\<^verbatim>\<open>int64(x)\<close> of a float: towards zero.\<close>

definition trunc :: "rat \<Rightarrow> int" where
  "trunc x = (if x \<ge> 0 then \<lfloor>x\<rfloor> else \<lceil>x\<rceil>)"

definition lb_selectWeightedRoundRobin :: "node_heap \<Rightarrow> time \<Rightarrow> nat list \<Rightarrow> LoadBalancer \<Rightarrow> LoadBalancer selection" where
  "lb_selectWeightedRoundRobin h now nodes lb =
     (if nodes = [] then Some (lb, None)
      else (let totalWeight = sum_list (map (\<lambda>a. Weight (h a)) nodes)
            in if totalWeight = 0 then lb_selectRoundRobin nodes lb
               else if trunc (totalWeight * 1000) = 0 then None
               else (let random = of_int (go_rem now (trunc (totalWeight * 1000))) / 1000
                     in case weighted_pick h random 0 nodes of
                          Some a \<Rightarrow> Some (lb, Some a) | None \<Rightarrow> Some (lb, Some (last nodes)))))"

text \<open>The first node with the least value of \<open>f\<close>, starting from the candidate \<open>best\<close>.\<close>

fun pick_least :: "(nat \<Rightarrow> int) \<Rightarrow> nat \<Rightarrow> nat list \<Rightarrow> nat" where
  "pick_least f best [] = best"
| "pick_least f best (a # nodes) = pick_least f (if f a < f best then a else best) nodes"

definition lb_selectLeastConnections :: "node_heap \<Rightarrow> nat list \<Rightarrow> LoadBalancer \<Rightarrow> LoadBalancer selection" where
  "lb_selectLeastConnections h nodes lb = (case nodes of [] \<Rightarrow> Some (lb, None)
     | a # rest \<Rightarrow> Some (lb, Some (pick_least (\<lambda>a. Connections (h a)) a rest)))"

definition lb_selectLeastResponseTime :: "node_heap \<Rightarrow> nat list \<Rightarrow> LoadBalancer \<Rightarrow> LoadBalancer selection" where
  "lb_selectLeastResponseTime h nodes lb = (case nodes of [] \<Rightarrow> Some (lb, None)
     | a # rest \<Rightarrow> Some (lb, Some (pick_least (\<lambda>a. ResponseTime (h a)) a rest)))"

definition lb_selectConsistentHash :: "node_heap \<Rightarrow> string \<Rightarrow> nat list \<Rightarrow> LoadBalancer \<Rightarrow> LoadBalancer selection" where
  "lb_selectConsistentHash h path nodes lb = (case nodes of [] \<Rightarrow> Some (lb, None)
     | a # rest \<Rightarrow> (let nodeID = Get (fnv32a (bytes_of path)) (consistentHash lb)
         in case List.find (\<lambda>a. ID (h a) = nodeID) nodes of Some b \<Rightarrow> Some (lb, Some b) | None \<Rightarrow> Some (lb, Some a)))"

text \<open>\<^verbatim>\<open>SelectNode\<close> of a request with this path, at this time.\<close>

definition lb_SelectNode :: "node_heap \<Rightarrow> string \<Rightarrow> time \<Rightarrow> LoadBalancer \<Rightarrow> LoadBalancer selection" where
  "lb_SelectNode h path now lb = (let nodes = getHealthyNodes h lb in
     if nodes = [] then Some (lb, None)
     else case strategy lb of
       RoundRobin \<Rightarrow> lb_selectRoundRobin nodes lb
     | WeightedRoundRobin \<Rightarrow> lb_selectWeightedRoundRobin h now nodes lb
     | LeastConnections \<Rightarrow> lb_selectLeastConnections h nodes lb
     | LeastResponseTime \<Rightarrow> lb_selectLeastResponseTime h nodes lb
     | ConsistentHashStrategy \<Rightarrow> lb_selectConsistentHash h path nodes lb
     | OtherStrategy _ \<Rightarrow> lb_selectRoundRobin nodes lb)"

text \<open>One round of \<^verbatim>\<open>OptimizedRouter.performHealthCheck\<close>: the heap and the failovers counted.\<close>

definition health_check_node :: "int \<Rightarrow> time \<Rightarrow> nat \<Rightarrow> node_heap \<times> int \<Rightarrow> node_heap \<times> int" where
  "health_check_node threshold now a s = (case s of (h, failovers) \<Rightarrow>
     let n = h a;
         bad = FailureCount n \<ge> threshold;
         n = (if bad then n\<lparr>Status := NodeUnhealthy\<rparr>
              else if Status n = NodeUnhealthy \<and> SuccessCount n > FailureCount n then n\<lparr>Status := NodeHealthy\<rparr>
              else n)
     in (h(a := n\<lparr>LastHealthCheck := now\<rparr>), failovers + (if bad then 1 else 0)))"

definition lb_performHealthCheck :: "int \<Rightarrow> time \<Rightarrow> LoadBalancer \<Rightarrow> node_heap \<times> int \<Rightarrow> node_heap \<times> int" where
  "lb_performHealthCheck threshold now lb s = fold (health_check_node threshold now) (GetNodes lb) s"

section \<open>The multidimensional router\<close>

record MultidimensionalRouterConfig =
  Strategy :: LoadBalanceStrategy
  HealthCheckInterval :: duration
  MaxFailures :: int
  RecoveryThreshold :: int

record MultidimensionalRouter =
  md_nodes :: "string \<rightharpoonup> nat"
  rules :: "string \<rightharpoonup> (string \<rightharpoonup> string list)"
  weights :: "string \<rightharpoonup> rat"
  md_config :: MultidimensionalRouterConfig
  roundRobinIndex :: "string \<rightharpoonup> int"

definition Dimensions :: "string list" where
  "Dimensions = [''protocol'', ''geo'', ''qos'', ''api_version'']"

definition NewMultidimensionalRouterWithConfig :: "MultidimensionalRouterConfig \<Rightarrow> MultidimensionalRouter" where
  "NewMultidimensionalRouterWithConfig cfg = \<lparr>md_nodes = Map.empty,
     rules = (\<lambda>d. if d \<in> set Dimensions then Some Map.empty else None),
     weights = [''protocol'' \<mapsto> 4/10, ''geo'' \<mapsto> 2/10, ''qos'' \<mapsto> 3/10, ''api_version'' \<mapsto> 1/10],
     md_config = cfg, roundRobinIndex = Map.empty\<rparr>"

definition NewMultidimensionalRouter :: MultidimensionalRouter where
  "NewMultidimensionalRouter = NewMultidimensionalRouterWithConfig
     \<lparr>Strategy = WeightedRoundRobin, HealthCheckInterval = 30 * second, MaxFailures = 3, RecoveryThreshold = 5\<rparr>"

text \<open>One node of \<^verbatim>\<open>performHealthCheck\<close>; the loop visits every node once, in any order.\<close>

definition md_check_node :: "MultidimensionalRouterConfig \<Rightarrow> time \<Rightarrow> RouteNode \<Rightarrow> RouteNode" where
  "md_check_node cfg now n = (let
     n = (if FailureCount n \<ge> MaxFailures cfg then n\<lparr>Status := NodeUnhealthy\<rparr>
          else if Status n = NodeUnhealthy \<and> SuccessCount n \<ge> RecoveryThreshold cfg
          then n\<lparr>Status := NodeHealthy, FailureCount := 0\<rparr> else n)
     in n\<lparr>LastHealthCheck := now\<rparr>)"

definition md_performHealthCheck :: "time \<Rightarrow> MultidimensionalRouter \<Rightarrow> node_heap \<Rightarrow> node_heap" where
  "md_performHealthCheck now r h = (\<lambda>a. if a \<in> ran (md_nodes r) then md_check_node (md_config r) now (h a) else h a)"

definition md_AddNode :: "node_heap \<Rightarrow> nat \<Rightarrow> MultidimensionalRouter \<Rightarrow> MultidimensionalRouter" where
  "md_AddNode h a r = r\<lparr>md_nodes := (md_nodes r)(ID (h a) \<mapsto> a)\<rparr>"

definition md_RemoveNode :: "string \<Rightarrow> MultidimensionalRouter \<Rightarrow> MultidimensionalRouter" where
  "md_RemoveNode nodeID r = (if nodeID \<in> dom (md_nodes r) then r\<lparr>md_nodes := (md_nodes r)(nodeID := None)\<rparr> else r)"

definition UpdateNodeLoad :: "string \<Rightarrow> int \<Rightarrow> MultidimensionalRouter \<Rightarrow> node_heap \<Rightarrow> node_heap" where
  "UpdateNodeLoad nodeID load r h = (case md_nodes r nodeID of None \<Rightarrow> h | Some a \<Rightarrow> h(a := (h a)\<lparr>Load := load\<rparr>))"

definition AddRule :: "string \<Rightarrow> string \<Rightarrow> string list \<Rightarrow> MultidimensionalRouter \<Rightarrow> MultidimensionalRouter" where
  "AddRule dm val nodeIDs r =
     (let m = (case rules r dm of None \<Rightarrow> Map.empty | Some m \<Rightarrow> m)
      in r\<lparr>rules := (rules r)(dm \<mapsto> m(val \<mapsto> nodeIDs))\<rparr>)"

text \<open>\<open>ds\<close>: the dimensions in the order of the \<^verbatim>\<open>range\<close> that sums them.\<close>

definition total_weight :: "string list \<Rightarrow> (string \<rightharpoonup> rat) \<Rightarrow> rat" where
  "total_weight ds w = sum_list (map (\<lambda>d. the (w d)) ds)"

definition normalizeWeights :: "string list \<Rightarrow> MultidimensionalRouter \<Rightarrow> MultidimensionalRouter" where
  "normalizeWeights ds r = (let total = total_weight ds (weights r)
     in if total = 0 then r else r\<lparr>weights := (\<lambda>d. map_option (\<lambda>w. w / total) (weights r d))\<rparr>)"

definition SetWeight :: "string list \<Rightarrow> string \<Rightarrow> rat \<Rightarrow> MultidimensionalRouter \<Rightarrow> MultidimensionalRouter" where
  "SetWeight ds dm w r = (let w = (if w < 0 then 0 else if w > 1 then 1 else w)
     in normalizeWeights ds (r\<lparr>weights := (weights r)(dm \<mapsto> w)\<rparr>))"

text \<open>The score of a healthy node; \<open>criteria\<close> in the order of its \<^verbatim>\<open>range\<close>.\<close>

fun score :: "MultidimensionalRouter \<Rightarrow> (string \<times> string) list \<Rightarrow> string \<Rightarrow> rat" where
  "score r [] nodeID = 0"
| "score r ((dm, val) # cs) nodeID =
     (let w = (case weights r dm of None \<Rightarrow> 0 | Some w \<Rightarrow> w)
      in (case Option.bind (rules r dm) (\<lambda>m. m val) of
            None \<Rightarrow> 0 | Some ids \<Rightarrow> w * of_nat (length (filter (\<lambda>i. i = nodeID) ids)))
         + score r cs nodeID)"

text \<open>\<open>ord\<close>: the node names in the order of the \<^verbatim>\<open>range\<close> over the scores.\<close>

definition getCandidateNodes :: "node_heap \<Rightarrow> string list \<Rightarrow> (string \<times> string) list \<Rightarrow> MultidimensionalRouter \<Rightarrow> nat list" where
  "getCandidateNodes h ord criteria r =
     map (\<lambda>i. the (md_nodes r i)) (filter (\<lambda>i. case md_nodes r i of None \<Rightarrow> False
        | Some a \<Rightarrow> Status (h a) = NodeHealthy \<and> score r criteria i > 0) ord)"

definition md_selectRoundRobin :: "nat list \<Rightarrow> MultidimensionalRouter \<Rightarrow> MultidimensionalRouter \<times> nat option" where
  "md_selectRoundRobin cands r =
     (if cands = [] then (r, None)
      else (let index = (case roundRobinIndex r ''default'' of None \<Rightarrow> 0 | Some i \<Rightarrow> i); n = int (length cands)
            in (r\<lparr>roundRobinIndex := (roundRobinIndex r)(''default'' \<mapsto> go_rem (index + 1) n)\<rparr>,
                Some (cands ! nat (go_rem index n)))))"

text \<open>
  \<^verbatim>\<open>score > maxScore\<close> for \<^verbatim>\<open>score = Weight * float64(Capacity-Load) / float64(Capacity)\<close>; a zero
  capacity makes the quotient an infinity or (zero by zero) a NaN. The running maximum is \<open>None\<close>
  when it is plus infinity.
\<close>

definition node_score :: "RouteNode \<Rightarrow> rat" where
  "node_score n = Weight n * of_int (Capacity n - Load n) / of_int (Capacity n)"

fun weighted_best :: "node_heap \<Rightarrow> rat option \<Rightarrow> nat option \<Rightarrow> nat list \<Rightarrow> nat option" where
  "weighted_best h mx best [] = best"
| "weighted_best h mx best (a # cands) =
     (let n = h a; num = Weight n * of_int (Capacity n - Load n) in
      if Capacity n = 0
      then (if num > 0 \<and> mx \<noteq> None then weighted_best h None (Some a) cands else weighted_best h mx best cands)
      else (case mx of None \<Rightarrow> weighted_best h mx best cands
        | Some m \<Rightarrow> if node_score n > m then weighted_best h (Some (node_score n)) (Some a) cands
                    else weighted_best h mx best cands))"

definition md_selectWeightedRoundRobin :: "node_heap \<Rightarrow> nat list \<Rightarrow> MultidimensionalRouter \<Rightarrow> MultidimensionalRouter \<times> nat option" where
  "md_selectWeightedRoundRobin h cands r =
     (if cands = [] then (r, None)
      else if sum_list (map (\<lambda>a. Weight (h a)) cands) = 0 then md_selectRoundRobin cands r
      else (r, weighted_best h (Some (-1)) None cands))"

fun least_below :: "(nat \<Rightarrow> int) \<Rightarrow> int \<Rightarrow> nat option \<Rightarrow> nat list \<Rightarrow> nat option" where
  "least_below f m best [] = best"
| "least_below f m best (a # cands) =
     (if f a < m then least_below f (f a) (Some a) cands else least_below f m best cands)"

definition max_int :: int where "max_int = 2 ^ 63 - 1"

definition md_selectLeastConnections :: "node_heap \<Rightarrow> nat list \<Rightarrow> nat option" where
  "md_selectLeastConnections h cands = (if cands = [] then None else least_below (\<lambda>a. Connections (h a)) max_int None cands)"

definition md_selectLeastResponseTime :: "node_heap \<Rightarrow> nat list \<Rightarrow> nat option" where
  "md_selectLeastResponseTime h cands = (if cands = [] then None else least_below (\<lambda>a. ResponseTime (h a)) max_int None cands)"

definition md_selectConsistentHash :: "nat list \<Rightarrow> nat option" where
  "md_selectConsistentHash cands = (case cands of [] \<Rightarrow> None | a # _ \<Rightarrow> Some a)"

definition md_SelectNode :: "string list \<Rightarrow> (string \<times> string) list \<Rightarrow> MultidimensionalRouter \<times> node_heap \<Rightarrow>
    (MultidimensionalRouter \<times> node_heap) \<times> nat option" where
  "md_SelectNode ord criteria s = (case s of (r, h) \<Rightarrow>
     if map_len (md_nodes r) = 0 then ((r, h), None)
     else (let cands = getCandidateNodes h ord criteria r in
       if cands = [] then ((r, h), None)
       else (let (r, sel) = (case Strategy (md_config r) of
               RoundRobin \<Rightarrow> md_selectRoundRobin cands r
             | WeightedRoundRobin \<Rightarrow> md_selectWeightedRoundRobin h cands r
             | LeastConnections \<Rightarrow> (r, md_selectLeastConnections h cands)
             | LeastResponseTime \<Rightarrow> (r, md_selectLeastResponseTime h cands)
             | ConsistentHashStrategy \<Rightarrow> (r, md_selectConsistentHash cands)
             | OtherStrategy _ \<Rightarrow> md_selectWeightedRoundRobin h cands r)
         in (case sel of None \<Rightarrow> ((r, h), None)
             | Some a \<Rightarrow> ((r, h(a := (h a)\<lparr>Connections := Connections (h a) + 1\<rparr>)), Some a)))))"

definition GetNode :: "string \<Rightarrow> MultidimensionalRouter \<Rightarrow> nat option" where
  "GetNode nodeID r = md_nodes r nodeID"

section \<open>Selectors\<close>

text \<open>
  The contract of a selection strategy towards \<^verbatim>\<open>SelectNode\<close>: it only returns nodes it was
  given; a total one returns a node whenever it was given any.
\<close>

locale node_selector =
  fixes select :: "nat list \<Rightarrow> 's \<Rightarrow> 's selection"
  assumes select_member: "select nodes s = Some (s', Some a) \<Longrightarrow> a \<in> set nodes"
begin

lemma select_satisfies: "(\<And>a. a \<in> set nodes \<Longrightarrow> P a) \<Longrightarrow> select nodes s = Some (s', Some a) \<Longrightarrow> P a"
  using select_member by blast

end

locale total_selector = node_selector +
  assumes select_some: "nodes \<noteq> [] \<Longrightarrow> select nodes s = Some (s', r) \<Longrightarrow> r \<noteq> None"
begin

lemma select_result: "nodes \<noteq> [] \<Longrightarrow> select nodes s = Some (s', r) \<Longrightarrow> \<exists>a\<in>set nodes. r = Some a"
  using select_some select_member by fastforce

end

lemma go_rem_less: "0 < n \<Longrightarrow> go_rem a (int n) < int n"
  unfolding go_rem_def by (cases "a > 0"; cases "a = 0") (auto simp: sgn_if intro: order.strict_trans1[of _ 0])

interpretation lb_rr: total_selector lb_selectRoundRobin
proof
  fix nodes s s' a assume "lb_selectRoundRobin nodes s = Some (s', Some a)"
  then show "a \<in> set nodes"
    using go_rem_less[of "length nodes"] by (auto simp: lb_selectRoundRobin_def Let_def split: if_splits intro!: nth_mem)
       (metis length_greater_0_conv nat_less_iff not_less)
next
  fix nodes s s' r assume "nodes \<noteq> []" "lb_selectRoundRobin nodes s = Some (s', r)"
  then show "r \<noteq> None" by (auto simp: lb_selectRoundRobin_def Let_def split: if_splits)
qed

lemma weighted_pick_in: "weighted_pick h x c nodes = Some a \<Longrightarrow> a \<in> set nodes"
  by (induction nodes arbitrary: c) (auto simp: Let_def split: if_splits)

interpretation lb_wrr: total_selector "lb_selectWeightedRoundRobin h now" for h now
proof
  fix nodes s s' a assume "lb_selectWeightedRoundRobin h now nodes s = Some (s', Some a)"
  then show "a \<in> set nodes"
    using lb_rr.select_member weighted_pick_in
    by (auto simp: lb_selectWeightedRoundRobin_def Let_def split: if_splits option.splits)
next
  fix nodes s s' r assume "nodes \<noteq> []" "lb_selectWeightedRoundRobin h now nodes s = Some (s', r)"
  then show "r \<noteq> None"
    using lb_rr.select_some
    by (auto simp: lb_selectWeightedRoundRobin_def Let_def split: if_splits option.splits; metis)
qed

lemma pick_least_spec:
  "pick_least f best nodes \<in> insert best (set nodes) \<and> (\<forall>b\<in>insert best (set nodes). f (pick_least f best nodes) \<le> f b)"
proof (induction nodes arbitrary: best)
  case (Cons a nodes)
  from Cons[of a] Cons[of best] show ?case by auto
qed simp

interpretation lb_lc: total_selector "lb_selectLeastConnections h" for h
  by unfold_locales
    (use pick_least_spec[of "\<lambda>a. Connections (h a)"] in \<open>auto simp: lb_selectLeastConnections_def split: list.splits; blast\<close>)+

interpretation lb_lrt: total_selector "lb_selectLeastResponseTime h" for h
  by unfold_locales
    (use pick_least_spec[of "\<lambda>a. ResponseTime (h a)"] in \<open>auto simp: lb_selectLeastResponseTime_def split: list.splits; blast\<close>)+

interpretation lb_ch: total_selector "lb_selectConsistentHash h path" for h path
proof
  fix nodes s s' a assume "lb_selectConsistentHash h path nodes s = Some (s', Some a)"
  then show "a \<in> set nodes"
    using find_in_set[of _ nodes]
    by (cases nodes) (auto simp: lb_selectConsistentHash_def Let_def simp del: find.simps split: option.splits)
next
  fix nodes s s' r assume "nodes \<noteq> []" "lb_selectConsistentHash h path nodes s = Some (s', r)"
  then show "r \<noteq> None"
    by (auto simp: lb_selectConsistentHash_def Let_def simp del: find.simps split: option.splits list.splits; metis)
qed

lemma weighted_best_in: "weighted_best h m best nodes = Some a \<Longrightarrow> a \<in> set nodes \<or> best = Some a"
  by (induction nodes arbitrary: m best) (fastforce simp: Let_def split: if_splits option.splits)+

lemma least_below_in: "least_below f m best nodes = Some a \<Longrightarrow> a \<in> set nodes \<or> best = Some a"
  by (induction nodes arbitrary: m best) (fastforce split: if_splits)+

interpretation md_rr: node_selector "\<lambda>cands r. Some (md_selectRoundRobin cands r)"
proof
  fix cands :: "nat list" and r r' a
  have "nat (go_rem i (int (length cands))) < length cands" if "cands \<noteq> []" for i
    using go_rem_less[of "length cands" i] that by (cases "0 \<le> go_rem i (int (length cands))") auto
  then show "Some (md_selectRoundRobin cands r) = Some (r', Some a) \<Longrightarrow> a \<in> set cands"
    by (auto simp: md_selectRoundRobin_def Let_def split: if_splits)
qed

interpretation md_wrr: node_selector "\<lambda>cands r. Some (md_selectWeightedRoundRobin h cands r)" for h
proof
  fix cands r r' a assume "Some (md_selectWeightedRoundRobin h cands r) = Some (r', Some a)"
  then show "a \<in> set cands"
    using md_rr.select_member[of cands r] weighted_best_in
    by (fastforce simp: md_selectWeightedRoundRobin_def split: if_splits)
qed

section \<open>Properties of the load balancer\<close>

lemma lb_SelectNode_result:
  assumes "lb_SelectNode h path now lb = Some (lb', r)" "getHealthyNodes h lb \<noteq> []"
  shows "\<exists>a\<in>set (getHealthyNodes h lb). r = Some a"
  using assms lb_rr.select_result[OF assms(2)] lb_wrr.select_result[OF assms(2)] lb_lc.select_result[OF assms(2)]
    lb_lrt.select_result[OF assms(2)] lb_ch.select_result[OF assms(2)]
  by (auto simp: lb_SelectNode_def Let_def split: LoadBalanceStrategy.splits)



definition demo_node :: "string \<Rightarrow> RouteNode" where
  "demo_node i = \<lparr>ID = i, Address = ''10.0.0.1'', Capacity = 10, Load = 1, Status = NodeHealthy, LastHealthCheck = 0,
     ResponseTime = 5, Weight = 1, Connections = 0, FailureCount = 0, SuccessCount = 0\<rparr>"

definition demo_heap :: node_heap where
  "demo_heap = (\<lambda>_. demo_node ''b'')(0 := (demo_node ''a'')\<lparr>Status := NodeUnhealthy\<rparr>)"


text \<open>The nodes \<open>k\<close> successive round-robin selections return while the healthy nodes stay the same.\<close>

fun rr_picks :: "nat \<Rightarrow> nat list \<Rightarrow> LoadBalancer \<Rightarrow> nat option list option" where
  "rr_picks 0 nodes lb = Some []"
| "rr_picks (Suc k) nodes lb = (case lb_selectRoundRobin nodes lb of None \<Rightarrow> None
     | Some (lb', r) \<Rightarrow> map_option (\<lambda>rs. r # rs) (rr_picks k nodes lb'))"

lemma sint_Suc: "sint (c :: 64 word) < 2 ^ 63 - 1 \<Longrightarrow> sint (c + 1) = sint c + 1"
  using sint_ge[of c] by (simp add: sint_word_ariths signed_take_bit_int_eq_self)

lemma rr_picks_window:
  "nodes \<noteq> [] \<Longrightarrow> 0 \<le> sint (currentIndex lb) \<Longrightarrow> sint (currentIndex lb) + int k < 2 ^ 63 \<Longrightarrow>
   rr_picks k nodes lb =
     Some (map (\<lambda>i. Some (nodes ! ((nat (sint (currentIndex lb)) + i) mod length nodes))) [1..<k + 1])"
proof (induction k arbitrary: lb)
  case (Suc k)
  let ?c = "sint (currentIndex lb)"
  have c1: "sint (currentIndex lb + 1) = ?c + 1" by (rule sint_Suc) (use Suc.prems(3) in simp)
  obtain m where m: "?c = int m" using Suc.prems(2) zero_le_imp_eq_int by blast
  have "go_rem (?c + 1) (int (length nodes)) = int ((m + 1) mod length nodes)"
    using m by (simp add: go_rem_def zmod_int add.commute)
  then have pick: "lb_selectRoundRobin nodes lb = Some (lb\<lparr>currentIndex := currentIndex lb + 1\<rparr>,
      Some (nodes ! ((m + 1) mod length nodes)))"
    using Suc.prems(1) c1 by (simp add: lb_selectRoundRobin_def Let_def)
  have "rr_picks k nodes (lb\<lparr>currentIndex := currentIndex lb + 1\<rparr>) =
     Some (map (\<lambda>i. Some (nodes ! ((nat (?c + 1) + i) mod length nodes))) [1..<k + 1])"
    using Suc.IH[of "lb\<lparr>currentIndex := currentIndex lb + 1\<rparr>"] Suc.prems c1 by simp
  moreover have "map (\<lambda>i. Some (nodes ! ((m + i) mod length nodes))) [1..<Suc k + 1] =
     Some (nodes ! ((m + 1) mod length nodes)) #
     map (\<lambda>i. Some (nodes ! ((nat (?c + 1) + i) mod length nodes))) [1..<k + 1]"
  proof -
    have "[1..<Suc k + 1] = 1 # map Suc [1..<k + 1]"
      by (simp only: map_Suc_upt) (simp add: upt_conv_Cons del: upt_Suc)
    then show ?thesis using m by (simp add: nat_add_distrib del: upt_Suc)
  qed
  ultimately show ?case using pick m by (simp del: upt_Suc)
qed simp

lemma window_perm: "mset (map (\<lambda>i. xs ! ((m + i) mod length xs)) [1..<length xs + 1]) = mset xs"
proof (cases "xs = []")
  case False
  let ?n = "length xs"
  have n: "0 < ?n" using False by simp
  have inj: "inj_on (\<lambda>i. (m + i) mod ?n) {1..<?n + 1}"
  proof (rule inj_onI)
    fix i j assume ij: "i \<in> {1..<?n + 1}" "j \<in> {1..<?n + 1}" "(m + i) mod ?n = (m + j) mod ?n"
    have "i = j" if "j \<le> i" "i \<in> {1..<?n + 1}" "j \<in> {1..<?n + 1}" "(m + i) mod ?n = (m + j) mod ?n" for i j
    proof -
      have "?n dvd i - j" using that(1,4) by (simp add: mod_eq_dvd_iff_nat)
      moreover have "i - j < ?n" using that by auto
      ultimately show ?thesis using that(1) nat_dvd_not_less[of "i - j" ?n] by (cases "i - j = 0") auto
    qed
    from this[of j i] this[of i j] ij show "i = j" by (cases "j \<le> i") auto
  qed
  have "(\<lambda>i. (m + i) mod ?n) ` {1..<?n + 1} = {..<?n}"
  proof (rule card_subset_eq)
    show "(\<lambda>i. (m + i) mod ?n) ` {1..<?n + 1} \<subseteq> {..<?n}" using n by auto
    show "card ((\<lambda>i. (m + i) mod ?n) ` {1..<?n + 1}) = card {..<?n}" using card_image[OF inj] by simp
  qed simp
  then have "image_mset (\<lambda>i. (m + i) mod ?n) (mset_set {1..<?n + 1}) = mset_set {..<?n}"
    using image_mset_mset_set[OF inj] by simp
  then have "image_mset (\<lambda>i. xs ! ((m + i) mod ?n)) (mset_set {1..<?n + 1}) = image_mset ((!) xs) (mset_set {..<?n})"
    by (metis (no_types, lifting) image_mset.compositionality comp_def image_mset_cong)
  moreover have "mset [1..<?n + 1] = mset_set {1..<?n + 1}" by (simp only: mset_upt)
  moreover have "image_mset ((!) xs) (mset_set {..<?n}) = mset xs"
    by (metis atLeast_upt lessThan_atLeast0 map_nth mset_map mset_upt)
  ultimately show ?thesis by (simp add: mset_map del: upt_Suc)
qed simp

text \<open>
  Round robin is fair: while the counter does not overflow, any \<open>n\<close> successive selections
  among \<open>n\<close> healthy nodes return every node exactly once.
\<close>

lemma round_robin_fair:
  assumes "nodes \<noteq> []" and "0 \<le> sint (currentIndex lb)" and "sint (currentIndex lb) + int (length nodes) < 2 ^ 63"
  shows "\<exists>rs. rr_picks (length nodes) nodes lb = Some (map Some rs) \<and> mset rs = mset nodes"
  using rr_picks_window[OF assms] window_perm[of nodes "nat (sint (currentIndex lb))"]
  by (intro exI[of _ "map (\<lambda>i. nodes ! ((nat (sint (currentIndex lb)) + i) mod length nodes)) [1..<length nodes + 1]"])
     (simp del: upt_Suc)

lemma round_robin_fair_witness:
  "\<exists>rs. rr_picks 3 [4, 5, 6] (NewLoadBalancer RoundRobin) = Some (map Some rs) \<and> mset rs = {#4, 5, 6#}"
  using round_robin_fair[of "[4, 5, 6]" "NewLoadBalancer RoundRobin"]
  by (simp add: NewLoadBalancer_def numeral_3_eq_3)

text \<open>
  The round-robin counter is signed: the selection after \<^verbatim>\<open>2^63 - 1\<close> selections indexes the
  slice with a negative number and panics, unless the number of healthy nodes is a power of two.
\<close>

lemma round_robin_overflow_panics:
  assumes "currentIndex lb = of_int (2 ^ 63 - 1)" and "\<not> int (length nodes) dvd 2 ^ 63" and "nodes \<noteq> []"
  shows "lb_selectRoundRobin nodes lb = None"
proof -
  have "currentIndex lb + 1 = 0x8000000000000000" using assms(1) by simp
  moreover have "sint (0x8000000000000000 :: 64 word) = - (2 ^ 63)" by code_simp
  ultimately have "sint (currentIndex lb + 1) = - (2 ^ 63)" by simp
  moreover have "go_rem (- (2 ^ 63)) (int (length nodes)) < 0"
  proof -
    have "0 < (2 ^ 63 :: int) mod int (length nodes)"
      using assms(2,3) by (simp add: dvd_eq_mod_eq_0 order_le_neq_trans)
    then show ?thesis by (simp add: go_rem_def)
  qed
  ultimately show ?thesis using assms(3) by (simp add: lb_selectRoundRobin_def Let_def)
qed

lemma round_robin_overflow_panics_witness:
  "lb_selectRoundRobin [0, 1, 2] ((NewLoadBalancer RoundRobin)\<lparr>currentIndex := 0x7FFFFFFFFFFFFFFF\<rparr>) = None"
  using round_robin_overflow_panics[of "(NewLoadBalancer RoundRobin)\<lparr>currentIndex := 0x7FFFFFFFFFFFFFFF\<rparr>" "[0, 1, 2]"]
  by simp

section \<open>Properties of the multidimensional router\<close>

definition weights_ok :: "MultidimensionalRouter \<Rightarrow> bool" where
  "weights_ok r \<longleftrightarrow> (\<forall>d w. weights r d = Some w \<longrightarrow> 0 \<le> w)"

lemma weights_ok_New [inv_intros]: "weights_ok (NewMultidimensionalRouterWithConfig cfg)"
  by (auto simp: weights_ok_def NewMultidimensionalRouterWithConfig_def split: if_splits)

lemma total_weight_nonneg: "(\<And>d. d \<in> set ds \<Longrightarrow> 0 \<le> the (w d)) \<Longrightarrow> 0 \<le> total_weight ds w"
  unfolding total_weight_def by (induction ds) auto

lemma total_weight_ge:
  "(\<And>d. d \<in> set ds \<Longrightarrow> 0 \<le> the (w d)) \<Longrightarrow> d \<in> set ds \<Longrightarrow> the (w d) \<le> total_weight ds w"
proof (induction ds)
  case (Cons x ds)
  have "0 \<le> total_weight ds w" "0 \<le> the (w x)" using Cons.prems(1) by (auto intro: total_weight_nonneg)
  moreover have "total_weight (x # ds) w = the (w x) + total_weight ds w" by (simp add: total_weight_def)
  ultimately show ?case
  proof (cases "d = x")
    case False
    then have "the (w d) \<le> total_weight ds w" using Cons by auto
    then have "the (w d) + 0 \<le> total_weight ds w + the (w x)" using \<open>0 \<le> the (w x)\<close> by (rule add_mono)
    then show ?thesis using \<open>total_weight (x # ds) w = _\<close> by (simp add: add.commute)
  qed simp
qed simp

lemma total_weight_div: "total_weight ds (\<lambda>d. map_option (\<lambda>x. x / t) (w d)) = total_weight ds w / t"
  if "set ds \<subseteq> dom w"
  using that by (induction ds) (auto simp: total_weight_def add_divide_distrib)

text \<open>
  \<^verbatim>\<open>SetWeight\<close> keeps every weight between 0 and 1 and, unless all are 0, makes them sum
  to 1, whatever weight is asked for.
\<close>

lemma SetWeight_normalised:
  assumes "weights_ok r" and "distinct ds" and "set ds = insert dm (dom (weights r))"
  shows "weights_ok (SetWeight ds dm w r) \<and> dom (weights (SetWeight ds dm w r)) = set ds \<and>
         (total_weight ds (weights (SetWeight ds dm w r)) = 1 \<or>
          (\<forall>d\<in>set ds. weights (SetWeight ds dm w r) d = Some 0)) \<and>
         (\<forall>d\<in>set ds. the (weights (SetWeight ds dm w r) d) \<le> 1)"
proof -
  define w' where "w' = (if w < 0 then 0 else if w > 1 then 1 else w)"
  define m where "m = (weights r)(dm \<mapsto> w')"
  have m: "0 \<le> x" if "m d = Some x" for d x
    using that assms(1) by (auto simp: m_def w'_def weights_ok_def split: if_splits)
  have dom: "dom m = set ds" using assms(3) by (simp add: m_def)
  have nonneg: "0 \<le> the (m d)" if "d \<in> set ds" for d
  proof -
    from that dom obtain x where "m d = Some x" by blast
    with m show ?thesis by simp
  qed
  have ge: "the (m d) \<le> total_weight ds m" if "d \<in> set ds" for d
    using that by (intro total_weight_ge nonneg)
  have total: "0 \<le> total_weight ds m" using nonneg by (rule total_weight_nonneg)
  have eq: "SetWeight ds dm w r = normalizeWeights ds (r\<lparr>weights := m\<rparr>)"
    by (simp add: SetWeight_def m_def w'_def Let_def)
  show ?thesis
  proof (cases "total_weight ds m = 0")
    case True
    have "m d = Some 0" if "d \<in> set ds" for d
    proof -
      from that dom obtain x where x: "m d = Some x" by blast
      with ge[OF that] nonneg[OF that] True show ?thesis by simp
    qed
    with True m dom show ?thesis unfolding eq by (auto simp: normalizeWeights_def weights_ok_def)
  next
    case False
    with total have pos: "0 < total_weight ds m" by simp
    have "the (m d) / total_weight ds m \<le> 1" if "d \<in> set ds" for d
      using ge[OF that] pos by simp
    moreover have "m d \<noteq> None" if "d \<in> set ds" for d using that dom by auto
    ultimately have "the (map_option (\<lambda>x. x / total_weight ds m) (m d)) \<le> 1" if "d \<in> set ds" for d
      using that by force
    with False pos m dom total_weight_div[of ds m "total_weight ds m"] show ?thesis
      unfolding eq by (auto simp: normalizeWeights_def weights_ok_def dom_def)
  qed
qed

lemma SetWeight_normalised_witness:
  "total_weight Dimensions (weights (SetWeight Dimensions ''geo'' 7 NewMultidimensionalRouter)) = 1"
proof -
  have "distinct Dimensions" "set Dimensions = insert ''geo'' (dom (weights NewMultidimensionalRouter))"
    by (auto simp: Dimensions_def NewMultidimensionalRouter_def NewMultidimensionalRouterWithConfig_def)
  from SetWeight_normalised[OF _ this, of 7]
  have "total_weight Dimensions (weights (SetWeight Dimensions ''geo'' 7 NewMultidimensionalRouter)) = 1 \<or>
      weights (SetWeight Dimensions ''geo'' 7 NewMultidimensionalRouter) ''geo'' = Some 0"
    using weights_ok_New by (auto simp: NewMultidimensionalRouter_def Dimensions_def)
  then show ?thesis
    by (auto simp: SetWeight_def normalizeWeights_def total_weight_def Dimensions_def Let_def
        NewMultidimensionalRouter_def NewMultidimensionalRouterWithConfig_def)
qed

text \<open>The criteria a rule of positive weight answers with this node.\<close>

definition rule_matches :: "MultidimensionalRouter \<Rightarrow> (string \<times> string) list \<Rightarrow> string \<Rightarrow> bool" where
  "rule_matches r criteria nodeID \<longleftrightarrow> (\<exists>(dm, val)\<in>set criteria.
     (\<exists>w. weights r dm = Some w \<and> 0 < w) \<and> (\<exists>m ids. rules r dm = Some m \<and> m val = Some ids \<and> nodeID \<in> set ids))"

lemma score_pos:
  assumes "weights_ok r"
  shows "0 \<le> score r criteria nodeID \<and> (0 < score r criteria nodeID \<longleftrightarrow> rule_matches r criteria nodeID)"
proof (induction criteria)
  case (Cons c cs)
  obtain dm val where c: "c = (dm, val)" by (cases c)
  define w where "w = (case weights r dm of None \<Rightarrow> 0 | Some w \<Rightarrow> w)"
  define t where "t = (case Option.bind (rules r dm) (\<lambda>m. m val) of
     None \<Rightarrow> 0 | Some ids \<Rightarrow> w * of_nat (length (filter (\<lambda>i. i = nodeID) ids)))"
  have w0: "0 \<le> w" "0 < w \<longleftrightarrow> (\<exists>x. weights r dm = Some x \<and> 0 < x)"
    using assms by (auto simp: w_def weights_ok_def split: option.splits)
  have fl: "0 < length (filter (\<lambda>i. i = nodeID) ids) \<longleftrightarrow> nodeID \<in> set ids" for ids
    by (induction ids) auto
  have t0: "0 \<le> t" "0 < t \<longleftrightarrow> 0 < w \<and> (\<exists>m ids. rules r dm = Some m \<and> m val = Some ids \<and> nodeID \<in> set ids)"
    using w0(1) fl by (auto simp: t_def zero_less_mult_iff split: option.splits bind_splits)
  have "score r (c # cs) nodeID = t + score r cs nodeID" by (simp only: c score.simps Let_def t_def w_def)
  moreover have "rule_matches r (c # cs) nodeID \<longleftrightarrow> 0 < t \<or> rule_matches r cs nodeID"
    using t0(2) w0(2) by (auto simp: rule_matches_def c)
  ultimately show ?case using Cons t0(1) by auto
qed (simp add: rule_matches_def)

lemma getCandidateNodes_iff:
  assumes "weights_ok r"
  shows "a \<in> set (getCandidateNodes h ord criteria r) \<longleftrightarrow>
    (\<exists>i\<in>set ord. md_nodes r i = Some a \<and> Status (h a) = NodeHealthy \<and> rule_matches r criteria i)"
  unfolding getCandidateNodes_def using score_pos[OF assms]
  by (force split: option.splits)

lemma md_SelectNode_member:
  assumes "md_SelectNode ord criteria (r, h) = (s', Some a)"
  shows "a \<in> set (getCandidateNodes h ord criteria r)"
proof -
  let ?c = "getCandidateNodes h ord criteria r"
  have "snd (md_selectRoundRobin ?c r) = Some a \<Longrightarrow> a \<in> set ?c"
    "snd (md_selectWeightedRoundRobin h ?c r) = Some a \<Longrightarrow> a \<in> set ?c" for a
    using md_rr.select_member[of ?c r] md_wrr.select_member[of h ?c r] by (metis prod.collapse)+
  moreover have "md_selectLeastConnections h ?c = Some a \<Longrightarrow> a \<in> set ?c"
    "md_selectLeastResponseTime h ?c = Some a \<Longrightarrow> a \<in> set ?c" for a
    using least_below_in[of _ max_int None ?c a]
    by (auto simp: md_selectLeastConnections_def md_selectLeastResponseTime_def split: if_splits)
  moreover have "md_selectConsistentHash ?c = Some a \<Longrightarrow> a \<in> set ?c" for a
    by (auto simp: md_selectConsistentHash_def split: list.splits)
  ultimately show ?thesis using assms
    by (auto simp: md_SelectNode_def Let_def case_prod_beta split: if_splits option.splits LoadBalanceStrategy.splits)
qed

text \<open>
  A node the multidimensional router returns is registered, healthy, and named by a rule
  of positive weight for one of the criteria; so a request without criteria never gets one.
\<close>

lemma md_SelectNode_matches:
  assumes "weights_ok r" and "md_SelectNode ord criteria (r, h) = (s', Some a)"
  shows "(\<exists>i. md_nodes r i = Some a \<and> rule_matches r criteria i) \<and> Status (h a) = NodeHealthy \<and>
         criteria \<noteq> []"
proof -
  from md_SelectNode_member[OF assms(2)] obtain i where
    "md_nodes r i = Some a" "Status (h a) = NodeHealthy" "rule_matches r criteria i"
    unfolding getCandidateNodes_iff[OF assms(1)] by blast
  moreover from this(3) have "criteria \<noteq> []" by (auto simp: rule_matches_def)
  ultimately show ?thesis by blast
qed

definition demo_md :: MultidimensionalRouter where
  "demo_md = AddRule ''geo'' ''eu'' [''b''] (md_AddNode demo_heap 1 NewMultidimensionalRouter)"

lemma demo_md_select: "snd (md_SelectNode [''b''] [(''geo'', ''eu'')] (demo_md, demo_heap)) = Some 1"
  by (simp add: demo_md_def AddRule_def md_AddNode_def demo_heap_def demo_node_def md_SelectNode_def getCandidateNodes_def
      NewMultidimensionalRouter_def NewMultidimensionalRouterWithConfig_def Dimensions_def map_len_upd
      md_selectWeightedRoundRobin_def node_score_def)

lemma md_SelectNode_matches_witness:
  "Status (demo_heap 1) = NodeHealthy \<and> snd (md_SelectNode [''b''] [(''geo'', ''eu'')] (demo_md, demo_heap)) = Some 1"
proof -
  obtain s' where "md_SelectNode [''b''] [(''geo'', ''eu'')] (demo_md, demo_heap) = (s', Some 1)"
    using demo_md_select by (metis prod.collapse)
  moreover have "weights_ok demo_md"
    using weights_ok_New by (simp add: demo_md_def AddRule_def md_AddNode_def weights_ok_def NewMultidimensionalRouter_def)
  ultimately show ?thesis using md_SelectNode_matches[of demo_md] demo_md_select by blast
qed

section \<open>Health checks\<close>

text \<open>What may happen to a node between health checks: requests that succeed or fail on it.\<close>

datatype health_event = Succeeded | Failed | LbCheck int time | MdCheck MultidimensionalRouterConfig time

fun node_event :: "health_event \<Rightarrow> RouteNode \<Rightarrow> RouteNode" where
  "node_event Succeeded n = n\<lparr>SuccessCount := SuccessCount n + 1\<rparr>"
| "node_event Failed n = n\<lparr>FailureCount := FailureCount n + 1\<rparr>"
| "node_event (LbCheck threshold now) n = fst (health_check_node threshold now 0 (\<lambda>_. n, 0)) 0"
| "node_event (MdCheck cfg now) n = md_check_node cfg now n"

fun threshold_of :: "health_event \<Rightarrow> int option" where
  "threshold_of (LbCheck threshold now) = Some threshold"
| "threshold_of (MdCheck cfg now) = Some (MaxFailures cfg)"
| "threshold_of _ = None"

text \<open>
  A node whose failures have reached the threshold never becomes healthy again, however many
  requests succeed on it: recovery is only tried for a node below the threshold, and nothing but
  recovery lowers the failure count.
\<close>

lemma failed_node_never_recovers:
  assumes "Status n = NodeUnhealthy" and "\<And>e k. e \<in> set es \<Longrightarrow> threshold_of e = Some k \<Longrightarrow> k \<le> FailureCount n"
  shows "Status (fold node_event es n) = NodeUnhealthy"
  using assms
proof (induction es arbitrary: n)
  case (Cons e es)
  have "Status (node_event e n) = NodeUnhealthy \<and> FailureCount n \<le> FailureCount (node_event e n)"
    using Cons.prems(1) Cons.prems(2)[of e] by (cases e) (auto simp: health_check_node_def md_check_node_def Let_def)
  then show ?case using Cons.IH[of "node_event e n"] Cons.prems(2) by fastforce
qed simp

lemma failed_node_never_recovers_witness:
  "Status (fold node_event (replicate 3 Failed @ [LbCheck 3 0] @ replicate 5 Succeeded @ [LbCheck 3 9]) (demo_node ''a'')) =
   NodeUnhealthy"
proof -
  let ?n = "(demo_node ''a'')\<lparr>FailureCount := 3, Status := NodeUnhealthy\<rparr>"
  have "Status (fold node_event (replicate 5 Succeeded @ [LbCheck 3 9]) ?n) = NodeUnhealthy"
    by (rule failed_node_never_recovers) auto
  then show ?thesis by (simp add: demo_node_def numeral_3_eq_3 health_check_node_def)
qed

end
