(* ===== verification/Enhanced_Router.thy ===== *)
theory Enhanced_Router
  imports Cache_Contract Load_Balancer
begin

text \<open>
  The \<^verbatim>\<open>OptimizedRouter\<close> of \<^verbatim>\<open>core/router/enhanced_router.go\<close>: its route cache, the processing
  of a request by a worker, the metrics, and the two channels between callers and workers.
\<close>

section \<open>The route cache\<close>

record RouteRequest =
  ReqID :: nat
  Method :: string
  Path :: string
  Criteria :: "string \<rightharpoonup> string"

record RouteCacheEntry =
  EntryKey :: string
  EntryNode :: nat
  ExpireTime :: time
  AccessTime :: time
  HitCount :: int

record OptimizedRouteCache =
  entries :: "string \<rightharpoonup> RouteCacheEntry"
  maxSize :: int
  ttl :: duration
  hits :: int
  misses :: int
  evictions :: int

definition NewOptimizedRouteCache :: "int \<Rightarrow> duration \<Rightarrow> OptimizedRouteCache" where
  "NewOptimizedRouteCache mx t = \<lparr>entries = Map.empty, maxSize = mx, ttl = t, hits = 0, misses = 0, evictions = 0\<rparr>"

text \<open>The \<^verbatim>\<open>%x\<close> verb.\<close>

definition hex_digit :: "nat \<Rightarrow> char" where
  "hex_digit n = (if n < 10 then char_of (48 + n) else char_of (87 + n))"

fun show_hex :: "nat \<Rightarrow> string" where
  "show_hex n = (if n < 16 then [hex_digit n] else show_hex (n div 16) @ [hex_digit (n mod 16)])"

declare show_hex.simps [simp del]

text \<open>\<open>ord\<close>: the dimensions in the order in which \<^verbatim>\<open>range\<close> visits the criteria.\<close>

definition key_bytes :: "string list \<Rightarrow> RouteRequest \<Rightarrow> bytes" where
  "key_bytes ord q = bytes_of (Method q) @ bytes_of (Path q) @
     concat (map (\<lambda>d. bytes_of d @ bytes_of (the (Criteria q d))) ord)"

definition generateKey :: "string list \<Rightarrow> RouteRequest \<Rightarrow> string" where
  "generateKey ord q = show_hex (unat (fnv64a (key_bytes ord q)))"

definition cache_Get :: "string \<Rightarrow> time \<Rightarrow> time \<Rightarrow> OptimizedRouteCache \<Rightarrow> OptimizedRouteCache \<times> nat option" where
  "cache_Get key now now2 rc = (case entries rc key of
     None \<Rightarrow> (rc\<lparr>misses := misses rc + 1\<rparr>, None)
   | Some e \<Rightarrow> if now > ExpireTime e then (rc\<lparr>misses := misses rc + 1\<rparr>, None)
       else (rc\<lparr>entries := (entries rc)(key \<mapsto> e\<lparr>AccessTime := now2, HitCount := HitCount e + 1\<rparr>),
                hits := hits rc + 1\<rparr>, Some (EntryNode e)))"

fun oldest_key :: "(string \<rightharpoonup> RouteCacheEntry) \<Rightarrow> string list \<Rightarrow> string \<times> time \<Rightarrow> string \<times> time" where
  "oldest_key m [] best = best"
| "oldest_key m (k # ks) best = oldest_key m ks (case m k of None \<Rightarrow> best
     | Some e \<Rightarrow> if fst best = [] \<or> AccessTime e < snd best then (k, AccessTime e) else best)"

definition cache_evictLRU :: "string list \<Rightarrow> OptimizedRouteCache \<Rightarrow> OptimizedRouteCache" where
  "cache_evictLRU ks rc = (let k = fst (oldest_key (entries rc) ks ([], 0)) in
     if k \<noteq> [] then rc\<lparr>entries := (entries rc)(k := None), evictions := evictions rc + 1\<rparr> else rc)"

definition cache_Put :: "string list \<Rightarrow> string \<Rightarrow> nat \<Rightarrow> time \<Rightarrow> time \<Rightarrow> OptimizedRouteCache \<Rightarrow> OptimizedRouteCache" where
  "cache_Put ks key node now now2 rc =
     (let rc = (if int (map_len (entries rc)) \<ge> maxSize rc then cache_evictLRU ks rc else rc)
      in rc\<lparr>entries := (entries rc)(key \<mapsto> \<lparr>EntryKey = key, EntryNode = node, ExpireTime = now + ttl rc,
                                          AccessTime = now2, HitCount = 0\<rparr>)\<rparr>)"

definition cache_Cleanup :: "time \<Rightarrow> OptimizedRouteCache \<Rightarrow> OptimizedRouteCache" where
  "cache_Cleanup now rc =
     (let kept = filter_map (\<lambda>k e. \<not> now > ExpireTime e) (entries rc)
      in rc\<lparr>entries := kept, evictions := evictions rc + int (map_len (entries rc) - map_len kept)\<rparr>)"

section \<open>The cache keeps its contract\<close>

definition cache_inv :: "OptimizedRouteCache \<Rightarrow> bool" where
  "cache_inv rc \<longleftrightarrow> finite (dom (entries rc)) \<and> [] \<notin> dom (entries rc) \<and>
     int (map_len (entries rc)) \<le> max 1 (maxSize rc)"

definition route_contents :: "OptimizedRouteCache \<Rightarrow> (string \<rightharpoonup> nat \<times> time)" where
  "route_contents rc = (\<lambda>k. map_option (\<lambda>e. (EntryNode e, ExpireTime e)) (entries rc k))"

lemma cache_inv_New [inv_intros]: "cache_inv (NewOptimizedRouteCache mx t)"
  by (simp add: cache_inv_def NewOptimizedRouteCache_def)

lemma oldest_key_in:
  "set ks \<subseteq> dom m \<Longrightarrow> [] \<notin> dom m \<Longrightarrow> (fst best = [] \<or> fst best \<in> dom m) \<Longrightarrow>
   (fst (oldest_key m ks best) = [] \<and> ks = [] \<and> fst best = []) \<or> fst (oldest_key m ks best) \<in> dom m"
proof (induction ks arbitrary: best)
  case (Cons k ks)
  from Cons.prems(1) obtain e where e: "m k = Some e" by auto
  define b where "b = (if fst best = [] \<or> AccessTime e < snd best then (k, AccessTime e) else best)"
  have "fst b \<in> dom m" using Cons.prems e by (auto simp: b_def)
  moreover from this Cons.prems(2) have "fst b \<noteq> []" by metis
  ultimately have "fst (oldest_key m ks b) \<in> dom m" using Cons.IH[of b] Cons.prems(1,2) by auto
  then show ?case by (simp add: e b_def)
qed auto

lemma cache_evictLRU_removes:
  assumes "cache_inv rc" "set ks = dom (entries rc)" "entries rc \<noteq> Map.empty"
  shows "\<exists>k\<in>dom (entries rc). entries (cache_evictLRU ks rc) = (entries rc)(k := None) \<and>
    maxSize (cache_evictLRU ks rc) = maxSize rc \<and> ttl (cache_evictLRU ks rc) = ttl rc"
proof -
  have "ks \<noteq> []" using assms(2,3) by (auto simp: fun_eq_iff domIff)
  moreover have "[] \<notin> dom (entries rc)" using assms(1) by (simp add: cache_inv_def)
  ultimately have "fst (oldest_key (entries rc) ks ([], 0)) \<in> dom (entries rc)"
    using oldest_key_in[of ks "entries rc" "([], 0)"] assms(2) by auto
  with \<open>[] \<notin> dom (entries rc)\<close> show ?thesis by (auto simp: cache_evictLRU_def Let_def)
qed

lemma cache_Put_ok:
  assumes inv: "cache_inv rc" and ks: "set ks = dom (entries rc)" and key: "key \<noteq> []"
  shows "cache_inv (cache_Put ks key node now now2 rc) \<and>
    route_contents (cache_Put ks key node now now2 rc) \<subseteq>\<^sub>m (route_contents rc)(key \<mapsto> (node, now + ttl rc)) \<and>
    ttl (cache_Put ks key node now now2 rc) = ttl rc \<and> maxSize (cache_Put ks key node now now2 rc) = maxSize rc"
proof (cases "int (map_len (entries rc)) \<ge> maxSize rc")
  case False
  have "map_len ((entries rc)(key \<mapsto> e)) \<le> Suc (map_len (entries rc))" for e
    using inv by (simp add: cache_inv_def map_len_upd_le)
  then have "int (map_len ((entries rc)(key \<mapsto> e))) \<le> maxSize rc" for e using False by (smt (verit) of_nat_Suc of_nat_le_iff)
  with False inv key show ?thesis
    by (auto simp: cache_Put_def cache_inv_def route_contents_def map_le_def max_def)
next
  case True
  let ?rc = "cache_evictLRU ks rc"
  have fin: "finite (dom (entries rc))" using inv by (simp add: cache_inv_def)
  have sub: "entries ?rc \<subseteq>\<^sub>m entries rc \<and> finite (dom (entries ?rc)) \<and> maxSize ?rc = maxSize rc \<and> ttl ?rc = ttl rc \<and>
      (map_len (entries ?rc) = 0 \<or> Suc (map_len (entries ?rc)) \<le> map_len (entries rc))"
  proof (cases "entries rc = Map.empty")
    case True
    then have "ks = []" using ks by simp
    then show ?thesis using True by (simp add: cache_evictLRU_def)
  next
    case False
    from cache_evictLRU_removes[OF inv ks this] obtain k where
      k: "k \<in> dom (entries rc)" "entries ?rc = (entries rc)(k := None)" "maxSize ?rc = maxSize rc" "ttl ?rc = ttl rc"
      by blast
    with map_len_del[OF fin k(1)] fin show ?thesis by (auto simp: map_le_def)
  qed
  have len: "map_len ((entries ?rc)(key \<mapsto> e)) \<le> Suc (map_len (entries ?rc))" for e
    using sub by (simp add: map_len_upd_le)
  have "[] \<notin> dom (entries ?rc)" using sub inv map_le_implies_dom_le unfolding cache_inv_def by blast
  then have "cache_inv (cache_Put ks key node now now2 rc)"
    using True sub inv key len[of "\<lparr>EntryKey = key, EntryNode = node, ExpireTime = now + ttl rc, AccessTime = now2, HitCount = 0\<rparr>"]
    by (auto simp: cache_Put_def cache_inv_def Let_def)
  moreover have "route_contents (cache_Put ks key node now now2 rc) \<subseteq>\<^sub>m (route_contents rc)(key \<mapsto> (node, now + ttl rc))"
    using True sub by (force simp: cache_Put_def route_contents_def map_le_def Let_def)
  ultimately show ?thesis using True sub by (simp add: cache_Put_def Let_def)
qed

datatype route_op = RGet string time time
  | RPut "OptimizedRouteCache \<Rightarrow> string list" string nat time time | RCleanup time

fun route_step :: "route_op \<Rightarrow> OptimizedRouteCache \<Rightarrow> (OptimizedRouteCache \<times> nat option) option" where
  "route_step (RGet key now now2) rc = Some (cache_Get key now now2 rc)"
| "route_step (RPut env key node now now2) rc = Some (cache_Put (env rc) key node now now2 rc, None)"
| "route_step (RCleanup now) rc = Some (cache_Cleanup now rc, None)"

fun route_spec :: "duration \<Rightarrow> route_op \<Rightarrow> (string \<rightharpoonup> nat \<times> time) \<Rightarrow> (string \<rightharpoonup> nat \<times> time)" where
  "route_spec t (RPut env key node now now2) m = m(key \<mapsto> (node, now + t))"
| "route_spec t _ m = m"

fun route_query :: "route_op \<Rightarrow> (string \<times> time) option" where
  "route_query (RGet key now now2) = Some (key, now)"
| "route_query _ = None"

text \<open>Keys are not empty (\<open>generateKey_nonempty\<close>) and a \<^verbatim>\<open>range\<close> visits every key.\<close>

fun route_ok :: "route_op \<Rightarrow> bool" where
  "route_ok (RPut env key node now now2) =
     (key \<noteq> [] \<and> (\<forall>rc. finite (dom (entries rc)) \<longrightarrow> set (env rc) = dom (entries rc)))"
| "route_ok _ = True"

lemma show_hex_nonempty: "show_hex n \<noteq> []"
  by (subst show_hex.simps) auto

lemma generateKey_nonempty: "generateKey ord q \<noteq> []"
  by (simp add: generateKey_def show_hex_nonempty)

interpretation rcache: lossy_cache route_step "\<lambda>rc. cache_inv rc \<and> ttl rc = t" route_contents "route_spec t" route_query route_ok
  for t
proof
  fix rc op assume rc: "cache_inv rc \<and> ttl rc = t" and ok: "route_ok op"
  show "\<exists>rc' r. route_step op rc = Some (rc', r) \<and> (cache_inv rc' \<and> ttl rc' = t) \<and>
      route_contents rc' \<subseteq>\<^sub>m route_spec t op (route_contents rc)"
  proof (cases op)
    case (RGet key now now2)
    have "cache_inv (fst (cache_Get key now now2 rc)) \<and> ttl (fst (cache_Get key now now2 rc)) = t \<and>
        route_contents (fst (cache_Get key now now2 rc)) = route_contents rc"
      using rc by (auto simp: cache_Get_def cache_inv_def route_contents_def map_len_upd fun_eq_iff split: option.split)
    with RGet show ?thesis by (cases "cache_Get key now now2 rc") simp
  next
    case (RPut env key node now now2)
    with ok rc have "set (env rc) = dom (entries rc)" "key \<noteq> []" by (auto simp: cache_inv_def)
    with cache_Put_ok[of rc "env rc" key node now now2] rc RPut show ?thesis by simp
  next
    case (RCleanup now)
    have le: "map_len (filter_map P (entries rc)) \<le> map_len (entries rc)" for P
      using rc unfolding map_len_def cache_inv_def by (intro card_mono dom_filter_map) auto
    have "cache_inv (cache_Cleanup now rc)"
      using rc le[of "\<lambda>k e. \<not> now > ExpireTime e"] dom_filter_map[of "\<lambda>k e. \<not> now > ExpireTime e" "entries rc"]
      by (auto simp: cache_inv_def cache_Cleanup_def Let_def)
    moreover have "route_contents (cache_Cleanup now rc) \<subseteq>\<^sub>m route_contents rc"
      by (auto simp: route_contents_def cache_Cleanup_def Let_def map_le_def filter_map_Some)
    ultimately show ?thesis using rc RCleanup by (simp add: cache_Cleanup_def Let_def)
  qed
next
  fix rc op rc' v assume "cache_inv rc \<and> ttl rc = t" "route_ok op" and s: "route_step op rc = Some (rc', Some v)"
  then obtain key now now2 where g: "op = RGet key now now2" "cache_Get key now now2 rc = (rc', Some v)"
    by (cases op) auto
  then show "\<exists>k now e. route_query op = Some (k, now) \<and> route_contents rc k = Some (v, e) \<and> now \<le> e"
    by (auto simp: cache_Get_def route_contents_def split: option.splits if_splits)
next
  fix m m' :: "string \<rightharpoonup> nat \<times> time" and op assume "m \<subseteq>\<^sub>m m'"
  then show "route_spec t op m \<subseteq>\<^sub>m route_spec t op m'" by (cases op) (auto simp: map_le_def)
qed

text \<open>
  The route cache never invents a route: for any sequence of lookups, insertions and
  cleanups, every hit is the node put last under that key, within its time to live, and the
  cache never holds more than \<^verbatim>\<open>maxSize\<close> entries (one, if that is less).
\<close>

lemma route_cache_hits_are_current:
  assumes "\<forall>op\<in>set ops. route_ok op"
  shows "\<exists>rc rs. run_ops route_step ops (NewOptimizedRouteCache mx t) = Some (rc, rs) \<and>
           answers_ok (route_spec t) route_query ops Map.empty rs \<and> int (map_len (entries rc)) \<le> max 1 (maxSize rc)"
proof -
  have "cache_inv (NewOptimizedRouteCache mx t) \<and> ttl (NewOptimizedRouteCache mx t) = t"
    "route_contents (NewOptimizedRouteCache mx t) \<subseteq>\<^sub>m Map.empty"
    using cache_inv_New[of mx t] by (simp_all add: NewOptimizedRouteCache_def route_contents_def)
  from rcache.run_ops_refine[OF this assms] show ?thesis by (auto simp: cache_inv_def)
qed

lemma route_cache_hits_are_current_witness:
  "\<exists>rc rs. run_ops route_step [RGet ''a'' 0 0, RCleanup 3] (NewOptimizedRouteCache 5 10) = Some (rc, rs) \<and>
     int (map_len (entries rc)) \<le> max 1 (maxSize rc)"
  using route_cache_hits_are_current[of "[RGet ''a'' 0 0, RCleanup 3]" 5 10] by auto

section \<open>The router\<close>

record OptimizedRouterConfig =
  MaxConcurrency :: int
  RequestTimeout :: duration
  EnableLoadBalancing :: bool
  EnableCaching :: bool
  EnableFailover :: bool
  EnableMetrics :: bool
  HealthCheckInterval :: duration
  CacheSize :: int
  CacheTTL :: duration
  cfg_LoadBalanceStrategy :: LoadBalanceStrategy
  FailoverThreshold :: int
  MetricsInterval :: duration

record RouteResult =
  Node :: "nat option"
  Latency :: duration
  CacheHit :: bool
  Error :: bool          \<comment> \<open>the error ``no available nodes''\<close>
  Timestamp :: time

record OptimizedRouterMetrics =
  TotalRequests :: int
  SuccessfulRequests :: int
  FailedRequests :: int
  AverageLatency :: duration
  Throughput :: real
  LoadBalanceEfficiency :: real
  CacheHitRate :: rat
  RouteMatchTime :: duration
  NodeUtilization :: rat
  FailoverCount :: int
  LastUpdated :: time

record OptimizedRouter =
  or_config :: OptimizedRouterConfig
  multidimRouter :: MultidimensionalRouter
  loadBalancer :: LoadBalancer
  routeCache :: OptimizedRouteCache
  metrics :: OptimizedRouterMetrics
  nodes :: node_heap

definition NewOptimizedRouter :: "OptimizedRouterConfig \<Rightarrow> node_heap \<Rightarrow> time \<Rightarrow> OptimizedRouter" where
  "NewOptimizedRouter cfg h now = \<lparr>or_config = cfg, multidimRouter = NewMultidimensionalRouter,
     loadBalancer = NewLoadBalancer (cfg_LoadBalanceStrategy cfg), routeCache = NewOptimizedRouteCache (CacheSize cfg) (CacheTTL cfg),
     metrics = \<lparr>TotalRequests = 0, SuccessfulRequests = 0, FailedRequests = 0, AverageLatency = 0,
       Throughput = 0, LoadBalanceEfficiency = 0, CacheHitRate = 0, RouteMatchTime = 0, NodeUtilization = 0,
       FailoverCount = 0, LastUpdated = now\<rparr>, nodes = h\<rparr>"

definition AddNode :: "nat \<Rightarrow> OptimizedRouter \<Rightarrow> OptimizedRouter" where
  "AddNode a r = r\<lparr>loadBalancer := lb_AddNode (nodes r) a (loadBalancer r),
                   multidimRouter := md_AddNode (nodes r) a (multidimRouter r)\<rparr>"

definition RemoveNode :: "string \<Rightarrow> OptimizedRouter \<Rightarrow> OptimizedRouter" where
  "RemoveNode nodeID r = r\<lparr>loadBalancer := lb_RemoveNode (nodes r) nodeID (loadBalancer r),
                           multidimRouter := md_RemoveNode nodeID (multidimRouter r)\<rparr>"

text \<open>The orders and clock readings one request depends on.\<close>

record request_env =
  node_order :: "string list"       \<comment> \<open>range over the scores\<close>
  crit_order :: "string list"       \<comment> \<open>range over the criteria, in SelectNode\<close>
  key_order :: "string list"        \<comment> \<open>range over the criteria, in the Get key\<close>
  put_order :: "string list"        \<comment> \<open>the same, in the Put key\<close>
  entry_order :: "string list"      \<comment> \<open>range over the cache entries\<close>
  t_start :: time
  t_get :: time
  t_select :: time
  t_done :: time
  t_put :: time

definition selectNode :: "request_env \<Rightarrow> RouteRequest \<Rightarrow> OptimizedRouter \<Rightarrow> OptimizedRouter selection" where
  "selectNode env q r =
     (let ((md, h), sel) = (if Criteria q = Map.empty then ((multidimRouter r, nodes r), None)
            else md_SelectNode (node_order env) (map (\<lambda>d. (d, the (Criteria q d))) (crit_order env)) (multidimRouter r, nodes r));
          r = r\<lparr>multidimRouter := md, nodes := h\<rparr>
      in case sel of Some a \<Rightarrow> Some (r, Some a)
         | None \<Rightarrow> map_option (\<lambda>(lb, res). (r\<lparr>loadBalancer := lb\<rparr>, res))
                     (lb_SelectNode (nodes r) (Path q) (t_select env) (loadBalancer r)))"

definition processRequest :: "request_env \<Rightarrow> RouteRequest \<Rightarrow> OptimizedRouter \<Rightarrow> (OptimizedRouter \<times> RouteResult) option" where
  "processRequest env q r =
     (let caching = EnableCaching (or_config r);
          (rc, cached) = (if caching then cache_Get (generateKey (key_order env) q) (t_get env) (t_get env) (routeCache r)
                          else (routeCache r, None));
          r = r\<lparr>routeCache := rc\<rparr>
      in case cached of
           Some a \<Rightarrow> Some (r, \<lparr>Node = Some a, Latency = t_done env - t_start env, CacheHit = True, Error = False, Timestamp = t_start env\<rparr>)
         | None \<Rightarrow> (case selectNode env q r of
               None \<Rightarrow> None
             | Some (r, None) \<Rightarrow> Some (r, \<lparr>Node = None, Latency = 0, CacheHit = False, Error = True, Timestamp = t_start env\<rparr>)
             | Some (r, Some a) \<Rightarrow>
                 (let r = (if caching then r\<lparr>routeCache := cache_Put (entry_order env) (generateKey (put_order env) q) a
                                                (t_put env) (t_put env) (routeCache r)\<rparr> else r)
                  in Some (r, \<lparr>Node = Some a, Latency = t_done env - t_start env, CacheHit = False, Error = False, Timestamp = t_start env\<rparr>))))"

definition updateMetrics :: "RouteResult \<Rightarrow> time \<Rightarrow> OptimizedRouter \<Rightarrow> OptimizedRouter" where
  "updateMetrics res now r =
     (let m = metrics r; n = TotalRequests m + 1;
          m = m\<lparr>TotalRequests := n,
                SuccessfulRequests := SuccessfulRequests m + (if Error res then 0 else 1),
                FailedRequests := FailedRequests m + (if Error res then 1 else 0)\<rparr>;
          m = (if n > 0 then m\<lparr>AverageLatency := go_quot (AverageLatency m * (n - 1) + Latency res) n\<rparr> else m);
          rc = (if CacheHit res then (routeCache r)\<lparr>hits := hits (routeCache r) + 1\<rparr>
                else (routeCache r)\<lparr>misses := misses (routeCache r) + 1\<rparr>);
          m = (if hits rc + misses rc > 0 then m\<lparr>CacheHitRate := of_int (hits rc) / of_int (hits rc + misses rc)\<rparr> else m)
      in r\<lparr>metrics := m\<lparr>LastUpdated := now\<rparr>, routeCache := rc\<rparr>)"

definition performHealthCheck :: "time \<Rightarrow> OptimizedRouter \<Rightarrow> OptimizedRouter" where
  "performHealthCheck now r =
     (let (h, f) = lb_performHealthCheck (FailoverThreshold (or_config r)) now (loadBalancer r) (nodes r, FailoverCount (metrics r))
      in r\<lparr>nodes := h, metrics := (metrics r)\<lparr>FailoverCount := f\<rparr>\<rparr>)"

definition calculateNodeUtilization :: "OptimizedRouter \<Rightarrow> OptimizedRouter" where
  "calculateNodeUtilization r = (let ns = GetNodes (loadBalancer r); h = nodes r in
     r\<lparr>metrics := (metrics r)\<lparr>NodeUtilization := (if ns = [] then 0
        else sum_list (map (\<lambda>a. if Capacity (h a) > 0 then of_int (Load (h a)) / of_int (Capacity (h a)) else 0) ns)
             / of_nat (length ns))\<rparr>\<rparr>)"

text \<open>One minus the standard deviation of the loads over their mean, at least 0.\<close>

definition load_variance :: "real list \<Rightarrow> real" where
  "load_variance xs = (let mean = sum_list xs / length xs in sum_list (map (\<lambda>x. (x - mean) * (x - mean)) xs) / length xs)"

definition calculateLoadBalanceEfficiency :: "OptimizedRouter \<Rightarrow> OptimizedRouter" where
  "calculateLoadBalanceEfficiency r = (let loads = map (\<lambda>a. of_int (Load (nodes r a))) (GetNodes (loadBalancer r));
       mean = sum_list loads / length loads
     in r\<lparr>metrics := (metrics r)\<lparr>LoadBalanceEfficiency := (if loads = [] then 0
          else if mean > 0 then max 0 (1 - sqrt (load_variance loads) / mean) else 1)\<rparr>\<rparr>)"

text \<open>\<^verbatim>\<open>LastUpdated\<close> is set when the router is made, so that it is never the zero time.\<close>

definition calculateMetrics :: "time \<Rightarrow> time \<Rightarrow> OptimizedRouter \<Rightarrow> OptimizedRouter" where
  "calculateMetrics now now2 r =
     (let m = metrics r; dur = of_int (now - LastUpdated m) / of_int second;
          m = (if dur > 0 then m\<lparr>Throughput := of_int (TotalRequests m) / dur\<rparr> else m);
          r = calculateNodeUtilization (calculateLoadBalanceEfficiency (r\<lparr>metrics := m\<rparr>))
      in r\<lparr>metrics := (metrics r)\<lparr>LastUpdated := now2\<rparr>\<rparr>)"

definition UpdateConfig :: "OptimizedRouterConfig \<Rightarrow> OptimizedRouter \<Rightarrow> OptimizedRouter" where
  "UpdateConfig cfg r = r\<lparr>or_config := cfg\<rparr>"

section \<open>Properties of the router\<close>

lemma cache_Get_after_Put:
  "now' \<le> now + ttl rc \<Longrightarrow> snd (cache_Get key now' t (cache_Put ks key a now now2 rc)) = Some a"
proof -
  have "ttl (cache_evictLRU ks rc) = ttl rc" by (simp add: cache_evictLRU_def Let_def)
  then show "now' \<le> now + ttl rc \<Longrightarrow> ?thesis" by (simp add: cache_Get_def cache_Put_def Let_def)
qed

lemma selectNode_cache: "selectNode env q r = Some (r', res) \<Longrightarrow> routeCache r' = routeCache r \<and> or_config r' = or_config r"
  by (auto simp: selectNode_def Let_def case_prod_beta split: option.splits)

lemma cache_Get_ttl [simp]: "ttl (fst (cache_Get key now t rc)) = ttl rc"
  by (simp add: cache_Get_def split: option.split)

text \<open>
  With caching on, a route once computed is answered from the cache for its whole time to
  live, whatever happens to its node: the same request still gets the node after it was
  removed from the router, marked unhealthy or changed in any other way.
\<close>

lemma cached_route_survives_removal:
  assumes "EnableCaching (or_config r)" and "processRequest env q r = Some (r1, res1)"
    and "Node res1 = Some a" and "\<not> CacheHit res1"
    and "generateKey (key_order env') q = generateKey (put_order env) q"
    and "t_get env' \<le> t_put env + ttl (routeCache r)"
  shows "\<exists>r2 res2. processRequest env' q ((RemoveNode nodeID r1)\<lparr>nodes := h\<rparr>) = Some (r2, res2) \<and>
           Node res2 = Some a \<and> CacheHit res2"
proof -
  let ?k = "generateKey (put_order env) q"
  let ?rc = "fst (cache_Get (generateKey (key_order env) q) (t_get env) (t_get env) (routeCache r))"
  have "snd (cache_Get (generateKey (key_order env) q) (t_get env) (t_get env) (routeCache r)) = None"
    using assms(1-4) by (auto simp: processRequest_def Let_def case_prod_beta split: option.splits)
  with assms(1-4) obtain r' where sel: "selectNode env q (r\<lparr>routeCache := ?rc\<rparr>) = Some (r', Some a)"
    and r1: "r1 = r'\<lparr>routeCache := cache_Put (entry_order env) ?k a (t_put env) (t_put env) (routeCache r')\<rparr>"
    by (auto simp: processRequest_def Let_def case_prod_beta split: option.splits)
  have r': "routeCache r' = ?rc" "or_config r' = or_config r" using selectNode_cache[OF sel] by simp_all
  let ?r2 = "(RemoveNode nodeID r1)\<lparr>nodes := h\<rparr>"
  have "routeCache ?r2 = cache_Put (entry_order env) ?k a (t_put env) (t_put env) ?rc"
    "or_config ?r2 = or_config r" by (simp_all add: RemoveNode_def r1 r')
  moreover from this(1) have "snd (cache_Get ?k (t_get env') (t_get env') (routeCache ?r2)) = Some a"
    using cache_Get_after_Put assms(6) by simp
  ultimately show ?thesis using assms(1,5) by (simp add: processRequest_def Let_def case_prod_beta)
qed

definition demo_env :: request_env where
  "demo_env = \<lparr>node_order = [], crit_order = [], key_order = [], put_order = [], entry_order = [],
     t_start = 0, t_get = 0, t_select = 0, t_done = 1, t_put = 1\<rparr>"

definition demo_router :: OptimizedRouter where
  "demo_router = AddNode 1 (NewOptimizedRouter \<lparr>MaxConcurrency = 2, RequestTimeout = 30 * second,
     EnableLoadBalancing = True, EnableCaching = True, EnableFailover = True, EnableMetrics = True,
     HealthCheckInterval = 10 * second, CacheSize = 10, CacheTTL = 60, cfg_LoadBalanceStrategy = RoundRobin,
     FailoverThreshold = 3, MetricsInterval = 30 * second\<rparr> demo_heap 0)"

definition demo_request :: RouteRequest where
  "demo_request = \<lparr>ReqID = 0, Method = ''GET'', Path = ''/a'', Criteria = Map.empty\<rparr>"

lemma demo_processed: "\<exists>r1 res1. processRequest demo_env demo_request demo_router = Some (r1, res1) \<and>
   Node res1 = Some 1 \<and> \<not> CacheHit res1"
  by (simp add: processRequest_def demo_env_def demo_request_def demo_router_def AddNode_def NewOptimizedRouter_def
      NewOptimizedRouteCache_def cache_Get_def selectNode_def lb_AddNode_def NewLoadBalancer_def lb_SelectNode_def
      getHealthyNodes_def demo_heap_def demo_node_def lb_selectRoundRobin_def go_rem_def Let_def)

lemma cached_route_survives_removal_witness:
  "\<exists>r1 res1 r2 res2. processRequest demo_env demo_request demo_router = Some (r1, res1) \<and>
     processRequest demo_env demo_request ((RemoveNode ''b'' r1)\<lparr>nodes := demo_heap\<rparr>) = Some (r2, res2) \<and>
     Node res2 = Some 1 \<and> CacheHit res2"
proof -
  obtain r1 res1 where p: "processRequest demo_env demo_request demo_router = Some (r1, res1)"
    "Node res1 = Some 1" "\<not> CacheHit res1" using demo_processed by blast
  have "EnableCaching (or_config demo_router)" "t_get demo_env \<le> t_put demo_env + ttl (routeCache demo_router)"
    "generateKey (key_order demo_env) demo_request = generateKey (put_order demo_env) demo_request"
    by (simp_all add: demo_router_def AddNode_def NewOptimizedRouter_def demo_env_def NewOptimizedRouteCache_def)
  from cached_route_survives_removal[OF this(1) p this(3,2)] p show ?thesis by blast
qed

text \<open>
  The metrics count each request once but its cache lookup twice, once in the cache and once
  more in \<^verbatim>\<open>updateMetrics\<close>.
\<close>

lemma cache_lookups_counted_twice:
  assumes "EnableCaching (or_config r)" and "processRequest env q r = Some (r1, res)"
  shows "hits (routeCache (updateMetrics res now r1)) + misses (routeCache (updateMetrics res now r1)) =
           hits (routeCache r) + misses (routeCache r) + 2 \<and>
         hits (routeCache (updateMetrics res now r1)) = hits (routeCache r) + (if CacheHit res then 2 else 0) \<and>
         TotalRequests (metrics (updateMetrics res now r1)) = TotalRequests (metrics r) + 1"
proof -
  let ?g = "cache_Get (generateKey (key_order env) q) (t_get env) (t_get env) (routeCache r)"
  have put: "hits (cache_Put ks k a n n' rc) = hits rc" "misses (cache_Put ks k a n n' rc) = misses rc" for ks k a n n' rc
    by (simp_all add: cache_Put_def cache_evictLRU_def Let_def)
  have get: "hits (fst ?g) = hits (routeCache r) + (if snd ?g = None then 0 else 1)"
    "misses (fst ?g) = misses (routeCache r) + (if snd ?g = None then 1 else 0)"
    by (simp_all add: cache_Get_def split: option.split)
  have "metrics r1 = metrics r \<and> (routeCache r1 = fst ?g \<and> CacheHit res \<and> snd ?g \<noteq> None \<or>
      hits (routeCache r1) = hits (fst ?g) \<and> misses (routeCache r1) = misses (fst ?g) \<and> \<not> CacheHit res \<and> snd ?g = None)"
  proof (cases "snd ?g")
    case (Some a)
    with assms show ?thesis by (auto simp: processRequest_def Let_def case_prod_beta)
  next
    case None
    from assms None obtain r' sel where s: "selectNode env q (r\<lparr>routeCache := fst ?g\<rparr>) = Some (r', sel)"
      by (auto simp: processRequest_def Let_def case_prod_beta split: option.splits)
    have "metrics r' = metrics r" using s by (auto simp: selectNode_def Let_def case_prod_beta split: option.splits)
    moreover have "routeCache r' = fst ?g" using selectNode_cache[OF s] by simp
    ultimately show ?thesis using assms None s put
      by (cases sel) (auto simp: processRequest_def Let_def case_prod_beta)
  qed
  then show ?thesis using get by (auto simp: updateMetrics_def Let_def)
qed

lemma cache_lookups_counted_twice_witness:
  "\<exists>r1 res. processRequest demo_env demo_request demo_router = Some (r1, res) \<and>
     misses (routeCache (updateMetrics res 1 r1)) = 2 \<and> TotalRequests (metrics (updateMetrics res 1 r1)) = 1"
proof -
  obtain r1 res where p: "processRequest demo_env demo_request demo_router = Some (r1, res)" "\<not> CacheHit res"
    using demo_processed by blast
  have e: "EnableCaching (or_config demo_router)" "hits (routeCache demo_router) = 0" "misses (routeCache demo_router) = 0"
    "TotalRequests (metrics demo_router) = 0"
    by (simp_all add: demo_router_def AddNode_def NewOptimizedRouter_def NewOptimizedRouteCache_def)
  from cache_lookups_counted_twice[OF e(1) p(1), of 1] p e show ?thesis by auto
qed

text \<open>The efficiency is between 0 and 1, and 1 exactly when every node has the same load.\<close>

lemma load_variance_0_iff: "xs \<noteq> [] \<Longrightarrow> load_variance xs = 0 \<longleftrightarrow> (\<forall>x\<in>set xs. x = sum_list xs / length xs)"
proof -
  have "sum_list (map (\<lambda>x. (x - m) * (x - m)) xs) = 0 \<longleftrightarrow> (\<forall>x\<in>set xs. x = m)" for m :: real and xs
    by (subst sum_list_nonneg_eq_0_iff) auto
  then show "xs \<noteq> [] \<Longrightarrow> ?thesis" by (simp add: load_variance_def Let_def)
qed

lemma load_variance_nonneg: "0 \<le> load_variance xs"
  by (auto simp: load_variance_def Let_def intro!: divide_nonneg_nonneg sum_list_nonneg)

lemma efficiency_is_balance:
  fixes now now2 :: time
  assumes "GetNodes (loadBalancer r) \<noteq> []" and "\<forall>a\<in>set (GetNodes (loadBalancer r)). 0 < Load (nodes r a)"
  defines "e \<equiv> LoadBalanceEfficiency (metrics (calculateMetrics now now2 r))"
  shows "0 \<le> e \<and> e \<le> 1 \<and>
    (e = 1 \<longleftrightarrow> (\<exists>l. \<forall>a\<in>set (GetNodes (loadBalancer r)). Load (nodes r a) = l))"
proof -
  let ?ns = "GetNodes (loadBalancer r)"
  define xs :: "real list" where "xs = map (\<lambda>a. of_int (Load (nodes r a))) ?ns"
  define m where "m = sum_list xs / length xs"
  have xs: "xs \<noteq> []" "\<forall>x\<in>set xs. 0 < x" using assms(1,2) by (auto simp: xs_def)
  have "0 < sum_list xs"
  proof (cases xs)
    case (Cons y ys)
    moreover have "0 \<le> sum_list ys" using xs(2) Cons by (intro sum_list_nonneg) (simp add: less_imp_le)
    ultimately show ?thesis using xs(2) by simp
  qed (use xs(1) in simp)
  then have m: "0 < m" using xs(1) by (simp add: m_def)
  have e: "e = max 0 (1 - sqrt (load_variance xs) / m)"
    using xs(1) m by (simp add: e_def calculateMetrics_def calculateNodeUtilization_def calculateLoadBalanceEfficiency_def
      Let_def xs_def m_def)
  have s: "0 \<le> sqrt (load_variance xs) / m" using m load_variance_nonneg by simp
  have "e = 1 \<longleftrightarrow> (\<forall>x\<in>set xs. x = m)"
    using e s m load_variance_0_iff[OF xs(1)] by (auto simp: m_def max_def)
  also have "\<dots> \<longleftrightarrow> (\<exists>l. \<forall>x\<in>set xs. x = real_of_int l)"
  proof
    assume a: "\<forall>x\<in>set xs. x = m"
    obtain b bs where "?ns = b # bs" using assms(1) by (cases ?ns) auto
    then have "m = real_of_int (Load (nodes r b))" using a by (simp add: xs_def)
    with a show "\<exists>l. \<forall>x\<in>set xs. x = real_of_int l" by metis
  next
    assume "\<exists>l. \<forall>x\<in>set xs. x = real_of_int l"
    then obtain l where l: "\<forall>x\<in>set xs. x = real_of_int l" by blast
    then have "xs = replicate (length xs) (real_of_int l)" by (simp add: list_eq_iff_nth_eq)
    then have "sum_list xs = length xs * real_of_int l" by (metis sum_list_replicate of_nat_mult)
    then have "m = real_of_int l" using xs(1) by (simp add: m_def)
    with l show "\<forall>x\<in>set xs. x = m" by simp
  qed
  finally show ?thesis using e s by (auto simp: xs_def)
qed

section \<open>Callers and workers\<close>

text \<open>
  \<^verbatim>\<open>RouteRequest\<close> puts the request on one channel and takes any result from the other. A
  request is named by its number; a caller is named by its request. \<open>got\<close> pairs a caller with
  the request whose result it was given.
\<close>

record channels =
  requestQueue :: "nat list"
  working :: "nat list"
  resultQueue :: "nat list"
  waiting :: "nat list"
  got :: "(nat \<times> nat) list"
  next_req :: nat

definition idle_channels :: channels where
  "idle_channels = \<lparr>requestQueue = [], working = [], resultQueue = [], waiting = [], got = [], next_req = 0\<rparr>"

text \<open>\<open>n\<close> is \<^verbatim>\<open>MaxConcurrency\<close>: so many workers, and channels of twice that capacity.\<close>

inductive chan_step :: "nat \<Rightarrow> channels \<Rightarrow> channels \<Rightarrow> bool" for n where
  submit: "length (requestQueue s) < 2 * n \<Longrightarrow>
     chan_step n s (s\<lparr>requestQueue := requestQueue s @ [next_req s], waiting := next_req s # waiting s,
                       next_req := next_req s + 1\<rparr>)"
| submit_timeout: "chan_step n s (s\<lparr>next_req := next_req s + 1\<rparr>)"
| take: "requestQueue s = q # qs \<Longrightarrow> length (working s) < n \<Longrightarrow>
     chan_step n s (s\<lparr>requestQueue := qs, working := q # working s\<rparr>)"
| finish: "q \<in> set (working s) \<Longrightarrow> length (resultQueue s) < 2 * n \<Longrightarrow>
     chan_step n s (s\<lparr>working := remove1 q (working s), resultQueue := resultQueue s @ [q]\<rparr>)"
| receive: "c \<in> set (waiting s) \<Longrightarrow> resultQueue s = q # qs \<Longrightarrow>
     chan_step n s (s\<lparr>waiting := remove1 c (waiting s), resultQueue := qs, got := (c, q) # got s\<rparr>)"
| result_timeout: "c \<in> set (waiting s) \<Longrightarrow> chan_step n s (s\<lparr>waiting := remove1 c (waiting s)\<rparr>)"

inductive_cases chan_stepE: "chan_step n s s'"

definition chan_inv :: "nat \<Rightarrow> channels \<Rightarrow> bool" where
  "chan_inv n s \<longleftrightarrow>
     distinct (requestQueue s @ working s @ resultQueue s @ map snd (got s)) \<and>
     distinct (waiting s @ map fst (got s)) \<and>
     (\<forall>q\<in>set (requestQueue s @ working s @ resultQueue s @ map snd (got s) @ waiting s @ map fst (got s)). q < next_req s) \<and>
     length (requestQueue s) \<le> 2 * n \<and> length (working s) \<le> n \<and> length (resultQueue s) \<le> 2 * n"

lemma chan_inv_step [inv_intros]: "chan_step n s s' \<Longrightarrow> chan_inv n s \<Longrightarrow> chan_inv n s'"
proof (induction rule: chan_step.induct)
  case (finish q s)
  then have "set (remove1 q (working s)) = set (working s) - {q}" "length (remove1 q (working s)) \<le> length (working s)"
    by (auto simp: chan_inv_def length_remove1)
  with finish show ?case by (auto simp: chan_inv_def)
next
  case (receive c s q qs)
  then have "set (remove1 c (waiting s)) = set (waiting s) - {c}" by (auto simp: chan_inv_def)
  with receive show ?case by (auto simp: chan_inv_def)
next
  case (result_timeout c s)
  then have "set (remove1 c (waiting s)) = set (waiting s) - {c}" by (auto simp: chan_inv_def)
  with result_timeout show ?case by (auto simp: chan_inv_def)
qed (auto simp: chan_inv_def less_Suc_eq)


text \<open>
  But nothing ties a result to its caller. One caller whose wait for a result timed out
  leaves its result on the channel, and the next call, made after it returned, is given that
  result: the route of another request.
\<close>

lemma result_of_another_request:
  "\<exists>s. (chan_step 1)\<^sup>*\<^sup>* idle_channels s \<and> got s = [(1, 0)] \<and> waiting s = [] \<and> requestQueue s = [1]"
proof -
  let ?s1 = "idle_channels\<lparr>requestQueue := [0], waiting := [0], next_req := 1\<rparr>"
  let ?s2 = "?s1\<lparr>requestQueue := [], working := [0]\<rparr>"
  let ?s3 = "?s2\<lparr>waiting := []\<rparr>"
  let ?s4 = "?s3\<lparr>working := [], resultQueue := [0]\<rparr>"
  let ?s5 = "?s4\<lparr>requestQueue := [1], waiting := [1], next_req := 2\<rparr>"
  let ?s6 = "?s5\<lparr>waiting := [], resultQueue := [], got := [(1, 0)]\<rparr>"
  have "chan_step 1 idle_channels ?s1" using chan_step.submit[of idle_channels 1] by (simp add: idle_channels_def)
  moreover have "chan_step 1 ?s1 ?s2" using chan_step.take[of ?s1 0 "[]" 1] by (simp add: idle_channels_def)
  moreover have "chan_step 1 ?s2 ?s3" using chan_step.result_timeout[of 0 ?s2 1] by (simp add: idle_channels_def)
  moreover have "chan_step 1 ?s3 ?s4" using chan_step.finish[of 0 ?s3 1] by (simp add: idle_channels_def)
  moreover have "chan_step 1 ?s4 ?s5" using chan_step.submit[of ?s4 1] by (simp add: idle_channels_def numeral_2_eq_2)
  moreover have "chan_step 1 ?s5 ?s6" using chan_step.receive[of 1 ?s5 0 "[]" 1] by (simp add: idle_channels_def)
  ultimately have "(chan_step 1)\<^sup>*\<^sup>* idle_channels ?s6" by (meson rtranclp.rtrancl_refl rtranclp.rtrancl_into_rtrancl)
  then show ?thesis by (intro exI[of _ ?s6]) (simp add: idle_channels_def)
qed


end
