(* ===== verification/Message_Bus.thy ===== *)
theory Message_Bus
  imports Prelude
begin

text \<open>
  \<^verbatim>\<open>core/bus/enhanced_message_bus.go\<close>: the priority queue, the partitioned router, the message
  store, and the bus with its connections, subscriptions, retries and events. A connection is an
  implementation of the \<^verbatim>\<open>Connection\<close> interface that is not part of the code, so whether it is
  active and how its successive \<^verbatim>\<open>Send\<close>s end are arguments; so are \<^verbatim>\<open>json.Marshal\<close> of a
  payload, the random identifiers and the clock. An \<^verbatim>\<open>error\<close> result is the left side of a sum.
\<close>

section \<open>Messages\<close>

datatype payload = RawBytes bytes | Opaque nat

record Message =
  ID :: string
  Topic :: string
  Payload :: payload
  Timestamp :: "time option"      \<comment> \<open>\<open>None\<close>: the zero time\<close>
  Priority :: int
  DeliveryMode :: int
  PartitionKey :: string
  Compressed :: bool
  Checksum :: string

definition PriorityLow :: int where "PriorityLow = 0"
definition PriorityNormal :: int where "PriorityNormal = 1"
definition DeliveryModeAtMostOnce :: int where "DeliveryModeAtMostOnce = 0"
definition DeliveryModeAtLeastOnce :: int where "DeliveryModeAtLeastOnce = 1"

datatype bus_error = QueueEmpty | MessageNotFound | MaxConnections | ConnectionNotFound | SubscriptionNotFound
  | CtxDone | SendFailed int | HandlerError | BroadcastFailed nat | RoutingFailed nat

section \<open>Priority queue\<close>

text \<open>The array of four queues, lowest priority first.\<close>

record PriorityMessageQueue =
  queues :: "Message list list"
  qsize :: int

definition NewPriorityMessageQueue :: PriorityMessageQueue where
  "NewPriorityMessageQueue = \<lparr>queues = replicate 4 [], qsize = 0\<rparr>"

definition queue_index :: "Message \<Rightarrow> nat" where
  "queue_index m = nat (if Priority m < 0 \<or> Priority m > 3 then 1 else Priority m)"

definition Enqueue :: "Message \<Rightarrow> PriorityMessageQueue \<Rightarrow> PriorityMessageQueue" where
  "Enqueue m q = (let p = queue_index m in
     q\<lparr>queues := (queues q)[p := queues q ! p @ [m]], qsize := qsize q + 1\<rparr>)"

text \<open>The loop from priority \<open>p\<close> down to 0.\<close>

fun first_nonempty :: "Message list list \<Rightarrow> nat list \<Rightarrow> nat option" where
  "first_nonempty qs [] = None"
| "first_nonempty qs (p # ps) = (if qs ! p \<noteq> [] then Some p else first_nonempty qs ps)"

definition Dequeue :: "PriorityMessageQueue \<Rightarrow> PriorityMessageQueue \<times> (bus_error + Message)" where
  "Dequeue q = (case first_nonempty (queues q) [3, 2, 1, 0] of
     None \<Rightarrow> (q, Inl QueueEmpty)
   | Some p \<Rightarrow> (q\<lparr>queues := (queues q)[p := tl (queues q ! p)], qsize := qsize q - 1\<rparr>, Inr (hd (queues q ! p))))"

definition Peek :: "PriorityMessageQueue \<Rightarrow> bus_error + Message" where
  "Peek q = (case first_nonempty (queues q) [3, 2, 1, 0] of
     None \<Rightarrow> Inl QueueEmpty | Some p \<Rightarrow> Inr (hd (queues q ! p)))"

definition Size :: "PriorityMessageQueue \<Rightarrow> int" where "Size q = qsize q"

definition Clear :: "PriorityMessageQueue \<Rightarrow> PriorityMessageQueue" where
  "Clear q = q\<lparr>queues := map (\<lambda>_. []) (queues q), qsize := 0\<rparr>"

section \<open>Partitions\<close>

definition HashPartition :: "Message \<Rightarrow> int \<Rightarrow> int" where
  "HashPartition m n = (if n \<le> 0 then 0
     else uint (fnv32a (bytes_of (if PartitionKey m = [] then Topic m else PartitionKey m))) mod n)"

record MessageRouter =
  partitions :: "PriorityMessageQueue list"

text \<open>\<^verbatim>\<open>make\<close> of a negative length panics.\<close>

definition NewMessageRouter :: "int \<Rightarrow> MessageRouter option" where
  "NewMessageRouter n = (if n < 0 then None else Some \<lparr>partitions = replicate (nat n) NewPriorityMessageQueue\<rparr>)"

definition Route :: "Message \<Rightarrow> MessageRouter \<Rightarrow> MessageRouter option" where
  "Route m r = (let i = HashPartition m (int (length (partitions r))) in
     if i < int (length (partitions r))
     then Some (r\<lparr>partitions := (partitions r)[nat i := Enqueue m (partitions r ! nat i)]\<rparr>) else None)"

definition GetPartition :: "int \<Rightarrow> MessageRouter \<Rightarrow> PriorityMessageQueue option" where
  "GetPartition i r = (if 0 \<le> i \<and> i < int (length (partitions r)) then Some (partitions r ! nat i) else None)"

section \<open>Store\<close>

type_synonym MessageStore = "string \<rightharpoonup> Message"

definition Store :: "Message \<Rightarrow> MessageStore \<Rightarrow> MessageStore" where
  "Store m s = s(ID m \<mapsto> m)"

definition Retrieve :: "string \<Rightarrow> MessageStore \<Rightarrow> bus_error + Message" where
  "Retrieve i s = (case s i of None \<Rightarrow> Inl MessageNotFound | Some m \<Rightarrow> Inr m)"

definition Delete :: "string \<Rightarrow> MessageStore \<Rightarrow> MessageStore" where
  "Delete i s = s(i := None)"

text \<open>\<open>ks\<close>: the keys in the order of the \<^verbatim>\<open>range\<close>; \<open>n\<close> messages found so far.\<close>

fun by_topic :: "string \<Rightarrow> int \<Rightarrow> MessageStore \<Rightarrow> int \<Rightarrow> string list \<Rightarrow> Message list" where
  "by_topic topic limit s n [] = []"
| "by_topic topic limit s n (k # ks) = (case s k of
     None \<Rightarrow> by_topic topic limit s n ks
   | Some m \<Rightarrow> if Topic m = topic
       then m # (if limit > 0 \<and> n + 1 \<ge> limit then [] else by_topic topic limit s (n + 1) ks)
       else by_topic topic limit s n ks)"

definition GetByTopic :: "string \<Rightarrow> int \<Rightarrow> string list \<Rightarrow> MessageStore \<Rightarrow> Message list" where
  "GetByTopic topic limit ks s = by_topic topic limit s 0 ks"

definition before_time :: "time option \<Rightarrow> time \<Rightarrow> bool" where
  "before_time t b = (case t of None \<Rightarrow> True | Some x \<Rightarrow> x < b)"

definition Cleanup :: "time \<Rightarrow> MessageStore \<Rightarrow> MessageStore" where
  "Cleanup before s = filter_map (\<lambda>_ m. \<not> before_time (Timestamp m) before) s"

section \<open>The bus\<close>

text \<open>A connection is a number; its filter and handler are functions of the subscriber.\<close>

record Subscription =
  SubID :: string
  SubTopic :: string
  ConnectionID :: string
  Filter :: "(Message \<Rightarrow> bool) option"
  Handler :: "(Message \<Rightarrow> bool) option"   \<comment> \<open>returns nil\<close>
  Active :: bool

record BusMetrics =
  MessagesPublished :: int
  MessagesDelivered :: int
  MessagesFailed :: int
  ActiveConnections :: int
  ActiveSubscriptions :: int
  EventsPublished :: int
  EventsDelivered :: int

record bus =
  connections :: "string \<rightharpoonup> nat"
  subscriptions :: "string \<rightharpoonup> Subscription"
  topicSubs :: "string \<rightharpoonup> string list"
  store :: MessageStore
  busMetrics :: BusMetrics
  eventSubscriptions :: "string \<rightharpoonup> (string \<rightharpoonup> nat)"
  maxConnections :: int
  retryAttempts :: int
  compressionEnabled :: bool

definition NewEnhancedMessageBus :: "int \<Rightarrow> int \<Rightarrow> bool \<Rightarrow> MessageStore \<Rightarrow> bus" where
  "NewEnhancedMessageBus maxConn retry compress st = \<lparr>connections = Map.empty, subscriptions = Map.empty,
     topicSubs = Map.empty, store = st,
     busMetrics = \<lparr>MessagesPublished = 0, MessagesDelivered = 0, MessagesFailed = 0, ActiveConnections = 0,
       ActiveSubscriptions = 0, EventsPublished = 0, EventsDelivered = 0\<rparr>,
     eventSubscriptions = Map.empty, maxConnections = maxConn, retryAttempts = retry, compressionEnabled = compress\<rparr>"

definition RegisterConnection :: "string \<Rightarrow> nat \<Rightarrow> bus \<Rightarrow> bus \<times> bus_error option" where
  "RegisterConnection connID conn b =
     (if int (map_len (connections b)) \<ge> maxConnections b then (b, Some MaxConnections)
      else (b\<lparr>connections := (connections b)(connID \<mapsto> conn)\<rparr>, None))"

definition addSubscriptionToTopic :: "string \<Rightarrow> string \<Rightarrow> bus \<Rightarrow> bus" where
  "addSubscriptionToTopic topic subID b = (case topicSubs b topic of
     Some subs \<Rightarrow> b\<lparr>topicSubs := (topicSubs b)(topic \<mapsto> subs @ [subID])\<rparr>
   | None \<Rightarrow> b\<lparr>topicSubs := (topicSubs b)(topic \<mapsto> [subID])\<rparr>)"

definition removeSubscriptionFromTopic :: "string \<Rightarrow> string \<Rightarrow> bus \<Rightarrow> bus" where
  "removeSubscriptionFromTopic topic subID b = (case topicSubs b topic of
     None \<Rightarrow> b
   | Some subs \<Rightarrow> (let subs = remove_first (\<lambda>i. i = subID) subs
       in if subs = [] then b\<lparr>topicSubs := (topicSubs b)(topic := None)\<rparr>
          else b\<lparr>topicSubs := (topicSubs b)(topic \<mapsto> subs)\<rparr>))"

definition drop_subscription :: "string \<Rightarrow> Subscription \<Rightarrow> bus \<Rightarrow> bus" where
  "drop_subscription subID sub b = (let b = removeSubscriptionFromTopic (SubTopic sub) subID b
     in b\<lparr>subscriptions := (subscriptions b)(subID := None)\<rparr>)"

text \<open>The loop over the subscriptions (\<open>ks\<close>: in \<^verbatim>\<open>range\<close> order) that drops those of a connection.\<close>

fun drop_subscriptions_of :: "string \<Rightarrow> string list \<Rightarrow> bus \<Rightarrow> bus" where
  "drop_subscriptions_of connID [] b = b"
| "drop_subscriptions_of connID (k # ks) b = drop_subscriptions_of connID ks (case subscriptions b k of
     None \<Rightarrow> b | Some sub \<Rightarrow> if ConnectionID sub = connID then drop_subscription k sub b else b)"

definition UnregisterConnection :: "string \<Rightarrow> string list \<Rightarrow> bus \<Rightarrow> bus" where
  "UnregisterConnection connID ks b =
     drop_subscriptions_of connID ks (b\<lparr>connections := (connections b)(connID := None)\<rparr>)"

definition sub_id :: "string \<Rightarrow> string \<Rightarrow> time \<Rightarrow> string" where
  "sub_id connID topic now = connID @ ''_'' @ topic @ ''_'' @ show_int now"

definition Subscribe :: "string \<Rightarrow> string \<Rightarrow> (Message \<Rightarrow> bool) option \<Rightarrow> (Message \<Rightarrow> bool) option \<Rightarrow> time \<Rightarrow> bus \<Rightarrow>
    bus \<times> (bus_error + string)" where
  "Subscribe connID topic hdl flt now b =
     (if connections b connID = None then (b, Inl ConnectionNotFound)
      else (let subID = sub_id connID topic now;
                sub = \<lparr>SubID = subID, SubTopic = topic, ConnectionID = connID, Filter = flt, Handler = hdl, Active = True\<rparr>;
                b = b\<lparr>subscriptions := (subscriptions b)(subID \<mapsto> sub)\<rparr>
            in (addSubscriptionToTopic topic subID b, Inr subID)))"

definition Unsubscribe :: "string \<Rightarrow> bus \<Rightarrow> bus \<times> bus_error option" where
  "Unsubscribe subID b = (case subscriptions b subID of
     None \<Rightarrow> (b, Some SubscriptionNotFound)
   | Some sub \<Rightarrow> (drop_subscription subID sub b, None))"

subsection \<open>Sending\<close>

text \<open>
  The connections as the bus sees them: whether one is active, whether its \<open>k\<close>-th \<^verbatim>\<open>Send\<close> of
  this delivery succeeds, and whether the context is done during the \<open>k\<close>-th backoff.
\<close>

record wires =
  is_active :: "nat \<Rightarrow> bool"
  send_ok :: "nat \<Rightarrow> nat \<Rightarrow> bool"
  ctx_done :: "nat \<Rightarrow> nat \<Rightarrow> bool"

text \<open>\<open>n\<close> attempts are left; the result is the number of sends made, the time spent in backoff, the error.\<close>

fun send_loop :: "wires \<Rightarrow> nat \<Rightarrow> nat \<Rightarrow> nat \<Rightarrow> int \<Rightarrow> duration \<Rightarrow> nat \<times> duration \<times> bus_error option" where
  "send_loop w conn 0 attempt tot slept = (attempt, slept, Some (SendFailed tot))"
| "send_loop w conn (Suc n) attempt tot slept =
     (let slept = (if attempt > 0 then slept + int (attempt * attempt) * 100 * millisecond else slept) in
      if attempt > 0 \<and> ctx_done w conn attempt then (attempt, slept, Some CtxDone)
      else if send_ok w conn attempt then (attempt + 1, slept, None)
      else send_loop w conn n (attempt + 1) tot slept)"

definition sendWithRetry :: "wires \<Rightarrow> nat \<Rightarrow> bus \<Rightarrow> nat \<times> duration \<times> bus_error option" where
  "sendWithRetry w conn b = send_loop w conn (nat (retryAttempts b + 1)) 0 (retryAttempts b + 1) 0"

definition SendDirect :: "wires \<Rightarrow> string \<Rightarrow> bus \<Rightarrow> bus_error option" where
  "SendDirect w connID b = (case connections b connID of
     None \<Rightarrow> Some ConnectionNotFound | Some conn \<Rightarrow> snd (snd (sendWithRetry w conn b)))"

text \<open>\<open>cs\<close>: the connection names in \<^verbatim>\<open>range\<close> order. The sends run concurrently; only how many fail counts.\<close>

definition Broadcast :: "wires \<Rightarrow> string list \<Rightarrow> string \<Rightarrow> bus \<Rightarrow> bus_error option" where
  "Broadcast w cs exclude b =
     (let targets = filter (\<lambda>c. c \<noteq> exclude \<and> (case connections b c of None \<Rightarrow> False | Some conn \<Rightarrow> is_active w conn)) cs;
          failed = length (filter (\<lambda>c. SendDirect w c b \<noteq> None) targets)
      in if failed > 0 then Some (BroadcastFailed failed) else None)"

text \<open>What one subscription does with a message: rejected by the filter, or the result of the delivery.\<close>

datatype delivery = FilteredOut | Delivered | NotDelivered bus_error

definition handleSubscription :: "wires \<Rightarrow> Subscription \<Rightarrow> Message \<Rightarrow> bus \<Rightarrow> delivery" where
  "handleSubscription w sub m b =
     (if (case Filter sub of None \<Rightarrow> False | Some f \<Rightarrow> \<not> f m) then FilteredOut
      else case connections b (ConnectionID sub) of
        None \<Rightarrow> NotDelivered ConnectionNotFound
      | Some conn \<Rightarrow>
          if \<not> is_active w conn then NotDelivered ConnectionNotFound
          else if (case Handler sub of None \<Rightarrow> False | Some h \<Rightarrow> \<not> h m) then NotDelivered HandlerError
          else (case snd (snd (sendWithRetry w conn b)) of None \<Rightarrow> Delivered | Some e \<Rightarrow> NotDelivered e))"

definition target_subs :: "string \<Rightarrow> bus \<Rightarrow> Subscription list" where
  "target_subs topic b = (case topicSubs b topic of None \<Rightarrow> []
     | Some ids \<Rightarrow> filter Active (map (\<lambda>i. the (subscriptions b i)) (filter (\<lambda>i. subscriptions b i \<noteq> None) ids)))"

definition routeMessage :: "wires \<Rightarrow> Message \<Rightarrow> bus \<Rightarrow> bus_error option" where
  "routeMessage w m b =
     (let failed = length (filter (\<lambda>s. case handleSubscription w s m b of NotDelivered _ \<Rightarrow> True | _ \<Rightarrow> False)
                                  (target_subs (Topic m) b))
      in if failed > 0 then Some (RoutingFailed failed) else None)"

subsection \<open>Publishing\<close>

text \<open>\<open>marshal\<close> is \<^verbatim>\<open>json.Marshal\<close>; the compressor of the code returns its input; \<open>hex\<close> is \<^verbatim>\<open>%x\<close>.\<close>

definition prepare :: "(payload \<Rightarrow> bytes option) \<Rightarrow> (nat \<Rightarrow> string) \<Rightarrow> string \<Rightarrow> time \<Rightarrow> bool \<Rightarrow> Message \<Rightarrow> Message" where
  "prepare marshal hex newID now compress m =
     (let m = (if ID m = [] then m\<lparr>ID := newID\<rparr> else m);
          m = (if Timestamp m = None then m\<lparr>Timestamp := Some now\<rparr> else m);
          m = (if Priority m = 0 then m\<lparr>Priority := PriorityNormal\<rparr> else m);
          m = (if DeliveryMode m = 0 then m\<lparr>DeliveryMode := DeliveryModeAtLeastOnce\<rparr> else m);
          m = (if compress \<and> Compressed m
               then (case marshal (Payload m) of None \<Rightarrow> m | Some bs \<Rightarrow> m\<lparr>Payload := RawBytes bs, Compressed := True\<rparr>)
               else m)
      in (case marshal (Payload m) of None \<Rightarrow> m | Some bs \<Rightarrow> m\<lparr>Checksum := hex (unat (fnv32a bs))\<rparr>))"

definition Publish :: "wires \<Rightarrow> (payload \<Rightarrow> bytes option) \<Rightarrow> (nat \<Rightarrow> string) \<Rightarrow> string \<Rightarrow> time \<Rightarrow> Message \<Rightarrow> bus \<Rightarrow>
    (bus \<times> Message) \<times> bus_error option" where
  "Publish w marshal hex newID now m b =
     (let m = prepare marshal hex newID now (compressionEnabled b) m;
          b = b\<lparr>store := Store m (store b)\<rparr>;
          err = routeMessage w m b;
          mt = busMetrics b;
          mt = mt\<lparr>MessagesPublished := MessagesPublished mt + 1,
                  MessagesFailed := MessagesFailed mt + (if err \<noteq> None then 1 else 0),
                  MessagesDelivered := MessagesDelivered mt + (if err = None then 1 else 0)\<rparr>
      in ((b\<lparr>busMetrics := mt\<rparr>, m), err))"

subsection \<open>Maintenance\<close>

text \<open>\<open>cs\<close>: the connections in \<^verbatim>\<open>range\<close> order, \<open>ks\<close>: the subscriptions in the order of each inner one.\<close>

fun drop_inactive :: "wires \<Rightarrow> (bus \<Rightarrow> string list) \<Rightarrow> string list \<Rightarrow> bus \<Rightarrow> bus" where
  "drop_inactive w ks [] b = b"
| "drop_inactive w ks (c # cs) b = drop_inactive w ks cs (case connections b c of
     None \<Rightarrow> b | Some conn \<Rightarrow> if is_active w conn then b else UnregisterConnection c (ks b) b)"

definition cleanup :: "wires \<Rightarrow> (bus \<Rightarrow> string list) \<Rightarrow> string list \<Rightarrow> time \<Rightarrow> bus \<Rightarrow> bus" where
  "cleanup w ks cs now b = drop_inactive w ks cs (b\<lparr>store := Cleanup (now - 24 * 60 * minute) (store b)\<rparr>)"

definition updateMetrics :: "bus \<Rightarrow> bus" where
  "updateMetrics b = b\<lparr>busMetrics := (busMetrics b)\<lparr>ActiveConnections := int (map_len (connections b)),
     ActiveSubscriptions := int (map_len (subscriptions b))\<rparr>\<rparr>"

subsection \<open>Events\<close>

definition SubscribeEvent :: "string \<Rightarrow> nat \<Rightarrow> string \<Rightarrow> bus \<Rightarrow> bus" where
  "SubscribeEvent eventType h newID b =
     (let hs = (case eventSubscriptions b eventType of None \<Rightarrow> Map.empty | Some hs \<Rightarrow> hs)
      in b\<lparr>eventSubscriptions := (eventSubscriptions b)(eventType \<mapsto> hs(newID \<mapsto> h))\<rparr>)"

text \<open>\<open>ts\<close>: the event types in \<^verbatim>\<open>range\<close> order.\<close>

fun UnsubscribeEvent :: "string \<Rightarrow> string list \<Rightarrow> bus \<Rightarrow> bus \<times> bus_error option" where
  "UnsubscribeEvent subID [] b = (b, Some SubscriptionNotFound)"
| "UnsubscribeEvent subID (t # ts) b = (case eventSubscriptions b t of
     None \<Rightarrow> UnsubscribeEvent subID ts b
   | Some hs \<Rightarrow> if hs subID = None then UnsubscribeEvent subID ts b
       else (let hs = hs(subID := None)
             in (b\<lparr>eventSubscriptions := (eventSubscriptions b)(t := (if map_len hs = 0 then None else Some hs))\<rparr>, None)))"

text \<open>Every handler of the type runs once; \<open>ok h\<close>: handler \<open>h\<close> returns nil.\<close>

definition PublishEvent :: "string \<Rightarrow> (nat \<Rightarrow> bool) \<Rightarrow> bus \<Rightarrow> bus" where
  "PublishEvent eventType ok b =
     (let mt = (busMetrics b)\<lparr>EventsPublished := EventsPublished (busMetrics b) + 1\<rparr>
      in b\<lparr>busMetrics := (case eventSubscriptions b eventType of None \<Rightarrow> mt
            | Some hs \<Rightarrow> mt\<lparr>EventsDelivered := EventsDelivered mt + int (map_len (filter_map (\<lambda>_ h. ok h) hs))\<rparr>)\<rparr>)"

section \<open>The queue as an interface\<close>

text \<open>
  What a user of \<^verbatim>\<open>MessageQueue\<close> may rely on when messages have a priority \<open>prio\<close> (smaller is
  served first): \<open>contents\<close> is the order of service, messages of equal priority stay in order of
  arrival, \<open>deq\<close> takes the first.
\<close>

fun drain :: "('q \<Rightarrow> 'q \<times> (bus_error + Message)) \<Rightarrow> nat \<Rightarrow> 'q \<Rightarrow> Message list" where
  "drain deq 0 q = []"
| "drain deq (Suc n) q = (case deq q of (q', Inl e) \<Rightarrow> [] | (q', Inr m) \<Rightarrow> m # drain deq n q')"

locale message_queue =
  fixes enq :: "Message \<Rightarrow> 'q \<Rightarrow> 'q" and deq :: "'q \<Rightarrow> 'q \<times> (bus_error + Message)"
    and qlen :: "'q \<Rightarrow> int" and inv :: "'q \<Rightarrow> bool" and contents :: "'q \<Rightarrow> Message list" and prio :: "Message \<Rightarrow> nat"
  assumes enq_inv: "inv q \<Longrightarrow> inv (enq m q)"
    and enq_mset: "inv q \<Longrightarrow> mset (contents (enq m q)) = add_mset m (mset (contents q))"
    and enq_last: "inv q \<Longrightarrow> filter (\<lambda>x. prio x = k) (contents (enq m q)) =
                   filter (\<lambda>x. prio x = k) (contents q) @ (if prio m = k then [m] else [])"
    and sorted_contents: "inv q \<Longrightarrow> sorted (map prio (contents q))"
    and deq_some: "inv q \<Longrightarrow> contents q = m # ms \<Longrightarrow> \<exists>q'. deq q = (q', Inr m) \<and> inv q' \<and> contents q' = ms"
    and deq_none: "inv q \<Longrightarrow> contents q = [] \<Longrightarrow> \<exists>e. deq q = (q, Inl e)"
    and qlen_contents: "inv q \<Longrightarrow> qlen q = int (length (contents q))"
begin

lemma fold_enq:
  "inv q \<Longrightarrow> inv (fold enq ms q) \<and> mset (contents (fold enq ms q)) = mset (contents q) + mset ms \<and>
   filter (\<lambda>x. prio x = k) (contents (fold enq ms q)) =
   filter (\<lambda>x. prio x = k) (contents q) @ filter (\<lambda>x. prio x = k) ms"
proof (induction ms arbitrary: q)
  case (Cons m ms)
  from Cons.IH[OF enq_inv[OF Cons.prems]] show ?case using Cons.prems enq_mset enq_last by simp
qed simp

lemma contents_fold_enq:
  assumes "inv q" "contents q = []"
  shows "contents (fold enq ms q) = sort_key prio ms"
proof (rule sym, rule properties_for_sort_key)
  note f = fold_enq[OF assms(1)]
  show "mset (contents (fold enq ms q)) = mset ms" using f assms(2) by simp
  show "sorted (map prio (contents (fold enq ms q)))" using f sorted_contents by blast
  fix k assume "k \<in> set (contents (fold enq ms q))"
  have "filter (\<lambda>x. prio x = prio k) (contents (fold enq ms q)) = filter (\<lambda>x. prio x = prio k) ms"
    using f assms(2) by simp
  then show "filter (\<lambda>x. prio k = prio x) (contents (fold enq ms q)) = filter (\<lambda>x. prio k = prio x) ms"
    by (simp add: eq_commute)
qed

lemma drain_contents: "inv q \<Longrightarrow> length (contents q) \<le> n \<Longrightarrow> drain deq n q = contents q"
proof (induction n arbitrary: q)
  case (Suc n)
  show ?case
  proof (cases "contents q")
    case Nil
    with deq_none[OF Suc.prems(1)] show ?thesis by auto
  next
    case (Cons m ms)
    from deq_some[OF Suc.prems(1) Cons] obtain q' where "deq q = (q', Inr m)" "inv q'" "contents q' = ms" by blast
    with Suc.IH[of q'] Suc.prems(2) Cons show ?thesis by simp
  qed
qed simp

lemma drain_all:
  assumes "inv q" "contents q = []"
  shows "drain deq (length ms) (fold enq ms q) = sort_key prio ms" and "qlen (fold enq ms q) = int (length ms)"
  using fold_enq[OF assms(1), of ms] contents_fold_enq[OF assms, of ms] drain_contents[of "fold enq ms q" "length ms"]
    qlen_contents[of "fold enq ms q"] by simp_all

end

definition queue_inv :: "PriorityMessageQueue \<Rightarrow> bool" where
  "queue_inv q \<longleftrightarrow> (\<exists>a b c d. queues q = [a, b, c, d] \<and> qsize q = int (length (a @ b @ c @ d)) \<and>
     (\<forall>m\<in>set a. queue_index m = 0) \<and> (\<forall>m\<in>set b. queue_index m = 1) \<and>
     (\<forall>m\<in>set c. queue_index m = 2) \<and> (\<forall>m\<in>set d. queue_index m = 3))"

definition service_order :: "PriorityMessageQueue \<Rightarrow> Message list" where
  "service_order q = concat (rev (queues q))"

definition service_prio :: "Message \<Rightarrow> nat" where
  "service_prio m = 3 - queue_index m"

lemma queue_index_le: "queue_index m \<le> 3"
  by (auto simp: queue_index_def)

lemma queue_index_cases:
  obtains "queue_index m = 0" | "queue_index m = 1" | "queue_index m = 2" | "queue_index m = 3"
  using queue_index_le[of m] by linarith

lemma sorted_map_const: "(\<And>x. x \<in> set xs \<Longrightarrow> f x = (k::nat)) \<Longrightarrow> sorted (map f xs)"
  by (induction xs) auto

lemma filter_none: "(\<And>x. x \<in> set xs \<Longrightarrow> f x = j) \<Longrightarrow> filter (\<lambda>x. f x = k) xs = (if j = k then xs else [])"
  by (induction xs) auto

interpretation pq: message_queue Enqueue Dequeue Size queue_inv service_order service_prio
proof
  fix q m assume inv: "queue_inv q"
  then obtain a b c d where q: "queues q = [a, b, c, d]" "qsize q = int (length (a @ b @ c @ d))"
    "\<forall>m\<in>set a. queue_index m = 0" "\<forall>m\<in>set b. queue_index m = 1" "\<forall>m\<in>set c. queue_index m = 2" "\<forall>m\<in>set d. queue_index m = 3"
    by (auto simp: queue_inv_def)
  have s: "service_order q = d @ c @ b @ a" by (simp add: service_order_def q)
  have sp: "\<And>x. x \<in> set a \<Longrightarrow> service_prio x = 3" "\<And>x. x \<in> set b \<Longrightarrow> service_prio x = 2"
    "\<And>x. x \<in> set c \<Longrightarrow> service_prio x = 1" "\<And>x. x \<in> set d \<Longrightarrow> service_prio x = 0"
    using q by (simp_all add: service_prio_def)
  have nth: "[a, b, c, d] ! 2 = c" "[a, b, c, d] ! 3 = d" "[a, b, c, d][2 := x] = [a, b, x, d]" "[a, b, c, d][3 := x] = [a, b, c, x]"
    for x by (simp_all add: eval_nat_numeral)
  show "queue_inv (Enqueue m q)"
    by (cases m rule: queue_index_cases) (use q in \<open>auto simp: queue_inv_def Enqueue_def Let_def nth\<close>)
  show "mset (service_order (Enqueue m q)) = add_mset m (mset (service_order q))"
    by (cases m rule: queue_index_cases) (auto simp: service_order_def Enqueue_def Let_def q nth)
  show "filter (\<lambda>x. service_prio x = k) (service_order (Enqueue m q)) =
      filter (\<lambda>x. service_prio x = k) (service_order q) @ (if service_prio m = k then [m] else [])" for k
    by (cases m rule: queue_index_cases)
       (auto simp: service_order_def Enqueue_def Let_def q nth service_prio_def filter_empty_conv)
  show "sorted (map service_prio (service_order q))"
    unfolding s using sp by (auto simp: sorted_append sorted_map_const[OF sp(1)] sorted_map_const[OF sp(2)]
      sorted_map_const[OF sp(3)] sorted_map_const[OF sp(4)])
  show "Size q = int (length (service_order q))" by (simp add: Size_def s q)
  show "\<exists>e. Dequeue q = (q, Inl e)" if "service_order q = []"
    using that by (simp add: s Dequeue_def q nth)
  show "\<exists>q'. Dequeue q = (q', Inr m) \<and> queue_inv q' \<and> service_order q' = ms" if hd: "service_order q = m # ms" for m ms
  proof -
    have "d @ c @ b @ a = m # ms" using hd by (simp only: s)
    then
    consider (d) x xs where "d = x # xs" | (c) x xs where "d = []" "c = x # xs" | (b) x xs where "d = []" "c = []" "b = x # xs"
      | (a) x xs where "d = []" "c = []" "b = []" "a = x # xs"
      by (cases d; cases c; cases b; cases a) auto
    then show ?thesis
      by cases (use hd q in \<open>auto simp: s Dequeue_def nth queue_inv_def service_order_def\<close>)
  qed
qed

text \<open>
  C13. The priority queue is a stable sort: taking out everything that was put in gives the
  messages from the highest priority to the lowest, in order of arrival within a priority (a
  priority out of range counts as normal), and \<^verbatim>\<open>Size\<close> is the number of messages.
\<close>

theorem priority_queue_is_stable_sort:
  "drain Dequeue (length ms) (fold Enqueue ms NewPriorityMessageQueue) = sort_key (\<lambda>m. 3 - queue_index m) ms \<and>
   Size (fold Enqueue ms NewPriorityMessageQueue) = int (length ms)"
proof -
  have "queue_inv NewPriorityMessageQueue" "service_order NewPriorityMessageQueue = []"
    by (simp_all add: NewPriorityMessageQueue_def queue_inv_def service_order_def eval_nat_numeral)
  note d = pq.drain_all[OF this, of ms]
  have "service_prio = (\<lambda>m. 3 - queue_index m)" by (simp add: service_prio_def fun_eq_iff)
  with d show ?thesis by simp
qed

lemma Route_ok:
  assumes "partitions r \<noteq> []"
  shows "\<exists>i<length (partitions r). Route m r = Some (r\<lparr>partitions := (partitions r)[i := Enqueue m (partitions r ! i)]\<rparr>)"
proof -
  have "0 \<le> HashPartition m (int (length (partitions r))) \<and>
      HashPartition m (int (length (partitions r))) < int (length (partitions r))"
    using assms by (simp add: HashPartition_def)
  then show ?thesis
    by (intro exI[of _ "nat (HashPartition m (int (length (partitions r))))"]) (auto simp: Route_def Let_def nat_less_iff)
qed

lemma Route_no_partitions: "Option.bind (NewMessageRouter 0) (Route m) = None"
  by (simp add: NewMessageRouter_def Route_def HashPartition_def)

lemma Publish_upgrades: "Priority (prepare mar hex i now c m) \<noteq> PriorityLow \<and> DeliveryMode (prepare mar hex i now c m) \<noteq> DeliveryModeAtMostOnce"
  by (simp add: prepare_def Let_def PriorityLow_def PriorityNormal_def DeliveryModeAtMostOnce_def
      DeliveryModeAtLeastOnce_def split: option.split)

section \<open>Subscriptions\<close>

text \<open>
  \<open>X\<close>: connections that are gone while their subscriptions are being dropped. Every
  subscription is listed once under its topic, and the lists hold nothing else.
\<close>

definition subs_inv :: "string set \<Rightarrow> bus \<Rightarrow> bool" where
  "subs_inv X b \<longleftrightarrow>
     (\<forall>i sub. subscriptions b i = Some sub \<longrightarrow> SubID sub = i \<and>
        (connections b (ConnectionID sub) \<noteq> None \<or> ConnectionID sub \<in> X) \<and>
        (\<exists>ids. topicSubs b (SubTopic sub) = Some ids \<and> i \<in> set ids)) \<and>
     (\<forall>t ids. topicSubs b t = Some ids \<longrightarrow> ids \<noteq> [] \<and> distinct ids \<and>
        (\<forall>i\<in>set ids. \<exists>sub. subscriptions b i = Some sub \<and> SubTopic sub = t)) \<and>
     finite (dom (connections b)) \<and> int (map_len (connections b)) \<le> max 0 (maxConnections b)"

definition bus_wf :: "bus \<Rightarrow> bool" where
  "bus_wf b \<longleftrightarrow> subs_inv {} b"

lemma subs_invD:
  assumes "subs_inv X b"
  shows "subscriptions b i = Some sub \<Longrightarrow> SubID sub = i"
    and "subscriptions b i = Some sub \<Longrightarrow> connections b (ConnectionID sub) \<noteq> None \<or> ConnectionID sub \<in> X"
    and "subscriptions b i = Some sub \<Longrightarrow> \<exists>ids. topicSubs b (SubTopic sub) = Some ids \<and> i \<in> set ids"
    and "topicSubs b t = Some ids \<Longrightarrow> ids \<noteq> []" and "topicSubs b t = Some ids \<Longrightarrow> distinct ids"
    and "topicSubs b t = Some ids \<Longrightarrow> i \<in> set ids \<Longrightarrow> \<exists>sub. subscriptions b i = Some sub \<and> SubTopic sub = t"
    and "finite (dom (connections b))" and "int (map_len (connections b)) \<le> max 0 (maxConnections b)"
  using assms unfolding subs_inv_def by blast+

lemma subs_invI:
  assumes "\<And>i sub. subscriptions b i = Some sub \<Longrightarrow> SubID sub = i"
    and "\<And>i sub. subscriptions b i = Some sub \<Longrightarrow> connections b (ConnectionID sub) \<noteq> None \<or> ConnectionID sub \<in> X"
    and "\<And>i sub. subscriptions b i = Some sub \<Longrightarrow> \<exists>ids. topicSubs b (SubTopic sub) = Some ids \<and> i \<in> set ids"
    and "\<And>t ids. topicSubs b t = Some ids \<Longrightarrow> ids \<noteq> []" and "\<And>t ids. topicSubs b t = Some ids \<Longrightarrow> distinct ids"
    and "\<And>t ids i. topicSubs b t = Some ids \<Longrightarrow> i \<in> set ids \<Longrightarrow> \<exists>sub. subscriptions b i = Some sub \<and> SubTopic sub = t"
    and "finite (dom (connections b))" and "int (map_len (connections b)) \<le> max 0 (maxConnections b)"
  shows "subs_inv X b"
  using assms unfolding subs_inv_def by blast

lemma bus_wf_New [inv_intros]: "bus_wf (NewEnhancedMessageBus mx r c st)"
  by (simp add: bus_wf_def subs_inv_def NewEnhancedMessageBus_def)

lemma drop_subscription_fields:
  "connections (drop_subscription i sub b) = connections b"
  "subscriptions (drop_subscription i sub b) = (subscriptions b)(i := None)"
  "maxConnections (drop_subscription i sub b) = maxConnections b"
  "store (drop_subscription i sub b) = store b"
  "topicSubs (drop_subscription i sub b) = (case topicSubs b (SubTopic sub) of None \<Rightarrow> topicSubs b
     | Some ids \<Rightarrow> (topicSubs b)(SubTopic sub := (if remove1 i ids = [] then None else Some (remove1 i ids))))"
  by (simp_all add: drop_subscription_def removeSubscriptionFromTopic_def remove_first_eq_remove1 Let_def split: option.split)

lemma subs_inv_drop:
  assumes inv: "subs_inv X b" and sub: "subscriptions b i = Some sub"
  shows "subs_inv X (drop_subscription i sub b)"
proof -
  note d = subs_invD[OF inv]
  obtain ids where ids: "topicSubs b (SubTopic sub) = Some ids" "i \<in> set ids" using d(3)[OF sub] by blast
  have set: "set (remove1 i ids) = set ids - {i}" "distinct (remove1 i ids)" using d(5)[OF ids(1)] by auto
  let ?b = "drop_subscription i sub b"
  have T: "topicSubs ?b t = (if t = SubTopic sub then (if remove1 i ids = [] then None else Some (remove1 i ids))
      else topicSubs b t)" for t
    by (simp add: drop_subscription_fields ids)
  have "SubID s = j \<and> (connections ?b (ConnectionID s) \<noteq> None \<or> ConnectionID s \<in> X) \<and>
      (\<exists>ids. topicSubs ?b (SubTopic s) = Some ids \<and> j \<in> set ids)" if "subscriptions ?b j = Some s" for j s
  proof -
    from that have j: "subscriptions b j = Some s" "j \<noteq> i" by (auto simp: drop_subscription_fields split: if_splits)
    obtain ids' where ids': "topicSubs b (SubTopic s) = Some ids'" "j \<in> set ids'" using d(3)[OF j(1)] by blast
    have "\<exists>ids. topicSubs ?b (SubTopic s) = Some ids \<and> j \<in> set ids"
    proof (cases "SubTopic s = SubTopic sub")
      case True
      then have "j \<in> set (remove1 i ids)" using ids ids' j(2) set by simp
      then show ?thesis using True by (auto simp: T)
    next
      case False
      then show ?thesis using ids' by (simp add: T)
    qed
    with d(1,2)[OF j(1)] show ?thesis by (simp add: drop_subscription_fields)
  qed
  moreover have "ids' \<noteq> [] \<and> distinct ids' \<and> (\<forall>j\<in>set ids'. \<exists>s. subscriptions ?b j = Some s \<and> SubTopic s = t)"
    if "topicSubs ?b t = Some ids'" for t ids'
  proof (cases "t = SubTopic sub")
    case True
    with that have "ids' = remove1 i ids" "ids' \<noteq> []" by (auto simp: T split: if_splits)
    with set d(6)[OF ids(1)] True show ?thesis by (auto simp: drop_subscription_fields)
  next
    case False
    with that have t: "topicSubs b t = Some ids'" by (simp add: T)
    have "i \<notin> set ids'" using d(6)[OF t, of i] sub False by auto
    then show ?thesis using d(4,5)[OF t] d(6)[OF t] by (auto simp: drop_subscription_fields)
  qed
  ultimately show ?thesis unfolding subs_inv_def using d(7,8) by (simp add: drop_subscription_fields)
qed

lemma subs_inv_drop_all:
  assumes "subs_inv X b"
  shows "subs_inv X (drop_subscriptions_of c ks b)" (is ?inv)
    and "connections (drop_subscriptions_of c ks b) = connections b" (is ?conn)
    and "subscriptions (drop_subscriptions_of c ks b) =
           filter_map (\<lambda>i sub. \<not> (i \<in> set ks \<and> ConnectionID sub = c)) (subscriptions b)" (is ?subs)
    and "maxConnections (drop_subscriptions_of c ks b) = maxConnections b" (is ?mx)
proof -
  have "?inv \<and> ?conn \<and> ?subs \<and> ?mx"
    using assms
  proof (induction ks arbitrary: b)
    case Nil
    then show ?case by (simp add: filter_map_def fun_eq_iff split: option.split)
  next
    case (Cons k ks)
    show ?case
    proof (cases "\<exists>sub. subscriptions b k = Some sub \<and> ConnectionID sub = c")
      case True
      then obtain sub where sub: "subscriptions b k = Some sub" "ConnectionID sub = c" by blast
      then have step: "drop_subscriptions_of c (k # ks) b = drop_subscriptions_of c ks (drop_subscription k sub b)" by simp
      have "filter_map (\<lambda>i sub. \<not> (i \<in> set ks \<and> ConnectionID sub = c)) (subscriptions (drop_subscription k sub b)) =
          filter_map (\<lambda>i sub. \<not> (i \<in> set (k # ks) \<and> ConnectionID sub = c)) (subscriptions b)"
        using sub by (simp add: drop_subscription_fields filter_map_def fun_eq_iff split: option.split)
      then show ?thesis
        using Cons.IH[OF subs_inv_drop[OF Cons.prems sub(1)]] unfolding step
        by (metis drop_subscription_fields(1,3))
    next
      case False
      then have step: "drop_subscriptions_of c (k # ks) b = drop_subscriptions_of c ks b" by (auto split: option.split)
      have "filter_map (\<lambda>i sub. \<not> (i \<in> set ks \<and> ConnectionID sub = c)) (subscriptions b) =
          filter_map (\<lambda>i sub. \<not> (i \<in> set (k # ks) \<and> ConnectionID sub = c)) (subscriptions b)"
        using False by (auto simp: filter_map_def fun_eq_iff split: option.split)
      with Cons.IH[OF Cons.prems] show ?thesis unfolding step by simp
    qed
  qed
  then show ?inv ?conn ?subs ?mx by blast+
qed

lemma bus_wf_Unregister [inv_intros]:
  assumes wf: "bus_wf b" and ks: "dom (subscriptions b) \<subseteq> set ks"
  shows "bus_wf (UnregisterConnection c ks b)"
proof -
  let ?start = "b\<lparr>connections := (connections b)(c := None)\<rparr>"
  let ?b = "drop_subscriptions_of c ks ?start"
  note d = subs_invD[OF wf[unfolded bus_wf_def]]
  have "map_len ((connections b)(c := None)) \<le> map_len (connections b)"
    using map_len_del[OF d(7), of c] map_len_del_absent[of c "connections b"] by (cases "c \<in> dom (connections b)") auto
  then have len: "int (map_len ((connections b)(c := None))) \<le> max 0 (maxConnections b)" using d(8) by linarith
  have "subs_inv {c} ?start"
  proof (rule subs_invI)
    show "connections ?start (ConnectionID sub) \<noteq> None \<or> ConnectionID sub \<in> {c}" if "subscriptions ?start i = Some sub" for i sub
      using d(2)[of i sub] that by simp
  qed (use d len in simp_all)
  note a = subs_inv_drop_all[OF this, of c ks] and i = subs_invD[OF subs_inv_drop_all(1)[OF this, of c ks]]
  have "connections ?b (ConnectionID sub) \<noteq> None" if s: "subscriptions ?b i = Some sub" for i sub
  proof -
    from s have "subscriptions b i = Some sub" "\<not> (i \<in> set ks \<and> ConnectionID sub = c)"
      unfolding a(3) by (simp_all add: filter_map_Some)
    with ks i(2)[OF s] show ?thesis by blast
  qed
  then show ?thesis unfolding bus_wf_def UnregisterConnection_def by (intro subs_invI) (use i in blast)+
qed

lemma bus_wf_Register [inv_intros]:
  assumes wf: "bus_wf b"
  shows "bus_wf (fst (RegisterConnection c conn b))"
proof (cases "int (map_len (connections b)) \<ge> maxConnections b")
  case True
  with wf show ?thesis by (simp add: RegisterConnection_def)
next
  case False
  note d = subs_invD[OF wf[unfolded bus_wf_def]]
  have "map_len ((connections b)(c \<mapsto> conn)) \<le> map_len (connections b) + 1"
    using d(7) by (simp add: map_len_upd)
  with False have "int (map_len ((connections b)(c \<mapsto> conn))) \<le> max 0 (maxConnections b)" by linarith
  moreover have "connections b (ConnectionID sub) \<noteq> None" if "subscriptions b i = Some sub" for i sub
    using d(2)[OF that] by simp
  ultimately have "subs_inv {} (b\<lparr>connections := (connections b)(c \<mapsto> conn)\<rparr>)"
    by (intro subs_invI) (use d in simp_all)
  with False show ?thesis by (simp add: RegisterConnection_def bus_wf_def)
qed

lemma bus_wf_Unsubscribe [inv_intros]: "bus_wf b \<Longrightarrow> bus_wf (fst (Unsubscribe i b))"
  unfolding bus_wf_def Unsubscribe_def by (auto intro: subs_inv_drop split: option.split)

lemma bus_wf_Subscribe [inv_intros]:
  assumes wf: "bus_wf b" and fresh: "subscriptions b (sub_id c t now) = None"
  shows "bus_wf (fst (Subscribe c t hdl flt now b))"
proof (cases "connections b c")
  case None
  with wf show ?thesis by (simp add: Subscribe_def)
next
  case conn: (Some conn)
  let ?i = "sub_id c t now" and ?b = "fst (Subscribe c t hdl flt now b)"
  define sub where "sub = \<lparr>SubID = ?i, SubTopic = t, ConnectionID = c, Filter = flt, Handler = hdl, Active = True\<rparr>"
  define old where "old = (case topicSubs b t of None \<Rightarrow> [] | Some ids \<Rightarrow> ids)"
  note d = subs_invD[OF wf[unfolded bus_wf_def]]
  have new: "connections ?b = connections b" "maxConnections ?b = maxConnections b"
    "subscriptions ?b = (subscriptions b)(?i \<mapsto> sub)" "topicSubs ?b = (topicSubs b)(t \<mapsto> old @ [?i])"
    using conn by (simp_all add: Subscribe_def addSubscriptionToTopic_def Let_def sub_def old_def split: option.split)
  have notin: "?i \<notin> set ids" if "topicSubs b t' = Some ids" for t' ids
    using d(6)[OF that, of ?i] fresh by auto
  have old: "distinct (old @ [?i])" "\<And>j. j \<in> set old \<Longrightarrow> \<exists>s. subscriptions b j = Some s \<and> SubTopic s = t"
    using d(5,6)[of t] notin[of t] by (cases "topicSubs b t"; simp add: old_def)+
  have "subs_inv {} ?b"
  proof (rule subs_invI)
    fix j s assume s: "subscriptions ?b j = Some s"
    show "SubID s = j" using s d(1)[of j s] by (auto simp: new sub_def split: if_splits)
    show "connections ?b (ConnectionID s) \<noteq> None \<or> ConnectionID s \<in> {}"
      using s d(2)[of j s] conn by (auto simp: new sub_def split: if_splits)
    show "\<exists>ids. topicSubs ?b (SubTopic s) = Some ids \<and> j \<in> set ids"
      using s d(3)[of j s] by (auto simp: new sub_def old_def split: if_splits)
  next
    fix t' ids assume ids: "topicSubs ?b t' = Some ids"
    show "ids \<noteq> []" "distinct ids" using ids d(4,5)[of t' ids] old by (auto simp: new split: if_splits)
    show "\<exists>s. subscriptions ?b j = Some s \<and> SubTopic s = t'" if "j \<in> set ids" for j
    proof (cases "j = ?i")
      case True
      then have "t' = t" using that ids notin[of t' ids] by (auto simp: new split: if_splits)
      with True show ?thesis by (simp add: new sub_def)
    next
      case False
      with that ids old(2)[of j] d(6)[of t' ids j] show ?thesis by (auto simp: new split: if_splits)
    qed
  qed (use d in \<open>simp_all add: new\<close>)
  then show ?thesis by (simp add: bus_wf_def)
qed

lemma drop_subscriptions_of_mono:
  "dom (subscriptions (drop_subscriptions_of c ks b)) \<subseteq> dom (subscriptions b)"
proof (induction ks arbitrary: b)
  case (Cons k ks)
  have "dom (subscriptions (drop_subscription k sub b)) \<subseteq> dom (subscriptions b)" for sub
    by (auto simp: drop_subscription_fields)
  then have "dom (subscriptions (drop_subscriptions_of c ks (drop_subscription k sub b))) \<subseteq> dom (subscriptions b)" for sub
    by (rule order_trans[OF Cons.IH])
  with Cons.IH[of b] show ?case by (simp split: option.split)
qed simp

lemma bus_wf_drop_inactive:
  assumes "bus_wf b" "\<And>b'. dom (subscriptions b') \<subseteq> dom (subscriptions b) \<Longrightarrow> dom (subscriptions b') \<subseteq> set (ks b')"
  shows "bus_wf (drop_inactive w ks cs b)"
  using assms
proof (induction cs arbitrary: b)
  case (Cons c cs)
  let ?b = "UnregisterConnection c (ks b) b"
  have "dom (subscriptions ?b) \<subseteq> dom (subscriptions b)"
    using drop_subscriptions_of_mono[of c "ks b" "b\<lparr>connections := (connections b)(c := None)\<rparr>"]
    by (simp add: UnregisterConnection_def)
  then have "bus_wf (drop_inactive w ks cs ?b)"
    by (intro Cons.IH bus_wf_Unregister Cons.prems order_refl) (blast intro: Cons.prems(2) order_trans)
  moreover have "bus_wf (drop_inactive w ks cs b)" using Cons by blast
  ultimately show ?case by (simp split: option.split)
qed simp

text \<open>Fields the wiring does not look at.\<close>

lemma bus_wf_frame:
  assumes "bus_wf b" "connections b' = connections b" "subscriptions b' = subscriptions b"
    "topicSubs b' = topicSubs b" "maxConnections b' = maxConnections b"
  shows "bus_wf b'"
  using assms by (simp add: bus_wf_def subs_inv_def)

lemma bus_wf_cleanup [inv_intros]:
  assumes "bus_wf b" "\<And>b'. dom (subscriptions b') \<subseteq> dom (subscriptions b) \<Longrightarrow> dom (subscriptions b') \<subseteq> set (ks b')"
  shows "bus_wf (cleanup w ks cs now b)"
  unfolding cleanup_def using assms by (intro bus_wf_drop_inactive bus_wf_frame[OF assms(1)]) auto

subsection \<open>Reachable buses\<close>

text \<open>
  One call each, atomic under the bus mutex. The \<^verbatim>\<open>range\<close> lists name at least the
  subscriptions there are. A subscription identifier holds a nanosecond timestamp: the relation
  covers the calls that get a new one, \<open>Subscribe_same_instant\<close> shows what happens otherwise.
\<close>

inductive bus_step :: "bus \<Rightarrow> bus \<Rightarrow> bool" where
  step_Register: "bus_step b (fst (RegisterConnection c conn b))"
| step_Unregister: "dom (subscriptions b) \<subseteq> set ks \<Longrightarrow> bus_step b (UnregisterConnection c ks b)"
| step_Subscribe: "subscriptions b (sub_id c t now) = None \<Longrightarrow> bus_step b (fst (Subscribe c t hdl flt now b))"
| step_Unsubscribe: "bus_step b (fst (Unsubscribe i b))"
| step_Publish: "bus_step b (fst (fst (Publish w marshal hex newID now m b)))"
| step_cleanup: "(\<And>b'. dom (subscriptions b') \<subseteq> dom (subscriptions b) \<Longrightarrow> dom (subscriptions b') \<subseteq> set (ks b')) \<Longrightarrow>
    bus_step b (cleanup w ks cs now b)"
| step_updateMetrics: "bus_step b (updateMetrics b)"
| step_SubscribeEvent: "bus_step b (SubscribeEvent e h newID b)"
| step_UnsubscribeEvent: "bus_step b (fst (UnsubscribeEvent i ts b))"
| step_PublishEvent: "bus_step b (PublishEvent e ok b)"

lemma UnsubscribeEvent_frame:
  "connections (fst (UnsubscribeEvent i ts b)) = connections b"
  "subscriptions (fst (UnsubscribeEvent i ts b)) = subscriptions b"
  "topicSubs (fst (UnsubscribeEvent i ts b)) = topicSubs b"
  "maxConnections (fst (UnsubscribeEvent i ts b)) = maxConnections b"
  by (induction ts; simp add: Let_def split: option.split)+

lemma drop_subscriptions_of_max: "maxConnections (drop_subscriptions_of c ks b) = maxConnections b"
  by (induction ks arbitrary: b) (simp_all add: drop_subscription_fields split: option.split)

lemma drop_inactive_max: "maxConnections (drop_inactive w ks cs b) = maxConnections b"
  by (induction cs arbitrary: b) (simp_all add: UnregisterConnection_def drop_subscriptions_of_max split: option.split)

lemma bus_step_wf: "bus_step b b' \<Longrightarrow> bus_wf b \<Longrightarrow> bus_wf b' \<and> maxConnections b' = maxConnections b"
proof (induction rule: bus_step.induct)
  case (step_cleanup b ks w cs now)
  have "bus_wf (cleanup w ks cs now b)" by (rule bus_wf_cleanup[OF step_cleanup.prems]) (rule step_cleanup.hyps)
  then show ?case by (simp add: cleanup_def drop_inactive_max)
next
  case (step_UnsubscribeEvent b i ts)
  then show ?case by (auto intro: bus_wf_frame simp: UnsubscribeEvent_frame)
next
  case (step_Publish b w marshal hex newID now m)
  then show ?case by (auto intro: bus_wf_frame simp: Publish_def Let_def)
next
  case (step_updateMetrics b)
  then show ?case by (auto intro: bus_wf_frame simp: updateMetrics_def)
next
  case (step_SubscribeEvent b e h newID)
  then show ?case by (auto intro: bus_wf_frame simp: SubscribeEvent_def Let_def)
next
  case (step_PublishEvent b e ok)
  then show ?case by (auto intro: bus_wf_frame simp: PublishEvent_def Let_def)
next
  case (step_Register b c conn)
  then show ?case using bus_wf_Register[of b c conn] by (simp add: RegisterConnection_def)
next
  case (step_Unregister b ks c)
  then show ?case using bus_wf_Unregister[of b ks c] by (simp add: UnregisterConnection_def drop_subscriptions_of_max)
next
  case (step_Subscribe b c t now hdl flt)
  then show ?case using bus_wf_Subscribe[of b c t now hdl flt]
    by (simp add: Subscribe_def addSubscriptionToTopic_def Let_def split: option.split)
next
  case (step_Unsubscribe b i)
  then show ?case using bus_wf_Unsubscribe[of b i] by (simp add: Unsubscribe_def drop_subscription_fields split: option.split)
qed

lemma bus_reachable_wf:
  "bus_step\<^sup>*\<^sup>* (NewEnhancedMessageBus mx r c st) b \<Longrightarrow> bus_wf b \<and> maxConnections b = mx"
proof (induction rule: rtranclp_induct)
  case base
  show ?case using bus_wf_New[of mx r c st] by (simp add: NewEnhancedMessageBus_def)
next
  case (step b b')
  then show ?case using bus_step_wf by metis
qed

lemma target_subs_exact:
  assumes "bus_wf b"
  shows "distinct (map SubID (target_subs topic b))"
    and "set (target_subs topic b) = {s \<in> ran (subscriptions b). SubTopic s = topic \<and> Active s}"
proof -
  note d = subs_invD[OF assms[unfolded bus_wf_def]]
  let ?D = "distinct (map SubID (target_subs topic b))"
    and ?S = "set (target_subs topic b) = {s \<in> ran (subscriptions b). SubTopic s = topic \<and> Active s}"
  have "?D \<and> ?S"
  proof (cases "topicSubs b topic")
    case None
    have "SubTopic s \<noteq> topic" if "subscriptions b i = Some s" for i s using d(3)[OF that] None by auto
    with None show ?thesis by (auto simp: target_subs_def ran_def)
  next
    case (Some ids)
    have all: "subscriptions b i \<noteq> None" "SubID (the (subscriptions b i)) = i" "SubTopic (the (subscriptions b i)) = topic"
      if "i \<in> set ids" for i using d(6)[OF Some that] d(1) by auto
    have t: "target_subs topic b = filter Active (map (\<lambda>i. the (subscriptions b i)) ids)"
      using Some all(1) by (simp add: target_subs_def)
    have "map SubID (map (\<lambda>i. the (subscriptions b i)) ids) = ids" using all(2) by (simp add: map_idI)
    then have "?D" unfolding t using d(5)[OF Some] by (metis distinct_map_filter)
    moreover have "?S"
    proof (rule set_eqI)
      fix s
      have "s \<in> ran (subscriptions b) \<and> SubTopic s = topic \<longleftrightarrow> s \<in> (\<lambda>i. the (subscriptions b i)) ` set ids"
      proof
        assume "s \<in> ran (subscriptions b) \<and> SubTopic s = topic"
        then obtain i where i: "subscriptions b i = Some s" "SubTopic s = topic" by (auto simp: ran_def)
        with d(3)[OF i(1)] Some have "i \<in> set ids" by simp
        with i show "s \<in> (\<lambda>i. the (subscriptions b i)) ` set ids" by (intro image_eqI[of _ _ i]) simp_all
      next
        assume "s \<in> (\<lambda>i. the (subscriptions b i)) ` set ids"
        then obtain i where "i \<in> set ids" "s = the (subscriptions b i)" by blast
        with all show "s \<in> ran (subscriptions b) \<and> SubTopic s = topic" by (auto intro: ranI)
      qed
      then show "s \<in> set (target_subs topic b) \<longleftrightarrow> s \<in> {s \<in> ran (subscriptions b). SubTopic s = topic \<and> Active s}"
        unfolding t by auto
    qed
    ultimately show ?thesis by blast
  qed
  then show ?D ?S by blast+
qed

lemma distinct_SubID_ran:
  assumes "bus_wf b"
  shows "s \<in> set (target_subs topic b) \<Longrightarrow> connections b (ConnectionID s) \<noteq> None"
  using target_subs_exact(2)[OF assms, of topic] subs_invD(2)[OF assms[unfolded bus_wf_def]] by (auto simp: ran_def)


lemma bus_example: "bus_step\<^sup>*\<^sup>* (NewEnhancedMessageBus 1 0 False Map.empty)
   (fst (Subscribe ''c'' ''t'' None None 5 (fst (RegisterConnection ''c'' 7 (NewEnhancedMessageBus 1 0 False Map.empty)))))"
  by (rule rtranclp.rtrancl_into_rtrancl[OF r_into_rtranclp[of bus_step, OF step_Register]], rule step_Subscribe)
     (simp add: RegisterConnection_def NewEnhancedMessageBus_def)


text \<open>
  A subscription under a new identifier is undone exactly by unsubscribing it: the bus is
  what it was before.
\<close>

lemma subscribe_unsubscribe_roundtrip:
  assumes "bus_step\<^sup>*\<^sup>* (NewEnhancedMessageBus mx r cf st) b" and "connections b c \<noteq> None"
    and "subscriptions b (sub_id c t now) = None"
  shows "Unsubscribe (sub_id c t now) (fst (Subscribe c t hdl flt now b)) = (b, None)"
proof -
  have "bus_wf b" using bus_reachable_wf[OF assms(1)] by simp
  note d = subs_invD[OF this[unfolded bus_wf_def]]
  have sub: "(subscriptions b)(sub_id c t now := None) = subscriptions b" using assms(3) by auto
  show ?thesis
  proof (cases "topicSubs b t")
    case None
    then have "(topicSubs b)(t := None) = topicSubs b" by auto
    with None assms(2,3) sub show ?thesis
      by (auto simp: Subscribe_def Unsubscribe_def addSubscriptionToTopic_def drop_subscription_def
          removeSubscriptionFromTopic_def Let_def remove_first_eq_remove1)
  next
    case (Some ids)
    then have top: "(topicSubs b)(t \<mapsto> ids) = topicSubs b" by auto
    have "sub_id c t now \<notin> set ids" using d(6)[OF Some, of "sub_id c t now"] assms(3) by auto
    then have "remove1 (sub_id c t now) (ids @ [sub_id c t now]) = ids" by (simp add: remove1_append)
    with Some d(4)[OF Some] assms(2,3) sub top show ?thesis
      by (auto simp: Subscribe_def Unsubscribe_def addSubscriptionToTopic_def drop_subscription_def
          removeSubscriptionFromTopic_def Let_def remove_first_eq_remove1)
  qed
qed

lemma subscribe_unsubscribe_roundtrip_witness:
  "let b = fst (Subscribe ''c'' ''t'' None None 5 (fst (RegisterConnection ''c'' 7 (NewEnhancedMessageBus 1 0 False Map.empty))))
   in Unsubscribe (sub_id ''c'' ''t'' 8) (fst (Subscribe ''c'' ''t'' None None 8 b)) = (b, None)"
  unfolding Let_def
  by (rule subscribe_unsubscribe_roundtrip[OF bus_example])
     (simp_all add: Subscribe_def RegisterConnection_def NewEnhancedMessageBus_def addSubscriptionToTopic_def Let_def
      sub_id_def show_int_def show_nat.simps)

text \<open>The second of two subscriptions with the same identifier is delivered twice and leaves a dangling entry.\<close>

lemma Subscribe_same_instant:
  "let b = fst (RegisterConnection ''c'' 7 (NewEnhancedMessageBus 1 0 False Map.empty));
       b = fst (Subscribe ''c'' ''t'' None None 5 (fst (Subscribe ''c'' ''t'' None None 5 b)))
   in length (target_subs ''t'' b) = 2 \<and>
      topicSubs (fst (Unsubscribe (sub_id ''c'' ''t'' 5) b)) ''t'' = Some [sub_id ''c'' ''t'' 5] \<and>
      subscriptions (fst (Unsubscribe (sub_id ''c'' ''t'' 5) b)) = Map.empty"
  by (simp add: Let_def target_subs_def Subscribe_def RegisterConnection_def NewEnhancedMessageBus_def
      addSubscriptionToTopic_def Unsubscribe_def drop_subscription_fields fun_eq_iff)

subsection \<open>Retries\<close>

lemma send_loop_spec:
  assumes "send_loop w conn n a tot slept = (k, t, err)" "\<forall>j<a. \<not> send_ok w conn j"
    "\<forall>j. 0 < j \<and> j < a \<longrightarrow> \<not> ctx_done w conn j"
    "slept = (\<Sum>j<a. int (j * j) * 100 * millisecond)"
  shows "a \<le> k \<and> k \<le> a + n \<and> (\<forall>j. j + 1 < k \<longrightarrow> \<not> send_ok w conn j) \<and>
    (\<forall>j. 0 < j \<and> j < k \<longrightarrow> \<not> ctx_done w conn j) \<and>
    (err = None \<and> 0 < k \<and> send_ok w conn (k - 1) \<or>
     err = Some CtxDone \<and> 0 < k \<and> k < a + n \<and> (\<forall>j<k. \<not> send_ok w conn j) \<and> ctx_done w conn k \<or>
     err = Some (SendFailed tot) \<and> k = a + n \<and> (\<forall>j<k. \<not> send_ok w conn j)) \<and>
    (err \<noteq> Some CtxDone \<longrightarrow> t = (\<Sum>j<k. int (j * j) * 100 * millisecond))"
  using assms
proof (induction n arbitrary: a slept)
  case 0
  then show ?case by auto
next
  case (Suc n)
  consider (ctx) "a > 0" "ctx_done w conn a" | (ok) "\<not> (a > 0 \<and> ctx_done w conn a)" "send_ok w conn a"
    | (fail) "\<not> (a > 0 \<and> ctx_done w conn a)" "\<not> send_ok w conn a" by blast
  then show ?case
  proof cases
    case ctx
    with Suc.prems show ?thesis by (auto simp: Let_def)
  next
    case ok
    with Suc.prems show ?thesis by (auto simp: Let_def less_Suc_eq split: if_splits)
  next
    case fail
    have "send_loop w conn n (Suc a) tot (\<Sum>j<Suc a. int (j * j) * 100 * millisecond) = (k, t, err)"
      using Suc.prems(1,4) fail by (cases "a = 0") (simp_all add: Let_def)
    note run = this
    have no: "\<forall>j<Suc a. \<not> send_ok w conn j" using Suc.prems(2) fail by (simp add: less_Suc_eq)
    have nd: "\<forall>j. 0 < j \<and> j < Suc a \<longrightarrow> \<not> ctx_done w conn j" using Suc.prems(3) fail by (auto simp: less_Suc_eq)
    note ih = Suc.IH[OF run no nd refl]
    then have "a \<le> k" by linarith
    with ih show ?thesis unfolding add_Suc_right add_Suc by blast
  qed
qed

text \<open>
  C12. A delivery makes at most \<^verbatim>\<open>RetryAttempts + 1\<close> sends (none when that is not
  positive), never sends again after a success or a done context, succeeds exactly when its last
  send does, reports failure only after every send failed, and waits \<open>j\<^sup>2\<close> tenths of a second
  before send \<open>j\<close>.
\<close>

theorem delivery_retries:
  "case sendWithRetry w conn b of (k, t, err) \<Rightarrow>
    k \<le> nat (retryAttempts b + 1) \<and> (\<forall>j. j + 1 < k \<longrightarrow> \<not> send_ok w conn j) \<and>
    (\<forall>j. 0 < j \<and> j < k \<longrightarrow> \<not> ctx_done w conn j) \<and>
    (err = None \<and> 0 < k \<and> send_ok w conn (k - 1) \<or>
     err = Some CtxDone \<and> 0 < k \<and> k < nat (retryAttempts b + 1) \<and> (\<forall>j<k. \<not> send_ok w conn j) \<and> ctx_done w conn k \<or>
     err = Some (SendFailed (retryAttempts b + 1)) \<and> k = nat (retryAttempts b + 1) \<and> (\<forall>j<k. \<not> send_ok w conn j)) \<and>
    (err \<noteq> Some CtxDone \<longrightarrow> t = (\<Sum>j<k. int (j * j) * 100 * millisecond))"
proof -
  obtain k t err where r: "sendWithRetry w conn b = (k, t, err)" by (cases "sendWithRetry w conn b") auto
  from send_loop_spec[OF this[unfolded sendWithRetry_def]] show ?thesis by (simp add: r)
qed

theorem delivery_retries_witness:
  "let w = \<lparr>is_active = (\<lambda>_. True), send_ok = (\<lambda>_ k. k = 2), ctx_done = (\<lambda>_ _. False)\<rparr>;
       b = NewEnhancedMessageBus 1 3 False Map.empty
   in sendWithRetry w 7 b = (3, 500 * millisecond, None) \<and> \<not> send_ok w 7 0 \<and> \<not> send_ok w 7 1"
proof -
  let ?w = "\<lparr>is_active = (\<lambda>_. True), send_ok = (\<lambda>_ k. k = 2), ctx_done = (\<lambda>_ _. False)\<rparr>"
    and ?b = "NewEnhancedMessageBus 1 3 False Map.empty"
  have r: "sendWithRetry ?w 7 ?b = (3, 500 * millisecond, None)"
    by (simp add: sendWithRetry_def NewEnhancedMessageBus_def eval_nat_numeral)
  have all: "\<forall>j. j + 1 < 3 \<longrightarrow> \<not> send_ok ?w 7 j"
    using delivery_retries[where w = ?w and conn = 7 and b = ?b] unfolding r prod.case by blast
  from spec[OF all, of 0] spec[OF all, of 1] have "\<not> send_ok ?w 7 0" "\<not> send_ok ?w 7 1" by linarith+
  with r show ?thesis unfolding Let_def by blast
qed

end
