(* ===== verification/Security_Basics.thy ===== *)
theory Security_Basics
  imports Prelude
begin

text \<open>
  The four guards of \<^verbatim>\<open>core/security\<close>: the permission manager (\<^verbatim>\<open>auth.go\<close>), the SYN cookies
  (\<^verbatim>\<open>syn_cookie.go\<close>), the fingerprint rate limiter (\<^verbatim>\<open>dos_protection.go\<close>) and the packet
  inspection (\<^verbatim>\<open>dpi.go\<close>). Each operation runs under the mutex of its guard; the clock is an
  argument, read once per call. The \<^verbatim>\<open>MuxError\<close> of a refusal is a constructor of \<open>sec_error\<close>.
\<close>

datatype sec_error = UserNotFound | RoleNotFound | Unauthorized | Forbidden | InvalidCookie
  | RateLimitExceeded | PotentialDoS | RuleMatched string | RuleNotFound

section \<open>Permissions\<close>

type_synonym permission = string

definition PermissionRead :: permission where "PermissionRead = ''read''"
definition PermissionWrite :: permission where "PermissionWrite = ''write''"
definition PermissionDelete :: permission where "PermissionDelete = ''delete''"
definition PermissionAdmin :: permission where "PermissionAdmin = ''admin''"

record Role =
  RoleID :: string
  RoleName :: string
  RoleDescription :: string
  Permissions :: "permission list"

record User =
  UserID :: string
  Username :: string
  Roles :: "string list"

record AuthManager =
  users :: "string \<rightharpoonup> User"
  roles :: "string \<rightharpoonup> Role"
  auth_enabled :: bool
  defaultPolicy :: string

definition AddUser :: "User \<Rightarrow> AuthManager \<Rightarrow> AuthManager" where
  "AddUser u am = am\<lparr>users := (users am)(UserID u \<mapsto> u)\<rparr>"

definition RemoveUser :: "string \<Rightarrow> AuthManager \<Rightarrow> AuthManager \<times> sec_error option" where
  "RemoveUser i am = (if users am i \<noteq> None then (am\<lparr>users := (users am)(i := None)\<rparr>, None)
     else (am, Some UserNotFound))"

definition AddRole :: "Role \<Rightarrow> AuthManager \<Rightarrow> AuthManager" where
  "AddRole r am = am\<lparr>roles := (roles am)(RoleID r \<mapsto> r)\<rparr>"

definition RemoveRole :: "string \<Rightarrow> AuthManager \<Rightarrow> AuthManager \<times> sec_error option" where
  "RemoveRole i am = (if roles am i \<noteq> None then (am\<lparr>roles := (roles am)(i := None)\<rparr>, None)
     else (am, Some RoleNotFound))"

definition createDefaultRoles :: "AuthManager \<Rightarrow> AuthManager" where
  "createDefaultRoles am =
     AddRole \<lparr>RoleID = ''admin'', RoleName = ''Administrator'',
       RoleDescription = ''Administrator role with full access'',
       Permissions = [PermissionRead, PermissionWrite, PermissionDelete, PermissionAdmin]\<rparr>
    (AddRole \<lparr>RoleID = ''user'', RoleName = ''User'', RoleDescription = ''Default role for authenticated users'',
       Permissions = [PermissionRead, PermissionWrite]\<rparr>
    (AddRole \<lparr>RoleID = ''guest'', RoleName = ''Guest'', RoleDescription = ''Default role for unauthenticated users'',
       Permissions = [PermissionRead]\<rparr> am))"

definition NewAuthManager :: "string \<Rightarrow> AuthManager" where
  "NewAuthManager policy = createDefaultRoles
     \<lparr>users = Map.empty, roles = Map.empty, auth_enabled = True, defaultPolicy = policy\<rparr>"

text \<open>The loop over the roles of a user.\<close>

fun role_grants :: "(string \<rightharpoonup> Role) \<Rightarrow> permission \<Rightarrow> string list \<Rightarrow> bool" where
  "role_grants rs p [] = False"
| "role_grants rs p (i # is) = (case rs i of
     None \<Rightarrow> role_grants rs p is
   | Some r \<Rightarrow> if RoleID r = ''admin'' then True
       else if p \<in> set (Permissions r) then True else role_grants rs p is)"

definition CheckPermission :: "string \<Rightarrow> permission \<Rightarrow> AuthManager \<Rightarrow> sec_error option" where
  "CheckPermission userID p am =
     (if \<not> auth_enabled am then None
      else case users am userID of
        None \<Rightarrow> if defaultPolicy am = ''allow'' then None else Some Unauthorized
      | Some u \<Rightarrow> if role_grants (roles am) p (Roles u) then None
          else if defaultPolicy am = ''allow'' then None else Some Forbidden)"

definition EnableAuth :: "AuthManager \<Rightarrow> AuthManager" where "EnableAuth am = am\<lparr>auth_enabled := True\<rparr>"
definition DisableAuth :: "AuthManager \<Rightarrow> AuthManager" where "DisableAuth am = am\<lparr>auth_enabled := False\<rparr>"

datatype auth_op = OpAddUser User | OpRemoveUser string | OpAddRole Role | OpRemoveRole string | OpEnable | OpDisable

fun auth_step :: "auth_op \<Rightarrow> AuthManager \<Rightarrow> AuthManager" where
  "auth_step (OpAddUser u) am = AddUser u am"
| "auth_step (OpRemoveUser i) am = fst (RemoveUser i am)"
| "auth_step (OpAddRole r) am = AddRole r am"
| "auth_step (OpRemoveRole i) am = fst (RemoveRole i am)"
| "auth_step OpEnable am = EnableAuth am"
| "auth_step OpDisable am = DisableAuth am"

definition auth_inv :: "string \<Rightarrow> AuthManager \<Rightarrow> bool" where
  "auth_inv pol am \<longleftrightarrow> defaultPolicy am = pol \<and> (\<forall>i r. roles am i = Some r \<longrightarrow> RoleID r = i)"

lemma auth_inv_step: "auth_inv pol am \<Longrightarrow> auth_inv pol (auth_step op am)"
  by (cases op) (auto simp: auth_inv_def AddUser_def RemoveUser_def AddRole_def RemoveRole_def EnableAuth_def DisableAuth_def)

lemma auth_inv_fold: "auth_inv pol am \<Longrightarrow> auth_inv pol (fold auth_step ops am)"
  by (induction ops arbitrary: am) (simp_all add: auth_inv_step)

lemma auth_inv_New: "auth_inv pol (NewAuthManager pol)"
  by (auto simp: auth_inv_def NewAuthManager_def createDefaultRoles_def AddRole_def)

lemma role_grants_iff:
  "role_grants rs p is \<longleftrightarrow> (\<exists>i\<in>set is. \<exists>r. rs i = Some r \<and> (RoleID r = ''admin'' \<or> p \<in> set (Permissions r)))"
  by (induction "is") (auto split: option.split)

text \<open>
  C14. Whatever users and roles have been added and removed, a request passes exactly when the check
  is disabled, the default policy is to allow, or the user exists and has a role that exists and
  is \<^verbatim>\<open>admin\<close> or lists the permission; otherwise the error tells a missing user from a missing
  permission.
\<close>

theorem permission_granted_iff:
  "let am = fold auth_step ops (NewAuthManager pol) in
   (CheckPermission uid p am = None \<longleftrightarrow> \<not> auth_enabled am \<or> pol = ''allow'' \<or>
      (\<exists>u i r. users am uid = Some u \<and> i \<in> set (Roles u) \<and> roles am i = Some r \<and>
         (i = ''admin'' \<or> p \<in> set (Permissions r)))) \<and>
   (CheckPermission uid p am \<noteq> None \<longrightarrow>
      CheckPermission uid p am = Some (if users am uid = None then Unauthorized else Forbidden))"
proof -
  define am where "am = fold auth_step ops (NewAuthManager pol)"
  have inv: "defaultPolicy am = pol" "\<And>i r. roles am i = Some r \<Longrightarrow> RoleID r = i"
    using auth_inv_fold[OF auth_inv_New, of pol ops] by (simp_all add: am_def auth_inv_def)
  have "role_grants (roles am) p is \<longleftrightarrow> (\<exists>i r. i \<in> set is \<and> roles am i = Some r \<and> (i = ''admin'' \<or> p \<in> set (Permissions r)))"
    for "is" using inv(2) unfolding role_grants_iff by blast
  then show ?thesis unfolding am_def[symmetric] Let_def CheckPermission_def
    by (simp add: inv(1) split: option.split)
qed

theorem permission_granted_iff_witness:
  "let am = fold auth_step [OpAddUser \<lparr>UserID = ''u'', Username = ''U'', Roles = [''guest'']\<rparr>] (NewAuthManager ''deny'')
   in CheckPermission ''u'' PermissionRead am = None \<and> CheckPermission ''u'' PermissionWrite am = Some Forbidden \<and>
      CheckPermission ''v'' PermissionRead am = Some Unauthorized"
proof -
  define ops where "ops = [OpAddUser \<lparr>UserID = ''u'', Username = ''U'', Roles = [''guest'']\<rparr>]"
  note t = permission_granted_iff[where ops = ops and pol = "''deny''", unfolded Let_def]
  have am: "users (fold auth_step ops (NewAuthManager ''deny'')) = [''u'' \<mapsto> \<lparr>UserID = ''u'', Username = ''U'', Roles = [''guest'']\<rparr>]"
    "roles (fold auth_step ops (NewAuthManager ''deny'')) ''guest'' =
      Some \<lparr>RoleID = ''guest'', RoleName = ''Guest'', RoleDescription = ''Default role for unauthenticated users'', Permissions = [PermissionRead]\<rparr>"
    "auth_enabled (fold auth_step ops (NewAuthManager ''deny''))"
    by (simp_all add: ops_def NewAuthManager_def createDefaultRoles_def AddRole_def AddUser_def)
  have "CheckPermission ''u'' PermissionRead (fold auth_step ops (NewAuthManager ''deny'')) = None"
    by (rule t[THEN conjunct1, THEN iffD2]) (simp add: am)
  moreover have "CheckPermission ''u'' PermissionWrite (fold auth_step ops (NewAuthManager ''deny'')) = Some Forbidden"
    using t[where uid = "''u''" and p = PermissionWrite] by (simp add: am PermissionRead_def PermissionWrite_def)
  moreover have "CheckPermission ''v'' PermissionRead (fold auth_step ops (NewAuthManager ''deny'')) = Some Unauthorized"
    using t[where uid = "''v''" and p = PermissionRead] by (simp add: am)
  ultimately show ?thesis unfolding Let_def ops_def by blast
qed

section \<open>SYN cookies\<close>

record SYNCookieProtector =
  syn_enabled :: bool
  syn_secret :: "32 word"

definition NewSYNCookieProtector :: "32 word \<Rightarrow> SYNCookieProtector" where
  "NewSYNCookieProtector secret = \<lparr>syn_enabled = True, syn_secret = secret\<rparr>"

text \<open>The sum of the address bytes and the port, modulo \<open>2^32\<close>.\<close>

definition cookie_sum :: "string \<Rightarrow> int \<Rightarrow> 32 word" where
  "cookie_sum ip port = foldl (\<lambda>c ch. c + of_char ch) 0 ip + word_of_int port"

definition GenerateCookie :: "string \<Rightarrow> int \<Rightarrow> SYNCookieProtector \<Rightarrow> 32 word" where
  "GenerateCookie ip port scp = cookie_sum ip port XOR syn_secret scp"

definition ValidateCookie :: "string \<Rightarrow> int \<Rightarrow> 32 word \<Rightarrow> SYNCookieProtector \<Rightarrow> sec_error option" where
  "ValidateCookie ip port c scp =
     (if \<not> syn_enabled scp then None else if GenerateCookie ip port scp \<noteq> c then Some InvalidCookie else None)"

definition EnableSyn :: "SYNCookieProtector \<Rightarrow> SYNCookieProtector" where "EnableSyn s = s\<lparr>syn_enabled := True\<rparr>"
definition DisableSyn :: "SYNCookieProtector \<Rightarrow> SYNCookieProtector" where "DisableSyn s = s\<lparr>syn_enabled := False\<rparr>"

lemma cookie_roundtrip:
  "ValidateCookie ip port c scp = None \<longleftrightarrow> \<not> syn_enabled scp \<or> c = GenerateCookie ip port scp"
  by (auto simp: ValidateCookie_def)

text \<open>One cookie of its own lets a client compute the cookie of any other client, without the secret.\<close>

lemma cookie_forgery:
  "ValidateCookie ip' port' (GenerateCookie ip port scp XOR cookie_sum ip port XOR cookie_sum ip' port') scp = None"
proof -
  have "(s XOR k) XOR s XOR t = t XOR k" for s k t :: "32 word"
    by (simp add: ac_simps)
  then show ?thesis by (simp add: ValidateCookie_def GenerateCookie_def)
qed

lemma cookie_permutation:
  "GenerateCookie ''10.0.0.12'' 80 scp = GenerateCookie ''10.0.0.21'' 80 scp"
  by (simp add: GenerateCookie_def cookie_sum_def)

section \<open>Rate limit by fingerprint\<close>

record Fingerprint =
  FpIP :: string
  FpUserAgent :: string
  FpProtocol :: string
  FpTimestamp :: time
  FpCount :: int

record DOSProtector =
  fingerprints :: "string \<rightharpoonup> Fingerprint"
  threshold :: int
  windowSize :: duration
  blockDuration :: duration
  blockedIPs :: "string \<rightharpoonup> time"
  dos_enabled :: bool

definition NewDOSProtector :: "int \<Rightarrow> duration \<Rightarrow> duration \<Rightarrow> DOSProtector" where
  "NewDOSProtector th win blk = \<lparr>fingerprints = Map.empty, threshold = th, windowSize = win, blockDuration = blk,
     blockedIPs = Map.empty, dos_enabled = True\<rparr>"

definition generateFingerprintID :: "string \<Rightarrow> string \<Rightarrow> string \<Rightarrow> string" where
  "generateFingerprintID ip ua pr = ip @ '':'' @ ua @ '':'' @ pr"

text \<open>The part of \<^verbatim>\<open>CheckFingerprint\<close> after the test of the block list.\<close>

definition count_fingerprint :: "string \<Rightarrow> string \<Rightarrow> string \<Rightarrow> time \<Rightarrow> DOSProtector \<Rightarrow> DOSProtector \<times> sec_error option" where
  "count_fingerprint ip ua pr now dp =
     (let i = generateFingerprintID ip ua pr in
      case fingerprints dp i of
        None \<Rightarrow> (dp\<lparr>fingerprints := (fingerprints dp)(i \<mapsto>
                    \<lparr>FpIP = ip, FpUserAgent = ua, FpProtocol = pr, FpTimestamp = now, FpCount = 1\<rparr>)\<rparr>, None)
      | Some f \<Rightarrow>
          if now - FpTimestamp f < windowSize dp then
            (let f = f\<lparr>FpCount := FpCount f + 1\<rparr>;
                 dp = dp\<lparr>fingerprints := (fingerprints dp)(i \<mapsto> f)\<rparr>
             in if FpCount f > threshold dp
                then (dp\<lparr>blockedIPs := (blockedIPs dp)(ip \<mapsto> now)\<rparr>, Some PotentialDoS)
                else (dp, None))
          else (dp\<lparr>fingerprints := (fingerprints dp)(i \<mapsto> f\<lparr>FpTimestamp := now, FpCount := 1\<rparr>)\<rparr>, None))"

definition CheckFingerprint :: "string \<Rightarrow> string \<Rightarrow> string \<Rightarrow> time \<Rightarrow> DOSProtector \<Rightarrow> DOSProtector \<times> sec_error option" where
  "CheckFingerprint ip ua pr now dp =
     (if \<not> dos_enabled dp then (dp, None)
      else case blockedIPs dp ip of
        None \<Rightarrow> count_fingerprint ip ua pr now dp
      | Some t \<Rightarrow> if now - t > blockDuration dp
          then count_fingerprint ip ua pr now (dp\<lparr>blockedIPs := (blockedIPs dp)(ip := None)\<rparr>)
          else (dp, Some RateLimitExceeded))"

definition blockIP :: "string \<Rightarrow> time \<Rightarrow> DOSProtector \<Rightarrow> DOSProtector" where
  "blockIP ip now dp = dp\<lparr>blockedIPs := (blockedIPs dp)(ip \<mapsto> now)\<rparr>"

text \<open>One round of the cleaning loop.\<close>

definition cleanupExpiredFingerprints :: "time \<Rightarrow> DOSProtector \<Rightarrow> DOSProtector" where
  "cleanupExpiredFingerprints now dp = dp\<lparr>
     fingerprints := filter_map (\<lambda>_ f. now - FpTimestamp f \<le> windowSize dp) (fingerprints dp),
     blockedIPs := filter_map (\<lambda>_ t. now - t \<le> blockDuration dp) (blockedIPs dp)\<rparr>"

definition EnableDos :: "DOSProtector \<Rightarrow> DOSProtector" where "EnableDos d = d\<lparr>dos_enabled := True\<rparr>"
definition DisableDos :: "DOSProtector \<Rightarrow> DOSProtector" where "DisableDos d = d\<lparr>dos_enabled := False\<rparr>"

text \<open>A run of checks and cleanings with the times at which they happen; the result lists who was admitted.\<close>

datatype dos_event = Check string string string | Clean

fun dos_run :: "(time \<times> dos_event) list \<Rightarrow> DOSProtector \<Rightarrow> string list \<times> DOSProtector" where
  "dos_run [] dp = ([], dp)"
| "dos_run ((t, Clean) # es) dp = dos_run es (cleanupExpiredFingerprints t dp)"
| "dos_run ((t, Check ip ua pr) # es) dp =
     (let (dp, err) = CheckFingerprint ip ua pr t dp; (xs, dp) = dos_run es dp
      in (if err = None then (generateFingerprintID ip ua pr # xs, dp) else (xs, dp)))"

lemma dos_frame:
  "threshold (fst (CheckFingerprint ip ua pr t dp)) = threshold dp"
  "windowSize (fst (CheckFingerprint ip ua pr t dp)) = windowSize dp"
  "dos_enabled (fst (CheckFingerprint ip ua pr t dp)) = dos_enabled dp"
  by (simp_all add: CheckFingerprint_def count_fingerprint_def Let_def split: option.split)

lemma CheckFingerprint_other:
  "generateFingerprintID ip ua pr \<noteq> i \<Longrightarrow>
   fingerprints (fst (CheckFingerprint ip ua pr t dp)) i = fingerprints dp i"
  by (auto simp: CheckFingerprint_def count_fingerprint_def Let_def split: option.split)

lemma CheckFingerprint_known:
  assumes "fingerprints dp i = Some f" "generateFingerprintID ip ua pr = i" "t - FpTimestamp f < windowSize dp" "dos_enabled dp"
  obtains f' where "fingerprints (fst (CheckFingerprint ip ua pr t dp)) i = Some f'" "FpTimestamp f' = FpTimestamp f"
    "FpCount f \<le> FpCount f'"
    "snd (CheckFingerprint ip ua pr t dp) = None \<longrightarrow> FpCount f' = FpCount f + 1 \<and> FpCount f' \<le> threshold dp"
proof -
  have "\<exists>f'. fingerprints (fst (CheckFingerprint ip ua pr t dp)) i = Some f' \<and> FpTimestamp f' = FpTimestamp f \<and>
    FpCount f \<le> FpCount f' \<and>
    (snd (CheckFingerprint ip ua pr t dp) = None \<longrightarrow> FpCount f' = FpCount f + 1 \<and> FpCount f' \<le> threshold dp)"
    using assms by (auto simp: CheckFingerprint_def count_fingerprint_def Let_def split: option.split)
  then show thesis by (elim exE conjE) (rule that)
qed

lemma dos_run_Check:
  "fst (dos_run ((t, Check ip ua pr) # es) dp) =
     (if snd (CheckFingerprint ip ua pr t dp) = None then [generateFingerprintID ip ua pr] else []) @
     fst (dos_run es (fst (CheckFingerprint ip ua pr t dp)))"
  by (simp add: case_prod_unfold Let_def)

lemma dos_run_count:
  "int (length (filter (\<lambda>x. x = i) (fst (dos_run ((t, Check ip ua pr) # es) dp)))) =
     (if snd (CheckFingerprint ip ua pr t dp) = None \<and> generateFingerprintID ip ua pr = i then 1 else 0) +
     int (length (filter (\<lambda>x. x = i) (fst (dos_run es (fst (CheckFingerprint ip ua pr t dp))))))"
  unfolding dos_run_Check by simp

lemma dos_run_bound:
  assumes "fingerprints dp i = Some f" "dos_enabled dp" "\<forall>(t, e)\<in>set es. t - FpTimestamp f < windowSize dp"
  shows "int (length (filter (\<lambda>x. x = i) (fst (dos_run es dp)))) \<le> max 0 (threshold dp - FpCount f)"
  using assms
proof (induction es dp arbitrary: f rule: dos_run.induct)
  case (2 t es dp)
  have "fingerprints (cleanupExpiredFingerprints t dp) i = Some f"
    using 2(2,4) by (simp add: cleanupExpiredFingerprints_def filter_map_Some)
  with 2(1)[of f] 2(3,4) show ?case by (simp add: cleanupExpiredFingerprints_def)
next
  case (3 t ip ua pr es dp)
  let ?r = "CheckFingerprint ip ua pr t dp"
  have ih: "int (length (filter (\<lambda>x. x = i) (fst (dos_run es (fst ?r))))) \<le> max 0 (threshold dp - FpCount f')"
    if "fingerprints (fst ?r) i = Some f'" "FpTimestamp f' = FpTimestamp f" for f'
    using 3(1)[OF refl prod.collapse, of f'] 3(3,4) that by (simp add: dos_frame)
  show ?case
  proof (cases "generateFingerprintID ip ua pr = i")
    case True
    have "t - FpTimestamp f < windowSize dp" using 3(4) by simp
    note known = CheckFingerprint_known[OF 3(2) True this 3(3)]
    obtain f' where f': "fingerprints (fst ?r) i = Some f'"
      "FpTimestamp f' = FpTimestamp f" "FpCount f \<le> FpCount f'"
      "snd ?r = None \<longrightarrow> FpCount f' = FpCount f + 1 \<and> FpCount f' \<le> threshold dp" by (rule known)
    show ?thesis
    proof (cases "snd ?r = None")
      case admitted: True
      with f'(4) have "FpCount f' = FpCount f + 1" "FpCount f' \<le> threshold dp" by blast+
      then have "1 + max 0 (threshold dp - FpCount f') \<le> max 0 (threshold dp - FpCount f)" by linarith
      with ih[OF f'(1,2)] show ?thesis unfolding dos_run_count by auto
    next
      case False
      with ih[OF f'(1,2)] f'(3) show ?thesis unfolding dos_run_count by (auto simp: max_def split: if_splits)
    qed
  next
    case False
    with CheckFingerprint_other[OF False] 3(2) have "fingerprints (fst ?r) i = Some f" by simp
    from ih[OF this refl] False show ?thesis unfolding dos_run_count by simp
  qed
qed simp

lemma dos_run_fresh:
  assumes "fingerprints dp i = None" "dos_enabled dp" "\<forall>(t, e)\<in>set es. t0 \<le> t \<and> t < t0 + windowSize dp"
  shows "int (length (filter (\<lambda>x. x = i) (fst (dos_run es dp)))) \<le> max 1 (threshold dp)"
  using assms
proof (induction es dp rule: dos_run.induct)
  case (2 t es dp)
  then show ?case by (simp add: cleanupExpiredFingerprints_def filter_map_def)
next
  case (3 t ip ua pr es dp)
  let ?r = "CheckFingerprint ip ua pr t dp"
  have ih: "int (length (filter (\<lambda>x. x = i) (fst (dos_run es (fst ?r))))) \<le> max 1 (threshold dp)"
    if "fingerprints (fst ?r) i = None"
    using 3(1)[OF refl prod.collapse that] 3(3,4) by (simp add: dos_frame)
  show ?case
  proof (cases "fingerprints (fst ?r) i")
    case None
    with ih have *: "int (length (filter (\<lambda>x. x = i) (fst (dos_run es (fst ?r))))) \<le> max 1 (threshold dp)" by simp
    have "generateFingerprintID ip ua pr = i \<Longrightarrow> snd ?r \<noteq> None"
      using None 3(2,3) by (auto simp: CheckFingerprint_def count_fingerprint_def Let_def split: option.split_asm if_splits)
    with * show ?thesis unfolding dos_run_count by auto
  next
    case (Some f)
    have i: "generateFingerprintID ip ua pr = i"
      using CheckFingerprint_other[of ip ua pr i t dp] Some 3(2) by (cases "generateFingerprintID ip ua pr = i") auto
    with Some 3(2,3) have f: "FpTimestamp f = t" "FpCount f = 1"
      by (auto simp: CheckFingerprint_def count_fingerprint_def Let_def split: option.split_asm if_splits)
    have "\<forall>(t', e)\<in>set es. t' - FpTimestamp f < windowSize (fst ?r)" using 3(4) by (auto simp: f dos_frame)
    from dos_run_bound[OF Some _ this] 3(3) f
    have "int (length (filter (\<lambda>x. x = i) (fst (dos_run es (fst ?r))))) \<le> max 0 (threshold dp - 1)" by (simp add: dos_frame)
    then show ?thesis unfolding dos_run_count by (simp add: max_def split: if_splits)
  qed
qed simp

text \<open>
  Within one window a new protector admits a fingerprint at most \<^verbatim>\<open>threshold\<close> times (once if
  that is smaller), whatever other clients do, and however often the protector cleans up or an
  address comes off the block list in between.
\<close>

lemma dos_window_limit:
  assumes "\<forall>(t, e)\<in>set es. t0 \<le> t \<and> t < t0 + win"
  shows "int (length (filter (\<lambda>x. x = i) (fst (dos_run es (NewDOSProtector th win blk))))) \<le> max 1 th"
  using dos_run_fresh[of "NewDOSProtector th win blk" i es t0] assms by (simp add: NewDOSProtector_def)

lemma dos_window_limit_witness:
  "let es = [(0::int, Check ''a'' ''u'' ''h''), (1, Check ''a'' ''u'' ''h''), (2, Check ''a'' ''u'' ''h''), (9, Check ''a'' ''u'' ''h'')]
   in (\<forall>(t, e)\<in>set es. 0 \<le> t \<and> t < 0 + 10) \<and> length (fst (dos_run es (NewDOSProtector 2 10 5))) = 2 \<and>
      int (length (filter (\<lambda>x. x = ''a:u:h'') (fst (dos_run es (NewDOSProtector 2 10 5))))) \<le> max 1 2"
proof -
  let ?es = "[(0::int, Check ''a'' ''u'' ''h''), (1, Check ''a'' ''u'' ''h''), (2, Check ''a'' ''u'' ''h''), (9, Check ''a'' ''u'' ''h'')]"
  have t: "\<forall>(t, e)\<in>set ?es. 0 \<le> t \<and> t < 0 + 10" by simp
  have "length (fst (dos_run ?es (NewDOSProtector 2 10 5))) = 2"
    by (simp add: NewDOSProtector_def CheckFingerprint_def count_fingerprint_def generateFingerprintID_def Let_def)
  with t dos_window_limit[OF t, of "''a:u:h''" 2 5] show ?thesis unfolding Let_def by blast
qed

text \<open>The limit is per fingerprint: a client that changes its user agent is not limited at all.\<close>

lemma dos_user_agent_evasion:
  assumes "distinct uas" "blockedIPs dp ip = None"
    "\<And>ua. ua \<in> set uas \<Longrightarrow> fingerprints dp (generateFingerprintID ip ua pr) = None"
  shows "fst (dos_run (map (\<lambda>ua. (t, Check ip ua pr)) uas) dp) = map (\<lambda>ua. generateFingerprintID ip ua pr) uas"
  using assms
proof (induction uas arbitrary: dp)
  case (Cons ua uas)
  let ?r = "CheckFingerprint ip ua pr t dp"
  have ok: "snd ?r = None" using Cons.prems(2,3)
    by (simp add: CheckFingerprint_def count_fingerprint_def Let_def)
  have blk: "blockedIPs (fst ?r) ip = None" using Cons.prems(2,3)
    by (simp add: CheckFingerprint_def count_fingerprint_def Let_def)
  have "generateFingerprintID ip ua pr \<noteq> generateFingerprintID ip x pr" if "x \<in> set uas" for x
    using that Cons.prems(1) by (auto simp: generateFingerprintID_def)
  then have fps: "fingerprints (fst ?r) (generateFingerprintID ip x pr) = None" if "x \<in> set uas" for x
    using CheckFingerprint_other[of ip ua pr _ t dp] Cons.prems(3)[of x] that by simp
  have "distinct uas" using Cons.prems(1) by simp
  from Cons.IH[OF this blk fps] ok show ?case by (simp add: dos_run_Check del: dos_run.simps(3))
qed simp

text \<open>Nothing escapes the colons, so two clients can share a fingerprint.\<close>

lemma fingerprint_collision:
  "generateFingerprintID ''10.0.0.1'' ''x:y'' ''h'' = generateFingerprintID ''10.0.0.1:x'' ''y'' ''h''"
  by (simp add: generateFingerprintID_def)

section \<open>Packet inspection\<close>

record DPIRule =
  DpiID :: string
  DpiName :: string
  DpiDescription :: string
  Pattern :: bytes
  Action :: string

record DPIEngine =
  dpi_rules :: "DPIRule list"
  dpi_enabled :: bool
  maxPacketSize :: int

definition default_rules :: "DPIRule list" where
  "default_rules =
    [\<lparr>DpiID = ''rule1'', DpiName = ''SQL Injection Detection'', DpiDescription = ''Detect common SQL injection patterns'',
      Pattern = bytes_of ([CHR 0x27] @ '' OR '' @ [CHR 0x27] @ ''1'' @ [CHR 0x27] @ ''='' @ [CHR 0x27] @ ''1''), Action = ''block''\<rparr>,
     \<lparr>DpiID = ''rule2'', DpiName = ''XSS Detection'', DpiDescription = ''Detect common XSS patterns'',
      Pattern = bytes_of ''<script>'', Action = ''block''\<rparr>,
     \<lparr>DpiID = ''rule3'', DpiName = ''Malware Signature'', DpiDescription = ''Detect known malware signatures'',
      Pattern = bytes_of ''malware_signature_123'', Action = ''block''\<rparr>]"

definition NewDPIEngine :: "int \<Rightarrow> DPIEngine" where
  "NewDPIEngine n = \<lparr>dpi_rules = default_rules, dpi_enabled = True, maxPacketSize = n\<rparr>"

definition AddRule :: "DPIRule \<Rightarrow> DPIEngine \<Rightarrow> DPIEngine" where
  "AddRule r d = d\<lparr>dpi_rules := dpi_rules d @ [r]\<rparr>"

definition RemoveRule :: "string \<Rightarrow> DPIEngine \<Rightarrow> DPIEngine \<times> sec_error option" where
  "RemoveRule i d = (if \<exists>r\<in>set (dpi_rules d). DpiID r = i
     then (d\<lparr>dpi_rules := remove_first (\<lambda>r. DpiID r = i) (dpi_rules d)\<rparr>, None) else (d, Some RuleNotFound))"

definition apply_rules :: "bytes \<Rightarrow> DPIEngine \<Rightarrow> sec_error option" where
  "apply_rules data d = (case find (\<lambda>r. contains_sub data (Pattern r)) (dpi_rules d) of
     None \<Rightarrow> None | Some r \<Rightarrow> Some (RuleMatched (DpiID r)))"

definition http_methods :: "bytes list" where
  "http_methods = map bytes_of [''GET '', ''POST '', ''PUT '', ''DELETE '', ''HEAD '']"

definition detectHTTP :: "bytes \<Rightarrow> DPIEngine \<Rightarrow> sec_error option" where
  "detectHTTP data d = (if \<not> list_ex (has_prefix data) http_methods then None else apply_rules data d)"

definition detectWebSocket :: "bytes \<Rightarrow> DPIEngine \<Rightarrow> sec_error option" where
  "detectWebSocket data d = (if length data < 2 then None
     else if has_prefix data (bytes_of ''GET '') \<and> contains_sub data (bytes_of ''Upgrade: websocket'')
     then apply_rules data d else None)"

definition detectGRPC :: "bytes \<Rightarrow> DPIEngine \<Rightarrow> sec_error option" where
  "detectGRPC data d = (if length data < 9 then None
     else if data ! 0 AND 0x80 = 0x80 then apply_rules data d else None)"

definition detectGeneric :: "bytes \<Rightarrow> DPIEngine \<Rightarrow> sec_error option" where
  "detectGeneric data d = apply_rules data d"

text \<open>A negative maximum makes the slice expression panic: the outer \<open>None\<close>.\<close>

definition Detect :: "bytes \<Rightarrow> string \<Rightarrow> DPIEngine \<Rightarrow> sec_error option option" where
  "Detect data protocol d =
     (if \<not> dpi_enabled d then Some None
      else if int (length data) > maxPacketSize d \<and> maxPacketSize d < 0 then None
      else (let data = (if int (length data) > maxPacketSize d then take (nat (maxPacketSize d)) data else data) in
        Some (if protocol \<in> {''http'', ''https''} then detectHTTP data d
              else if protocol = ''websocket'' then detectWebSocket data d
              else if protocol = ''grpc'' then detectGRPC data d
              else detectGeneric data d)))"

definition EnableDPI :: "DPIEngine \<Rightarrow> DPIEngine" where "EnableDPI d = d\<lparr>dpi_enabled := True\<rparr>"
definition DisableDPI :: "DPIEngine \<Rightarrow> DPIEngine" where "DisableDPI d = d\<lparr>dpi_enabled := False\<rparr>"

text \<open>Which packets a protocol inspects at all.\<close>

definition inspected :: "string \<Rightarrow> bytes \<Rightarrow> bool" where
  "inspected protocol data \<longleftrightarrow>
     (if protocol \<in> {''http'', ''https''} then \<exists>m\<in>set http_methods. \<exists>r. data = m @ r
      else if protocol = ''websocket'' then
        (\<exists>r. data = bytes_of ''GET '' @ r) \<and> (\<exists>l r. data = l @ bytes_of ''Upgrade: websocket'' @ r)
      else if protocol = ''grpc'' then 9 \<le> length data \<and> bit (data ! 0) 7 else True)"

lemma bit7_iff: "(b AND 0x80 = (0x80 :: byte)) \<longleftrightarrow> bit b 7"
proof -
  have "b AND 2 ^ n = (if bit b n then 2 ^ n else 0)" for n
    by (rule bit_eqI) (auto simp: bit_and_iff bit_exp_iff)
  from this[of 7] show ?thesis by simp
qed

lemma inspected_eq:
  "detectHTTP data d = (if \<exists>m\<in>set http_methods. \<exists>r. data = m @ r then apply_rules data d else None)"
  "detectWebSocket data d =
     (if (\<exists>r. data = bytes_of ''GET '' @ r) \<and> (\<exists>l r. data = l @ bytes_of ''Upgrade: websocket'' @ r) then apply_rules data d else None)"
  "detectGRPC data d = (if 9 \<le> length data \<and> bit (data ! 0) 7 then apply_rules data d else None)"
proof -
  show "detectHTTP data d = (if \<exists>m\<in>set http_methods. \<exists>r. data = m @ r then apply_rules data d else None)"
    by (simp add: detectHTTP_def list_ex_iff has_prefix_append)
  show "detectGRPC data d = (if 9 \<le> length data \<and> bit (data ! 0) 7 then apply_rules data d else None)"
    by (simp add: detectGRPC_def bit7_iff)
  have "\<not> length data < 2" if "has_prefix data (bytes_of ''GET '')"
    using that unfolding has_prefix_def length_bytes_of by simp
  then show "detectWebSocket data d =
     (if (\<exists>r. data = bytes_of ''GET '' @ r) \<and> (\<exists>l r. data = l @ bytes_of ''Upgrade: websocket'' @ r) then apply_rules data d else None)"
    unfolding detectWebSocket_def has_prefix_append[symmetric] contains_sub_iff[symmetric] by simp
qed

lemma Detect_eq:
  assumes "dpi_enabled d" "0 \<le> maxPacketSize d"
  shows "Detect data protocol d =
    Some (if inspected protocol (take (nat (maxPacketSize d)) data) then apply_rules (take (nat (maxPacketSize d)) data) d else None)"
proof -
  define seen where "seen = take (nat (maxPacketSize d)) data"
  have *: "(if int (length data) > maxPacketSize d then take (nat (maxPacketSize d)) data else data) = seen"
    using assms(2) by (simp add: seen_def)
  show ?thesis unfolding Detect_def Let_def * unfolding seen_def[symmetric] using assms
    by (simp add: inspected_def inspected_eq detectGeneric_def)
qed

text \<open>
  An enabled engine reports the first rule, in the order of the list, whose pattern occurs in
  the first \<^verbatim>\<open>maxPacketSize\<close> bytes, for every packet that the protocol inspects, and nothing
  otherwise; it never panics when the maximum is not negative.
\<close>

lemma Detect_first_match:
  assumes "dpi_enabled d" "0 \<le> maxPacketSize d"
  shows "let seen = take (nat (maxPacketSize d)) data in Detect data protocol d \<noteq> None \<and>
    (Detect data protocol d = Some (Some e) \<longleftrightarrow> inspected protocol seen \<and>
      (\<exists>us r vs. dpi_rules d = us @ r # vs \<and> e = RuleMatched (DpiID r) \<and> (\<exists>a b. seen = a @ Pattern r @ b) \<and>
         (\<forall>u\<in>set us. \<not> (\<exists>a b. seen = a @ Pattern u @ b))))"
proof -
  define seen where "seen = take (nat (maxPacketSize d)) data"
  have "apply_rules seen d = Some e \<longleftrightarrow>
      (\<exists>us r vs. dpi_rules d = us @ r # vs \<and> e = RuleMatched (DpiID r) \<and> contains_sub seen (Pattern r) \<and>
         (\<forall>u\<in>set us. \<not> contains_sub seen (Pattern u)))" (is "?l \<longleftrightarrow> ?r")
  proof
    assume ?l
    then obtain r where "find (\<lambda>r. contains_sub seen (Pattern r)) (dpi_rules d) = Some r" "e = RuleMatched (DpiID r)"
      by (auto simp: apply_rules_def split: option.split_asm)
    with find_Some_append_first[OF this(1)] show ?r by blast
  next
    assume ?r
    then obtain us r vs where *: "dpi_rules d = us @ r # vs" "e = RuleMatched (DpiID r)" "contains_sub seen (Pattern r)"
      "\<forall>u\<in>set us. \<not> contains_sub seen (Pattern u)" by blast
    have "find (\<lambda>r. contains_sub seen (Pattern r)) (us @ r # vs) = Some r" using *(3,4) by (induction us) auto
    with * show ?l by (simp add: apply_rules_def)
  qed
  then show ?thesis using Detect_eq[OF assms, of data protocol] unfolding seen_def contains_sub_iff Let_def by simp
qed

lemma Detect_first_match_witness:
  "Detect (bytes_of ''GET /<script>'') ''http'' (NewDPIEngine 64) = Some (Some (RuleMatched ''rule2''))"
proof -
  have d: "dpi_enabled (NewDPIEngine 64)" "0 \<le> maxPacketSize (NewDPIEngine 64)" by (simp_all add: NewDPIEngine_def)
  have seen: "take (nat (maxPacketSize (NewDPIEngine 64))) (bytes_of ''GET /<script>'') = bytes_of ''GET /<script>''"
    by (simp add: NewDPIEngine_def)
  have i: "inspected ''http'' (bytes_of ''GET /<script>'')"
    unfolding inspected_def has_prefix_append[symmetric] contains_sub_iff[symmetric] by code_simp
  have "dpi_rules (NewDPIEngine 64) = [default_rules ! 0] @ default_rules ! 1 # [default_rules ! 2] \<and>
      RuleMatched ''rule2'' = RuleMatched (DpiID (default_rules ! 1)) \<and>
      contains_sub (bytes_of ''GET /<script>'') (Pattern (default_rules ! 1)) \<and>
      (\<forall>u\<in>set [default_rules ! 0]. \<not> contains_sub (bytes_of ''GET /<script>'') (Pattern u))"
    by code_simp
  with Detect_first_match[OF d, of "bytes_of ''GET /<script>''" "''http''" "RuleMatched ''rule2''"] i
  show ?thesis unfolding Let_def seen contains_sub_iff[symmetric] by blast
qed

text \<open>A pattern that lies across the size limit is not seen; a method in lower case is not inspected at all.\<close>

lemma Detect_evasions:
  "Detect (bytes_of ''GET /<script>'') ''http'' (NewDPIEngine 12) = Some None"
  "Detect (bytes_of ''PATCH /<script>'') ''http'' (NewDPIEngine 64) = Some None"
  "Detect [] ''http'' (NewDPIEngine (-1)) = None"
  by code_simp+

end
