(* ===== verification/Security_Manager.thy ===== *)
theory Security_Manager
  imports Security_Basics "HOL-Library.Signed_Division"
begin

text \<open>
  \<^verbatim>\<open>core/security/security_manager.go\<close>: the manager that puts the four guards together, its
  event channel, its address lists, its security level and its policies. TLS settings and the
  logging are left out; the goroutine of the event channel is \<open>process_event\<close>, one event a step.
\<close>

datatype SecurityLevel = LevelLow | LevelMedium | LevelHigh | LevelCritical

record SecurityEvent =
  EvID :: string
  EvType :: string
  EvLevel :: SecurityLevel
  EvSource :: string
  EvTarget :: string
  EvDescription :: string
  EvTimestamp :: time

record SecurityMetrics =
  TotalConnections :: int
  BlockedConnections :: int
  BlockedPackets :: int
  SecurityEvents :: int
  LastEventTime :: time

record SecurityConfig =
  DOSThreshold :: "64 word"      \<comment> \<open>a signed \<^verbatim>\<open>int\<close>\<close>
  DOSWindowSize :: duration
  DOSBlockDuration :: duration
  DPIMaxPacketSize :: int
  DefaultAuthPolicy :: string
  ConfLevel :: SecurityLevel
  EventBufferSize :: int
  MaxEventHandlers :: int

text \<open>A handler is a number; \<open>code_ptr h\<close> is the address \<^verbatim>\<open>%p\<close> prints for it.\<close>

record SecurityManager =
  dosProtector :: DOSProtector
  synCookie :: SYNCookieProtector
  dpiEngine :: DPIEngine
  authManager :: AuthManager
  sm_config :: SecurityConfig
  sm_enabled :: bool
  securityLevel :: SecurityLevel
  sm_metrics :: SecurityMetrics
  sm_events :: "SecurityEvent list"
  eventHandlers :: "nat list"
  whitelist :: "string set"
  blacklist :: "string set"
  closed :: bool

text \<open>\<^verbatim>\<open>make\<close> panics on a negative buffer size or capacity.\<close>

definition NewSecurityManager :: "SecurityConfig \<Rightarrow> SecurityManager option" where
  "NewSecurityManager c =
     (let c = c\<lparr>EventBufferSize := (if EventBufferSize c = 0 then 1000 else EventBufferSize c),
                MaxEventHandlers := (if MaxEventHandlers c = 0 then 10 else MaxEventHandlers c)\<rparr>
      in if EventBufferSize c < 0 \<or> MaxEventHandlers c < 0 then None
         else Some \<lparr>dosProtector = NewDOSProtector (sint (DOSThreshold c)) (DOSWindowSize c) (DOSBlockDuration c),
           synCookie = NewSYNCookieProtector 0xC0DE1234, dpiEngine = NewDPIEngine (DPIMaxPacketSize c),
           authManager = NewAuthManager (DefaultAuthPolicy c), sm_config = c, sm_enabled = True,
           securityLevel = ConfLevel c,
           sm_metrics = \<lparr>TotalConnections = 0, BlockedConnections = 0, BlockedPackets = 0, SecurityEvents = 0, LastEventTime = 0\<rparr>,
           sm_events = [], eventHandlers = [], whitelist = {}, blacklist = {}, closed = False\<rparr>)"

definition CheckConnectionSecurity :: "string \<Rightarrow> string \<Rightarrow> string \<Rightarrow> time \<Rightarrow> SecurityManager \<Rightarrow> SecurityManager \<times> bool" where
  "CheckConnectionSecurity ip ua pr now sm =
     (if \<not> sm_enabled sm then (sm, True)
      else (let (d, err) = CheckFingerprint ip ua pr now (dosProtector sm);
                sm = sm\<lparr>dosProtector := d\<rparr>
            in if err \<noteq> None
               then (sm\<lparr>sm_metrics := (sm_metrics sm)\<lparr>BlockedConnections := BlockedConnections (sm_metrics sm) + 1\<rparr>\<rparr>, False)
               else (sm, True)))"

text \<open>The outer \<open>None\<close> is the panic of \<^verbatim>\<open>Detect\<close>.\<close>

definition CheckPacketSecurity :: "bytes \<Rightarrow> string \<Rightarrow> SecurityManager \<Rightarrow> (SecurityManager \<times> bool \<times> string) option" where
  "CheckPacketSecurity data pr sm =
     (if \<not> sm_enabled sm then Some (sm, True, [])
      else case Detect data pr (dpiEngine sm) of
        None \<Rightarrow> None
      | Some None \<Rightarrow> Some (sm, True, [])
      | Some (Some e) \<Rightarrow>
          Some (sm\<lparr>sm_metrics := (sm_metrics sm)\<lparr>BlockedPackets := BlockedPackets (sm_metrics sm) + 1\<rparr>\<rparr>, False, ''block''))"

definition sm_CheckPermission :: "string \<Rightarrow> permission \<Rightarrow> SecurityManager \<Rightarrow> bool" where
  "sm_CheckPermission u p sm = (if \<not> sm_enabled sm then True else CheckPermission u p (authManager sm) = None)"

definition Enable :: "SecurityManager \<Rightarrow> SecurityManager" where
  "Enable sm = sm\<lparr>sm_enabled := True, dosProtector := EnableDos (dosProtector sm), synCookie := EnableSyn (synCookie sm),
     dpiEngine := EnableDPI (dpiEngine sm), authManager := EnableAuth (authManager sm)\<rparr>"

definition Disable :: "SecurityManager \<Rightarrow> SecurityManager" where
  "Disable sm = sm\<lparr>sm_enabled := False, dosProtector := DisableDos (dosProtector sm), synCookie := DisableSyn (synCookie sm),
     dpiEngine := DisableDPI (dpiEngine sm), authManager := DisableAuth (authManager sm)\<rparr>"

section \<open>Events\<close>

definition AddEventHandler :: "nat \<Rightarrow> SecurityManager \<Rightarrow> SecurityManager \<times> bool" where
  "AddEventHandler h sm =
     (if int (length (eventHandlers sm)) \<ge> MaxEventHandlers (sm_config sm) then (sm, False)
      else (sm\<lparr>eventHandlers := eventHandlers sm @ [h]\<rparr>, True))"

definition RemoveEventHandler :: "(nat \<Rightarrow> nat) \<Rightarrow> nat \<Rightarrow> SecurityManager \<Rightarrow> SecurityManager" where
  "RemoveEventHandler code_ptr h sm =
     sm\<lparr>eventHandlers := remove_first (\<lambda>g. code_ptr g = code_ptr h) (eventHandlers sm)\<rparr>"

text \<open>A full buffer drops the event.\<close>

definition PublishEvent :: "string \<Rightarrow> string \<Rightarrow> string \<Rightarrow> string \<Rightarrow> SecurityLevel \<Rightarrow> string \<Rightarrow> time \<Rightarrow> SecurityManager \<Rightarrow> SecurityManager" where
  "PublishEvent ty src tgt desc lvl newID now sm =
     (if closed sm then sm
      else (let e = \<lparr>EvID = newID, EvType = ty, EvLevel = lvl, EvSource = src, EvTarget = tgt, EvDescription = desc, EvTimestamp = now\<rparr>
            in if int (length (sm_events sm)) < EventBufferSize (sm_config sm) then sm\<lparr>sm_events := sm_events sm @ [e]\<rparr>
               else sm))"

text \<open>One event taken from the channel; the result is the handlers started for it.\<close>

definition process_event :: "SecurityManager \<Rightarrow> SecurityManager \<times> (nat \<times> SecurityEvent) list" where
  "process_event sm = (case sm_events sm of
     [] \<Rightarrow> (sm, [])
   | e # es \<Rightarrow> (sm\<lparr>sm_events := es, sm_metrics := (sm_metrics sm)
         \<lparr>SecurityEvents := SecurityEvents (sm_metrics sm) + 1, LastEventTime := EvTimestamp e\<rparr>\<rparr>,
       map (\<lambda>h. (h, e)) (eventHandlers sm)))"

section \<open>Address lists, level and policy\<close>

definition AddToWhitelist :: "string \<Rightarrow> SecurityManager \<Rightarrow> SecurityManager" where
  "AddToWhitelist ip sm = sm\<lparr>whitelist := insert ip (whitelist sm)\<rparr>"
definition RemoveFromWhitelist :: "string \<Rightarrow> SecurityManager \<Rightarrow> SecurityManager" where
  "RemoveFromWhitelist ip sm = sm\<lparr>whitelist := whitelist sm - {ip}\<rparr>"
definition AddToBlacklist :: "string \<Rightarrow> SecurityManager \<Rightarrow> SecurityManager" where
  "AddToBlacklist ip sm = sm\<lparr>blacklist := insert ip (blacklist sm)\<rparr>"
definition RemoveFromBlacklist :: "string \<Rightarrow> SecurityManager \<Rightarrow> SecurityManager" where
  "RemoveFromBlacklist ip sm = sm\<lparr>blacklist := blacklist sm - {ip}\<rparr>"
definition IsWhitelisted :: "string \<Rightarrow> SecurityManager \<Rightarrow> bool" where "IsWhitelisted ip sm \<longleftrightarrow> ip \<in> whitelist sm"
definition IsBlacklisted :: "string \<Rightarrow> SecurityManager \<Rightarrow> bool" where "IsBlacklisted ip sm \<longleftrightarrow> ip \<in> blacklist sm"

definition level_num :: "SecurityLevel \<Rightarrow> int" where
  "level_num l = (case l of LevelLow \<Rightarrow> 0 | LevelMedium \<Rightarrow> 1 | LevelHigh \<Rightarrow> 2 | LevelCritical \<Rightarrow> 3)"

definition scaled_threshold :: "SecurityLevel \<Rightarrow> 64 word \<Rightarrow> 64 word" where
  "scaled_threshold l t = (case l of LevelLow \<Rightarrow> t * 2 | LevelMedium \<Rightarrow> t
     | LevelHigh \<Rightarrow> word_of_int (sint t sdiv 2) | LevelCritical \<Rightarrow> word_of_int (sint t sdiv 4))"

definition UpdateSecurityLevel :: "SecurityLevel \<Rightarrow> string \<Rightarrow> time \<Rightarrow> SecurityManager \<Rightarrow> SecurityManager" where
  "UpdateSecurityLevel l newID now sm =
     PublishEvent ''security.level.changed'' ''system'' ''security_manager''
       (''Security level changed to '' @ show_int (level_num l)) LevelMedium newID now
       (sm\<lparr>securityLevel := l, sm_config := (sm_config sm)\<lparr>ConfLevel := l,
            DOSThreshold := scaled_threshold l (DOSThreshold (sm_config sm))\<rparr>\<rparr>)"

text \<open>A value of a policy, a decoded \<^verbatim>\<open>map[string]interface{}\<close>; \<open>POther\<close> stands for the types no operation looks into.\<close>

datatype pval = PInt "64 word" | PStr string | PMap "(string \<times> pval) list" | PList "pval list" | POther

type_synonym policy = "(string \<times> pval) list"

datatype policy_error = PolicyNil | MissingField string

text \<open>\<open>None\<close> is the nil map.\<close>

definition ValidateSecurityPolicy :: "policy option \<Rightarrow> policy_error option" where
  "ValidateSecurityPolicy p = (case p of
     None \<Rightarrow> Some PolicyNil
   | Some kvs \<Rightarrow> map_option MissingField (find (\<lambda>f. map_of kvs f = None) [''dos_protection'', ''dpi_rules'', ''auth_policy'']))"

definition ApplySecurityPolicy :: "policy option \<Rightarrow> string \<Rightarrow> time \<Rightarrow> SecurityManager \<Rightarrow> SecurityManager \<times> policy_error option" where
  "ApplySecurityPolicy p newID now sm = (case ValidateSecurityPolicy p of
     Some e \<Rightarrow> (sm, Some e)
   | None \<Rightarrow>
      (let kvs = the p;
           c = sm_config sm;
           c = (case map_of kvs ''dos_protection'' of
                  Some (PMap d) \<Rightarrow> (case map_of d ''threshold'' of Some (PInt t) \<Rightarrow> c\<lparr>DOSThreshold := t\<rparr> | _ \<Rightarrow> c)
                | _ \<Rightarrow> c);
           c = (case map_of kvs ''auth_policy'' of Some (PStr s) \<Rightarrow> c\<lparr>DefaultAuthPolicy := s\<rparr> | _ \<Rightarrow> c)
       in (PublishEvent ''security.policy.applied'' ''system'' ''security_manager'' ''Security policy updated''
             LevelMedium newID now (sm\<lparr>sm_config := c\<rparr>), None)))"

definition Close :: "SecurityManager \<Rightarrow> SecurityManager" where
  "Close sm = (if closed sm then sm else Disable (sm\<lparr>closed := True\<rparr>))"

section \<open>What the checks depend on\<close>

text \<open>
  A run of a manager: checks of connections, rounds of the cleaning loop and administration; the
  result lists the fingerprints that were admitted.
\<close>

datatype sm_event = SmCheck string string string | SmClean | SmLevel SecurityLevel string | SmPolicy "policy option" string
  | SmPublish string string string string SecurityLevel string | SmProcess | SmWhite string | SmBlack string | SmHandler nat

definition admin_step :: "time \<Rightarrow> sm_event \<Rightarrow> SecurityManager \<Rightarrow> SecurityManager" where
  "admin_step t e sm = (case e of
     SmCheck ip ua pr \<Rightarrow> sm
   | SmClean \<Rightarrow> sm\<lparr>dosProtector := cleanupExpiredFingerprints t (dosProtector sm)\<rparr>
   | SmLevel l i \<Rightarrow> UpdateSecurityLevel l i t sm
   | SmPolicy p i \<Rightarrow> fst (ApplySecurityPolicy p i t sm)
   | SmPublish ty s tg d l i \<Rightarrow> PublishEvent ty s tg d l i t sm
   | SmProcess \<Rightarrow> fst (process_event sm)
   | SmWhite ip \<Rightarrow> AddToWhitelist ip sm
   | SmBlack ip \<Rightarrow> AddToBlacklist ip sm
   | SmHandler h \<Rightarrow> fst (AddEventHandler h sm))"

fun sm_run :: "(time \<times> sm_event) list \<Rightarrow> SecurityManager \<Rightarrow> string list \<times> SecurityManager" where
  "sm_run [] sm = ([], sm)"
| "sm_run ((t, SmCheck ip ua pr) # es) sm =
     (let (sm, ok) = CheckConnectionSecurity ip ua pr t sm; (xs, sm) = sm_run es sm
      in (if ok then (generateFingerprintID ip ua pr # xs, sm) else (xs, sm)))"
| "sm_run ((t, e) # es) sm = sm_run es (admin_step t e sm)"

text \<open>The events the rate limiter takes part in.\<close>

fun dos_events :: "(time \<times> sm_event) list \<Rightarrow> (time \<times> dos_event) list" where
  "dos_events [] = []"
| "dos_events ((t, SmCheck ip ua pr) # es) = (t, Check ip ua pr) # dos_events es"
| "dos_events ((t, SmClean) # es) = (t, Clean) # dos_events es"
| "dos_events ((t, _) # es) = dos_events es"

lemmas admin_defs = UpdateSecurityLevel_def PublishEvent_def ApplySecurityPolicy_def process_event_def
  AddToWhitelist_def AddToBlacklist_def AddEventHandler_def

lemma admin_step_frame:
  "sm_enabled (admin_step t e sm) = sm_enabled sm"
  "dosProtector (admin_step t e sm) = (if e = SmClean then cleanupExpiredFingerprints t (dosProtector sm) else dosProtector sm)"
  "dpiEngine (admin_step t e sm) = dpiEngine sm"
  "authManager (admin_step t e sm) = authManager sm"
  by (cases e; simp add: admin_step_def admin_defs Let_def split: option.split list.split)+

lemma CheckConnectionSecurity_enabled:
  assumes "sm_enabled sm"
  shows "sm_enabled (fst (CheckConnectionSecurity ip ua pr t sm))"
    and "dosProtector (fst (CheckConnectionSecurity ip ua pr t sm)) = fst (CheckFingerprint ip ua pr t (dosProtector sm))"
    and "snd (CheckConnectionSecurity ip ua pr t sm) \<longleftrightarrow> snd (CheckFingerprint ip ua pr t (dosProtector sm)) = None"
  using assms by (auto simp: CheckConnectionSecurity_def case_prod_unfold Let_def)

lemma sm_run_refines:
  assumes "sm_enabled sm"
  shows "fst (sm_run es sm) = fst (dos_run (dos_events es) (dosProtector sm)) \<and>
    dosProtector (snd (sm_run es sm)) = snd (dos_run (dos_events es) (dosProtector sm))"
  using assms
proof (induction es arbitrary: sm)
  case (Cons te es)
  obtain t e where te: "te = (t, e)" by (cases te)
  note frame = admin_step_frame(1,2)[of t e sm]
  show ?case
  proof (cases e)
    case (SmCheck ip ua pr)
    note c = CheckConnectionSecurity_enabled[OF Cons.prems, of ip ua pr t]
    from Cons.IH[OF c(1)] show ?thesis by (simp add: te SmCheck case_prod_unfold Let_def c(2,3))
  qed (use Cons.IH[of "admin_step t e sm"] Cons.prems frame in \<open>simp_all add: te\<close>)
qed simp

lemma dos_events_times: "(t, e) \<in> set (dos_events es) \<Longrightarrow> \<exists>e'. (t, e') \<in> set es"
  by (induction es rule: dos_events.induct) auto

lemma sm_run_frame:
  "dpiEngine (snd (sm_run es sm)) = dpiEngine sm \<and> authManager (snd (sm_run es sm)) = authManager sm \<and>
   sm_enabled (snd (sm_run es sm)) = sm_enabled sm"
proof (induction es arbitrary: sm)
  case (Cons te es)
  obtain t e where te: "te = (t, e)" by (cases te)
  have check: "dpiEngine (fst (CheckConnectionSecurity ip ua pr t sm)) = dpiEngine sm"
    "authManager (fst (CheckConnectionSecurity ip ua pr t sm)) = authManager sm"
    "sm_enabled (fst (CheckConnectionSecurity ip ua pr t sm)) = sm_enabled sm" for ip ua pr
    by (simp_all add: CheckConnectionSecurity_def case_prod_unfold Let_def)
  show ?case
  proof (cases e)
    case (SmCheck ip ua pr)
    with Cons.IH[of "fst (CheckConnectionSecurity ip ua pr t sm)"] show ?thesis
      by (simp add: te case_prod_unfold Let_def check)
  qed (use Cons.IH[of "admin_step t e sm"] admin_step_frame[of t e sm] in \<open>simp_all add: te\<close>)
qed simp

lemma NewSecurityManager_guards:
  assumes "NewSecurityManager c = Some sm"
  shows "dosProtector sm = NewDOSProtector (sint (DOSThreshold c)) (DOSWindowSize c) (DOSBlockDuration c)"
    and "dpiEngine sm = NewDPIEngine (DPIMaxPacketSize c)" and "authManager sm = NewAuthManager (DefaultAuthPolicy c)"
    and "sm_enabled sm"
  using assms by (auto simp: NewSecurityManager_def Let_def split: if_splits)


definition example_config :: SecurityConfig where
  "example_config = \<lparr>DOSThreshold = 2, DOSWindowSize = 10, DOSBlockDuration = 5, DPIMaxPacketSize = 64,
     DefaultAuthPolicy = ''deny'', ConfLevel = LevelMedium, EventBufferSize = 0, MaxEventHandlers = 0\<rparr>"


text \<open>A blacklisted address is admitted, and after 64 changes to the low level the configured threshold is 0.\<close>

lemma blacklist_not_consulted:
  "sm_enabled sm \<Longrightarrow> snd (CheckConnectionSecurity ip ua pr now (AddToBlacklist ip sm)) = snd (CheckConnectionSecurity ip ua pr now sm)"
  by (simp add: CheckConnectionSecurity_def AddToBlacklist_def case_prod_unfold Let_def)

lemma low_level_doubles:
  "(scaled_threshold LevelLow ^^ n) t = t * 2 ^ n"
  by (induction n) (simp_all add: scaled_threshold_def ac_simps)

lemma low_level_64_times: "(scaled_threshold LevelLow ^^ 64) t = 0"
proof -
  have z: "(2 :: 64 word) ^ 64 = 0" by simp
  show ?thesis unfolding low_level_doubles z by simp
qed

text \<open>The events of a manager stay within the buffer, the handlers within their maximum.\<close>

definition sm_bounded :: "SecurityManager \<Rightarrow> bool" where
  "sm_bounded sm \<longleftrightarrow> int (length (sm_events sm)) \<le> EventBufferSize (sm_config sm) \<and>
     int (length (eventHandlers sm)) \<le> MaxEventHandlers (sm_config sm)"

lemma sm_bounded_New: "NewSecurityManager c = Some sm \<Longrightarrow> sm_bounded sm"
  by (auto simp: NewSecurityManager_def Let_def sm_bounded_def split: if_splits)

lemma sm_bounded_admin [inv_intros]: "sm_bounded sm \<Longrightarrow> sm_bounded (admin_step t e sm)"
  by (cases e) (auto simp: sm_bounded_def admin_step_def admin_defs Let_def split: option.split list.split pval.split)

end
