(* ===== verification/Optimized_Security.thy ===== *)
theory Optimized_Security
  imports Prelude Complex_Main
begin

text \<open>
  \<^verbatim>\<open>core/security/security_manager_enhanced.go\<close>: connection tracking, threat detection and automatic
  response. Regular expressions are matched by an argument (pattern text, data); \<^verbatim>\<open>float64\<close> scores
  are rationals; the random identifiers and the metadata of a threat are left out. The remote
  address of a connection comes as \<^verbatim>\<open>net.SplitHostPort\<close> returns it, \<open>None\<close> for its error.
\<close>

section \<open>Configuration and events\<close>

record OptimizedSecurityConfig =
  Enabled :: bool
  AuditEnabled :: bool
  ThreatDetectionEnabled :: bool
  DDoSProtectionEnabled :: bool
  MaxConnectionsPerIP :: int
  ConnectionTimeout :: duration
  AnomalyDetectionEnabled :: bool
  SignatureDetection :: bool
  BehaviorAnalysis :: bool
  MetricsEnabled :: bool
  MetricsInterval :: duration
  AlertingEnabled :: bool
  EventBufferSize :: int
  AutoResponseEnabled :: bool
  BlockDuration :: duration
  EscalationEnabled :: bool

definition DefaultOptimizedSecurityConfig :: OptimizedSecurityConfig where
  "DefaultOptimizedSecurityConfig = \<lparr>Enabled = True, AuditEnabled = True, ThreatDetectionEnabled = True,
     DDoSProtectionEnabled = True, MaxConnectionsPerIP = 100, ConnectionTimeout = 30 * second,
     AnomalyDetectionEnabled = True, SignatureDetection = True, BehaviorAnalysis = True,
     MetricsEnabled = True, MetricsInterval = 10 * second, AlertingEnabled = True, EventBufferSize = 10000, AutoResponseEnabled = True,
     BlockDuration = 60 * minute, EscalationEnabled = True\<rparr>"

definition ThreatTypeDDoS :: string where "ThreatTypeDDoS = ''ddos''"
definition ThreatTypeBruteForce :: string where "ThreatTypeBruteForce = ''brute_force''"
definition ThreatTypeSQLInjection :: string where "ThreatTypeSQLInjection = ''sql_injection''"
definition ThreatTypeXSS :: string where "ThreatTypeXSS = ''xss''"
definition ThreatTypeAnomaly :: string where "ThreatTypeAnomaly = ''anomaly''"

definition SeverityLow :: string where "SeverityLow = ''low''"
definition SeverityMedium :: string where "SeverityMedium = ''medium''"
definition SeverityHigh :: string where "SeverityHigh = ''high''"
definition SeverityCritical :: string where "SeverityCritical = ''critical''"

lemmas severity_defs = SeverityLow_def SeverityMedium_def SeverityHigh_def SeverityCritical_def

record ThreatEvent =
  TeType :: string
  TeSeverity :: string
  TeSource :: string
  TeTarget :: string
  TeDescription :: string
  TeTimestamp :: time
  TeBlocked :: bool
  TeResponse :: string
  TeConfidence :: rat

section \<open>Connection tracking\<close>

record ConnectionInfo =
  CiIP :: string
  CiPort :: int
  ConnectTime :: time
  LastActivity :: time
  RequestCount :: "64 word"
  BytesSent :: "64 word"
  BytesReceived :: "64 word"
  CiUserAgent :: string
  CiProtocol :: string

type_synonym tracker = "string \<rightharpoonup> ConnectionInfo"

definition conn_id :: "string \<Rightarrow> int \<Rightarrow> string" where
  "conn_id ip port = ip @ '':'' @ show_int port"

definition TrackConnection :: "string \<Rightarrow> int \<Rightarrow> string \<Rightarrow> string \<Rightarrow> time \<Rightarrow> tracker \<Rightarrow> tracker" where
  "TrackConnection ip port ua pr now ct = ct(conn_id ip port \<mapsto>
     \<lparr>CiIP = ip, CiPort = port, ConnectTime = now, LastActivity = now, RequestCount = 0, BytesSent = 0,
      BytesReceived = 0, CiUserAgent = ua, CiProtocol = pr\<rparr>)"

definition UpdateConnection :: "string \<Rightarrow> 64 word \<Rightarrow> 64 word \<Rightarrow> time \<Rightarrow> tracker \<Rightarrow> tracker" where
  "UpdateConnection i sent received now ct = (case ct i of None \<Rightarrow> ct
     | Some c \<Rightarrow> ct(i \<mapsto> c\<lparr>LastActivity := now, RequestCount := RequestCount c + 1,
         BytesSent := BytesSent c + sent, BytesReceived := BytesReceived c + received\<rparr>))"

text \<open>The length of \<^verbatim>\<open>GetConnectionsByIP(ip)\<close>.\<close>

definition ConnectionsByIP :: "string \<Rightarrow> tracker \<Rightarrow> nat" where
  "ConnectionsByIP ip ct = map_len (filter_map (\<lambda>_ c. CiIP c = ip) ct)"

definition CleanupConnections :: "OptimizedSecurityConfig \<Rightarrow> time \<Rightarrow> tracker \<Rightarrow> tracker" where
  "CleanupConnections cfg now ct = filter_map (\<lambda>_ c. \<not> LastActivity c < now - ConnectionTimeout cfg) ct"

section \<open>Threat detection\<close>

record ThreatSignature =
  SigID :: string
  SigName :: string
  SigType :: string
  SigPattern :: "string option"
  SigSeverity :: string
  SigEnabled :: bool

record BehaviorProfile =
  RequestRate :: rat
  AvgRequestSize :: rat
  LastUpdate :: time
  AnomalyScore :: rat
  BaselineScore :: rat

record AnomalyDetector =
  baselines :: "string \<rightharpoonup> rat"
  ad_threshold :: rat

definition SetBaseline :: "string \<Rightarrow> rat \<Rightarrow> AnomalyDetector \<Rightarrow> AnomalyDetector" where
  "SetBaseline k v ad = ad\<lparr>baselines := (baselines ad)(k \<mapsto> v)\<rparr>"

definition SetThreshold :: "rat \<Rightarrow> AnomalyDetector \<Rightarrow> AnomalyDetector" where
  "SetThreshold t ad = ad\<lparr>ad_threshold := t\<rparr>"

text \<open>
  Without a baseline the second lookup finds none either, so nothing is stored. Division by a zero
  baseline gives an infinity, which exceeds every threshold, or, for 0, a NaN, which exceeds none.
\<close>

definition DetectAnomaly :: "string \<Rightarrow> rat \<Rightarrow> AnomalyDetector \<Rightarrow> AnomalyDetector \<times> bool" where
  "DetectAnomaly k v ad = (case baselines ad k of
     None \<Rightarrow> ((if baselines ad k \<noteq> None then ad\<lparr>baselines := (baselines ad)(k \<mapsto> v)\<rparr> else ad), False)
   | Some b \<Rightarrow> (ad, if b = 0 then v \<noteq> 0
       else (let d = (v - b) / b; d = (if d < 0 then - d else d) in d > ad_threshold ad)))"

definition default_signatures :: "ThreatSignature list" where
  "default_signatures =
    [\<lparr>SigID = ''sql_injection_1'', SigName = ''SQL Injection Pattern'', SigType = ThreatTypeSQLInjection,
      SigPattern = Some ''(?i)(union|select|insert|update|delete|drop|create|alter).*?(from|into|table|database)'',
      SigSeverity = SeverityHigh, SigEnabled = True\<rparr>,
     \<lparr>SigID = ''xss_1'', SigName = ''XSS Pattern'', SigType = ThreatTypeXSS,
      SigPattern = Some (''(?i)<script[^>]*>.*?</script>|javascript:|on'' @ [CHR 0x5C] @ ''w+'' @ [CHR 0x5C] @ ''s*=''),
      SigSeverity = SeverityMedium, SigEnabled = True\<rparr>,
     \<lparr>SigID = ''brute_force_1'', SigName = ''Brute Force Pattern'', SigType = ThreatTypeBruteForce,
      SigPattern = Some ''(admin|root|administrator|login|password)'',
      SigSeverity = SeverityMedium, SigEnabled = True\<rparr>]"

definition new_threat :: "string \<Rightarrow> string \<Rightarrow> string \<Rightarrow> string \<Rightarrow> string \<Rightarrow> time \<Rightarrow> rat \<Rightarrow> ThreatEvent" where
  "new_threat ty sev src tgt desc now conf = \<lparr>TeType = ty, TeSeverity = sev, TeSource = src, TeTarget = tgt,
     TeDescription = desc, TeTimestamp = now, TeBlocked = False, TeResponse = [], TeConfidence = conf\<rparr>"

definition sig_matches :: "(string \<Rightarrow> bytes \<Rightarrow> bool) \<Rightarrow> bytes \<Rightarrow> ThreatSignature \<Rightarrow> bool" where
  "sig_matches match data s \<longleftrightarrow> SigEnabled s \<and> (case SigPattern s of None \<Rightarrow> False | Some p \<Rightarrow> match p data)"

text \<open>\<open>ks\<close>: the signature identifiers in \<^verbatim>\<open>range\<close> order.\<close>

fun detectBySignature :: "(string \<Rightarrow> bytes \<Rightarrow> bool) \<Rightarrow> (string \<rightharpoonup> ThreatSignature) \<Rightarrow> string list \<Rightarrow> bytes \<Rightarrow> string \<Rightarrow> string \<Rightarrow>
    time \<Rightarrow> ThreatEvent list" where
  "detectBySignature match sigs [] data src tgt now = []"
| "detectBySignature match sigs (k # ks) data src tgt now = (case sigs k of
     None \<Rightarrow> detectBySignature match sigs ks data src tgt now
   | Some s \<Rightarrow> (if sig_matches match data s
       then [new_threat (SigType s) (SigSeverity s) src tgt (''Signature match: '' @ SigName s) now (9 / 10)] else []) @
       detectBySignature match sigs ks data src tgt now)"

definition calculateRequestRate :: "string \<Rightarrow> rat" where "calculateRequestRate src = 10"

definition calculateAnomalyScore :: "BehaviorProfile \<Rightarrow> rat" where
  "calculateAnomalyScore p =
     (if RequestRate p > 100 then 3 / 10 else 0) + (if AvgRequestSize p > 5000 then 2 / 10 else 0) +
     (if RequestRate p > BaselineScore p * 2 then 3 / 10 else 0)"

definition getSeverityByScore :: "rat \<Rightarrow> string" where
  "getSeverityByScore s = (if s \<ge> 9 / 10 then SeverityCritical else if s \<ge> 7 / 10 then SeverityHigh
     else if s \<ge> 5 / 10 then SeverityMedium else SeverityLow)"

definition detectByBehavior :: "bytes \<Rightarrow> string \<Rightarrow> string \<Rightarrow> time \<Rightarrow> (string \<rightharpoonup> BehaviorProfile) \<Rightarrow>
    (string \<rightharpoonup> BehaviorProfile) \<times> ThreatEvent list" where
  "detectByBehavior data src tgt now ps =
     (let p = (case ps src of Some p \<Rightarrow> p
         | None \<Rightarrow> \<lparr>RequestRate = 0, AvgRequestSize = 0, LastUpdate = now, AnomalyScore = 0, BaselineScore = 1 / 2\<rparr>);
          p = p\<lparr>LastUpdate := now, RequestRate := calculateRequestRate src, AvgRequestSize := of_nat (length data)\<rparr>;
          p = p\<lparr>AnomalyScore := calculateAnomalyScore p\<rparr>
      in (ps(src \<mapsto> p),
          if AnomalyScore p > 8 / 10
          then [new_threat ThreatTypeAnomaly (getSeverityByScore (AnomalyScore p)) src tgt ''Behavioral anomaly detected'' now (AnomalyScore p)]
          else []))"

definition detectAnomalies :: "bytes \<Rightarrow> string \<Rightarrow> string \<Rightarrow> time \<Rightarrow> ThreatEvent list" where
  "detectAnomalies data src tgt now =
     (if length data > 10000 then [new_threat ThreatTypeAnomaly SeverityMedium src tgt ''Large request size anomaly'' now (7 / 10)] else [])"

section \<open>Response\<close>

text \<open>The blacklist holds the time until which an address is blocked.\<close>

type_synonym block_list = "string \<rightharpoonup> time"

definition blockIP :: "string \<Rightarrow> duration \<Rightarrow> time \<Rightarrow> block_list \<Rightarrow> block_list" where
  "blockIP ip d now bl = bl(ip \<mapsto> now + d)"

definition IsBlocked :: "string \<Rightarrow> time \<Rightarrow> block_list \<Rightarrow> block_list \<times> bool" where
  "IsBlocked ip now bl = (case bl ip of None \<Rightarrow> (bl, False)
     | Some t \<Rightarrow> if now > t then (bl(ip := None), False) else (bl, True))"

definition RespondToThreat :: "OptimizedSecurityConfig \<Rightarrow> ThreatEvent \<Rightarrow> time \<Rightarrow> block_list \<Rightarrow> block_list \<times> string" where
  "RespondToThreat cfg te now bl =
     (if \<not> AutoResponseEnabled cfg then (bl, ''no_action'')
      else if TeSeverity te = SeverityCritical then (blockIP (TeSource te) (BlockDuration cfg * 2) now bl, ''blocked'')
      else if TeSeverity te = SeverityHigh then (blockIP (TeSource te) (BlockDuration cfg) now bl, ''blocked'')
      else if TeSeverity te = SeverityMedium then (bl, ''rate_limited'')
      else (bl, ''logged''))"

section \<open>The manager\<close>

record OptimizedSecurityManager =
  config :: OptimizedSecurityConfig
  connections :: tracker
  signatures :: "string \<rightharpoonup> ThreatSignature"
  behaviorProfiles :: "string \<rightharpoonup> BehaviorProfile"
  blacklist :: block_list
  events :: "ThreatEvent list"
  event_cap :: int      \<comment> \<open>the capacity of the channel, fixed when it is made\<close>
  ThreatsByType :: "string \<Rightarrow> int"
  ThreatsBySeverity :: "string \<Rightarrow> int"
  totalConnections :: "64 word"
  blockedConnections :: "64 word"
  totalThreats :: "64 word"
  blockedThreats :: "64 word"

definition NewOptimizedSecurityManager :: "OptimizedSecurityConfig option \<Rightarrow> OptimizedSecurityManager option" where
  "NewOptimizedSecurityManager cfg =
     (let c = (case cfg of None \<Rightarrow> DefaultOptimizedSecurityConfig | Some c \<Rightarrow> c)
      in if EventBufferSize c < 0 then None
         else Some \<lparr>config = c, connections = Map.empty,
           signatures = map_of (map (\<lambda>s. (SigID s, s)) default_signatures),
           behaviorProfiles = Map.empty, blacklist = Map.empty, events = [], event_cap = EventBufferSize c, ThreatsByType = (\<lambda>_. 0),
           ThreatsBySeverity = (\<lambda>_. 0), totalConnections = 0, blockedConnections = 0, totalThreats = 0, blockedThreats = 0\<rparr>)"

text \<open>A full buffer drops the event.\<close>

definition publishThreatEvent :: "ThreatEvent \<Rightarrow> OptimizedSecurityManager \<Rightarrow> OptimizedSecurityManager" where
  "publishThreatEvent te sm = (if int (length (events sm)) < event_cap sm then sm\<lparr>events := events sm @ [te]\<rparr> else sm)"

definition CheckConnection :: "(string \<times> int) option \<Rightarrow> string \<Rightarrow> string \<Rightarrow> string \<Rightarrow> time \<Rightarrow> OptimizedSecurityManager \<Rightarrow>
    OptimizedSecurityManager \<times> bool \<times> string" where
  "CheckConnection addr localAddr ua pr now sm =
     (if \<not> Enabled (config sm) then (sm, True, ''security_disabled'')
      else case addr of
        None \<Rightarrow> (sm, False, ''invalid_address'')
      | Some (ip, port) \<Rightarrow>
          (let (bl, blocked) = IsBlocked ip now (blacklist sm); sm = sm\<lparr>blacklist := bl\<rparr>
           in if blocked then (sm\<lparr>blockedConnections := blockedConnections sm + 1\<rparr>, False, ''ip_blocked'')
              else (let sm = sm\<lparr>connections := TrackConnection ip port ua pr now (connections sm)\<rparr>;
                        n = ConnectionsByIP ip (connections sm)
                    in if DDoSProtectionEnabled (config sm) \<and> int n > MaxConnectionsPerIP (config sm)
                       then (let sm = publishThreatEvent (new_threat ThreatTypeDDoS SeverityHigh ip localAddr
                                   (''Too many connections from IP: '' @ show_int (int n)) now (9 / 10)) sm
                             in (sm\<lparr>blockedConnections := blockedConnections sm + 1\<rparr>, False, ''ddos_protection''))
                       else (sm\<lparr>totalConnections := totalConnections sm + 1\<rparr>, True, ''allowed''))))"

definition DetectThreats :: "(string \<Rightarrow> bytes \<Rightarrow> bool) \<Rightarrow> string list \<Rightarrow> bytes \<Rightarrow> string \<Rightarrow> string \<Rightarrow> time \<Rightarrow> OptimizedSecurityManager \<Rightarrow>
    OptimizedSecurityManager \<times> ThreatEvent list" where
  "DetectThreats match ks data src tgt now sm =
     (let ts1 = (if SignatureDetection (config sm) then detectBySignature match (signatures sm) ks data src tgt now else []);
          (ps, ts2) = (if BehaviorAnalysis (config sm) then detectByBehavior data src tgt now (behaviorProfiles sm)
                       else (behaviorProfiles sm, []));
          ts3 = (if AnomalyDetectionEnabled (config sm) then detectAnomalies data src tgt now else [])
      in (sm\<lparr>behaviorProfiles := ps\<rparr>, ts1 @ ts2 @ ts3))"

text \<open>
  The loop over the threats; the channel holds pointers, so the published event is the one whose
  response is filled in afterwards.
\<close>

fun respond_all :: "time \<Rightarrow> ThreatEvent list \<Rightarrow> OptimizedSecurityManager \<Rightarrow> OptimizedSecurityManager \<times> bool \<times> string list" where
  "respond_all now [] sm = (sm, False, [])"
| "respond_all now (te # tes) sm =
     (let (bl, r) = RespondToThreat (config sm) te now (blacklist sm);
          te = te\<lparr>TeBlocked := (r = ''blocked''), TeResponse := r\<rparr>;
          sm = (publishThreatEvent te sm)\<lparr>blacklist := bl\<rparr>;
          sm = sm\<lparr>blockedThreats := blockedThreats sm + (if r = ''blocked'' then 1 else 0), totalThreats := totalThreats sm + 1\<rparr>;
          (sm, blocked, rs) = respond_all now tes sm
      in (sm, r = ''blocked'' \<or> blocked, r # rs))"

definition CheckData :: "(string \<Rightarrow> bytes \<Rightarrow> bool) \<Rightarrow> string list \<Rightarrow> bytes \<Rightarrow> string \<Rightarrow> string \<Rightarrow> time \<Rightarrow> OptimizedSecurityManager \<Rightarrow>
    OptimizedSecurityManager \<times> bool \<times> string list" where
  "CheckData match ks data src tgt now sm =
     (if \<not> Enabled (config sm) \<or> \<not> ThreatDetectionEnabled (config sm) then (sm, True, [''security_disabled''])
      else (let (sm, ts) = DetectThreats match ks data src tgt now sm;
                (sm, blocked, rs) = respond_all now ts sm
            in (sm, \<not> blocked, if rs = [] then [''clean''] else rs)))"

text \<open>Go compares strings byte by byte.\<close>

fun str_le :: "string \<Rightarrow> string \<Rightarrow> bool" where
  "str_le [] t = True"
| "str_le (x # xs) [] = False"
| "str_le (x # xs) (y # ys) = (if x = y then str_le xs ys else (of_char x :: nat) < of_char y)"

text \<open>One event taken from the channel; the result says whether it is written to the audit log and alerted.\<close>

definition processEvent :: "ThreatEvent \<Rightarrow> OptimizedSecurityManager \<Rightarrow> OptimizedSecurityManager \<times> bool \<times> bool" where
  "processEvent te sm =
     (sm\<lparr>ThreatsByType := (ThreatsByType sm)(TeType te := ThreatsByType sm (TeType te) + 1),
         ThreatsBySeverity := (ThreatsBySeverity sm)(TeSeverity te := ThreatsBySeverity sm (TeSeverity te) + 1)\<rparr>,
      AuditEnabled (config sm), AlertingEnabled (config sm) \<and> str_le SeverityHigh (TeSeverity te))"

definition eventProcessor :: "OptimizedSecurityManager \<Rightarrow> OptimizedSecurityManager \<times> bool \<times> bool" where
  "eventProcessor sm = (case events sm of [] \<Rightarrow> (sm, False, False) | te # tes \<Rightarrow> processEvent te (sm\<lparr>events := tes\<rparr>))"

definition cleanupWorker :: "time \<Rightarrow> OptimizedSecurityManager \<Rightarrow> OptimizedSecurityManager" where
  "cleanupWorker now sm = sm\<lparr>connections := CleanupConnections (config sm) now (connections sm)\<rparr>"

definition BlockIP :: "string \<Rightarrow> duration \<Rightarrow> time \<Rightarrow> OptimizedSecurityManager \<Rightarrow> OptimizedSecurityManager" where
  "BlockIP ip d now sm = sm\<lparr>blacklist := blockIP ip d now (blacklist sm)\<rparr>"

definition UnblockIP :: "string \<Rightarrow> OptimizedSecurityManager \<Rightarrow> OptimizedSecurityManager" where
  "UnblockIP ip sm = sm\<lparr>blacklist := (blacklist sm)(ip := None)\<rparr>"

definition IsIPBlocked :: "string \<Rightarrow> time \<Rightarrow> OptimizedSecurityManager \<Rightarrow> OptimizedSecurityManager \<times> bool" where
  "IsIPBlocked ip now sm = (let (bl, b) = IsBlocked ip now (blacklist sm) in (sm\<lparr>blacklist := bl\<rparr>, b))"

definition AddThreatSignature :: "ThreatSignature \<Rightarrow> OptimizedSecurityManager \<Rightarrow> OptimizedSecurityManager" where
  "AddThreatSignature s sm = sm\<lparr>signatures := (signatures sm)(SigID s \<mapsto> s)\<rparr>"

definition RemoveThreatSignature :: "string \<Rightarrow> OptimizedSecurityManager \<Rightarrow> OptimizedSecurityManager" where
  "RemoveThreatSignature i sm = sm\<lparr>signatures := (signatures sm)(i := None)\<rparr>"

definition UpdateConfig :: "OptimizedSecurityConfig \<Rightarrow> OptimizedSecurityManager \<Rightarrow> OptimizedSecurityManager" where
  "UpdateConfig c sm = sm\<lparr>config := c\<rparr>"

section \<open>When data is blocked\<close>

definition severe :: "string \<Rightarrow> bool" where
  "severe s \<longleftrightarrow> s = SeverityHigh \<or> s = SeverityCritical"

lemma behavior_never_reports: "snd (detectByBehavior data src tgt now ps) = []"
  by (simp add: detectByBehavior_def calculateAnomalyScore_def calculateRequestRate_def Let_def)

lemma signature_severities:
  "(\<exists>te\<in>set (detectBySignature match sigs ks data src tgt now). severe (TeSeverity te)) \<longleftrightarrow>
   (\<exists>k\<in>set ks. \<exists>s. sigs k = Some s \<and> sig_matches match data s \<and> severe (SigSeverity s))"
  by (induction ks) (auto simp: new_threat_def split: option.split)

lemma signature_sources: "te \<in> set (detectBySignature match sigs ks data src tgt now) \<Longrightarrow> TeSource te = src"
  by (induction ks) (auto simp: new_threat_def split: option.split_asm if_splits)

lemma DetectThreats_severe:
  "(\<exists>te\<in>set (snd (DetectThreats match ks data src tgt now sm)). severe (TeSeverity te)) \<longleftrightarrow>
   SignatureDetection (config sm) \<and>
   (\<exists>k\<in>set ks. \<exists>s. signatures sm k = Some s \<and> sig_matches match data s \<and> severe (SigSeverity s))"
proof -
  have "\<not> severe (TeSeverity te)" if "te \<in> set (detectAnomalies data src tgt now)" for te
    using that by (auto simp: detectAnomalies_def new_threat_def severe_def severity_defs split: if_splits)
  then show ?thesis unfolding signature_severities[symmetric, of _ _ _ _ src tgt now]
    using behavior_never_reports[of data src tgt now "behaviorProfiles sm"]
    by (auto simp: DetectThreats_def Let_def case_prod_unfold)
qed

lemma DetectThreats_sources: "te \<in> set (snd (DetectThreats match ks data src tgt now sm)) \<Longrightarrow> TeSource te = src"
  using behavior_never_reports[of data src tgt now "behaviorProfiles sm"] signature_sources[of te]
  by (auto simp: DetectThreats_def Let_def case_prod_unfold detectAnomalies_def new_threat_def split: if_splits)

lemma DetectThreats_frame:
  "config (fst (DetectThreats match ks data src tgt now sm)) = config sm"
  "blacklist (fst (DetectThreats match ks data src tgt now sm)) = blacklist sm"
  by (simp_all add: DetectThreats_def Let_def case_prod_unfold)

lemma respond_all_spec:
  assumes "\<forall>te\<in>set tes. TeSource te = src" and "0 \<le> BlockDuration (config sm)"
  shows "config (fst (respond_all now tes sm)) = config sm \<and>
    (fst (snd (respond_all now tes sm)) \<longleftrightarrow> AutoResponseEnabled (config sm) \<and> (\<exists>te\<in>set tes. severe (TeSeverity te))) \<and>
    (\<forall>ip. ip \<noteq> src \<longrightarrow> blacklist (fst (respond_all now tes sm)) ip = blacklist sm ip) \<and>
    (if fst (snd (respond_all now tes sm))
     then \<exists>t. blacklist (fst (respond_all now tes sm)) src = Some t \<and> now + BlockDuration (config sm) \<le> t
     else blacklist (fst (respond_all now tes sm)) src = blacklist sm src)"
  using assms
proof (induction tes arbitrary: sm)
  case (Cons te tes)
  obtain bl r where resp: "RespondToThreat (config sm) te now (blacklist sm) = (bl, r)" by fastforce
  define te' where "te' = te\<lparr>TeBlocked := (r = ''blocked''), TeResponse := r\<rparr>"
  define sm' where "sm' = ((publishThreatEvent te' sm)\<lparr>blacklist := bl\<rparr>)\<lparr>blockedThreats := blockedThreats sm + (if r = ''blocked'' then 1 else 0),
    totalThreats := totalThreats sm + 1\<rparr>"
  have frame: "config sm' = config sm" "blacklist sm' = bl" by (simp_all add: sm'_def publishThreatEvent_def)
  have step: "fst (respond_all now (te # tes) sm) = fst (respond_all now tes sm')"
    "fst (snd (respond_all now (te # tes) sm)) \<longleftrightarrow> r = ''blocked'' \<or> fst (snd (respond_all now tes sm'))"
    by (simp_all add: resp te'_def sm'_def publishThreatEvent_def case_prod_unfold Let_def)
  have r: "r = ''blocked'' \<longleftrightarrow> AutoResponseEnabled (config sm) \<and> severe (TeSeverity te)"
    "\<And>ip. ip \<noteq> src \<Longrightarrow> bl ip = blacklist sm ip"
    "if r = ''blocked'' then \<exists>t. bl src = Some t \<and> now + BlockDuration (config sm) \<le> t else bl = blacklist sm"
    using resp Cons.prems by (auto simp: RespondToThreat_def blockIP_def severe_def split: if_splits)
  have "\<forall>te\<in>set tes. TeSource te = src" using Cons.prems(1) by simp
  with Cons.IH[of sm'] Cons.prems(2) have ih: "config (fst (respond_all now tes sm')) = config sm"
    "fst (snd (respond_all now tes sm')) \<longleftrightarrow> AutoResponseEnabled (config sm) \<and> (\<exists>te\<in>set tes. severe (TeSeverity te))"
    "\<forall>ip. ip \<noteq> src \<longrightarrow> blacklist (fst (respond_all now tes sm')) ip = bl ip"
    "if fst (snd (respond_all now tes sm'))
     then \<exists>t. blacklist (fst (respond_all now tes sm')) src = Some t \<and> now + BlockDuration (config sm) \<le> t
     else blacklist (fst (respond_all now tes sm')) src = bl src"
    unfolding frame by blast+
  show ?case unfolding step using ih r by (auto split: if_splits)
qed simp

lemma CheckData_run:
  assumes "Enabled (config sm)" "ThreatDetectionEnabled (config sm)"
  shows "CheckData match ks data src tgt now sm =
    (let r = respond_all now (snd (DetectThreats match ks data src tgt now sm)) (fst (DetectThreats match ks data src tgt now sm))
     in (fst r, \<not> fst (snd r), if snd (snd r) = [] then [''clean''] else snd (snd r)))"
  using assms by (simp add: CheckData_def case_prod_unfold Let_def)

lemma IsIPBlocked_iff: "snd (IsIPBlocked ip t sm) \<longleftrightarrow> (\<exists>u. blacklist sm ip = Some u \<and> t \<le> u)"
  by (auto simp: IsIPBlocked_def IsBlocked_def case_prod_unfold Let_def split: option.split)

lemma CheckConnection_blocked:
  assumes "Enabled (config sm)" "snd (IsIPBlocked ip t sm)"
  shows "snd (CheckConnection (Some (ip, port)) la ua pr t sm) = (False, ''ip_blocked'')"
  using assms by (auto simp: CheckConnection_def IsIPBlocked_def case_prod_unfold Let_def)

text \<open>
  Data is refused exactly when detection and automatic response are on and an enabled
  signature of high or critical severity matches it; the source is then blocked for at least
  \<^verbatim>\<open>BlockDuration\<close>, all its connections included, and no other address is affected.
\<close>

lemma CheckData_blocks_iff:
  assumes "0 \<le> BlockDuration (config sm)"
  shows "case CheckData match ks data src tgt now sm of (sm', ok, rs) \<Rightarrow>
    (\<not> ok \<longleftrightarrow> Enabled (config sm) \<and> ThreatDetectionEnabled (config sm) \<and> SignatureDetection (config sm) \<and>
       AutoResponseEnabled (config sm) \<and>
       (\<exists>k\<in>set ks. \<exists>s. signatures sm k = Some s \<and> sig_matches match data s \<and> SigSeverity s \<in> {SeverityHigh, SeverityCritical})) \<and>
    (\<not> ok \<longrightarrow> (\<forall>t \<le> now + BlockDuration (config sm). snd (IsIPBlocked src t sm') \<and>
       snd (CheckConnection (Some (src, port)) la ua pr t sm') = (False, ''ip_blocked''))) \<and>
    (\<forall>ip t. ip \<noteq> src \<or> ok \<longrightarrow> snd (IsIPBlocked ip t sm') = snd (IsIPBlocked ip t sm))"
proof (cases "Enabled (config sm) \<and> ThreatDetectionEnabled (config sm)")
  case False
  then have "CheckData match ks data src tgt now sm = (sm, True, [''security_disabled''])" by (auto simp: CheckData_def)
  with False show ?thesis by auto
next
  case True
  define d where "d = DetectThreats match ks data src tgt now sm"
  define r where "r = respond_all now (snd d) (fst d)"
  have fd: "config (fst d) = config sm" "blacklist (fst d) = blacklist sm" by (simp_all add: d_def DetectThreats_frame)
  have src: "\<forall>te\<in>set (snd d). TeSource te = src" unfolding d_def using DetectThreats_sources by blast
  from True have run: "CheckData match ks data src tgt now sm =
      (fst r, \<not> fst (snd r), if snd (snd r) = [] then [''clean''] else snd (snd r))"
    by (simp add: CheckData_run r_def d_def Let_def)
  note s = respond_all_spec[OF src, of "fst d" now, unfolded fd, OF assms, folded r_def]
  have blocked: "fst (snd r) \<longleftrightarrow> SignatureDetection (config sm) \<and> AutoResponseEnabled (config sm) \<and>
      (\<exists>k\<in>set ks. \<exists>s. signatures sm k = Some s \<and> sig_matches match data s \<and> SigSeverity s \<in> {SeverityHigh, SeverityCritical})"
    using s DetectThreats_severe[of match ks data src tgt now sm] unfolding d_def[symmetric]
    by (auto simp: severe_def)
  have long: "snd (IsIPBlocked src t (fst r))" if "fst (snd r)" "t \<le> now + BlockDuration (config sm)" for t
    using s that unfolding IsIPBlocked_iff by auto
  have "snd (IsIPBlocked ip t (fst r)) = snd (IsIPBlocked ip t sm)" if "ip \<noteq> src \<or> \<not> fst (snd r)" for ip t
    using s that unfolding IsIPBlocked_iff by (cases "ip = src") auto
  moreover have "Enabled (config (fst r))" using s True by simp
  ultimately show ?thesis unfolding run prod.case using True blocked long CheckConnection_blocked[of "fst r" src] by blast
qed

lemma CheckData_blocks_iff_witness:
  "\<exists>sm. NewOptimizedSecurityManager None = Some sm \<and>
     \<not> fst (snd (CheckData (\<lambda>p d. d = bytes_of ''drop table'') [''xss_1'', ''sql_injection_1''] (bytes_of ''drop table'') ''a'' ''b'' 7 sm)) \<and>
     snd (IsIPBlocked ''a'' (7 + 60 * minute)
       (fst (CheckData (\<lambda>p d. d = bytes_of ''drop table'') [''xss_1'', ''sql_injection_1''] (bytes_of ''drop table'') ''a'' ''b'' 7 sm)))"
proof -
  obtain sm where sm: "NewOptimizedSecurityManager None = Some sm"
    by (simp add: NewOptimizedSecurityManager_def DefaultOptimizedSecurityConfig_def Let_def)
  then have c: "config sm = DefaultOptimizedSecurityConfig" "signatures sm = map_of (map (\<lambda>s. (SigID s, s)) default_signatures)"
    by (auto simp: NewOptimizedSecurityManager_def Let_def split: if_splits)
  let ?m = "\<lambda>p d. d = bytes_of ''drop table''" and ?ks = "[''xss_1'', ''sql_injection_1'']" and ?d = "bytes_of ''drop table''"
  have nn: "0 \<le> BlockDuration (config sm)" by (simp add: c DefaultOptimizedSecurityConfig_def minute_def second_def)
  obtain sm' ok rs where r: "CheckData ?m ?ks ?d ''a'' ''b'' 7 sm = (sm', ok, rs)" by (cases "CheckData ?m ?ks ?d ''a'' ''b'' 7 sm") auto
  have "\<exists>k\<in>set ?ks. \<exists>s. signatures sm k = Some s \<and> sig_matches ?m ?d s \<and> SigSeverity s \<in> {SeverityHigh, SeverityCritical}"
    by (simp add: c default_signatures_def sig_matches_def)
  with CheckData_blocks_iff[OF nn, where match = ?m and ks = ?ks and data = ?d and src = "''a''" and tgt = "''b''" and now = 7] have "\<not> ok" "snd (IsIPBlocked ''a'' (7 + 60 * minute) sm')"
    unfolding r prod.case by (simp_all add: c DefaultOptimizedSecurityConfig_def)
  with sm r show ?thesis by auto
qed

text \<open>
  An address over its limit stays refused until its connections time out: refused attempts are
  tracked like the others and nothing untracks a closed connection.
\<close>

lemma ip_stays_rejected:
  assumes "Enabled (config sm)" "DDoSProtectionEnabled (config sm)" "finite (dom (connections sm))"
    and "int (ConnectionsByIP ip (connections sm)) > MaxConnectionsPerIP (config sm)"
    and ports: "\<And>c. connections sm (conn_id ip port) = Some c \<Longrightarrow> CiIP c = ip"
  shows "\<not> fst (snd (CheckConnection (Some (ip, port)) la ua pr now sm)) \<and>
    int (ConnectionsByIP ip (connections (fst (CheckConnection (Some (ip, port)) la ua pr now sm)))) > MaxConnectionsPerIP (config sm)"
proof -
  let ?ct = "TrackConnection ip port ua pr now (connections sm)"
  have "dom (filter_map (\<lambda>_ c. CiIP c = ip) (connections sm)) \<subseteq> dom (filter_map (\<lambda>_ c. CiIP c = ip) ?ct)"
    using ports by (auto simp: TrackConnection_def filter_map_Some)
  moreover have "finite (dom (filter_map (\<lambda>_ c. CiIP c = ip) ?ct))" using assms(3) by (simp add: TrackConnection_def)
  ultimately have "ConnectionsByIP ip (connections sm) \<le> ConnectionsByIP ip ?ct"
    unfolding ConnectionsByIP_def map_len_def by (rule card_mono[rotated])
  with assms(1,2,4) show ?thesis
    by (simp add: CheckConnection_def Let_def case_prod_unfold publishThreatEvent_def)
qed

text \<open>Severities are compared as strings: low and medium threats are alerted, critical ones are not.\<close>

lemma critical_not_alerted:
  "str_le SeverityHigh SeverityLow" "str_le SeverityHigh SeverityMedium" "str_le SeverityHigh SeverityHigh"
  "\<not> str_le SeverityHigh SeverityCritical"
  by code_simp+

lemma baseline_never_learned: "baselines (fst (DetectAnomaly k v ad)) = baselines ad"
  by (simp add: DetectAnomaly_def split: option.split)

end
