(* ===== verification/Policy_Engine.thy ===== *)
theory Policy_Engine
  imports Prelude
begin

text \<open>
  \<^verbatim>\<open>core/governance/policy_engine.go\<close>: versioned policies and the notification of listeners. The
  content of a policy is opaque; \<open>marshal\<close> is \<^verbatim>\<open>json.Marshal\<close> of it. A notification is recorded as
  the listener and the policy as it is when the goroutine is started.
\<close>

record Policy =
  PolicyID :: string
  PolicyType :: string
  PolicyName :: string
  PolicyDescription :: string
  Content :: "nat option"
  Version :: int
  Active :: bool
  CreatedAt :: time
  UpdatedAt :: time

record PolicyEngine =
  policies :: "string \<rightharpoonup> Policy"
  listeners :: "string \<rightharpoonup> nat list"
  enabled :: bool
  notified :: "(nat \<times> Policy) list"

datatype policy_error = EmptyID | EmptyType string | NilContent string

definition NewPolicyEngine :: PolicyEngine where
  "NewPolicyEngine = \<lparr>policies = Map.empty, listeners = Map.empty, enabled = True, notified = []\<rparr>"

definition validatePolicy :: "Policy \<Rightarrow> policy_error option" where
  "validatePolicy p = (if PolicyID p = [] then Some EmptyID
     else if PolicyType p = [] then Some (EmptyType (PolicyID p))
     else if Content p = None then Some (NilContent (PolicyID p)) else None)"

definition isContentEqual :: "(nat option \<Rightarrow> string option) \<Rightarrow> nat option \<Rightarrow> nat option \<Rightarrow> bool" where
  "isContentEqual marshal c1 c2 = (case (marshal c1, marshal c2) of (Some j1, Some j2) \<Rightarrow> j1 = j2 | _ \<Rightarrow> False)"

definition notifyListeners :: "Policy \<Rightarrow> PolicyEngine \<Rightarrow> PolicyEngine" where
  "notifyListeners p pe = (case listeners pe (PolicyType p) of None \<Rightarrow> pe
     | Some ls \<Rightarrow> pe\<lparr>notified := notified pe @ map (\<lambda>l. (l, p)) ls\<rparr>)"

text \<open>An update has stored the new content before it compares the two.\<close>

definition AddPolicy :: "(nat option \<Rightarrow> string option) \<Rightarrow> Policy \<Rightarrow> time \<Rightarrow> PolicyEngine \<Rightarrow> PolicyEngine \<times> policy_error option" where
  "AddPolicy marshal p now pe = (case validatePolicy p of
     Some e \<Rightarrow> (pe, Some e)
   | None \<Rightarrow> (case policies pe (PolicyID p) of
       Some q \<Rightarrow>
         (let q = q\<lparr>PolicyType := PolicyType p, PolicyName := PolicyName p, PolicyDescription := PolicyDescription p,
                    Content := Content p, Version := Version q + 1, UpdatedAt := now\<rparr>;
              changed = (Active q \<noteq> Active p \<or> \<not> isContentEqual marshal (Content q) (Content p));
              q = (if changed then q\<lparr>Active := Active p\<rparr> else q);
              pe = pe\<lparr>policies := (policies pe)(PolicyID p \<mapsto> q)\<rparr>
          in ((if changed then notifyListeners q pe else pe), None))
     | None \<Rightarrow>
         (let q = p\<lparr>Version := 1, CreatedAt := now, UpdatedAt := now\<rparr>;
              pe = pe\<lparr>policies := (policies pe)(PolicyID p \<mapsto> q)\<rparr>
          in ((if Active q then notifyListeners q pe else pe), None))))"

definition RemovePolicy :: "string \<Rightarrow> PolicyEngine \<Rightarrow> PolicyEngine \<times> bool" where
  "RemovePolicy i pe = (case policies pe i of
     None \<Rightarrow> (pe, False)
   | Some p \<Rightarrow> (let pe = notifyListeners (p\<lparr>Active := False\<rparr>) pe
       in (pe\<lparr>policies := (policies pe)(i := None)\<rparr>, True)))"

definition GetPolicy :: "string \<Rightarrow> PolicyEngine \<Rightarrow> Policy option" where
  "GetPolicy i pe = policies pe i"

text \<open>\<open>ks\<close>: the policy identifiers in \<^verbatim>\<open>range\<close> order.\<close>

fun GetPoliciesByType :: "string \<Rightarrow> string list \<Rightarrow> PolicyEngine \<Rightarrow> Policy list" where
  "GetPoliciesByType ty [] pe = []"
| "GetPoliciesByType ty (k # ks) pe = (case policies pe k of
     None \<Rightarrow> GetPoliciesByType ty ks pe
   | Some p \<Rightarrow> (if PolicyType p = ty then [p] else []) @ GetPoliciesByType ty ks pe)"

definition RegisterListener :: "string \<Rightarrow> nat \<Rightarrow> PolicyEngine \<Rightarrow> PolicyEngine" where
  "RegisterListener ty l pe =
     pe\<lparr>listeners := (listeners pe)(ty \<mapsto> (case listeners pe ty of None \<Rightarrow> [] | Some ls \<Rightarrow> ls) @ [l])\<rparr>"

definition EnablePolicies :: "PolicyEngine \<Rightarrow> PolicyEngine" where "EnablePolicies pe = pe\<lparr>enabled := True\<rparr>"
definition DisablePolicies :: "PolicyEngine \<Rightarrow> PolicyEngine" where "DisablePolicies pe = pe\<lparr>enabled := False\<rparr>"

section \<open>Versions\<close>

datatype policy_op = OpAdd Policy | OpRemove string | OpListen string nat | OpEnabled bool

definition policy_step :: "(nat option \<Rightarrow> string option) \<Rightarrow> time \<times> policy_op \<Rightarrow> PolicyEngine \<Rightarrow> PolicyEngine" where
  "policy_step marshal op pe = (case op of
     (t, OpAdd p) \<Rightarrow> fst (AddPolicy marshal p t pe)
   | (t, OpRemove i) \<Rightarrow> fst (RemovePolicy i pe)
   | (t, OpListen ty l) \<Rightarrow> RegisterListener ty l pe
   | (t, OpEnabled b) \<Rightarrow> (if b then EnablePolicies pe else DisablePolicies pe))"

text \<open>
  The history of one policy as the operations state it: the valid policies added since the last
  removal, newest first.
\<close>

fun history :: "string \<Rightarrow> (time \<times> policy_op) list \<Rightarrow> (time \<times> Policy) list \<Rightarrow> (time \<times> Policy) list" where
  "history i [] h = h"
| "history i ((t, OpAdd p) # ops) h = history i ops (if PolicyID p = i \<and> validatePolicy p = None then (t, p) # h else h)"
| "history i ((t, OpRemove j) # ops) h = history i ops (if j = i then [] else h)"
| "history i (_ # ops) h = history i ops h"

text \<open>What the engine holds for a history.\<close>

definition of_history :: "(time \<times> Policy) list \<Rightarrow> Policy option" where
  "of_history h = (case h of [] \<Rightarrow> None
     | (t, p) # _ \<Rightarrow> Some (p\<lparr>Version := int (length h), CreatedAt := fst (last h), UpdatedAt := t\<rparr>))"

lemma notifyListeners_policies [simp]: "policies (notifyListeners p pe) = policies pe"
  by (simp add: notifyListeners_def split: option.split)

lemma AddPolicy_policies:
  assumes "policies pe i = of_history h" "\<forall>(t, p)\<in>set h. PolicyID p = i"
  shows "policies (fst (AddPolicy marshal p t pe)) i =
    of_history (if PolicyID p = i \<and> validatePolicy p = None then (t, p) # h else h)"
proof (cases "validatePolicy p = None")
  case valid: True
  show ?thesis
  proof (cases "PolicyID p = i")
    case True
    show ?thesis
    proof (cases h)
      case Nil
      with valid True assms show ?thesis by (simp add: AddPolicy_def of_history_def Let_def)
    next
      case (Cons x h')
      obtain t' p' where x: "x = (t', p')" by (cases x)
      have "PolicyID p' = i" using assms(2) by (simp add: Cons x)
      with valid True assms(1) show ?thesis
        by (auto simp: AddPolicy_def of_history_def Let_def Cons x)
    qed
  next
    case False
    with valid assms(1) show ?thesis by (auto simp: AddPolicy_def Let_def split: option.split)
  qed
next
  case False
  with assms(1) show ?thesis by (auto simp: AddPolicy_def)
qed

lemma policy_step_frame [simp]:
  "policies (policy_step marshal (t, OpListen ty l) pe) = policies pe"
  "policies (policy_step marshal (t, OpEnabled b) pe) = policies pe"
  by (simp_all add: policy_step_def RegisterListener_def EnablePolicies_def DisablePolicies_def)

lemma policy_history:
  assumes "policies pe i = of_history h" "\<forall>(t, p)\<in>set h. PolicyID p = i"
  shows "policies (fold (policy_step marshal) ops pe) i = of_history (history i ops h)"
  using assms
proof (induction i ops h arbitrary: pe rule: history.induct)
  case (2 i t p ops h)
  have "policies (policy_step marshal (t, OpAdd p) pe) i =
      of_history (if PolicyID p = i \<and> validatePolicy p = None then (t, p) # h else h)"
    using AddPolicy_policies[OF 2(2,3)] by (simp add: policy_step_def)
  with 2 show ?case by simp
next
  case (3 i t j ops h)
  have "policies (policy_step marshal (t, OpRemove j) pe) i = of_history (if j = i then [] else h)"
    using 3(2) by (simp add: policy_step_def RemovePolicy_def Let_def of_history_def split: option.split)
  with 3 show ?case by simp
next
  case "4_1"
  then show ?case by simp
next
  case "4_2"
  then show ?case by simp
qed simp

text \<open>
  Whatever is added, removed, listened to, enabled and disabled, the engine holds a policy
  exactly when it was added since it was last removed: the one added last, with the number of
  additions since then as its version, the time of the first as its creation and of the last as
  its update.
\<close>

lemma policies_are_versioned:
  "GetPolicy i (fold (policy_step marshal) ops NewPolicyEngine) = of_history (history i ops [])"
  unfolding GetPolicy_def by (rule policy_history) (simp_all add: NewPolicyEngine_def of_history_def)

text \<open>
  A change of the content alone notifies nobody as long as it can be marshalled; if it cannot, the
  listeners are notified even when nothing changed.
\<close>

lemma content_change_not_notified:
  assumes "policies pe (PolicyID p) = Some q" "Active q = Active p" "marshal (Content p) = Some j"
  shows "notified (fst (AddPolicy marshal p now pe)) = notified pe"
  using assms by (auto simp: AddPolicy_def Let_def isContentEqual_def split: option.split)

lemma activation_notified:
  assumes "validatePolicy p = None" "policies pe (PolicyID p) = Some q" "Active q \<noteq> Active p"
    "listeners pe (PolicyType p) = Some ls" "l \<in> set ls"
  shows "\<exists>q'. (l, q') \<in> set (notified (fst (AddPolicy marshal p now pe))) \<and> Active q' = Active p \<and> Content q' = Content p"
  using assms by (auto simp: AddPolicy_def Let_def notifyListeners_def)

end
