(* ===== verification/Protocol_Manager.thy ===== *)
theory Protocol_Manager
  imports Prelude
begin

text \<open>
  \<^verbatim>\<open>core/governance/wasm_protocol_loader.go\<close> and \<^verbatim>\<open>core/governance/protocol_manager.go\<close>: the
  loader of WASM modules and the life cycle of protocol versions. The wazero runtime is not part
  of the code: what the loader calls of a module instance is the argument \<open>api\<close>, and compiling
  and instantiating a module is the argument \<open>instantiate\<close>. The trust store is not part of the
  code either; its answers are arguments.
\<close>

section \<open>Modules\<close>

datatype wasm_error = LoaderInactive | AlreadyLoaded string | CompileError | ModuleNotFound string | FunctionNotFound string
  | NoMemory | CallFailed | AllocationFailed "32 word" | WriteFailed | ReadFailed | ShortRead nat "32 word" | IndexPanic

text \<open>
  The calls of an instance of type \<open>'m\<close>: \<open>invoke f args m\<close> is the instance after the call and its
  results, \<open>None\<close> for an error.
\<close>

record 'm wasm_api =
  has_memory :: "'m \<Rightarrow> bool"
  exported :: "string \<Rightarrow> 'm \<Rightarrow> bool"
  invoke :: "string \<Rightarrow> 64 word list \<Rightarrow> 'm \<Rightarrow> 'm \<times> 64 word list option"
  mem_write :: "32 word \<Rightarrow> bytes \<Rightarrow> 'm \<Rightarrow> 'm option"
  mem_read :: "32 word \<Rightarrow> 32 word \<Rightarrow> 'm \<Rightarrow> bytes option"

definition writeInput :: "'m wasm_api \<Rightarrow> bytes \<Rightarrow> 'm \<Rightarrow> 'm \<times> (wasm_error + 32 word \<times> 32 word)" where
  "writeInput api input m =
     (if \<not> has_memory api m then (m, Inl NoMemory)
      else if \<not> exported api ''alloc_safe'' m then (m, Inl (FunctionNotFound ''alloc_safe''))
      else (case invoke api ''alloc_safe'' [of_nat (length input)] m of
        (m, None) \<Rightarrow> (m, Inl CallFailed)
      | (m, Some rs) \<Rightarrow>
          if length rs < 2 then (m, Inl IndexPanic)
          else (let offset = ucast (rs ! 0); errCode = ucast (rs ! 1) :: 32 word
                in if errCode \<noteq> 0
                   then ((if offset > 0 \<and> exported api ''free'' m then fst (invoke api ''free'' [ucast offset] m) else m),
                         Inl (AllocationFailed errCode))
                   else (case mem_write api offset input m of
                     None \<Rightarrow> (m, Inl WriteFailed)
                   | Some m \<Rightarrow> (m, Inr (offset, of_nat (length input)))))))"

definition readOutput :: "'m wasm_api \<Rightarrow> 32 word \<Rightarrow> 32 word \<Rightarrow> 'm \<Rightarrow> 'm \<times> (wasm_error + bytes)" where
  "readOutput api offset len m =
     (if \<not> has_memory api m then (m, Inl NoMemory)
      else (case mem_read api offset len m of
        None \<Rightarrow> (m, Inl ReadFailed)
      | Some out \<Rightarrow>
          if length out < unat len then (m, Inl (ShortRead (length out) len))
          else ((if exported api ''free'' m then fst (invoke api ''free'' [ucast offset] m) else m), Inr out)))"

definition execute_module :: "'m wasm_api \<Rightarrow> bytes \<Rightarrow> 'm \<Rightarrow> 'm \<times> (wasm_error + bytes)" where
  "execute_module api input m =
     (if \<not> exported api ''handle'' m then (m, Inl (FunctionNotFound ''handle''))
      else (case writeInput api input m of
        (m, Inl e) \<Rightarrow> (m, Inl e)
      | (m, Inr (offset, len)) \<Rightarrow> (case invoke api ''handle'' [ucast offset, ucast len] m of
          (m, None) \<Rightarrow> (m, Inl CallFailed)
        | (m, Some rs) \<Rightarrow>
            if length rs < 2 then (m, Inl IndexPanic) else readOutput api (ucast (rs ! 0)) (ucast (rs ! 1)) m)))"

section \<open>The loader\<close>

record 'm WASMLoader =
  modules :: "string \<rightharpoonup> 'm"
  loader_active :: bool

definition NewWASMProtocolLoader :: "'m WASMLoader" where
  "NewWASMProtocolLoader = \<lparr>modules = Map.empty, loader_active = True\<rparr>"

definition module_id :: "string \<Rightarrow> string \<Rightarrow> string" where
  "module_id protocolID version = protocolID @ ''_'' @ version"

definition LoadProtocol :: "(bytes \<Rightarrow> wasm_error + 'm) \<Rightarrow> string \<Rightarrow> string \<Rightarrow> bytes \<Rightarrow> 'm WASMLoader \<Rightarrow> 'm WASMLoader \<times> wasm_error option" where
  "LoadProtocol instantiate pid ver code l =
     (if \<not> loader_active l then (l, Some LoaderInactive)
      else if modules l (module_id pid ver) \<noteq> None then (l, Some (AlreadyLoaded (module_id pid ver)))
      else (case instantiate code of
        Inl e \<Rightarrow> (l, Some e)
      | Inr m \<Rightarrow> (l\<lparr>modules := (modules l)(module_id pid ver \<mapsto> m)\<rparr>, None)))"

definition GetProtocolInstance :: "string \<Rightarrow> string \<Rightarrow> 'm WASMLoader \<Rightarrow> 'm option" where
  "GetProtocolInstance pid ver l = modules l (module_id pid ver)"

text \<open>The instance is shared, so what a call does to it stays.\<close>

definition InitAllocator :: "'m wasm_api \<Rightarrow> string \<Rightarrow> string \<Rightarrow> 'm WASMLoader \<Rightarrow> 'm WASMLoader \<times> wasm_error option" where
  "InitAllocator api pid ver l = (case GetProtocolInstance pid ver l of
     None \<Rightarrow> (l, Some (ModuleNotFound (module_id pid ver)))
   | Some m \<Rightarrow> if \<not> exported api ''init_allocator'' m then (l, Some (FunctionNotFound ''init_allocator''))
       else (let (m, r) = invoke api ''init_allocator'' [] m
             in (l\<lparr>modules := (modules l)(module_id pid ver \<mapsto> m)\<rparr>, if r = None then Some CallFailed else None)))"

definition ExecuteProtocol :: "'m wasm_api \<Rightarrow> string \<Rightarrow> string \<Rightarrow> bytes \<Rightarrow> 'm WASMLoader \<Rightarrow> 'm WASMLoader \<times> (wasm_error + bytes)" where
  "ExecuteProtocol api pid ver input l = (case GetProtocolInstance pid ver l of
     None \<Rightarrow> (l, Inl (ModuleNotFound (module_id pid ver)))
   | Some m \<Rightarrow> (let (m, r) = execute_module api input m in (l\<lparr>modules := (modules l)(module_id pid ver \<mapsto> m)\<rparr>, r)))"

definition UnloadProtocol :: "string \<Rightarrow> string \<Rightarrow> 'm WASMLoader \<Rightarrow> 'm WASMLoader \<times> wasm_error option" where
  "UnloadProtocol pid ver l =
     (if modules l (module_id pid ver) = None then (l, Some (ModuleNotFound (module_id pid ver)))
      else (l\<lparr>modules := (modules l)(module_id pid ver := None)\<rparr>, None))"

definition Activate :: "'m WASMLoader \<Rightarrow> 'm WASMLoader" where "Activate l = l\<lparr>loader_active := True\<rparr>"
definition Deactivate :: "'m WASMLoader \<Rightarrow> 'm WASMLoader" where
  "Deactivate l = l\<lparr>loader_active := False, modules := Map.empty\<rparr>"

text \<open>The index of the last underscore, searched from the end.\<close>

fun last_sep :: "string \<Rightarrow> nat \<Rightarrow> nat option" where
  "last_sep s 0 = None"
| "last_sep s (Suc i) = (if s ! i = CHR ''_'' then Some i else last_sep s i)"

text \<open>What the timer of a module does when it fires.\<close>

definition checkExpiration :: "string \<Rightarrow> 'm WASMLoader \<Rightarrow> 'm WASMLoader" where
  "checkExpiration i l =
     (if modules l i = None then l
      else (case last_sep i (length i) of
        None \<Rightarrow> l
      | Some k \<Rightarrow> if k > 0 then fst (UnloadProtocol (take k i) (drop (Suc k) i) l) else l))"

lemma last_sep_Some: "last_sep s n = Some k \<Longrightarrow> k < n \<and> s ! k = CHR ''_''"
  by (induction n) (auto split: if_splits)

lemma last_sep_None: "last_sep s n = None \<Longrightarrow> k < n \<Longrightarrow> s ! k \<noteq> CHR ''_''"
  by (induction n) (auto split: if_splits simp: less_Suc_eq)

lemma last_sep_ge: "k < n \<Longrightarrow> s ! k = CHR ''_'' \<Longrightarrow> \<exists>j. last_sep s n = Some j \<and> k \<le> j"
  by (induction n) (auto simp: less_Suc_eq)

lemma module_id_split:
  assumes "last_sep i (length i) = Some k"
  shows "module_id (take k i) (drop (Suc k) i) = i"
  using last_sep_Some[OF assms] by (simp add: module_id_def) (metis id_take_nth_drop)

text \<open>
  The timer finds the module by cutting its identifier at the last underscore: wherever the
  underscores of the protocol and the version are, it unloads exactly the module it was started for.
\<close>

lemma expiry_unloads_its_module:
  assumes "pid \<noteq> []"
  shows "modules (checkExpiration (module_id pid ver) l) = (modules l)(module_id pid ver := None)"
proof -
  let ?i = "module_id pid ver"
  have "?i ! length pid = CHR ''_''" "length pid < length ?i" by (simp_all add: module_id_def nth_append)
  then obtain k where k: "last_sep ?i (length ?i) = Some k" "length pid \<le> k" using last_sep_ge by blast
  with assms have "0 < k" by (cases k) auto
  with k(1) module_id_split[OF k(1)] show ?thesis
    by (auto simp: checkExpiration_def UnloadProtocol_def)
qed

text \<open>Two protocols can share an identifier.\<close>

lemma module_id_collision: "module_id ''a_b'' ''c'' = module_id ''a'' ''b_c''"
  by (simp add: module_id_def)

section \<open>Protocol versions\<close>

datatype ProtocolStatus = Inactive | Testing | Active | Deprecating | Deprecated

record Protocol =
  ProtoID :: string
  ProtoName :: string
  ProtoDescription :: string
  ProtoVersion :: string
  Status :: ProtocolStatus
  TrafficRate :: int
  ProtoCreatedAt :: time
  ProtoUpdatedAt :: time

text \<open>
  Protocols are shared by address between the two maps. A caller passes a new object to every
  upload.
\<close>

record 'm ProtocolManager =
  objects :: "nat \<Rightarrow> Protocol"
  next_object :: nat
  protocols :: "string \<rightharpoonup> (string \<rightharpoonup> nat)"
  activeProtocols :: "string \<rightharpoonup> nat"
  pm_enabled :: bool
  wasmLoader :: "'m WASMLoader option"

datatype proto_error = InvalidSignature | StoreRejected | ProtocolNotFound string | VersionNotFound string string
  | InvalidRate int | NotTestingOrActive | ManagerDisabled | NoLoader | Wasm wasm_error

definition version_addr :: "string \<Rightarrow> string \<Rightarrow> 'm ProtocolManager \<Rightarrow> nat option" where
  "version_addr i v pm = (case protocols pm i of None \<Rightarrow> None | Some vs \<Rightarrow> vs v)"

definition put_version :: "Protocol \<Rightarrow> 'm ProtocolManager \<Rightarrow> 'm ProtocolManager" where
  "put_version p pm = pm\<lparr>
     objects := (objects pm)(next_object pm := p), next_object := next_object pm + 1,
     protocols := (protocols pm)(ProtoID p \<mapsto>
       (case protocols pm (ProtoID p) of None \<Rightarrow> Map.empty | Some vs \<Rightarrow> vs)(ProtoVersion p \<mapsto> next_object pm))\<rparr>"

text \<open>\<open>ps\<close>: what \<^verbatim>\<open>ListProtocols\<close> returned.\<close>

fun loadProtocols :: "Protocol list \<Rightarrow> 'm ProtocolManager \<Rightarrow> 'm ProtocolManager" where
  "loadProtocols [] pm = pm"
| "loadProtocols (p # ps) pm = loadProtocols ps
     (let a = next_object pm; pm = put_version p pm
      in if Status p = Active then pm\<lparr>activeProtocols := (activeProtocols pm)(ProtoID p \<mapsto> a)\<rparr> else pm)"

definition NewProtocolManager :: "Protocol list option \<Rightarrow> 'm WASMLoader option \<Rightarrow> 'm ProtocolManager" where
  "NewProtocolManager listed l =
     loadProtocols (case listed of None \<Rightarrow> [] | Some ps \<Rightarrow> ps)
       \<lparr>objects = (\<lambda>_. \<lparr>ProtoID = [], ProtoName = [], ProtoDescription = [], ProtoVersion = [],
          Status = Inactive, TrafficRate = 0, ProtoCreatedAt = 0, ProtoUpdatedAt = 0\<rparr>), next_object = 0, protocols = Map.empty, activeProtocols = Map.empty,
        pm_enabled = True, wasmLoader = l\<rparr>"

definition LoadWASMProtocol :: "(bytes \<Rightarrow> wasm_error + 'm) \<Rightarrow> string \<Rightarrow> string \<Rightarrow> bytes \<Rightarrow> time \<Rightarrow> 'm ProtocolManager \<Rightarrow>
    'm ProtocolManager \<times> proto_error option" where
  "LoadWASMProtocol instantiate i v code now pm =
     (if \<not> pm_enabled pm then (pm, Some ManagerDisabled)
      else case wasmLoader pm of
        None \<Rightarrow> (pm, Some NoLoader)
      | Some l \<Rightarrow> (case LoadProtocol instantiate i v code l of
          (l, Some e) \<Rightarrow> (pm\<lparr>wasmLoader := Some l\<rparr>, Some (Wasm e))
        | (l, None) \<Rightarrow> (put_version \<lparr>ProtoID = i, ProtoName = ''WASM Protocol '' @ i,
              ProtoDescription = ''Dynamically loaded WASM protocol module'', ProtoVersion = v, Status = Inactive,
              TrafficRate = 0, ProtoCreatedAt = now, ProtoUpdatedAt = now\<rparr> (pm\<lparr>wasmLoader := Some l\<rparr>), None)))"

text \<open>\<open>verified\<close>, \<open>stored\<close>: the answers of the trust store.\<close>

definition UploadProtocol :: "bool \<Rightarrow> bool \<Rightarrow> Protocol \<Rightarrow> time \<Rightarrow> 'm ProtocolManager \<Rightarrow> 'm ProtocolManager \<times> proto_error option" where
  "UploadProtocol verified stored p now pm =
     (if \<not> verified then (pm, Some InvalidSignature)
      else if \<not> stored then (pm, Some StoreRejected)
      else (put_version (p\<lparr>Status := Inactive, ProtoCreatedAt := now, ProtoUpdatedAt := now\<rparr>) pm, None))"

definition find_version :: "string \<Rightarrow> string \<Rightarrow> 'm ProtocolManager \<Rightarrow> proto_error + nat" where
  "find_version i v pm = (case protocols pm i of
     None \<Rightarrow> Inl (ProtocolNotFound i)
   | Some vs \<Rightarrow> (case vs v of None \<Rightarrow> Inl (VersionNotFound i v) | Some a \<Rightarrow> Inr a))"

definition set_object :: "nat \<Rightarrow> Protocol \<Rightarrow> 'm ProtocolManager \<Rightarrow> 'm ProtocolManager" where
  "set_object a p pm = pm\<lparr>objects := (objects pm)(a := p)\<rparr>"

definition StartProtocolTesting :: "string \<Rightarrow> string \<Rightarrow> time \<Rightarrow> 'm ProtocolManager \<Rightarrow> 'm ProtocolManager \<times> proto_error option" where
  "StartProtocolTesting i v now pm = (case find_version i v pm of
     Inl e \<Rightarrow> (pm, Some e)
   | Inr a \<Rightarrow> (set_object a (objects pm a\<lparr>Status := Testing, TrafficRate := 0, ProtoUpdatedAt := now\<rparr>) pm, None))"

text \<open>The loop that deprecates the other active versions; \<open>ks\<close>: the versions in \<^verbatim>\<open>range\<close> order.\<close>

fun deprecate_others :: "string \<Rightarrow> string \<Rightarrow> string list \<Rightarrow> 'm ProtocolManager \<Rightarrow> 'm ProtocolManager" where
  "deprecate_others i v [] pm = pm"
| "deprecate_others i v (k # ks) pm = deprecate_others i v ks (case version_addr i k pm of
     None \<Rightarrow> pm
   | Some a \<Rightarrow> if k \<noteq> v \<and> Status (objects pm a) = Active
       then set_object a (objects pm a\<lparr>Status := Deprecating, TrafficRate := 0\<rparr>) pm else pm)"

definition UpdateProtocolTraffic :: "string \<Rightarrow> string \<Rightarrow> int \<Rightarrow> string list \<Rightarrow> time \<Rightarrow> 'm ProtocolManager \<Rightarrow>
    'm ProtocolManager \<times> proto_error option" where
  "UpdateProtocolTraffic i v rate ks now pm =
     (if rate < 0 \<or> rate > 100 then (pm, Some (InvalidRate rate))
      else case find_version i v pm of
        Inl e \<Rightarrow> (pm, Some e)
      | Inr a \<Rightarrow>
          if Status (objects pm a) \<noteq> Testing \<and> Status (objects pm a) \<noteq> Active then (pm, Some NotTestingOrActive)
          else (let pm = set_object a (objects pm a\<lparr>TrafficRate := rate, ProtoUpdatedAt := now\<rparr>) pm
                in if rate = 100
                   then (deprecate_others i v ks
                     ((set_object a (objects pm a\<lparr>Status := Active\<rparr>) pm)\<lparr>activeProtocols := (activeProtocols pm)(i \<mapsto> a)\<rparr>), None)
                   else (pm, None)))"

definition DeprecateProtocol :: "string \<Rightarrow> string \<Rightarrow> time \<Rightarrow> 'm ProtocolManager \<Rightarrow> 'm ProtocolManager \<times> proto_error option" where
  "DeprecateProtocol i v now pm = (case find_version i v pm of
     Inl e \<Rightarrow> (pm, Some e)
   | Inr a \<Rightarrow> (set_object a (objects pm a\<lparr>Status := Deprecating, TrafficRate := 0, ProtoUpdatedAt := now\<rparr>) pm, None))"

definition GetActiveProtocol :: "string \<Rightarrow> 'm ProtocolManager \<Rightarrow> Protocol option" where
  "GetActiveProtocol i pm = map_option (objects pm) (activeProtocols pm i)"

definition GetProtocol :: "string \<Rightarrow> string \<Rightarrow> 'm ProtocolManager \<Rightarrow> Protocol option" where
  "GetProtocol i v pm = map_option (objects pm) (version_addr i v pm)"

definition ExecuteWASMProtocol :: "'m wasm_api \<Rightarrow> string \<Rightarrow> string \<Rightarrow> bytes \<Rightarrow> 'm ProtocolManager \<Rightarrow>
    'm ProtocolManager \<times> (proto_error + bytes)" where
  "ExecuteWASMProtocol api i v input pm =
     (if \<not> pm_enabled pm then (pm, Inl ManagerDisabled)
      else case wasmLoader pm of
        None \<Rightarrow> (pm, Inl NoLoader)
      | Some l \<Rightarrow> (case GetProtocol i v pm of
          None \<Rightarrow> (pm, Inl (VersionNotFound i v))
        | Some p \<Rightarrow> if Status p \<noteq> Active \<and> Status p \<noteq> Testing then (pm, Inl NotTestingOrActive)
            else (case ExecuteProtocol api i v input l of
              (l, Inl e) \<Rightarrow> (pm\<lparr>wasmLoader := Some l\<rparr>, Inl (Wasm e))
            | (l, Inr out) \<Rightarrow> (pm\<lparr>wasmLoader := Some l\<rparr>, Inr out))))"

definition EnableProtocols :: "'m ProtocolManager \<Rightarrow> 'm ProtocolManager" where "EnableProtocols pm = pm\<lparr>pm_enabled := True\<rparr>"
definition DisableProtocols :: "'m ProtocolManager \<Rightarrow> 'm ProtocolManager" where "DisableProtocols pm = pm\<lparr>pm_enabled := False\<rparr>"

section \<open>At most one active version\<close>

definition pm_inv :: "'m ProtocolManager \<Rightarrow> bool" where
  "pm_inv pm \<longleftrightarrow>
     (\<forall>i v a. version_addr i v pm = Some a \<longrightarrow> a < next_object pm \<and> ProtoID (objects pm a) = i \<and> ProtoVersion (objects pm a) = v \<and>
        0 \<le> TrafficRate (objects pm a) \<and> TrafficRate (objects pm a) \<le> 100 \<and>
        (Status (objects pm a) = Active \<longrightarrow> activeProtocols pm i = Some a)) \<and>
     (\<forall>i a. activeProtocols pm i = Some a \<longrightarrow> a < next_object pm)"

lemma pm_invD:
  assumes "pm_inv pm"
  shows "version_addr i v pm = Some a \<Longrightarrow> a < next_object pm"
    and "version_addr i v pm = Some a \<Longrightarrow> ProtoID (objects pm a) = i"
    and "version_addr i v pm = Some a \<Longrightarrow> ProtoVersion (objects pm a) = v"
    and "version_addr i v pm = Some a \<Longrightarrow> 0 \<le> TrafficRate (objects pm a) \<and> TrafficRate (objects pm a) \<le> 100"
    and "version_addr i v pm = Some a \<Longrightarrow> Status (objects pm a) = Active \<Longrightarrow> activeProtocols pm i = Some a"
    and "activeProtocols pm i = Some a \<Longrightarrow> a < next_object pm"
  using assms unfolding pm_inv_def by blast+

lemma pm_invI:
  assumes "\<And>i v a. version_addr i v pm = Some a \<Longrightarrow> a < next_object pm \<and> ProtoID (objects pm a) = i \<and> ProtoVersion (objects pm a) = v \<and>
        0 \<le> TrafficRate (objects pm a) \<and> TrafficRate (objects pm a) \<le> 100 \<and>
        (Status (objects pm a) = Active \<longrightarrow> activeProtocols pm i = Some a)"
    and "\<And>i a. activeProtocols pm i = Some a \<Longrightarrow> a < next_object pm"
  shows "pm_inv pm"
  using assms unfolding pm_inv_def by blast

lemma version_addr_put:
  "version_addr i v (put_version p pm) = (if i = ProtoID p \<and> v = ProtoVersion p then Some (next_object pm) else version_addr i v pm)"
  by (auto simp: version_addr_def put_version_def split: option.split)

lemma version_addr_frame [simp]:
  "version_addr i v (set_object a p pm) = version_addr i v pm"
  "version_addr i v (pm\<lparr>objects := f\<rparr>) = version_addr i v pm"
  "version_addr i v (pm\<lparr>wasmLoader := l\<rparr>) = version_addr i v pm"
  "version_addr i v (pm\<lparr>activeProtocols := ap\<rparr>) = version_addr i v pm"
  by (simp_all add: version_addr_def set_object_def)

lemma find_version_Inr: "find_version i v pm = Inr a \<longleftrightarrow> version_addr i v pm = Some a"
  by (auto simp: find_version_def version_addr_def split: option.splits)

text \<open>A new version that is not active, or is the first active one of its protocol.\<close>

lemma pm_inv_put:
  assumes inv: "pm_inv pm" and rate: "0 \<le> TrafficRate p" "TrafficRate p \<le> 100" and "Status p \<noteq> Active"
  shows "pm_inv (put_version p pm)"
proof (rule pm_invI)
  fix i v a assume a: "version_addr i v (put_version p pm) = Some a"
  show "a < next_object (put_version p pm) \<and> ProtoID (objects (put_version p pm) a) = i \<and>
    ProtoVersion (objects (put_version p pm) a) = v \<and> 0 \<le> TrafficRate (objects (put_version p pm) a) \<and>
    TrafficRate (objects (put_version p pm) a) \<le> 100 \<and>
    (Status (objects (put_version p pm) a) = Active \<longrightarrow> activeProtocols (put_version p pm) i = Some a)"
  proof (cases "i = ProtoID p \<and> v = ProtoVersion p")
    case True
    with a assms show ?thesis by (simp add: version_addr_put) (simp add: put_version_def)
  next
    case False
    with a have old: "version_addr i v pm = Some a" unfolding version_addr_put by (simp only: if_False)
    then have "a \<noteq> next_object pm" using pm_invD(1)[OF inv old] by simp
    with pm_invD(1-5)[OF inv old] show ?thesis by (simp add: put_version_def)
  qed
next
  show "a < next_object (put_version p pm)" if "activeProtocols (put_version p pm) i = Some a" for i a
    using that pm_invD(6)[OF inv, of i a] by (simp add: put_version_def)
qed

text \<open>Changing the status and rate of one version.\<close>

lemma pm_inv_set:
  assumes inv: "pm_inv pm" and a: "version_addr i v pm = Some a"
    and p: "ProtoID p = i" "ProtoVersion p = v" "0 \<le> TrafficRate p" "TrafficRate p \<le> 100"
    and st: "Status p = Active \<Longrightarrow> Status (objects pm a) = Active"
  shows "pm_inv (set_object a p pm)"
proof (rule pm_invI)
  note d = pm_invD[OF inv]
  fix j w b assume "version_addr j w (set_object a p pm) = Some b"
  then have b: "version_addr j w pm = Some b" by simp
  show "b < next_object (set_object a p pm) \<and> ProtoID (objects (set_object a p pm) b) = j \<and>
    ProtoVersion (objects (set_object a p pm) b) = w \<and> 0 \<le> TrafficRate (objects (set_object a p pm) b) \<and>
    TrafficRate (objects (set_object a p pm) b) \<le> 100 \<and>
    (Status (objects (set_object a p pm) b) = Active \<longrightarrow> activeProtocols (set_object a p pm) j = Some b)"
  proof (cases "b = a")
    case True
    with d(2,3)[OF a] d(2,3)[OF b] have "j = i" "w = v" by simp_all
    with True p st d(1,5)[OF b] show ?thesis by (auto simp: set_object_def)
  next
    case False
    with d(1-5)[OF b] show ?thesis by (simp add: set_object_def)
  qed
qed (use pm_invD(6)[OF inv] in \<open>simp add: set_object_def\<close>)

text \<open>
  While a version becomes active: \<open>a\<close> is the address of version \<open>v\<close> of \<open>i\<close>, already the active
  one; the versions of \<open>i\<close> outside \<open>K\<close> are no longer active.
\<close>

definition promoting :: "string \<Rightarrow> string \<Rightarrow> nat \<Rightarrow> string set \<Rightarrow> 'm ProtocolManager \<Rightarrow> bool" where
  "promoting i v a K pm \<longleftrightarrow> version_addr i v pm = Some a \<and> activeProtocols pm i = Some a \<and> Status (objects pm a) = Active \<and>
     (\<forall>j w b. version_addr j w pm = Some b \<longrightarrow> b < next_object pm \<and> ProtoID (objects pm b) = j \<and> ProtoVersion (objects pm b) = w \<and>
        0 \<le> TrafficRate (objects pm b) \<and> TrafficRate (objects pm b) \<le> 100 \<and>
        (Status (objects pm b) = Active \<longrightarrow> activeProtocols pm j = Some b \<or> (j = i \<and> w \<noteq> v \<and> w \<in> K))) \<and>
     (\<forall>j b. activeProtocols pm j = Some b \<longrightarrow> b < next_object pm)"

lemma promotingD:
  assumes "promoting i v a K pm"
  shows "version_addr i v pm = Some a" "activeProtocols pm i = Some a" "Status (objects pm a) = Active"
    and "version_addr j w pm = Some b \<Longrightarrow> b < next_object pm" and "version_addr j w pm = Some b \<Longrightarrow> ProtoID (objects pm b) = j"
    and "version_addr j w pm = Some b \<Longrightarrow> ProtoVersion (objects pm b) = w"
    and "version_addr j w pm = Some b \<Longrightarrow> 0 \<le> TrafficRate (objects pm b) \<and> TrafficRate (objects pm b) \<le> 100"
    and "version_addr j w pm = Some b \<Longrightarrow> Status (objects pm b) = Active \<Longrightarrow> activeProtocols pm j = Some b \<or> (j = i \<and> w \<noteq> v \<and> w \<in> K)"
    and "activeProtocols pm j = Some b \<Longrightarrow> b < next_object pm"
  using assms unfolding promoting_def by blast+

lemma promotingI:
  assumes "version_addr i v pm = Some a" "activeProtocols pm i = Some a" "Status (objects pm a) = Active"
    and "\<And>j w b. version_addr j w pm = Some b \<Longrightarrow> b < next_object pm \<and> ProtoID (objects pm b) = j \<and> ProtoVersion (objects pm b) = w \<and>
        0 \<le> TrafficRate (objects pm b) \<and> TrafficRate (objects pm b) \<le> 100 \<and>
        (Status (objects pm b) = Active \<longrightarrow> activeProtocols pm j = Some b \<or> (j = i \<and> w \<noteq> v \<and> w \<in> K))"
    and "\<And>j b. activeProtocols pm j = Some b \<Longrightarrow> b < next_object pm"
  shows "promoting i v a K pm"
  using assms unfolding promoting_def by blast

lemma promoting_step:
  assumes pr: "promoting i v a (insert k K) pm"
  shows "promoting i v a K (case version_addr i k pm of None \<Rightarrow> pm
     | Some b \<Rightarrow> if k \<noteq> v \<and> Status (objects pm b) = Active
         then set_object b (objects pm b\<lparr>Status := Deprecating, TrafficRate := 0\<rparr>) pm else pm)"
proof (cases "\<exists>b. version_addr i k pm = Some b \<and> k \<noteq> v \<and> Status (objects pm b) = Active")
  case True
  then obtain b where b: "version_addr i k pm = Some b" "k \<noteq> v" "Status (objects pm b) = Active" by blast
  note d = promotingD[OF pr]
  have ab: "a \<noteq> b" using d(6)[OF d(1)] d(6)[OF b(1)] b(2) by auto
  let ?pm = "set_object b (objects pm b\<lparr>Status := Deprecating, TrafficRate := 0\<rparr>) pm"
  have "promoting i v a K ?pm"
  proof (rule promotingI)
    fix j w c assume "version_addr j w ?pm = Some c"
    then have c: "version_addr j w pm = Some c" by simp
    have "c = b" if "w = k" "j = i" using that c b(1) by simp
    then show "c < next_object ?pm \<and> ProtoID (objects ?pm c) = j \<and> ProtoVersion (objects ?pm c) = w \<and>
        0 \<le> TrafficRate (objects ?pm c) \<and> TrafficRate (objects ?pm c) \<le> 100 \<and>
        (Status (objects ?pm c) = Active \<longrightarrow> activeProtocols ?pm j = Some c \<or> (j = i \<and> w \<noteq> v \<and> w \<in> K))"
      using d(4-8)[OF c] by (cases "c = b") (auto simp: set_object_def)
  next
    show "c < next_object ?pm" if "activeProtocols ?pm j = Some c" for j c
      using that d(9)[of j c] by (simp add: set_object_def)
  qed (use d(1-3) ab in \<open>simp_all add: set_object_def\<close>)
  with b show ?thesis by simp
next
  case False
  note d = promotingD[OF pr]
  have "promoting i v a K pm"
  proof (rule promotingI)
    fix j w c assume c: "version_addr j w pm = Some c"
    have "w \<noteq> k" if "j = i" "w \<noteq> v" "Status (objects pm c) = Active" using that c False by blast
    with d(4-8)[OF c] show "c < next_object pm \<and> ProtoID (objects pm c) = j \<and> ProtoVersion (objects pm c) = w \<and>
        0 \<le> TrafficRate (objects pm c) \<and> TrafficRate (objects pm c) \<le> 100 \<and>
        (Status (objects pm c) = Active \<longrightarrow> activeProtocols pm j = Some c \<or> (j = i \<and> w \<noteq> v \<and> w \<in> K))" by blast
  qed (use d in blast)+
  moreover have "(case version_addr i k pm of None \<Rightarrow> pm
     | Some b \<Rightarrow> if k \<noteq> v \<and> Status (objects pm b) = Active
         then set_object b (objects pm b\<lparr>Status := Deprecating, TrafficRate := 0\<rparr>) pm else pm) = pm"
    using False by (auto split: option.split)
  ultimately show ?thesis by simp
qed

lemma promoting_all: "promoting i v a (set ks \<union> K) pm \<Longrightarrow> promoting i v a K (deprecate_others i v ks pm)"
proof (induction ks arbitrary: pm)
  case (Cons k ks)
  have "promoting i v a (insert k (set ks \<union> K)) pm" using Cons.prems by simp
  from Cons.IH[OF promoting_step[OF this]] show ?case by (simp only: deprecate_others.simps)
qed simp

lemma pm_inv_deprecate_others:
  assumes "promoting i v a (set ks) pm"
  shows "pm_inv (deprecate_others i v ks pm) \<and> version_addr i v (deprecate_others i v ks pm) = Some a \<and>
    activeProtocols (deprecate_others i v ks pm) i = Some a \<and> Status (objects (deprecate_others i v ks pm) a) = Active"
proof -
  have "promoting i v a {} (deprecate_others i v ks pm)" using promoting_all[of i v a ks "{}"] assms by simp
  note d = promotingD[OF this]
  from d(4-8) have "pm_inv (deprecate_others i v ks pm)" by (intro pm_invI conjI) (use d(9) in blast)+
  with d(1-3) show ?thesis by blast
qed

lemma UpdateProtocolTraffic_inv:
  assumes inv: "pm_inv pm" and ks: "\<forall>w. version_addr i w pm \<noteq> None \<longrightarrow> w \<in> set ks"
  shows "pm_inv (fst (UpdateProtocolTraffic i v rate ks now pm)) \<and>
    (snd (UpdateProtocolTraffic i v rate ks now pm) = None \<and> rate = 100 \<longrightarrow>
       (\<exists>p. GetActiveProtocol i (fst (UpdateProtocolTraffic i v rate ks now pm)) = Some p \<and>
            GetProtocol i v (fst (UpdateProtocolTraffic i v rate ks now pm)) = Some p \<and> Status p = Active))"
proof (cases "\<exists>a. find_version i v pm = Inr a \<and> 0 \<le> rate \<and> rate \<le> 100 \<and> (Status (objects pm a) = Testing \<or> Status (objects pm a) = Active)")
  case False
  then have "fst (UpdateProtocolTraffic i v rate ks now pm) = pm" "snd (UpdateProtocolTraffic i v rate ks now pm) \<noteq> None"
    by (auto simp: UpdateProtocolTraffic_def split: sum.split)
  with inv show ?thesis by auto
next
  case True
  then obtain a where a: "find_version i v pm = Inr a" "0 \<le> rate" "rate \<le> 100"
    "Status (objects pm a) = Testing \<or> Status (objects pm a) = Active" by blast
  then have addr: "version_addr i v pm = Some a" by (simp add: find_version_Inr)
  note d = pm_invD[OF inv]
  let ?p = "objects pm a\<lparr>TrafficRate := rate, ProtoUpdatedAt := now\<rparr>"
  have inv1: "pm_inv (set_object a ?p pm)"
    using d(2,3)[OF addr] a by (intro pm_inv_set[OF inv addr]) simp_all
  show ?thesis
  proof (cases "rate = 100")
    case False
    with a inv1 show ?thesis by (auto simp: UpdateProtocolTraffic_def Let_def)
  next
    case True
    let ?pm = "(set_object a (?p\<lparr>Status := Active\<rparr>) pm)\<lparr>activeProtocols := (activeProtocols pm)(i \<mapsto> a)\<rparr>"
    have run: "UpdateProtocolTraffic i v rate ks now pm = (deprecate_others i v ks ?pm, None)"
      using a True by (auto simp: UpdateProtocolTraffic_def Let_def set_object_def)
    have "promoting i v a (set ks) ?pm"
    proof (rule promotingI)
      fix j w b assume "version_addr j w ?pm = Some b"
      then have b: "version_addr j w pm = Some b" by simp
      have "b = a \<Longrightarrow> j = i \<and> w = v" using d(2,3)[OF addr] d(2,3)[OF b] by simp
      moreover have "j = i \<Longrightarrow> w = v \<Longrightarrow> b = a" using addr b by simp
      ultimately show "b < next_object ?pm \<and> ProtoID (objects ?pm b) = j \<and> ProtoVersion (objects ?pm b) = w \<and>
        0 \<le> TrafficRate (objects ?pm b) \<and> TrafficRate (objects ?pm b) \<le> 100 \<and>
        (Status (objects ?pm b) = Active \<longrightarrow> activeProtocols ?pm j = Some b \<or> (j = i \<and> w \<noteq> v \<and> w \<in> set ks))"
        using d(1-5)[OF b] ks[rule_format, of w] b True d(2,3)[OF addr] by (cases "b = a") (auto simp: set_object_def)
    next
      show "b < next_object ?pm" if "activeProtocols ?pm j = Some b" for j b
        using that d(1)[OF addr] d(6)[of j b] by (simp add: set_object_def split: if_splits)
    qed (use addr in \<open>simp_all add: set_object_def\<close>)
    note e = pm_inv_deprecate_others[OF this]
    then show ?thesis unfolding run by (auto simp: GetActiveProtocol_def GetProtocol_def)
  qed
qed

text \<open>What the trust store must list: rates in range, one active version of a protocol.\<close>

definition listing_ok :: "Protocol list \<Rightarrow> bool" where
  "listing_ok ps \<longleftrightarrow> (\<forall>p\<in>set ps. 0 \<le> TrafficRate p \<and> TrafficRate p \<le> 100) \<and>
     (\<forall>p\<in>set ps. \<forall>q\<in>set ps. Status p = Active \<and> Status q = Active \<and> ProtoID p = ProtoID q \<longrightarrow> ProtoVersion p = ProtoVersion q)"

lemma listing_okD:
  "listing_ok ps \<Longrightarrow> p \<in> set ps \<Longrightarrow> q \<in> set ps \<Longrightarrow> Status p = Active \<Longrightarrow> Status q = Active \<Longrightarrow> ProtoID p = ProtoID q \<Longrightarrow>
   ProtoVersion p = ProtoVersion q"
  unfolding listing_ok_def by blast

lemma listing_ok_tl: "listing_ok (p # ps) \<Longrightarrow> listing_ok ps"
  unfolding listing_ok_def by (meson list.set_intros(2))

lemma pm_inv_put_active:
  assumes inv: "pm_inv pm" and rate: "0 \<le> TrafficRate p" "TrafficRate p \<le> 100"
    and only: "\<And>v a. version_addr (ProtoID p) v pm = Some a \<Longrightarrow> Status (objects pm a) = Active \<Longrightarrow> v = ProtoVersion p"
  shows "pm_inv ((put_version p pm)\<lparr>activeProtocols := (activeProtocols pm)(ProtoID p \<mapsto> next_object pm)\<rparr>)" (is "pm_inv ?pm")
proof (rule pm_invI)
  fix i v a assume a: "version_addr i v ?pm = Some a"
  show "a < next_object ?pm \<and> ProtoID (objects ?pm a) = i \<and> ProtoVersion (objects ?pm a) = v \<and>
    0 \<le> TrafficRate (objects ?pm a) \<and> TrafficRate (objects ?pm a) \<le> 100 \<and>
    (Status (objects ?pm a) = Active \<longrightarrow> activeProtocols ?pm i = Some a)"
  proof (cases "i = ProtoID p \<and> v = ProtoVersion p")
    case True
    with a rate show ?thesis by (simp add: version_addr_put) (simp add: put_version_def)
  next
    case False
    with a have old: "version_addr i v pm = Some a" by (simp add: version_addr_put split: if_splits)
    then have "a \<noteq> next_object pm" using pm_invD(1)[OF inv old] by simp
    with pm_invD(1-5)[OF inv old] only[of v a] old False show ?thesis by (auto simp: put_version_def)
  qed
next
  show "a < next_object ?pm" if "activeProtocols ?pm i = Some a" for i a
    using that pm_invD(6)[OF inv, of i a] by (simp add: put_version_def split: if_splits)
qed

lemma loadProtocols_inv:
  assumes "pm_inv pm" "listing_ok ps"
    "\<And>p v a. p \<in> set ps \<Longrightarrow> Status p = Active \<Longrightarrow> version_addr (ProtoID p) v pm = Some a \<Longrightarrow> Status (objects pm a) = Active \<Longrightarrow>
       v = ProtoVersion p"
  shows "pm_inv (loadProtocols ps pm)"
  using assms
proof (induction ps arbitrary: pm)
  case (Cons p ps)
  let ?pm = "if Status p = Active then (put_version p pm)\<lparr>activeProtocols := (activeProtocols pm)(ProtoID p \<mapsto> next_object pm)\<rparr>
    else put_version p pm"
  have eq: "loadProtocols (p # ps) pm = loadProtocols ps ?pm" by (simp add: put_version_def)
  have rate: "0 \<le> TrafficRate p" "TrafficRate p \<le> 100" using Cons.prems(2) unfolding listing_ok_def by (meson list.set_intros(1))+
  have inv: "pm_inv ?pm"
  proof (cases "Status p = Active")
    case True
    have "pm_inv ((put_version p pm)\<lparr>activeProtocols := (activeProtocols pm)(ProtoID p \<mapsto> next_object pm)\<rparr>)"
      by (rule pm_inv_put_active[OF Cons.prems(1) rate]) (rule Cons.prems(3)[of p]; simp add: True)
    with True show ?thesis by (simp only: if_True simp_thms)
  next
    case False
    with pm_inv_put[OF Cons.prems(1) rate False] show ?thesis by simp
  qed
  have addr: "version_addr j w ?pm = (if j = ProtoID p \<and> w = ProtoVersion p then Some (next_object pm) else version_addr j w pm)" for j w
    by (cases "Status p = Active") (simp_all add: version_addr_put)
  have obj: "objects ?pm = (objects pm)(next_object pm := p)"
    by (cases "Status p = Active") (simp_all add: put_version_def)
  have "v = ProtoVersion q" if q: "q \<in> set ps" "Status q = Active" "version_addr (ProtoID q) v ?pm = Some a" "Status (objects ?pm a) = Active" for q v a
  proof (cases "ProtoID q = ProtoID p \<and> v = ProtoVersion p")
    case True
    with q(3) have "a = next_object pm" unfolding addr by simp
    with q(4) have "Status p = Active" unfolding obj by simp
    then have "ProtoVersion q = ProtoVersion p"
      using True q(1,2) Cons.prems(2) by (intro listing_okD[of "p # ps"]) simp_all
    with True show ?thesis by simp
  next
    case False
    have old: "version_addr (ProtoID q) v pm = Some a" using q(3) unfolding addr if_not_P[OF False] .
    then have "a \<noteq> next_object pm" using pm_invD(1)[OF Cons.prems(1) old] by simp
    with q(4) have "Status (objects pm a) = Active" unfolding obj by simp
    with Cons.prems(3)[of q v a] q(1,2) old show ?thesis by simp
  qed
  moreover have "listing_ok ps" by (rule listing_ok_tl[OF Cons.prems(2)])
  ultimately show ?case unfolding eq using Cons.IH[OF inv] by blast
qed simp

subsection \<open>Runs\<close>

inductive pm_step :: "'m ProtocolManager \<Rightarrow> 'm ProtocolManager \<Rightarrow> bool" where
  step_Upload: "0 \<le> TrafficRate p \<Longrightarrow> TrafficRate p \<le> 100 \<Longrightarrow> pm_step pm (fst (UploadProtocol ok st p now pm))"
| step_LoadWASM: "pm_step pm (fst (LoadWASMProtocol instantiate i v code now pm))"
| step_Testing: "pm_step pm (fst (StartProtocolTesting i v now pm))"
| step_Traffic: "\<forall>w. version_addr i w pm \<noteq> None \<longrightarrow> w \<in> set ks \<Longrightarrow>
    pm_step pm (fst (UpdateProtocolTraffic i v rate ks now pm))"
| step_Deprecate: "pm_step pm (fst (DeprecateProtocol i v now pm))"
| step_Execute: "pm_step pm (fst (ExecuteWASMProtocol api i v input pm))"
| step_Enable: "pm_step pm (EnableProtocols pm)"
| step_Disable: "pm_step pm (DisableProtocols pm)"

lemma pm_inv_frame:
  "pm_inv (pm\<lparr>wasmLoader := l\<rparr>) = pm_inv pm" "pm_inv (pm\<lparr>pm_enabled := b\<rparr>) = pm_inv pm"
  by (simp_all add: pm_inv_def version_addr_def)

lemma pm_step_inv: "pm_step pm pm' \<Longrightarrow> pm_inv pm \<Longrightarrow> pm_inv pm'"
proof (induction rule: pm_step.induct)
  case (step_Upload p pm ok st now)
  then show ?case by (simp add: UploadProtocol_def pm_inv_put)
next
  case (step_LoadWASM pm instantiate i v code now)
  then show ?case by (auto simp: LoadWASMProtocol_def pm_inv_frame intro!: pm_inv_put split: option.split prod.split)
next
  case (step_Testing pm i v now)
  then show ?case using pm_invD(2,3)[OF step_Testing]
    by (auto simp: StartProtocolTesting_def find_version_Inr intro!: pm_inv_set split: sum.split)
next
  case (step_Traffic i pm ks v rate now)
  show ?case using UpdateProtocolTraffic_inv[OF step_Traffic.prems step_Traffic.hyps] by blast
next
  case (step_Deprecate pm i v now)
  then show ?case using pm_invD(2,3)[OF step_Deprecate]
    by (auto simp: DeprecateProtocol_def find_version_Inr intro!: pm_inv_set split: sum.split)
next
  case (step_Execute pm api i v input)
  then show ?case by (auto simp: ExecuteWASMProtocol_def pm_inv_frame split: option.split prod.split sum.split)
qed (simp_all add: EnableProtocols_def DisableProtocols_def pm_inv_frame)

lemma pm_inv_New: "listing_ok (case listed of None \<Rightarrow> [] | Some ps \<Rightarrow> ps) \<Longrightarrow> pm_inv (NewProtocolManager listed l)"
  unfolding NewProtocolManager_def by (rule loadProtocols_inv) (simp_all add: pm_inv_def version_addr_def)

lemma pm_reachable_inv: "pm_step\<^sup>*\<^sup>* pm pm' \<Longrightarrow> pm_inv pm \<Longrightarrow> pm_inv pm'"
  by (induction rule: rtranclp_induct) (auto intro: pm_step_inv)


definition example_protocol :: Protocol where
  "example_protocol = \<lparr>ProtoID = ''p'', ProtoName = ''P'', ProtoDescription = [], ProtoVersion = ''1'', Status = Active,
     TrafficRate = 100, ProtoCreatedAt = 0, ProtoUpdatedAt = 0\<rparr>"


text \<open>
  But \<^verbatim>\<open>activeProtocols\<close> is only ever set: a version taken out of service stays the one
  \<^verbatim>\<open>GetActiveProtocol\<close> returns, with the status it was given.
\<close>

lemma deprecated_stays_current:
  assumes "pm_inv pm" "GetProtocol i v pm = Some p" "Status p = Active"
  shows "map_option Status (GetActiveProtocol i (fst (DeprecateProtocol i v now pm))) = Some Deprecating"
    and "map_option Status (GetActiveProtocol i (fst (StartProtocolTesting i v now pm))) = Some Testing"
proof -
  from assms(2) obtain a where a: "version_addr i v pm = Some a" "objects pm a = p" by (auto simp: GetProtocol_def)
  with assms(3) pm_invD(5)[OF assms(1) a(1)] have "activeProtocols pm i = Some a" "find_version i v pm = Inr a"
    by (simp_all add: find_version_Inr)
  then show "map_option Status (GetActiveProtocol i (fst (DeprecateProtocol i v now pm))) = Some Deprecating"
    and "map_option Status (GetActiveProtocol i (fst (StartProtocolTesting i v now pm))) = Some Testing"
    by (simp_all add: DeprecateProtocol_def StartProtocolTesting_def GetActiveProtocol_def set_object_def)
qed

text \<open>The rate of an uploaded version is not checked.\<close>

lemma upload_rate_unchecked:
  "GetProtocol (ProtoID p) (ProtoVersion p) (fst (UploadProtocol True True p now pm)) =
     Some (p\<lparr>Status := Inactive, ProtoCreatedAt := now, ProtoUpdatedAt := now\<rparr>)"
  by (simp add: UploadProtocol_def GetProtocol_def version_addr_put) (simp add: put_version_def)

end
