(* ===== verification/Reliability.thy ===== *)
theory Reliability
  imports Prelude Complex_Main
begin

text \<open>
  \<^verbatim>\<open>core/pool/connection_pool.go\<close> and \<^verbatim>\<open>core/reliability/reliability_manager.go\<close>: the pool of
  connections, the circuit breaker and the degradation levels. Every operation runs under the
  mutex of its object; \<^verbatim>\<open>float64\<close> rates and thresholds are rationals.
\<close>

section \<open>Connection pool\<close>

record Connection =
  ConnID :: string
  Conn :: nat
  Protocol :: string
  IsActive :: bool

type_synonym ConnectionPool = "string \<rightharpoonup> Connection"

definition NewPool :: ConnectionPool where "NewPool = Map.empty"

text \<open>\<open>newID\<close>: the result of \<^verbatim>\<open>uuid.New\<close>.\<close>

definition AddConnection :: "string \<Rightarrow> nat \<Rightarrow> ConnectionPool \<Rightarrow> ConnectionPool \<times> string" where
  "AddConnection newID conn p = (p(newID \<mapsto> \<lparr>ConnID = newID, Conn = conn, Protocol = [], IsActive = True\<rparr>), newID)"

definition GetConnection :: "string \<Rightarrow> ConnectionPool \<Rightarrow> Connection option" where
  "GetConnection i p = p i"

text \<open>The second component: the connection that is closed.\<close>

definition RemoveConnection :: "string \<Rightarrow> ConnectionPool \<Rightarrow> ConnectionPool \<times> nat option" where
  "RemoveConnection i p = (case p i of None \<Rightarrow> (p, None) | Some c \<Rightarrow> (p(i := None), Some (Conn c)))"

definition UpdateConnectionProtocol :: "string \<Rightarrow> string \<Rightarrow> ConnectionPool \<Rightarrow> ConnectionPool \<times> bool" where
  "UpdateConnectionProtocol i pr p = (case p i of None \<Rightarrow> (p, False) | Some c \<Rightarrow> (p(i \<mapsto> c\<lparr>Protocol := pr\<rparr>), True))"

text \<open>The number of connections \<^verbatim>\<open>GetActiveConnections\<close> lists, and of those of one protocol.\<close>

definition ActiveConnections :: "ConnectionPool \<Rightarrow> nat" where
  "ActiveConnections p = map_len (filter_map (\<lambda>_ c. IsActive c) p)"

definition GetActiveConnectionCount :: "string \<Rightarrow> ConnectionPool \<Rightarrow> nat" where
  "GetActiveConnectionCount pr p = map_len (filter_map (\<lambda>_ c. IsActive c \<and> Protocol c = pr) p)"

definition ClosePool :: "ConnectionPool \<Rightarrow> ConnectionPool" where "ClosePool p = Map.empty"

section \<open>Circuit breaker\<close>

datatype CircuitBreakerState = StateClosed | StateOpen | StateHalfOpen

record CircuitBreaker =
  cb_name :: string
  cb_state :: CircuitBreakerState
  connectionFailureThreshold :: rat
  protocolFailureThreshold :: rat
  serviceFailureThreshold :: rat
  resetTimeout :: duration
  lastFailureTime :: time
  connectionFailures :: nat
  protocolFailures :: nat
  serviceFailures :: nat
  totalConnections :: nat

definition NewCircuitBreaker :: "string \<Rightarrow> rat \<Rightarrow> rat \<Rightarrow> rat \<Rightarrow> duration \<Rightarrow> CircuitBreaker" where
  "NewCircuitBreaker n ct pt st rt = \<lparr>cb_name = n, cb_state = StateClosed, connectionFailureThreshold = ct,
     protocolFailureThreshold = pt, serviceFailureThreshold = st, resetTimeout = rt, lastFailureTime = 0,
     connectionFailures = 0, protocolFailures = 0, serviceFailures = 0, totalConnections = 0\<rparr>"

text \<open>The failure rate is a NaN, which exceeds nothing, when there has been no connection.\<close>

definition exceeded :: "CircuitBreaker \<Rightarrow> bool" where
  "exceeded c \<longleftrightarrow>
     (totalConnections c \<noteq> 0 \<and> of_nat (connectionFailures c) / of_nat (totalConnections c) > connectionFailureThreshold c) \<or>
     of_nat (protocolFailures c) > protocolFailureThreshold c \<or> of_nat (serviceFailures c) > serviceFailureThreshold c"

definition checkThresholds :: "CircuitBreaker \<Rightarrow> CircuitBreaker" where
  "checkThresholds c = (if cb_state c = StateOpen then c else if exceeded c then c\<lparr>cb_state := StateOpen\<rparr> else c)"

definition RecordConnectionFailure :: "time \<Rightarrow> CircuitBreaker \<Rightarrow> CircuitBreaker" where
  "RecordConnectionFailure now c = checkThresholds (c\<lparr>connectionFailures := connectionFailures c + 1,
     totalConnections := totalConnections c + 1, lastFailureTime := now\<rparr>)"

definition RecordProtocolFailure :: "time \<Rightarrow> CircuitBreaker \<Rightarrow> CircuitBreaker" where
  "RecordProtocolFailure now c = checkThresholds (c\<lparr>protocolFailures := protocolFailures c + 1, lastFailureTime := now\<rparr>)"

definition RecordServiceFailure :: "time \<Rightarrow> CircuitBreaker \<Rightarrow> CircuitBreaker" where
  "RecordServiceFailure now c = checkThresholds (c\<lparr>serviceFailures := serviceFailures c + 1, lastFailureTime := now\<rparr>)"

text \<open>The clock is read once; the second look under the write lock sees the same state.\<close>

definition AllowRequest :: "time \<Rightarrow> CircuitBreaker \<Rightarrow> CircuitBreaker \<times> bool" where
  "AllowRequest now c = (case cb_state c of
     StateClosed \<Rightarrow> (c, True)
   | StateOpen \<Rightarrow> if now - lastFailureTime c > resetTimeout c then (c\<lparr>cb_state := StateHalfOpen\<rparr>, True) else (c, False)
   | StateHalfOpen \<Rightarrow> (c, True))"

definition RecordSuccess :: "CircuitBreaker \<Rightarrow> CircuitBreaker" where
  "RecordSuccess c = (if cb_state c = StateHalfOpen
     then c\<lparr>cb_state := StateClosed, connectionFailures := 0, protocolFailures := 0, serviceFailures := 0, totalConnections := 0\<rparr>
     else c)"

datatype failure = ConnectionFailure | ProtocolFailure | ServiceFailure

definition record_failure :: "failure \<Rightarrow> time \<Rightarrow> CircuitBreaker \<Rightarrow> CircuitBreaker" where
  "record_failure f now c = (case f of ConnectionFailure \<Rightarrow> RecordConnectionFailure now c
     | ProtocolFailure \<Rightarrow> RecordProtocolFailure now c | ServiceFailure \<Rightarrow> RecordServiceFailure now c)"

inductive cb_step :: "CircuitBreaker \<Rightarrow> CircuitBreaker \<Rightarrow> bool" where
  step_failure: "cb_step c (record_failure f now c)"
| step_allow: "cb_step c (fst (AllowRequest now c))"
| step_success: "cb_step c (RecordSuccess c)"

inductive_cases cb_step_cases: "cb_step c c'"

text \<open>Only failed connections are counted, and once open the thresholds stay exceeded until the breaker closes.\<close>

definition cb_inv :: "CircuitBreaker \<Rightarrow> bool" where
  "cb_inv c \<longleftrightarrow> connectionFailures c = totalConnections c \<and> (cb_state c \<noteq> StateClosed \<longrightarrow> exceeded c)"

lemmas failure_defs = record_failure_def RecordConnectionFailure_def RecordProtocolFailure_def RecordServiceFailure_def
  checkThresholds_def

lemma exceeded_mono:
  assumes "exceeded c" "connectionFailures c = totalConnections c"
  shows "exceeded (c\<lparr>connectionFailures := Suc (connectionFailures c), totalConnections := Suc (totalConnections c), lastFailureTime := t\<rparr>)"
    and "exceeded (c\<lparr>protocolFailures := Suc (protocolFailures c), lastFailureTime := t\<rparr>)"
    and "exceeded (c\<lparr>serviceFailures := Suc (serviceFailures c), lastFailureTime := t\<rparr>)"
  using assms by (auto simp: exceeded_def)

lemma cb_inv_step: "cb_step c c' \<Longrightarrow> cb_inv c \<Longrightarrow> cb_inv c'"
proof (induction rule: cb_step.induct)
  case (step_failure c f now)
  then show ?case using exceeded_mono[of c now]
    by (cases f) (auto simp: cb_inv_def failure_defs exceeded_def)
next
  case (step_allow c now)
  then show ?case by (cases "cb_state c") (auto simp: cb_inv_def AllowRequest_def exceeded_def)
next
  case (step_success c)
  then show ?case by (auto simp: cb_inv_def RecordSuccess_def)
qed

lemma cb_inv_reachable:
  assumes "cb_step\<^sup>*\<^sup>* (NewCircuitBreaker n ct pt st rt) c"
  shows "cb_inv c \<and> connectionFailureThreshold c = ct \<and> protocolFailureThreshold c = pt \<and>
    serviceFailureThreshold c = st \<and> resetTimeout c = rt"
  using assms
proof (induction rule: rtranclp_induct)
  case base
  show ?case by (simp add: NewCircuitBreaker_def cb_inv_def)
next
  case (step c c')
  have "connectionFailureThreshold c' = connectionFailureThreshold c \<and> protocolFailureThreshold c' = protocolFailureThreshold c \<and>
    serviceFailureThreshold c' = serviceFailureThreshold c \<and> resetTimeout c' = resetTimeout c"
    using step.hyps(2)
    by cases (auto simp: failure_defs AllowRequest_def RecordSuccess_def split: failure.split CircuitBreakerState.split)
  with step cb_inv_step show ?case by metis
qed

lemma failure_reopens:
  assumes "cb_inv c" "cb_state c \<noteq> StateClosed"
  shows "cb_state (record_failure f now c) = StateOpen"
proof -
  have "exceeded c" "connectionFailures c = totalConnections c" using assms by (auto simp: cb_inv_def)
  note exceeded_mono[OF this, of now]
  then show ?thesis by (cases f) (simp_all add: failure_defs)
qed

lemma closed_failure:
  assumes "cb_inv c" "cb_state c = StateClosed"
  shows "cb_state (record_failure f now c) = StateOpen \<longleftrightarrow>
    (0 < totalConnections c \<or> f = ConnectionFailure) \<and> connectionFailureThreshold c < 1 \<or>
    of_nat (protocolFailures c + (if f = ProtocolFailure then 1 else 0)) > protocolFailureThreshold c \<or>
    of_nat (serviceFailures c + (if f = ServiceFailure then 1 else 0)) > serviceFailureThreshold c"
  using assms by (cases f) (auto simp: failure_defs cb_inv_def exceeded_def)



section \<open>Degradation\<close>

datatype DegradationLevel = LevelNormal | LevelSimplified | LevelCriticalOnly | LevelMaintainOnly

record ReliabilityManager =
  circuitBreakers :: "string \<rightharpoonup> CircuitBreaker"
  degradationLevel :: DegradationLevel
  monitorInterval :: duration
  thresholdSimplified :: rat
  thresholdCriticalOnly :: rat
  thresholdMaintainOnly :: rat

definition NewReliabilityManagerWithConfig :: "int \<Rightarrow> rat \<Rightarrow> rat \<Rightarrow> rat \<Rightarrow> ReliabilityManager" where
  "NewReliabilityManagerWithConfig sec s c m =
     \<lparr>circuitBreakers = Map.empty, degradationLevel = LevelNormal,
      monitorInterval = (if sec \<le> 0 then 10 else sec) * second, thresholdSimplified = s, thresholdCriticalOnly = c,
      thresholdMaintainOnly = m\<rparr>"

definition NewReliabilityManager :: ReliabilityManager where
  "NewReliabilityManager = \<lparr>circuitBreakers = Map.empty, degradationLevel = LevelNormal, monitorInterval = 10 * second,
     thresholdSimplified = 5 / 100, thresholdCriticalOnly = 15 / 100, thresholdMaintainOnly = 30 / 100\<rparr>"

definition AddCircuitBreaker :: "CircuitBreaker \<Rightarrow> ReliabilityManager \<Rightarrow> ReliabilityManager" where
  "AddCircuitBreaker c m = m\<lparr>circuitBreakers := (circuitBreakers m)(cb_name c \<mapsto> c)\<rparr>"

definition SetDegradationLevel :: "DegradationLevel \<Rightarrow> ReliabilityManager \<Rightarrow> ReliabilityManager" where
  "SetDegradationLevel l m = m\<lparr>degradationLevel := l\<rparr>"

definition evaluateDegradationLevel :: "ConnectionPool \<Rightarrow> ReliabilityManager \<Rightarrow> ReliabilityManager" where
  "evaluateDegradationLevel p m =
     (let errorRate = of_nat (ActiveConnections p mod 100) / 100 in
      m\<lparr>degradationLevel := (if errorRate > thresholdMaintainOnly m then LevelMaintainOnly
         else if errorRate > thresholdCriticalOnly m then LevelCriticalOnly
         else if errorRate > thresholdSimplified m then LevelSimplified else LevelNormal)\<rparr>)"

definition level_rank :: "DegradationLevel \<Rightarrow> nat" where
  "level_rank l = (case l of LevelNormal \<Rightarrow> 0 | LevelSimplified \<Rightarrow> 1 | LevelCriticalOnly \<Rightarrow> 2 | LevelMaintainOnly \<Rightarrow> 3)"

text \<open>With thresholds in order the level rises with the number of active connections up to 99, and starts again at 100.\<close>

lemma degradation_monotone:
  assumes "thresholdSimplified m \<le> thresholdCriticalOnly m" "thresholdCriticalOnly m \<le> thresholdMaintainOnly m"
    and "ActiveConnections p \<le> ActiveConnections q" "ActiveConnections q < 100"
  shows "level_rank (degradationLevel (evaluateDegradationLevel p m)) \<le> level_rank (degradationLevel (evaluateDegradationLevel q m))"
proof -
  define x y where "x = (of_nat (ActiveConnections p mod 100) / 100 :: rat)" and "y = (of_nat (ActiveConnections q mod 100) / 100 :: rat)"
  have "x \<le> y" using assms(3,4) by (simp add: x_def y_def divide_right_mono)
  with assms(1,2) show ?thesis
    unfolding evaluateDegradationLevel_def Let_def x_def[symmetric] y_def[symmetric] by (simp add: level_rank_def)
qed

lemma degradation_wraps:
  "ActiveConnections p = 100 \<Longrightarrow> degradationLevel (evaluateDegradationLevel p NewReliabilityManager) = LevelNormal"
  "ActiveConnections p = 99 \<Longrightarrow> degradationLevel (evaluateDegradationLevel p NewReliabilityManager) = LevelMaintainOnly"
  by (simp_all add: evaluateDegradationLevel_def NewReliabilityManager_def)

end
