(* ===== verification/Radix_Tree.thy ===== *)
theory Radix_Tree
  imports Prelude
begin

text \<open>
  The prefix tree of routes of \<^verbatim>\<open>core/router/radix_tree.go\<close>. Nodes are shared objects and are held
  by address; a node's children are listed in the order in which \<^verbatim>\<open>range\<close> visits them, which the
  tree does not depend on. The lemmas show what a tree that starts with \<^verbatim>\<open>NewRadixTree\<close> holds and
  answers: the root has the empty prefix, so neither loop ever gets past it.
\<close>

section \<open>The tree\<close>

record RadixNode =
  prefix :: string
  children :: "(char \<times> nat) list"
  isLeaf :: bool
  nodeIDs :: "string list"

record RadixTree =
  node :: "nat \<Rightarrow> RadixNode"
  fresh_node :: nat
  root :: nat

definition NewRadixTree :: RadixTree where
  "NewRadixTree = \<lparr>node = (\<lambda>_. \<lparr>prefix = [], children = [], isLeaf = False, nodeIDs = []\<rparr>), fresh_node = 1, root = 0\<rparr>"

fun put_child :: "char \<Rightarrow> nat \<Rightarrow> (char \<times> nat) list \<Rightarrow> (char \<times> nat) list" where
  "put_child c a [] = [(c, a)]"
| "put_child c a ((d, b) # cs) = (if d = c then (c, a) # cs else (d, b) # put_child c a cs)"

definition set_child :: "nat \<Rightarrow> char \<Rightarrow> nat \<Rightarrow> RadixTree \<Rightarrow> RadixTree" where
  "set_child p c a t = t\<lparr>node := (node t)(p := (node t p)\<lparr>children := put_child c a (children (node t p))\<rparr>)\<rparr>"

definition new_node :: "RadixNode \<Rightarrow> RadixTree \<Rightarrow> RadixTree" where
  "new_node n t = t\<lparr>node := (node t)(fresh_node t := n), fresh_node := fresh_node t + 1\<rparr>"

definition new_leaf :: "string \<Rightarrow> string list \<Rightarrow> RadixNode" where
  "new_leaf s ids = \<lparr>prefix = s, children = [], isLeaf = True, nodeIDs = ids\<rparr>"

text \<open>The loop that computes \<^verbatim>\<open>commonPrefixLen\<close>.\<close>

fun common_prefix_len :: "string \<Rightarrow> string \<Rightarrow> nat" where
  "common_prefix_len (x # xs) (y # ys) = (if x = y then Suc (common_prefix_len xs ys) else 0)"
| "common_prefix_len xs ys = 0"

lemma common_prefix_len_le: "common_prefix_len xs ys \<le> length xs" "common_prefix_len xs ys \<le> length ys"
  by (induction xs ys rule: common_prefix_len.induct) auto

text \<open>
  \<^verbatim>\<open>findParent\<close> goes down at most \<open>n\<close> levels; a tree of \<open>k\<close> nodes has fewer than \<open>k\<close>.
\<close>

fun findParent :: "nat \<Rightarrow> RadixTree \<Rightarrow> nat \<Rightarrow> nat \<Rightarrow> nat option"
  and find_in :: "nat \<Rightarrow> RadixTree \<Rightarrow> nat \<Rightarrow> nat \<Rightarrow> (char \<times> nat) list \<Rightarrow> nat option" where
  "findParent 0 t r x = None"
| "findParent (Suc n) t r x = find_in n t r x (children (node t r))"
| "find_in n t r x [] = None"
| "find_in n t r x ((c, a) # cs) = (if a = x then Some r
     else (case findParent n t a x of Some p \<Rightarrow> Some p | None \<Rightarrow> find_in n t r x cs))"

text \<open>
  The branch of \<^verbatim>\<open>Insert\<close> that splits the node \<open>cur\<close> after \<open>k\<close> characters. A path that ends there
  leaves the new node without a prefix and its first character is out of range.
\<close>

definition split_node :: "nat \<Rightarrow> nat \<Rightarrow> string \<Rightarrow> string list \<Rightarrow> RadixTree \<Rightarrow> RadixTree option" where
  "split_node cur k path ids t =
     (let pre = prefix (node t cur); sp = fresh_node t; nw = fresh_node t + 1;
          t = new_node \<lparr>prefix = take k pre, children = [], isLeaf = False, nodeIDs = []\<rparr> t;
          t = t\<lparr>node := (node t)(cur := (node t cur)\<lparr>prefix := drop k pre\<rparr>)\<rparr>;
          t = set_child sp (drop k pre ! 0) cur t;
          t = new_node (new_leaf (drop k path) ids) t
      in if drop k path = [] then None
         else (let t = set_child sp (drop k path ! 0) nw t; c = take k pre ! 0
               in Some (case findParent (fresh_node t) t (root t) cur of
                    Some p \<Rightarrow> set_child p c sp t
                  | None \<Rightarrow> set_child (root t) c sp t)))"

text \<open>One turn of a loop goes on only with a shorter path. \<open>None\<close>: the insertion panics.\<close>

function insert_loop :: "nat \<Rightarrow> string \<Rightarrow> string list \<Rightarrow> RadixTree \<Rightarrow> RadixTree option" where
  "insert_loop cur path ids t =
     (let k = common_prefix_len (prefix (node t cur)) path in
      if k = 0 then
        (if path = [] then None else Some (set_child cur (path ! 0) (fresh_node t) (new_node (new_leaf path ids) t)))
      else if k = length (prefix (node t cur)) then
        (let path = drop k path in
         if path = [] then Some (t\<lparr>node := (node t)(cur := (node t cur)\<lparr>isLeaf := True, nodeIDs := ids\<rparr>)\<rparr>)
         else (case map_of (children (node t cur)) (path ! 0) of
             Some a \<Rightarrow> insert_loop a path ids t
           | None \<Rightarrow> Some (set_child cur (path ! 0) (fresh_node t) (new_node (new_leaf path ids) t))))
      else split_node cur k path ids t)"
  by pat_completeness auto

termination
  by (relation "measure (\<lambda>(_, path, _, _). length path)") auto

declare insert_loop.simps [simp del]

definition Insert :: "string \<Rightarrow> string list \<Rightarrow> RadixTree \<Rightarrow> RadixTree option" where
  "Insert path ids t = (if path = [] then Some t else insert_loop (root t) path ids t)"

text \<open>\<^verbatim>\<open>Search\<close>; a nil slice is the empty list.\<close>

function search_loop :: "nat \<Rightarrow> string \<Rightarrow> string list \<Rightarrow> RadixTree \<Rightarrow> string list" where
  "search_loop cur path best t =
     (let n = node t cur; k = common_prefix_len (prefix n) path in
      if k = 0 then best
      else if k = length (prefix n) then
        (let best = (if isLeaf n then nodeIDs n else best); path = drop k path in
         if path = [] then best
         else (case map_of (children n) (path ! 0) of Some a \<Rightarrow> search_loop a path best t | None \<Rightarrow> best))
      else if k = length path \<and> take k (prefix n) = path then best else [])"
  by pat_completeness auto

termination
  by (relation "measure (\<lambda>(_, path, _, _). length path)") auto

declare search_loop.simps [simp del]

definition Search :: "string \<Rightarrow> RadixTree \<Rightarrow> string list" where
  "Search path t = (if path = [] then [] else search_loop (root t) path [] t)"

definition DeletePath :: "string \<Rightarrow> RadixTree \<Rightarrow> bool" where "DeletePath path t = False"

text \<open>\<^verbatim>\<open>collectPaths\<close>, at most \<open>n\<close> levels deep.\<close>

fun collectPaths :: "nat \<Rightarrow> RadixTree \<Rightarrow> nat \<Rightarrow> string \<Rightarrow> string list" where
  "collectPaths 0 t a s = []"
| "collectPaths (Suc n) t a s =
     (if isLeaf (node t a) then [s @ prefix (node t a)] else []) @
     concat (map (\<lambda>(_, b). collectPaths n t b (s @ prefix (node t a))) (children (node t a)))"

definition GetAllPaths :: "RadixTree \<Rightarrow> string list" where
  "GetAllPaths t = collectPaths (fresh_node t) t (root t) []"

section \<open>What a tree can hold\<close>

lemma map_of_put_child: "map_of (put_child c a cs) = (map_of cs)(c \<mapsto> a)"
  by (induction cs) auto

lemma set_put_child: "set (put_child c a cs) \<subseteq> insert (c, a) (set cs)"
  by (induction c a cs rule: put_child.induct) (auto split: if_splits)

lemma keys_put_child: "map fst (put_child c a cs) = (if c \<in> fst ` set cs then map fst cs else map fst cs @ [c])"
  by (induction c a cs rule: put_child.induct) auto

lemma keys_set_put_child: "fst ` set (put_child c a cs) = insert c (fst ` set cs)"
  unfolding list.set_map[symmetric] keys_put_child by auto

lemma distinct_put_child: "distinct (map fst cs) \<Longrightarrow> distinct (map fst (put_child c a cs))"
  by (simp add: keys_put_child)

lemma common_prefix_len_Nil [simp]: "common_prefix_len xs [] = 0"
  by (cases xs) auto

text \<open>The route inserted last among those with the first byte \<open>c\<close>.\<close>

definition latest :: "(string \<times> string list) list \<Rightarrow> char \<rightharpoonup> string" where
  "latest rs = fold (\<lambda>(p, ids) m. if p = [] then m else m(p ! 0 \<mapsto> p)) rs Map.empty"

text \<open>The tree is a root without prefix whose children are all leaves, one per first byte.\<close>

definition flat_tree :: "(char \<rightharpoonup> string) \<Rightarrow> RadixTree \<Rightarrow> bool" where
  "flat_tree m t \<longleftrightarrow> root t = 0 \<and> prefix (node t 0) = [] \<and> \<not> isLeaf (node t 0) \<and> 0 < fresh_node t \<and>
     distinct (map fst (children (node t 0))) \<and>
     (\<forall>(c, a)\<in>set (children (node t 0)). 0 < a \<and> a < fresh_node t \<and> isLeaf (node t a) \<and> children (node t a) = [] \<and>
        m c = Some (prefix (node t a))) \<and> dom m \<subseteq> fst ` set (children (node t 0))"

lemma flat_tree_New: "flat_tree Map.empty NewRadixTree"
  by (simp add: flat_tree_def NewRadixTree_def)

lemma flat_tree_Insert:
  assumes "flat_tree m t"
  shows "\<exists>t'. Insert p ids t = Some t' \<and> flat_tree (if p = [] then m else m(p ! 0 \<mapsto> p)) t'"
proof (cases "p = []")
  case False
  let ?u = "new_node (new_leaf p ids) t" let ?t = "set_child 0 (p ! 0) (fresh_node t) ?u"
  let ?cs = "children (node t 0)"
  note f = assms[unfolded flat_tree_def]
  have root: "node ?t 0 = (node t 0)\<lparr>children := put_child (p ! 0) (fresh_node t) ?cs\<rparr>" "root ?t = 0"
    "fresh_node ?t = fresh_node t + 1" "node ?t (fresh_node t) = new_leaf p ids"
    and old: "\<And>a. 0 < a \<Longrightarrow> a < fresh_node t \<Longrightarrow> node ?t a = node t a"
    using f by (simp_all add: set_child_def new_node_def)
  have "0 < a \<and> a < fresh_node ?t \<and> isLeaf (node ?t a) \<and> children (node ?t a) = [] \<and>
      (m(p ! 0 \<mapsto> p)) c = Some (prefix (node ?t a))" if "(c, a) \<in> set (put_child (p ! 0) (fresh_node t) ?cs)" for c a
  proof (cases "c = p ! 0")
    case True
    have "map_of (put_child (p ! 0) (fresh_node t) ?cs) c = Some a"
      using that f by (simp add: distinct_put_child)
    with True have "a = fresh_node t" by (simp add: map_of_put_child)
    with True root f show ?thesis by (simp add: new_leaf_def)
  next
    case False
    with that set_put_child have "(c, a) \<in> set ?cs" by fastforce
    with f old[of a] False root(3) show ?thesis by auto
  qed
  then have "flat_tree (m(p ! 0 \<mapsto> p)) ?t" unfolding flat_tree_def root(1)
    using f root by (auto simp: distinct_put_child keys_set_put_child)
  moreover have "Insert p ids t = Some ?t" using False f
    by (simp add: Insert_def insert_loop.simps[of 0])
  ultimately show ?thesis using False by simp
qed (use assms in \<open>simp add: Insert_def\<close>)

lemma flat_tree_Search: "flat_tree m t \<Longrightarrow> Search path t = []"
  by (simp add: Search_def flat_tree_def search_loop.simps[of 0])

lemma flat_tree_paths:
  assumes "flat_tree m t" shows "set (GetAllPaths t) = ran m"
proof -
  let ?cs = "children (node t 0)"
  note f = assms[unfolded flat_tree_def]
  obtain n where n: "fresh_node t = Suc n" using f by (auto simp: gr0_conv_Suc)
  have leaf: "collectPaths n t a [] = [prefix (node t a)]" if "(c, a) \<in> set ?cs" for c a
  proof -
    have "0 < n" "isLeaf (node t a)" "children (node t a) = []" using that f n by auto
    then show ?thesis by (cases n) auto
  qed
  have "set (GetAllPaths t) = (\<Union>(c, a)\<in>set ?cs. set (collectPaths n t a []))"
    using f by (auto simp: GetAllPaths_def n)
  also have "\<dots> = (\<Union>(c, a)\<in>set ?cs. {prefix (node t a)})" using leaf by (auto split: prod.splits)
  also have "\<dots> = ran m"
  proof -
    have m: "m c = Some (prefix (node t a))" if "(c, a) \<in> set ?cs" for c a using f that by auto
    have "\<exists>(c, a)\<in>set ?cs. s = prefix (node t a)" if c: "m c = Some s" for c s
    proof -
      from c f have "c \<in> fst ` set ?cs" by blast
      then obtain a where a: "(c, a) \<in> set ?cs" by auto
      with m[OF a] c show ?thesis by auto
    qed
    with m show ?thesis unfolding ran_def by fast
  qed
  finally show ?thesis .
qed

lemma inserted_flat:
  assumes "flat_tree m t"
  shows "\<exists>t'. fold (\<lambda>(p, ids) t. Option.bind t (Insert p ids)) rs (Some t) = Some t' \<and>
    flat_tree (fold (\<lambda>(p, ids) m. if p = [] then m else m(p ! 0 \<mapsto> p)) rs m) t'"
  using assms
proof (induction rs arbitrary: m t)
  case (Cons r rs)
  obtain p ids where r: "r = (p, ids)" by (cases r)
  from flat_tree_Insert[OF Cons.prems, of p ids] obtain t' where
    "Insert p ids t = Some t'" "flat_tree (if p = [] then m else m(p ! 0 \<mapsto> p)) t'" by blast
  with Cons.IH[OF this(2)] r show ?case by simp
qed simp

text \<open>
  Whatever routes are inserted into a new tree, no insertion panics, every search returns
  nothing, and the tree has kept only the route inserted last among those that begin with the
  same byte.
\<close>

lemma radix_tree_finds_nothing:
  "\<exists>t. fold (\<lambda>(p, ids) t. Option.bind t (Insert p ids)) rs (Some NewRadixTree) = Some t \<and>
     (\<forall>path. Search path t = []) \<and> set (GetAllPaths t) = ran (latest rs)"
  using inserted_flat[OF flat_tree_New, of rs] flat_tree_Search flat_tree_paths unfolding latest_def by blast

text \<open>Routes begin with a slash, so the second one replaces the first.\<close>

lemma second_route_replaces_first:
  "\<exists>t. Option.bind (Insert ''/users'' [''n1''] NewRadixTree) (Insert ''/orders'' [''n2'']) = Some t \<and>
     set (GetAllPaths t) = {''/orders''}"
proof -
  have "latest [(''/users'', [''n1'']), (''/orders'', [''n2''])] = [CHR ''/'' \<mapsto> ''/orders'']" by (simp add: latest_def)
  then have "ran (latest [(''/users'', [''n1'']), (''/orders'', [''n2''])]) = {''/orders''}" by simp
  then show ?thesis
    using inserted_flat[OF flat_tree_New, of "[(''/users'', [''n1'']), (''/orders'', [''n2''])]"] flat_tree_paths
    unfolding latest_def by fastforce
qed

text \<open>Below a node with a prefix the loops do what they are meant to; a split then panics on a path that ends there.\<close>

lemma split_at_end_panics:
  "split_node cur (length path) path ids t = None"
  by (simp add: split_node_def Let_def)

end
