(* ===== verification/Http_Handler.thy ===== *)
theory Http_Handler
  imports Radix_Tree
begin

text \<open>
  The HTTP handler of \<^verbatim>\<open>core/protocols/http/handler.go\<close>: the response writer, the middlewares and
  their chain, and the handling of one connection over the prefix tree. Parsing the request, the
  text of a status, the formatted date and what a write on the connection returns are the
  standard library's and the connection's and are parameters; the bytes handed to the connection
  are kept in order.
\<close>

section \<open>The response writer\<close>

record http_env =
  StatusText :: "int \<Rightarrow> string"
  http_date :: string
  conn_write :: "string \<Rightarrow> int \<times> string option"

record ResponseWriter =
  wire :: "string list"
  statusCode :: int
  headers :: "(string \<times> string list) list"   \<comment> \<open>in the order in which \<^verbatim>\<open>range\<close> visits them\<close>
  keepAlive :: bool
  headerSent :: bool
  contentLength :: int
  written :: int

definition NewResponseWriter :: ResponseWriter where
  "NewResponseWriter = \<lparr>wire = [], statusCode = 0, headers = [], keepAlive = True, headerSent = False,
     contentLength = 0, written = 0\<rparr>"

text \<open>
  How a call ends. \<^verbatim>\<open>sync.Mutex\<close> is not reentrant: locking it twice in one goroutine blocks it for
  ever.
\<close>

datatype 'a outcome = Done 'a | Panics ResponseWriter string | Deadlock

fun and_then :: "'a outcome \<Rightarrow> ('a \<Rightarrow> 'b outcome) \<Rightarrow> 'b outcome" where
  "and_then (Done a) f = f a"
| "and_then (Panics w p) f = Panics w p"
| "and_then Deadlock f = Deadlock"

definition header_Get :: "string \<Rightarrow> (string \<times> string list) list \<Rightarrow> string" where
  "header_Get k h = (case map_of h k of Some (v # vs) \<Rightarrow> v | _ \<Rightarrow> [])"

fun header_Set :: "string \<Rightarrow> string \<Rightarrow> (string \<times> string list) list \<Rightarrow> (string \<times> string list) list" where
  "header_Set k v [] = [(k, [v])]"
| "header_Set k v ((j, vs) # h) = (if j = k then (k, [v]) # h else (j, vs) # header_Set k v h)"

definition set_header :: "string \<Rightarrow> string \<Rightarrow> ResponseWriter \<Rightarrow> ResponseWriter" where
  "set_header k v w = w\<lparr>headers := header_Set k v (headers w)\<rparr>"

definition default_header :: "string \<Rightarrow> string \<Rightarrow> (string \<times> string list) list \<Rightarrow> (string \<times> string list) list" where
  "default_header k v h = (if header_Get k h = [] then header_Set k v h else h)"

definition crlf :: string where "crlf = [CHR 0x0D, CHR 0x0A]"

definition header_lines :: "(string \<times> string list) list \<Rightarrow> string" where
  "header_lines h = concat (map (\<lambda>(k, vs). concat (map (\<lambda>v. k @ '': '' @ v @ crlf) vs)) h)"

definition WriteHeader :: "http_env \<Rightarrow> int \<Rightarrow> ResponseWriter \<Rightarrow> ResponseWriter" where
  "WriteHeader env code w =
     (if headerSent w then w
      else (let h = default_header ''Server'' ''MuxCore/1.0'' (default_header ''Date'' (http_date env)
                (default_header ''Content-Type'' ''text/plain; charset=utf-8'' (headers w)));
                h = (if contentLength w > 0 then header_Set ''Content-Length'' (show_int (contentLength w)) h else h)
            in w\<lparr>statusCode := code, headerSent := True, headers := h,
                 keepAlive := (if header_Get ''Connection'' h = ''close'' then False else keepAlive w),
                 wire := wire w @ [''HTTP/1.1 '' @ show_int code @ '' '' @ StatusText env code @ crlf @ header_lines h @ crlf]\<rparr>))"

text \<open>\<^verbatim>\<open>Write\<close> calls \<^verbatim>\<open>WriteHeader\<close> while it holds the lock that \<^verbatim>\<open>WriteHeader\<close> takes.\<close>

definition Write :: "http_env \<Rightarrow> string \<Rightarrow> ResponseWriter \<Rightarrow> (ResponseWriter \<times> int \<times> string option) outcome" where
  "Write env b w =
     (if \<not> headerSent w then Deadlock
      else (let (n, err) = conn_write env b
            in Done (w\<lparr>wire := wire w @ [b], written := written w + n\<rparr>, n, err)))"

definition SetContentLength :: "int \<Rightarrow> ResponseWriter \<Rightarrow> ResponseWriter" where
  "SetContentLength n w = w\<lparr>contentLength := n\<rparr>"

text \<open>The readers, and the two operations that do nothing to the response: flushing and hijacking.\<close>

definition rw_ContentLength :: "ResponseWriter \<Rightarrow> int" where "rw_ContentLength w = contentLength w"

definition rw_Size :: "ResponseWriter \<Rightarrow> int" where "rw_Size w = written w"

definition rw_Status :: "ResponseWriter \<Rightarrow> int" where "rw_Status w = statusCode w"

definition rw_Header :: "ResponseWriter \<Rightarrow> (string \<times> string list) list" where "rw_Header w = headers w"

definition rw_Flush :: "ResponseWriter \<Rightarrow> ResponseWriter" where "rw_Flush w = w"

definition rw_Hijack :: "'conn \<Rightarrow> ResponseWriter \<Rightarrow> ResponseWriter \<times> 'conn" where "rw_Hijack conn w = (w, conn)"

text \<open>After the connection was handed out the writer still writes to it.\<close>

lemma writes_after_hijack: "Write env b (fst (rw_Hijack conn w)) = Write env b w"
  by (simp add: rw_Hijack_def)

text \<open>What \<^verbatim>\<open>CloseNotify\<close> sends, and that it sends at once.\<close>

definition CloseNotify :: "ResponseWriter \<Rightarrow> bool list" where "CloseNotify w = [True]"

section \<open>Middlewares\<close>

record Request =
  Method :: string
  URLPath :: string
  RemoteAddr :: string

type_synonym handler = "ResponseWriter \<Rightarrow> Request \<Rightarrow> ResponseWriter outcome"
type_synonym middleware = "handler \<Rightarrow> handler"

definition write_body :: "http_env \<Rightarrow> string \<Rightarrow> ResponseWriter \<Rightarrow> ResponseWriter outcome" where
  "write_body env b w = and_then (Write env b w) (\<lambda>(w, _). Done w)"

definition json_answer :: "http_env \<Rightarrow> int \<Rightarrow> string \<Rightarrow> ResponseWriter \<Rightarrow> ResponseWriter outcome" where
  "json_answer env code b w = write_body env b (WriteHeader env code (set_header ''Content-Type'' ''application/json'' w))"

text \<open>The logging middleware only logs after the next handler.\<close>

definition LoggingMiddleware :: middleware where "LoggingMiddleware nxt w r = and_then (nxt w r) Done"

definition quote :: string where "quote = [CHR 0x22]"

definition RecoveryMiddleware :: "http_env \<Rightarrow> middleware" where
  "RecoveryMiddleware env nxt w r = (case nxt w r of
     Panics w p \<Rightarrow> json_answer env 500 (''{'' @ quote @ ''error'' @ quote @ '': '' @ quote @ ''Internal Server Error'' @ quote @ ''}'') w
   | res \<Rightarrow> res)"

definition CORSMiddleware :: "http_env \<Rightarrow> middleware" where
  "CORSMiddleware env nxt w r =
     (let w = set_header ''Access-Control-Allow-Headers'' ''Content-Type, Authorization''
            (set_header ''Access-Control-Allow-Methods'' ''GET, POST, PUT, DELETE, OPTIONS''
            (set_header ''Access-Control-Allow-Origin'' ''*'' w))
      in if Method r = ''OPTIONS'' then Done (WriteHeader env 200 w) else nxt w r)"

text \<open>The last middleware is applied first, so the first one is outermost.\<close>

definition buildMiddlewareChain :: "middleware list \<Rightarrow> handler \<Rightarrow> handler" where
  "buildMiddlewareChain ms h = foldr (\<lambda>m h. m h) ms h"

section \<open>One connection\<close>

definition baseHandler :: "http_env \<Rightarrow> RadixTree \<Rightarrow> handler" where
  "baseHandler env t w r =
     (let p = URLPath r in
      if length (Search p t) > 0
      then json_answer env 200 (''{'' @ quote @ ''message'' @ quote @ '': '' @ quote @ ''Hello from Enhanced HTTP Handler!'' @ quote @
             '', '' @ quote @ ''path'' @ quote @ '': '' @ quote @ p @ quote @ ''}'') w
      else json_answer env 404 (''{'' @ quote @ ''error'' @ quote @ '': '' @ quote @ ''404 Not Found'' @ quote @
             '', '' @ quote @ ''path'' @ quote @ '': '' @ quote @ p @ quote @ ''}'') w)"

record HTTPHandler =
  router :: RadixTree
  middlewares :: "middleware list"

definition NewHTTPHandler :: "RadixTree \<Rightarrow> HTTPHandler" where "NewHTTPHandler t = \<lparr>router = t, middlewares = []\<rparr>"

definition AddMiddleware :: "middleware \<Rightarrow> HTTPHandler \<Rightarrow> HTTPHandler" where
  "AddMiddleware m h = h\<lparr>middlewares := middlewares h @ [m]\<rparr>"

text \<open>
  \<open>parse\<close> stands for \<^verbatim>\<open>http.ReadRequest\<close>, \<open>addr\<close> for the address of the peer. \<open>None\<close>: the request
  could not be parsed and nothing is answered.
\<close>

definition Handle :: "(bytes \<Rightarrow> Request option) \<Rightarrow> http_env \<Rightarrow> string \<Rightarrow> bytes \<Rightarrow> HTTPHandler \<Rightarrow> ResponseWriter outcome option" where
  "Handle parse env addr initialData h = (case parse initialData of
     None \<Rightarrow> None
   | Some r \<Rightarrow> Some (buildMiddlewareChain (middlewares h) (baseHandler env (router h)) NewResponseWriter (r\<lparr>RemoteAddr := addr\<rparr>)))"

section \<open>What the handler answers\<close>

lemma buildMiddlewareChain_simps [simp]:
  "buildMiddlewareChain [] h = h"
  "buildMiddlewareChain (m # ms) h = m (buildMiddlewareChain ms h)"
  by (simp_all add: buildMiddlewareChain_def)

lemma map_of_header_Set: "map_of (header_Set k v h) = (map_of h)(k \<mapsto> [v])"
  by (induction k v h rule: header_Set.induct) auto

lemma header_Get_default:
  "header_Get k (default_header j v h) = (if k = j \<and> header_Get j h = [] then v else header_Get k h)"
  by (simp add: default_header_def header_Get_def map_of_header_Set)

lemma header_Get_Set: "header_Get k (header_Set j v h) = (if k = j then v else header_Get k h)"
  by (simp add: header_Get_def map_of_header_Set)

datatype builtin = Logging | Recovery | CORS

fun builtin_middleware :: "http_env \<Rightarrow> builtin \<Rightarrow> middleware" where
  "builtin_middleware env Logging = LoggingMiddleware"
| "builtin_middleware env Recovery = RecoveryMiddleware env"
| "builtin_middleware env CORS = CORSMiddleware env"

text \<open>A writer on which nothing has been sent, set to keep the connection and without a length.\<close>

definition unsent :: "ResponseWriter \<Rightarrow> bool" where
  "unsent w \<longleftrightarrow> \<not> headerSent w \<and> keepAlive w \<and> contentLength w = 0 \<and>
     header_Get ''Content-Length'' (headers w) = [] \<and> header_Get ''Connection'' (headers w) = []"

lemma unsent_New: "unsent NewResponseWriter"
  by (simp add: unsent_def NewResponseWriter_def header_Get_def)

lemma unsent_set_header: "unsent w \<Longrightarrow> k \<noteq> ''Content-Length'' \<Longrightarrow> k \<noteq> ''Connection'' \<Longrightarrow> unsent (set_header k v w)"
  by (simp add: unsent_def set_header_def header_Get_Set)

definition answered :: "int \<Rightarrow> ResponseWriter \<Rightarrow> bool" where
  "answered code w \<longleftrightarrow> headerSent w \<and> statusCode w = code \<and> keepAlive w \<and> header_Get ''Content-Length'' (headers w) = []"

lemma answered_WriteHeader: "unsent w \<Longrightarrow> answered code (WriteHeader env code w)"
  by (simp add: answered_def unsent_def WriteHeader_def Let_def header_Get_default)

lemma json_answer_answered:
  assumes "unsent w" shows "\<exists>w'. json_answer env code b w = Done w' \<and> answered code w'"
proof -
  have "answered code (WriteHeader env code (set_header ''Content-Type'' ''application/json'' w))"
    by (rule answered_WriteHeader) (rule unsent_set_header[OF assms], simp_all)
  then show ?thesis
    by (cases "conn_write env b") (simp add: json_answer_def write_body_def Write_def answered_def)
qed

lemma builtin_chain_answers:
  assumes "unsent w" "\<And>w. unsent w \<Longrightarrow> \<exists>w'. h w r = Done w' \<and> answered code w'"
  shows "\<exists>w'. buildMiddlewareChain (map (builtin_middleware env) bs) h w r = Done w' \<and>
    answered (if CORS \<in> set bs \<and> Method r = ''OPTIONS'' then 200 else code) w'"
  using assms(1)
proof (induction bs arbitrary: w)
  case Nil
  then show ?case using assms(2) by simp
next
  case (Cons b bs)
  show ?case
  proof (cases b)
    case CORS
    let ?w = "set_header ''Access-Control-Allow-Headers'' ''Content-Type, Authorization''
            (set_header ''Access-Control-Allow-Methods'' ''GET, POST, PUT, DELETE, OPTIONS''
            (set_header ''Access-Control-Allow-Origin'' ''*'' w))"
    have u: "unsent ?w" using Cons.prems by (intro unsent_set_header) simp_all
    from Cons.IH[OF u] answered_WriteHeader[OF u] show ?thesis
      by (auto simp: CORS CORSMiddleware_def Let_def)
  qed (use Cons.IH[OF Cons.prems] in \<open>auto simp: LoggingMiddleware_def RecoveryMiddleware_def\<close>)
qed

text \<open>
  Whatever routes are inserted into the tree of the handler, every request that can be parsed
  is answered 404 (with the CORS middleware an OPTIONS request is answered 200), under any
  chain of the package's middlewares; the answer keeps the connection open but carries no
  \<^verbatim>\<open>Content-Length\<close>, so that the client cannot tell where it ends.
\<close>

lemma http_handler_answers_404:
  assumes "parse initialData = Some r"
    and "fold (\<lambda>(p, ids) t. Option.bind t (Insert p ids)) routes (Some NewRadixTree) = Some t"
  shows "\<exists>w. Handle parse env addr initialData (fold (\<lambda>b. AddMiddleware (builtin_middleware env b)) bs (NewHTTPHandler t)) = Some (Done w) \<and>
    headerSent w \<and> statusCode w = (if CORS \<in> set bs \<and> Method r = ''OPTIONS'' then 200 else 404) \<and>
    keepAlive w \<and> header_Get ''Content-Length'' (headers w) = []"
proof -
  let ?r = "r\<lparr>RemoteAddr := addr\<rparr>" let ?h = "fold (\<lambda>b. AddMiddleware (builtin_middleware env b)) bs (NewHTTPHandler t)"
  have mws: "middlewares (fold (\<lambda>b. AddMiddleware (builtin_middleware env b)) bs h) = middlewares h @ map (builtin_middleware env) bs \<and>
      router (fold (\<lambda>b. AddMiddleware (builtin_middleware env b)) bs h) = router h" for h
    by (induction bs arbitrary: h) (simp_all add: AddMiddleware_def)
  have "Search p t = []" for p using inserted_flat[OF flat_tree_New, of routes] flat_tree_Search assms(2) by auto
  then have "\<exists>w'. baseHandler env t w ?r = Done w' \<and> answered 404 w'" if "unsent w" for w
    using json_answer_answered[OF that] by (simp add: baseHandler_def Let_def)
  from builtin_chain_answers[where h = "baseHandler env t" and r = ?r and code = 404, OF unsent_New this, of env bs] assms(1) mws[of "NewHTTPHandler t"] show ?thesis
    by (simp add: Handle_def NewHTTPHandler_def answered_def)
qed

lemma http_handler_answers_404_witness:
  "let env = \<lparr>StatusText = (\<lambda>_. ''Not Found''), http_date = ''Thu, 01 Jan 1970 00:00:00 GMT'', conn_write = (\<lambda>b. (int (length b), None))\<rparr>
   in \<exists>t w. Insert ''/users'' [''n1''] NewRadixTree = Some t \<and>
     Handle (\<lambda>_. Some \<lparr>Method = ''GET'', URLPath = ''/users'', RemoteAddr = []\<rparr>) env ''peer'' []
       (AddMiddleware (builtin_middleware env Recovery) (NewHTTPHandler t)) = Some (Done w) \<and> statusCode w = 404"
proof -
  obtain t where t: "Insert ''/users'' [''n1''] NewRadixTree = Some t" using flat_tree_Insert[OF flat_tree_New] by blast
  then have f: "fold (\<lambda>(p, ids) t. Option.bind t (Insert p ids)) [(''/users'', [''n1''])] (Some NewRadixTree) = Some t" by simp
  let ?e = "\<lparr>StatusText = (\<lambda>_. ''Not Found''), http_date = ''Thu, 01 Jan 1970 00:00:00 GMT'', conn_write = (\<lambda>b. (int (length b), None))\<rparr>"
  show ?thesis unfolding Let_def
    using http_handler_answers_404[where parse = "\<lambda>_. Some \<lparr>Method = ''GET'', URLPath = ''/users'', RemoteAddr = []\<rparr>"
        and env = ?e and addr = "''peer''" and bs = "[Recovery]" and initialData = "[]", OF refl f] t
    by auto
qed

text \<open>A handler that writes a body without a status first never returns.\<close>

lemma Write_before_WriteHeader: "buildMiddlewareChain [RecoveryMiddleware env] (\<lambda>w r. write_body env b w) NewResponseWriter r = Deadlock"
  by (simp add: buildMiddlewareChain_def RecoveryMiddleware_def write_body_def Write_def NewResponseWriter_def)

text \<open>The recovery middleware answers 500 when nothing was sent, and otherwise appends to what was sent.\<close>

lemma recovery_catches:
  assumes "h w r = Panics w' p" "unsent w'"
  shows "\<exists>w''. RecoveryMiddleware env h w r = Done w'' \<and> answered 500 w''"
  using json_answer_answered[OF assms(2)] assms(1) by (simp add: RecoveryMiddleware_def)

end
