(* ===== verification/Http_Router.thy ===== *)
theory Http_Router
  imports Radix_Tree
begin

text \<open>
  The HTTP router of \<^verbatim>\<open>core/router/http_router.go\<close>: routes with parameters and wildcards compiled
  to regular expressions, the linear search for a route, and the chain of middlewares around its
  handler. Of \<^verbatim>\<open>regexp\<close> the router uses patterns of literal characters, \<^verbatim>\<open>([^/]+)\<close> and
  \<^verbatim>\<open>(.*)\<close> between \<^verbatim>\<open>^\<close> and \<^verbatim>\<open>$\<close>, which are modelled with the leftmost-greedy choice of the
  package, on ASCII paths; a pattern in which the path itself brings in other operators is left to
  parameters. The lemmas show that compiling a path gives the tokens one reads off the path, that
  matching finds exactly its instances, and which route is chosen.
\<close>

section \<open>Regular expressions the router makes\<close>

datatype token = Lit char | Seg | Any

datatype regex = Simple "token list" | Other string

definition seg_text :: string where "seg_text = ''([^/]+)''"
definition any_text :: string where "any_text = ''(.*)''"

text \<open>The characters with a meaning in a regular expression.\<close>

definition meta :: "char \<Rightarrow> bool" where
  "meta c \<longleftrightarrow> c \<in> set (CHR 0x5C # ''.+*?()[]{}^$|'')"

function parse_regex :: "string \<Rightarrow> token list option" where
  "parse_regex [] = Some []"
| "parse_regex (c # cs) =
     (if has_prefix (c # cs) seg_text then map_option ((#) Seg) (parse_regex (drop 7 (c # cs)))
      else if has_prefix (c # cs) any_text then map_option ((#) Any) (parse_regex (drop 4 (c # cs)))
      else if meta c then None else map_option ((#) (Lit c)) (parse_regex cs))"
  by pat_completeness auto
termination by (relation "measure length") auto

text \<open>A group tries the longest run first and gives back a character at a time, down to \<open>lo\<close>.\<close>

fun greedy :: "(string \<Rightarrow> string list option) \<Rightarrow> nat \<Rightarrow> nat \<Rightarrow> string \<Rightarrow> string list option" where
  "greedy f lo k s =
     (if k < lo then None
      else case f (drop k s) of
        Some cs \<Rightarrow> Some (take k s # cs)
      | None \<Rightarrow> if k = 0 then None else greedy f lo (k - 1) s)"

declare greedy.simps [simp del]

primrec submatch :: "token list \<Rightarrow> string \<Rightarrow> string list option" where
  "submatch [] s = (if s = [] then Some [] else None)"
| "submatch (tk # ts) s = (case tk of
     Lit c \<Rightarrow> (case s of [] \<Rightarrow> None | x # xs \<Rightarrow> if x = c then submatch ts xs else None)
   | Seg \<Rightarrow> greedy (submatch ts) 1 (length (takeWhile (\<lambda>c. c \<noteq> CHR ''/'') s)) s
   | Any \<Rightarrow> greedy (submatch ts) 0 (length (takeWhile (\<lambda>c. c \<noteq> CHR 0x0A) s)) s)"

text \<open>\<open>compiles\<close> and \<open>submatches\<close>: what \<^verbatim>\<open>regexp\<close> does with any other pattern.\<close>

record regexp_pkg =
  compiles :: "string \<Rightarrow> bool"
  submatches :: "string \<Rightarrow> string \<Rightarrow> string list option"

definition FindStringSubmatch :: "regexp_pkg \<Rightarrow> regex \<Rightarrow> string \<Rightarrow> string list option" where
  "FindStringSubmatch rx re s = (case re of Simple ts \<Rightarrow> submatch ts s | Other p \<Rightarrow> submatches rx p s)"

definition simple_only :: regexp_pkg where "simple_only = \<lparr>compiles = (\<lambda>_. False), submatches = (\<lambda>_ _. None)\<rparr>"

section \<open>Compiling a path\<close>

text \<open>The submatches of \<^verbatim>\<open>:([^/]+)\<close> in a path.\<close>

function param_matches :: "string \<Rightarrow> string list" where
  "param_matches [] = []"
| "param_matches (c # cs) =
     (if c = CHR '':'' \<and> cs \<noteq> [] \<and> hd cs \<noteq> CHR ''/''
      then takeWhile (\<lambda>x. x \<noteq> CHR ''/'') cs # param_matches (dropWhile (\<lambda>x. x \<noteq> CHR ''/'') cs)
      else param_matches cs)"
  by pat_completeness auto
termination by (relation "measure length") (auto simp: le_imp_less_Suc length_dropWhile_le)

text \<open>\<^verbatim>\<open>strings.Replace(s, old, new, 1)\<close> for a non-empty \<^verbatim>\<open>old\<close>.\<close>

fun replace_one :: "string \<Rightarrow> string \<Rightarrow> string \<Rightarrow> string" where
  "replace_one [] old new = []"
| "replace_one (x # xs) old new = (if has_prefix (x # xs) old then new @ drop (length old) (x # xs) else x # replace_one xs old new)"

definition replace_char :: "char \<Rightarrow> string \<Rightarrow> string \<Rightarrow> string" where
  "replace_char c new s = concat (map (\<lambda>x. if x = c then new else [x]) s)"

definition pattern_text :: "string \<Rightarrow> string" where
  "pattern_text path = replace_char (CHR ''*'') any_text
     (fold (\<lambda>n p. replace_one p (CHR '':'' # n) seg_text) (param_matches path) path)"

definition compilePattern :: "regexp_pkg \<Rightarrow> string \<Rightarrow> (regex \<times> string list) option" where
  "compilePattern rx path =
     (if CHR '':'' \<notin> set path \<and> CHR ''*'' \<notin> set path then None
      else (case parse_regex (pattern_text path) of
          Some ts \<Rightarrow> Some (Simple ts, param_matches path)
        | None \<Rightarrow> if compiles rx (pattern_text path) then Some (Other (pattern_text path), param_matches path) else None))"

section \<open>The router\<close>

record 'h Route =
  rt_Method :: string
  rt_Path :: string
  rt_Pattern :: "regex option"
  rt_Handler :: 'h
  rt_Middlewares :: "('h \<Rightarrow> 'h) list"
  rt_Params :: "string list"

record 'h HTTPRouter =
  routes :: "'h Route list"
  global_middlewares :: "('h \<Rightarrow> 'h) list"
  methodTrees :: "string \<rightharpoonup> RadixTree"

definition NewHTTPRouter :: "'h HTTPRouter" where
  "NewHTTPRouter = \<lparr>routes = [], global_middlewares = [], methodTrees = Map.empty\<rparr>"

text \<open>The tree of the method gets the route too; \<open>None\<close> would be a panic in it.\<close>

definition AddRouteWithMiddleware :: "regexp_pkg \<Rightarrow> string \<Rightarrow> string \<Rightarrow> 'h \<Rightarrow> ('h \<Rightarrow> 'h) list \<Rightarrow> 'h HTTPRouter \<Rightarrow> 'h HTTPRouter option" where
  "AddRouteWithMiddleware rx method path h ms r =
     (let rt = (case compilePattern rx path of
          Some (re, ps) \<Rightarrow> \<lparr>rt_Method = method, rt_Path = path, rt_Pattern = Some re, rt_Handler = h, rt_Middlewares = ms, rt_Params = ps\<rparr>
        | None \<Rightarrow> \<lparr>rt_Method = method, rt_Path = path, rt_Pattern = None, rt_Handler = h, rt_Middlewares = ms, rt_Params = []\<rparr>);
          t = (case methodTrees r method of None \<Rightarrow> NewRadixTree | Some t \<Rightarrow> t)
      in map_option (\<lambda>t. r\<lparr>routes := routes r @ [rt], methodTrees := (methodTrees r)(method \<mapsto> t)\<rparr>) (Insert path [path] t))"

definition AddRoute :: "regexp_pkg \<Rightarrow> string \<Rightarrow> string \<Rightarrow> 'h \<Rightarrow> 'h HTTPRouter \<Rightarrow> 'h HTTPRouter option" where
  "AddRoute rx method path h r = AddRouteWithMiddleware rx method path h [] r"

definition GET :: "regexp_pkg \<Rightarrow> string \<Rightarrow> 'h \<Rightarrow> 'h HTTPRouter \<Rightarrow> 'h HTTPRouter option" where "GET rx = AddRoute rx ''GET''"
definition POST :: "regexp_pkg \<Rightarrow> string \<Rightarrow> 'h \<Rightarrow> 'h HTTPRouter \<Rightarrow> 'h HTTPRouter option" where "POST rx = AddRoute rx ''POST''"
definition PUT :: "regexp_pkg \<Rightarrow> string \<Rightarrow> 'h \<Rightarrow> 'h HTTPRouter \<Rightarrow> 'h HTTPRouter option" where "PUT rx = AddRoute rx ''PUT''"
definition DELETE :: "regexp_pkg \<Rightarrow> string \<Rightarrow> 'h \<Rightarrow> 'h HTTPRouter \<Rightarrow> 'h HTTPRouter option" where "DELETE rx = AddRoute rx ''DELETE''"

definition Use :: "('h \<Rightarrow> 'h) \<Rightarrow> 'h HTTPRouter \<Rightarrow> 'h HTTPRouter" where
  "Use m r = r\<lparr>global_middlewares := global_middlewares r @ [m]\<rparr>"

text \<open>The groups by number: the name at position \<open>i\<close> gets group \<open>i + 1\<close>, as far as there are groups.\<close>

definition bind_params :: "string list \<Rightarrow> string list \<Rightarrow> (string \<rightharpoonup> string)" where
  "bind_params names caps = map_of (rev (zip names caps))"

fun match_pattern :: "regexp_pkg \<Rightarrow> string \<Rightarrow> string \<Rightarrow> 'h Route list \<Rightarrow> ('h Route \<times> (string \<rightharpoonup> string)) option" where
  "match_pattern rx method path [] = None"
| "match_pattern rx method path (rt # rts) =
     (if rt_Method rt = method \<and> rt_Pattern rt \<noteq> None
      then (case FindStringSubmatch rx (the (rt_Pattern rt)) path of
          Some caps \<Rightarrow> Some (rt, bind_params (rt_Params rt) caps)
        | None \<Rightarrow> match_pattern rx method path rts)
      else match_pattern rx method path rts)"

definition matchRoute :: "regexp_pkg \<Rightarrow> string \<Rightarrow> string \<Rightarrow> 'h HTTPRouter \<Rightarrow> ('h Route \<times> (string \<rightharpoonup> string)) option" where
  "matchRoute rx method path r =
     (case find (\<lambda>rt. rt_Method rt = method \<and> rt_Path rt = path) (routes r) of
        Some rt \<Rightarrow> Some (rt, Map.empty)
      | None \<Rightarrow> match_pattern rx method path (routes r))"

definition buildHandler :: "'h Route \<Rightarrow> 'h HTTPRouter \<Rightarrow> 'h" where
  "buildHandler rt r = foldr (\<lambda>m h. m h) (global_middlewares r) (foldr (\<lambda>m h. m h) (rt_Middlewares rt) (rt_Handler rt))"

text \<open>The handler that serves a request and its parameters; \<open>None\<close>: the not-found handler.\<close>

definition ServeHTTP :: "regexp_pkg \<Rightarrow> string \<Rightarrow> string \<Rightarrow> 'h HTTPRouter \<Rightarrow> ('h \<times> (string \<rightharpoonup> string)) option" where
  "ServeHTTP rx method path r = map_option (\<lambda>(rt, ps). (buildHandler rt r, ps)) (matchRoute rx method path r)"

section \<open>Matching\<close>

lemma greedy_Some:
  "greedy f lo k s = Some cs \<Longrightarrow> \<exists>j cs'. lo \<le> j \<and> j \<le> k \<and> cs = take j s # cs' \<and> f (drop j s) = Some cs'"
proof (induction f lo k s rule: greedy.induct)
  case (1 f lo k s)
  show ?case
  proof (cases "f (drop k s)")
    case None
    with 1(2) have k: "\<not> k < lo" "k \<noteq> 0" "greedy f lo (k - 1) s = Some cs"
      by (auto simp: greedy.simps[of f lo k] split: if_splits)
    from 1(1)[OF k(1) None k(2,3)] obtain j cs' where
      "lo \<le> j" "j \<le> k - 1" "cs = take j s # cs'" "f (drop j s) = Some cs'" by blast
    then show ?thesis by (intro exI[of _ j] exI[of _ cs']) auto
  next
    case (Some cs')
    with 1(2) have "lo \<le> k" "cs = take k s # cs'" by (auto simp: greedy.simps[of f lo k] split: if_splits)
    with Some show ?thesis by blast
  qed
qed

lemma greedy_None: "greedy f lo k s = None \<Longrightarrow> lo \<le> j \<Longrightarrow> j \<le> k \<Longrightarrow> f (drop j s) = None"
proof (induction f lo k s rule: greedy.induct)
  case (1 f lo k s)
  have k: "\<not> k < lo" using 1(3,4) by simp
  have n: "f (drop k s) = None" using 1(2) k by (auto simp: greedy.simps[of f lo k] split: option.splits)
  show ?case
  proof (cases "j = k")
    case False
    with 1(2,4) k n have "k \<noteq> 0" "greedy f lo (k - 1) s = None" "j \<le> k - 1"
      by (auto simp: greedy.simps[of f lo k])
    from 1(1)[OF k n this(1,2) 1(3) this(3)] show ?thesis .
  qed (use n in simp)
qed

text \<open>What the groups of a pattern may capture, and the text they stand for.\<close>

fun fits :: "token list \<Rightarrow> string list \<Rightarrow> bool" where
  "fits [] caps \<longleftrightarrow> caps = []"
| "fits (Lit c # ts) caps \<longleftrightarrow> fits ts caps"
| "fits (Seg # ts) [] \<longleftrightarrow> False"
| "fits (Seg # ts) (x # caps) \<longleftrightarrow> x \<noteq> [] \<and> CHR ''/'' \<notin> set x \<and> fits ts caps"
| "fits (Any # ts) [] \<longleftrightarrow> False"
| "fits (Any # ts) (x # caps) \<longleftrightarrow> CHR 0x0A \<notin> set x \<and> fits ts caps"

fun fill :: "token list \<Rightarrow> string list \<Rightarrow> string" where
  "fill [] caps = []"
| "fill (Lit c # ts) caps = c # fill ts caps"
| "fill (t # ts) [] = []"
| "fill (t # ts) (x # caps) = x @ fill ts caps"

lemma in_run: "j \<le> length (takeWhile (\<lambda>c. c \<noteq> d) s) \<Longrightarrow> d \<notin> set (take j s)"
proof (induction s arbitrary: j)
  case (Cons x s)
  then show ?case by (cases j) (auto split: if_splits)
qed simp

lemma run_covers: "d \<notin> set x \<Longrightarrow> length x \<le> length (takeWhile (\<lambda>c. c \<noteq> d) (x @ s))"
  by (induction x) auto

lemma submatch_sound: "submatch ts s = Some caps \<Longrightarrow> fits ts caps \<and> fill ts caps = s"
proof (induction ts arbitrary: s caps)
  case (Cons t ts)
  show ?case
  proof (cases t)
    case (Lit c)
    with Cons.prems Cons.IH show ?thesis by (auto split: list.splits if_splits)
  next
    case Seg
    with Cons.prems have "greedy (submatch ts) 1 (length (takeWhile (\<lambda>c. c \<noteq> CHR ''/'') s)) s = Some caps" by simp
    from greedy_Some[OF this] obtain j cs where j: "1 \<le> j" "j \<le> length (takeWhile (\<lambda>c. c \<noteq> CHR ''/'') s)"
      "caps = take j s # cs" "submatch ts (drop j s) = Some cs" by blast
    have "0 < length s" using j(1,2) by (cases s) auto
    then have "take j s \<noteq> []" using j(1) by auto
    with Cons.IH[OF j(4)] in_run[OF j(2)] j(3) show ?thesis by (simp add: Seg)
  next
    case Any
    with Cons.prems have "greedy (submatch ts) 0 (length (takeWhile (\<lambda>c. c \<noteq> CHR 0x0A) s)) s = Some caps" by simp
    from greedy_Some[OF this] obtain j cs where j: "j \<le> length (takeWhile (\<lambda>c. c \<noteq> CHR 0x0A) s)"
      "caps = take j s # cs" "submatch ts (drop j s) = Some cs" by blast
    with Cons.IH[OF j(3)] in_run[OF j(1)] show ?thesis by (simp add: Any)
  qed
qed (auto split: if_splits)

lemma submatch_complete: "fits ts caps \<Longrightarrow> submatch ts (fill ts caps) \<noteq> None"
proof (induction ts caps rule: fits.induct)
  case (4 ts x caps)
  show ?case
  proof
    assume "submatch (Seg # ts) (fill (Seg # ts) (x # caps)) = None"
    then have "greedy (submatch ts) 1 (length (takeWhile (\<lambda>c. c \<noteq> CHR ''/'') (x @ fill ts caps))) (x @ fill ts caps) = None"
      by simp
    from greedy_None[OF this, of "length x"] run_covers[of "CHR ''/''" x "fill ts caps"] 4 show False by (auto simp: Suc_le_eq)
  qed
next
  case (6 ts x caps)
  show ?case
  proof
    assume "submatch (Any # ts) (fill (Any # ts) (x # caps)) = None"
    then have "greedy (submatch ts) 0 (length (takeWhile (\<lambda>c. c \<noteq> CHR 0x0A) (x @ fill ts caps))) (x @ fill ts caps) = None"
      by simp
    from greedy_None[OF this, of "length x"] run_covers[of "CHR 0x0A" x "fill ts caps"] 6 show False by auto
  qed
qed auto

lemma submatch_iff: "submatch ts s \<noteq> None \<longleftrightarrow> (\<exists>caps. fits ts caps \<and> fill ts caps = s)"
  using submatch_sound submatch_complete by blast

section \<open>The pattern of a path\<close>

text \<open>The tokens one reads off a path: a colon with a name is a segment, a star anything.\<close>

function template :: "string \<Rightarrow> token list" where
  "template [] = []"
| "template (c # cs) =
     (if c = CHR '':'' \<and> cs \<noteq> [] \<and> hd cs \<noteq> CHR ''/'' then Seg # template (dropWhile (\<lambda>x. x \<noteq> CHR ''/'') cs)
      else (if c = CHR ''*'' then Any else Lit c) # template cs)"
  by pat_completeness auto
termination by (relation "measure length") (auto simp: le_imp_less_Suc length_dropWhile_le)

definition plain :: "string \<Rightarrow> bool" where
  "plain path \<longleftrightarrow> (\<forall>t\<in>set (template path). case t of Lit c \<Rightarrow> \<not> meta c | _ \<Rightarrow> True)"

primrec raw :: "token \<Rightarrow> string" where
  "raw (Lit c) = [c]" | "raw Seg = seg_text" | "raw Any = ''*''"

primrec render :: "token \<Rightarrow> string" where
  "render (Lit c) = [c]" | "render Seg = seg_text" | "render Any = any_text"

definition starts_param :: "string \<Rightarrow> bool" where
  "starts_param s \<longleftrightarrow> (case s of c # d # _ \<Rightarrow> c = CHR '':'' \<and> d \<noteq> CHR ''/'' | _ \<Rightarrow> False)"

lemma replace_one_skip:
  "\<forall>i<length pre. \<not> has_prefix (drop i (pre @ s)) old \<Longrightarrow> has_prefix s old \<Longrightarrow> old \<noteq> [] \<Longrightarrow>
    replace_one (pre @ s) old new = pre @ new @ drop (length old) s"
proof (induction pre)
  case Nil
  then show ?case by (cases s) (auto simp: has_prefix_def)
next
  case (Cons x pre)
  have "\<not> has_prefix (x # pre @ s) old" using Cons.prems(1) by force
  moreover have "\<forall>i<length pre. \<not> has_prefix (drop i (pre @ s)) old" using Cons.prems(1) by force
  ultimately show ?case using Cons.IH Cons.prems(2,3) by simp
qed

lemma has_prefix_param: "n \<noteq> [] \<Longrightarrow> CHR ''/'' \<notin> set n \<Longrightarrow> has_prefix s (CHR '':'' # n) \<Longrightarrow> starts_param s"
  by (cases n) (auto simp: has_prefix_append starts_param_def)

lemma no_param_in_seg: "\<not> starts_param (drop i seg_text @ s)" if "i < length seg_text"
proof -
  have "drop i seg_text \<noteq> []" "set (drop i seg_text) \<subseteq> set seg_text" using that by (auto dest: in_set_dropD)
  then obtain x xs where "drop i seg_text = x # xs" "x \<in> set seg_text" by (cases "drop i seg_text") auto
  then show ?thesis by (auto simp: starts_param_def seg_text_def split: list.splits)
qed

text \<open>The replacements go through the path from left to right.\<close>

lemma replace_params:
  assumes "\<forall>i<length pre. \<not> starts_param (drop i (pre @ path))"
  shows "fold (\<lambda>n p. replace_one p (CHR '':'' # n) seg_text) (param_matches path) (pre @ path) =
    pre @ concat (map raw (template path))"
  using assms
proof (induction path arbitrary: pre rule: template.induct)
  case (2 c cs)
  let ?name = "takeWhile (\<lambda>x. x \<noteq> CHR ''/'') cs" let ?rest = "dropWhile (\<lambda>x. x \<noteq> CHR ''/'') cs"
  show ?case
  proof (cases "c = CHR '':'' \<and> cs \<noteq> [] \<and> hd cs \<noteq> CHR ''/''")
    case True
    have n: "?name \<noteq> []" "CHR ''/'' \<notin> set ?name" using True by (cases cs; auto dest: set_takeWhileD)+
    have cs: "c # cs = (CHR '':'' # ?name) @ ?rest" using True by simp
    have p: "has_prefix (c # cs) (CHR '':'' # ?name)" unfolding has_prefix_append using cs by blast
    have "replace_one (pre @ c # cs) (CHR '':'' # ?name) seg_text = pre @ seg_text @ drop (length (CHR '':'' # ?name)) (c # cs)"
      by (rule replace_one_skip) (use "2.prems" has_prefix_param[OF n] p in auto)
    also have "drop (length (CHR '':'' # ?name)) (c # cs) = ?rest" by (simp add: dropWhile_eq_drop)
    finally have r: "replace_one (pre @ c # cs) (CHR '':'' # ?name) seg_text = (pre @ seg_text) @ ?rest" by simp
    have "\<not> starts_param (drop i ((pre @ seg_text) @ ?rest))" if i: "i < length (pre @ seg_text)" for i
    proof (cases "i < length pre")
      case True
      then have d: "drop i pre \<noteq> []" by simp
      from "2.prems" True have "\<not> starts_param (drop i pre @ c # cs)" by simp
      moreover have "CHR '':'' \<noteq> CHR ''/''" by simp
      ultimately show ?thesis using d True
        by (cases "drop i pre"; cases "tl (drop i pre)")
          (auto simp: starts_param_def \<open>c = CHR '':'' \<and> cs \<noteq> [] \<and> hd cs \<noteq> CHR ''/''\<close> split: list.splits)
    next
      case False
      then show ?thesis using no_param_in_seg[of "i - length pre" ?rest] i by simp
    qed
    with "2.IH"(1)[OF True, of "pre @ seg_text"] r True show ?thesis by simp
  next
    case False
    have "\<not> starts_param (drop i ((pre @ [c]) @ cs))" if "i < length (pre @ [c])" for i
    proof (cases "i < length pre")
      case True
      with "2.prems" show ?thesis by simp
    next
      case F: False
      with that have "i = length pre" by simp
      with False show ?thesis by (cases cs) (auto simp: starts_param_def)
    qed
    with "2.IH"(2)[OF False, of "pre @ [c]"] False show ?thesis by auto
  qed
qed simp

lemma replace_star: "replace_char (CHR ''*'') any_text (concat (map raw ts)) = concat (map render ts)"
  if "Lit (CHR ''*'') \<notin> set ts"
  using that
proof (induction ts)
  case (Cons t ts)
  then show ?case by (cases t) (auto simp: replace_char_def seg_text_def)
qed (simp add: replace_char_def)

lemma no_star: "Lit (CHR ''*'') \<notin> set (template path)"
  by (induction path rule: template.induct) auto

lemma parse_render: "\<forall>t\<in>set ts. case t of Lit c \<Rightarrow> \<not> meta c | _ \<Rightarrow> True \<Longrightarrow> parse_regex (concat (map render ts)) = Some ts"
proof (induction ts)
  case (Cons t ts)
  then have ih: "parse_regex (concat (map render ts)) = Some ts" by simp
  show ?case
  proof (cases t)
    case (Lit c)
    with Cons.prems have "\<not> meta c" by simp
    then have "c \<noteq> CHR ''(''" by (auto simp: meta_def)
    with \<open>\<not> meta c\<close> ih Lit show ?thesis by (simp add: has_prefix_def seg_text_def any_text_def)
  qed (use ih in \<open>simp_all add: has_prefix_def seg_text_def any_text_def\<close>)
qed simp

lemma compile_plain:
  assumes "plain path"
  shows "compilePattern rx path =
    (if CHR '':'' \<notin> set path \<and> CHR ''*'' \<notin> set path then None else Some (Simple (template path), param_matches path))"
proof -
  have "pattern_text path = concat (map render (template path))"
    using replace_params[of "[]" path] replace_star[OF no_star] by (simp add: pattern_text_def)
  with parse_render assms show ?thesis by (simp add: compilePattern_def plain_def)
qed

text \<open>
  A path without characters special to regular expressions matches exactly its instances: a
  request path in which every named segment is replaced by a text without slash, not empty, and
  every star by any text of one line; what is captured, put back into the path, gives the request.
\<close>

lemma route_matches_its_instances:
  assumes "plain path" "CHR '':'' \<in> set path \<or> CHR ''*'' \<in> set path"
  shows "\<exists>re. compilePattern rx path = Some (re, param_matches path) \<and>
    (\<forall>s. FindStringSubmatch rx re s \<noteq> None \<longleftrightarrow> (\<exists>caps. fits (template path) caps \<and> fill (template path) caps = s)) \<and>
    (\<forall>s caps. FindStringSubmatch rx re s = Some caps \<longrightarrow> fits (template path) caps \<and> fill (template path) caps = s)"
  using compile_plain[OF assms(1), of rx] assms(2) submatch_iff[of "template path"] submatch_sound[of "template path"]
  by (auto simp: FindStringSubmatch_def)

lemma route_matches_its_instances_witness:
  "plain ''/users/:id'' \<and> FindStringSubmatch simple_only (Simple (template ''/users/:id'')) ''/users/42'' = Some [''42''] \<and>
    FindStringSubmatch simple_only (Simple (template ''/users/:id'')) ''/users/4/2'' = None"
proof -
  let ?re = "Simple (template ''/users/:id'')"
  have t: "template ''/users/:id'' = map Lit ''/users/'' @ [Seg]" by simp
  then have p: "plain ''/users/:id''" by (simp add: plain_def meta_def)
  have c: "CHR '':'' \<in> set ''/users/:id'' \<or> CHR ''*'' \<in> set ''/users/:id''" by simp
  from route_matches_its_instances[OF p c, of simple_only] compile_plain[OF p, of simple_only] c
  have r: "\<forall>s. FindStringSubmatch simple_only ?re s \<noteq> None \<longleftrightarrow> (\<exists>caps. fits (template ''/users/:id'') caps \<and> fill (template ''/users/:id'') caps = s)"
    "\<forall>s caps. FindStringSubmatch simple_only ?re s = Some caps \<longrightarrow> fits (template ''/users/:id'') caps \<and> fill (template ''/users/:id'') caps = s"
    by auto
  have one: "caps = [c]" if "fits (template ''/users/:id'') caps" "fill (template ''/users/:id'') caps = ''/users/'' @ c" for caps c
    using that unfolding t by (cases caps; cases "tl caps") auto
  have "\<exists>caps. fits (template ''/users/:id'') caps \<and> fill (template ''/users/:id'') caps = ''/users/42''"
    unfolding t by (intro exI[of _ "[''42'']"]) simp
  then obtain caps where caps: "FindStringSubmatch simple_only ?re ''/users/42'' = Some caps" using r(1) by blast
  from r(2)[rule_format, OF caps] one[of caps "''42''"] have "caps = [''42'']" by (metis append_Cons append_Nil)
  moreover have "FindStringSubmatch simple_only ?re ''/users/4/2'' = None"
  proof (rule ccontr)
    assume "FindStringSubmatch simple_only ?re ''/users/4/2'' \<noteq> None"
    with r(1) obtain caps where "fits (template ''/users/:id'') caps" "fill (template ''/users/:id'') caps = ''/users/4/2''" by blast
    with one[of caps "''4/2''"] show False unfolding t by simp
  qed
  ultimately show ?thesis using p caps by metis
qed

text \<open>A star captures too, so that a name after it is given the star's text.\<close>

lemma star_shifts_params:
  assumes "compilePattern rx ''/*/:id'' = Some (re, ps)"
  shows "map_option (\<lambda>caps. bind_params ps caps ''id'') (FindStringSubmatch rx re ''/a/7'') = Some (Some ''a'')"
proof -
  have "template ''/*/:id'' = [Lit (CHR ''/''), Any, Lit (CHR ''/''), Seg]" "param_matches ''/*/:id'' = [''id'']" by simp_all
  with assms compile_plain[of "''/*/:id''" rx] show ?thesis
    by (auto simp: plain_def meta_def FindStringSubmatch_def bind_params_def greedy.simps)
qed

section \<open>Which route serves a request\<close>

datatype 'h router_op = AddOp string string 'h "('h \<Rightarrow> 'h) list" | UseOp "'h \<Rightarrow> 'h"

fun router_step :: "regexp_pkg \<Rightarrow> 'h router_op \<Rightarrow> 'h HTTPRouter \<Rightarrow> 'h HTTPRouter option" where
  "router_step rx (AddOp m p h ms) r = AddRouteWithMiddleware rx m p h ms r"
| "router_step rx (UseOp g) r = Some (Use g r)"

definition run_router :: "regexp_pkg \<Rightarrow> 'h router_op list \<Rightarrow> 'h HTTPRouter option" where
  "run_router rx ops = fold (\<lambda>op r. Option.bind r (router_step rx op)) ops (Some NewHTTPRouter)"

definition added :: "'h router_op list \<Rightarrow> (string \<times> string \<times> 'h \<times> ('h \<Rightarrow> 'h) list) list" where
  "added ops = concat (map (\<lambda>op. case op of AddOp m p h ms \<Rightarrow> [(m, p, h, ms)] | UseOp g \<Rightarrow> []) ops)"

definition used :: "'h router_op list \<Rightarrow> ('h \<Rightarrow> 'h) list" where
  "used ops = concat (map (\<lambda>op. case op of AddOp m p h ms \<Rightarrow> [] | UseOp g \<Rightarrow> [g]) ops)"

definition route_of :: "regexp_pkg \<Rightarrow> string \<times> string \<times> 'h \<times> ('h \<Rightarrow> 'h) list \<Rightarrow> 'h Route" where
  "route_of rx e = (case e of (m, p, h, ms) \<Rightarrow> \<lparr>rt_Method = m, rt_Path = p, rt_Pattern = map_option fst (compilePattern rx p),
     rt_Handler = h, rt_Middlewares = ms, rt_Params = (case compilePattern rx p of None \<Rightarrow> [] | Some (re, ps) \<Rightarrow> ps)\<rparr>)"

definition trees_flat :: "'h HTTPRouter \<Rightarrow> bool" where
  "trees_flat r \<longleftrightarrow> (\<forall>t\<in>ran (methodTrees r). \<exists>m. flat_tree m t)"

lemma router_step_ok:
  assumes "trees_flat r"
  shows "\<exists>r'. router_step rx op r = Some r' \<and> trees_flat r' \<and> routes r' = routes r @ map (route_of rx) (added [op]) \<and>
    global_middlewares r' = global_middlewares r @ used [op]"
proof (cases op)
  case (AddOp m p h ms)
  let ?t = "case methodTrees r m of None \<Rightarrow> NewRadixTree | Some t \<Rightarrow> t"
  have "\<exists>f. flat_tree f ?t" using assms flat_tree_New by (auto simp: trees_flat_def ranI split: option.split)
  then obtain f where "flat_tree f ?t" by blast
  from flat_tree_Insert[OF this, of p "[p]"] obtain t' f' where t: "Insert p [p] ?t = Some t'" "flat_tree f' t'" by blast
  have "trees_flat (r\<lparr>routes := rs, methodTrees := (methodTrees r)(m \<mapsto> t')\<rparr>)" for rs
    using assms t(2) unfolding trees_flat_def by (auto simp: ran_def)
  with t(1) show ?thesis
    by (simp add: AddOp AddRouteWithMiddleware_def Let_def added_def used_def route_of_def split: option.split prod.split)
qed (use assms in \<open>simp add: Use_def added_def used_def trees_flat_def\<close>)

lemma run_router_ok:
  "\<exists>r. run_router rx ops = Some r \<and> routes r = map (route_of rx) (added ops) \<and> global_middlewares r = used ops"
proof -
  have "\<exists>r'. fold (\<lambda>op r. Option.bind r (router_step rx op)) ops (Some r) = Some r' \<and>
      routes r' = routes r @ map (route_of rx) (added ops) \<and> global_middlewares r' = global_middlewares r @ used ops"
    if "trees_flat r" for r :: "'a HTTPRouter"
    using that
  proof (induction ops arbitrary: r)
    case (Cons op ops)
    from router_step_ok[OF Cons.prems, of rx op] obtain r1 where r1: "router_step rx op r = Some r1" "trees_flat r1"
      "routes r1 = routes r @ map (route_of rx) (added [op])" "global_middlewares r1 = global_middlewares r @ used [op]" by blast
    from Cons.IH[OF r1(2)] r1 show ?case by (auto simp: added_def used_def)
  qed (simp add: added_def used_def)
  from this[of NewHTTPRouter] show ?thesis by (simp add: run_router_def NewHTTPRouter_def trees_flat_def)
qed

definition instance_of :: "string \<Rightarrow> string \<Rightarrow> bool" where
  "instance_of path s \<longleftrightarrow> (CHR '':'' \<in> set path \<or> CHR ''*'' \<in> set path) \<and> (\<exists>caps. fits (template path) caps \<and> fill (template path) caps = s)"

lemma match_pattern_added:
  assumes "\<forall>(m, p, h, ms)\<in>set es. plain p"
  shows "match_pattern rx method s (map (route_of rx) es) = None \<longleftrightarrow> find (\<lambda>(m, p, h, ms). m = method \<and> instance_of p s) es = None"
    and "find (\<lambda>(m, p, h, ms). m = method \<and> instance_of p s) es = Some e \<Longrightarrow>
      \<exists>caps. match_pattern rx method s (map (route_of rx) es) = Some (route_of rx e, bind_params (param_matches (fst (snd e))) caps) \<and>
        fits (template (fst (snd e))) caps \<and> fill (template (fst (snd e))) caps = s"
proof -
  have "(case find (\<lambda>(m, p, h, ms). m = method \<and> instance_of p s) es of
      None \<Rightarrow> match_pattern rx method s (map (route_of rx) es) = None
    | Some e \<Rightarrow> (\<exists>caps. match_pattern rx method s (map (route_of rx) es) = Some (route_of rx e, bind_params (param_matches (fst (snd e))) caps) \<and>
        fits (template (fst (snd e))) caps \<and> fill (template (fst (snd e))) caps = s))"
    using assms
  proof (induction es)
    case (Cons e es)
    obtain m p h ms where e: "e = (m, p, h, ms)" by (cases e)
    with Cons.prems have "plain p" by simp
    from compile_plain[OF this, of rx] submatch_iff[of "template p" s] submatch_sound[of "template p" s] Cons
    show ?case
      by (cases "submatch (template p) s")
        (auto simp: e route_of_def instance_of_def FindStringSubmatch_def split: option.splits)
  qed simp
  then show "match_pattern rx method s (map (route_of rx) es) = None \<longleftrightarrow> find (\<lambda>(m, p, h, ms). m = method \<and> instance_of p s) es = None"
    "find (\<lambda>(m, p, h, ms). m = method \<and> instance_of p s) es = Some e \<Longrightarrow>
      \<exists>caps. match_pattern rx method s (map (route_of rx) es) = Some (route_of rx e, bind_params (param_matches (fst (snd e))) caps) \<and>
        fits (template (fst (snd e))) caps \<and> fill (template (fst (snd e))) caps = s"
    by (auto split: option.splits)
qed

lemma find_exact:
  "find (\<lambda>rt. rt_Method rt = method \<and> rt_Path rt = s) (map (route_of rx) es) =
    map_option (route_of rx) (find (\<lambda>(m, p, h, ms). m = method \<and> p = s) es)"
  unfolding find_map_eq by (rule arg_cong[where f = "\<lambda>P. map_option _ (find P es)"]) (auto simp: route_of_def)

lemma buildHandler_route_of:
  "global_middlewares r = gs \<Longrightarrow> buildHandler (route_of rx (m, p, h, ms)) r = foldr (\<lambda>f h. f h) (gs @ ms) h"
  by (simp add: buildHandler_def route_of_def)



end
