(* ===== verification/Buffered_Conn.thy ===== *)
theory Buffered_Conn
  imports Bytes_Buffer
begin

text \<open>
  The buffered connection of \<^verbatim>\<open>core/network/buffered_conn.go\<close> over the bytes buffer. The connection
  it wraps is outside code: a state of type \<open>'c\<close> and what a \<^verbatim>\<open>Read\<close> with a slice of \<open>n\<close> bytes makes
  of it, a \<^verbatim>\<open>Write\<close> and a \<^verbatim>\<open>Close\<close>; the properties use the contract of \<^verbatim>\<open>io.Reader\<close>, that a read
  returns at most \<open>n\<close> bytes, those next in the stream. \<open>None\<close> is a panic (after \<^verbatim>\<open>Close\<close> the buffer
  is nil). The lemmas show what a read passes on, and that \<^verbatim>\<open>Peek\<close> shows the stream and consumes
  nothing.
\<close>

section \<open>The connection\<close>

datatype conn_error = ConnEOF | ConnClosed | ConnFailed string | BufferError buf_error

record 'c net_api =
  conn_read :: "nat \<Rightarrow> 'c \<Rightarrow> 'c \<times> bytes \<times> string option"
  conn_write :: "bytes \<Rightarrow> 'c \<Rightarrow> 'c \<times> (string + int)"
  conn_close :: "'c \<Rightarrow> 'c \<times> string option"

record 'c BufferedConn =
  inner :: 'c
  cbuffer :: "BytesBuffer option"
  readTimeout :: duration
  closed :: bool

definition NewBufferedConn :: "'c \<Rightarrow> int \<Rightarrow> 'c BufferedConn" where
  "NewBufferedConn c bufferSize = \<lparr>inner = c, cbuffer = Some (NewBytesBuffer (nat (if bufferSize \<le> 0 then 4096 else bufferSize))),
     readTimeout = 0, closed = False\<rparr>"

definition lift_buf :: "buf_error + bytes \<Rightarrow> bytes \<times> conn_error option" where
  "lift_buf r = (case r of Inl e \<Rightarrow> ([], Some (BufferError e)) | Inr bs \<Rightarrow> (bs, None))"

text \<open>
  \<^verbatim>\<open>Read(b)\<close> with \<open>len b = n\<close>. The part after the test of the buffer: a large slice is read into
  directly, otherwise the buffer is filled first.
\<close>

definition fill_and_read ::
    "'c net_api \<Rightarrow> nat \<Rightarrow> BytesBuffer \<Rightarrow> 'c BufferedConn \<Rightarrow> ('c BufferedConn \<times> bytes \<times> conn_error option) option" where
  "fill_and_read api n b bc =
     (if int n \<ge> Cap b then (let (c, bs, e) = conn_read api n (inner bc)
        in Some (bc\<lparr>inner := c, cbuffer := Some b\<rparr>, bs, map_option ConnFailed e))
      else (case conn_read api (nat (Cap b)) (inner bc) of
          (c, bs, Some e) \<Rightarrow> Some (bc\<lparr>inner := c, cbuffer := Some (Reset b)\<rparr>, [], Some (ConnFailed e))
        | (c, bs, None) \<Rightarrow> Option.bind (Write (Reset b) bs) (\<lambda>b. Option.bind (Read b n) (\<lambda>(b, r).
            Some (bc\<lparr>inner := c, cbuffer := Some b\<rparr>, lift_buf r)))))"

definition bc_Read :: "'c net_api \<Rightarrow> nat \<Rightarrow> 'c BufferedConn \<Rightarrow> ('c BufferedConn \<times> bytes \<times> conn_error option) option" where
  "bc_Read api n bc =
     (if closed bc then Some (bc, [], Some ConnEOF)
      else Option.bind (cbuffer bc) (\<lambda>b.
        if Remain b > 0 then Option.bind (Read b n) (\<lambda>(b', r). case r of
            Inr (x # xs) \<Rightarrow> Some (bc\<lparr>cbuffer := Some b'\<rparr>, x # xs, None)
          | _ \<Rightarrow> fill_and_read api n b' bc)
        else fill_and_read api n b bc))"

text \<open>
  The loop of \<^verbatim>\<open>Peek\<close>, at most \<open>k\<close> rounds (a connection that returns no bytes and no error would
  keep it running). \<open>Inl None\<close>: out of rounds.
\<close>

fun peek_loop :: "'c net_api \<Rightarrow> nat \<Rightarrow> int \<Rightarrow> BytesBuffer \<Rightarrow> 'c \<Rightarrow> (BytesBuffer \<times> 'c \<times> (string option + unit)) option" where
  "peek_loop api k n b c =
     (if Remain b \<ge> n then Some (b, c, Inr ())
      else if k = 0 then Some (b, c, Inl None)
      else (case conn_read api (nat (Cap b)) c of
          (c, bs, Some e) \<Rightarrow> Some (b, c, Inl (Some e))
        | (c, bs, None) \<Rightarrow> Option.bind (Write b bs) (\<lambda>b. peek_loop api (k - 1) n b c)))"

declare peek_loop.simps [simp del]

definition Peek :: "'c net_api \<Rightarrow> nat \<Rightarrow> int \<Rightarrow> 'c BufferedConn \<Rightarrow> ('c BufferedConn \<times> (conn_error option + bytes)) option" where
  "Peek api k n bc =
     (if closed bc then Some (bc, Inl (Some ConnEOF))
      else Option.bind (cbuffer bc) (\<lambda>b. Option.bind (peek_loop api k n b (inner bc)) (\<lambda>(b, c, r).
        (let bc = bc\<lparr>inner := c, cbuffer := Some b\<rparr> in
         case r of
           Inl None \<Rightarrow> Some (bc, Inl None)
         | Inl (Some e) \<Rightarrow> Some (bc, Inl (Some (ConnFailed e)))
         | Inr _ \<Rightarrow> Option.bind (Bytes b) (\<lambda>bs.
             if 0 \<le> GetRPos b \<and> 0 \<le> n \<and> GetRPos b + n \<le> int (length (buf b))
             then Some (bc, Inr (take (nat n) (drop (nat (GetRPos b)) (buf b)))) else None)))))"

definition SetReadTimeout :: "duration \<Rightarrow> 'c BufferedConn \<Rightarrow> 'c BufferedConn" where
  "SetReadTimeout d bc = bc\<lparr>readTimeout := d\<rparr>"

text \<open>The second result is the buffer given back to the pool.\<close>

definition bc_Close :: "'c net_api \<Rightarrow> 'c BufferedConn \<Rightarrow> 'c BufferedConn \<times> BytesBuffer option \<times> string option" where
  "bc_Close api bc =
     (if closed bc then (bc, None, None)
      else (let (c, e) = conn_close api (inner bc)
            in (bc\<lparr>closed := True, cbuffer := None, inner := c\<rparr>, cbuffer bc, e)))"

definition bc_Write :: "'c net_api \<Rightarrow> bytes \<Rightarrow> 'c BufferedConn \<Rightarrow> 'c BufferedConn \<times> (conn_error + int)" where
  "bc_Write api bs bc =
     (if closed bc then (bc, Inl ConnClosed)
      else (case conn_write api bs (inner bc) of
          (c, Inl e) \<Rightarrow> (bc\<lparr>inner := c\<rparr>, Inl (ConnFailed e))
        | (c, Inr n) \<Rightarrow> (bc\<lparr>inner := c\<rparr>, Inr n)))"

definition Available :: "'c BufferedConn \<Rightarrow> int option" where
  "Available bc = map_option Remain (cbuffer bc)"

definition bc_Reset :: "'c BufferedConn \<Rightarrow> 'c BufferedConn option" where
  "bc_Reset bc = map_option (\<lambda>b. bc\<lparr>cbuffer := Some (Reset b)\<rparr>) (cbuffer bc)"

section \<open>What a reader sees\<close>

text \<open>
  \<open>stream c\<close>: the bytes still to come. A read returns at most as many as asked for, the next ones;
  without an error it returns at least one (\<^verbatim>\<open>io.Reader\<close> discourages anything else).
\<close>

definition reader_contract :: "'c net_api \<Rightarrow> ('c \<Rightarrow> bytes) \<Rightarrow> bool" where
  "reader_contract api stream \<longleftrightarrow> (\<forall>n c c' bs e. conn_read api n c = (c', bs, e) \<longrightarrow>
     length bs \<le> n \<and> stream c = bs @ stream c' \<and> (e = None \<and> 0 < n \<longrightarrow> bs \<noteq> []))"

text \<open>The position of a buffer and its array, as the connection keeps them.\<close>

definition buf_inv :: "BytesBuffer \<Rightarrow> bool" where
  "buf_inv b \<longleftrightarrow> buf_wf b \<and> buf_cap b = length (buf b) \<and> 0 < length (buf b)"

lemma buf_inv_Write:
  assumes "buf_inv b" shows "\<exists>b'. Write b bs = Some b' \<and> buf_inv b' \<and> unread b' = unread b @ bs \<and> rpos b' = rpos b"
proof -
  from Write_ok[of b bs] assms obtain b' where w: "Write b bs = Some b'" "buf_wf b'" "unread b' = unread b @ bs" "rpos b' = rpos b"
    by (auto simp: buf_inv_def)
  have "buf_cap b' = length (buf b') \<and> 0 < length (buf b')"
    using w(1) assms by (auto simp: Write_def grow_def copy_at_def Let_def buf_inv_def split: if_splits bind_splits)
  with w show ?thesis by (auto simp: buf_inv_def)
qed

text \<open>Every round brings at least one byte, so that \<open>n\<close> rounds are enough.\<close>

lemma peek_loop_spec:
  assumes "reader_contract api stream" "buf_inv b" "nat n \<le> k + length (unread b)"
  shows "\<exists>b' c' r. peek_loop api k n b c = Some (b', c', r) \<and> buf_inv b' \<and> rpos b' = rpos b \<and> r \<noteq> Inl None \<and>
    (r = Inr () \<longrightarrow> n \<le> Remain b' \<and> unread b' @ stream c' = unread b @ stream c)"
  using assms(2,3)
proof (induction k arbitrary: b c)
  case 0
  then have "n \<le> Remain b" using length_unread[of b] by (auto simp: buf_inv_def)
  with 0 show ?case by (simp add: peek_loop.simps[of api 0])
next
  case (Suc k)
  show ?case
  proof (cases "n \<le> Remain b")
    case False
    have cap: "nat (Cap b) = length (buf b)" "0 < length (buf b)" using Suc.prems(1) by (auto simp: Cap_def buf_inv_def)
    obtain c1 bs e where rd: "conn_read api (nat (Cap b)) c = (c1, bs, e)" by (metis prod_cases3)
    have contr: "stream c = bs @ stream c1" "e = None \<longrightarrow> bs \<noteq> []"
      using assms(1)[unfolded reader_contract_def, rule_format, OF rd] cap by auto
    show ?thesis
    proof (cases e)
      case None
      from buf_inv_Write[OF Suc.prems(1), of bs] obtain b1 where
        b1: "Write b bs = Some b1" "buf_inv b1" "unread b1 = unread b @ bs" "rpos b1 = rpos b" by blast
      have "0 < length bs" using contr(2) None by simp
      then have "nat n \<le> k + length (unread b1)" using Suc.prems(2) unfolding b1(3) length_append by linarith
      from Suc.IH[OF b1(2) this, of c1] show ?thesis
        using False rd None b1 contr(1) by (simp add: peek_loop.simps[of api "Suc k"])
    qed (use False rd Suc.prems(1) in \<open>simp add: peek_loop.simps[of api "Suc k"]\<close>)
  qed (use Suc.prems(1) in \<open>simp add: peek_loop.simps[of api "Suc k"]\<close>)
qed

definition pending :: "('c \<Rightarrow> bytes) \<Rightarrow> 'c BufferedConn \<Rightarrow> bytes" where
  "pending stream bc = (case cbuffer bc of None \<Rightarrow> [] | Some b \<Rightarrow> unread b) @ stream (inner bc)"

lemma take_unread:
  assumes "buf_wf b" "int k \<le> Remain b" shows "take k (drop (nat (rpos b)) (buf b)) = take k (unread b)"
  using advance_ok(3)[OF assms(1), of k] length_unread[OF assms(1)] assms(2) by simp



text \<open>A connection whose arrivals are a list, for the examples: a read takes from the first.\<close>

fun arrivals_read :: "nat \<Rightarrow> bytes list \<Rightarrow> bytes list \<times> bytes \<times> string option" where
  "arrivals_read n [] = ([], [], Some ''EOF'')"
| "arrivals_read n (a # as) = (if a = [] then arrivals_read n as
     else if length a \<le> n then (as, a, None) else (drop n a # as, take n a, None))"

definition arrivals_api :: "bytes list net_api" where
  "arrivals_api = \<lparr>conn_read = arrivals_read, conn_write = (\<lambda>bs c. (c, Inr (int (length bs)))), conn_close = (\<lambda>c. (c, None))\<rparr>"

lemma arrivals_contract: "reader_contract arrivals_api concat"
proof -
  have "length bs \<le> n \<and> concat c = bs @ concat c' \<and> (e = None \<and> 0 < n \<longrightarrow> bs \<noteq> [])"
    if "arrivals_read n c = (c', bs, e)" for n c c' bs e
    using that by (induction n c rule: arrivals_read.induct) (auto split: if_splits)
  then show ?thesis by (simp add: reader_contract_def arrivals_api_def)
qed

lemma buf_inv_New: "0 < n \<Longrightarrow> buf_inv (NewBytesBuffer n)"
  by (simp add: buf_inv_def buf_wf_def NewBytesBuffer_def NewBytesBufferWithOrder_def)

lemma New_fields:
  "\<not> closed (NewBufferedConn c k)" "cbuffer (NewBufferedConn c k) = Some (NewBytesBuffer (nat (if k \<le> 0 then 4096 else k)))"
  "inner (NewBufferedConn c k) = c" "unread (NewBytesBuffer m) = []"
  by (simp_all add: NewBufferedConn_def unread_def NewBytesBuffer_def NewBytesBufferWithOrder_def)


text \<open>
  \<^verbatim>\<open>Read\<close> of \<open>n\<close> bytes gives the next bytes of the stream as long as that many are buffered,
  or when none is and \<open>n\<close> is at least the size of the buffer; an empty buffer larger than \<open>n\<close> is
  filled with one read of the connection, and the result is always \<open>n\<close> bytes, those received and
  then whatever the buffer held before, however few were received.
\<close>

lemma Read_pads_short_arrivals:
  assumes "reader_contract api stream" "\<not> closed bc" "cbuffer bc = Some b" "buf_inv b" "0 < n"
  shows "(n \<le> length (unread b) \<longrightarrow>
      bc_Read api n bc = Some (bc\<lparr>cbuffer := Some (b\<lparr>rpos := rpos b + int n\<rparr>)\<rparr>, take n (pending stream bc), None)) \<and>
    (unread b = [] \<and> length (buf b) \<le> n \<longrightarrow> (\<exists>bc' bs e. bc_Read api n bc = Some (bc', bs, e) \<and>
      pending stream bc = bs @ pending stream bc')) \<and>
    (unread b = [] \<and> n < length (buf b) \<longrightarrow> (\<forall>c got. conn_read api (length (buf b)) (inner bc) = (c, got, None) \<longrightarrow>
      (\<exists>bc'. bc_Read api n bc = Some (bc', take n (got @ drop (length got) (buf b)), None) \<and> stream (inner bc) = got @ stream (inner bc'))))"
proof (intro conjI impI allI)
  have wf: "buf_wf b" and cap: "Cap b = int (length (buf b))" using assms(4) by (auto simp: buf_inv_def Cap_def)
  note rem = length_unread[OF wf]
  note open_read = bc_Read_def assms(2,3) fill_and_read_def cap
  {
    assume n: "n \<le> length (unread b)"
    then have r: "int n \<le> Remain b" "0 < Remain b" using rem assms(5) by linarith+
    then have "rpos b < int (length (buf b))" "0 \<le> rpos b" using wf by (auto simp: buf_wf_def Remain_def)
    moreover have "take n (drop (nat (rpos b)) (buf b)) = take n (unread b)" by (rule take_unread[OF wf r(1)])
    moreover have "length (take n (unread b)) = n" using n by simp
    ultimately have rd: "Read b n = Some (b\<lparr>rpos := rpos b + int n\<rparr>, Inr (take n (unread b)))" by (simp add: Read_def)
    obtain x xs where x: "take n (unread b) = x # xs" using n assms(5) by (cases "take n (unread b)") auto
    have "take n (pending stream bc) = take n (unread b)" using n assms(3) by (simp add: pending_def)
    then show "bc_Read api n bc = Some (bc\<lparr>cbuffer := Some (b\<lparr>rpos := rpos b + int n\<rparr>)\<rparr>, take n (pending stream bc), None)"
      using rd r(2) x by (simp add: open_read)
  }
  {
    assume u: "unread b = [] \<and> length (buf b) \<le> n"
    obtain c bs e where rd: "conn_read api n (inner bc) = (c, bs, e)" by (metis prod_cases3)
    have "stream (inner bc) = bs @ stream c" using assms(1)[unfolded reader_contract_def, rule_format, OF rd] by simp
    moreover have "bc_Read api n bc = Some (bc\<lparr>inner := c, cbuffer := Some b\<rparr>, bs, map_option ConnFailed e)"
      using u rem rd by (simp add: open_read)
    ultimately show "\<exists>bc' bs e. bc_Read api n bc = Some (bc', bs, e) \<and> pending stream bc = bs @ pending stream bc'"
      using u assms(3) by (intro exI[of _ "bc\<lparr>inner := c, cbuffer := Some b\<rparr>"] exI[of _ bs]) (simp add: pending_def)
  }
  fix c got
  assume u: "unread b = [] \<and> n < length (buf b)" and rd: "conn_read api (length (buf b)) (inner bc) = (c, got, None)"
  have got: "length got \<le> length (buf b)" "stream (inner bc) = got @ stream c"
    using assms(1)[unfolded reader_contract_def, rule_format, OF rd] by simp_all
  let ?b = "(Reset b)\<lparr>buf := got @ drop (length got) (buf b), wpos := int (length got)\<rparr>"
  have "Write (Reset b) got = Some ?b"
    using got(1) copy_at_ok[of 0 got "buf b"] by (simp add: Write_def Reset_def Let_def)
  moreover have len: "length (take n (got @ drop (length got) (buf b))) = n" "buf b \<noteq> []"
    using u got(1) by (auto simp del: take_append)
  have "Read ?b n = Some (?b\<lparr>rpos := int n\<rparr>, Inr (take n (got @ drop (length got) (buf b))))"
    using u len got(1) by (simp add: Read_def Reset_def Let_def del: take_append)
  ultimately have "bc_Read api n bc = Some (bc\<lparr>inner := c, cbuffer := Some (?b\<lparr>rpos := int n\<rparr>)\<rparr>, take n (got @ drop (length got) (buf b)), None)"
    using u rem rd by (simp add: open_read lift_buf_def)
  then show "\<exists>bc'. bc_Read api n bc = Some (bc', take n (got @ drop (length got) (buf b)), None) \<and> stream (inner bc) = got @ stream (inner bc')"
    using got(2) by auto
qed

lemma Read_pads_short_arrivals_witness:
  "\<exists>bc'. bc_Read arrivals_api 4 (NewBufferedConn [[7, 8]] 8) = Some (bc', [7, 8, 0, 0], None)"
proof -
  let ?c = "NewBufferedConn [[7, 8]] 8 :: bytes list BufferedConn"
  have b: "cbuffer ?c = Some (NewBytesBuffer 8)" "buf_inv (NewBytesBuffer 8)" by (simp_all add: New_fields buf_inv_New)
  have z: "buf (NewBytesBuffer 8) = [0, 0, 0, 0, 0, 0, 0, 0]"
    by (simp add: NewBytesBuffer_def NewBytesBufferWithOrder_def numeral_eq_Suc)
  have u: "unread (NewBytesBuffer 8) = [] \<and> 4 < length (buf (NewBytesBuffer 8))" by (simp add: New_fields z)
  have rd: "conn_read arrivals_api (length (buf (NewBytesBuffer 8))) (inner ?c) = ([], [7, 8], None)"
    by (simp add: arrivals_api_def New_fields z)
  have "(0::nat) < 4" by simp
  from Read_pads_short_arrivals[OF arrivals_contract New_fields(1) b this, THEN conjunct2, THEN conjunct2, rule_format, OF u rd]
  obtain bc' where "bc_Read arrivals_api 4 ?c = Some (bc', take 4 ([7, 8] @ drop (length [7::byte, 8]) (buf (NewBytesBuffer 8))), None)" by blast
  moreover have "take 4 ([7, 8] @ drop (length [7::byte, 8]) (buf (NewBytesBuffer 8))) = [7, 8, 0, 0]" by (simp add: z)
  ultimately show ?thesis by metis
qed

text \<open>After \<^verbatim>\<open>Close\<close> the buffer is gone: asking for its content, or resetting it, panics.\<close>

lemma Close_then_Available: "\<not> closed bc \<Longrightarrow> Available (fst (bc_Close api bc)) = None \<and> bc_Reset (fst (bc_Close api bc)) = None"
  by (simp add: bc_Close_def Available_def bc_Reset_def case_prod_unfold Let_def)

lemma Close_idempotent: "closed bc \<Longrightarrow> bc_Close api bc = (bc, None, None)"
  by (simp add: bc_Close_def)

text \<open>An empty slice is read without error, and what arrived meanwhile is buffered.\<close>

lemma Read_nothing:
  assumes "\<not> closed bc" "cbuffer bc = Some b" "buf_inv b" "unread b = []"
  shows "\<exists>bc' e. bc_Read api 0 bc = Some (bc', [], e)"
proof -
  have rem: "Remain b = 0" and cap: "Cap b = int (length (buf b))" "0 < length (buf b)"
    using assms(3,4) length_unread[of b] by (auto simp: buf_inv_def Cap_def)
  obtain c bs e where rd: "conn_read api (length (buf b)) (inner bc) = (c, bs, e)" by (metis prod_cases3)
  have "buf_inv (Reset b)" using assms(3) by (auto simp: buf_inv_def Reset_def buf_wf_def)
  from buf_inv_Write[OF this, of bs] obtain b' where b': "Write (Reset b) bs = Some b'" "buf_inv b'" "rpos b' = 0"
    by (auto simp: Reset_def)
  then have "Read b' 0 = Some (b', Inr [])" by (auto simp: Read_def buf_inv_def)
  with rem cap rd b'(1) assms(1,2) show ?thesis
    by (cases e) (auto simp: bc_Read_def fill_and_read_def lift_buf_def)
qed

end
