(* ===== verification/Detector.thy ===== *)
theory Detector
  imports Buffered_Conn Buffer_Pool
begin

text \<open>
  The protocol detector of \<^verbatim>\<open>core/detector/protocol_detector.go\<close>: the Bloom filter with its hashes
  computed, the three layers of detection, the maps of ports and clients, and the handling of one
  connection, which composes a buffer of the buffer pool with a read of the buffered connection.
  The lemmas show the filter has no false negatives, and what the composition does: the slice that
  is read into is the written part of a buffer that was just reset.
\<close>

section \<open>Bloom filter\<close>

record BloomFilter =
  bitset :: "bool list"
  hashFunctionCount :: nat

definition NewBloomFilter :: "nat \<Rightarrow> nat \<Rightarrow> BloomFilter" where
  "NewBloomFilter n k = \<lparr>bitset = replicate n False, hashFunctionCount = k\<rparr>"

definition bloom_hash :: "BloomFilter \<Rightarrow> bytes \<Rightarrow> nat \<Rightarrow> nat" where
  "bloom_hash bf data seed = unat (fnv64a (data @ [of_nat seed])) mod length (bitset bf)"

text \<open>\<open>None\<close>: the remainder by a size of 0 panics.\<close>

definition bloom_Add :: "bytes \<Rightarrow> BloomFilter \<Rightarrow> BloomFilter option" where
  "bloom_Add data bf = (if 0 < hashFunctionCount bf \<and> bitset bf = [] then None
     else Some (bf\<lparr>bitset := fold (\<lambda>i bs. bs[bloom_hash bf data i := True]) [0..<hashFunctionCount bf] (bitset bf)\<rparr>))"

definition bloom_Contains :: "bytes \<Rightarrow> BloomFilter \<Rightarrow> bool option" where
  "bloom_Contains data bf = (if 0 < hashFunctionCount bf \<and> bitset bf = [] then None
     else Some (\<forall>i\<in>set [0..<hashFunctionCount bf]. bitset bf ! bloom_hash bf data i))"

definition signatures :: "bytes list" where
  "signatures = map bytes_of [''GET '', ''POST'', ''PUT '', ''DELETE'', ''HEAD'', ''Upgrade: websocket''] @ [[0]]"

definition preloadProtocolSignatures :: "BloomFilter \<Rightarrow> BloomFilter option" where
  "preloadProtocolSignatures bf = fold (\<lambda>s b. Option.bind b (bloom_Add s)) signatures (Some bf)"

section \<open>The layers\<close>

record 'h ProtocolDetector =
  handlers :: "string \<rightharpoonup> 'h"
  detect_timeout :: duration
  bloomFilter :: BloomFilter
  clientProtocolHistory :: "string \<rightharpoonup> string list"
  portProtocolMap :: "int \<rightharpoonup> (string \<rightharpoonup> nat)"

definition NewDetector :: "'h ProtocolDetector option" where
  "NewDetector = map_option (\<lambda>bf. \<lparr>handlers = Map.empty, detect_timeout = 30 * second, bloomFilter = bf,
     clientProtocolHistory = Map.empty, portProtocolMap = Map.empty\<rparr>) (preloadProtocolSignatures (NewBloomFilter 1024 3))"

definition NewDetectorWithConfig :: "int \<Rightarrow> 'h ProtocolDetector option" where
  "NewDetectorWithConfig secs =
     map_option (\<lambda>d. if secs > 0 then d\<lparr>detect_timeout := secs * second\<rparr> else d) NewDetector"

definition RegisterHandler :: "string \<Rightarrow> 'h \<Rightarrow> 'h ProtocolDetector \<Rightarrow> 'h ProtocolDetector" where
  "RegisterHandler p h d = d\<lparr>handlers := (handlers d)(p \<mapsto> h)\<rparr>"

definition http_starts :: "string list" where
  "http_starts = [''GET '', ''POST'', ''PUT '', ''DELE'', ''HEAD'', ''OPTI'', ''PATC'', ''TRAC'', ''CONN'']"

text \<open>The part behind the filter; the test for a WebSocket compares three bytes with four.\<close>

definition classify :: "bytes \<Rightarrow> string" where
  "classify data =
     (if 4 \<le> length data \<and> take 4 data \<in> set (map bytes_of http_starts) then ''http''
      else if 16 \<le> length data \<and> take 3 data = bytes_of ''GET '' \<and> contains_sub data (bytes_of ''Upgrade: websocket'') then ''websocket''
      else if 24 \<le> length data \<and> hd data = 0 then ''grpc''
      else ''unknown'')"

definition firstLayerDetection :: "bytes \<Rightarrow> 'h ProtocolDetector \<Rightarrow> string option" where
  "firstLayerDetection data d = map_option (\<lambda>c. if c then classify data else ''unknown'')
     (bloom_Contains (take 16 data) (bloomFilter d))"

definition isValidHTTPHeader :: "bytes \<Rightarrow> bool" where "isValidHTTPHeader data \<longleftrightarrow> length data > 0"
definition isValidWebSocketHandshake :: "bytes \<Rightarrow> bool" where "isValidWebSocketHandshake data \<longleftrightarrow> length data > 0"
definition isValidGRPCFrame :: "bytes \<Rightarrow> bool" where "isValidGRPCFrame data \<longleftrightarrow> length data > 0"

definition secondLayerDetection :: "string \<Rightarrow> bytes \<Rightarrow> string" where
  "secondLayerDetection p data =
     (if p = ''http'' \<and> isValidHTTPHeader data then ''http''
      else if p = ''websocket'' \<and> isValidWebSocketHandshake data then ''websocket''
      else if p = ''grpc'' \<and> isValidGRPCFrame data then ''grpc''
      else ''unknown'')"

definition thirdLayerDetection :: "string \<Rightarrow> bytes \<Rightarrow> bool" where "thirdLayerDetection p data = True"

text \<open>The scan for the best score; \<open>ks\<close>: the protocols of the port in \<^verbatim>\<open>range\<close> order.\<close>

fun best_protocol :: "(string \<rightharpoonup> nat) \<Rightarrow> string list \<Rightarrow> string \<Rightarrow> nat \<Rightarrow> string" where
  "best_protocol m [] best score = best"
| "best_protocol m (k # ks) best score = (case m k of
     None \<Rightarrow> best_protocol m ks best score
   | Some s \<Rightarrow> if s > score then best_protocol m ks k s else best_protocol m ks best score)"

definition contextAwareDetection :: "int \<Rightarrow> string list \<Rightarrow> 'h ProtocolDetector \<Rightarrow> string" where
  "contextAwareDetection port ks d = (case portProtocolMap d port of
     None \<Rightarrow> ''unknown''
   | Some m \<Rightarrow> (let b = best_protocol m ks [] 0 in if b \<noteq> [] then b else ''unknown''))"

definition updateClientProtocolHistory :: "string \<Rightarrow> string \<Rightarrow> 'h ProtocolDetector \<Rightarrow> 'h ProtocolDetector" where
  "updateClientProtocolHistory ip p d = d\<lparr>clientProtocolHistory := (clientProtocolHistory d)(ip \<mapsto>
     (case clientProtocolHistory d ip of None \<Rightarrow> [] | Some h \<Rightarrow> h) @ [p])\<rparr>"

definition updatePortProtocolMap :: "int \<Rightarrow> string \<Rightarrow> 'h ProtocolDetector \<Rightarrow> 'h ProtocolDetector" where
  "updatePortProtocolMap port p d =
     (let m = (case portProtocolMap d port of None \<Rightarrow> Map.empty | Some m \<Rightarrow> m)
      in d\<lparr>portProtocolMap := (portProtocolMap d)(port \<mapsto> m(p \<mapsto> (case m p of None \<Rightarrow> 1 | Some n \<Rightarrow> n + 1)))\<rparr>)"

section \<open>One connection\<close>

datatype 'h verdict = ReadFailed conn_error | Rejected string | Handled 'h bytes

text \<open>
  \<open>b\<close>: the buffer taken from the pool; \<open>ip\<close> and \<open>port\<close>: the address of the client, empty and 0 if it
  cannot be parsed. The connection is read into the slice \<^verbatim>\<open>buffer.Bytes()\<close>. The pool gets the
  buffer back at the end.
\<close>

definition DetectProtocol ::
    "'c net_api \<Rightarrow> string \<Rightarrow> int \<Rightarrow> string list \<Rightarrow> BytesBuffer \<Rightarrow> 'c BufferedConn \<Rightarrow> 'h ProtocolDetector \<Rightarrow>
     ('h ProtocolDetector \<times> 'c BufferedConn \<times> BytesBuffer \<times> 'h verdict) option" where
  "DetectProtocol api ip port ks b bc d =
     Option.bind (Bytes b) (\<lambda>slice. Option.bind (bc_Read api (length slice) bc) (\<lambda>(bc, got, err).
     let b = b\<lparr>buf := got @ drop (length got) (buf b)\<rparr> in
     case err of Some e \<Rightarrow> Some (d, bc, b, ReadFailed e)
     | None \<Rightarrow> Option.bind (SetWPos b (int (length got))) (\<lambda>b. Option.bind (Bytes b) (\<lambda>data.
         Option.bind (firstLayerDetection data d) (\<lambda>p.
         let p = (if p \<noteq> ''unknown'' then secondLayerDetection p data else p);
             p = (if p = ''unknown'' \<and> ip \<noteq> [] then contextAwareDetection port ks d else p);
             p = (if p \<noteq> ''unknown'' \<and> \<not> thirdLayerDetection p data then ''unknown'' else p);
             d = (if ip \<noteq> [] \<and> p \<noteq> ''unknown'' then updatePortProtocolMap port p (updateClientProtocolHistory ip p d) else d)
         in (case handlers d p of
               None \<Rightarrow> Some (d, fst (bc_Close api bc), b, Rejected p)
             | Some h \<Rightarrow> Some (d, bc, b, Handled h data)))))))"

section \<open>The filter\<close>

lemma length_bloom_Add: "bloom_Add s bf = Some bf' \<Longrightarrow> length (bitset bf') = length (bitset bf) \<and> hashFunctionCount bf' = hashFunctionCount bf"
proof -
  have "length (fold (\<lambda>i bs. bs[f i := True]) is bs) = length bs" for f "is" and bs :: "bool list"
    by (induction "is" arbitrary: bs) simp_all
  then show "bloom_Add s bf = Some bf' \<Longrightarrow> ?thesis" by (auto simp: bloom_Add_def split: if_splits)
qed

lemma fold_set_true:
  "fold (\<lambda>i bs. bs[f i := True]) is bs ! j \<longleftrightarrow> bs ! j \<or> j < length bs \<and> j \<in> f ` set is" if "j < length bs"
proof -
  have upd: "bs[i := True] ! j \<longleftrightarrow> bs ! j \<or> i = j" if "j < length bs" for bs i
    using that by (cases "i = j") auto
  show ?thesis using that by (induction "is" arbitrary: bs) (auto simp: upd)
qed

lemma bloom_Add_keeps:
  assumes "bloom_Add s bf = Some bf'" "bloom_Contains t bf = Some True" shows "bloom_Contains t bf' = Some True"
  using assms length_bloom_Add[OF assms(1)]
  by (auto simp: bloom_Add_def bloom_Contains_def bloom_hash_def fold_set_true split: if_splits)

lemma bloom_no_false_negative:
  assumes "bloom_Add s bf = Some bf'" shows "bloom_Contains s bf' = Some True"
  using assms length_bloom_Add[OF assms]
  by (auto simp: bloom_Add_def bloom_Contains_def bloom_hash_def fold_set_true split: if_splits)

lemma classify_never_websocket: "classify data \<noteq> ''websocket''"
proof -
  have "take 3 data \<noteq> bytes_of ''GET ''"
  proof
    assume "take 3 data = bytes_of ''GET ''"
    then have "length (take 3 data) = 4" by simp
    then show False by simp
  qed
  then show ?thesis by (simp add: classify_def)
qed

section \<open>What the detector does with a connection\<close>

text \<open>A buffer as the pool hands it out has nothing written, so that the slice read into is empty.\<close>

lemma DetectProtocol_empty:
  assumes "clean b" "portProtocolMap d = Map.empty" "0 < hashFunctionCount (bloomFilter d) \<longrightarrow> bitset (bloomFilter d) \<noteq> []"
  shows "\<exists>bc' v b'. DetectProtocol api ip port ks b (NewBufferedConn c n) d = Some (d, bc', b', v) \<and>
    (case v of ReadFailed e \<Rightarrow> True | Rejected p \<Rightarrow> p = ''unknown'' \<and> handlers d ''unknown'' = None \<and> closed bc'
     | Handled h data \<Rightarrow> handlers d ''unknown'' = Some h \<and> data = [])"
proof -
  let ?bc = "NewBufferedConn c n"
  have bytes: "Bytes b = Some []" using assms(1) by (simp add: clean_def Bytes_def)
  have nb: "cbuffer ?bc = Some (NewBytesBuffer (nat (if n \<le> 0 then 4096 else n)))" by (simp add: New_fields)
  have inv: "buf_inv (NewBytesBuffer (nat (if n \<le> 0 then 4096 else n)))" by (rule buf_inv_New) simp
  have "\<exists>bc' e. bc_Read api 0 ?bc = Some (bc', [], e)" by (rule Read_nothing[OF New_fields(1) nb inv New_fields(4)])
  then obtain bc' e where rd: "bc_Read api 0 ?bc = Some (bc', [], e)" by blast
  have first: "firstLayerDetection [] d = Some ''unknown''"
    using assms(3) by (auto simp: firstLayerDetection_def bloom_Contains_def classify_def)
  have none: "contextAwareDetection port ks d = ''unknown''" by (simp add: contextAwareDetection_def assms(2))
  have b: "SetWPos b 0 = Some (b\<lparr>wpos := 0\<rparr>)" "Bytes (b\<lparr>wpos := 0\<rparr>) = Some []" by (simp_all add: SetWPos_def Bytes_def)
  show ?thesis
    by (cases e; cases "handlers d ''unknown''")
      (auto simp: DetectProtocol_def bytes rd first none b Let_def bc_Close_def split: prod.split)
qed

text \<open>Connections one after the other, each with its address, its buffer size and the buffer of the pool.\<close>

fun detect_all :: "'c net_api \<Rightarrow> (string \<times> int \<times> string list \<times> BytesBuffer \<times> int \<times> 'c) list \<Rightarrow> 'h ProtocolDetector \<Rightarrow>
    ('h ProtocolDetector \<times> 'h verdict list) option" where
  "detect_all api [] d = Some (d, [])"
| "detect_all api ((ip, port, ks, b, n, c) # cs) d =
     Option.bind (DetectProtocol api ip port ks b (NewBufferedConn c n) d) (\<lambda>(d, _, _, v).
     map_option (\<lambda>(d, vs). (d, v # vs)) (detect_all api cs d))"

lemma preload_ok: "\<exists>bf. preloadProtocolSignatures (NewBloomFilter 1024 3) = Some bf \<and> bitset bf \<noteq> [] \<and>
    (\<forall>s\<in>set signatures. bloom_Contains s bf = Some True)"
proof -
  have add: "\<exists>bf'. bloom_Add s bf = Some bf' \<and> length (bitset bf') = 1024" if "length (bitset bf) = 1024" for s bf
  proof -
    from that have "\<exists>bf'. bloom_Add s bf = Some bf'" by (auto simp: bloom_Add_def)
    with length_bloom_Add that show ?thesis by metis
  qed
  have "\<exists>bf'. fold (\<lambda>s b. Option.bind b (bloom_Add s)) ss (Some bf) = Some bf' \<and> length (bitset bf') = 1024 \<and>
      (\<forall>s. s \<in> set ss \<or> bloom_Contains s bf = Some True \<longrightarrow> bloom_Contains s bf' = Some True)" if "length (bitset bf) = 1024" for ss bf
    using that
  proof (induction ss arbitrary: bf)
    case (Cons s ss)
    from add[OF Cons.prems] obtain bf1 where bf1: "bloom_Add s bf = Some bf1" "length (bitset bf1) = 1024" by blast
    from Cons.IH[OF bf1(2)] bf1(1) bloom_Add_keeps[OF bf1(1)] bloom_no_false_negative[OF bf1(1)] show ?case by auto
  qed simp
  from this[of "NewBloomFilter 1024 3" signatures] show ?thesis
    by (fastforce simp: preloadProtocolSignatures_def NewBloomFilter_def)
qed

text \<open>
  With buffers as the pool hands them out (reset), the detector never sees a byte of any
  connection: whatever clients send, and whatever handlers are registered, each connection whose
  read does not fail is taken for \<^verbatim>\<open>unknown\<close> and, unless a handler has that name, refused; the
  maps of ports and clients stay empty.
\<close>

lemma detector_sees_nothing:
  fixes hs :: "(string \<times> 'h) list"
  assumes "\<forall>(ip, port, ks, b, n, c)\<in>set cs. clean b"
  shows "\<exists>d vs. map_option (\<lambda>d. fold (\<lambda>(p, h). RegisterHandler p h) hs d) NewDetector = Some d \<and>
    detect_all api cs d = Some (d, vs) \<and> portProtocolMap d = Map.empty \<and> clientProtocolHistory d = Map.empty \<and>
    (\<forall>v\<in>set vs. case v of ReadFailed e \<Rightarrow> True | Rejected p \<Rightarrow> p = ''unknown''
       | Handled h data \<Rightarrow> handlers d ''unknown'' = Some h \<and> data = [])"
proof -
  obtain bf where bf: "preloadProtocolSignatures (NewBloomFilter 1024 3) = Some bf" "bitset bf \<noteq> []" using preload_ok by blast
  let ?new = "\<lparr>handlers = Map.empty, detect_timeout = 30 * second, bloomFilter = bf, clientProtocolHistory = Map.empty,
    portProtocolMap = Map.empty\<rparr> :: 'h ProtocolDetector"
  let ?d = "fold (\<lambda>(p, h). RegisterHandler p h) hs ?new"
  have reg: "bloomFilter (fold (\<lambda>(p, h). RegisterHandler p h) hs d) = bloomFilter d \<and>
      portProtocolMap (fold (\<lambda>(p, h). RegisterHandler p h) hs d) = portProtocolMap d \<and>
      clientProtocolHistory (fold (\<lambda>(p, h). RegisterHandler p h) hs d) = clientProtocolHistory d" for d :: "'h ProtocolDetector"
    by (induction hs arbitrary: d) (auto simp: RegisterHandler_def)
  have ports: "portProtocolMap ?d = Map.empty" and bits: "0 < hashFunctionCount (bloomFilter ?d) \<longrightarrow> bitset (bloomFilter ?d) \<noteq> []"
    using reg[of ?new] bf(2) by simp_all
  have "\<exists>vs. detect_all api cs ?d = Some (?d, vs) \<and> (\<forall>v\<in>set vs. case v of ReadFailed e \<Rightarrow> True | Rejected p \<Rightarrow> p = ''unknown''
       | Handled h data \<Rightarrow> handlers ?d ''unknown'' = Some h \<and> data = [])"
    using assms
  proof (induction cs)
    case (Cons x cs)
    obtain ip port ks b n c where x: "x = (ip, port, ks, b, n, c)" by (metis prod_cases6)
    with Cons.prems have "clean b" by simp
    from DetectProtocol_empty[OF this ports bits, of api ip port ks c n] obtain bc' v b' where
      v: "DetectProtocol api ip port ks b (NewBufferedConn c n) ?d = Some (?d, bc', b', v)"
      "case v of ReadFailed e \<Rightarrow> True | Rejected p \<Rightarrow> p = ''unknown'' \<and> handlers ?d ''unknown'' = None \<and> closed bc'
         | Handled h data \<Rightarrow> handlers ?d ''unknown'' = Some h \<and> data = []" by blast
    from v(2) have "case v of ReadFailed e \<Rightarrow> True | Rejected p \<Rightarrow> p = ''unknown''
         | Handled h data \<Rightarrow> handlers ?d ''unknown'' = Some h \<and> data = []" by (auto split: verdict.splits)
    with Cons v(1) show ?case by (auto simp: x)
  qed simp
  moreover have "NewDetector = Some ?new" by (simp add: NewDetector_def bf(1))
  ultimately show ?thesis using reg[of ?new] by auto
qed

lemma detector_sees_nothing_witness:
  "\<exists>d vs. map_option (RegisterHandler ''http'' (7::nat)) NewDetector = Some d \<and>
    detect_all arrivals_api [(''10.0.0.1'', 5000, [], NewBytesBuffer 4096, 4096, [bytes_of ''GET / HTTP/1.1''])] d = Some (d, vs) \<and>
    (\<forall>v\<in>set vs. case v of ReadFailed e \<Rightarrow> True | Rejected p \<Rightarrow> p = ''unknown''
       | Handled h data \<Rightarrow> handlers d ''unknown'' = Some h \<and> data = [])"
proof -
  have "\<forall>(ip, port, ks, b, n, c)\<in>set [(''10.0.0.1'', 5000, [], NewBytesBuffer 4096, 4096, [bytes_of ''GET / HTTP/1.1''])]. clean b"
    by simp
  from detector_sees_nothing[OF this, of "[(''http'', 7::nat)]" arrivals_api] show ?thesis by auto
qed

end
