(* ===== verification/Enhanced_Pool.thy ===== *)
theory Enhanced_Pool
  imports Prelude
begin

text \<open>
  The connection pool of \<^verbatim>\<open>core/pool/enhanced_pool.go\<close>: connections by identifier and grouped by
  protocol, least-loaded selection, health checks and the cleaning of idle connections.
  Connections are shared objects and are held by address; sockets and their buffers are outside,
  and whether setting a deadline on a socket fails is a parameter. The lemmas show that the groups
  stay exact for every protocol but the empty string, what a selection returns, and how far the
  cleaning goes.
\<close>

section \<open>The pool\<close>

record OptimizedConnection =
  OcID :: string
  OcProtocol :: string
  OcIsActive :: bool
  OcLastUsed :: time
  OcCreatedAt :: time
  RequestCount :: int
  BytesSent :: int
  BytesReceived :: int
  Healthy :: bool

record PoolConfig =
  MaxConnections :: int
  MinConnections :: int
  MaxIdleTime :: duration
  HealthCheckInterval :: duration
  ConnectionTimeout :: duration
  BufferSize :: int

definition DefaultPoolConfig :: PoolConfig where
  "DefaultPoolConfig = \<lparr>MaxConnections = 1000, MinConnections = 10, MaxIdleTime = 5 * minute,
     HealthCheckInterval = 30 * second, ConnectionTimeout = 10 * second, BufferSize = 4096\<rparr>"

record ConnectionPool =
  pool_cfg :: PoolConfig
  conn_at :: "nat \<Rightarrow> OptimizedConnection"
  fresh_conn :: nat
  connections :: "string \<rightharpoonup> nat"
  protocolMap :: "string \<rightharpoonup> nat list"
  TotalConnections :: int
  ConnectionsCreated :: int
  ConnectionsClosed :: int
  ConnectionErrors :: int
  running :: bool

definition NewPool :: "PoolConfig option \<Rightarrow> ConnectionPool" where
  "NewPool cfg = \<lparr>pool_cfg = (case cfg of None \<Rightarrow> DefaultPoolConfig | Some c \<Rightarrow> c),
     conn_at = (\<lambda>_. \<lparr>OcID = [], OcProtocol = [], OcIsActive = False, OcLastUsed = 0, OcCreatedAt = 0, RequestCount = 0,
       BytesSent = 0, BytesReceived = 0, Healthy = False\<rparr>),
     fresh_conn = 0, connections = Map.empty, protocolMap = Map.empty, TotalConnections = 0, ConnectionsCreated = 0,
     ConnectionsClosed = 0, ConnectionErrors = 0, running = True\<rparr>"

definition upd_conn :: "nat \<Rightarrow> (OptimizedConnection \<Rightarrow> OptimizedConnection) \<Rightarrow> ConnectionPool \<Rightarrow> ConnectionPool" where
  "upd_conn a f p = p\<lparr>conn_at := (conn_at p)(a := f (conn_at p a))\<rparr>"

text \<open>\<open>newID\<close>: the fresh UUID. A full pool gives the empty identifier.\<close>

definition AddConnection :: "string \<Rightarrow> time \<Rightarrow> ConnectionPool \<Rightarrow> ConnectionPool \<times> string" where
  "AddConnection newID now p =
     (if int (map_len (connections p)) \<ge> MaxConnections (pool_cfg p)
      then (p\<lparr>ConnectionErrors := ConnectionErrors p + 1\<rparr>, [])
      else (p\<lparr>conn_at := (conn_at p)(fresh_conn p := \<lparr>OcID = newID, OcProtocol = [], OcIsActive = True, OcLastUsed = now,
                 OcCreatedAt = now, RequestCount = 0, BytesSent = 0, BytesReceived = 0, Healthy = True\<rparr>),
              fresh_conn := fresh_conn p + 1, connections := (connections p)(newID \<mapsto> fresh_conn p),
              ConnectionsCreated := ConnectionsCreated p + 1, TotalConnections := TotalConnections p + 1\<rparr>, newID))"

definition usable :: "ConnectionPool \<Rightarrow> nat \<Rightarrow> bool" where
  "usable p a \<longleftrightarrow> OcIsActive (conn_at p a) \<and> Healthy (conn_at p a)"

definition GetConnection :: "string \<Rightarrow> time \<Rightarrow> ConnectionPool \<Rightarrow> ConnectionPool \<times> nat option" where
  "GetConnection i now p = (case connections p i of
     None \<Rightarrow> (p, None)
   | Some a \<Rightarrow> if usable p a then (upd_conn a (\<lambda>c. c\<lparr>OcLastUsed := now\<rparr>) p, Some a) else (p, None))"

text \<open>The scan for the smallest request count, which starts at -1 for none.\<close>

fun least_loaded :: "ConnectionPool \<Rightarrow> nat list \<Rightarrow> nat option \<Rightarrow> int \<Rightarrow> nat option" where
  "least_loaded p [] best least = best"
| "least_loaded p (a # as) best least =
     (if usable p a \<and> (least = -1 \<or> RequestCount (conn_at p a) < least)
      then least_loaded p as (Some a) (RequestCount (conn_at p a)) else least_loaded p as best least)"

definition GetConnectionByProtocol :: "string \<Rightarrow> time \<Rightarrow> ConnectionPool \<Rightarrow> ConnectionPool \<times> nat option" where
  "GetConnectionByProtocol pr now p = (case protocolMap p pr of
     None \<Rightarrow> (p, None)
   | Some as \<Rightarrow> if as = [] then (p, None)
       else (case least_loaded p as None (-1) of
           None \<Rightarrow> (p, None)
         | Some a \<Rightarrow> (upd_conn a (\<lambda>c. c\<lparr>OcLastUsed := now\<rparr>) p, Some a)))"

definition removeFromProtocolMap :: "string \<Rightarrow> string \<Rightarrow> ConnectionPool \<Rightarrow> ConnectionPool" where
  "removeFromProtocolMap pr i p = (case protocolMap p pr of
     None \<Rightarrow> p
   | Some as \<Rightarrow> (let as = remove_first (\<lambda>a. OcID (conn_at p a) = i) as
       in p\<lparr>protocolMap := (protocolMap p)(pr := if as = [] then None else Some as)\<rparr>))"

definition UpdateConnectionProtocol :: "string \<Rightarrow> string \<Rightarrow> ConnectionPool \<Rightarrow> ConnectionPool \<times> bool" where
  "UpdateConnectionProtocol i pr p = (case connections p i of
     None \<Rightarrow> (p, False)
   | Some a \<Rightarrow>
       (let p = (if OcProtocol (conn_at p a) \<noteq> [] then removeFromProtocolMap (OcProtocol (conn_at p a)) i p else p);
            p = upd_conn a (\<lambda>c. c\<lparr>OcProtocol := pr\<rparr>) p;
            as = (case protocolMap p pr of None \<Rightarrow> [] | Some as \<Rightarrow> as)
        in (p\<lparr>protocolMap := (protocolMap p)(pr \<mapsto> as @ [a])\<rparr>, True)))"

definition RemoveConnection :: "string \<Rightarrow> ConnectionPool \<Rightarrow> ConnectionPool" where
  "RemoveConnection i p = (case connections p i of
     None \<Rightarrow> p
   | Some a \<Rightarrow>
       (let p = (if OcProtocol (conn_at p a) \<noteq> [] then removeFromProtocolMap (OcProtocol (conn_at p a)) i p else p)
        in p\<lparr>connections := (connections p)(i := None), ConnectionsClosed := ConnectionsClosed p + 1,
             TotalConnections := TotalConnections p - 1\<rparr>))"

definition UpdateStats :: "nat \<Rightarrow> int \<Rightarrow> int \<Rightarrow> time \<Rightarrow> ConnectionPool \<Rightarrow> ConnectionPool" where
  "UpdateStats a sent received now = upd_conn a (\<lambda>c. c\<lparr>RequestCount := RequestCount c + 1, BytesSent := BytesSent c + sent,
     BytesReceived := BytesReceived c + received, OcLastUsed := now\<rparr>)"

definition GetStats :: "nat \<Rightarrow> ConnectionPool \<Rightarrow> int \<times> int \<times> int" where
  "GetStats a p = (RequestCount (conn_at p a), BytesSent (conn_at p a), BytesReceived (conn_at p a))"

lemma GetStats_UpdateStats:
  "GetStats b (UpdateStats a sent received now p) = (if b = a
     then (case GetStats a p of (n, s, r) \<Rightarrow> (n + 1, s + sent, r + received)) else GetStats b p)"
  by (simp add: GetStats_def UpdateStats_def upd_conn_def)

definition IsIdle :: "ConnectionPool \<Rightarrow> time \<Rightarrow> nat \<Rightarrow> bool" where
  "IsIdle p now a \<longleftrightarrow> now - OcLastUsed (conn_at p a) > MaxIdleTime (pool_cfg p)"

definition active_conns :: "ConnectionPool \<Rightarrow> (string \<rightharpoonup> nat)" where
  "active_conns p = filter_map (\<lambda>_ a. OcIsActive (conn_at p a)) (connections p)"

text \<open>The active and idle counts, and the sums of requests and bytes, over the connections of the pool.\<close>

definition GetMetrics :: "time \<Rightarrow> ConnectionPool \<Rightarrow> nat \<times> nat \<times> int \<times> int \<times> int" where
  "GetMetrics now p = (map_len (active_conns p),
     map_len (filter_map (\<lambda>_ a. IsIdle p now a) (active_conns p)),
     (\<Sum>i\<in>dom (connections p). RequestCount (conn_at p (the (connections p i)))),
     (\<Sum>i\<in>dom (connections p). BytesSent (conn_at p (the (connections p i)))),
     (\<Sum>i\<in>dom (connections p). BytesReceived (conn_at p (the (connections p i)))))"

text \<open>One round over the connections collected first, \<open>as\<close>; \<open>dead\<close> says which sockets fail.\<close>

fun performHealthCheck :: "(nat \<Rightarrow> bool) \<Rightarrow> nat list \<Rightarrow> ConnectionPool \<Rightarrow> ConnectionPool" where
  "performHealthCheck dead [] p = p"
| "performHealthCheck dead (a # as) p =
     performHealthCheck dead as (if OcIsActive (conn_at p a)
       then (let p = upd_conn a (\<lambda>c. c\<lparr>Healthy := \<not> dead a\<rparr>) p
             in if dead a then RemoveConnection (OcID (conn_at p a)) p else p)
       else p)"

text \<open>\<open>is\<close>: the identifiers of the pool in \<^verbatim>\<open>range\<close> order.\<close>

definition idle_ids :: "time \<Rightarrow> string list \<Rightarrow> ConnectionPool \<Rightarrow> string list" where
  "idle_ids now ids p = filter (\<lambda>i. case active_conns p i of None \<Rightarrow> False | Some a \<Rightarrow> IsIdle p now a) ids"

definition cleanIdleConnections :: "time \<Rightarrow> string list \<Rightarrow> ConnectionPool \<Rightarrow> ConnectionPool" where
  "cleanIdleConnections now ids p =
     (let idle = idle_ids now ids p; maxToRemove = int (map_len (active_conns p)) - MinConnections (pool_cfg p)
      in if maxToRemove > 0 \<and> idle \<noteq> []
         then fold RemoveConnection (take (nat (if int (length idle) > maxToRemove then maxToRemove else int (length idle))) idle) p
         else p)"

definition ClosePool :: "ConnectionPool \<Rightarrow> ConnectionPool" where
  "ClosePool p = (if \<not> running p then p
     else p\<lparr>running := False, connections := Map.empty, protocolMap := Map.empty\<rparr>)"

section \<open>Reachable pools\<close>

text \<open>
  A UUID is assumed never to repeat and not to be empty. Statistics are updated by whoever holds
  a connection, also after it has left the pool.
\<close>

inductive pool_step :: "ConnectionPool \<Rightarrow> ConnectionPool \<Rightarrow> bool" where
  add: "(\<And>a. a < fresh_conn p \<Longrightarrow> OcID (conn_at p a) \<noteq> i) \<Longrightarrow> i \<noteq> [] \<Longrightarrow> pool_step p (fst (AddConnection i now p))"
| get: "pool_step p (fst (GetConnection i now p))"
| select: "pool_step p (fst (GetConnectionByProtocol pr now p))"
| protocol: "pool_step p (fst (UpdateConnectionProtocol i pr p))"
| remove: "pool_step p (RemoveConnection i p)"
| stats: "a < fresh_conn p \<Longrightarrow> pool_step p (UpdateStats a sent received now p)"
| health: "(\<And>a. a \<in> set as \<Longrightarrow> a < fresh_conn p) \<Longrightarrow> pool_step p (performHealthCheck dead as p)"
| idle: "pool_step p (cleanIdleConnections now ids p)"
| close: "pool_step p (ClosePool p)"

definition group_of :: "ConnectionPool \<Rightarrow> string \<Rightarrow> nat list" where
  "group_of p pr = (case protocolMap p pr of None \<Rightarrow> [] | Some as \<Rightarrow> as)"

text \<open>The groups are exact but for the connections in \<open>S\<close>, which are in none.\<close>

definition groups_ok :: "nat set \<Rightarrow> ConnectionPool \<Rightarrow> bool" where
  "groups_ok S p \<longleftrightarrow> (\<forall>pr. pr \<noteq> [] \<longrightarrow> protocolMap p pr \<noteq> Some [] \<and> distinct (group_of p pr) \<and>
     set (group_of p pr) = {a. a \<notin> S \<and> a \<in> ran (connections p) \<and> OcProtocol (conn_at p a) = pr})"

definition ids_ok :: "ConnectionPool \<Rightarrow> bool" where
  "ids_ok p \<longleftrightarrow> finite (dom (connections p)) \<and> (\<forall>i a. connections p i = Some a \<longrightarrow> a < fresh_conn p \<and> OcID (conn_at p a) = i) \<and>
     (\<forall>a<fresh_conn p. OcID (conn_at p a) \<noteq> [] \<and> 0 \<le> RequestCount (conn_at p a))"

definition total_ok :: "ConnectionPool \<Rightarrow> bool" where
  "total_ok p \<longleftrightarrow> (running p \<longrightarrow> TotalConnections p = int (map_len (connections p)))"

definition pool_inv :: "ConnectionPool \<Rightarrow> bool" where
  "pool_inv p \<longleftrightarrow> groups_ok {} p \<and> ids_ok p \<and> total_ok p"

lemma groups_okD:
  assumes "groups_ok S p" "pr \<noteq> []"
  shows "protocolMap p pr \<noteq> Some []" "distinct (group_of p pr)"
    "set (group_of p pr) = {a. a \<notin> S \<and> a \<in> ran (connections p) \<and> OcProtocol (conn_at p a) = pr}"
  using assms by (auto simp: groups_ok_def)

lemma ids_okD:
  assumes "ids_ok p" "connections p i = Some a" shows "a < fresh_conn p" "OcID (conn_at p a) = i"
  using assms by (auto simp: ids_ok_def)

text \<open>A change of a connection that keeps its identifier, protocol and a count not negative keeps everything.\<close>

lemma pool_inv_upd:
  assumes "pool_inv p" "\<And>c. OcID (f c) = OcID c" "\<And>c. OcProtocol (f c) = OcProtocol c"
    "\<And>c. 0 \<le> RequestCount c \<Longrightarrow> 0 \<le> RequestCount (f c)"
  shows "pool_inv (upd_conn a f p)"
proof -
  have keep: "OcID (conn_at (upd_conn a f p) b) = OcID (conn_at p b)" "OcProtocol (conn_at (upd_conn a f p) b) = OcProtocol (conn_at p b)"
    "0 \<le> RequestCount (conn_at p b) \<Longrightarrow> 0 \<le> RequestCount (conn_at (upd_conn a f p) b)" for b
    using assms(2-4) by (auto simp: upd_conn_def)
  have frame: "connections (upd_conn a f p) = connections p" "protocolMap (upd_conn a f p) = protocolMap p"
    "fresh_conn (upd_conn a f p) = fresh_conn p" "TotalConnections (upd_conn a f p) = TotalConnections p"
    "running (upd_conn a f p) = running p" "group_of (upd_conn a f p) = group_of p"
    by (simp_all add: upd_conn_def group_of_def fun_eq_iff)
  have "groups_ok {} (upd_conn a f p)" using assms(1) unfolding pool_inv_def groups_ok_def frame keep(1,2) by blast
  moreover have "ids_ok (upd_conn a f p)" using assms(1) keep(3) unfolding pool_inv_def ids_ok_def frame keep(1,2) by blast
  moreover have "total_ok (upd_conn a f p)" using assms(1) unfolding pool_inv_def total_ok_def frame by blast
  ultimately show ?thesis by (simp add: pool_inv_def)
qed

lemma remove_first_unique:
  assumes "distinct xs" "\<And>x. x \<in> set xs \<Longrightarrow> P x \<longleftrightarrow> x = a"
  shows "set (remove_first P xs) = set xs - {a}"
  using assms by (induction xs) auto

definition detach :: "nat \<Rightarrow> string \<Rightarrow> ConnectionPool \<Rightarrow> ConnectionPool" where
  "detach a i p = (if OcProtocol (conn_at p a) \<noteq> [] then removeFromProtocolMap (OcProtocol (conn_at p a)) i p else p)"

lemma detach_frame [simp]:
  "connections (detach a i p) = connections p" "conn_at (detach a i p) = conn_at p" "fresh_conn (detach a i p) = fresh_conn p"
  "TotalConnections (detach a i p) = TotalConnections p" "running (detach a i p) = running p" "pool_cfg (detach a i p) = pool_cfg p"
  by (simp_all add: detach_def removeFromProtocolMap_def Let_def split: option.split)

lemma groups_ok_detach:
  assumes "groups_ok {} p" "ids_ok p" "connections p i = Some a"
  shows "groups_ok {a} (detach a i p)"
proof -
  let ?pr = "OcProtocol (conn_at p a)"
  have group: "group_of (detach a i p) pr =
      (if pr = ?pr \<and> pr \<noteq> [] then remove_first (\<lambda>b. OcID (conn_at p b) = i) (group_of p pr) else group_of p pr)" for pr
    by (auto simp: detach_def removeFromProtocolMap_def group_of_def Let_def split: option.split)
  have ne: "protocolMap (detach a i p) pr \<noteq> Some []" if "pr \<noteq> []" for pr
    using groups_okD(1)[OF assms(1) that] by (auto simp: detach_def removeFromProtocolMap_def Let_def split: option.split)
  have unique: "OcID (conn_at p b) = i \<longleftrightarrow> b = a" if "b \<in> set (group_of p ?pr)" "?pr \<noteq> []" for b
  proof -
    from groups_okD(3)[OF assms(1) that(2)] that(1) obtain j where "connections p j = Some b" by (auto simp: ran_def)
    with ids_okD(2)[OF assms(2)] assms(3) show ?thesis by auto
  qed
  have set_group: "set (group_of (detach a i p) pr) = set (group_of p pr) - {a}" if "pr \<noteq> []" for pr
  proof (cases "pr = ?pr")
    case True
    with that remove_first_unique[OF groups_okD(2)[OF assms(1) that], of "\<lambda>b. OcID (conn_at p b) = i" a] unique group show ?thesis by auto
  next
    case False
    with groups_okD(3)[OF assms(1) that] group show ?thesis by auto
  qed
  show ?thesis unfolding groups_ok_def
  proof (intro allI impI conjI)
    fix pr :: string assume pr: "pr \<noteq> []"
    show "protocolMap (detach a i p) pr \<noteq> Some []" by (rule ne[OF pr])
    show "distinct (group_of (detach a i p) pr)" using group groups_okD(2)[OF assms(1) pr] by auto
    show "set (group_of (detach a i p) pr) = {b. b \<notin> {a} \<and> b \<in> ran (connections (detach a i p)) \<and> OcProtocol (conn_at (detach a i p) b) = pr}"
      using set_group[OF pr] groups_okD(3)[OF assms(1) pr] by auto
  qed
qed

lemma RemoveConnection_eq:
  "connections p i = Some a \<Longrightarrow> RemoveConnection i p = (detach a i p)\<lparr>connections := (connections p)(i := None),
     ConnectionsClosed := ConnectionsClosed (detach a i p) + 1, TotalConnections := TotalConnections p - 1\<rparr>"
  by (simp add: RemoveConnection_def detach_def[symmetric] Let_def)

lemma ran_del:
  assumes "m i = Some a" "\<And>j. m j = Some a \<Longrightarrow> j = i" shows "ran (m(i := None)) = ran m - {a}"
proof (intro equalityI subsetI)
  fix b assume "b \<in> ran (m(i := None))"
  then obtain j where "j \<noteq> i" "m j = Some b" by (auto simp: ran_def split: if_splits)
  with assms(2) show "b \<in> ran m - {a}" by (auto simp: ran_def)
next
  fix b assume "b \<in> ran m - {a}"
  then obtain j where "m j = Some b" "b \<noteq> a" by (auto simp: ran_def)
  with assms(1) have "(m(i := None)) j = Some b" by auto
  then show "b \<in> ran (m(i := None))" by (rule ranI)
qed

lemma pool_inv_Remove:
  assumes "pool_inv p" shows "pool_inv (RemoveConnection i p)"
proof (cases "connections p i")
  case None
  then show ?thesis using assms by (simp add: RemoveConnection_def)
next
  case (Some a)
  let ?d = "detach a i p" let ?p = "RemoveConnection i p"
  have inv: "groups_ok {} p" "ids_ok p" "total_ok p" using assms by (simp_all add: pool_inv_def)
  note g = groups_ok_detach[OF inv(1,2) Some]
  have inj: "j = i" if "connections p j = Some a" for j using ids_okD(2)[OF inv(2)] that Some by metis
  have ran: "ran (connections ?p) = ran (connections p) - {a}"
  proof -
    have "connections ?p = (connections p)(i := None)" by (simp add: RemoveConnection_eq[OF Some])
    then show ?thesis using ran_del[where m = "connections p", OF Some inj] by simp
  qed
  have "group_of ?p pr = group_of ?d pr" "protocolMap ?p = protocolMap ?d" "conn_at ?p = conn_at p" for pr
    by (simp_all add: RemoveConnection_eq[OF Some] group_of_def)
  with g ran have "groups_ok {} ?p" by (auto simp: groups_ok_def)
  moreover have "ids_ok ?p" using inv(2) by (auto simp: RemoveConnection_eq[OF Some] ids_ok_def split: if_splits)
  moreover have "total_ok ?p"
  proof -
    have "finite (dom (connections p))" "i \<in> dom (connections p)" using inv(2) Some by (auto simp: ids_ok_def)
    from map_len_del[OF this] inv(3) show ?thesis by (auto simp: RemoveConnection_eq[OF Some] total_ok_def)
  qed
  ultimately show ?thesis by (simp add: pool_inv_def)
qed

lemma pool_inv_UpdateProtocol:
  assumes "pool_inv p" shows "pool_inv (fst (UpdateConnectionProtocol i pr p))"
proof (cases "connections p i")
  case None
  then show ?thesis using assms by (simp add: UpdateConnectionProtocol_def)
next
  case (Some a)
  let ?d = "detach a i p" let ?p = "fst (UpdateConnectionProtocol i pr p)"
  have inv: "groups_ok {} p" "ids_ok p" "total_ok p" using assms by (simp_all add: pool_inv_def)
  note g = groups_ok_detach[OF inv(1,2) Some]
  have p: "?p = (upd_conn a (\<lambda>c. c\<lparr>OcProtocol := pr\<rparr>) ?d)\<lparr>protocolMap := (protocolMap ?d)(pr \<mapsto> group_of ?d pr @ [a])\<rparr>"
    using Some by (simp add: UpdateConnectionProtocol_def detach_def[symmetric] Let_def upd_conn_def group_of_def)
  have fields: "connections ?p = connections p" "conn_at ?p = (conn_at p)(a := (conn_at p a)\<lparr>OcProtocol := pr\<rparr>)"
    "fresh_conn ?p = fresh_conn p" "TotalConnections ?p = TotalConnections p" "running ?p = running p"
    by (simp_all add: p upd_conn_def)
  have group: "group_of ?p pr' = group_of ?d pr' @ (if pr' = pr then [a] else [])" for pr'
    by (simp add: p group_of_def)
  have a: "a \<in> ran (connections p)" using Some by (rule ranI)
  have "groups_ok {} ?p" unfolding groups_ok_def
  proof (intro allI impI conjI)
    fix pr' :: string assume pr': "pr' \<noteq> []"
    note d = groups_okD[OF g pr']
    show "protocolMap ?p pr' \<noteq> Some []" using d(1) by (simp add: p)
    show "distinct (group_of ?p pr')" using d(2,3) group by simp
    show "set (group_of ?p pr') = {b. b \<notin> {} \<and> b \<in> ran (connections ?p) \<and> OcProtocol (conn_at ?p b) = pr'}"
      using d(3) group a by (auto simp: fields)
  qed
  moreover have "ids_ok ?p" using inv(2) by (auto simp: ids_ok_def fields)
  moreover have "total_ok ?p" using inv(3) by (simp add: total_ok_def fields)
  ultimately show ?thesis by (simp add: pool_inv_def)
qed

lemma pool_inv_Add:
  assumes "pool_inv p" "\<And>a. a < fresh_conn p \<Longrightarrow> OcID (conn_at p a) \<noteq> i" "i \<noteq> []"
  shows "pool_inv (fst (AddConnection i now p))"
proof (cases "int (map_len (connections p)) \<ge> MaxConnections (pool_cfg p)")
  case True
  then show ?thesis using assms(1) by (simp add: AddConnection_def pool_inv_def groups_ok_def group_of_def ids_ok_def total_ok_def)
next
  case False
  let ?p = "fst (AddConnection i now p)" let ?n = "fresh_conn p"
  have inv: "groups_ok {} p" "ids_ok p" "total_ok p" using assms(1) by (simp_all add: pool_inv_def)
  have new: "connections p i = None" using ids_okD[OF inv(2), of i] assms(2) by (cases "connections p i") auto
  have fields: "connections ?p = (connections p)(i \<mapsto> ?n)" "fresh_conn ?p = ?n + 1" "TotalConnections ?p = TotalConnections p + 1"
    "running ?p = running p" "protocolMap ?p = protocolMap p" "\<And>a. a \<noteq> ?n \<Longrightarrow> conn_at ?p a = conn_at p a"
    "OcProtocol (conn_at ?p ?n) = []" "OcID (conn_at ?p ?n) = i" "RequestCount (conn_at ?p ?n) = 0"
    using False by (simp_all add: AddConnection_def)
  have old: "a \<noteq> ?n" if "a \<in> ran (connections p)" for a using ids_okD(1)[OF inv(2)] that by (auto simp: ran_def)
  have ran: "ran (connections ?p) = insert ?n (ran (connections p))" using new by (simp add: fields(1))
  have "groups_ok {} ?p" unfolding groups_ok_def
  proof (intro allI impI conjI)
    fix pr :: string assume pr: "pr \<noteq> []"
    note d = groups_okD[OF inv(1) pr]
    show "protocolMap ?p pr \<noteq> Some []" using d(1) by (simp add: fields)
    show "distinct (group_of ?p pr)" using d(2) by (simp add: fields group_of_def)
    have "group_of ?p pr = group_of p pr" by (simp add: fields group_of_def)
    then show "set (group_of ?p pr) = {b. b \<notin> {} \<and> b \<in> ran (connections ?p) \<and> OcProtocol (conn_at ?p b) = pr}"
      using d(3) old pr fields(6,7) unfolding ran by auto
  qed
  moreover have "ids_ok ?p"
  proof -
    have "b < fresh_conn ?p \<and> OcID (conn_at ?p b) = j" if "connections ?p j = Some b" for j b
    proof (cases "j = i")
      case False
      with that have "connections p j = Some b" by (simp add: fields(1))
      from ids_okD[OF inv(2) this] show ?thesis by (simp add: fields(2,6))
    qed (use that in \<open>auto simp: fields\<close>)
    moreover have "OcID (conn_at ?p b) \<noteq> [] \<and> 0 \<le> RequestCount (conn_at ?p b)" if "b < fresh_conn ?p" for b
    proof (cases "b = ?n")
      case False
      with that have "b < ?n" by (simp add: fields(2))
      with inv(2) False show ?thesis by (simp add: ids_ok_def fields(6))
    qed (use assms(3) in \<open>simp add: fields\<close>)
    moreover have "finite (dom (connections ?p))" using inv(2) by (simp add: ids_ok_def fields(1))
    ultimately show ?thesis unfolding ids_ok_def by blast
  qed
  moreover have "total_ok ?p"
    using inv(2,3) new by (auto simp: total_ok_def fields map_len_upd ids_ok_def domIff)
  ultimately show ?thesis by (simp add: pool_inv_def)
qed

lemma pool_inv_New: "pool_inv (NewPool cfg)"
  by (simp add: pool_inv_def NewPool_def groups_ok_def group_of_def ids_ok_def total_ok_def)

lemma pool_inv_health: "pool_inv p \<Longrightarrow> pool_inv (performHealthCheck dead as p)"
proof (induction dead as p rule: performHealthCheck.induct)
  case (2 dead a as p)
  have "pool_inv (upd_conn a (\<lambda>c. c\<lparr>Healthy := \<not> dead a\<rparr>) p)" by (rule pool_inv_upd[OF 2(2)]) simp_all
  then have "pool_inv (if OcIsActive (conn_at p a)
       then (let p = upd_conn a (\<lambda>c. c\<lparr>Healthy := \<not> dead a\<rparr>) p
             in if dead a then RemoveConnection (OcID (conn_at p a)) p else p) else p)"
    using 2(2) pool_inv_Remove unfolding Let_def by presburger
  from 2(1)[OF this] show ?case unfolding performHealthCheck.simps .
qed simp

lemma pool_inv_clean: "pool_inv p \<Longrightarrow> pool_inv (cleanIdleConnections now ids p)"
proof -
  have "pool_inv p \<Longrightarrow> pool_inv (fold RemoveConnection ids p)" for ids p
    by (induction ids arbitrary: p) (auto intro: pool_inv_Remove)
  then show "pool_inv p \<Longrightarrow> ?thesis" by (simp add: cleanIdleConnections_def Let_def)
qed

lemma pool_inv_Close: "pool_inv p \<Longrightarrow> pool_inv (ClosePool p)"
  by (auto simp: ClosePool_def pool_inv_def groups_ok_def group_of_def ids_ok_def total_ok_def)

lemma pool_step_inv: "pool_step p p' \<Longrightarrow> pool_inv p \<Longrightarrow> pool_inv p'"
proof (induction rule: pool_step.induct)
  case (get p i now)
  then show ?case by (auto simp: GetConnection_def intro!: pool_inv_upd split: option.split)
next
  case (select p pr now)
  then show ?case by (auto simp: GetConnectionByProtocol_def intro!: pool_inv_upd split: option.split)
qed (auto simp: UpdateStats_def intro: pool_inv_Add pool_inv_UpdateProtocol pool_inv_Remove pool_inv_health pool_inv_clean pool_inv_Close
      intro!: pool_inv_upd)

lemma pool_reachable_inv: "pool_step\<^sup>*\<^sup>* (NewPool cfg) p \<Longrightarrow> pool_inv p"
  by (induction rule: rtranclp_induct) (auto intro: pool_inv_New pool_step_inv)

section \<open>What a selection returns\<close>

lemma least_loaded_spec:
  assumes "\<forall>a\<in>set as. 0 \<le> RequestCount (conn_at p a)" "best = None \<longleftrightarrow> least = -1" "\<forall>b. best = Some b \<longrightarrow> usable p b \<and> least = RequestCount (conn_at p b) \<and> 0 \<le> least"
  shows "case least_loaded p as best least of
      None \<Rightarrow> best = None \<and> (\<forall>a\<in>set as. \<not> usable p a)
    | Some r \<Rightarrow> (best = Some r \<or> r \<in> set as) \<and> usable p r \<and>
        (\<forall>a\<in>set as. usable p a \<longrightarrow> RequestCount (conn_at p r) \<le> RequestCount (conn_at p a)) \<and>
        (best \<noteq> None \<longrightarrow> RequestCount (conn_at p r) \<le> least)"
  using assms
proof (induction p as best least rule: least_loaded.induct)
  case (2 p a as best least)
  show ?case
  proof (cases "usable p a \<and> (least = -1 \<or> RequestCount (conn_at p a) < least)")
    case True
    let ?r = "least_loaded p as (Some a) (RequestCount (conn_at p a))"
    have a: "0 \<le> RequestCount (conn_at p a)" using 2(3) by simp
    have "case ?r of None \<Rightarrow> Some a = None \<and> (\<forall>b\<in>set as. \<not> usable p b)
        | Some r \<Rightarrow> (Some a = Some r \<or> r \<in> set as) \<and> usable p r \<and>
          (\<forall>b\<in>set as. usable p b \<longrightarrow> RequestCount (conn_at p r) \<le> RequestCount (conn_at p b)) \<and>
          (Some a \<noteq> None \<longrightarrow> RequestCount (conn_at p r) \<le> RequestCount (conn_at p a))"
      by (rule 2(1)[OF True]) (use a True 2(3) in simp_all)
    then have "case ?r of None \<Rightarrow> False
        | Some r \<Rightarrow> (r = a \<or> r \<in> set as) \<and> usable p r \<and>
          (\<forall>b\<in>set as. usable p b \<longrightarrow> RequestCount (conn_at p r) \<le> RequestCount (conn_at p b)) \<and>
          RequestCount (conn_at p r) \<le> RequestCount (conn_at p a)" by (cases ?r) auto
    moreover have "best \<noteq> None \<longrightarrow> RequestCount (conn_at p a) < least" using True 2(4) by blast
    moreover have "least_loaded p (a # as) best least = ?r" using True by simp
    ultimately show ?thesis by (cases ?r) auto
  next
    case False
    let ?r = "least_loaded p as best least"
    have "case ?r of None \<Rightarrow> best = None \<and> (\<forall>b\<in>set as. \<not> usable p b)
        | Some r \<Rightarrow> (best = Some r \<or> r \<in> set as) \<and> usable p r \<and>
          (\<forall>b\<in>set as. usable p b \<longrightarrow> RequestCount (conn_at p r) \<le> RequestCount (conn_at p b)) \<and>
          (best \<noteq> None \<longrightarrow> RequestCount (conn_at p r) \<le> least)"
      by (rule 2(2)[OF False _ 2(4,5)]) (use 2(3) in simp)
    moreover have "usable p a \<longrightarrow> best \<noteq> None \<and> least \<le> RequestCount (conn_at p a)" using False 2(4) by auto
    moreover have "least_loaded p (a # as) best least = ?r" by (simp only: least_loaded.simps False if_False)
    ultimately show ?thesis by (cases ?r) auto
  qed
qed (auto split: option.split)

text \<open>
  C20. In every reachable pool, for every protocol but the empty string, \<^verbatim>\<open>GetConnectionByProtocol\<close>
  finds a connection exactly when the pool holds one of that protocol that is active and healthy,
  and then one of them with the fewest requests; and until it is closed the pool counts its
  connections exactly.
\<close>

theorem protocol_selection_exact:
  assumes "pool_step\<^sup>*\<^sup>* (NewPool cfg) p" "pr \<noteq> []"
  shows "(case snd (GetConnectionByProtocol pr now p) of
      None \<Rightarrow> \<nexists>i a. connections p i = Some a \<and> OcProtocol (conn_at p a) = pr \<and> usable p a
    | Some r \<Rightarrow> connections p (OcID (conn_at p r)) = Some r \<and> OcProtocol (conn_at p r) = pr \<and> usable p r \<and>
        (\<forall>i a. connections p i = Some a \<and> OcProtocol (conn_at p a) = pr \<and> usable p a \<longrightarrow>
           RequestCount (conn_at p r) \<le> RequestCount (conn_at p a))) \<and>
    (running p \<longrightarrow> TotalConnections p = int (map_len (connections p)))"
proof -
  have inv: "groups_ok {} p" "ids_ok p" "total_ok p" using pool_reachable_inv[OF assms(1)] by (simp_all add: pool_inv_def)
  note g = groups_okD(3)[OF inv(1) assms(2)]
  have member: "a \<in> set (group_of p pr) \<longleftrightarrow> (\<exists>i. connections p i = Some a) \<and> OcProtocol (conn_at p a) = pr" for a
    unfolding g by (auto simp: ran_def)
  have "\<forall>a\<in>set (group_of p pr). 0 \<le> RequestCount (conn_at p a)"
    using member ids_okD(1)[OF inv(2)] inv(2) unfolding ids_ok_def by blast
  from least_loaded_spec[OF this, of None "-1"] have
    l: "case least_loaded p (group_of p pr) None (-1) of None \<Rightarrow> \<forall>a\<in>set (group_of p pr). \<not> usable p a
      | Some r \<Rightarrow> r \<in> set (group_of p pr) \<and> usable p r \<and>
        (\<forall>a\<in>set (group_of p pr). usable p a \<longrightarrow> RequestCount (conn_at p r) \<le> RequestCount (conn_at p a))"
    by (auto split: option.splits)
  have s: "snd (GetConnectionByProtocol pr now p) = least_loaded p (group_of p pr) None (-1)"
    by (auto simp: GetConnectionByProtocol_def group_of_def split: option.split)
  have id: "connections p (OcID (conn_at p a)) = Some a" if "connections p i = Some a" for i a
    using ids_okD(2)[OF inv(2) that] that by simp
  show ?thesis
  proof (cases "least_loaded p (group_of p pr) None (-1)")
    case None
    with l have "\<forall>a\<in>set (group_of p pr). \<not> usable p a" by simp
    then have "\<nexists>i a. connections p i = Some a \<and> OcProtocol (conn_at p a) = pr \<and> usable p a" using member by blast
    with None inv(3) show ?thesis unfolding s total_ok_def by simp
  next
    case (Some r)
    with l have r: "r \<in> set (group_of p pr)" "usable p r"
      "\<forall>a\<in>set (group_of p pr). usable p a \<longrightarrow> RequestCount (conn_at p r) \<le> RequestCount (conn_at p a)" by simp_all
    from r(1) id have "connections p (OcID (conn_at p r)) = Some r" "OcProtocol (conn_at p r) = pr" unfolding member by blast+
    moreover have "\<forall>i a. connections p i = Some a \<and> OcProtocol (conn_at p a) = pr \<and> usable p a \<longrightarrow>
        RequestCount (conn_at p r) \<le> RequestCount (conn_at p a)" using r(3) member by blast
    ultimately show ?thesis using r(2) inv(3) unfolding s total_ok_def Some option.case by blast
  qed
qed

theorem protocol_selection_exact_witness:
  "let p = fst (UpdateConnectionProtocol ''a'' ''http'' (fst (AddConnection ''a'' 0 (NewPool None))))
   in snd (GetConnectionByProtocol ''http'' 1 p) = Some 0 \<and> TotalConnections p = int (map_len (connections p))"
proof -
  let ?p1 = "fst (AddConnection ''a'' 0 (NewPool None))" let ?p = "fst (UpdateConnectionProtocol ''a'' ''http'' ?p1)"
  have s1: "pool_step (NewPool None) ?p1" by (rule pool_step.add) (simp_all add: NewPool_def)
  have s2: "pool_step ?p1 ?p" by (rule pool_step.protocol)
  have r: "pool_step\<^sup>*\<^sup>* (NewPool None) ?p" using s1 s2 by auto
  have f: "connections ?p = [''a'' \<mapsto> 0]" "OcProtocol (conn_at ?p 0) = ''http''" "usable ?p 0" "running ?p"
    by (simp_all add: UpdateConnectionProtocol_def AddConnection_def NewPool_def DefaultPoolConfig_def upd_conn_def usable_def Let_def)
  have ne: "''http'' \<noteq> []" by simp
  note t = protocol_selection_exact[OF r ne, of 1]
  have "snd (GetConnectionByProtocol ''http'' 1 ?p) = Some 0"
  proof (cases "snd (GetConnectionByProtocol ''http'' 1 ?p)")
    case None
    with t f show ?thesis by auto
  next
    case (Some x)
    with t have "connections ?p (OcID (conn_at ?p x)) = Some x" by simp
    with f(1) Some show ?thesis by (auto split: if_splits)
  qed
  with t f(4) show ?thesis unfolding Let_def by blast
qed

text \<open>
  The empty protocol is not grouped exactly: a connection put under it, which no removal takes
  out again, is still selected after it has left the pool and its socket is closed.
\<close>

lemma empty_protocol_keeps_removed:
  assumes "connections p i = Some a" "OcProtocol (conn_at p a) = []" "protocolMap p [] = None" "usable p a"
  shows "let q = RemoveConnection i (fst (UpdateConnectionProtocol i [] p))
    in connections q i = None \<and> snd (GetConnectionByProtocol [] now q) = Some a"
  using assms by (simp add: UpdateConnectionProtocol_def RemoveConnection_def GetConnectionByProtocol_def upd_conn_def Let_def usable_def)

text \<open>A closed pool still takes connections, and its total is no longer the number it holds.\<close>

lemma closed_pool_accepts:
  assumes "0 < MaxConnections (pool_cfg p)" "running p"
  shows "snd (AddConnection i now (ClosePool p)) = i"
    "TotalConnections (ClosePool p) = TotalConnections p \<and> map_len (connections (ClosePool p)) = 0"
  using assms by (auto simp: AddConnection_def ClosePool_def)

section \<open>Cleaning\<close>

lemma Remove_frame: "pool_cfg (RemoveConnection i p) = pool_cfg p" "conn_at (RemoveConnection i p) = conn_at p"
  "connections (RemoveConnection i p) = (connections p)(i := None)"
  by (auto simp: RemoveConnection_def removeFromProtocolMap_def Let_def split: option.split)

lemma fold_Remove:
  "conn_at (fold RemoveConnection ids p) = conn_at p"
  "connections (fold RemoveConnection ids p) = (\<lambda>i. if i \<in> set ids then None else connections p i)"
  by (induction ids arbitrary: p) (auto simp: Remove_frame fun_eq_iff)

text \<open>
  Cleaning removes only connections that are active and idle, never leaves fewer active ones
  than \<^verbatim>\<open>MinConnections\<close> unless there were fewer before, and stops short of removing all idle ones
  only at that minimum.
\<close>

lemma idle_cleaning_bounds:
  assumes "finite (dom (connections p))" "distinct ids" "set ids = dom (connections p)"
  shows "let q = cleanIdleConnections now ids p;
             idle = (\<lambda>p. {i. \<exists>a. active_conns p i = Some a \<and> IsIdle p now a}) in
    connections q \<subseteq>\<^sub>m connections p \<and> dom (connections p) - dom (connections q) \<subseteq> idle p \<and>
    int (map_len (active_conns q)) \<ge> min (int (map_len (active_conns p))) (MinConnections (pool_cfg p)) \<and>
    (idle q = {} \<or> int (map_len (active_conns q)) \<le> max 0 (MinConnections (pool_cfg p)) \<or> q = p)"
proof -
  let ?A = "active_conns p" let ?idle = "idle_ids now ids p" let ?max = "int (map_len ?A) - MinConnections (pool_cfg p)"
  let ?I = "\<lambda>p. {i. \<exists>a. active_conns p i = Some a \<and> IsIdle p now a}"
  have A: "finite (dom ?A)" using assms(1) by (simp add: active_conns_def)
  have sub: "dom ?A \<subseteq> dom (connections p)" unfolding active_conns_def by (rule dom_filter_map)
  have idle: "set ?idle = ?I p" "distinct ?idle" using assms(2,3) sub by (auto simp: idle_ids_def split: option.splits)
  show ?thesis
  proof (cases "?max > 0 \<and> ?idle \<noteq> []")
    case False
    then have "cleanIdleConnections now ids p = p" unfolding cleanIdleConnections_def Let_def by (simp only: False if_False)
    then show ?thesis by simp
  next
    case True
    define k where "k = nat (if int (length ?idle) > ?max then ?max else int (length ?idle))"
    define R where "R = set (take k ?idle)"
    let ?q = "cleanIdleConnections now ids p"
    have q: "?q = fold RemoveConnection (take k ?idle) p" unfolding cleanIdleConnections_def Let_def k_def using True by simp
    have R: "R \<subseteq> ?I p" using idle(1) set_take_subset unfolding R_def by fastforce
    have k: "k \<le> length ?idle" "int k \<le> ?max" using True by (auto simp: k_def)
    have cR: "card R = k" unfolding R_def using idle(2) k(1) by (simp add: distinct_card)
    have conns: "connections ?q = (\<lambda>i. if i \<in> R then None else connections p i)" "conn_at ?q = conn_at p"
      unfolding q R_def by (simp_all add: fold_Remove)
    have cfg: "pool_cfg ?q = pool_cfg p"
    proof -
      have "pool_cfg (fold RemoveConnection js p) = pool_cfg p" for js by (induction js arbitrary: p) (simp_all add: Remove_frame)
      then show ?thesis unfolding q .
    qed
    have act: "active_conns ?q = (\<lambda>i. if i \<in> R then None else ?A i)"
      unfolding active_conns_def conns by (auto simp: filter_map_def fun_eq_iff)
    then have "dom (active_conns ?q) = dom ?A - R" by (auto split: if_splits)
    moreover have "R \<subseteq> dom ?A" using R by auto
    ultimately have len: "map_len (active_conns ?q) = map_len ?A - k" "k \<le> map_len ?A"
      using A unfolding map_len_def cR[symmetric] by (simp_all add: card_Diff_subset card_mono finite_subset)
    have "?I ?q = ?I p - R" unfolding act IsIdle_def conns(2) cfg by (auto split: if_splits)
    moreover have "R = ?I p" if "k = length ?idle" using that idle(1) by (simp add: R_def)
    ultimately have last: "?I ?q = {} \<or> int (map_len (active_conns ?q)) \<le> max 0 (MinConnections (pool_cfg p))"
      using len k True by (cases "k = length ?idle") (auto simp: k_def)
    have "connections ?q \<subseteq>\<^sub>m connections p" unfolding conns map_le_def by (auto split: if_splits)
    moreover have "dom (connections p) - dom (connections ?q) \<subseteq> ?I p" using R unfolding conns by (auto split: if_splits)
    moreover have "int (map_len (active_conns ?q)) \<ge> min (int (map_len ?A)) (MinConnections (pool_cfg p))"
      using len k(2) by linarith
    ultimately show ?thesis using last unfolding Let_def by blast
  qed
qed

lemma idle_cleaning_bounds_witness:
  "let p = fst (AddConnection ''a'' 0 (NewPool (Some (DefaultPoolConfig\<lparr>MinConnections := 0\<rparr>)))) in
    connections (cleanIdleConnections (6 * minute) [''a''] p) \<subseteq>\<^sub>m connections p \<and>
    connections (cleanIdleConnections (6 * minute) [''a''] p) = Map.empty"
proof -
  define p where "p = fst (AddConnection ''a'' 0 (NewPool (Some (DefaultPoolConfig\<lparr>MinConnections := 0\<rparr>))))"
  have f: "connections p = [''a'' \<mapsto> 0]" "active_conns p = [''a'' \<mapsto> 0]" "IsIdle p (6 * minute) 0" "MinConnections (pool_cfg p) = 0"
    by (auto simp: p_def AddConnection_def NewPool_def DefaultPoolConfig_def active_conns_def filter_map_def fun_eq_iff IsIdle_def minute_def second_def)
  have d: "finite (dom (connections p))" "distinct [''a'']" "set [''a''] = dom (connections p)" by (simp_all add: f)
  have "idle_ids (6 * minute) [''a''] p = [''a'']" by (simp add: idle_ids_def f)
  then have "cleanIdleConnections (6 * minute) [''a''] p = RemoveConnection ''a'' p"
    by (simp add: cleanIdleConnections_def f Let_def map_len_def)
  then have "connections (cleanIdleConnections (6 * minute) [''a''] p) = Map.empty" by (simp add: Remove_frame f)
  with idle_cleaning_bounds[OF d, of "6 * minute"] show ?thesis unfolding Let_def p_def[symmetric] by blast
qed

end
