(* ===== verification/Goroutine_Pool.thy ===== *)
theory Goroutine_Pool
  imports Prelude Complex_Main
begin

text \<open>
  The goroutine pools of \<^verbatim>\<open>core/pool/goroutine_pool.go\<close> and \<^verbatim>\<open>core/pool/enhanced_pool.go\<close> as
  step relations: submitters, workers, the scaler and \<^verbatim>\<open>Shutdown\<close> interleave, a step is one
  operation on the channel, a counter or the mutex, and where a \<^verbatim>\<open>select\<close> has several ready cases
  any of them may be taken. Tasks are numbers; what they do is outside. The lemmas show the
  accounting of tasks and workers, and when a shutdown cannot end.
\<close>

section \<open>The optimised pool\<close>

text \<open>
  \<open>Recording\<close>: the task is done and the worker is about to take the mutex to add its time.
  \<open>Leaving\<close>: the worker has decided to exit and has not yet counted itself out.
\<close>

datatype worker = Waiting | Busy nat | Recording | Leaving | Gone

datatype phase = NotCalled | WaitingForWorkers | Finished

record GoroutinePoolConfig =
  MinWorkers :: int
  MaxWorkers :: int
  QueueSize :: nat
  ScaleUpThreshold :: rat

record GoroutinePool =
  gp_cfg :: GoroutinePoolConfig
  tasks :: "nat list"
  workers :: "worker list"
  workerCount :: int
  idleWorkers :: int
  locked :: bool
  cancelled :: bool
  gp_running :: bool
  shutdown :: phase
  TasksSubmitted :: int
  TasksCompleted :: int
  TasksRejected :: int
  accepted :: "nat list"     \<comment> \<open>the tasks accepted, in order\<close>
  taken :: "nat list"        \<comment> \<open>the tasks a worker has taken, in order\<close>

definition DefaultGoroutinePoolConfig :: GoroutinePoolConfig where
  "DefaultGoroutinePoolConfig = \<lparr>MinWorkers = 5, MaxWorkers = 100, QueueSize = 1000, ScaleUpThreshold = 8 / 10\<rparr>"

definition addWorker :: "GoroutinePool \<Rightarrow> GoroutinePool" where
  "addWorker p = p\<lparr>workers := workers p @ [Waiting], workerCount := workerCount p + 1, idleWorkers := idleWorkers p + 1\<rparr>"

definition NewGoroutinePool :: "GoroutinePoolConfig option \<Rightarrow> GoroutinePool" where
  "NewGoroutinePool c =
     (let c = (case c of None \<Rightarrow> DefaultGoroutinePoolConfig | Some c \<Rightarrow> c)
      in (addWorker ^^ nat (MinWorkers c)) \<lparr>gp_cfg = c, tasks = [], workers = [], workerCount = 0, idleWorkers = 0,
           locked = False, cancelled = False, gp_running = True, shutdown = NotCalled, TasksSubmitted = 0,
           TasksCompleted = 0, TasksRejected = 0, accepted = [], taken = []\<rparr>)"

text \<open>\<^verbatim>\<open>Submit\<close> reads \<^verbatim>\<open>running\<close> and offers the task to the channel without waiting.\<close>

definition Submit :: "nat \<Rightarrow> GoroutinePool \<Rightarrow> GoroutinePool \<times> bool" where
  "Submit t p =
     (if \<not> gp_running p then (p\<lparr>TasksRejected := TasksRejected p + 1\<rparr>, False)
      else if length (tasks p) < QueueSize (gp_cfg p)
      then (p\<lparr>tasks := tasks p @ [t], accepted := accepted p @ [t], TasksSubmitted := TasksSubmitted p + 1\<rparr>, True)
      else (p\<lparr>TasksRejected := TasksRejected p + 1\<rparr>, False))"

definition set_worker :: "nat \<Rightarrow> worker \<Rightarrow> GoroutinePool \<Rightarrow> GoroutinePool" where
  "set_worker i w p = p\<lparr>workers := (workers p)[i := w]\<rparr>"

text \<open>
  One action of the goroutine of worker \<open>i\<close>: taking a task, finishing it, recording its time
  (only while nobody else holds the mutex), timing out, seeing the cancelled context, leaving.
\<close>

datatype action = Take | Finish | Record | TimeOut | Quit | Leave

definition worker_act :: "nat \<Rightarrow> action \<Rightarrow> GoroutinePool \<Rightarrow> GoroutinePool option" where
  "worker_act i act p = (case (act, workers p ! i) of
     (Take, Waiting) \<Rightarrow> (case tasks p of [] \<Rightarrow> None
       | t # ts \<Rightarrow> Some (set_worker i (Busy t) (p\<lparr>tasks := ts, idleWorkers := idleWorkers p - 1, taken := taken p @ [t]\<rparr>)))
   | (Finish, Busy t) \<Rightarrow> Some (set_worker i Recording (p\<lparr>TasksCompleted := TasksCompleted p + 1\<rparr>))
   | (Record, Recording) \<Rightarrow> if locked p then None else Some (set_worker i Waiting (p\<lparr>idleWorkers := idleWorkers p + 1\<rparr>))
   | (TimeOut, Waiting) \<Rightarrow> if workerCount p > MinWorkers (gp_cfg p)
       then Some (set_worker i Leaving (p\<lparr>idleWorkers := idleWorkers p - 1\<rparr>)) else Some p
   | (Quit, Waiting) \<Rightarrow> if cancelled p then Some (set_worker i Leaving (p\<lparr>idleWorkers := idleWorkers p - 1\<rparr>)) else None
   | (Leave, Leaving) \<Rightarrow> Some (set_worker i Gone (p\<lparr>workerCount := workerCount p - 1\<rparr>))
   | _ \<Rightarrow> None)"

text \<open>\<open>a / b > t\<close> on \<^verbatim>\<open>float64\<close> for \<open>b \<ge> 0\<close>, where a division by zero is infinite or not a number.\<close>

definition usage_above :: "int \<Rightarrow> int \<Rightarrow> rat \<Rightarrow> bool" where
  "usage_above a b t \<longleftrightarrow> (if b = 0 then a > 0 else of_int a / of_int b > t)"

definition scale_count :: "int \<Rightarrow> int \<Rightarrow> int" where
  "scale_count mx wc = (let n = \<lfloor>(of_int (mx - wc) :: rat) * (2 / 10)\<rfloor>; n = (if n < 1 then 1 else n) in if n > 10 then 10 else n)"

definition performAutoScale :: "GoroutinePool \<Rightarrow> GoroutinePool" where
  "performAutoScale p =
     (if (usage_above (int (length (tasks p))) (int (QueueSize (gp_cfg p))) (ScaleUpThreshold (gp_cfg p)) \<or>
          usage_above (workerCount p - idleWorkers p) (workerCount p) (ScaleUpThreshold (gp_cfg p))) \<and>
         workerCount p < MaxWorkers (gp_cfg p)
      then (addWorker ^^ nat (scale_count (MaxWorkers (gp_cfg p)) (workerCount p))) p else p)"

text \<open>\<^verbatim>\<open>Shutdown\<close> takes the mutex, keeps it while it waits for the workers, and returns then.\<close>

definition shutdown_begin :: "GoroutinePool \<Rightarrow> GoroutinePool option" where
  "shutdown_begin p = (if locked p then None
     else if \<not> gp_running p then Some p
     else Some (p\<lparr>locked := True, gp_running := False, cancelled := True, shutdown := WaitingForWorkers\<rparr>))"

definition shutdown_end :: "GoroutinePool \<Rightarrow> GoroutinePool option" where
  "shutdown_end p = (if shutdown p = WaitingForWorkers \<and> (\<forall>w\<in>set (workers p). w = Gone)
     then Some (p\<lparr>locked := False, shutdown := Finished\<rparr>) else None)"

inductive gp_step :: "GoroutinePool \<Rightarrow> GoroutinePool \<Rightarrow> bool" where
  submit: "gp_step p (fst (Submit t p))"
| act: "i < length (workers p) \<Longrightarrow> worker_act i a p = Some p' \<Longrightarrow> gp_step p p'"
| scale: "gp_step p (performAutoScale p)"
| begins: "shutdown_begin p = Some p' \<Longrightarrow> gp_step p p'"
| ends: "shutdown_end p = Some p' \<Longrightarrow> gp_step p p'"

inductive_cases gp_stepE: "gp_step p p'"

section \<open>Accounting\<close>

definition cnt :: "(worker \<Rightarrow> bool) \<Rightarrow> worker list \<Rightarrow> int" where "cnt P ws = int (length (filter P ws))"

definition alive :: "worker \<Rightarrow> bool" where "alive w \<longleftrightarrow> w \<noteq> Gone"
definition busy :: "worker \<Rightarrow> bool" where "busy w \<longleftrightarrow> (\<exists>t. w = Busy t)"
definition idle :: "worker \<Rightarrow> bool" where "idle w \<longleftrightarrow> w = Waiting"

lemmas worker_kinds = alive_def busy_def idle_def

lemma cnt_append: "cnt P (xs @ ys) = cnt P xs + cnt P ys" by (simp add: cnt_def)

lemma cnt_replicate: "cnt P (replicate n w) = (if P w then int n else 0)" by (simp add: cnt_def)

lemma cnt_update:
  "i < length ws \<Longrightarrow> cnt P (ws[i := w]) = cnt P ws - (if P (ws ! i) then 1 else 0) + (if P w then 1 else 0)"
proof -
  assume i: "i < length ws"
  have "cnt P (ws[i := w]) = cnt P (take i ws) + (if P w then 1 else 0) + cnt P (drop (Suc i) ws)"
    using i by (simp add: upd_conv_take_nth_drop cnt_def)
  moreover have "cnt P ws = cnt P (take i ws) + (if P (ws ! i) then 1 else 0) + cnt P (drop (Suc i) ws)"
    by (subst id_take_nth_drop[OF i]) (simp add: cnt_def)
  ultimately show ?thesis by simp
qed

definition gp_inv :: "GoroutinePool \<Rightarrow> bool" where
  "gp_inv p \<longleftrightarrow> workerCount p = cnt alive (workers p) \<and> idleWorkers p = cnt idle (workers p) \<and>
     accepted p = taken p @ tasks p \<and> length (tasks p) \<le> QueueSize (gp_cfg p) \<and>
     workerCount p \<le> max (max 0 (MinWorkers (gp_cfg p))) (MaxWorkers (gp_cfg p)) \<and>
     TasksSubmitted p = int (length (accepted p)) \<and> TasksCompleted p + cnt busy (workers p) = int (length (taken p)) \<and>
     (cancelled p \<longleftrightarrow> shutdown p \<noteq> NotCalled) \<and> (locked p \<longleftrightarrow> shutdown p = WaitingForWorkers) \<and> (gp_running p \<longleftrightarrow> shutdown p = NotCalled)"

lemma worker_act_cases:
  assumes "worker_act i a p = Some p'"
  obtains (taken) t ts where "workers p ! i = Waiting" "tasks p = t # ts"
      "p' = set_worker i (Busy t) (p\<lparr>tasks := ts, idleWorkers := idleWorkers p - 1, taken := taken p @ [t]\<rparr>)"
  | (finished) t where "workers p ! i = Busy t" "p' = set_worker i Recording (p\<lparr>TasksCompleted := TasksCompleted p + 1\<rparr>)"
  | (recorded) "workers p ! i = Recording" "\<not> locked p" "p' = set_worker i Waiting (p\<lparr>idleWorkers := idleWorkers p + 1\<rparr>)"
  | (stays) "p' = p"
  | (exits) "workers p ! i = Waiting" "p' = set_worker i Leaving (p\<lparr>idleWorkers := idleWorkers p - 1\<rparr>)"
  | (left) "workers p ! i = Leaving" "p' = set_worker i Gone (p\<lparr>workerCount := workerCount p - 1\<rparr>)"
proof (cases a)
  case Take
  with assms show thesis by (cases "workers p ! i"; cases "tasks p") (auto simp: worker_act_def intro: that(1))
next
  case Finish
  with assms show thesis by (cases "workers p ! i") (auto simp: worker_act_def intro: that(2))
next
  case Record
  with assms show thesis by (cases "workers p ! i") (auto simp: worker_act_def intro: that(3) split: if_splits)
next
  case TimeOut
  with assms show thesis by (cases "workers p ! i") (auto simp: worker_act_def intro: that(4) that(5) split: if_splits)
next
  case Quit
  with assms show thesis by (cases "workers p ! i") (auto simp: worker_act_def intro: that(5) split: if_splits)
next
  case Leave
  with assms show thesis by (cases "workers p ! i") (auto simp: worker_act_def intro: that(6))
qed

lemma addWorkers:
  "workers ((addWorker ^^ n) p) = workers p @ replicate n Waiting"
  "workerCount ((addWorker ^^ n) p) = workerCount p + int n"
  "idleWorkers ((addWorker ^^ n) p) = idleWorkers p + int n"
  "gp_cfg ((addWorker ^^ n) p) = gp_cfg p" "tasks ((addWorker ^^ n) p) = tasks p" "accepted ((addWorker ^^ n) p) = accepted p"
  "taken ((addWorker ^^ n) p) = taken p" "locked ((addWorker ^^ n) p) = locked p" "cancelled ((addWorker ^^ n) p) = cancelled p"
  "gp_running ((addWorker ^^ n) p) = gp_running p" "shutdown ((addWorker ^^ n) p) = shutdown p"
  "TasksSubmitted ((addWorker ^^ n) p) = TasksSubmitted p" "TasksCompleted ((addWorker ^^ n) p) = TasksCompleted p"
  by (induction n) (simp_all add: addWorker_def replicate_append_same)

lemma gp_inv_New: "gp_inv (NewGoroutinePool c)"
  by (auto simp: NewGoroutinePool_def gp_inv_def addWorkers Let_def cnt_replicate worker_kinds)

lemma scale_count_fits: "wc < mx \<Longrightarrow> 1 \<le> scale_count mx wc \<and> scale_count mx wc \<le> mx - wc"
proof -
  assume "wc < mx"
  then have "(of_int (mx - wc) :: rat) * (2 / 10) \<le> of_int (mx - wc)" by simp
  then have "\<lfloor>(of_int (mx - wc) :: rat) * (2 / 10)\<rfloor> \<le> mx - wc" by (simp add: floor_le_iff)
  with \<open>wc < mx\<close> show ?thesis by (auto simp: scale_count_def Let_def)
qed

lemma gp_inv_act:
  assumes "gp_inv p" "i < length (workers p)" "worker_act i a p = Some p'"
  shows "gp_inv p'"
  using assms(3)
proof (cases rule: worker_act_cases)
qed (use assms(1,2) in \<open>simp_all add: gp_inv_def set_worker_def cnt_update worker_kinds\<close>)

lemma gp_inv_step: "gp_step p p' \<Longrightarrow> gp_inv p \<Longrightarrow> gp_inv p'"
proof (induction rule: gp_step.induct)
  case (submit p t)
  then show ?case by (auto simp: Submit_def gp_inv_def)
next
  case (act i p a p')
  then show ?case by (blast intro: gp_inv_act)
next
  case (scale p)
  show ?case
  proof (cases "performAutoScale p = p")
    case False
    then have lt: "workerCount p < MaxWorkers (gp_cfg p)" by (auto simp: performAutoScale_def split: if_splits)
    let ?n = "nat (scale_count (MaxWorkers (gp_cfg p)) (workerCount p))"
    have "performAutoScale p = (addWorker ^^ ?n) p" using False by (auto simp: performAutoScale_def split: if_splits)
    with scale scale_count_fits[OF lt] show ?thesis by (auto simp: gp_inv_def addWorkers cnt_append cnt_replicate worker_kinds)
  qed (use scale in simp)
qed (auto simp: shutdown_begin_def shutdown_end_def gp_inv_def split: if_splits)

lemma gp_reachable_inv: "gp_step\<^sup>*\<^sup>* (NewGoroutinePool c) p \<Longrightarrow> gp_inv p"
  by (induction rule: rtranclp_induct) (auto intro: gp_inv_New gp_inv_step)


section \<open>Submission with a timeout and the readers\<close>

text \<open>
  \<^verbatim>\<open>SubmitWithTimeout\<close> at the moment its \<^verbatim>\<open>select\<close> goes on: \<open>fires\<close> says that it takes the timer; \<open>None\<close>: it
  still waits. The pool may have been shut down since \<^verbatim>\<open>running\<close> was read, as \<open>was_running\<close>.
\<close>

definition SubmitWithTimeout :: "bool \<Rightarrow> bool \<Rightarrow> nat \<Rightarrow> GoroutinePool \<Rightarrow> (GoroutinePool \<times> bool) option" where
  "SubmitWithTimeout was_running fires t p =
     (if \<not> was_running \<or> fires then Some (p\<lparr>TasksRejected := TasksRejected p + 1\<rparr>, False)
      else if length (tasks p) < QueueSize (gp_cfg p)
      then Some (p\<lparr>tasks := tasks p @ [t], accepted := accepted p @ [t], TasksSubmitted := TasksSubmitted p + 1\<rparr>, True)
      else None)"

lemma gp_inv_SubmitWithTimeout:
  "gp_inv p \<Longrightarrow> SubmitWithTimeout was fires t p = Some (p', ok) \<Longrightarrow> gp_inv p' \<and> (ok \<longleftrightarrow> accepted p' = accepted p @ [t])"
  by (auto simp: SubmitWithTimeout_def gp_inv_def split: if_splits)

text \<open>A caller that read \<^verbatim>\<open>running\<close> in time is told that its task was accepted by a pool without workers.\<close>

lemma accepted_after_shutdown:
  assumes "shutdown p = Finished" "length (tasks p) < QueueSize (gp_cfg p)" "\<forall>w\<in>set (workers p). w = Gone"
  shows "\<exists>p'. SubmitWithTimeout True False t p = Some (p', True) \<and> (\<forall>i a. i < length (workers p') \<longrightarrow> worker_act i a p' = None)"
proof -
  let ?p = "p\<lparr>tasks := tasks p @ [t], accepted := accepted p @ [t], TasksSubmitted := TasksSubmitted p + 1\<rparr>"
  have "worker_act i a ?p = None" if "i < length (workers ?p)" for i a
  proof -
    have "workers ?p ! i = Gone" using that assms(3) by simp
    then show ?thesis unfolding worker_act_def by (cases a) simp_all
  qed
  with assms(2) show ?thesis unfolding SubmitWithTimeout_def by simp
qed

definition GetQueueSize :: "GoroutinePool \<Rightarrow> int" where "GetQueueSize p = int (length (tasks p))"

definition GetWorkerCount :: "GoroutinePool \<Rightarrow> int" where "GetWorkerCount p = workerCount p"

text \<open>Workers, idle workers, queue, and tasks submitted, completed and rejected.\<close>

definition gp_GetMetrics :: "GoroutinePool \<Rightarrow> int \<times> int \<times> int \<times> int \<times> int \<times> int" where
  "gp_GetMetrics p = (workerCount p, idleWorkers p, int (length (tasks p)), TasksSubmitted p, TasksCompleted p, TasksRejected p)"

section \<open>Shutdown\<close>

text \<open>While \<^verbatim>\<open>Shutdown\<close> waits, a worker with a task gets as far as the mutex and no further.\<close>

definition stuck :: "nat \<Rightarrow> GoroutinePool \<Rightarrow> bool" where
  "stuck i p \<longleftrightarrow> i < length (workers p) \<and> locked p \<and> \<not> gp_running p \<and> shutdown p = WaitingForWorkers \<and>
     (workers p ! i = Recording \<or> (\<exists>t. workers p ! i = Busy t))"

lemma stuck_act:
  assumes "stuck i p" "j < length (workers p)" "worker_act j a p = Some p'"
  shows "stuck i p'"
  using assms(3)
proof (cases rule: worker_act_cases)
qed (use assms(1,2) in \<open>auto simp: stuck_def set_worker_def nth_list_update\<close>)

lemma stuck_step: "gp_step p p' \<Longrightarrow> stuck i p \<Longrightarrow> stuck i p'"
proof (induction rule: gp_step.induct)
  case (act j p a p')
  then show ?case by (blast intro: stuck_act)
next
  case (scale p)
  then show ?case by (auto simp: performAutoScale_def stuck_def addWorkers nth_append)
next
  case (ends p p')
  then have "workers p ! i = Gone" by (auto simp: shutdown_end_def stuck_def split: if_splits)
  with ends show ?case by (auto simp: stuck_def)
qed (auto simp: Submit_def shutdown_begin_def stuck_def)

text \<open>
  C22. If \<^verbatim>\<open>Shutdown\<close> is called while some worker runs a task, it never returns, whatever happens
  next: it keeps the mutex, which that worker needs to record the time of its task before it can
  exit.
\<close>

theorem shutdown_deadlocks_with_busy_worker:
  assumes "gp_step\<^sup>*\<^sup>* (NewGoroutinePool c) p" "i < length (workers p)" "workers p ! i = Busy t"
    and "shutdown p = NotCalled" "shutdown_begin p = Some p1" "gp_step\<^sup>*\<^sup>* p1 p2"
  shows "shutdown p2 = WaitingForWorkers \<and> locked p2 \<and> (workers p2 ! i = Recording \<or> (\<exists>t. workers p2 ! i = Busy t))"
proof -
  have "stuck i p1" using gp_reachable_inv[OF assms(1)] assms(2-5)
    by (auto simp: shutdown_begin_def stuck_def gp_inv_def split: if_splits)
  with assms(6) have "stuck i p2" by (induction rule: rtranclp_induct) (auto intro: stuck_step)
  then show ?thesis by (simp add: stuck_def)
qed

text \<open>Runs of worker actions, for the examples.\<close>

fun run_acts :: "(nat \<times> action) list \<Rightarrow> GoroutinePool \<Rightarrow> GoroutinePool option" where
  "run_acts [] p = Some p"
| "run_acts ((i, a) # as) p = (if i < length (workers p) then Option.bind (worker_act i a p) (run_acts as) else None)"

lemma run_acts_reachable: "run_acts as p = Some p' \<Longrightarrow> gp_step\<^sup>*\<^sup>* p p'"
proof (induction as p rule: run_acts.induct)
  case (2 i a as p)
  then obtain p1 where "i < length (workers p)" "worker_act i a p = Some p1" "run_acts as p1 = Some p'"
    by (auto split: if_splits bind_splits)
  with 2(1) show ?case by (meson converse_rtranclp_into_rtranclp gp_step.act)
qed simp

definition demo_cfg :: GoroutinePoolConfig where
  "demo_cfg = \<lparr>MinWorkers = 1, MaxWorkers = 2, QueueSize = 1, ScaleUpThreshold = 8 / 10\<rparr>"

definition demo_pool :: GoroutinePool where "demo_pool = fst (Submit 7 (NewGoroutinePool (Some demo_cfg)))"

lemma demo_pool_reachable: "gp_step\<^sup>*\<^sup>* (NewGoroutinePool (Some demo_cfg)) demo_pool"
  unfolding demo_pool_def by (auto intro: gp_step.submit)

lemma demo_pool_eq: "demo_pool = \<lparr>gp_cfg = demo_cfg, tasks = [7], workers = [Waiting], workerCount = 1, idleWorkers = 1,
    locked = False, cancelled = False, gp_running = True, shutdown = NotCalled, TasksSubmitted = 1,
    TasksCompleted = 0, TasksRejected = 0, accepted = [7], taken = []\<rparr>"
  by (simp add: demo_pool_def Submit_def NewGoroutinePool_def demo_cfg_def addWorker_def Let_def)


theorem shutdown_deadlocks_with_busy_worker_witness:
  "\<exists>p p1 p2. run_acts [(0, Take)] demo_pool = Some p \<and> shutdown_begin p = Some p1 \<and> run_acts [(0, Finish)] p1 = Some p2 \<and>
     shutdown p2 = WaitingForWorkers \<and> worker_act 0 Record p2 = None \<and> shutdown_end p2 = None"
proof -
  obtain p where p: "run_acts [(0, Take)] demo_pool = Some p" "workers p = [Busy 7]" "shutdown p = NotCalled" "\<not> locked p" "gp_running p"
    by (simp add: demo_pool_eq worker_act_def set_worker_def)
  obtain p1 where p1: "shutdown_begin p = Some p1" "workers p1 = [Busy 7]" using p by (simp add: shutdown_begin_def)
  obtain p2 where p2: "run_acts [(0, Finish)] p1 = Some p2" "workers p2 = [Recording]" using p1 by (simp add: worker_act_def set_worker_def)
  have "gp_step\<^sup>*\<^sup>* (NewGoroutinePool (Some demo_cfg)) p" using demo_pool_reachable run_acts_reachable[OF p(1)] by simp
  from shutdown_deadlocks_with_busy_worker[OF this _ _ p(3) p1(1) run_acts_reachable[OF p2(1)], of 0 7] p(2)
  have "shutdown p2 = WaitingForWorkers" "locked p2" by simp_all
  with p(1) p1(1) p2 show ?thesis by (simp add: worker_act_def shutdown_end_def)
qed

text \<open>
  The test of the worker count and the exit are not one action: two idle workers that time out
  together both leave, and the pool falls below its minimum, here to none at all.
\<close>

lemma pool_below_minimum:
  "\<exists>p. gp_step\<^sup>*\<^sup>* (NewGoroutinePool (Some demo_cfg)) p \<and> workerCount p = 0 \<and> MinWorkers (gp_cfg p) = 1 \<and> \<not> cancelled p"
proof -
  let ?p = "performAutoScale demo_pool"
  have sc: "scale_count 2 1 = 1" by (simp add: scale_count_def Let_def)
  have p: "?p = \<lparr>gp_cfg = demo_cfg, tasks = [7], workers = [Waiting, Waiting], workerCount = 2, idleWorkers = 2,
    locked = False, cancelled = False, gp_running = True, shutdown = NotCalled, TasksSubmitted = 1,
    TasksCompleted = 0, TasksRejected = 0, accepted = [7], taken = []\<rparr>"
    using sc by (simp add: performAutoScale_def demo_pool_eq demo_cfg_def usage_above_def addWorker_def)
  have "\<exists>q. run_acts [(0, Take), (0, Finish), (0, Record), (0, TimeOut), (1, TimeOut), (0, Leave), (1, Leave)] ?p = Some q \<and>
      workerCount q = 0 \<and> MinWorkers (gp_cfg q) = 1 \<and> \<not> cancelled q"
    unfolding p by (simp add: worker_act_def set_worker_def demo_cfg_def)
  moreover have "gp_step\<^sup>*\<^sup>* (NewGoroutinePool (Some demo_cfg)) ?p"
    using demo_pool_reachable gp_step.scale by (meson rtranclp.rtrancl_into_rtrancl)
  ultimately show ?thesis using run_acts_reachable by (meson rtranclp_trans)
qed

section \<open>The simple pool\<close>

record SimplePool =
  sp_tasks :: "nat list"
  sp_cap :: nat
  sp_workers :: "worker list"
  sp_cancelled :: bool
  sp_temporary :: "nat list"    \<comment> \<open>tasks running in goroutines of their own\<close>
  sp_done :: "nat list"

definition NewSimplePool :: "int \<Rightarrow> int \<Rightarrow> SimplePool" where
  "NewSimplePool n q = \<lparr>sp_tasks = [], sp_cap = nat (if q \<le> 0 then 100 else q),
     sp_workers = replicate (nat (if n \<le> 0 then 1 else n)) Waiting, sp_cancelled = False, sp_temporary = [], sp_done = []\<rparr>"

text \<open>
  \<^verbatim>\<open>Submit\<close> takes any ready case, room in the queue or a cancelled context, and starts a temporary
  goroutine when there is none.
\<close>

definition SimpleSubmit :: "nat \<Rightarrow> SimplePool \<Rightarrow> SimplePool set" where
  "SimpleSubmit t p =
     (if length (sp_tasks p) < sp_cap p then {p\<lparr>sp_tasks := sp_tasks p @ [t]\<rparr>} else {}) \<union>
     (if sp_cancelled p then {p} else {}) \<union>
     (if \<not> length (sp_tasks p) < sp_cap p \<and> \<not> sp_cancelled p then {p\<lparr>sp_temporary := sp_temporary p @ [t]\<rparr>} else {})"

inductive sp_step :: "SimplePool \<Rightarrow> SimplePool \<Rightarrow> bool" where
  submit: "p' \<in> SimpleSubmit t p \<Longrightarrow> sp_step p p'"
| take: "i < length (sp_workers p) \<Longrightarrow> sp_workers p ! i = Waiting \<Longrightarrow> sp_tasks p = t # ts \<Longrightarrow>
    sp_step p (p\<lparr>sp_tasks := ts, sp_workers := (sp_workers p)[i := Busy t]\<rparr>)"
| finish: "i < length (sp_workers p) \<Longrightarrow> sp_workers p ! i = Busy t \<Longrightarrow>
    sp_step p (p\<lparr>sp_done := sp_done p @ [t], sp_workers := (sp_workers p)[i := Waiting]\<rparr>)"
| temporary: "sp_temporary p = us @ t # vs \<Longrightarrow> sp_step p (p\<lparr>sp_temporary := us @ vs, sp_done := sp_done p @ [t]\<rparr>)"
| quit: "i < length (sp_workers p) \<Longrightarrow> sp_workers p ! i = Waiting \<Longrightarrow> sp_cancelled p \<Longrightarrow>
    sp_step p (p\<lparr>sp_workers := (sp_workers p)[i := Gone]\<rparr>)"
| cancel: "sp_step p (p\<lparr>sp_cancelled := True\<rparr>)"

text \<open>\<^verbatim>\<open>Shutdown\<close> cancels and returns when the workers are gone.\<close>

definition SimpleShutdown_returns :: "SimplePool \<Rightarrow> bool" where
  "SimpleShutdown_returns p \<longleftrightarrow> sp_cancelled p \<and> (\<forall>w\<in>set (sp_workers p). w = Gone)"

text \<open>It can return with tasks in the queue and temporary goroutines still running.\<close>

lemma simple_shutdown_abandons_tasks:
  "\<exists>p. sp_step\<^sup>*\<^sup>* (NewSimplePool 1 1) p \<and> SimpleShutdown_returns p \<and> sp_tasks p = [1] \<and> sp_temporary p = [2] \<and> sp_done p = []"
proof -
  let ?p0 = "NewSimplePool 1 1" let ?p1 = "?p0\<lparr>sp_tasks := [1]\<rparr>" let ?p2 = "?p1\<lparr>sp_temporary := [2]\<rparr>"
  let ?p3 = "?p2\<lparr>sp_cancelled := True\<rparr>" let ?p4 = "?p3\<lparr>sp_workers := (sp_workers ?p3)[0 := Gone]\<rparr>"
  have "sp_step ?p0 ?p1" by (rule sp_step.submit[of _ 1]) (simp add: SimpleSubmit_def NewSimplePool_def)
  moreover have "sp_step ?p1 ?p2" by (rule sp_step.submit[of _ 2]) (simp add: SimpleSubmit_def NewSimplePool_def)
  moreover have "sp_step ?p2 ?p3" by (rule sp_step.cancel)
  moreover have "sp_step ?p3 ?p4" by (rule sp_step.quit) (simp_all add: NewSimplePool_def)
  ultimately have "sp_step\<^sup>*\<^sup>* ?p0 ?p4" by (meson converse_rtranclp_into_rtranclp rtranclp.rtrancl_refl)
  then show ?thesis by (intro exI[of _ ?p4]) (simp add: SimpleShutdown_returns_def NewSimplePool_def)
qed

end
