(* ===== verification/Websocket_Batch.thy ===== *)
theory Websocket_Batch
  imports Prelude Complex_Main "HOL-Library.Multiset"
begin

text \<open>
  The optimised WebSocket handler of \<^verbatim>\<open>core/protocols/websocket/batch_processor.go\<close>: the rate
  limiter, and one connection with its goroutines (reader, sender, batch and heartbeat timers, the
  closing one) as a step relation, where a step is one operation on the channel, on the lock of the
  connection or on the socket. The messages, the JSON package and the outcome of each socket write
  are parameters. The lemmas show that the limiter is a sliding window, where every message goes,
  and when a batch is held back.
\<close>

section \<open>The rate limiter\<close>

record RateLimiter =
  limit :: int
  rl_window :: duration
  requests :: "time list"

text \<open>\<^verbatim>\<open>make\<close> panics on a negative capacity.\<close>

definition NewRateLimiter :: "int \<Rightarrow> duration \<Rightarrow> RateLimiter option" where
  "NewRateLimiter l w = (if l < 0 then None else Some \<lparr>limit = l, rl_window = w, requests = []\<rparr>)"

definition Allow :: "time \<Rightarrow> RateLimiter \<Rightarrow> RateLimiter \<times> bool" where
  "Allow now rl =
     (let rs = dropWhile (\<lambda>t. t < now - rl_window rl) (requests rl)
      in if int (length rs) \<ge> limit rl then (rl\<lparr>requests := rs\<rparr>, False)
         else (rl\<lparr>requests := rs @ [now]\<rparr>, True))"

section \<open>Configuration and state\<close>

record WebSocketConfig =
  MaxConnections :: int
  ConnectionTimeout :: duration
  HeartbeatInterval :: duration
  MessageBufferSize :: int
  EnableBatching :: bool
  BatchSize :: int
  BatchTimeout :: duration
  EnableRateLimit :: bool
  RateLimit :: int
  RateLimitWindow :: duration

definition DefaultOptimizedWebSocketConfig :: WebSocketConfig where
  "DefaultOptimizedWebSocketConfig = \<lparr>MaxConnections = 10000, ConnectionTimeout = 30 * second, HeartbeatInterval = 30 * second,
     MessageBufferSize = 1000, EnableBatching = True, BatchSize = 100, BatchTimeout = 10 * millisecond,
     EnableRateLimit = True, RateLimit = 1000, RateLimitWindow = minute\<rparr>"

record WebSocketMetrics =
  wm_ActiveConnections :: int
  wm_TotalConnections :: int
  wm_ConnectionErrors :: int
  wm_MessagesSent :: int
  wm_MessagesReceived :: int
  wm_MessageErrors :: int
  wm_BytesTransferred :: int
  wm_BatchesSent :: int
  wm_RateLimitRejects :: int
  wm_ErrorRate :: rat
  wm_BatchEfficiency :: rat
  wm_Throughput :: rat

definition emptyMetrics :: WebSocketMetrics where
  "emptyMetrics = \<lparr>wm_ActiveConnections = 0, wm_TotalConnections = 0, wm_ConnectionErrors = 0, wm_MessagesSent = 0,
     wm_MessagesReceived = 0, wm_MessageErrors = 0, wm_BytesTransferred = 0, wm_BatchesSent = 0, wm_RateLimitRejects = 0,
     wm_ErrorRate = 0, wm_BatchEfficiency = 0, wm_Throughput = 0\<rparr>"

text \<open>
  A flush in progress: about to take the batch, writing the rest of what it took, finished. The
  sender waits for a message, has taken one, is flushing, is writing one directly, or has left; the
  closing goroutine flushes and then removes the connection.
\<close>

datatype flush = Starting | Sending "bytes list" | Finished

datatype sender = Waiting | Got bytes | Flushing flush | Direct bytes | Exited

datatype closer = NotClosing | CloseFlush flush | Removed

record OptimizedConnection =
  oc_id :: string
  lastActivity :: time
  heartbeatTimer :: bool
  messageBuffer :: "bytes list"
  batchBuffer :: "bytes list"
  batchTimer :: "bool option"
  rateLimit :: "RateLimiter option"
  oc_MessagesSent :: int
  oc_MessagesReceived :: int
  oc_BytesTransferred :: int
  oc_closed :: bool
  reading :: bool
  sender :: sender
  flushes :: "flush list"
  closer :: closer
  accepted :: "bytes list"   \<comment> \<open>the messages put on the channel, in order\<close>
  wire :: "bytes list"       \<comment> \<open>the messages written to the socket, in order\<close>
  failed :: "bytes list"     \<comment> \<open>the messages whose write failed\<close>
  dropped :: "bytes list"    \<comment> \<open>the messages taken from the channel after the close\<close>

type_synonym ws = "WebSocketMetrics \<times> OptimizedConnection"

text \<open>
  \<^verbatim>\<open>createOptimizedConnection\<close>: both timers are armed (\<open>batchTimer\<close> is \<open>None\<close> without batching).
  The identifier is a parameter, the time in nanoseconds in decimal.
\<close>

definition createOptimizedConnection :: "WebSocketConfig \<Rightarrow> string \<Rightarrow> time \<Rightarrow> OptimizedConnection option" where
  "createOptimizedConnection cfg i now =
     (if MessageBufferSize cfg < 0 \<or> BatchSize cfg < 0 then None
      else map_option (\<lambda>rl. \<lparr>oc_id = i, lastActivity = now, heartbeatTimer = True, messageBuffer = [], batchBuffer = [],
           batchTimer = (if EnableBatching cfg then Some True else None), rateLimit = rl,
           oc_MessagesSent = 0, oc_MessagesReceived = 0, oc_BytesTransferred = 0, oc_closed = False, reading = True,
           sender = Waiting, flushes = [], closer = NotClosing, accepted = [], wire = [], failed = [], dropped = []\<rparr>)
        (if EnableRateLimit cfg then map_option Some (NewRateLimiter (RateLimit cfg) (RateLimitWindow cfg)) else Some None))"

text \<open>\<^verbatim>\<open>registerConnection\<close>: its effect on the counters.\<close>

definition registerConnection :: "WebSocketMetrics \<Rightarrow> WebSocketMetrics" where
  "registerConnection m = m\<lparr>wm_ActiveConnections := wm_ActiveConnections m + 1, wm_TotalConnections := wm_TotalConnections m + 1\<rparr>"

section \<open>Sending\<close>

text \<open>A positive \<^verbatim>\<open>MessageBufferSize\<close> makes the channel a queue.\<close>

definition sendMessage :: "WebSocketConfig \<Rightarrow> bytes \<Rightarrow> ws \<Rightarrow> ws" where
  "sendMessage cfg data s = (case s of (m, c) \<Rightarrow>
     if oc_closed c then (m, c)
     else if int (length (messageBuffer c)) < MessageBufferSize cfg
     then (m, c\<lparr>messageBuffer := messageBuffer c @ [data], accepted := accepted c @ [data]\<rparr>)
     else (m\<lparr>wm_MessageErrors := wm_MessageErrors m + 1\<rparr>, c))"

definition sendDirectly :: "bool \<Rightarrow> bytes \<Rightarrow> ws \<Rightarrow> ws" where
  "sendDirectly ok data s = (case s of (m, c) \<Rightarrow>
     if \<not> ok then (m\<lparr>wm_MessageErrors := wm_MessageErrors m + 1\<rparr>, c\<lparr>failed := failed c @ [data]\<rparr>)
     else (m\<lparr>wm_MessagesSent := wm_MessagesSent m + 1, wm_BytesTransferred := wm_BytesTransferred m + int (length data)\<rparr>,
           c\<lparr>wire := wire c @ [data], oc_MessagesSent := oc_MessagesSent c + 1,
             oc_BytesTransferred := oc_BytesTransferred c + int (length data)\<rparr>))"

text \<open>
  \<^verbatim>\<open>flushBatch\<close>, step by step: an empty batch ends it at once, without a new timer; otherwise the
  batch is taken and written outside the lock, counted, and the timer set again.
\<close>

fun flushBatch :: "bool \<Rightarrow> flush \<Rightarrow> ws \<Rightarrow> flush \<times> ws" where
  "flushBatch ok Starting (m, c) =
     (if batchBuffer c = [] then (Finished, m, c) else (Sending (batchBuffer c), m, c\<lparr>batchBuffer := []\<rparr>))"
| "flushBatch ok (Sending (d # ds)) s = (Sending ds, sendDirectly ok d s)"
| "flushBatch ok (Sending []) (m, c) =
     (Finished, m\<lparr>wm_BatchesSent := wm_BatchesSent m + 1\<rparr>, c\<lparr>batchTimer := map_option (\<lambda>_. True) (batchTimer c)\<rparr>)"
| "flushBatch ok Finished s = (Finished, s)"

definition addToBatch :: "WebSocketConfig \<Rightarrow> bytes \<Rightarrow> OptimizedConnection \<Rightarrow> OptimizedConnection \<times> bool" where
  "addToBatch cfg data c = (c\<lparr>batchBuffer := batchBuffer c @ [data]\<rparr>, int (length (batchBuffer c)) + 1 \<ge> BatchSize cfg)"

section \<open>Receiving\<close>

text \<open>\<open>echo now\<close>: the answer \<^verbatim>\<open>handleMessage\<close> builds, \<open>None\<close> for data that is not a JSON object.\<close>

definition handleMessage :: "WebSocketConfig \<Rightarrow> (time \<Rightarrow> bytes \<Rightarrow> bytes option) \<Rightarrow> time \<Rightarrow> bytes \<Rightarrow> ws \<Rightarrow> ws" where
  "handleMessage cfg echo now data s = (case echo now data of
     None \<Rightarrow> ((fst s)\<lparr>wm_MessageErrors := wm_MessageErrors (fst s) + 1\<rparr>, snd s)
   | Some answer \<Rightarrow> sendMessage cfg answer s)"

definition processMessage :: "WebSocketConfig \<Rightarrow> (time \<Rightarrow> bytes \<Rightarrow> bytes option) \<Rightarrow> time \<Rightarrow> bytes \<Rightarrow> ws \<Rightarrow> ws" where
  "processMessage cfg echo now data s = (case s of (m, c) \<Rightarrow>
     let (rl, ok) = (case rateLimit c of
           Some rl \<Rightarrow> if EnableRateLimit cfg then map_prod Some id (Allow now rl) else (Some rl, True)
         | None \<Rightarrow> (None, True));
         c = c\<lparr>rateLimit := rl\<rparr>
     in if \<not> ok then (m\<lparr>wm_RateLimitRejects := wm_RateLimitRejects m + 1\<rparr>, c)
        else handleMessage cfg echo now data
          (m\<lparr>wm_MessagesReceived := wm_MessagesReceived m + 1, wm_BytesTransferred := wm_BytesTransferred m + int (length data)\<rparr>,
           c\<lparr>lastActivity := now, oc_MessagesReceived := oc_MessagesReceived c + 1,
             oc_BytesTransferred := oc_BytesTransferred c + int (length data)\<rparr>))"

text \<open>A failed read ends the loop of \<^verbatim>\<open>handleConnection\<close>, which then closes.\<close>

definition read_failed :: "ws \<Rightarrow> ws" where
  "read_failed s = ((fst s)\<lparr>wm_MessageErrors := wm_MessageErrors (fst s) + 1\<rparr>, (snd s)\<lparr>reading := False\<rparr>)"

definition sendHeartbeat :: "WebSocketConfig \<Rightarrow> bytes \<Rightarrow> ws \<Rightarrow> ws" where
  "sendHeartbeat cfg beat s =
     (if oc_closed (snd s) then (fst s, (snd s)\<lparr>heartbeatTimer := False\<rparr>)
      else map_prod id (\<lambda>c. c\<lparr>heartbeatTimer := True\<rparr>) (sendMessage cfg beat s))"

section \<open>Closing and the sender\<close>

definition close_begin :: "WebSocketConfig \<Rightarrow> OptimizedConnection \<Rightarrow> OptimizedConnection" where
  "close_begin cfg c = (if oc_closed c then c
     else c\<lparr>oc_closed := True, heartbeatTimer := False, batchTimer := map_option (\<lambda>_. False) (batchTimer c),
            closer := CloseFlush (if EnableBatching cfg then Starting else Finished)\<rparr>)"

definition close_end :: "ws \<Rightarrow> ws" where
  "close_end s = ((fst s)\<lparr>wm_ActiveConnections := wm_ActiveConnections (fst s) - 1\<rparr>, (snd s)\<lparr>closer := Removed\<rparr>)"

text \<open>\<^verbatim>\<open>messageSender\<close>: one step of the goroutine; \<open>stopped\<close> says that the handler was stopped.\<close>

fun messageSender :: "WebSocketConfig \<Rightarrow> bool \<Rightarrow> bool \<Rightarrow> ws \<Rightarrow> ws option" where
  "messageSender cfg stopped ok (m, c) = (case sender c of
     Waiting \<Rightarrow> if stopped then Some (m, c\<lparr>sender := Exited\<rparr>)
       else (case messageBuffer c of [] \<Rightarrow> None | d # ds \<Rightarrow> Some (m, c\<lparr>messageBuffer := ds, sender := Got d\<rparr>))
   | Got d \<Rightarrow> if oc_closed c then Some (m, c\<lparr>sender := Exited, dropped := dropped c @ [d]\<rparr>)
       else if EnableBatching cfg
       then (let (c, full) = addToBatch cfg d c in Some (m, c\<lparr>sender := (if full then Flushing Starting else Waiting)\<rparr>))
       else Some (m, c\<lparr>sender := Direct d\<rparr>)
   | Flushing f \<Rightarrow> (let (f, m, c) = flushBatch ok f (m, c) in Some (m, c\<lparr>sender := (if f = Finished then Waiting else Flushing f)\<rparr>))
   | Direct d \<Rightarrow> Some (map_prod id (\<lambda>c. c\<lparr>sender := Waiting\<rparr>) (sendDirectly ok d (m, c)))
   | Exited \<Rightarrow> None)"

text \<open>
  One step of a connection. In \<open>stop\<close> and after \<open>read_error\<close> the connection may be closed; the
  closing happens once, whoever comes first.
\<close>

inductive ws_step :: "WebSocketConfig \<Rightarrow> (time \<Rightarrow> bytes \<Rightarrow> bytes option) \<Rightarrow> ws \<Rightarrow> ws \<Rightarrow> bool"
  for cfg echo where
  receive: "reading c \<Longrightarrow> ws_step cfg echo (m, c) (processMessage cfg echo now data (m, c))"
| read_error: "reading c \<Longrightarrow> ws_step cfg echo (m, c) (read_failed (m, c))"
| broadcast: "ws_step cfg echo s (sendMessage cfg data s)"
| heartbeat: "heartbeatTimer c \<Longrightarrow> ws_step cfg echo (m, c) (sendHeartbeat cfg beat (m, c))"
| batch_timer: "batchTimer c = Some True \<Longrightarrow>
    ws_step cfg echo (m, c) (m, c\<lparr>batchTimer := Some False, flushes := flushes c @ [Starting]\<rparr>)"
| flush: "i < length (flushes c) \<Longrightarrow> flushBatch ok (flushes c ! i) (m, c) = (f, m', c') \<Longrightarrow>
    ws_step cfg echo (m, c) (m', c'\<lparr>flushes := (flushes c')[i := f]\<rparr>)"
| send: "messageSender cfg stopped ok s = Some s' \<Longrightarrow> ws_step cfg echo s s'"
| close: "ws_step cfg echo (m, c) (m, close_begin cfg c)"
| close_flush: "closer c = CloseFlush f \<Longrightarrow> f \<noteq> Finished \<Longrightarrow> flushBatch ok f (m, c) = (f', m', c') \<Longrightarrow>
    ws_step cfg echo (m, c) (m', c'\<lparr>closer := CloseFlush f'\<rparr>)"
| remove: "closer c = CloseFlush Finished \<Longrightarrow> ws_step cfg echo (m, c) (close_end (m, c))"

inductive_cases ws_stepE: "ws_step cfg echo s s'"

section \<open>The handler\<close>

record Handler =
  ws_config :: WebSocketConfig
  connections :: "string \<rightharpoonup> OptimizedConnection"
  ws_metrics :: WebSocketMetrics

definition NewOptimizedWebSocketHandler :: "WebSocketConfig option \<Rightarrow> Handler" where
  "NewOptimizedWebSocketHandler cfg = \<lparr>ws_config = (case cfg of None \<Rightarrow> DefaultOptimizedWebSocketConfig | Some c \<Rightarrow> c),
     connections = Map.empty, ws_metrics = emptyMetrics\<rparr>"

definition upgradeConnection :: "string + unit" where
  "upgradeConnection = Inl ''WebSocket upgrade requires HTTP request''"

text \<open>\<open>Inl e\<close>: the error; \<open>None\<close>: the creation of the connection panics.\<close>

definition Handle :: "string \<Rightarrow> time \<Rightarrow> Handler \<Rightarrow> (Handler \<times> (string + unit)) option" where
  "Handle i now h =
     (let failing = (\<lambda>e. Some (h\<lparr>ws_metrics := (ws_metrics h)\<lparr>wm_ConnectionErrors := wm_ConnectionErrors (ws_metrics h) + 1\<rparr>\<rparr>, Inl e))
      in if int (map_len (connections h)) \<ge> MaxConnections (ws_config h) then failing (''maximum connections reached: '' @ show_int (MaxConnections (ws_config h)))
         else case upgradeConnection of
           Inl e \<Rightarrow> failing (''failed to upgrade connection: '' @ e)
         | Inr _ \<Rightarrow> map_option (\<lambda>c. (h\<lparr>connections := (connections h)(i \<mapsto> c), ws_metrics := registerConnection (ws_metrics h)\<rparr>, Inr ()))
             (createOptimizedConnection (ws_config h) i now))"

text \<open>\<^verbatim>\<open>collectMetrics\<close> over rationals for \<^verbatim>\<open>float64\<close>.\<close>

definition collectMetrics :: "bool \<Rightarrow> WebSocketMetrics \<Rightarrow> WebSocketMetrics" where
  "collectMetrics batching m =
     (let total = wm_MessagesSent m + wm_MessagesReceived m;
          m = (if total > 0 then m\<lparr>wm_ErrorRate := of_int (wm_MessageErrors m) / of_int total * 100\<rparr> else m);
          m = (if batching \<and> wm_BatchesSent m > 0 then m\<lparr>wm_BatchEfficiency := of_int (wm_MessagesSent m) / of_int (wm_BatchesSent m)\<rparr> else m)
      in m\<lparr>wm_Throughput := of_int total / 10\<rparr>)"

lemma Handle_never_accepts:
  "\<exists>e. Handle i now h = Some (h\<lparr>ws_metrics := (ws_metrics h)\<lparr>wm_ConnectionErrors := wm_ConnectionErrors (ws_metrics h) + 1\<rparr>\<rparr>, Inl e)"
  by (simp add: Handle_def upgradeConnection_def)

section \<open>The limiter is a sliding window\<close>

fun allow_all :: "time list \<Rightarrow> RateLimiter \<Rightarrow> bool list" where
  "allow_all [] rl = []"
| "allow_all (t # ts) rl = (let (rl, ok) = Allow t rl in ok # allow_all ts rl)"

text \<open>The reference: a call passes when fewer than \<open>l\<close> calls passed within \<open>w\<close> before it.\<close>

fun window :: "int \<Rightarrow> duration \<Rightarrow> time list \<Rightarrow> time list \<Rightarrow> bool list" where
  "window l w past [] = []"
| "window l w past (t # ts) =
     (let ok = int (length (filter (\<lambda>u. t - w \<le> u) past)) < l
      in ok # window l w (if ok then past @ [t] else past) ts)"

lemma dropWhile_sorted: "sorted xs \<Longrightarrow> dropWhile (\<lambda>t. t < (c::int)) xs = filter (\<lambda>t. c \<le> t) xs"
proof (induction xs)
  case (Cons x xs)
  then have "\<forall>y\<in>set xs. x \<le> y" by simp
  then have "c \<le> x \<Longrightarrow> filter (\<lambda>t. c \<le> t) xs = xs" by (intro filter_True) auto
  with Cons show ?case by auto
qed simp

lemma allow_all_window:
  assumes "sorted (past @ ts)" "requests rl = filter (\<lambda>u. c \<le> u) past" "\<forall>t\<in>set ts. c \<le> t - rl_window rl" "0 \<le> rl_window rl"
  shows "allow_all ts rl = window (limit rl) (rl_window rl) past ts"
  using assms
proof (induction ts arbitrary: past rl c)
  case (Cons t ts)
  let ?k = "t - rl_window rl" let ?rs = "filter (\<lambda>u. ?k \<le> u) past"
  have ct: "c \<le> ?k" using Cons.prems(3) by simp
  have "filter (\<lambda>u. ?k \<le> u) (filter (\<lambda>u. c \<le> u) past) = ?rs" using ct by (auto simp: intro!: filter_cong)
  moreover have "sorted (filter (\<lambda>u. c \<le> u) past)" using Cons.prems(1) by (simp add: sorted_append sorted_filter[of id, simplified])
  ultimately have d: "dropWhile (\<lambda>u. u < ?k) (requests rl) = ?rs" using Cons.prems(2) by (simp add: dropWhile_sorted)
  have later: "\<forall>u\<in>set ts. ?k \<le> u - rl_window rl" using Cons.prems(1) by (auto simp: sorted_append)
  show ?case
  proof (cases "int (length ?rs) < limit rl")
    case True
    have "allow_all ts (rl\<lparr>requests := ?rs @ [t]\<rparr>) = window (limit rl) (rl_window rl) (past @ [t]) ts"
      using Cons.IH[of "past @ [t]" "rl\<lparr>requests := ?rs @ [t]\<rparr>" ?k] Cons.prems(1,4) later by simp
    with True d show ?thesis by (simp add: Allow_def Let_def)
  next
    case False
    have "allow_all ts (rl\<lparr>requests := ?rs\<rparr>) = window (limit rl) (rl_window rl) past ts"
      using Cons.IH[of past "rl\<lparr>requests := ?rs\<rparr>" ?k] Cons.prems(1,4) later by (simp add: sorted_append)
    with False d show ?thesis by (simp add: Allow_def Let_def)
  qed
qed simp

definition passed :: "time list \<Rightarrow> bool list \<Rightarrow> time list" where
  "passed ts oks = map fst (filter snd (zip ts oks))"

lemma window_bound:
  assumes "sorted (past @ ts)" "\<forall>u. int (length (filter (\<lambda>x. u \<le> x \<and> x \<le> u + w) past)) \<le> l"
  shows "int (length (filter (\<lambda>x. u \<le> x \<and> x \<le> u + w) (past @ passed ts (window l w past ts)))) \<le> l"
  using assms
proof (induction ts arbitrary: past)
  case Nil
  then show ?case by (simp add: passed_def)
next
  case (Cons t ts)
  show ?case
  proof (cases "int (length (filter (\<lambda>u. t - w \<le> u) past)) < l")
    case True
    have "int (length (filter (\<lambda>x. u \<le> x \<and> x \<le> u + w) (past @ [t]))) \<le> l" for u
    proof (cases "u \<le> t \<and> t \<le> u + w")
      case True
      then have "set (filter (\<lambda>x. u \<le> x \<and> x \<le> u + w) past) \<subseteq> set (filter (\<lambda>x. t - w \<le> x) past)" by auto
      have "length (filter (\<lambda>x. u \<le> x \<and> x \<le> u + w) past) \<le> length (filter (\<lambda>x. t - w \<le> x) past)"
      proof -
        have "filter (\<lambda>x. u \<le> x \<and> x \<le> u + w) past = filter (\<lambda>x. u \<le> x \<and> x \<le> u + w) (filter (\<lambda>x. t - w \<le> x) past)"
          using True by (auto intro!: filter_cong)
        then show ?thesis by (metis length_filter_le)
      qed
      with \<open>int (length (filter (\<lambda>u. t - w \<le> u) past)) < l\<close> True show ?thesis by simp
    next
      case False
      then show ?thesis using Cons.prems(2)[rule_format, of u] by auto
    qed
    with Cons.IH[of "past @ [t]"] Cons.prems(1) True show ?thesis by (simp add: passed_def)
  next
    case False
    with Cons.IH[of past] Cons.prems show ?thesis by (simp add: passed_def sorted_append)
  qed
qed

text \<open>
  C23. Called at non-decreasing times, a new limiter of \<open>l\<close> calls per window \<open>w\<close> passes a call
  exactly when fewer than \<open>l\<close> calls passed within \<open>w\<close> before it, so that no interval of length \<open>w\<close>
  has more than \<open>l\<close> calls that passed.
\<close>

theorem rate_limiter_is_sliding_window:
  assumes "NewRateLimiter l w = Some rl" "sorted ts" "0 \<le> w"
  shows "allow_all ts rl = window l w [] ts \<and>
    (\<forall>u. int (length (filter (\<lambda>x. u \<le> x \<and> x \<le> u + w) (passed ts (allow_all ts rl)))) \<le> l)"
proof -
  from assms(1) have rl: "0 \<le> l" "rl = \<lparr>limit = l, rl_window = w, requests = []\<rparr>" by (auto simp: NewRateLimiter_def split: if_splits)
  have "\<exists>c. \<forall>t\<in>set ts. c \<le> t - w"
    by (cases ts) (use assms(2) in \<open>auto intro!: exI[of _ "hd ts - w"]\<close>)
  then obtain c where "\<forall>t\<in>set ts. c \<le> t - w" by blast
  with allow_all_window[of "[]" ts rl c] rl assms have "allow_all ts rl = window l w [] ts" by simp
  with window_bound[of "[]" ts w l] rl assms show ?thesis by simp
qed

theorem rate_limiter_is_sliding_window_witness:
  "map_option (allow_all [0, 3, 5, 11, 12, 14]) (NewRateLimiter 2 10) = Some [True, True, False, True, False, True] \<and>
     window 2 10 [] [0, 3, 5, 11, 12, 14] = [True, True, False, True, False, True]"
proof -
  let ?ts = "[0, 3, 5, 11, 12, 14] :: time list"
  obtain rl where rl: "NewRateLimiter 2 10 = Some rl" by (simp add: NewRateLimiter_def)
  have "sorted ?ts" "(0::int) \<le> 10" by simp_all
  from rate_limiter_is_sliding_window[OF rl this] have a: "allow_all ?ts rl = window 2 10 [] ?ts" by blast
  have w: "window 2 10 [] ?ts = [True, True, False, True, False, True]" by code_simp
  show ?thesis by (simp only: rl option.map a w)
qed

section \<open>Where the messages go\<close>

fun flush_held :: "flush \<Rightarrow> bytes list" where
  "flush_held (Sending ds) = ds"
| "flush_held _ = []"

fun sender_held :: "sender \<Rightarrow> bytes list" where
  "sender_held (Got d) = [d]"
| "sender_held (Direct d) = [d]"
| "sender_held (Flushing f) = flush_held f"
| "sender_held _ = []"

fun closer_held :: "closer \<Rightarrow> bytes list" where
  "closer_held (CloseFlush f) = flush_held f"
| "closer_held _ = []"

text \<open>What has left or is waiting, and what the goroutines hold.\<close>

definition settled :: "OptimizedConnection \<Rightarrow> bytes multiset" where
  "settled c = mset (wire c) + mset (failed c) + mset (dropped c) + mset (messageBuffer c) + mset (batchBuffer c)"

definition held :: "OptimizedConnection \<Rightarrow> bytes multiset" where
  "held c = mset (sender_held (sender c)) + mset (concat (map flush_held (flushes c))) + mset (closer_held (closer c))"

definition limited :: "OptimizedConnection \<Rightarrow> bool" where
  "limited c \<longleftrightarrow> (\<forall>rl. rateLimit c = Some rl \<longrightarrow> int (length (requests rl)) \<le> limit rl)"

definition ws_inv :: "WebSocketConfig \<Rightarrow> OptimizedConnection \<Rightarrow> bool" where
  "ws_inv cfg c \<longleftrightarrow> mset (accepted c) = settled c + held c \<and> int (length (messageBuffer c)) \<le> MessageBufferSize cfg \<and>
     oc_MessagesSent c = int (length (wire c)) \<and> (oc_closed c \<longleftrightarrow> closer c \<noteq> NotClosing) \<and> limited c"

definition frame :: "OptimizedConnection \<Rightarrow> OptimizedConnection \<Rightarrow> bool" where
  "frame c c' \<longleftrightarrow> sender c' = sender c \<and> flushes c' = flushes c \<and> closer c' = closer c \<and> oc_closed c' = oc_closed c"

lemma sendMessage_effect:
  assumes "sendMessage cfg d (m, c) = (m', c')"
  shows "\<exists>x. accepted c' = accepted c @ x \<and> messageBuffer c' = messageBuffer c @ x \<and> settled c' = settled c + mset x \<and> frame c c' \<and>
    (int (length (messageBuffer c)) \<le> MessageBufferSize cfg \<longrightarrow> int (length (messageBuffer c')) \<le> MessageBufferSize cfg) \<and>
    oc_MessagesSent c' = oc_MessagesSent c \<and> wire c' = wire c \<and> batchBuffer c' = batchBuffer c \<and> batchTimer c' = batchTimer c \<and> rateLimit c' = rateLimit c"
  using assms by (auto simp: sendMessage_def settled_def frame_def split: if_splits)

lemma sendDirectly_effect:
  assumes "sendDirectly ok d (m, c) = (m', c')"
  shows "settled c' = settled c + {#d#}" "frame c c'" "accepted c' = accepted c" "messageBuffer c' = messageBuffer c"
    "batchBuffer c' = batchBuffer c" "batchTimer c' = batchTimer c" "rateLimit c' = rateLimit c"
    "oc_MessagesSent c = int (length (wire c)) \<Longrightarrow> oc_MessagesSent c' = int (length (wire c'))"
  using assms by (auto simp: sendDirectly_def settled_def frame_def split: if_splits)

lemma flushBatch_effect:
  assumes "flushBatch ok f (m, c) = (f', m', c')"
  shows "settled c' + mset (flush_held f') = settled c + mset (flush_held f) \<and> frame c c' \<and> accepted c' = accepted c \<and>
    messageBuffer c' = messageBuffer c \<and> rateLimit c' = rateLimit c \<and>
    (oc_MessagesSent c = int (length (wire c)) \<longrightarrow> oc_MessagesSent c' = int (length (wire c')))"
proof (cases f)
  case (Sending ds)
  show ?thesis
  proof (cases ds)
    case Nil
    with Sending assms show ?thesis by (auto simp: settled_def frame_def)
  next
    case (Cons d ds')
    with Sending assms have "f' = Sending ds'" "sendDirectly ok d (m, c) = (m', c')" by auto
    with sendDirectly_effect[OF this(2)] Sending Cons show ?thesis by auto
  qed
qed (use assms in \<open>auto simp: settled_def frame_def split: if_splits\<close>)

lemma Allow_limit:
  assumes "int (length (requests rl)) \<le> limit rl"
  shows "int (length (requests (fst (Allow now rl)))) \<le> limit (fst (Allow now rl))"
  using assms length_dropWhile_le[of "\<lambda>t. t < now - rl_window rl" "requests rl"] by (auto simp: Allow_def Let_def)

lemma mset_concat_update:
  "i < length xs \<Longrightarrow> mset (concat (map f (xs[i := y]))) + mset (f (xs ! i)) = mset (concat (map f xs)) + mset (f y)"
  by (induction xs arbitrary: i) (auto split: nat.splits simp: union_ac)

lemma processMessage_effect:
  assumes "processMessage cfg echo now d (m, c) = (m', c')" "limited c"
  shows "limited c' \<and> (\<exists>x. accepted c' = accepted c @ x \<and> messageBuffer c' = messageBuffer c @ x \<and> settled c' = settled c + mset x \<and> frame c c' \<and>
    (int (length (messageBuffer c)) \<le> MessageBufferSize cfg \<longrightarrow> int (length (messageBuffer c')) \<le> MessageBufferSize cfg) \<and>
    oc_MessagesSent c' = oc_MessagesSent c \<and> wire c' = wire c \<and> batchBuffer c' = batchBuffer c \<and> batchTimer c' = batchTimer c)"
proof -
  obtain rl ok where a: "(case rateLimit c of
           Some rl \<Rightarrow> if EnableRateLimit cfg then map_prod Some id (Allow now rl) else (Some rl, True)
         | None \<Rightarrow> (None, True)) = (rl, ok)" by fastforce
  let ?c = "c\<lparr>rateLimit := rl\<rparr>"
  have l: "limited ?c"
  proof (cases "rateLimit c")
    case (Some r)
    with assms(2) have "int (length (requests r)) \<le> limit r" by (simp add: limited_def)
    from Allow_limit[OF this, of now] a Some assms(2) show ?thesis
      by (cases "Allow now r") (auto simp: limited_def split: if_splits)
  qed (use a in \<open>simp add: limited_def\<close>)
  have s: "settled ?c = settled c" "frame c ?c" "limited ?c" using l by (simp_all add: settled_def frame_def)
  show ?thesis
  proof (cases ok)
    case False
    with assms(1) a s show ?thesis by (auto simp: processMessage_def)
  next
    case True
    let ?c2 = "?c\<lparr>lastActivity := now, oc_MessagesReceived := oc_MessagesReceived c + 1,
             oc_BytesTransferred := oc_BytesTransferred c + int (length d)\<rparr>"
    obtain m2 where h: "handleMessage cfg echo now d (m2, ?c2) = (m', c')" using True assms(1) a by (auto simp: processMessage_def)
    have s2: "settled ?c2 = settled c" "frame c ?c2" "limited ?c2" using l by (simp_all add: settled_def frame_def limited_def)
    show ?thesis
    proof (cases "echo now d")
      case None
      with h s2 show ?thesis by (auto simp: handleMessage_def)
    next
      case (Some answer)
      with h have "sendMessage cfg answer (m2, ?c2) = (m', c')" by (simp add: handleMessage_def)
      from sendMessage_effect[OF this] s2 show ?thesis by (auto simp: frame_def limited_def)
    qed
  qed
qed

lemma settled_frame [simp]:
  "settled (c\<lparr>flushes := fs\<rparr>) = settled c" "settled (c\<lparr>closer := cl\<rparr>) = settled c" "settled (c\<lparr>sender := sn\<rparr>) = settled c"
  "settled (c\<lparr>heartbeatTimer := b\<rparr>) = settled c" "settled (c\<lparr>batchTimer := t\<rparr>) = settled c"
  by (simp_all add: settled_def)

lemma mset_swap:
  assumes "a' + f = a + g" "m' + g = m + f"
  shows "a' + m' = a + (m :: 'a multiset)"
proof -
  have "(a' + m') + (f + g) = (a' + f) + (m' + g)" by (simp add: union_ac)
  also have "\<dots> = (a + m) + (f + g)" unfolding assms by (simp add: union_ac)
  finally show ?thesis by simp
qed

lemma messageSender_inv:
  assumes "messageSender cfg stopped ok (m, c) = Some s'" "ws_inv cfg c"
  shows "ws_inv cfg (snd s')"
proof (cases "sender c")
  case Waiting
  with assms show ?thesis
    by (auto simp: ws_inv_def held_def settled_def limited_def split: if_splits list.splits)
next
  case (Got d)
  with assms show ?thesis
    by (auto simp: ws_inv_def held_def settled_def limited_def addToBatch_def Let_def split: if_splits)
next
  case (Flushing f)
  obtain f' m' c' where f: "flushBatch ok f (m, c) = (f', m', c')" by (metis prod.exhaust)
  with Flushing assms(1) have "s' = (m', c'\<lparr>sender := (if f' = Finished then Waiting else Flushing f')\<rparr>)" by simp
  with flushBatch_effect[OF f] assms(2) Flushing show ?thesis
    by (auto simp: ws_inv_def frame_def held_def limited_def union_ac)
next
  case (Direct d)
  obtain m' c' where d: "sendDirectly ok d (m, c) = (m', c')" by fastforce
  with Direct assms(1) have "s' = (m', c'\<lparr>sender := Waiting\<rparr>)" by simp
  with sendDirectly_effect[OF d] assms(2) Direct show ?thesis
    by (simp add: ws_inv_def frame_def held_def limited_def union_ac)
next
  case Exited
  with assms show ?thesis by simp
qed

lemma ws_inv_step: "ws_step cfg echo s s' \<Longrightarrow> ws_inv cfg (snd s) \<Longrightarrow> ws_inv cfg (snd s')"
proof (induction rule: ws_step.induct)
  case (receive c m now data)
  obtain m' c' where p: "processMessage cfg echo now data (m, c) = (m', c')" by fastforce
  from receive.prems processMessage_effect[OF p] p show ?case by (auto simp: ws_inv_def frame_def held_def)
next
  case (broadcast s data)
  obtain m c m' c' where p: "s = (m, c)" "sendMessage cfg data (m, c) = (m', c')" by (cases s) fastforce
  from broadcast.prems sendMessage_effect[OF p(2)] p show ?case by (auto simp: ws_inv_def frame_def held_def limited_def)
next
  case (heartbeat c m beat)
  obtain m' c' where p: "sendMessage cfg beat (m, c) = (m', c')" by fastforce
  from heartbeat.prems sendMessage_effect[OF p] p show ?case
    by (auto simp: sendHeartbeat_def ws_inv_def frame_def held_def limited_def settled_def)
next
  case (flush i c ok m f m' c')
  let ?fs = "(flushes c')[i := f]"
  from flushBatch_effect[OF flush(2)] have e: "settled c' + mset (flush_held f) = settled c + mset (flush_held (flushes c ! i))"
    "frame c c'" "accepted c' = accepted c" "messageBuffer c' = messageBuffer c" "rateLimit c' = rateLimit c"
    "oc_MessagesSent c = int (length (wire c)) \<longrightarrow> oc_MessagesSent c' = int (length (wire c'))" by blast+
  have "mset (concat (map flush_held ?fs)) + mset (flush_held (flushes c ! i)) = mset (concat (map flush_held (flushes c))) + mset (flush_held f)"
    using e(2) mset_concat_update[OF flush(1), of flush_held f] by (simp add: frame_def)
  from mset_swap[OF e(1) this] have "settled c' + mset (concat (map flush_held ?fs)) = settled c + mset (concat (map flush_held (flushes c)))" .
  with flush.prems e show ?case by (simp add: ws_inv_def frame_def held_def limited_def union_ac)
next
  case (send stopped ok s s')
  then show ?case by (cases s) (auto intro: messageSender_inv)
next
  case (close_flush c f ok m f' m' c')
  from flushBatch_effect[OF close_flush(3)] have e: "settled c' + mset (flush_held f') = settled c + mset (flush_held f)"
    "frame c c'" "accepted c' = accepted c" "messageBuffer c' = messageBuffer c" "rateLimit c' = rateLimit c"
    "oc_MessagesSent c = int (length (wire c)) \<longrightarrow> oc_MessagesSent c' = int (length (wire c'))" by blast+
  with close_flush(1,2,4) show ?case by (auto simp: ws_inv_def frame_def held_def limited_def settled_def)
qed (auto simp: ws_inv_def read_failed_def close_begin_def close_end_def held_def settled_def limited_def)

lemma ws_inv_reachable:
  assumes "(ws_step cfg echo)\<^sup>*\<^sup>* s s'" "ws_inv cfg (snd s)"
  shows "ws_inv cfg (snd s')"
  using assms by (induction rule: rtranclp_induct) (auto intro: ws_inv_step)

lemma ws_inv_create: "createOptimizedConnection cfg i now = Some c \<Longrightarrow> ws_inv cfg c"
  by (auto simp: createOptimizedConnection_def NewRateLimiter_def ws_inv_def settled_def held_def limited_def split: if_splits)

text \<open>
  C24. In every interleaving of the goroutines of a new connection, each message put on the channel
  is, exactly once, written, failed, dropped after the close, waiting in the channel or in the batch,
  or in the hands of one goroutine; the channel and the limiter keep their bounds, the counter of
  messages sent is the number written, and the connection is closed once its closing has begun.
\<close>

theorem websocket_messages_accounted:
  assumes "createOptimizedConnection cfg i now = Some c0" "(ws_step cfg echo)\<^sup>*\<^sup>* (m0, c0) (m, c)"
  shows "mset (accepted c) = mset (wire c) + mset (failed c) + mset (dropped c) + mset (messageBuffer c) + mset (batchBuffer c) + held c \<and>
    int (length (messageBuffer c)) \<le> MessageBufferSize cfg \<and> oc_MessagesSent c = int (length (wire c)) \<and>
    (oc_closed c \<longleftrightarrow> closer c \<noteq> NotClosing) \<and>
    (case rateLimit c of None \<Rightarrow> True | Some rl \<Rightarrow> int (length (requests rl)) \<le> limit rl)"
proof -
  have "ws_inv cfg c" using ws_inv_reachable[OF assms(2)] ws_inv_create[OF assms(1)] by simp
  then show ?thesis unfolding ws_inv_def settled_def limited_def by (cases "rateLimit c") simp_all
qed

section \<open>The timer of an idle connection\<close>

fun not_flushing :: "sender \<Rightarrow> bool" where
  "not_flushing (Flushing f) = False"
| "not_flushing (Direct d) = False"
| "not_flushing _ = True"

text \<open>The timer is not set and nothing is flushing.\<close>

definition quiet :: "OptimizedConnection \<Rightarrow> bool" where
  "quiet c \<longleftrightarrow> batchTimer c = Some False \<and> (\<forall>f\<in>set (flushes c). f = Finished) \<and> closer c = NotClosing \<and> \<not> oc_closed c \<and>
     not_flushing (sender c)"

definition waiting_messages :: "OptimizedConnection \<Rightarrow> int" where
  "waiting_messages c = int (length (messageBuffer c) + length (batchBuffer c) + length (sender_held (sender c)))"

definition still :: "OptimizedConnection \<Rightarrow> OptimizedConnection \<Rightarrow> bool" where
  "still c c' \<longleftrightarrow> quiet c' \<and> wire c' = wire c \<and>
     waiting_messages c' - int (length (accepted c')) = waiting_messages c - int (length (accepted c))"

lemma still_sendMessage:
  "sendMessage cfg d (m, c) = (m', c') \<Longrightarrow> quiet c \<Longrightarrow> still c c'"
  using sendMessage_effect[of cfg d m c m' c'] by (auto simp: still_def quiet_def waiting_messages_def frame_def)

lemma still_processMessage:
  "processMessage cfg echo now d (m, c) = (m', c') \<Longrightarrow> limited c \<Longrightarrow> quiet c \<Longrightarrow> still c c'"
  using processMessage_effect[of cfg echo now d m c m' c'] by (auto simp: still_def quiet_def waiting_messages_def frame_def)

lemma still_sender:
  assumes "messageSender cfg stopped ok (m, c) = Some (m', c')" "quiet c" "EnableBatching cfg" "waiting_messages c < BatchSize cfg"
  shows "still c c'"
  using assms by (cases "sender c")
    (auto simp: still_def quiet_def waiting_messages_def addToBatch_def Let_def split: if_splits list.splits)

lemma quiet_step:
  assumes "ws_step cfg echo s s'" "quiet (snd s)" "limited (snd s)" "EnableBatching cfg" "waiting_messages (snd s) < BatchSize cfg"
  shows "closer (snd s') \<noteq> NotClosing \<or> still (snd s) (snd s')"
  using assms
proof (cases rule: ws_step.cases)
  case (receive c m now data)
  with assms(2,3) still_processMessage[of cfg echo now data m c] show ?thesis
    by (cases "processMessage cfg echo now data (m, c)") auto
next
  case (broadcast data)
  with assms(2) still_sendMessage[of cfg data "fst s" "snd s"] show ?thesis by (cases "sendMessage cfg data s") auto
next
  case (heartbeat c m beat)
  with assms(2) still_sendMessage[of cfg beat m c] show ?thesis
    by (cases "sendMessage cfg beat (m, c)") (auto simp: sendHeartbeat_def still_def quiet_def waiting_messages_def)
next
  case (send stopped ok)
  with assms(2,4,5) still_sender[of cfg stopped ok "fst s" "snd s" "fst s'" "snd s'"] show ?thesis by auto
next
  case (flush i c ok m f m' c')
  with assms(2) have "flushes c ! i = Finished" by (simp add: quiet_def)
  moreover from this flush have "(flushes c')[i := f] = flushes c'" by (auto simp: list_update_same_conv)
  ultimately show ?thesis using flush assms(2) by (simp add: still_def quiet_def waiting_messages_def)
qed (auto simp: still_def quiet_def waiting_messages_def read_failed_def close_begin_def)

lemma still_mono:
  assumes "ws_step cfg echo s s'" "limited (snd s)"
  shows "length (accepted (snd s)) \<le> length (accepted (snd s')) \<and> (closer (snd s) \<noteq> NotClosing \<longrightarrow> closer (snd s') \<noteq> NotClosing)"
  using assms
proof (cases rule: ws_step.cases)
  case (receive c m now data)
  with assms(2) processMessage_effect[of cfg echo now data m c] show ?thesis
    by (cases "processMessage cfg echo now data (m, c)") (auto simp: frame_def)
next
  case (broadcast data)
  with sendMessage_effect[of cfg data "fst s" "snd s"] show ?thesis by (cases "sendMessage cfg data s") (auto simp: frame_def)
next
  case (heartbeat c m beat)
  with sendMessage_effect[of cfg beat m c] show ?thesis
    by (cases "sendMessage cfg beat (m, c)") (auto simp: sendHeartbeat_def frame_def)
next
  case (send stopped ok)
  then show ?thesis
  proof (cases "sender (snd s)")
    case (Flushing f)
    then show ?thesis using send flushBatch_effect[of ok f "fst s" "snd s"]
      by (cases "flushBatch ok f s") (cases s, auto simp: frame_def)
  next
    case (Direct d)
    then show ?thesis using send sendDirectly_effect[of ok d "fst s" "snd s"]
      by (cases "sendDirectly ok d s") (cases s, auto simp: frame_def)
  qed (cases s; auto simp: addToBatch_def Let_def split: if_splits list.splits)+
next
  case (flush i c ok m f m' c')
  with flushBatch_effect[OF flush(4)] show ?thesis by (auto simp: frame_def)
next
  case (close_flush c f ok m f' m' c')
  with flushBatch_effect[OF close_flush(5)] show ?thesis by (auto simp: frame_def)
qed (auto simp: read_failed_def close_begin_def close_end_def)

text \<open>
  Once the batch timer of a connection has fired on an empty batch (it is then neither set nor
  flushing), nothing is written until \<^verbatim>\<open>BatchSize\<close> messages wait or the connection closes: the
  messages stay in the channel and in the batch however long they wait.
\<close>

lemma idle_timer_holds_messages:
  assumes "(ws_step cfg echo)\<^sup>*\<^sup>* s s'" "ws_inv cfg (snd s)" "quiet (snd s)" "EnableBatching cfg" "closer (snd s') = NotClosing"
    "waiting_messages (snd s) + int (length (accepted (snd s'))) - int (length (accepted (snd s))) < BatchSize cfg"
  shows "quiet (snd s') \<and> wire (snd s') = wire (snd s) \<and>
    waiting_messages (snd s') = waiting_messages (snd s) + int (length (accepted (snd s'))) - int (length (accepted (snd s)))"
proof -
  from assms(1) have "closer (snd s') \<noteq> NotClosing \<or>
    waiting_messages (snd s) + int (length (accepted (snd s'))) - int (length (accepted (snd s))) \<ge> BatchSize cfg \<or> still (snd s) (snd s')"
  proof (induction rule: rtranclp_induct)
    case base
    then show ?case using assms(3) by (simp add: still_def)
  next
    case (step s1 s2)
    have l: "limited (snd s1)" using ws_inv_reachable[OF step(1) assms(2)] by (simp add: ws_inv_def)
    note mono = still_mono[OF step(2) l]
    from step.IH consider "closer (snd s1) \<noteq> NotClosing"
      | "waiting_messages (snd s) + int (length (accepted (snd s1))) - int (length (accepted (snd s))) \<ge> BatchSize cfg"
      | "still (snd s) (snd s1)" "waiting_messages (snd s) + int (length (accepted (snd s1))) - int (length (accepted (snd s))) < BatchSize cfg"
      by linarith
    then show ?case
    proof cases
      case 1
      with mono show ?thesis by blast
    next
      case 2
      with mono show ?thesis by linarith
    next
      case 3
      then have "quiet (snd s1)" "waiting_messages (snd s1) < BatchSize cfg" by (auto simp: still_def)
      from quiet_step[OF step(2) this(1) l assms(4) this(2)] 3(1) show ?thesis by (auto simp: still_def)
    qed
  qed
  with assms(5,6) show ?thesis by (auto simp: still_def)
qed

definition demo_ws_cfg :: WebSocketConfig where
  "demo_ws_cfg = DefaultOptimizedWebSocketConfig\<lparr>MessageBufferSize := 4, BatchSize := 2, EnableRateLimit := False\<rparr>"

definition demo_conn :: OptimizedConnection where
  "demo_conn = \<lparr>oc_id = ''conn_1'', lastActivity = 0, heartbeatTimer = True, messageBuffer = [], batchBuffer = [],
     batchTimer = Some True, rateLimit = None, oc_MessagesSent = 0, oc_MessagesReceived = 0, oc_BytesTransferred = 0,
     oc_closed = False, reading = True, sender = Waiting, flushes = [], closer = NotClosing, accepted = [], wire = [],
     failed = [], dropped = []\<rparr>"

lemma demo_created: "createOptimizedConnection demo_ws_cfg ''conn_1'' 0 = Some demo_conn"
  by (simp add: createOptimizedConnection_def demo_ws_cfg_def DefaultOptimizedWebSocketConfig_def demo_conn_def)

text \<open>The timer fires on the empty batch; then a message arrives and the sender puts it in the batch.\<close>

definition demo_idle :: OptimizedConnection where
  "demo_idle = demo_conn\<lparr>batchTimer := Some False, flushes := [Finished]\<rparr>"

definition demo_batched :: OptimizedConnection where
  "demo_batched = demo_idle\<lparr>batchBuffer := [[7]], accepted := [[7]]\<rparr>"

lemma demo_idle_run: "(ws_step demo_ws_cfg echo)\<^sup>*\<^sup>* (m, demo_conn) (m, demo_idle)"
proof -
  have "ws_step demo_ws_cfg echo (m, demo_conn) (m, demo_conn\<lparr>batchTimer := Some False, flushes := flushes demo_conn @ [Starting]\<rparr>)"
    by (rule ws_step.batch_timer) (simp add: demo_conn_def)
  moreover have "ws_step demo_ws_cfg echo (m, demo_conn\<lparr>batchTimer := Some False, flushes := flushes demo_conn @ [Starting]\<rparr>) (m, demo_idle)"
    using ws_step.flush[of 0 "demo_conn\<lparr>batchTimer := Some False, flushes := flushes demo_conn @ [Starting]\<rparr>" True m Finished m
      "demo_conn\<lparr>batchTimer := Some False, flushes := flushes demo_conn @ [Starting]\<rparr>" demo_ws_cfg echo]
    by (simp add: demo_conn_def demo_idle_def)
  ultimately show ?thesis by (meson converse_rtranclp_into_rtranclp r_into_rtranclp)
qed

lemma demo_batched_run: "(ws_step demo_ws_cfg echo)\<^sup>*\<^sup>* (m, demo_idle) (m, demo_batched)"
proof -
  note d = demo_ws_cfg_def DefaultOptimizedWebSocketConfig_def demo_conn_def demo_idle_def demo_batched_def
  let ?c1 = "demo_idle\<lparr>messageBuffer := [[7]], accepted := [[7]]\<rparr>" let ?c2 = "demo_idle\<lparr>accepted := [[7]], sender := Got [7]\<rparr>"
  have "ws_step demo_ws_cfg echo (m, demo_idle) (m, ?c1)"
    using ws_step.broadcast[of demo_ws_cfg echo "(m, demo_idle)" "[7]"] by (simp add: sendMessage_def d)
  moreover have "ws_step demo_ws_cfg echo (m, ?c1) (m, ?c2)"
    by (rule ws_step.send[of _ False True]) (simp add: d)
  moreover have "ws_step demo_ws_cfg echo (m, ?c2) (m, demo_batched)"
    by (rule ws_step.send[of _ False True]) (simp add: d addToBatch_def)
  ultimately show ?thesis by (meson converse_rtranclp_into_rtranclp r_into_rtranclp)
qed

theorem websocket_messages_accounted_witness:
  "mset (accepted demo_batched) = {#[7]#} \<and> oc_MessagesSent demo_batched = 0 \<and> \<not> oc_closed demo_batched \<and>
     int (length (messageBuffer demo_batched)) \<le> MessageBufferSize demo_ws_cfg"
proof -
  have "(ws_step demo_ws_cfg (\<lambda>_ _. None))\<^sup>*\<^sup>* (emptyMetrics, demo_conn) (emptyMetrics, demo_batched)"
    by (rule rtranclp_trans[OF demo_idle_run demo_batched_run])
  from websocket_messages_accounted[OF demo_created this] show ?thesis
    by (simp add: demo_batched_def demo_idle_def demo_conn_def)
qed

lemma idle_timer_holds_messages_witness:
  "quiet demo_batched \<and> wire demo_batched = [] \<and> waiting_messages demo_batched = 1 \<and> EnableBatching demo_ws_cfg \<and> BatchSize demo_ws_cfg = 2"
proof -
  note d = demo_ws_cfg_def DefaultOptimizedWebSocketConfig_def demo_conn_def demo_idle_def demo_batched_def
  have i: "ws_inv demo_ws_cfg demo_idle" using ws_inv_reachable[OF demo_idle_run] ws_inv_create[OF demo_created] by fastforce
  have q: "quiet demo_idle" "EnableBatching demo_ws_cfg" "closer demo_batched = NotClosing" "BatchSize demo_ws_cfg = 2"
    "waiting_messages demo_idle = 0" "length (accepted demo_batched) = 1" "length (accepted demo_idle) = 0" "wire demo_idle = []"
    by (simp_all add: quiet_def d waiting_messages_def)
  have "(ws_step demo_ws_cfg (\<lambda>_ _. None))\<^sup>*\<^sup>* (emptyMetrics, demo_idle) (emptyMetrics, demo_batched)" by (rule demo_batched_run)
  from idle_timer_holds_messages[OF this] i q show ?thesis by simp
qed

text \<open>
  A batch is written outside the lock: while one flush still writes, the next batch can be taken and
  written by another, and a later message overtakes an earlier one. When the connection closes, what
  is left in the channel is never sent, and a nonempty batch sets the stopped timer again.
\<close>

lemma flushes_overtake:
  assumes "batchBuffer c = [x]" "sender c = Waiting"
  shows "flushBatch ok Starting (m, c) = (Sending [x], m, c\<lparr>batchBuffer := []\<rparr>)"
    "addToBatch cfg y (c\<lparr>batchBuffer := []\<rparr>) = (c\<lparr>batchBuffer := [y]\<rparr>, 1 \<ge> BatchSize cfg)"
    "wire (snd (snd (flushBatch True (Sending [y]) (m, c\<lparr>batchBuffer := []\<rparr>)))) = wire c @ [y]"
    "wire (snd (snd (flushBatch True (Sending [x]) (snd (flushBatch True (Sending [y]) (m, c\<lparr>batchBuffer := []\<rparr>)))))) = wire c @ [y, x]"
  using assms by (simp_all add: addToBatch_def sendDirectly_def split_beta)

lemma close_abandons_channel:
  assumes "sender c = Got d" "messageBuffer c = ds" "\<not> oc_closed c"
  shows "messageSender cfg stopped ok (m, close_begin cfg c) = Some (m, (close_begin cfg c)\<lparr>sender := Exited, dropped := dropped c @ [d]\<rparr>)"
    "messageSender cfg stopped ok (m, (close_begin cfg c)\<lparr>sender := Exited, dropped := dropped c @ [d]\<rparr>) = None"
  using assms by (simp_all add: close_begin_def)

section \<open>All connections of a handler\<close>

definition GetActiveConnections :: "Handler \<Rightarrow> int" where
  "GetActiveConnections h = int (map_len (connections h))"

definition GetMetrics :: "Handler \<Rightarrow> WebSocketMetrics" where "GetMetrics h = ws_metrics h"

definition GetConnectionMetrics :: "string \<Rightarrow> Handler \<Rightarrow> (int \<times> int \<times> int) option" where
  "GetConnectionMetrics i h = map_option (\<lambda>c. (oc_MessagesSent c, oc_MessagesReceived c, oc_BytesTransferred c)) (connections h i)"

text \<open>\<open>is\<close>: the connections collected first, in \<^verbatim>\<open>range\<close> order, that are still there.\<close>

definition on_connection :: "(ws \<Rightarrow> ws) \<Rightarrow> string \<Rightarrow> Handler \<Rightarrow> Handler" where
  "on_connection f i h = (case connections h i of None \<Rightarrow> h
     | Some c \<Rightarrow> (let (m, c) = f (ws_metrics h, c) in h\<lparr>ws_metrics := m, connections := (connections h)(i \<mapsto> c)\<rparr>))"

definition BroadcastMessage :: "bytes \<Rightarrow> string list \<Rightarrow> Handler \<Rightarrow> Handler" where
  "BroadcastMessage data is h = fold (on_connection (sendMessage (ws_config h) data)) is h"

text \<open>
  \<^verbatim>\<open>closeConnection\<close> run to its end: the batch is written, \<open>ok d\<close> says that the write of \<open>d\<close> succeeds, and
  the connection leaves the handler. A connection that is already being closed is left alone.
\<close>

definition flush_all :: "(bytes \<Rightarrow> bool) \<Rightarrow> ws \<Rightarrow> ws" where
  "flush_all ok s = (case s of (m, c) \<Rightarrow> if batchBuffer c = [] then (m, c)
     else map_prod (\<lambda>m. m\<lparr>wm_BatchesSent := wm_BatchesSent m + 1\<rparr>) (\<lambda>c. c\<lparr>batchTimer := map_option (\<lambda>_. True) (batchTimer c)\<rparr>)
       (fold (\<lambda>d. sendDirectly (ok d) d) (batchBuffer c) (m, c\<lparr>batchBuffer := []\<rparr>)))"

definition closeConnection :: "(bytes \<Rightarrow> bool) \<Rightarrow> string \<Rightarrow> Handler \<Rightarrow> Handler" where
  "closeConnection ok i h = (case connections h i of None \<Rightarrow> h
     | Some c \<Rightarrow> if oc_closed c then h
       else (let (m, c) = (ws_metrics h, close_begin (ws_config h) c);
                 (m, c) = (if EnableBatching (ws_config h) then flush_all ok (m, c) else (m, c));
                 (m, c) = close_end (m, c)
             in h\<lparr>ws_metrics := m, connections := (connections h)(i := None)\<rparr>))"

definition StopHandler :: "(bytes \<Rightarrow> bool) \<Rightarrow> string list \<Rightarrow> Handler \<Rightarrow> Handler" where
  "StopHandler ok is h = fold (closeConnection ok) is h"

lemma sendMessage_snd: "snd (sendMessage cfg data (m, c)) = snd (sendMessage cfg data (m', c))"
  by (simp add: sendMessage_def)

lemma on_connection_simps [simp]:
  "ws_config (on_connection f i h) = ws_config h"
  "connections (on_connection f i h) = (connections h)(i := map_option (\<lambda>c. snd (f (ws_metrics h, c))) (connections h i))"
  by (auto simp: on_connection_def case_prod_unfold Let_def fun_eq_iff split: option.split)

text \<open>A broadcast offers the message to every connection once: open ones with room accept it.\<close>

lemma fold_on_connection:
  assumes "distinct is"
  shows "connections (fold (on_connection (sendMessage cfg data)) is h) = (\<lambda>i. if i \<in> set is
    then map_option (\<lambda>c. snd (sendMessage cfg data (emptyMetrics, c))) (connections h i) else connections h i)"
  using assms
proof (induction "is" arbitrary: h)
  case (Cons j js)
  show ?case
    using Cons by (auto simp: fun_eq_iff sendMessage_snd[of _ _ "ws_metrics h" _ emptyMetrics])
qed simp

lemma broadcast_reaches_all:
  "distinct is \<Longrightarrow> connections (BroadcastMessage data is h) = (\<lambda>i. if i \<in> set is
    then map_option (\<lambda>c. snd (sendMessage (ws_config h) data (emptyMetrics, c))) (connections h i) else connections h i)"
  unfolding BroadcastMessage_def by (rule fold_on_connection)

lemma fold_sendDirectly:
  "wire (snd (fold (\<lambda>d. sendDirectly (ok d) d) ds (m, c))) = wire c @ filter ok ds \<and>
   failed (snd (fold (\<lambda>d. sendDirectly (ok d) d) ds (m, c))) = failed c @ filter (\<lambda>d. \<not> ok d) ds"
  by (induction ds arbitrary: m c) (auto simp: sendDirectly_def)

text \<open>What waits in the batch is written in order when the connection closes, and the batch is empty.\<close>

lemma flush_all_writes:
  "wire (snd (flush_all ok (m, c))) = wire c @ filter ok (batchBuffer c)"
  using fold_sendDirectly[of ok "batchBuffer c" m "c\<lparr>batchBuffer := []\<rparr>"] by (simp add: flush_all_def)

lemma closeConnection_connections:
  "connections (closeConnection ok i h) = (connections h)(i := (case connections h i of None \<Rightarrow> None
     | Some c \<Rightarrow> if oc_closed c then Some c else None))"
  "ws_config (closeConnection ok i h) = ws_config h"
  by (auto simp: closeConnection_def case_prod_unfold Let_def fun_eq_iff split: option.split)

text \<open>Stopping removes every connection but those whose closing had already begun elsewhere.\<close>

lemma stop_removes_all:
  assumes "dom (connections h) \<subseteq> set is"
  shows "connections (StopHandler ok is h) = filter_map (\<lambda>_ c. oc_closed c) (connections h)"
proof -
  have "connections (fold (closeConnection ok) is h) =
      (\<lambda>i. if i \<in> set is then (case connections h i of None \<Rightarrow> None | Some c \<Rightarrow> if oc_closed c then Some c else None)
           else connections h i)"
    by (induction "is" arbitrary: h) (auto simp: closeConnection_connections fun_eq_iff split: option.split)
  with assms show ?thesis by (auto simp: StopHandler_def filter_map_def fun_eq_iff domIff split: option.split)
qed

end
