(* ===== verification/Websocket_Handler.thy ===== *)
theory Websocket_Handler
  imports Prelude "HOL-Library.Multiset"
begin

text \<open>
  The WebSocket handler of \<^verbatim>\<open>core/protocols/websocket/handler.go\<close> with its connection limiter,
  its connections and their heartbeats, and the message bus of \<^verbatim>\<open>core/bus/message_bus.go\<close> it
  broadcasts through. Sockets are numbers; whether the handshake of the WebSocket package calls the
  handler and whether a send succeeds are parameters. The lemmas show what the limiter counts and to
  whom a message goes.
\<close>

section \<open>The message bus\<close>

record MessageBus =
  bus_connections :: "string \<rightharpoonup> nat"

definition NewMessageBus :: MessageBus where "NewMessageBus = \<lparr>bus_connections = Map.empty\<rparr>"

definition RegisterConnection :: "string \<Rightarrow> nat \<Rightarrow> MessageBus \<Rightarrow> MessageBus" where
  "RegisterConnection i ws b = b\<lparr>bus_connections := (bus_connections b)(i \<mapsto> ws)\<rparr>"

definition UnregisterConnection :: "string \<Rightarrow> MessageBus \<Rightarrow> MessageBus" where
  "UnregisterConnection i b = (if i \<in> dom (bus_connections b) then b\<lparr>bus_connections := (bus_connections b)(i := None)\<rparr> else b)"

text \<open>
  The sends of a broadcast, for the identifiers \<open>is\<close> of the map in the order of the iteration; a
  failed send is logged and changes nothing.
\<close>

definition BroadcastMessage :: "string list \<Rightarrow> string \<Rightarrow> string \<Rightarrow> MessageBus \<Rightarrow> (nat \<times> string) list" where
  "BroadcastMessage ids exclude msg b = map (\<lambda>i. (the (bus_connections b i), msg)) (filter (\<lambda>i. i \<noteq> exclude) ids)"

definition SendMessage :: "(nat \<Rightarrow> string \<Rightarrow> string option) \<Rightarrow> string \<Rightarrow> string \<Rightarrow> MessageBus \<Rightarrow> string + unit" where
  "SendMessage send i msg b = (case bus_connections b i of
     None \<Rightarrow> Inl (''connection not found: '' @ i)
   | Some ws \<Rightarrow> (case send ws msg of Some e \<Rightarrow> Inl e | None \<Rightarrow> Inr ()))"

section \<open>The limiter\<close>

record ConnectionLimiter =
  maxConnections :: int
  current :: int

definition NewConnectionLimiter :: "int \<Rightarrow> ConnectionLimiter" where
  "NewConnectionLimiter n = \<lparr>maxConnections = n, current = 0\<rparr>"

definition TryAcquire :: "ConnectionLimiter \<Rightarrow> ConnectionLimiter \<times> bool" where
  "TryAcquire cl = (cl\<lparr>current := current cl + 1\<rparr>, current cl + 1 \<le> maxConnections cl)"

definition Release :: "ConnectionLimiter \<Rightarrow> ConnectionLimiter" where
  "Release cl = cl\<lparr>current := current cl - 1\<rparr>"

section \<open>A connection\<close>

text \<open>\<open>beating\<close>: the goroutine of the heartbeat runs.\<close>

record WebSocketConnection =
  wc_socket :: nat
  wc_id :: string
  lastPing :: time
  lastPong :: time
  isAlive :: bool
  beating :: bool

definition NewWebSocketConnection :: "string \<Rightarrow> nat \<Rightarrow> time \<Rightarrow> WebSocketConnection" where
  "NewWebSocketConnection i ws now = \<lparr>wc_socket = ws, wc_id = i, lastPing = now, lastPong = now, isAlive = True, beating = True\<rparr>"

text \<open>One tick of the heartbeat; \<open>ok\<close> says whether the ping was sent.\<close>

definition heartbeat :: "bool \<Rightarrow> time \<Rightarrow> WebSocketConnection \<Rightarrow> WebSocketConnection" where
  "heartbeat ok now wc =
     (if \<not> beating wc then wc
      else if \<not> isAlive wc then wc\<lparr>beating := False\<rparr>
      else if ok then wc\<lparr>lastPing := now\<rparr> else wc\<lparr>isAlive := False, beating := False\<rparr>)"

definition UpdatePong :: "time \<Rightarrow> WebSocketConnection \<Rightarrow> WebSocketConnection" where
  "UpdatePong now wc = wc\<lparr>lastPong := now\<rparr>"

definition wc_Close :: "WebSocketConnection \<Rightarrow> WebSocketConnection" where
  "wc_Close wc = wc\<lparr>isAlive := False, beating := False\<rparr>"

section \<open>The handler\<close>

record WebSocketHandler =
  limiter :: ConnectionLimiter
  connections :: "string \<rightharpoonup> WebSocketConnection"
  messageBus :: MessageBus

definition NewWebSocketHandler :: "int \<Rightarrow> WebSocketHandler" where
  "NewWebSocketHandler n = \<lparr>limiter = NewConnectionLimiter n, connections = Map.empty, messageBus = NewMessageBus\<rparr>"

text \<open>
  \<^verbatim>\<open>Handle\<close> up to the read loop: over the limit the connection is closed; otherwise the handshake
  \<open>shaken\<close> of the WebSocket package either calls \<^verbatim>\<open>handleWebSocket\<close>, which registers the
  connection, or ends. The read loop is \<open>on_message\<close>, and \<open>leave\<close> is what is deferred to its end.
\<close>

datatype served = Refused | NotUpgraded | Serving

definition handleWebSocket :: "string \<Rightarrow> nat \<Rightarrow> time \<Rightarrow> WebSocketHandler \<Rightarrow> WebSocketHandler" where
  "handleWebSocket i ws now h = h\<lparr>connections := (connections h)(i \<mapsto> NewWebSocketConnection i ws now),
     messageBus := RegisterConnection i ws (messageBus h)\<rparr>"

definition Handle :: "bool \<Rightarrow> string \<Rightarrow> nat \<Rightarrow> time \<Rightarrow> WebSocketHandler \<Rightarrow> WebSocketHandler \<times> served" where
  "Handle shaken i ws now h =
     (let (cl, ok) = TryAcquire (limiter h); h = h\<lparr>limiter := cl\<rparr>
      in if \<not> ok then (h, Refused)
         else if \<not> shaken then (h, NotUpgraded)
         else (handleWebSocket i ws now h, Serving))"

definition leave :: "string \<Rightarrow> WebSocketHandler \<Rightarrow> WebSocketHandler" where
  "leave i h = h\<lparr>connections := (connections h)(i := None), messageBus := UnregisterConnection i (messageBus h),
     limiter := Release (limiter h)\<rparr>"

text \<open>One message read from the connection \<open>i\<close>: the new state and what is sent.\<close>

definition on_message :: "string list \<Rightarrow> string \<Rightarrow> string \<Rightarrow> time \<Rightarrow> WebSocketHandler \<Rightarrow> WebSocketHandler \<times> (nat \<times> string) list" where
  "on_message ids i msg now h =
     (if msg = ''pong'' then (h\<lparr>connections := (connections h)(i := map_option (UpdatePong now) (connections h i))\<rparr>, [])
      else (h, BroadcastMessage ids i msg (messageBus h)))"

text \<open>The heartbeat of the connection \<open>i\<close>.\<close>

definition beat :: "bool \<Rightarrow> string \<Rightarrow> time \<Rightarrow> WebSocketHandler \<Rightarrow> WebSocketHandler" where
  "beat ok i now h = h\<lparr>connections := (connections h)(i := map_option (heartbeat ok now) (connections h i))\<rparr>"

section \<open>What the limiter counts\<close>

text \<open>
  The connections that come, speak and go, in any order; identifiers in use are not given again. The
  second component counts the attempts that were refused or not upgraded.
\<close>

inductive handler_step :: "WebSocketHandler \<times> nat \<Rightarrow> WebSocketHandler \<times> nat \<Rightarrow> bool" where
  comes: "i \<notin> dom (connections h) \<Longrightarrow> Handle shaken i ws now h = (h', r) \<Longrightarrow>
    handler_step (h, k) (h', if r = Serving then k else Suc k)"
| speaks: "i \<in> dom (connections h) \<Longrightarrow> on_message ids i msg now h = (h', out) \<Longrightarrow> handler_step (h, k) (h', k)"
| beats: "handler_step (h, k) (beat ok i now h, k)"
| goes: "i \<in> dom (connections h) \<Longrightarrow> handler_step (h, k) (leave i h, k)"

definition handler_inv :: "int \<Rightarrow> WebSocketHandler \<times> nat \<Rightarrow> bool" where
  "handler_inv n s \<longleftrightarrow> (case s of (h, k) \<Rightarrow> finite (dom (connections h)) \<and> maxConnections (limiter h) = n \<and>
     current (limiter h) = int (map_len (connections h)) + int k \<and>
     bus_connections (messageBus h) = map_option wc_socket \<circ> connections h)"

lemma sockets_upd [simp]: "map_option wc_socket \<circ> m(i := map_option f (m i)) = map_option wc_socket \<circ> m"
  if "\<And>wc. wc_socket (f wc) = wc_socket wc"
  using that by (auto simp: fun_eq_iff option.map_comp comp_def)

lemma socket_frame [simp]: "wc_socket (UpdatePong now wc) = wc_socket wc" "wc_socket (heartbeat ok now wc) = wc_socket wc"
  by (simp_all add: UpdatePong_def heartbeat_def)

lemma dom_upd_map_option: "dom (m(i := map_option f (m i))) = dom m"
  by (auto split: if_splits)

lemma sockets_add: "(map_option wc_socket \<circ> m)(i \<mapsto> wc_socket w) = map_option wc_socket \<circ> m(i \<mapsto> w)"
  by (auto simp: fun_eq_iff)

lemma sockets_del: "(map_option wc_socket \<circ> m)(i := None) = map_option wc_socket \<circ> m(i := None)"
  by (auto simp: fun_eq_iff)

lemma handler_inv_step: "handler_step s s' \<Longrightarrow> handler_inv n s \<Longrightarrow> handler_inv n s'"
proof (induction rule: handler_step.induct)
  case (comes i h shaken ws now h' r k)
  then show ?case
    by (auto simp: Handle_def TryAcquire_def handleWebSocket_def RegisterConnection_def handler_inv_def Let_def map_len_upd
        NewWebSocketConnection_def sockets_add[of _ _ "\<lparr>wc_socket = ws, wc_id = i, lastPing = now, lastPong = now, isAlive = True, beating = True\<rparr>", simplified]
        split: if_splits)
next
  case (speaks i h ids msg now h' out k)
  from speaks(2) have "h' = h \<or> h' = h\<lparr>connections := (connections h)(i := map_option (UpdatePong now) (connections h i))\<rparr>"
    by (auto simp: on_message_def split: if_splits)
  with speaks(3) show ?case by (auto simp only:) (simp_all add: handler_inv_def map_len_def dom_upd_map_option del: dom_fun_upd)
next
  case (beats h k ok i now)
  then show ?case by (simp add: beat_def handler_inv_def map_len_def dom_upd_map_option del: dom_fun_upd)
next
  case (goes i h k)
  then have "int (map_len ((connections h)(i := None))) = int (map_len (connections h)) - 1"
    using map_len_del[of "connections h" i] by (simp add: handler_inv_def)
  with goes show ?case by (auto simp: leave_def handler_inv_def Release_def UnregisterConnection_def sockets_del)
qed

lemma handler_inv_reachable: "handler_step\<^sup>*\<^sup>* (NewWebSocketHandler n, 0) s \<Longrightarrow> handler_inv n s"
proof (induction rule: rtranclp_induct)
  case base
  show ?case by (simp add: handler_inv_def NewWebSocketHandler_def NewConnectionLimiter_def NewMessageBus_def fun_eq_iff)
qed (rule handler_inv_step)

text \<open>
  Of the \<open>n\<close> places of the limiter, every attempt that was refused or not upgraded takes one for
  ever: a new connection is refused exactly when the connections served now and those attempts
  together are \<open>n\<close> or more. The message bus holds the sockets of exactly the connections served, and
  a broadcast sends to each of the others once.
\<close>

lemma websocket_limiter_leaks:
  assumes "handler_step\<^sup>*\<^sup>* (NewWebSocketHandler n, 0) (h, k)"
  shows "(snd (Handle shaken i ws now h) = Refused \<longleftrightarrow> int (map_len (connections h)) + int k \<ge> n) \<and>
    bus_connections (messageBus h) = map_option wc_socket \<circ> connections h \<and>
    (\<forall>ids j msg. distinct ids \<and> set ids = dom (connections h) \<and> msg \<noteq> ''pong'' \<longrightarrow>
      mset (snd (on_message ids j msg now h)) =
        image_mset (\<lambda>i. (wc_socket (the (connections h i)), msg)) (mset_set (dom (connections h) - {j})))"
proof -
  from handler_inv_reachable[OF assms] have inv: "finite (dom (connections h))" "maxConnections (limiter h) = n"
    "current (limiter h) = int (map_len (connections h)) + int k" "bus_connections (messageBus h) = map_option wc_socket \<circ> connections h"
    by (auto simp: handler_inv_def)
  have "snd (Handle shaken i ws now h) = Refused \<longleftrightarrow> \<not> current (limiter h) + 1 \<le> n"
    using inv(2) by (auto simp: Handle_def TryAcquire_def Let_def)
  moreover have "mset (snd (on_message ids j msg now h)) = image_mset (\<lambda>i. (wc_socket (the (connections h i)), msg)) (mset_set (dom (connections h) - {j}))"
    if "distinct ids" "set ids = dom (connections h)" "msg \<noteq> ''pong''" for ids j msg
  proof -
    have "mset (filter (\<lambda>i. i \<noteq> j) ids) = mset_set (dom (connections h) - {j})"
    proof -
      have "set (filter (\<lambda>i. i \<noteq> j) ids) = dom (connections h) - {j}" using that(2) by auto
      then show ?thesis using mset_set_set[OF distinct_filter[OF that(1)], of "\<lambda>i. i \<noteq> j"] by simp
    qed
    then have "mset (map (\<lambda>i. (wc_socket (the (connections h i)), msg)) (filter (\<lambda>i. i \<noteq> j) ids)) =
        image_mset (\<lambda>i. (wc_socket (the (connections h i)), msg)) (mset_set (dom (connections h) - {j}))" by simp
    moreover have "map (\<lambda>i. (wc_socket (the (connections h i)), msg)) (filter (\<lambda>i. i \<noteq> j) ids) = snd (on_message ids j msg now h)"
      using that(2,3) by (auto simp: on_message_def BroadcastMessage_def inv(4) intro!: map_cong)
    ultimately show ?thesis by simp
  qed
  ultimately show ?thesis using inv(3,4) by auto
qed

definition refused_once :: "WebSocketHandler" where
  "refused_once = (let h = fst (Handle True ''ws_1'' 7 0 (NewWebSocketHandler 1)) in leave ''ws_1'' (fst (Handle True ''ws_2'' 8 1 h)))"

text \<open>One connection is served, a second refused, and the first leaves: no one is served and the place is lost.\<close>

lemma websocket_limiter_leaks_witness:
  "connections refused_once = Map.empty \<and> snd (Handle True ''ws_3'' 9 2 refused_once) = Refused"
proof -
  let ?h1 = "fst (Handle True ''ws_1'' 7 0 (NewWebSocketHandler 1))" let ?h2 = "fst (Handle True ''ws_2'' 8 1 ?h1)"
  note d = Handle_def TryAcquire_def NewWebSocketHandler_def NewConnectionLimiter_def handleWebSocket_def
  have "handler_step (NewWebSocketHandler 1, 0) (?h1, 0)"
    using handler_step.comes[of "''ws_1''" "NewWebSocketHandler 1" True 7 0 ?h1 Serving 0] by (simp add: d)
  moreover have "handler_step (?h1, 0) (?h2, 1)"
    using handler_step.comes[of "''ws_2''" ?h1 True 8 1 ?h2 Refused 0] by (simp add: d)
  moreover have "handler_step (?h2, 1) (leave ''ws_1'' ?h2, 1)" by (rule handler_step.goes) (simp add: d)
  ultimately have "handler_step\<^sup>*\<^sup>* (NewWebSocketHandler 1, 0) (refused_once, 1)"
    unfolding refused_once_def Let_def by (meson converse_rtranclp_into_rtranclp r_into_rtranclp)
  from websocket_limiter_leaks[OF this] have "snd (Handle True ''ws_3'' 9 2 refused_once) = Refused" by simp
  moreover have "connections refused_once = Map.empty" by (simp add: refused_once_def leave_def d fun_eq_iff)
  ultimately show ?thesis by simp
qed

text \<open>
  A connection whose ping failed stays registered and is still sent every broadcast; \<open>lastPong\<close> is
  stored and never looked at.
\<close>

lemma dead_connection_stays:
  assumes "connections h i = Some wc" "beating wc" "isAlive wc"
  shows "connections (beat False i now h) i = Some (wc\<lparr>isAlive := False, beating := False\<rparr>)"
    "messageBus (beat False i now h) = messageBus h"
  using assms by (simp_all add: beat_def heartbeat_def)

end
