(* ===== verification/Connection_Manager.thy ===== *)
theory Connection_Manager
  imports Http_Handler Complex_Main
begin

text \<open>
  The optimised HTTP handler of \<^verbatim>\<open>core/pool/connection_manager.go\<close>: its pooled response writer,
  its connection limiter, the default middlewares with compression, the handling of one connection
  and the metrics. Header lists, the status line and the prefix tree are those of the other HTTP
  theories. The request parser, the clock and what \<^verbatim>\<open>compress/gzip\<close> hands on are parameters.
\<close>

section \<open>The response writer\<close>

text \<open>
  \<open>gzipped\<close>: the bodies given so far to the gzip writer that stands in front, if one does. \<open>latency\<close>
  is the average latency the metrics middleware updates; it belongs to the handler and is carried
  along.
\<close>

record Writer =
  out :: "string list"
  cw_header :: "(string \<times> string list) list"
  cw_status :: int
  cw_written :: int
  cw_headerSent :: bool
  gzipped :: "string list option"
  latency :: rat

definition Reset :: "Writer \<Rightarrow> Writer" where
  "Reset w = w\<lparr>out := [], cw_status := 0, cw_written := 0, cw_headerSent := False, cw_header := [], gzipped := None\<rparr>"

text \<open>
  \<open>Blocks\<close>: the goroutine locks the mutex of the writer a second time.
  \<open>gz_write past b\<close> and \<open>gz_close past\<close> are what a gzip writer that was given \<open>past\<close> hands on.
\<close>

datatype res = Returns Writer | PanicsWith Writer string | Blocks

fun bind_res :: "res \<Rightarrow> (Writer \<Rightarrow> res) \<Rightarrow> res" where
  "bind_res (Returns w) f = f w"
| "bind_res (PanicsWith w p) f = PanicsWith w p"
| "bind_res Blocks f = Blocks"

record env = http_env +
  gz_write :: "string list \<Rightarrow> string \<Rightarrow> string list"
  gz_close :: "string list \<Rightarrow> string list"
  elapsed :: rat
  timestamp :: string

definition WriteHeader :: "env \<Rightarrow> int \<Rightarrow> Writer \<Rightarrow> Writer" where
  "WriteHeader e code w =
     (if cw_headerSent w then w
      else w\<lparr>cw_status := code, cw_headerSent := True,
             out := out w @ [''HTTP/1.1 '' @ show_int code @ '' '' @ StatusText e code @ crlf @ header_lines (cw_header w) @ crlf]\<rparr>)"

text \<open>\<^verbatim>\<open>Write\<close> of the plain writer calls \<^verbatim>\<open>WriteHeader\<close> while it holds the lock.\<close>

definition plain_Write :: "env \<Rightarrow> string \<Rightarrow> Writer \<Rightarrow> res" where
  "plain_Write e b w = (if \<not> cw_headerSent w then Blocks
     else Returns (w\<lparr>out := out w @ [b], cw_written := cw_written w + fst (conn_write e b)\<rparr>))"

definition plain_Writes :: "env \<Rightarrow> string list \<Rightarrow> Writer \<Rightarrow> res" where
  "plain_Writes e bs w = foldl (\<lambda>r b. bind_res r (plain_Write e b)) (Returns w) bs"

definition Write :: "env \<Rightarrow> string \<Rightarrow> Writer \<Rightarrow> res" where
  "Write e b w = (case gzipped w of
     None \<Rightarrow> plain_Write e b w
   | Some past \<Rightarrow> bind_res (plain_Writes e (gz_write e past b) w) (\<lambda>w. Returns (w\<lparr>gzipped := Some (past @ [b])\<rparr>)))"

definition set_header :: "string \<Rightarrow> string \<Rightarrow> Writer \<Rightarrow> Writer" where
  "set_header k v w = w\<lparr>cw_header := header_Set k v (cw_header w)\<rparr>"

section \<open>Middlewares\<close>

record Req =
  rq_Method :: string
  rq_Path :: string
  rq_Header :: "(string \<times> string list) list"
  ProtoMajor :: int
  ProtoMinor :: int

type_synonym handler = "Writer \<Rightarrow> Req \<Rightarrow> res"
type_synonym middleware = "env \<Rightarrow> handler \<Rightarrow> handler"

definition LoggingMiddleware :: middleware where "LoggingMiddleware e nxt w r = nxt w r"

definition RecoveryMiddleware :: middleware where
  "RecoveryMiddleware e nxt w r = (case nxt w r of PanicsWith w p \<Rightarrow> Returns (WriteHeader e 500 w) | x \<Rightarrow> x)"

definition CORSMiddleware :: middleware where
  "CORSMiddleware e nxt w r =
     (let w = set_header ''Access-Control-Allow-Headers'' ''Content-Type, Authorization''
            (set_header ''Access-Control-Allow-Methods'' ''GET, POST, PUT, DELETE, OPTIONS''
            (set_header ''Access-Control-Allow-Origin'' ''*'' w))
      in if rq_Method r = ''OPTIONS'' then Returns (WriteHeader e 200 w) else nxt w r)"

definition MetricsMiddleware :: middleware where
  "MetricsMiddleware e nxt w r = bind_res (nxt w r)
     (\<lambda>w. Returns (w\<lparr>latency := (if latency w = 0 then elapsed e else (latency w + elapsed e) / 2)\<rparr>))"

text \<open>
  The deferred \<^verbatim>\<open>Close\<close> of the gzip writer writes through the plain writer, also when the next
  handler panicked. One compression stands in a chain.
\<close>

definition gzip_Close :: "env \<Rightarrow> Writer \<Rightarrow> res" where
  "gzip_Close e w = (case gzipped w of None \<Rightarrow> Returns w
     | Some past \<Rightarrow> plain_Writes e (gz_close e past) (w\<lparr>gzipped := None\<rparr>))"

definition CompressionMiddleware :: middleware where
  "CompressionMiddleware e nxt w r =
     (if contains_sub (header_Get ''Accept-Encoding'' (rq_Header r)) ''gzip''
      then (case nxt ((set_header ''Content-Encoding'' ''gzip'' w)\<lparr>gzipped := Some []\<rparr>) r of
          Returns w \<Rightarrow> gzip_Close e w
        | PanicsWith w p \<Rightarrow> bind_res (gzip_Close e w) (\<lambda>w. PanicsWith w p)
        | Blocks \<Rightarrow> Blocks)
      else nxt w r)"

definition SecurityHeadersMiddleware :: middleware where
  "SecurityHeadersMiddleware e nxt w r = nxt
     (set_header ''Strict-Transport-Security'' ''max-age=31536000; includeSubDomains''
     (set_header ''X-XSS-Protection'' ''1; mode=block''
     (set_header ''X-Frame-Options'' ''DENY''
     (set_header ''X-Content-Type-Options'' ''nosniff'' w)))) r"

definition Build :: "env \<Rightarrow> middleware list \<Rightarrow> handler \<Rightarrow> handler" where
  "Build e ms h = foldr (\<lambda>m h. m e h) ms h"

section \<open>The handler\<close>

record ConnectionLimiter =
  maxConnections :: int
  current :: int

definition Acquire :: "ConnectionLimiter \<Rightarrow> ConnectionLimiter \<times> bool" where
  "Acquire cl = (if current cl \<ge> maxConnections cl then (cl, False) else (cl\<lparr>current := current cl + 1\<rparr>, True))"

definition Release :: "ConnectionLimiter \<Rightarrow> ConnectionLimiter" where
  "Release cl = cl\<lparr>current := current cl - 1\<rparr>"

record OptimizedConnectionConfig =
  EnableHTTP2 :: bool
  EnableGzip :: bool
  MaxConcurrentConns :: int

definition DefaultOptimizedConnectionConfig :: OptimizedConnectionConfig where
  "DefaultOptimizedConnectionConfig = \<lparr>EnableHTTP2 = True, EnableGzip = True, MaxConcurrentConns = 10000\<rparr>"

record Handler =
  cm_router :: RadixTree
  middlewareChain :: "middleware list"
  cm_config :: OptimizedConnectionConfig
  TotalRequests :: int
  SuccessfulRequests :: int
  FailedRequests :: int
  ActiveConnections :: int
  AverageLatency :: rat
  connLimiter :: ConnectionLimiter
  http2Server :: bool
  shutdown_closed :: bool
  cm_running :: bool

definition DefaultMiddlewares :: "OptimizedConnectionConfig \<Rightarrow> middleware list" where
  "DefaultMiddlewares cfg = [LoggingMiddleware, RecoveryMiddleware, MetricsMiddleware]
     @ (if EnableGzip cfg then [CompressionMiddleware] else []) @ [CORSMiddleware, SecurityHeadersMiddleware]"

definition NewOptimizedConnectionHandler :: "RadixTree \<Rightarrow> OptimizedConnectionConfig option \<Rightarrow> Handler" where
  "NewOptimizedConnectionHandler t c =
     (let c = (case c of None \<Rightarrow> DefaultOptimizedConnectionConfig | Some c \<Rightarrow> c)
      in \<lparr>cm_router = t, middlewareChain = DefaultMiddlewares c, cm_config = c, TotalRequests = 0, SuccessfulRequests = 0,
          FailedRequests = 0, ActiveConnections = 0, AverageLatency = 0,
          connLimiter = \<lparr>maxConnections = MaxConcurrentConns c, current = 0\<rparr>, http2Server = EnableHTTP2 c,
          shutdown_closed = False, cm_running = False\<rparr>)"

definition AddMiddleware :: "middleware \<Rightarrow> Handler \<Rightarrow> Handler" where
  "AddMiddleware m h = h\<lparr>middlewareChain := middlewareChain h @ [m]\<rparr>"

definition Start :: "Handler \<Rightarrow> string + Handler" where
  "Start h = (if cm_running h then Inl ''handler already running'' else Inr (h\<lparr>cm_running := True\<rparr>))"

text \<open>\<open>None\<close>: closing a closed channel panics.\<close>

definition Stop :: "Handler \<Rightarrow> (string + Handler) option" where
  "Stop h = (if \<not> cm_running h then Some (Inl ''handler not running'')
     else if shutdown_closed h then None else Some (Inr (h\<lparr>cm_running := False, shutdown_closed := True\<rparr>)))"

definition field_text :: "string \<Rightarrow> string \<Rightarrow> string" where
  "field_text k v = quote @ k @ quote @ '': '' @ quote @ v @ quote"

definition routeRequest :: "env \<Rightarrow> RadixTree \<Rightarrow> handler" where
  "routeRequest e t w r =
     (if length (Search (rq_Path r) t) > 0
      then Write e (''{'' @ field_text ''message'' ''Optimized HTTP Handler'' @ '', '' @ field_text ''path'' (rq_Path r) @ '', '' @
             field_text ''method'' (rq_Method r) @ '', '' @ field_text ''timestamp'' (timestamp e) @ ''}'')
           (WriteHeader e 200 (set_header ''X-Handler'' ''optimized-http'' (set_header ''Content-Type'' ''application/json'' w)))
      else Write e (''{'' @ field_text ''error'' ''404 Not Found'' @ '', '' @ field_text ''path'' (rq_Path r) @ '', '' @
             field_text ''method'' (rq_Method r) @ ''}'')
           (WriteHeader e 404 (set_header ''Content-Type'' ''application/json'' w)))"

definition handleHTTP1 :: "env \<Rightarrow> Handler \<Rightarrow> handler" where
  "handleHTTP1 e h = Build e (middlewareChain h) (routeRequest e (cm_router h))"

definition handleHTTP2 :: "env \<Rightarrow> Handler \<Rightarrow> handler" where
  "handleHTTP2 e h w r = (if http2Server h then handleHTTP1 e h w r else Returns w)"

definition recordMetrics :: "Writer \<Rightarrow> Handler \<Rightarrow> Handler" where
  "recordMetrics w h =
     (let h = h\<lparr>TotalRequests := TotalRequests h + 1\<rparr>; code = (if cw_status w = 0 then 200 else cw_status w)
      in if code \<ge> 200 \<and> code < 400 then h\<lparr>SuccessfulRequests := SuccessfulRequests h + 1\<rparr>
         else h\<lparr>FailedRequests := FailedRequests h + 1\<rparr>)"

definition shouldKeepAlive :: "Req \<Rightarrow> bool" where
  "shouldKeepAlive r \<longleftrightarrow> header_Get ''Connection'' (rq_Header r) \<noteq> ''close'' \<and> \<not> (ProtoMajor r = 1 \<and> ProtoMinor r = 0)"

text \<open>
  \<open>old\<close>: the writer \<^verbatim>\<open>sync.Pool\<close> gives, used before or new. The handler after the call, and what
  became of the connection: \<open>Answered w closed\<close>, not answered and closed, or a call that never
  returns and so keeps its place.
\<close>

datatype answer = LimitExceeded | ParseFailed | Answered Writer bool | Panicked | Hangs

definition enter :: "Handler \<Rightarrow> Handler" where
  "enter h = h\<lparr>connLimiter := fst (Acquire (connLimiter h)), ActiveConnections := ActiveConnections h + 1\<rparr>"

definition exit :: "Handler \<Rightarrow> Handler" where
  "exit h = h\<lparr>connLimiter := Release (connLimiter h), ActiveConnections := ActiveConnections h - 1\<rparr>"

definition Handle :: "(bytes \<Rightarrow> Req option) \<Rightarrow> env \<Rightarrow> bytes \<Rightarrow> Writer \<Rightarrow> Handler \<Rightarrow> Handler \<times> answer" where
  "Handle parse e initialData old h =
     (if \<not> snd (Acquire (connLimiter h)) then (h, LimitExceeded)
      else (let h = enter h in case parse initialData of
          None \<Rightarrow> (exit (h\<lparr>FailedRequests := FailedRequests h + 1\<rparr>), ParseFailed)
        | Some r \<Rightarrow>
            (let w = (Reset old)\<lparr>latency := AverageLatency h\<rparr>
             in case (if EnableHTTP2 (cm_config h) \<and> ProtoMajor r = 2 then handleHTTP2 e h w r else handleHTTP1 e h w r) of
                Returns w \<Rightarrow> (exit ((recordMetrics w h)\<lparr>AverageLatency := latency w\<rparr>), Answered w (\<not> shouldKeepAlive r))
              | PanicsWith w p \<Rightarrow> (exit (h\<lparr>AverageLatency := latency w\<rparr>), Panicked)
              | Blocks \<Rightarrow> (h, Hangs))))"

text \<open>The error rate \<^verbatim>\<open>GetMetrics\<close> reports, in percent.\<close>

definition ErrorRate :: "Handler \<Rightarrow> rat" where
  "ErrorRate h = (if TotalRequests h > 0 then of_int (FailedRequests h) / of_int (TotalRequests h) * 100 else 0)"

section \<open>What is answered\<close>

lemma plain_Writes_sent:
  "cw_headerSent w \<Longrightarrow> \<exists>w'. plain_Writes e bs w = Returns w' \<and> cw_headerSent w' \<and> cw_status w' = cw_status w \<and>
    cw_header w' = cw_header w \<and> gzipped w' = gzipped w \<and> latency w' = latency w \<and> out w' = out w @ bs"
proof (induction bs arbitrary: w rule: rev_induct)
  case (snoc b bs)
  from snoc.IH[OF snoc.prems] obtain w' where "plain_Writes e bs w = Returns w'" "cw_headerSent w'" "cw_status w' = cw_status w"
    "cw_header w' = cw_header w" "gzipped w' = gzipped w" "latency w' = latency w" "out w' = out w @ bs" by blast
  then show ?case by (simp add: plain_Writes_def plain_Write_def)
qed (simp add: plain_Writes_def)

definition cors_headers :: "(string \<times> string list) list" where
  "cors_headers = [(''Access-Control-Allow-Origin'', [''*'']), (''Access-Control-Allow-Methods'', [''GET, POST, PUT, DELETE, OPTIONS'']),
     (''Access-Control-Allow-Headers'', [''Content-Type, Authorization''])]"

definition security_headers :: "(string \<times> string list) list" where
  "security_headers = [(''X-Content-Type-Options'', [''nosniff'']), (''X-Frame-Options'', [''DENY'']),
     (''X-XSS-Protection'', [''1; mode=block'']), (''Strict-Transport-Security'', [''max-age=31536000; includeSubDomains''])]"

definition compressed :: "OptimizedConnectionConfig \<Rightarrow> Req \<Rightarrow> bool" where
  "compressed cfg r \<longleftrightarrow> EnableGzip cfg \<and> contains_sub (header_Get ''Accept-Encoding'' (rq_Header r)) ''gzip''"

text \<open>The headers, the status and the pieces written, as they should be.\<close>

definition answer_headers :: "OptimizedConnectionConfig \<Rightarrow> Req \<Rightarrow> (string \<times> string list) list" where
  "answer_headers cfg r = (if compressed cfg r then [(''Content-Encoding'', [''gzip''])] else []) @ cors_headers @
     (if rq_Method r = ''OPTIONS'' then [] else security_headers @ [(''Content-Type'', [''application/json''])])"

definition answer_status :: "Req \<Rightarrow> int" where
  "answer_status r = (if rq_Method r = ''OPTIONS'' then 200 else 404)"

definition not_found_body :: "Req \<Rightarrow> string" where
  "not_found_body r = ''{'' @ field_text ''error'' ''404 Not Found'' @ '', '' @ field_text ''path'' (rq_Path r) @ '', '' @
     field_text ''method'' (rq_Method r) @ ''}''"

definition answer_bodies :: "env \<Rightarrow> OptimizedConnectionConfig \<Rightarrow> Req \<Rightarrow> string list" where
  "answer_bodies e cfg r =
     (if rq_Method r = ''OPTIONS'' then (if compressed cfg r then gz_close e [] else [])
      else if compressed cfg r then gz_write e [] (not_found_body r) @ gz_close e [not_found_body r] else [not_found_body r])"

definition answer_head :: "env \<Rightarrow> OptimizedConnectionConfig \<Rightarrow> Req \<Rightarrow> string" where
  "answer_head e cfg r = ''HTTP/1.1 '' @ show_int (answer_status r) @ '' '' @ StatusText e (answer_status r) @ crlf @
     header_lines (answer_headers cfg r) @ crlf"

definition fresh_writer :: "Writer \<Rightarrow> bool" where
  "fresh_writer w \<longleftrightarrow> \<not> cw_headerSent w \<and> cw_header w = [] \<and> gzipped w = None \<and> out w = []"

lemma inner_chain:
  assumes "Search (rq_Path r) t = []" "\<not> cw_headerSent w" "cw_header w = (if gzipped w = None then [] else [(''Content-Encoding'', [''gzip''])])"
    "out w = []" "gzipped w \<in> {None, Some []}"
  shows "\<exists>w'. CORSMiddleware e (SecurityHeadersMiddleware e (routeRequest e t)) w r = Returns w' \<and> cw_headerSent w' \<and>
    cw_status w' = answer_status r \<and> latency w' = latency w \<and>
    cw_header w' = (if gzipped w = None then [] else [(''Content-Encoding'', [''gzip''])]) @ cors_headers @
     (if rq_Method r = ''OPTIONS'' then [] else security_headers @ [(''Content-Type'', [''application/json''])]) \<and>
    out w' = (''HTTP/1.1 '' @ show_int (answer_status r) @ '' '' @ StatusText e (answer_status r) @ crlf @ header_lines (cw_header w') @ crlf)
      # (if rq_Method r = ''OPTIONS'' then [] else if gzipped w = None then [not_found_body r] else gz_write e [] (not_found_body r)) \<and>
    gzipped w' = (if gzipped w = None then None else Some (if rq_Method r = ''OPTIONS'' then [] else [not_found_body r]))"
proof -
  note hs = CORSMiddleware_def SecurityHeadersMiddleware_def routeRequest_def set_header_def Let_def WriteHeader_def cors_headers_def
    security_headers_def answer_status_def assms(1-4)
  show ?thesis
  proof (cases "rq_Method r = ''OPTIONS''")
    case True
    with assms(5) show ?thesis by (auto simp: hs)
  next
    case False
    show ?thesis
    proof (cases "gzipped w")
      case None
      with False show ?thesis by (simp add: hs Write_def plain_Write_def not_found_body_def)
    next
      case (Some x)
      with assms(5) have "gzipped w = Some []" by simp
      let ?w = "WriteHeader e 404 (set_header ''Content-Type'' ''application/json''
         (set_header ''Strict-Transport-Security'' ''max-age=31536000; includeSubDomains''
         (set_header ''X-XSS-Protection'' ''1; mode=block'' (set_header ''X-Frame-Options'' ''DENY''
         (set_header ''X-Content-Type-Options'' ''nosniff''
         (set_header ''Access-Control-Allow-Headers'' ''Content-Type, Authorization''
            (set_header ''Access-Control-Allow-Methods'' ''GET, POST, PUT, DELETE, OPTIONS''
            (set_header ''Access-Control-Allow-Origin'' ''*'' w))))))))"
      have sent: "cw_headerSent ?w" "gzipped ?w = Some []" "latency ?w = latency w" "cw_status ?w = 404"
        "cw_header ?w = [(''Content-Encoding'', [''gzip''])] @ cors_headers @ security_headers @ [(''Content-Type'', [''application/json''])]"
        "out ?w = [''HTTP/1.1 '' @ show_int 404 @ '' '' @ StatusText e 404 @ crlf @ header_lines (cw_header ?w) @ crlf]"
        by (simp_all add: WriteHeader_def set_header_def assms(2-4) \<open>gzipped w = Some []\<close> cors_headers_def security_headers_def)
      have c: "CORSMiddleware e (SecurityHeadersMiddleware e (routeRequest e t)) w r = Write e (not_found_body r) ?w"
        using False assms(1) by (simp add: CORSMiddleware_def SecurityHeadersMiddleware_def routeRequest_def Let_def not_found_body_def)
      from plain_Writes_sent[OF sent(1), of e "gz_write e [] (not_found_body r)"] sent False \<open>gzipped w = Some []\<close> show ?thesis
        unfolding c by (auto simp: Write_def answer_status_def)
    qed
  qed
qed

text \<open>A new average: the first latency, and the mean of the old average and the new latency after it.\<close>

definition averaged :: "rat \<Rightarrow> rat \<Rightarrow> rat" where
  "averaged avg d = (if avg = 0 then d else (avg + d) / 2)"

definition as_specified :: "env \<Rightarrow> OptimizedConnectionConfig \<Rightarrow> Req \<Rightarrow> Writer \<Rightarrow> bool" where
  "as_specified e cfg r w \<longleftrightarrow> cw_status w = answer_status r \<and> cw_header w = answer_headers cfg r \<and>
     out w = answer_head e cfg r # answer_bodies e cfg r"

lemma default_chain:
  assumes "Search (rq_Path r) t = []" "fresh_writer w"
  shows "\<exists>w'. Build e (DefaultMiddlewares cfg) (routeRequest e t) w r = Returns w' \<and> as_specified e cfg r w' \<and>
    latency w' = averaged (latency w) (elapsed e)"
proof -
  let ?in = "CORSMiddleware e (SecurityHeadersMiddleware e (routeRequest e t))"
  have "\<exists>w'. (if EnableGzip cfg then CompressionMiddleware e ?in else ?in) w r = Returns w' \<and> as_specified e cfg r w' \<and> latency w' = latency w"
  proof (cases "compressed cfg r")
    case False
    then have eq: "(if EnableGzip cfg then CompressionMiddleware e ?in else ?in) w r = ?in w r"
      by (auto simp: compressed_def CompressionMiddleware_def)
    from assms(2) have "\<not> cw_headerSent w" "cw_header w = (if gzipped w = None then [] else [(''Content-Encoding'', [''gzip''])])"
      "out w = []" "gzipped w \<in> {None, Some []}" "gzipped w = None" by (simp_all add: fresh_writer_def)
    from inner_chain[OF assms(1) this(1-4), of e] this(5) False show ?thesis
      unfolding eq as_specified_def answer_head_def answer_headers_def answer_bodies_def by force
  next
    case True
    let ?w = "(set_header ''Content-Encoding'' ''gzip'' w)\<lparr>gzipped := Some []\<rparr>"
    from assms(2) have p: "\<not> cw_headerSent ?w" "cw_header ?w = (if gzipped ?w = None then [] else [(''Content-Encoding'', [''gzip''])])"
      "out ?w = []" "gzipped ?w \<in> {None, Some []}" by (simp_all add: fresh_writer_def set_header_def)
    from inner_chain[OF assms(1) p, of e] obtain w1 where w1: "?in ?w r = Returns w1" "cw_headerSent w1" "cw_status w1 = answer_status r"
      "latency w1 = latency w" "cw_header w1 = answer_headers cfg r"
      "out w1 = answer_head e cfg r # (if rq_Method r = ''OPTIONS'' then [] else gz_write e [] (not_found_body r))"
      "gzipped w1 = Some (if rq_Method r = ''OPTIONS'' then [] else [not_found_body r])"
      using True unfolding answer_head_def answer_headers_def by (force simp: set_header_def)
    let ?past = "if rq_Method r = ''OPTIONS'' then [] else [not_found_body r]"
    have "cw_headerSent (w1\<lparr>gzipped := None\<rparr>)" using w1(2) by simp
    from plain_Writes_sent[OF this, of e "gz_close e ?past"] obtain w2 where w2: "plain_Writes e (gz_close e ?past) (w1\<lparr>gzipped := None\<rparr>) = Returns w2"
      "cw_status w2 = cw_status w1" "cw_header w2 = cw_header w1" "latency w2 = latency w1" "out w2 = out w1 @ gz_close e ?past" by auto
    have eq: "(if EnableGzip cfg then CompressionMiddleware e ?in else ?in) w r = Returns w2"
      using True w1(1,7) w2(1) by (simp add: compressed_def CompressionMiddleware_def gzip_Close_def)
    show ?thesis unfolding eq as_specified_def using w1 w2 True by (auto simp: answer_bodies_def)
  qed
  then show ?thesis
    by (auto simp: Build_def DefaultMiddlewares_def LoggingMiddleware_def RecoveryMiddleware_def MetricsMiddleware_def averaged_def
        as_specified_def split: if_splits)
qed

text \<open>A handler between requests, and what one request does to it.\<close>

definition at_rest :: "RadixTree \<Rightarrow> OptimizedConnectionConfig \<Rightarrow> Handler \<Rightarrow> bool" where
  "at_rest t cfg h \<longleftrightarrow> cm_router h = t \<and> cm_config h = cfg \<and> middlewareChain h = DefaultMiddlewares cfg \<and>
     http2Server h = EnableHTTP2 cfg \<and> connLimiter h = \<lparr>maxConnections = MaxConcurrentConns cfg, current = 0\<rparr> \<and> ActiveConnections h = 0"

definition served :: "Req option \<Rightarrow> env \<Rightarrow> Handler \<Rightarrow> Handler" where
  "served req e h = (case req of None \<Rightarrow> h\<lparr>FailedRequests := FailedRequests h + 1\<rparr>
     | Some r \<Rightarrow> h\<lparr>TotalRequests := TotalRequests h + 1, AverageLatency := averaged (AverageLatency h) (elapsed e),
         SuccessfulRequests := SuccessfulRequests h + (if rq_Method r = ''OPTIONS'' then 1 else 0),
         FailedRequests := FailedRequests h + (if rq_Method r = ''OPTIONS'' then 0 else 1)\<rparr>)"

lemma Handle_at_rest:
  assumes "at_rest t cfg h" "0 < MaxConcurrentConns cfg" "\<And>p. Search p t = []"
  shows "\<exists>a. Handle parse e d old h = (served (parse d) e h, a) \<and>
    (case parse d of None \<Rightarrow> a = ParseFailed | Some r \<Rightarrow> \<exists>w. a = Answered w (\<not> shouldKeepAlive r) \<and> as_specified e cfg r w)"
proof -
  from assms(1) have h: "cm_router h = t" "cm_config h = cfg" "middlewareChain h = DefaultMiddlewares cfg" "http2Server h = EnableHTTP2 cfg"
    "connLimiter h = \<lparr>maxConnections = MaxConcurrentConns cfg, current = 0\<rparr>" "ActiveConnections h = 0" by (auto simp: at_rest_def)
  show ?thesis
  proof (cases "parse d")
    case None
    with h assms(2) show ?thesis
      by (auto simp: Handle_def Acquire_def enter_def exit_def Release_def served_def intro!: Handler.equality)
  next
    case (Some r)
    let ?w = "(Reset old)\<lparr>latency := AverageLatency (enter h)\<rparr>"
    have "fresh_writer ?w" by (simp add: fresh_writer_def Reset_def)
    from default_chain[OF assms(3) this, where cfg = cfg and r = r and e = e] obtain w where
      w: "Build e (DefaultMiddlewares cfg) (routeRequest e t) ?w r = Returns w" "as_specified e cfg r w"
      "latency w = averaged (AverageLatency h) (elapsed e)" by (auto simp: enter_def)
    have run: "(if EnableHTTP2 (cm_config (enter h)) \<and> ProtoMajor r = 2 then handleHTTP2 e (enter h) ?w r else handleHTTP1 e (enter h) ?w r) = Returns w"
      using w(1) h by (simp add: enter_def handleHTTP2_def handleHTTP1_def)
    have "exit ((recordMetrics w (enter h))\<lparr>AverageLatency := latency w\<rparr>) = served (Some r) e h"
      using w(2,3) h(5,6) assms(2) by (auto simp: recordMetrics_def as_specified_def answer_status_def enter_def exit_def Acquire_def Release_def
          served_def intro!: Handler.equality)
    with w(2) run Some h(5) assms(2) show ?thesis by (simp add: Handle_def Acquire_def Let_def)
  qed
qed

text \<open>The requests of a run: what was received, and the writer the pool gave for it.\<close>

definition handle_all :: "(bytes \<Rightarrow> Req option) \<Rightarrow> (env \<times> bytes \<times> Writer) list \<Rightarrow> Handler \<Rightarrow> Handler" where
  "handle_all parse calls h = fold (\<lambda>(e, d, old) h. fst (Handle parse e d old h)) calls h"

definition parsed :: "(bytes \<Rightarrow> Req option) \<Rightarrow> (env \<times> bytes \<times> Writer) list \<Rightarrow> Req list" where
  "parsed parse calls = List.map_filter (\<lambda>(e, d, old). parse d) calls"

definition accounts :: "(bytes \<Rightarrow> Req option) \<Rightarrow> (env \<times> bytes \<times> Writer) list \<Rightarrow> Handler \<Rightarrow> bool" where
  "accounts parse calls h \<longleftrightarrow> TotalRequests h = int (length (parsed parse calls)) \<and>
     SuccessfulRequests h = int (length (filter (\<lambda>r. rq_Method r = ''OPTIONS'') (parsed parse calls))) \<and>
     SuccessfulRequests h + FailedRequests h = int (length calls)"

lemma served_at_rest: "at_rest t cfg h \<Longrightarrow> at_rest t cfg (served req e h)"
  by (auto simp: at_rest_def served_def split: option.splits)

lemma handle_all_at_rest:
  assumes "at_rest t cfg h" "0 < MaxConcurrentConns cfg" "\<And>p. Search p t = []" "accounts parse done h"
  shows "at_rest t cfg (handle_all parse calls h) \<and> accounts parse (done @ calls) (handle_all parse calls h)"
  using assms(1,4)
proof (induction calls arbitrary: h "done")
  case (Cons c calls)
  obtain e d old where c: "c = (e, d, old)" by (cases c)
  from Handle_at_rest[OF Cons.prems(1) assms(2,3), of parse e d old] have s: "fst (Handle parse e d old h) = served (parse d) e h" by auto
  have "accounts parse (done @ [c]) (served (parse d) e h)" using Cons.prems(2)
    by (cases "parse d") (auto simp: accounts_def served_def parsed_def c map_filter_simps List.map_filter_def)
  from Cons.IH[OF served_at_rest[OF Cons.prems(1)] this] show ?case by (simp add: handle_all_def c s)
qed (simp add: handle_all_def)


definition demo_env :: env where
  "demo_env = \<lparr>StatusText = (\<lambda>_. ''Not Found''), http_date = [], conn_write = (\<lambda>b. (int (length b), None)),
     gz_write = (\<lambda>_ _. []), gz_close = (\<lambda>past. [''gz'']), elapsed = 1 / 100, timestamp = []\<rparr>"

definition demo_req :: Req where
  "demo_req = \<lparr>rq_Method = ''GET'', rq_Path = ''/users'', rq_Header = [(''Connection'', [''close''])], ProtoMajor = 1, ProtoMinor = 1\<rparr>"

definition used_writer :: Writer where
  "used_writer = \<lparr>out = [''old''], cw_header = [(''X'', [''y''])], cw_status = 200, cw_written = 9, cw_headerSent = True, gzipped = None, latency = 0\<rparr>"


text \<open>
  Failed parses are counted as failed but not in the total, so the error rate can pass 100 percent.
  A handler cannot be stopped twice, even after it was started again. A panic before the header,
  with compression, blocks for ever: the deferred \<^verbatim>\<open>Close\<close> writes before \<^verbatim>\<open>RecoveryMiddleware\<close> runs.
\<close>

lemma error_rate_above_100: "ErrorRate (served None e (served None e (served (Some r) e
    (NewOptimizedConnectionHandler t c)))) = (if rq_Method r = ''OPTIONS'' then 200 else 300)"
  by (simp add: ErrorRate_def served_def NewOptimizedConnectionHandler_def Let_def)

lemma second_stop_panics:
  assumes "Start h = Inr h1" "Stop h1 = Some (Inr h2)" "Start h2 = Inr h3"
  shows "Stop h3 = None"
  using assms by (auto simp: Start_def Stop_def split: if_splits)

lemma compressed_panic_blocks:
  assumes "contains_sub (header_Get ''Accept-Encoding'' (rq_Header r)) ''gzip''" "\<not> cw_headerSent w" "gz_close e [] \<noteq> []"
  shows "Build e [RecoveryMiddleware, CompressionMiddleware] (\<lambda>w r. PanicsWith w msg) w r = Blocks"
proof -
  have "foldl (\<lambda>r b. bind_res r (plain_Write e b)) Blocks bs = Blocks" for bs by (induction bs) simp_all
  then have "plain_Writes e (gz_close e []) w' = Blocks" if "\<not> cw_headerSent w'" for w'
    using assms(3) that by (cases "gz_close e []") (simp_all add: plain_Writes_def plain_Write_def)
  with assms show ?thesis by (simp add: Build_def RecoveryMiddleware_def CompressionMiddleware_def gzip_Close_def set_header_def)
qed

end
