(* ===== verification/Processor_Manager.thy ===== *)
theory Processor_Manager
  imports Prelude Complex_Main
begin

text \<open>
  The protocol processor and the processor manager of \<^verbatim>\<open>core/handler/processor_manager.go\<close>: the
  detection by first bytes and its metrics; the groups of handlers and their round-robin selection;
  and the two mutexes of the manager and of a group as a step relation over any number of threads.
  The lemmas show the selection order, where the detection panics, and how selection deadlocks.
\<close>

section \<open>The protocol processor\<close>

record ProcessorConfig =
  Timeout :: duration
  EnableCaching :: bool
  EnableBatching :: bool
  CacheSize :: int

record ProcessorMetrics =
  pm_RequestQueueTime :: rat
  pm_MemoryPressure :: rat
  pm_ErrorRateSlope :: rat
  pm_ActiveConnections :: int
  pm_ProcessedRequests :: int
  pm_AverageLatency :: rat
  pm_Throughput :: rat
  pm_ErrorRate :: rat
  pm_QueueDepth :: int
  pm_CacheHitRate :: rat
  pm_ProtocolParseTime :: rat

definition emptyProcessorMetrics :: ProcessorMetrics where
  "emptyProcessorMetrics = \<lparr>pm_RequestQueueTime = 0, pm_MemoryPressure = 0, pm_ErrorRateSlope = 0, pm_ActiveConnections = 0,
     pm_ProcessedRequests = 0, pm_AverageLatency = 0, pm_Throughput = 0, pm_ErrorRate = 0, pm_QueueDepth = 0,
     pm_CacheHitRate = 0, pm_ProtocolParseTime = 0\<rparr>"

text \<open>
  \<open>back\<close> is the array of the slice beyond its length: \<^verbatim>\<open>data[:6]\<close> reads up to the capacity and panics
  (\<open>None\<close>) where that is less than 6.
\<close>

definition prefix_up_to :: "nat \<Rightarrow> bytes \<Rightarrow> bytes \<Rightarrow> bytes option" where
  "prefix_up_to n data back = (if n \<le> length (data @ back) then Some (take n (data @ back)) else None)"

definition detectProtocolFromData :: "bytes \<Rightarrow> bytes \<Rightarrow> string option" where
  "detectProtocolFromData data back =
     (if length data < 4 then Some ''unknown''
      else if take 4 data = bytes_of ''GET '' \<or> take 4 data = bytes_of ''POST'' \<or> take 3 data = bytes_of ''PUT'' then Some ''http''
      else case prefix_up_to 6 data back of
        None \<Rightarrow> None
      | Some six \<Rightarrow>
          if six = bytes_of ''DELETE'' then Some ''http''
          else if length data \<ge> 9 \<and> data ! 0 = 0 then Some ''grpc''
          else if length data \<ge> 16 \<and> take 3 data = bytes_of ''GET'' \<and> length data \<ge> 17 \<and> data ! 16 = of_char CHR '' '' then Some ''websocket''
          else Some ''unknown'')"

text \<open>\<open>parse\<close>: the simulated parse time, the clock modulo 1000 in thousandths.\<close>

definition updateMetrics :: "rat \<Rightarrow> bool \<Rightarrow> ProcessorMetrics \<Rightarrow> ProcessorMetrics" where
  "updateMetrics parse success m = m\<lparr>pm_ProtocolParseTime := parse,
     pm_ErrorRate := (if \<not> success then (pm_ErrorRate m + 1) / 2 else pm_ErrorRate m * (95 / 100)),
     pm_QueueDepth := \<lfloor>of_int (pm_ActiveConnections m) * (3 / 10 :: rat)\<rfloor>\<rparr>"

definition handleHTTPWithCache :: "ProcessorMetrics \<Rightarrow> ProcessorMetrics" where
  "handleHTTPWithCache m = m\<lparr>pm_CacheHitRate := (pm_CacheHitRate m + 8 / 10) / 2\<rparr>"

definition handleHTTP :: "ProcessorConfig \<Rightarrow> rat \<Rightarrow> ProcessorMetrics \<Rightarrow> ProcessorMetrics" where
  "handleHTTP cfg parse m = (if EnableCaching cfg then handleHTTPWithCache m else updateMetrics parse True m)"

definition handleWebSocket :: "ProcessorConfig \<Rightarrow> rat \<Rightarrow> ProcessorMetrics \<Rightarrow> ProcessorMetrics" where
  "handleWebSocket cfg parse m = (if EnableBatching cfg then m else updateMetrics parse True m)"

definition handleGRPC :: "rat \<Rightarrow> ProcessorMetrics \<Rightarrow> ProcessorMetrics" where
  "handleGRPC parse m = updateMetrics parse True m"

definition handleGeneric :: "rat \<Rightarrow> ProcessorMetrics \<Rightarrow> ProcessorMetrics" where
  "handleGeneric parse m = updateMetrics parse True m"

text \<open>
  \<^verbatim>\<open>Handle\<close> with its deferred accounting, which runs also when the detection panics (\<open>False\<close>). \<open>ms\<close>
  is the duration in milliseconds, \<open>secs\<close> in seconds.
\<close>

definition finished :: "rat \<Rightarrow> rat \<Rightarrow> ProcessorMetrics \<Rightarrow> ProcessorMetrics" where
  "finished ms secs m = m\<lparr>pm_ActiveConnections := pm_ActiveConnections m - 1, pm_ProcessedRequests := pm_ProcessedRequests m + 1,
     pm_AverageLatency := (pm_AverageLatency m + ms) / 2, pm_Throughput := of_int (pm_ProcessedRequests m + 1) / secs\<rparr>"

definition Handle :: "ProcessorConfig \<Rightarrow> rat \<Rightarrow> rat \<Rightarrow> rat \<Rightarrow> bytes \<Rightarrow> bytes \<Rightarrow> ProcessorMetrics \<Rightarrow> ProcessorMetrics \<times> bool" where
  "Handle cfg parse ms secs data back m =
     (let m = m\<lparr>pm_ActiveConnections := pm_ActiveConnections m + 1\<rparr>
      in case detectProtocolFromData data back of
        None \<Rightarrow> (finished ms secs m, False)
      | Some p \<Rightarrow> (finished ms secs
          (if p = ''http'' then handleHTTP cfg parse m else if p = ''websocket'' then handleWebSocket cfg parse m
           else if p = ''grpc'' then handleGRPC parse m else handleGeneric parse m), True))"

definition ProcessConnection :: "ProcessorMetrics \<Rightarrow> ProcessorMetrics" where
  "ProcessConnection m = m\<lparr>pm_ProcessedRequests := pm_ProcessedRequests m + 1\<rparr>"

definition GetCacheStats :: "ProcessorConfig \<Rightarrow> ProcessorMetrics \<Rightarrow> rat \<times> rat \<times> int \<times> int \<times> int" where
  "GetCacheStats cfg m = (pm_CacheHitRate m, 1 - pm_CacheHitRate m, \<lfloor>pm_CacheHitRate m * of_int (pm_ProcessedRequests m)\<rfloor>,
     \<lfloor>(1 - pm_CacheHitRate m) * of_int (pm_ProcessedRequests m)\<rfloor>, CacheSize cfg)"

section \<open>The processor manager\<close>

text \<open>Groups are shared objects and held by address; handlers are numbers.\<close>

record ProcessorGroup =
  pg_Type :: string
  Handlers :: "nat list"
  pg_Metrics :: ProcessorMetrics

record ProcessorManager =
  group_at :: "nat \<Rightarrow> ProcessorGroup"
  fresh_group :: nat
  groups :: "string \<rightharpoonup> nat"
  strategy :: "string \<Rightarrow> (string \<rightharpoonup> nat) \<Rightarrow> nat option"
  rrIndex :: "string \<Rightarrow> 64 word"

definition ProtocolAwareStrategy :: "string \<Rightarrow> (string \<rightharpoonup> nat) \<Rightarrow> nat option" where
  "ProtocolAwareStrategy pr gs = gs pr"

definition new_group :: "string \<Rightarrow> ProcessorManager \<Rightarrow> ProcessorManager" where
  "new_group pr m = m\<lparr>group_at := (group_at m)(fresh_group m := \<lparr>pg_Type = pr, Handlers = [], pg_Metrics = emptyProcessorMetrics\<rparr>),
     groups := (groups m)(pr \<mapsto> fresh_group m), fresh_group := fresh_group m + 1\<rparr>"

definition initProcessorGroups :: "ProcessorManager \<Rightarrow> ProcessorManager" where
  "initProcessorGroups m = new_group ''grpc'' (new_group ''websocket'' (new_group ''http'' m))"

definition NewProcessorManager :: ProcessorManager where
  "NewProcessorManager = initProcessorGroups \<lparr>group_at = (\<lambda>_. \<lparr>pg_Type = [], Handlers = [], pg_Metrics = emptyProcessorMetrics\<rparr>),
     fresh_group = 0, groups = Map.empty, strategy = ProtocolAwareStrategy, rrIndex = (\<lambda>_. 0)\<rparr>"

definition append_handler :: "nat \<Rightarrow> nat \<Rightarrow> ProcessorManager \<Rightarrow> ProcessorManager" where
  "append_handler g h m = m\<lparr>group_at := (group_at m)(g := (group_at m g)\<lparr>Handlers := Handlers (group_at m g) @ [h]\<rparr>)\<rparr>"

definition AddProcessor :: "string \<Rightarrow> nat \<Rightarrow> ProcessorManager \<Rightarrow> ProcessorManager" where
  "AddProcessor pr h m = (case groups m pr of None \<Rightarrow> m | Some g \<Rightarrow> append_handler g h m)"

definition RegisterHandler :: "string \<Rightarrow> nat \<Rightarrow> ProcessorManager \<Rightarrow> ProcessorManager" where
  "RegisterHandler pr h m =
     (let m = (if groups m pr = None then new_group pr m else m) in append_handler (the (groups m pr)) h m)"

definition SetLoadBalancingStrategy :: "(string \<Rightarrow> (string \<rightharpoonup> nat) \<Rightarrow> nat option) \<Rightarrow> ProcessorManager \<Rightarrow> ProcessorManager" where
  "SetLoadBalancingStrategy s m = m\<lparr>strategy := s\<rparr>"

text \<open>\<open>int(cur % uint64(n))\<close> on the 64-bit counter of the protocol.\<close>

definition SelectProcessor :: "string \<Rightarrow> ProcessorManager \<Rightarrow> ProcessorManager \<times> nat option" where
  "SelectProcessor pr m = (case groups m pr of
     None \<Rightarrow> (m, None)
   | Some g \<Rightarrow>
       if Handlers (group_at m g) = [] then (m, None)
       else (let s = (case strategy m pr (groups m) of None \<Rightarrow> g | Some s \<Rightarrow> s); hs = Handlers (group_at m s)
             in if hs = [] then (m, None)
                else (m\<lparr>rrIndex := (rrIndex m)(pr := rrIndex m pr + 1)\<rparr>,
                      Some (hs ! unat (rrIndex m pr mod of_nat (length hs))))))"

definition GetProcessorMetrics :: "string \<Rightarrow> ProcessorManager \<Rightarrow> ProcessorMetrics \<times> bool" where
  "GetProcessorMetrics pr m = (case groups m pr of None \<Rightarrow> (emptyProcessorMetrics, False) | Some g \<Rightarrow> (pg_Metrics (group_at m g), True))"

text \<open>The simulated metrics of every group; \<open>ns\<close> is the clock in nanoseconds.\<close>

definition updateProcessorMetrics :: "int \<Rightarrow> ProcessorManager \<Rightarrow> ProcessorManager" where
  "updateProcessorMetrics ns m = m\<lparr>group_at := (\<lambda>g. if g \<in> ran (groups m) then (group_at m g)\<lparr>pg_Metrics := (pg_Metrics (group_at m g))
       \<lparr>pm_RequestQueueTime := of_int (ns mod 100) / 1000, pm_MemoryPressure := of_int (ns mod 50) / 100,
        pm_ErrorRateSlope := of_int (ns mod 10) / 100, pm_ActiveConnections := ns mod 100\<rparr>\<rparr> else group_at m g)\<rparr>"

section \<open>The two mutexes\<close>

text \<open>
  The locks of the manager and of one group, and the threads that use them: a selection locks the
  manager for reading, releases it, locks the group for reading and then the manager for writing; an
  addition locks the manager and then the group for writing; the metrics loop reads the manager and
  writes the group. A number counts the operations a thread has done.
\<close>

datatype call = Select | Add | Update

record rwlock =
  readers :: "nat list"
  writer :: "nat option"

record locks =
  manager_lock :: rwlock
  group_lock :: rwlock
  threads :: "(call \<times> nat) list"

datatype lock_op = RLock bool | RUnlock bool | WLock bool | WUnlock bool

text \<open>\<open>True\<close> names the lock of the manager.\<close>

fun program :: "call \<Rightarrow> lock_op list" where
  "program Select = [RLock True, RUnlock True, RLock False, WLock True, WUnlock True, RUnlock False]"
| "program Add = [WLock True, WLock False, WUnlock False, WUnlock True]"
| "program Update = [RLock True, WLock False, WUnlock False, RUnlock True]"

definition lock_of :: "bool \<Rightarrow> locks \<Rightarrow> rwlock" where
  "lock_of b s = (if b then manager_lock s else group_lock s)"

definition set_lock :: "bool \<Rightarrow> rwlock \<Rightarrow> locks \<Rightarrow> locks" where
  "set_lock b l s = (if b then s\<lparr>manager_lock := l\<rparr> else s\<lparr>group_lock := l\<rparr>)"

fun lock_step :: "nat \<Rightarrow> lock_op \<Rightarrow> locks \<Rightarrow> locks option" where
  "lock_step t (RLock b) s = (if writer (lock_of b s) = None then Some (set_lock b ((lock_of b s)\<lparr>readers := t # readers (lock_of b s)\<rparr>) s) else None)"
| "lock_step t (RUnlock b) s = Some (set_lock b ((lock_of b s)\<lparr>readers := remove1 t (readers (lock_of b s))\<rparr>) s)"
| "lock_step t (WLock b) s = (if writer (lock_of b s) = None \<and> readers (lock_of b s) = [] then Some (set_lock b ((lock_of b s)\<lparr>writer := Some t\<rparr>) s) else None)"
| "lock_step t (WUnlock b) s = Some (set_lock b ((lock_of b s)\<lparr>writer := None\<rparr>) s)"

text \<open>A thread does its next operation, or a new thread begins a call.\<close>

definition run_thread :: "nat \<Rightarrow> locks \<Rightarrow> locks option" where
  "run_thread t s = (case threads s ! t of (c, k) \<Rightarrow>
     if k < length (program c)
     then map_option (\<lambda>s. s\<lparr>threads := (threads s)[t := (c, Suc k)]\<rparr>) (lock_step t (program c ! k) s) else None)"

inductive pm_step :: "locks \<Rightarrow> locks \<Rightarrow> bool" where
  begins: "pm_step s (s\<lparr>threads := threads s @ [(c, 0)]\<rparr>)"
| runs: "t < length (threads s) \<Longrightarrow> run_thread t s = Some s' \<Longrightarrow> pm_step s s'"

definition idle_locks :: locks where
  "idle_locks = \<lparr>manager_lock = \<lparr>readers = [], writer = None\<rparr>, group_lock = \<lparr>readers = [], writer = None\<rparr>, threads = []\<rparr>"

section \<open>The order of selection\<close>

fun select_many :: "nat \<Rightarrow> string \<Rightarrow> ProcessorManager \<Rightarrow> nat option list" where
  "select_many 0 pr m = []"
| "select_many (Suc k) pr m = (let (m, h) = SelectProcessor pr m in h # select_many k pr m)"

lemma SelectProcessor_next:
  assumes "groups m pr = Some g" "strategy m = ProtocolAwareStrategy" "Handlers (group_at m g) = hs" "hs \<noteq> []" "length hs < 2 ^ 64"
  shows "SelectProcessor pr m = (m\<lparr>rrIndex := (rrIndex m)(pr := rrIndex m pr + 1)\<rparr>, Some (hs ! (unat (rrIndex m pr) mod length hs)))"
proof -
  have "unat (of_nat (length hs) :: 64 word) = length hs" using assms(5) by (simp add: unat_of_nat)
  with assms show ?thesis by (simp add: SelectProcessor_def ProtocolAwareStrategy_def unat_mod)
qed

text \<open>
  With the strategy of the package, consecutive selections for a protocol go round its handlers
  in the order they were registered, starting where the counter of the protocol stands, until the
  64-bit counter wraps.
\<close>

lemma processor_selection_round_robin:
  assumes "groups m pr = Some g" "strategy m = ProtocolAwareStrategy" "Handlers (group_at m g) = hs" "hs \<noteq> []" "length hs < 2 ^ 64"
    "unat (rrIndex m pr) + k \<le> 2 ^ 64"
  shows "select_many k pr m = map (\<lambda>i. Some (hs ! ((unat (rrIndex m pr) + i) mod length hs))) [0..<k]"
  using assms
proof (induction k arbitrary: m)
  case (Suc k)
  let ?m = "m\<lparr>rrIndex := (rrIndex m)(pr := rrIndex m pr + 1)\<rparr>"
  show ?case
  proof (cases k)
    case 0
    then show ?thesis using SelectProcessor_next[OF Suc.prems(1-5)] by simp
  next
    case (Suc k')
    then have "unat (rrIndex m pr) + 1 < 2 ^ 64" using Suc.prems(6) by simp
    then have n: "unat (rrIndex m pr + 1) = Suc (unat (rrIndex m pr))" by (simp add: unat_word_ariths)
    have "select_many k pr ?m = map (\<lambda>i. Some (hs ! ((unat (rrIndex ?m pr) + i) mod length hs))) [0..<k]"
      by (rule Suc.IH) (use Suc.prems n in auto)
    then show ?thesis using SelectProcessor_next[OF Suc.prems(1-5)] n
      by (simp add: upt_conv_Cons map_Suc_upt[symmetric] del: upt_Suc)
  qed
qed simp

section \<open>Deadlock\<close>

text \<open>Which locks a thread holds for reading and for writing.\<close>

fun holdsR :: "bool \<Rightarrow> call \<times> nat \<Rightarrow> bool" where
  "holdsR True (Select, k) \<longleftrightarrow> k = 1"
| "holdsR True (Update, k) \<longleftrightarrow> k = 1 \<or> k = 2 \<or> k = 3"
| "holdsR False (Select, k) \<longleftrightarrow> k = 3 \<or> k = 4 \<or> k = 5"
| "holdsR _ _ \<longleftrightarrow> False"

fun holdsW :: "bool \<Rightarrow> call \<times> nat \<Rightarrow> bool" where
  "holdsW True (Select, k) \<longleftrightarrow> k = 4"
| "holdsW True (Add, k) \<longleftrightarrow> k = 1 \<or> k = 2 \<or> k = 3"
| "holdsW False (Add, k) \<longleftrightarrow> k = 2"
| "holdsW False (Update, k) \<longleftrightarrow> k = 2"
| "holdsW _ _ \<longleftrightarrow> False"

definition lock_ok :: "bool \<Rightarrow> locks \<Rightarrow> bool" where
  "lock_ok b s \<longleftrightarrow> distinct (readers (lock_of b s)) \<and>
     (\<forall>t. t \<in> set (readers (lock_of b s)) \<longleftrightarrow> t < length (threads s) \<and> holdsR b (threads s ! t)) \<and>
     (\<forall>t. writer (lock_of b s) = Some t \<longleftrightarrow> t < length (threads s) \<and> holdsW b (threads s ! t)) \<and>
     (writer (lock_of b s) \<noteq> None \<longrightarrow> readers (lock_of b s) = [])"

definition locks_ok :: "locks \<Rightarrow> bool" where
  "locks_ok s \<longleftrightarrow> lock_ok True s \<and> lock_ok False s"

definition same_holds :: "bool \<Rightarrow> call \<times> nat \<Rightarrow> call \<times> nat \<Rightarrow> bool" where
  "same_holds b x y \<longleftrightarrow> holdsR b y = holdsR b x \<and> holdsW b y = holdsW b x"

fun change :: "lock_op \<Rightarrow> bool \<Rightarrow> call \<times> nat \<Rightarrow> call \<times> nat \<Rightarrow> bool" where
  "change (RLock a) b x y \<longleftrightarrow> (if a = b then \<not> holdsR b x \<and> holdsR b y \<and> \<not> holdsW b x \<and> \<not> holdsW b y else same_holds b x y)"
| "change (RUnlock a) b x y \<longleftrightarrow> (if a = b then holdsR b x \<and> \<not> holdsR b y \<and> \<not> holdsW b x \<and> \<not> holdsW b y else same_holds b x y)"
| "change (WLock a) b x y \<longleftrightarrow> (if a = b then \<not> holdsR b x \<and> \<not> holdsR b y \<and> \<not> holdsW b x \<and> holdsW b y else same_holds b x y)"
| "change (WUnlock a) b x y \<longleftrightarrow> (if a = b then \<not> holdsR b x \<and> \<not> holdsR b y \<and> holdsW b x \<and> \<not> holdsW b y else same_holds b x y)"

lemma program_change: "k < length (program c) \<Longrightarrow> change (program c ! k) b (c, k) (c, Suc k)"
  by (cases c; cases b) (auto simp: same_holds_def less_Suc_eq eval_nat_numeral)

lemma lock_of_set: "lock_of b (set_lock a l s) = (if a = b then l else lock_of b s)" "threads (set_lock a l s) = threads s"
  by (auto simp: lock_of_def set_lock_def)

lemma lock_of_threads [simp]: "lock_of b (s\<lparr>threads := ts\<rparr>) = lock_of b s"
  by (simp add: lock_of_def)

lemma lock_ok_step:
  assumes "lock_ok b s" "t < length (threads s)" "lock_step t op s = Some s1" "change op b (threads s ! t) y"
  shows "lock_ok b (s1\<lparr>threads := (threads s)[t := y]\<rparr>)"
proof -
  have same: "lock_ok b (s1\<lparr>threads := (threads s)[t := y]\<rparr>)" if "lock_of b s1 = lock_of b s" "same_holds b (threads s ! t) y"
    using assms(1,2) that by (simp add: lock_ok_def same_holds_def nth_list_update)
  note ok = assms(1)[unfolded lock_ok_def]
  show ?thesis
  proof (cases op)
    case (RLock a)
    show ?thesis
    proof (cases "a = b")
      case True
      with RLock assms(3) have s1: "writer (lock_of b s) = None" "lock_of b s1 = (lock_of b s)\<lparr>readers := t # readers (lock_of b s)\<rparr>"
        by (auto simp: lock_of_set split: if_splits)
      have "t \<notin> set (readers (lock_of b s))" using ok RLock True assms(4) by auto
      with ok s1 RLock True assms(2,4) show ?thesis by (auto simp: lock_ok_def nth_list_update)
    qed (use assms(3,4) RLock same in \<open>auto simp: lock_of_set split: if_splits\<close>)
  next
    case (RUnlock a)
    show ?thesis
    proof (cases "a = b")
      case True
      with RUnlock assms(3) have s1: "lock_of b s1 = (lock_of b s)\<lparr>readers := remove1 t (readers (lock_of b s))\<rparr>" by (auto simp: lock_of_set)
      with ok RUnlock True assms(2,4) show ?thesis by (auto simp: lock_ok_def nth_list_update set_remove1_eq)
    qed (use assms(3,4) RUnlock same in \<open>auto simp: lock_of_set\<close>)
  next
    case (WLock a)
    show ?thesis
    proof (cases "a = b")
      case True
      with WLock assms(3) have s1: "writer (lock_of b s) = None" "readers (lock_of b s) = []" "lock_of b s1 = (lock_of b s)\<lparr>writer := Some t\<rparr>"
        by (auto simp: lock_of_set split: if_splits)
      with ok WLock True assms(2,4) show ?thesis by (auto simp: lock_ok_def nth_list_update)
    qed (use assms(3,4) WLock same in \<open>auto simp: lock_of_set split: if_splits\<close>)
  next
    case (WUnlock a)
    show ?thesis
    proof (cases "a = b")
      case True
      with WUnlock assms(3) have s1: "lock_of b s1 = (lock_of b s)\<lparr>writer := None\<rparr>" by (auto simp: lock_of_set)
      from WUnlock True assms(4) have y: "holdsW b (threads s ! t)" "\<not> holdsR b y" "\<not> holdsW b y" by simp_all
      then have w: "writer (lock_of b s) = Some t" using ok assms(2) by blast
      then have nr: "readers (lock_of b s) = []" using ok by blast
      have r: "\<not> holdsR b (threads s ! u)" if "u < length (threads s)" for u using ok nr that by (metis empty_iff empty_set)
      have nw: "u = t" if "u < length (threads s)" "holdsW b (threads s ! u)" for u using ok w that by (metis option.inject)
      have "\<not> holdsR b ((threads s)[t := y] ! u)" "\<not> holdsW b ((threads s)[t := y] ! u)" if "u < length (threads s)" for u
        using y(2,3) r nw that by (cases "u = t"; auto)+
      then show ?thesis unfolding lock_ok_def by (simp add: s1 nr)
    qed (use assms(3,4) WUnlock same in \<open>auto simp: lock_of_set\<close>)
  qed
qed

lemma run_thread_cases:
  assumes "run_thread t s = Some s'"
  obtains c k s1 where "threads s ! t = (c, k)" "k < length (program c)" "lock_step t (program c ! k) s = Some s1"
    "s' = s1\<lparr>threads := (threads s)[t := (c, Suc k)]\<rparr>"
proof -
  obtain c k where ck: "threads s ! t = (c, k)" by fastforce
  with assms obtain s1 where "k < length (program c)" "lock_step t (program c ! k) s = Some s1" "s' = s1\<lparr>threads := (threads s1)[t := (c, Suc k)]\<rparr>"
    by (auto simp: run_thread_def split: if_splits)
  moreover from this(2) have "threads s1 = threads s" by (cases "program c ! k") (auto simp: lock_of_set split: if_splits)
  ultimately show ?thesis using that ck by simp
qed

lemma locks_ok_step: "pm_step s s' \<Longrightarrow> locks_ok s \<Longrightarrow> locks_ok s'"
proof (induction rule: pm_step.induct)
  case (begins s c)
  have "\<not> holdsR b (c, 0)" "\<not> holdsW b (c, 0)" for b by (cases b; cases c; simp)+
  with begins show ?case by (auto simp: locks_ok_def lock_ok_def nth_append less_Suc_eq)
next
  case (runs t s s')
  from runs(2) obtain c k s1 where r: "threads s ! t = (c, k)" "k < length (program c)" "lock_step t (program c ! k) s = Some s1"
    "s' = s1\<lparr>threads := (threads s)[t := (c, Suc k)]\<rparr>" by (rule run_thread_cases)
  from runs(3) lock_ok_step[OF _ runs(1) r(3)] program_change[OF r(2)] r(1,4) show ?case by (simp add: locks_ok_def)
qed

lemma locks_ok_idle: "locks_ok idle_locks"
  by (simp add: locks_ok_def lock_ok_def idle_locks_def lock_of_def)

text \<open>
  A selecting thread holds the group and wants the manager, another thread holds the manager and
  wants the group.
\<close>

definition deadlocked :: "nat \<Rightarrow> nat \<Rightarrow> locks \<Rightarrow> bool" where
  "deadlocked i j s \<longleftrightarrow> i < length (threads s) \<and> j < length (threads s) \<and> threads s ! i = (Select, 3) \<and>
     (threads s ! j = (Add, 1) \<or> threads s ! j = (Update, 1))"

lemma deadlocked_blocks:
  assumes "deadlocked i j s" "locks_ok s"
  shows "run_thread i s = None" "run_thread j s = None"
proof -
  note ok = assms(2)[unfolded locks_ok_def lock_ok_def lock_of_def] and d = assms(1)[unfolded deadlocked_def]
  have g: "readers (group_lock s) \<noteq> []" using ok d by (metis (full_types) holdsR.simps(3) list.set_intros(1) empty_iff list.set(1))
  have m: "writer (manager_lock s) \<noteq> None \<or> readers (manager_lock s) \<noteq> []"
  proof (cases "threads s ! j = (Add, 1)")
    case True
    then have "writer (manager_lock s) = Some j" using ok d by auto
    then show ?thesis by simp
  next
    case False
    then have "j \<in> set (readers (manager_lock s))" using ok d by auto
    then show ?thesis by auto
  qed
  show "run_thread i s = None" using d m by (auto simp: run_thread_def lock_of_def eval_nat_numeral)
  show "run_thread j s = None" using d g by (auto simp: run_thread_def lock_of_def)
qed

lemma deadlocked_step:
  assumes "pm_step s s'" "deadlocked i j s" "locks_ok s"
  shows "deadlocked i j s' \<and> threads s' ! j = threads s ! j"
  using assms(1)
proof cases
  case (begins c)
  with assms(2) show ?thesis by (auto simp: deadlocked_def nth_append)
next
  case (runs t)
  with deadlocked_blocks[OF assms(2,3)] have "t \<noteq> i" "t \<noteq> j" by auto
  with runs(2) assms(2) show ?thesis by (elim run_thread_cases) (auto simp: deadlocked_def)
qed

text \<open>
  C26. A selection locks the group and then the manager, an addition of a handler and the metrics
  loop lock the manager and then the group. In every interleaving of such calls, once a selection
  has the group and another call the manager, both wait for ever; the locks themselves exclude each
  other as they should.
\<close>

theorem processor_manager_deadlocks:
  assumes "pm_step\<^sup>*\<^sup>* idle_locks s" "deadlocked i j s" "pm_step\<^sup>*\<^sup>* s s'"
  shows "threads s' ! i = (Select, 3) \<and> threads s' ! j = threads s ! j \<and> run_thread i s' = None \<and> run_thread j s' = None \<and>
    (writer (manager_lock s') \<noteq> None \<longrightarrow> readers (manager_lock s') = []) \<and> (writer (group_lock s') \<noteq> None \<longrightarrow> readers (group_lock s') = [])"
proof -
  from assms(1) have ok: "locks_ok s" by (induction rule: rtranclp_induct) (auto intro: locks_ok_step locks_ok_idle)
  from assms(3) have "deadlocked i j s' \<and> locks_ok s' \<and> threads s' ! j = threads s ! j"
  proof (induction rule: rtranclp_induct)
    case (step y z)
    with deadlocked_step[OF step(2), of i j] locks_ok_step[OF step(2)] show ?case by simp
  qed (use assms(2) ok in simp)
  with deadlocked_blocks[of i j s'] show ?thesis
    by (auto simp: deadlocked_def locks_ok_def lock_ok_def lock_of_def)
qed

text \<open>A run: thread \<open>t\<close> moves for each \<open>Some t\<close>, a call begins for each \<open>None\<close>.\<close>

fun run_locks :: "(call + nat) list \<Rightarrow> locks \<Rightarrow> locks option" where
  "run_locks [] s = Some s"
| "run_locks (Inl c # as) s = run_locks as (s\<lparr>threads := threads s @ [(c, 0)]\<rparr>)"
| "run_locks (Inr t # as) s = (if t < length (threads s) then Option.bind (run_thread t s) (run_locks as) else None)"

lemma run_locks_reachable: "run_locks as s = Some s' \<Longrightarrow> pm_step\<^sup>*\<^sup>* s s'"
proof (induction as s rule: run_locks.induct)
  case (2 c as s)
  then show ?case by (auto intro: converse_rtranclp_into_rtranclp pm_step.begins)
next
  case (3 t as s)
  then show ?case by (auto simp: bind_eq_Some_conv split: if_splits intro: converse_rtranclp_into_rtranclp pm_step.runs)
qed simp

theorem processor_manager_deadlocks_witness:
  "\<exists>s. run_locks [Inl Select, Inl Update, Inr 0, Inr 0, Inr 0, Inr 1] idle_locks = Some s \<and> deadlocked 0 1 s \<and>
     run_thread 0 s = None \<and> run_thread 1 s = None"
proof -
  obtain s where s: "run_locks [Inl Select, Inl Update, Inr 0, Inr 0, Inr 0, Inr 1] idle_locks = Some s" "deadlocked 0 1 s"
    by (simp add: idle_locks_def run_thread_def lock_of_def set_lock_def deadlocked_def)
  from processor_manager_deadlocks[OF run_locks_reachable[OF s(1)] s(2)] s show ?thesis by blast
qed

lemma processor_selection_round_robin_witness:
  "let m = AddProcessor ''http'' 8 (AddProcessor ''http'' 7 NewProcessorManager)
   in select_many 3 ''http'' m = [Some 7, Some 8, Some 7]"
proof -
  let ?m = "AddProcessor ''http'' 8 (AddProcessor ''http'' 7 NewProcessorManager)"
  have "groups ?m ''http'' = Some 0" "strategy ?m = ProtocolAwareStrategy" "Handlers (group_at ?m 0) = [7, 8]" "rrIndex ?m ''http'' = 0"
    by (simp_all add: AddProcessor_def NewProcessorManager_def initProcessorGroups_def new_group_def append_handler_def)
  from processor_selection_round_robin[OF this(1-3), of 3] this(4) show ?thesis by (simp add: upt_rec)
qed

section \<open>The detection\<close>

text \<open>
  Data of four or five bytes that is no GET, POST or PUT request, in an array of fewer than six
  bytes, makes the detection panic; a websocket is never found in an ordinary request, which is
  \<open>http\<close> by its first bytes.
\<close>

lemma detection_panics_iff:
  "detectProtocolFromData data back = None \<longleftrightarrow> 4 \<le> length data \<and> take 4 data \<noteq> bytes_of ''GET '' \<and>
     take 4 data \<noteq> bytes_of ''POST'' \<and> take 3 data \<noteq> bytes_of ''PUT'' \<and> length data + length back < 6"
  by (auto simp: detectProtocolFromData_def prefix_up_to_def split: if_splits)

lemma get_request_is_http: "take 4 data = bytes_of ''GET '' \<Longrightarrow> detectProtocolFromData data back = Some ''http''"
  by (auto simp: detectProtocolFromData_def bytes_of_def dest: arg_cong[of _ _ length])

lemma error_rate_never_rises: "pm_ErrorRate m = 0 \<Longrightarrow> pm_ErrorRate (fst (Handle cfg parse ms secs data back m)) = 0"
  by (auto simp: Handle_def finished_def handleHTTP_def handleHTTPWithCache_def handleWebSocket_def handleGRPC_def handleGeneric_def
      updateMetrics_def Let_def split: option.splits)

lemma active_connections_return: "pm_ActiveConnections (fst (Handle cfg parse ms secs data back m)) = pm_ActiveConnections m"
  by (auto simp: Handle_def finished_def handleHTTP_def handleHTTPWithCache_def handleWebSocket_def handleGRPC_def handleGeneric_def
      updateMetrics_def Let_def split: option.splits)

end
