(* ===== verification/Deployment.thy ===== *)
theory Deployment
  imports Detector
begin

text \<open>
  The deployment manager of \<^verbatim>\<open>core/deployment/deployment_mode.go\<close>: the node configuration each mode
  forces, its update, and the handling of a request. The protocol test repeats that of the protocol
  detector, whose definition is used. The lemmas show when the forced flags hold.
\<close>

record NodeConfig =
  Mode :: string
  ProtocolDetection :: bool
  DeepInspection :: bool
  CloudSync :: bool
  MaxCPU :: int
  MaxMemory :: int
  MaxIO :: int
  PreconnectEnabled :: bool
  PreconnectProtocols :: "string list"
  PreconnectMaxConnections :: int

definition DeploymentModeEdge :: string where "DeploymentModeEdge = ''edge''"
definition DeploymentModeCenter :: string where "DeploymentModeCenter = ''center''"
definition DeploymentModeMobile :: string where "DeploymentModeMobile = ''mobile''"

text \<open>The preconnections of the mobile mode are only logged.\<close>

definition initializePreconnect :: "NodeConfig \<Rightarrow> NodeConfig" where "initializePreconnect c = c"

definition initialize :: "NodeConfig \<Rightarrow> NodeConfig" where
  "initialize c =
     (if Mode c = DeploymentModeEdge then c\<lparr>ProtocolDetection := True, DeepInspection := False, CloudSync := True\<rparr>
      else if Mode c = DeploymentModeCenter then c\<lparr>ProtocolDetection := True, DeepInspection := True, CloudSync := False\<rparr>
      else if Mode c = DeploymentModeMobile
      then (let c = c\<lparr>ProtocolDetection := True, DeepInspection := False, CloudSync := True\<rparr>
            in if PreconnectEnabled c then initializePreconnect c else c)
      else c)"

definition NewDeploymentManager :: "NodeConfig \<Rightarrow> NodeConfig" where "NewDeploymentManager c = initialize c"

definition UpdateConfig :: "NodeConfig \<Rightarrow> NodeConfig \<Rightarrow> NodeConfig" where
  "UpdateConfig new old = (if Mode old \<noteq> Mode new then initialize new else new)"

definition detectProtocol :: "bytes \<Rightarrow> string" where "detectProtocol data = classify data"

definition isLocalProtocol :: "string \<Rightarrow> bool" where
  "isLocalProtocol p \<longleftrightarrow> (case [''http'' \<mapsto> True, ''https'' \<mapsto> True] p of Some b \<Rightarrow> b | None \<Rightarrow> False)"

definition processLocally :: "bytes \<Rightarrow> string \<Rightarrow> bytes" where "processLocally data p = data"
definition forwardToCloud :: "bytes \<Rightarrow> string \<Rightarrow> bytes" where "forwardToCloud data p = data"
definition processWithPreconnect :: "bytes \<Rightarrow> string \<Rightarrow> bytes" where "processWithPreconnect data p = data"

text \<open>The route a request takes and its answer; \<^verbatim>\<open>detectProtocol\<close> returns no error.\<close>

datatype path = Local | Cloud | Preconnected

definition HandleRequest :: "NodeConfig \<Rightarrow> bytes \<Rightarrow> path \<times> bytes" where
  "HandleRequest c data =
     (let p = detectProtocol data in
      if Mode c = DeploymentModeEdge
      then (if isLocalProtocol p then (Local, processLocally data p) else (Cloud, forwardToCloud data p))
      else if Mode c = DeploymentModeCenter then (Local, processLocally data p)
      else if Mode c = DeploymentModeMobile then (Preconnected, processWithPreconnect data p)
      else (Local, processLocally data p))"

definition mode_flags :: "NodeConfig \<Rightarrow> bool" where
  "mode_flags c \<longleftrightarrow> (Mode c \<in> {DeploymentModeEdge, DeploymentModeMobile} \<longrightarrow> ProtocolDetection c \<and> \<not> DeepInspection c \<and> CloudSync c) \<and>
     (Mode c = DeploymentModeCenter \<longrightarrow> ProtocolDetection c \<and> DeepInspection c \<and> \<not> CloudSync c)"

lemmas modes = DeploymentModeEdge_def DeploymentModeCenter_def DeploymentModeMobile_def

lemma initialize_flags: "mode_flags (initialize c) \<and> Mode (initialize c) = Mode c"
  by (simp add: mode_flags_def initialize_def initializePreconnect_def Let_def modes)

text \<open>
  The flags a mode forces hold after the creation and after a change of mode, but an update within
  the same mode stores the flags it is given.
\<close>

lemma flags_hold_after_mode_change: "Mode old \<noteq> Mode new \<Longrightarrow> mode_flags (UpdateConfig new old)"
  by (simp add: UpdateConfig_def initialize_flags)

lemma same_mode_update_loses_flags: "Mode old = Mode new \<Longrightarrow> UpdateConfig new old = new"
  by (simp add: UpdateConfig_def)

lemma answer_is_request: "snd (HandleRequest c data) = data"
  by (simp add: HandleRequest_def processLocally_def forwardToCloud_def processWithPreconnect_def Let_def)

text \<open>An edge node handles a request itself exactly when it starts with an HTTP method.\<close>

lemma edge_local_iff: "Mode c = DeploymentModeEdge \<Longrightarrow> fst (HandleRequest c data) = Local \<longleftrightarrow> classify data = ''http''"
  by (auto simp: HandleRequest_def isLocalProtocol_def detectProtocol_def Let_def classify_def)

end
