(* ===== verification/Rolling_Writer.thy ===== *)
theory Rolling_Writer
  imports Prelude "HOL-Library.List_Lexorder" "HOL-Library.Char_ord"
begin

text \<open>
  The rolling log writer of \<^verbatim>\<open>pkg/logger/rolling_writer.go\<close> over a file system that maps paths to
  contents: opening, writing, rotation with its free name, compression and cleaning, and the mutex
  that rotation takes twice. Formatting and parsing a time, gzip and whether the system lets a file
  be opened are parameters. The lemmas show how long a writer serves and what cleaning removes.
\<close>

section \<open>Paths\<close>

definition slash :: char where "slash = CHR ''/''"

definition file_Base :: "string \<Rightarrow> string" where
  "file_Base p = rev (takeWhile (\<lambda>c. c \<noteq> slash) (rev p))"

definition file_Dir :: "string \<Rightarrow> string" where
  "file_Dir p = (if slash \<in> set p then butlast (take (length p - length (file_Base p)) p) else ''.'')"

definition file_Join :: "string \<Rightarrow> string \<Rightarrow> string" where
  "file_Join d n = (if d = ''.'' then n else d @ [slash] @ n)"

definition file_Ext :: "string \<Rightarrow> string" where
  "file_Ext p = (if CHR ''.'' \<in> set (file_Base p) then CHR ''.'' # rev (takeWhile (\<lambda>c. c \<noteq> CHR ''.'') (rev p)) else [])"

definition TrimSuffix :: "string \<Rightarrow> string \<Rightarrow> string" where
  "TrimSuffix s x = (if has_prefix (rev s) (rev x) then take (length s - length x) s else s)"

definition TrimPrefix :: "string \<Rightarrow> string \<Rightarrow> string" where
  "TrimPrefix s x = (if has_prefix s x then drop (length x) s else s)"

definition before_dash :: "string \<Rightarrow> string" where
  "before_dash s = takeWhile (\<lambda>c. c \<noteq> CHR ''-'') s"

section \<open>The environment and the writer\<close>

type_synonym fs = "string \<rightharpoonup> bytes"

record os_env =
  time_Format :: "string \<Rightarrow> time \<Rightarrow> string"
  time_Parse :: "string \<Rightarrow> string \<Rightarrow> time option"
  gzip_bytes :: "bytes \<Rightarrow> bytes"
  openable :: "string \<Rightarrow> bool"

datatype log_output = Stdout | File string

record RollingWriter =
  basePath :: string
  timeFormat :: string
  maxSize :: int
  compress :: bool
  currentMark :: time
  maxBackups :: int
  maxAgeDays :: int
  rw_file :: log_output
  fileSize :: int
  mu_locked :: bool

definition hour :: duration where "hour = 60 * minute"
definition day :: duration where "day = 24 * hour"

text \<open>\<^verbatim>\<open>openExistOrNew\<close> behind its lock.\<close>

definition open_body :: "os_env \<Rightarrow> fs \<Rightarrow> RollingWriter \<Rightarrow> fs \<times> RollingWriter" where
  "open_body e fs r =
     (if \<not> openable e (basePath r) then (fs, r\<lparr>rw_file := Stdout\<rparr>)
      else (case fs (basePath r) of
          Some c \<Rightarrow> (fs, r\<lparr>rw_file := File (basePath r), fileSize := int (length c)\<rparr>)
        | None \<Rightarrow> (fs(basePath r \<mapsto> []), r\<lparr>rw_file := File (basePath r), fileSize := 0\<rparr>)))"

text \<open>\<open>None\<close>: the mutex is taken, by the caller itself, and the goroutine blocks.\<close>

definition openExistOrNew :: "os_env \<Rightarrow> fs \<Rightarrow> RollingWriter \<Rightarrow> (fs \<times> RollingWriter) option" where
  "openExistOrNew e fs r = (if mu_locked r then None else Some (open_body e fs r))"

record LogConfig =
  lc_basePath :: string
  lc_TimeFormat :: string
  lc_MaxSizeMB :: int
  lc_Compress :: bool
  lc_MaxBackups :: int
  lc_MaxAgeDays :: int

text \<open>\<open>Inl ()\<close>: standard output instead of a file, when the directory cannot be made.\<close>

definition NewRollingWriter :: "os_env \<Rightarrow> bool \<Rightarrow> LogConfig \<Rightarrow> time \<Rightarrow> fs \<Rightarrow> unit + (fs \<times> RollingWriter)" where
  "NewRollingWriter e dir_ok cfg now fs =
     (if \<not> dir_ok then Inl ()
      else Inr (open_body e fs \<lparr>basePath = lc_basePath cfg, timeFormat = lc_TimeFormat cfg,
          maxSize = (if lc_MaxSizeMB cfg \<le> 0 then 1024 else lc_MaxSizeMB cfg) * 1024 * 1024, compress = lc_Compress cfg,
          currentMark = now - now mod hour, maxBackups = lc_MaxBackups cfg, maxAgeDays = lc_MaxAgeDays cfg,
          rw_file = Stdout, fileSize = 0, mu_locked = False\<rparr>))"

section \<open>Rotation\<close>

text \<open>The first free name \<open>base-stamp-i.ext\<close>; one more try than there are files is enough.\<close>

definition numbered :: "string \<Rightarrow> string \<Rightarrow> string \<Rightarrow> nat \<Rightarrow> string" where
  "numbered base stamp ext i = base @ ''-'' @ stamp @ ''-'' @ show_nat i @ ext"

fun free_name :: "fs \<Rightarrow> string \<Rightarrow> string \<Rightarrow> string \<Rightarrow> nat \<Rightarrow> nat \<Rightarrow> string" where
  "free_name fs base stamp ext i 0 = numbered base stamp ext i"
| "free_name fs base stamp ext i (Suc n) =
     (if fs (numbered base stamp ext i) = None then numbered base stamp ext i else free_name fs base stamp ext (Suc i) n)"

definition compressFile :: "os_env \<Rightarrow> string \<Rightarrow> fs \<Rightarrow> fs" where
  "compressFile e p fs = (case fs p of None \<Rightarrow> fs
     | Some c \<Rightarrow> if openable e p \<and> openable e (p @ ''.gz'') then (fs(p @ ''.gz'' \<mapsto> gzip_bytes e c))(p := None) else fs)"

text \<open>
  \<open>entries\<close>: the names of the files of the directory, as \<^verbatim>\<open>os.ReadDir\<close> gives them. A negative
  \<^verbatim>\<open>MaxBackups\<close> would make the slice of the surplus panic and is left out.
\<close>

definition backup_time :: "os_env \<Rightarrow> string \<Rightarrow> string \<Rightarrow> string \<Rightarrow> string \<Rightarrow> time option" where
  "backup_time e prefix ext tf name =
     (if has_prefix name prefix then time_Parse e tf (TrimSuffix (TrimSuffix (TrimPrefix name prefix) ext) ''.gz'') else None)"

definition cleanup_names :: "os_env \<Rightarrow> string \<Rightarrow> string \<Rightarrow> string \<Rightarrow> int \<Rightarrow> time \<Rightarrow> string list \<Rightarrow> string list" where
  "cleanup_names e prefix ext tf maxB cutoff entries =
     (let old = filter (\<lambda>n. \<exists>t. backup_time e prefix ext tf n = Some t \<and> t < cutoff) entries;
          backups = filter (\<lambda>n. \<exists>t. backup_time e prefix ext tf n = Some t \<and> \<not> t < cutoff) entries;
          newest = rev (sort backups)
      in old @ (if int (length backups) > maxB then drop (nat maxB) newest else []))"

definition cleanupOldLogs :: "os_env \<Rightarrow> string \<Rightarrow> string \<Rightarrow> string \<Rightarrow> int \<Rightarrow> int \<Rightarrow> time \<Rightarrow> string list \<Rightarrow> fs \<Rightarrow> fs" where
  "cleanupOldLogs e base ext tf maxB maxDays now entries fs =
     fold (\<lambda>n fs. fs(file_Join (file_Dir base) n := None))
       (cleanup_names e (file_Base base @ ''-'') ext tf maxB (now - maxDays * day) entries) fs"

definition rotated_base :: "string \<Rightarrow> string" where
  "rotated_base base = (let b = TrimSuffix base (file_Ext base) in if CHR ''-'' \<in> set b then before_dash b else b)"

text \<open>The name the file is renamed to.\<close>

definition rotated_name :: "os_env \<Rightarrow> fs \<Rightarrow> RollingWriter \<Rightarrow> string" where
  "rotated_name e fs r =
     (let ext = file_Ext (basePath r); b = rotated_base (basePath r); stamp = time_Format e (timeFormat r) (currentMark r);
          p = b @ ''-'' @ stamp @ ext
      in if fs p = None then p else free_name fs b stamp ext 1 (Suc (map_len fs)))"

definition scheduleRotate :: "os_env \<Rightarrow> time \<Rightarrow> (fs \<Rightarrow> string list) \<Rightarrow> fs \<Rightarrow> RollingWriter \<Rightarrow> fs" where
  "scheduleRotate e now ReadDir fs r = (case fs (basePath r) of
     None \<Rightarrow> fs
   | Some c \<Rightarrow> if c = [] then fs
       else (let p = rotated_name e fs r; fs = (fs(basePath r := None))(p \<mapsto> c); fs = (if compress r then compressFile e p fs else fs)
             in cleanupOldLogs e (rotated_base (basePath r)) (file_Ext (basePath r)) (timeFormat r) (maxBackups r) (maxAgeDays r) now (ReadDir fs) fs))"

section \<open>Writing\<close>

text \<open>
  \<open>Blocked\<close>: the caller waits for the mutex for ever. \<open>err\<close> is the error of a write that fails.
\<close>

datatype reply = Wrote nat | WriteError string | Blocked

definition append_file :: "string option \<Rightarrow> bytes \<Rightarrow> fs \<Rightarrow> RollingWriter \<Rightarrow> fs \<times> RollingWriter \<times> reply" where
  "append_file err p fs r = (case err of
     Some x \<Rightarrow> (fs, r, WriteError x)
   | None \<Rightarrow> ((case rw_file r of Stdout \<Rightarrow> fs | File f \<Rightarrow> fs(f \<mapsto> (case fs f of Some c \<Rightarrow> c | None \<Rightarrow> []) @ p)),
       r\<lparr>fileSize := fileSize r + int (length p)\<rparr>, Wrote (length p)))"

definition Write :: "os_env \<Rightarrow> time \<Rightarrow> (fs \<Rightarrow> string list) \<Rightarrow> string option \<Rightarrow> bytes \<Rightarrow> fs \<times> RollingWriter \<Rightarrow> (fs \<times> RollingWriter) \<times> reply" where
  "Write e now ReadDir err p s = (case s of (fs, r) \<Rightarrow>
     if mu_locked r then (s, Blocked)
     else if maxSize r > 0 \<and> fileSize r + int (length p) > maxSize r
     then (let r = r\<lparr>mu_locked := True\<rparr>; fs = scheduleRotate e now ReadDir fs r
           in case openExistOrNew e fs r of
              None \<Rightarrow> ((fs, r), Blocked)
            | Some (fs, r) \<Rightarrow> (case append_file err p fs r of (fs, r, w) \<Rightarrow> ((fs, r\<lparr>mu_locked := False\<rparr>), w)))
     else (case append_file err p fs r of (fs, r, w) \<Rightarrow> ((fs, r), w)))"

text \<open>The hourly round of \<^verbatim>\<open>startRotateTicker\<close>; \<open>False\<close>: the goroutine blocks.\<close>

definition plain_base :: "string \<Rightarrow> string" where
  "plain_base p = (if CHR ''-'' \<in> set p then file_Join (file_Dir p) (before_dash (file_Base p) @ ''.log'') else p)"

definition rotate_tick :: "os_env \<Rightarrow> time \<Rightarrow> (fs \<Rightarrow> string list) \<Rightarrow> fs \<times> RollingWriter \<Rightarrow> (fs \<times> RollingWriter) \<times> bool" where
  "rotate_tick e nxt ReadDir s = (case s of (fs, r) \<Rightarrow>
     if mu_locked r then (s, False)
     else (let r = r\<lparr>mu_locked := True\<rparr>; fs = scheduleRotate e nxt ReadDir fs r;
               r = r\<lparr>currentMark := nxt, basePath := plain_base (basePath r)\<rparr>
           in case openExistOrNew e fs r of
              None \<Rightarrow> ((fs, r), False)
            | Some (fs, r) \<Rightarrow> ((fs, r\<lparr>mu_locked := False\<rparr>), True)))"

section \<open>How long a writer serves\<close>

datatype log_op = WriteOp time "string option" bytes | TickOp time

fun log_step :: "os_env \<Rightarrow> (fs \<Rightarrow> string list) \<Rightarrow> log_op \<Rightarrow> fs \<times> RollingWriter \<Rightarrow> (fs \<times> RollingWriter) \<times> bool" where
  "log_step e rd (WriteOp now err p) s = (case Write e now rd err p s of (s, w) \<Rightarrow> (s, w \<noteq> Blocked))"
| "log_step e rd (TickOp nxt) s = rotate_tick e nxt rd s"

fun log_run :: "os_env \<Rightarrow> (fs \<Rightarrow> string list) \<Rightarrow> log_op list \<Rightarrow> fs \<times> RollingWriter \<Rightarrow> (fs \<times> RollingWriter) \<times> bool list" where
  "log_run e rd [] s = (s, [])"
| "log_run e rd (op # ops) s = (case log_step e rd op s of (s, b) \<Rightarrow> map_prod id (Cons b) (log_run e rd ops s))"

text \<open>How many operations return: those before the first tick and the first write that does not fit.\<close>

fun op_bytes :: "log_op \<Rightarrow> bytes" where
  "op_bytes (WriteOp now None p) = p"
| "op_bytes _ = []"

fun served :: "int \<Rightarrow> int \<Rightarrow> log_op list \<Rightarrow> nat" where
  "served m n [] = 0"
| "served m n (TickOp nxt # ops) = 0"
| "served m n (WriteOp now err p # ops) =
     (if n + int (length p) > m then 0 else Suc (served m (n + int (length (op_bytes (WriteOp now err p)))) ops))"

lemma locked_run: "mu_locked (snd s) \<Longrightarrow> log_run e rd ops s = (s, replicate (length ops) False)"
proof (induction ops arbitrary: s)
  case (Cons op ops)
  have "log_step e rd op s = (s, False)"
    using Cons.prems by (cases op; cases s) (auto simp: Write_def rotate_tick_def)
  with Cons show ?case by simp
qed simp

lemma served_run:
  assumes "\<not> mu_locked r" "0 < maxSize r" "rw_file r = Stdout \<or> rw_file r = File (basePath r) \<and> fs (basePath r) = Some c"
  shows "snd (log_run e rd ops (fs, r)) = replicate (served (maxSize r) (fileSize r) ops) True @
      replicate (length ops - served (maxSize r) (fileSize r) ops) False \<and>
    (rw_file r = File (basePath r) \<longrightarrow> fst (fst (log_run e rd (take (served (maxSize r) (fileSize r) ops) ops) (fs, r))) (basePath r) =
       Some (c @ concat (map op_bytes (take (served (maxSize r) (fileSize r) ops) ops))))"
  using assms
proof (induction ops arbitrary: fs r c)
  case (Cons op ops)
  show ?case
  proof (cases op)
    case (TickOp nxt)
    have b: "\<not> snd (rotate_tick e nxt rd (fs, r))" "mu_locked (snd (fst (rotate_tick e nxt rd (fs, r))))"
      using Cons.prems(1) by (simp_all add: rotate_tick_def openExistOrNew_def Let_def)
    obtain s1 where s1: "rotate_tick e nxt rd (fs, r) = (s1, False)" "mu_locked (snd s1)"
      using b that[of "fst (rotate_tick e nxt rd (fs, r))"] surjective_pairing[of "rotate_tick e nxt rd (fs, r)"] by metis
    from Cons.prems(3) show ?thesis by (auto simp: TickOp s1(1) locked_run[OF s1(2)])
  next
    case (WriteOp now err p)
    show ?thesis
    proof (cases "fileSize r + int (length p) > maxSize r")
      case True
      then have "Write e now rd err p (fs, r) = ((scheduleRotate e now rd fs (r\<lparr>mu_locked := True\<rparr>), r\<lparr>mu_locked := True\<rparr>), Blocked)"
        using Cons.prems(1,2) by (simp add: Write_def openExistOrNew_def Let_def)
      with True Cons.prems(3) locked_run[of "(scheduleRotate e now rd fs (r\<lparr>mu_locked := True\<rparr>), r\<lparr>mu_locked := True\<rparr>)" e rd ops] show ?thesis
        by (auto simp: WriteOp)
    next
      case False
      show ?thesis
      proof (cases err)
        case (Some x)
        with False Cons.prems(1,2) have "Write e now rd err p (fs, r) = ((fs, r), WriteError x)" by (simp add: Write_def append_file_def)
        with Cons.IH[where fs = fs and r = r and c = c, OF Cons.prems] False Some show ?thesis by (simp add: WriteOp)
      next
        case None
        let ?r = "r\<lparr>fileSize := fileSize r + int (length p)\<rparr>"
        let ?fs = "case rw_file r of Stdout \<Rightarrow> fs | File f \<Rightarrow> fs(f \<mapsto> c @ p)"
        have w: "Write e now rd err p (fs, r) = ((?fs, ?r), Wrote (length p))"
          using False None Cons.prems by (cases "rw_file r") (auto simp: Write_def append_file_def)
        have i: "\<not> mu_locked ?r" "0 < maxSize ?r" "rw_file ?r = Stdout \<or> rw_file ?r = File (basePath ?r) \<and> ?fs (basePath ?r) = Some (c @ p)"
          using Cons.prems by auto
        from Cons.IH[where fs = ?fs and r = ?r and c = "c @ p", OF i] w False None show ?thesis by (simp add: WriteOp fun_upd_def)
      qed
    qed
  qed
qed auto


definition demo_os :: os_env where
  "demo_os = \<lparr>time_Format = (\<lambda>_ _. ''2025''), time_Parse = (\<lambda>_ s. if s = ''2025'' then Some 0 else None), gzip_bytes = id, openable = (\<lambda>_. True)\<rparr>"

definition demo_log_cfg :: LogConfig where
  "demo_log_cfg = \<lparr>lc_basePath = ''logs/app.log'', lc_TimeFormat = ''2006'', lc_MaxSizeMB = 1, lc_Compress = False, lc_MaxBackups = 3, lc_MaxAgeDays = 7\<rparr>"


section \<open>Free names and cleaning\<close>

fun read_nat :: "string \<Rightarrow> nat" where
  "read_nat s = (if s = [] then 0 else read_nat (butlast s) * 10 + (of_char (last s) - 48))"

declare read_nat.simps [simp del]

lemma read_show_nat: "read_nat (show_nat n) = n"
proof (induction n rule: show_nat.induct)
  case (1 n)
  show ?case
  proof (cases "n < 10")
    case True
    then show ?thesis by (simp add: show_nat.simps[of n] read_nat.simps[of "[_]"] read_nat.simps[of "[]"])
  next
    case False
    have "of_char (char_of (48 + n mod 10) :: char) = (48 + n mod 10 :: nat)" by simp
    with 1 False show ?thesis by (simp add: show_nat.simps[of n] read_nat.simps[of "_ @ [_]"])
  qed
qed

lemma numbered_inject: "numbered b st ext i = numbered b st ext j \<longleftrightarrow> i = j"
  by (auto simp: numbered_def) (metis read_show_nat)

lemma free_name_taken:
  "fs (free_name fs b st ext i n) \<noteq> None \<Longrightarrow> numbered b st ext ` {i..i + n} \<subseteq> dom fs"
proof (induction n arbitrary: i)
  case (Suc n)
  from Suc.prems have t: "fs (numbered b st ext i) \<noteq> None" "fs (free_name fs b st ext (Suc i) n) \<noteq> None" by (auto split: if_splits)
  have "{i..i + Suc n} = insert i {Suc i..Suc i + n}" by auto
  with t(1) Suc.IH[OF t(2)] show ?case by auto
qed auto

text \<open>
  Rotation never overwrites a file: the name it picks is free, after at most one try more than
  there are files.
\<close>

lemma rotated_name_is_free:
  assumes "finite (dom fs)"
  shows "fs (rotated_name e fs r) = None"
proof -
  have "fs (free_name fs b st ext 1 (Suc (map_len fs))) = None" for b st ext
  proof (rule ccontr)
    let ?I = "{1..1 + Suc (map_len fs)}"
    assume "fs (free_name fs b st ext 1 (Suc (map_len fs))) \<noteq> None"
    from free_name_taken[where fs = fs and b = b and st = st and ext = ext and i = 1 and n = "Suc (map_len fs)", OF this] have "card (numbered b st ext ` ?I) \<le> map_len fs"
      using assms by (simp add: map_len_def card_mono)
    moreover have "card (numbered b st ext ` ?I) = card ?I" by (rule card_image) (simp add: inj_on_def numbered_inject)
    ultimately show False by simp
  qed
  then show ?thesis by (simp add: rotated_name_def Let_def)
qed

lemma rotated_name_is_free_witness:
  "let fs = [''logs/app-2025.log'' \<mapsto> [1], ''logs/app-2025-1.log'' \<mapsto> [2]];
       r = snd (open_body demo_os Map.empty \<lparr>basePath = ''logs/app.log'', timeFormat = ''2006'', maxSize = 10, compress = False,
           currentMark = 0, maxBackups = 3, maxAgeDays = 7, rw_file = Stdout, fileSize = 0, mu_locked = False\<rparr>)
   in fs (rotated_name demo_os fs r) = None"
  by (simp add: rotated_name_is_free Let_def del: fun_upd_apply)

text \<open>
  A compressed backup keeps the extension in front of \<^verbatim>\<open>.gz\<close>, which the cleaning then hands to
  \<^verbatim>\<open>time.Parse\<close>: if no stamp ends so, compressed backups are never removed. A path whose
  directory has a dash is rotated to a file outside it.
\<close>

lemma compressed_backup_not_cleaned:
  assumes "\<not> has_prefix (rev (stamp @ ext @ ''.gz'')) (rev ext)" "time_Parse e tf (stamp @ ext) = None"
  shows "backup_time e prefix ext tf (prefix @ stamp @ ext @ ''.gz'') = None"
proof -
  have "TrimPrefix (prefix @ stamp @ ext @ ''.gz'') prefix = stamp @ ext @ ''.gz''" by (simp add: TrimPrefix_def has_prefix_append)
  moreover have "TrimSuffix (stamp @ ext @ ''.gz'') ext = stamp @ ext @ ''.gz''" using assms(1) by (simp add: TrimSuffix_def)
  moreover have "TrimSuffix (stamp @ ext @ ''.gz'') ''.gz'' = stamp @ ext" by (simp add: TrimSuffix_def has_prefix_append)
  ultimately show ?thesis using assms(2) by (simp add: backup_time_def)
qed

lemma dash_in_directory: "rotated_base ''/var/my-app/app.log'' = ''/var/my'' \<and> plain_base ''/var/my-app/app.log'' = ''/var/my-app/app.log.log''"
  by code_simp

end
