(* ===== verification/Router_Config.thy ===== *)
theory Router_Config
  imports Load_Balancer
begin

text \<open>
  The configuration manager of \<^verbatim>\<open>core/router/router_config.go\<close>: validation, default values, the
  table of configurations with its validators and change handlers, and the JSON export and import,
  whose encoding is a parameter. A configuration is a shared object and held by address; an absent
  pointer is \<open>None\<close>. The lemmas show what is well-formed about every stored configuration and that
  an import of an export changes nothing.
\<close>

section \<open>Configurations\<close>

definition HTTPRouterType :: string where "HTTPRouterType = ''http''"
definition MultidimensionalRouterType :: string where "MultidimensionalRouterType = ''multidimensional''"

record HTTPRouterConfig =
  CaseSensitive :: bool
  StrictSlash :: bool
  UseEncodedPath :: bool
  SkipClean :: bool
  MaxRoutes :: int
  TimeoutDuration :: duration
  EnableCompression :: bool
  EnableCORS :: bool
  CORSOrigins :: "string list"

record AlertThresholds =
  MaxResponseTime :: duration
  MaxErrorRate :: rat
  MaxCPUUsage :: rat
  MaxMemoryUsage :: rat
  MinSuccessRate :: rat

record MonitoringConfig =
  mc_Enabled :: bool
  MetricsInterval :: duration
  mc_HealthCheckInterval :: duration
  EnableTracing :: bool
  EnableProfiling :: bool
  MaxMetricsHistory :: int
  mc_AlertThresholds :: "AlertThresholds option"

record RedisConfig =
  rd_Address :: string
  rd_Password :: string
  rd_DB :: int
  rd_PoolSize :: int
  rd_MinIdleConns :: int
  rd_MaxRetries :: int
  rd_DialTimeout :: duration
  rd_ReadTimeout :: duration
  rd_WriteTimeout :: duration

record MemcachedConfig =
  mm_Servers :: "string list"
  mm_MaxIdleConns :: int
  mm_Timeout :: duration

record CacheConfig =
  cc_Enabled :: bool
  cc_Type :: string
  cc_TTL :: duration
  cc_MaxSize :: int
  cc_EvictionPolicy :: string
  cc_CompressionEnabled :: bool
  cc_RedisConfig :: "RedisConfig option"
  cc_MemcachedConfig :: "MemcachedConfig option"

record CircuitBreakerConfig =
  FailureThreshold :: int
  RecoveryTimeout :: duration
  MaxRequests :: int
  Interval :: duration

record PerformanceConfig =
  MaxConcurrentRequests :: int
  RequestQueueSize :: int
  WorkerPoolSize :: int
  EnableRateLimiting :: bool
  RateLimit :: int
  BurstLimit :: int
  EnableCircuitBreaker :: bool
  pc_CircuitBreakerConfig :: "CircuitBreakerConfig option"

record UnifiedRouterConfig =
  uc_Type :: string
  uc_Name :: string
  uc_Enabled :: bool
  uc_Description :: string
  HTTPConfig :: "HTTPRouterConfig option"
  MultiDimConfig :: "MultidimensionalRouterConfig option"
  uc_MonitoringConfig :: "MonitoringConfig option"
  uc_CacheConfig :: "CacheConfig option"
  uc_PerformanceConfig :: "PerformanceConfig option"

section \<open>Default values\<close>

definition default_monitoring :: MonitoringConfig where
  "default_monitoring = \<lparr>mc_Enabled = True, MetricsInterval = 30 * second, mc_HealthCheckInterval = 60 * second,
     EnableTracing = False, EnableProfiling = False, MaxMetricsHistory = 1000,
     mc_AlertThresholds = Some \<lparr>MaxResponseTime = 5 * second, MaxErrorRate = 5 / 100, MaxCPUUsage = 8 / 10, MaxMemoryUsage = 8 / 10,
       MinSuccessRate = 95 / 100\<rparr>\<rparr>"

definition default_cache :: CacheConfig where
  "default_cache = \<lparr>cc_Enabled = False, cc_Type = ''memory'', cc_TTL = 10 * minute, cc_MaxSize = 1000, cc_EvictionPolicy = ''lru'',
     cc_CompressionEnabled = False, cc_RedisConfig = None, cc_MemcachedConfig = None\<rparr>"

definition default_performance :: PerformanceConfig where
  "default_performance = \<lparr>MaxConcurrentRequests = 1000, RequestQueueSize = 10000, WorkerPoolSize = 100, EnableRateLimiting = False,
     RateLimit = 1000, BurstLimit = 100, EnableCircuitBreaker = False,
     pc_CircuitBreakerConfig = Some \<lparr>FailureThreshold = 5, RecoveryTimeout = 30 * second, MaxRequests = 10, Interval = 60 * second\<rparr>\<rparr>"

definition or_default :: "'a option \<Rightarrow> 'a \<Rightarrow> 'a option" where
  "or_default x d = (case x of None \<Rightarrow> Some d | Some v \<Rightarrow> Some v)"

definition http_defaults :: "HTTPRouterConfig \<Rightarrow> HTTPRouterConfig" where
  "http_defaults h =
     (let h = (if MaxRoutes h = 0 then h\<lparr>MaxRoutes := 10000\<rparr> else h)
      in if TimeoutDuration h = 0 then h\<lparr>TimeoutDuration := 30 * second\<rparr> else h)"

definition multi_dim_defaults :: "MultidimensionalRouterConfig \<Rightarrow> MultidimensionalRouterConfig" where
  "multi_dim_defaults m =
     (let m = (if HealthCheckInterval m = 0 then m\<lparr>HealthCheckInterval := 30 * second\<rparr> else m);
          m = (if MaxFailures m = 0 then m\<lparr>MaxFailures := 3\<rparr> else m)
      in if RecoveryThreshold m = 0 then m\<lparr>RecoveryThreshold := 5\<rparr> else m)"

definition setDefaultValues :: "UnifiedRouterConfig \<Rightarrow> UnifiedRouterConfig" where
  "setDefaultValues c =
     (let c = c\<lparr>uc_MonitoringConfig := or_default (uc_MonitoringConfig c) default_monitoring,
                uc_CacheConfig := or_default (uc_CacheConfig c) default_cache,
                uc_PerformanceConfig := or_default (uc_PerformanceConfig c) default_performance\<rparr>;
          c = (if uc_Type c = HTTPRouterType then c\<lparr>HTTPConfig := map_option http_defaults (HTTPConfig c)\<rparr> else c)
      in if uc_Type c = MultidimensionalRouterType then c\<lparr>MultiDimConfig := map_option multi_dim_defaults (MultiDimConfig c)\<rparr> else c)"

section \<open>The manager\<close>

text \<open>
  A validator answers with an error or none; a change handler is told the old and the new
  configuration, and its error is only logged.
\<close>

type_synonym validator = "UnifiedRouterConfig \<Rightarrow> string option"

record ConfigManager =
  config_at :: "nat \<Rightarrow> UnifiedRouterConfig"
  configs :: "string \<rightharpoonup> nat"
  configFile :: string
  hotReloadEnabled :: bool
  configValidators :: "validator list"
  configChangeHandlers :: nat
  notified :: "(nat \<times> UnifiedRouterConfig option \<times> UnifiedRouterConfig) list"   \<comment> \<open>what the handlers were told\<close>

definition NewConfigManager :: "(nat \<Rightarrow> UnifiedRouterConfig) \<Rightarrow> string \<Rightarrow> ConfigManager" where
  "NewConfigManager store f = \<lparr>config_at = store, configs = Map.empty, configFile = f, hotReloadEnabled = True,
     configValidators = [], configChangeHandlers = 0, notified = []\<rparr>"

fun run_validators :: "validator list \<Rightarrow> UnifiedRouterConfig \<Rightarrow> string option" where
  "run_validators [] c = None"
| "run_validators (v # vs) c = (case v c of Some e \<Rightarrow> Some e | None \<Rightarrow> run_validators vs c)"

definition validateConfig :: "UnifiedRouterConfig option \<Rightarrow> ConfigManager \<Rightarrow> string option" where
  "validateConfig cfg cm = (case cfg of None \<Rightarrow> Some ''config cannot be nil''
   | Some c \<Rightarrow>
       if uc_Name c = [] then Some ''config name cannot be empty''
       else if uc_Type c = [] then Some ''router type cannot be empty''
       else if uc_Type c = HTTPRouterType \<and> HTTPConfig c = None then Some ''HTTP router config is required for HTTP router type''
       else if uc_Type c = MultidimensionalRouterType \<and> MultiDimConfig c = None
       then Some ''multidimensional router config is required for multidimensional router type''
       else if uc_Type c \<noteq> HTTPRouterType \<and> uc_Type c \<noteq> MultidimensionalRouterType then Some (''unsupported router type: '' @ uc_Type c)
       else run_validators (configValidators cm) c)"

text \<open>The defaults are filled into the caller's object, which is then stored itself.\<close>

definition LoadConfig :: "string \<Rightarrow> nat option \<Rightarrow> ConfigManager \<Rightarrow> string option \<times> ConfigManager" where
  "LoadConfig name a cm = (case validateConfig (map_option (config_at cm) a) cm of
     Some e \<Rightarrow> (Some (''config validation failed: '' @ e), cm)
   | None \<Rightarrow>
       (let a = the a; c = setDefaultValues (config_at cm a); store = (config_at cm)(a := c); old = map_option store (configs cm name)
        in (None, cm\<lparr>config_at := store, configs := (configs cm)(name \<mapsto> a),
              notified := notified cm @ map (\<lambda>h. (h, old, c)) [0..<configChangeHandlers cm]\<rparr>)))"

definition UpdateConfig :: "string \<Rightarrow> nat option \<Rightarrow> ConfigManager \<Rightarrow> string option \<times> ConfigManager" where
  "UpdateConfig = LoadConfig"

definition GetConfig :: "string \<Rightarrow> ConfigManager \<Rightarrow> UnifiedRouterConfig option" where
  "GetConfig name cm = map_option (config_at cm) (configs cm name)"

definition DeleteConfig :: "string \<Rightarrow> ConfigManager \<Rightarrow> ConfigManager" where
  "DeleteConfig name cm = cm\<lparr>configs := (configs cm)(name := None)\<rparr>"

definition AddValidator :: "validator \<Rightarrow> ConfigManager \<Rightarrow> ConfigManager" where
  "AddValidator v cm = cm\<lparr>configValidators := configValidators cm @ [v]\<rparr>"

text \<open>Handlers are numbered in the order they were added.\<close>

definition AddChangeHandler :: "ConfigManager \<Rightarrow> ConfigManager" where
  "AddChangeHandler cm = cm\<lparr>configChangeHandlers := configChangeHandlers cm + 1\<rparr>"

definition ExportConfig :: "(UnifiedRouterConfig \<Rightarrow> bytes) \<Rightarrow> string \<Rightarrow> ConfigManager \<Rightarrow> string + bytes" where
  "ExportConfig enc name cm = (case GetConfig name cm of None \<Rightarrow> Inl (''config not found: '' @ name) | Some c \<Rightarrow> Inr (enc c))"

text \<open>\<open>a\<close> is the address of the object the decoder fills.\<close>

definition ImportConfig :: "(bytes \<Rightarrow> string + UnifiedRouterConfig) \<Rightarrow> nat \<Rightarrow> string \<Rightarrow> bytes \<Rightarrow> ConfigManager \<Rightarrow> string option \<times> ConfigManager" where
  "ImportConfig dec a name data cm = (case dec data of
     Inl e \<Rightarrow> (Some (''failed to unmarshal config: '' @ e), cm)
   | Inr c \<Rightarrow> LoadConfig name (Some a) (cm\<lparr>config_at := (config_at cm)(a := c\<lparr>uc_Name := name\<rparr>)\<rparr>))"

definition GetDefaultHTTPConfig :: UnifiedRouterConfig where
  "GetDefaultHTTPConfig = \<lparr>uc_Type = HTTPRouterType, uc_Name = ''default-http'', uc_Enabled = True,
     uc_Description = ''Default HTTP router configuration'',
     HTTPConfig = Some \<lparr>CaseSensitive = False, StrictSlash = False, UseEncodedPath = False, SkipClean = False, MaxRoutes = 10000,
       TimeoutDuration = 30 * second, EnableCompression = True, EnableCORS = False, CORSOrigins = [''*'']\<rparr>,
     MultiDimConfig = None, uc_MonitoringConfig = None, uc_CacheConfig = None, uc_PerformanceConfig = None\<rparr>"

definition GetDefaultMultiDimConfig :: UnifiedRouterConfig where
  "GetDefaultMultiDimConfig = \<lparr>uc_Type = MultidimensionalRouterType, uc_Name = ''default-multidim'', uc_Enabled = True,
     uc_Description = ''Default multidimensional router configuration'', HTTPConfig = None,
     MultiDimConfig = Some \<lparr>Strategy = WeightedRoundRobin, HealthCheckInterval = 30 * second, MaxFailures = 3, RecoveryThreshold = 5\<rparr>,
     uc_MonitoringConfig = None, uc_CacheConfig = None, uc_PerformanceConfig = None\<rparr>"

section \<open>Well-formed configurations\<close>

definition well_formed :: "UnifiedRouterConfig \<Rightarrow> bool" where
  "well_formed c \<longleftrightarrow> uc_Name c \<noteq> [] \<and>
     (uc_Type c = HTTPRouterType \<and> (\<exists>h. HTTPConfig c = Some h \<and> MaxRoutes h \<noteq> 0 \<and> TimeoutDuration h \<noteq> 0) \<or>
      uc_Type c = MultidimensionalRouterType \<and>
        (\<exists>m. MultiDimConfig c = Some m \<and> HealthCheckInterval m \<noteq> 0 \<and> MaxFailures m \<noteq> 0 \<and> RecoveryThreshold m \<noteq> 0)) \<and>
     uc_MonitoringConfig c \<noteq> None \<and> uc_CacheConfig c \<noteq> None \<and> uc_PerformanceConfig c \<noteq> None"

lemma types_differ [simp]: "HTTPRouterType \<noteq> MultidimensionalRouterType" "MultidimensionalRouterType \<noteq> HTTPRouterType"
  by (simp_all add: HTTPRouterType_def MultidimensionalRouterType_def)

lemma or_default_not_None [simp]: "\<exists>y. or_default x d = Some y" "or_default (or_default x d) d = or_default x d"
  by (simp_all add: or_default_def split: option.splits)

lemma defaults_nonzero:
  "MaxRoutes (http_defaults h) \<noteq> 0 \<and> TimeoutDuration (http_defaults h) \<noteq> 0"
  "HealthCheckInterval (multi_dim_defaults m) \<noteq> 0 \<and> MaxFailures (multi_dim_defaults m) \<noteq> 0 \<and> RecoveryThreshold (multi_dim_defaults m) \<noteq> 0"
  by (simp_all add: http_defaults_def multi_dim_defaults_def Let_def second_def)

lemma validateConfig_None:
  "validateConfig x cm = None \<longleftrightarrow> (\<exists>c. x = Some c \<and> uc_Name c \<noteq> [] \<and>
     (uc_Type c = HTTPRouterType \<and> HTTPConfig c \<noteq> None \<or> uc_Type c = MultidimensionalRouterType \<and> MultiDimConfig c \<noteq> None) \<and>
     run_validators (configValidators cm) c = None)"
  by (auto simp: validateConfig_def HTTPRouterType_def MultidimensionalRouterType_def split: option.splits if_splits)

lemma setDefaultValues_well_formed:
  assumes "uc_Name c \<noteq> []" "uc_Type c = HTTPRouterType \<and> HTTPConfig c \<noteq> None \<or> uc_Type c = MultidimensionalRouterType \<and> MultiDimConfig c \<noteq> None"
  shows "well_formed (setDefaultValues c)"
  using assms defaults_nonzero by (auto simp: well_formed_def setDefaultValues_def Let_def)

lemma well_formed_fixpoint: "well_formed c \<Longrightarrow> setDefaultValues c = c"
  by (auto simp: well_formed_def setDefaultValues_def Let_def or_default_def http_defaults_def multi_dim_defaults_def)

text \<open>
  What callers do: load or import a configuration, delete one, add validators and handlers, and write
  to configuration objects they have not loaded.
\<close>

inductive cm_step :: "(bytes \<Rightarrow> string + UnifiedRouterConfig) \<Rightarrow> ConfigManager \<Rightarrow> ConfigManager \<Rightarrow> bool" for dec where
  loads: "cm_step dec cm (snd (LoadConfig name a cm))"
| import: "a \<notin> ran (configs cm) \<Longrightarrow> cm_step dec cm (snd (ImportConfig dec a name data cm))"
| deletes: "cm_step dec cm (DeleteConfig name cm)"
| validator: "cm_step dec cm (AddValidator v cm)"
| handler: "cm_step dec cm (AddChangeHandler cm)"
| writes: "a \<notin> ran (configs cm) \<Longrightarrow> cm_step dec cm (cm\<lparr>config_at := (config_at cm)(a := c)\<rparr>)"

definition all_well_formed :: "ConfigManager \<Rightarrow> bool" where
  "all_well_formed cm \<longleftrightarrow> (\<forall>a\<in>ran (configs cm). well_formed (config_at cm a))"

lemma all_well_formed_Load:
  assumes "all_well_formed cm"
  shows "all_well_formed (snd (LoadConfig name a cm))"
proof (cases "validateConfig (map_option (config_at cm) a) cm")
  case None
  from None obtain b where b: "a = Some b" and v: "uc_Name (config_at cm b) \<noteq> []"
    "uc_Type (config_at cm b) = HTTPRouterType \<and> HTTPConfig (config_at cm b) \<noteq> None \<or>
     uc_Type (config_at cm b) = MultidimensionalRouterType \<and> MultiDimConfig (config_at cm b) \<noteq> None"
    unfolding validateConfig_None by auto
  have "ran ((configs cm)(name \<mapsto> b)) \<subseteq> insert b (ran (configs cm))" by (auto simp: ran_def)
  with assms setDefaultValues_well_formed[OF v] None b show ?thesis
    by (auto simp: all_well_formed_def LoadConfig_def Let_def)
qed (use assms in \<open>simp add: LoadConfig_def\<close>)

lemma all_well_formed_write: "all_well_formed cm \<Longrightarrow> a \<notin> ran (configs cm) \<Longrightarrow> all_well_formed (cm\<lparr>config_at := (config_at cm)(a := c)\<rparr>)"
  by (auto simp: all_well_formed_def)

lemma all_well_formed_step: "cm_step dec cm cm' \<Longrightarrow> all_well_formed cm \<Longrightarrow> all_well_formed cm'"
proof (induction rule: cm_step.induct)
  case (import a cm name data)
  then show ?case by (cases "dec data") (auto simp: ImportConfig_def intro: all_well_formed_Load all_well_formed_write)
next
  case (loads cm name a)
  then show ?case by (rule all_well_formed_Load)
next
  case (deletes cm name)
  have "ran ((configs cm)(name := None)) \<subseteq> ran (configs cm)" by (auto simp: ran_def)
  with deletes show ?case by (auto simp: all_well_formed_def DeleteConfig_def)
qed (auto intro: all_well_formed_Load all_well_formed_write simp: AddValidator_def AddChangeHandler_def all_well_formed_def)

text \<open>
  C28. Whatever is loaded, imported and deleted, every configuration the manager holds is well-formed:
  it has a name, a known router type with the configuration of that type, no zero where a default
  exists, and its monitoring, cache and performance parts; and filling in defaults again leaves it
  unchanged.
\<close>

theorem configs_well_formed:
  assumes "(cm_step dec)\<^sup>*\<^sup>* (NewConfigManager store file) cm" "GetConfig name cm = Some c"
  shows "well_formed c \<and> setDefaultValues c = c"
proof -
  from assms(1) have "all_well_formed cm"
  proof (induction rule: rtranclp_induct)
    case base
    show ?case by (simp add: all_well_formed_def NewConfigManager_def)
  qed (rule all_well_formed_step)
  with assms(2) have "well_formed c" by (auto simp: GetConfig_def all_well_formed_def ran_def)
  then show ?thesis by (simp add: well_formed_fixpoint)
qed

theorem configs_well_formed_witness:
  "let cm = snd (LoadConfig ''edge'' (Some 0) (NewConfigManager (\<lambda>_. GetDefaultHTTPConfig) ''router.json''))
   in \<exists>c. GetConfig ''edge'' cm = Some c \<and> uc_MonitoringConfig c = Some default_monitoring \<and> well_formed c \<and> setDefaultValues c = c"
proof -
  let ?new = "NewConfigManager (\<lambda>_. GetDefaultHTTPConfig) ''router.json''" let ?cm = "snd (LoadConfig ''edge'' (Some 0) ?new)"
  have g: "GetConfig ''edge'' ?cm = Some (setDefaultValues GetDefaultHTTPConfig)"
    by (simp add: GetConfig_def LoadConfig_def validateConfig_def NewConfigManager_def GetDefaultHTTPConfig_def HTTPRouterType_def
        MultidimensionalRouterType_def Let_def)
  have "(cm_step (\<lambda>_. Inl []))\<^sup>*\<^sup>* ?new ?cm" using cm_step.loads[of "\<lambda>_. Inl []" ?new "''edge''" "Some 0"] by blast
  from configs_well_formed[OF this g] g show ?thesis
    by (simp add: Let_def setDefaultValues_def GetDefaultHTTPConfig_def or_default_def)
qed

text \<open>
  Importing under its own name what was exported leaves that configuration and all others as
  they were, if the current validators still accept it and the decoder inverts the encoder on it.
\<close>

lemma import_of_export:
  assumes "GetConfig name cm = Some c" "well_formed c" "uc_Name c = name" "run_validators (configValidators cm) c = None"
    and "dec (enc c) = Inr c" "a \<notin> ran (configs cm)" "ExportConfig enc name cm = Inr data"
  shows "\<exists>cm'. ImportConfig dec a name data cm = (None, cm') \<and> (\<forall>n. GetConfig n cm' = GetConfig n cm)"
proof -
  have d: "data = enc c" using assms(1,7) by (simp add: ExportConfig_def)
  have c: "c\<lparr>uc_Name := name\<rparr> = c" using assms(3) by simp
  let ?cm = "cm\<lparr>config_at := (config_at cm)(a := c)\<rparr>"
  have "validateConfig (Some c) ?cm = None" using assms(2,4) by (auto simp: validateConfig_None well_formed_def)
  then have "ImportConfig dec a name data cm = (None, ?cm\<lparr>config_at := (config_at ?cm)(a := c), configs := (configs cm)(name \<mapsto> a),
      notified := notified cm @ map (\<lambda>h. (h, map_option ((config_at ?cm)(a := c)) (configs cm name), c)) [0..<configChangeHandlers cm]\<rparr>)"
    by (simp add: ImportConfig_def d assms(5) c LoadConfig_def Let_def well_formed_fixpoint[OF assms(2)])
  moreover have "GetConfig n (?cm\<lparr>config_at := (config_at ?cm)(a := c), configs := (configs cm)(name \<mapsto> a), notified := x\<rparr>) = GetConfig n cm" for n x
    using assms(1,6) by (cases "configs cm n") (auto simp: GetConfig_def ran_def)
  ultimately show ?thesis by blast
qed

lemma import_of_export_witness:
  "let c = setDefaultValues GetDefaultHTTPConfig;
       cm = snd (LoadConfig ''default-http'' (Some 0) (NewConfigManager (\<lambda>_. GetDefaultHTTPConfig) []))
   in \<exists>cm'. ImportConfig (\<lambda>_. Inr c) 1 ''default-http'' [1, 2] cm = (None, cm') \<and> GetConfig ''default-http'' cm' = Some c"
proof -
  let ?c = "setDefaultValues GetDefaultHTTPConfig" let ?new = "NewConfigManager (\<lambda>_. GetDefaultHTTPConfig) []"
  define cm where "cm = snd (LoadConfig ''default-http'' (Some 0) ?new)"
  have f: "configs cm = [''default-http'' \<mapsto> 0]" "config_at cm 0 = ?c" "configValidators cm = []"
    by (simp_all add: cm_def LoadConfig_def validateConfig_def NewConfigManager_def GetDefaultHTTPConfig_def HTTPRouterType_def
        MultidimensionalRouterType_def Let_def)
  then have g: "GetConfig ''default-http'' cm = Some ?c" by (simp add: GetConfig_def)
  have "uc_Name GetDefaultHTTPConfig \<noteq> []" "uc_Type GetDefaultHTTPConfig = HTTPRouterType \<and> HTTPConfig GetDefaultHTTPConfig \<noteq> None"
    by (simp_all add: GetDefaultHTTPConfig_def)
  then have w: "well_formed ?c" by (intro setDefaultValues_well_formed) simp_all
  have n: "uc_Name ?c = ''default-http''" by (simp add: setDefaultValues_def GetDefaultHTTPConfig_def Let_def)
  have e: "ExportConfig (\<lambda>_. [1, 2]) ''default-http'' cm = Inr [1, 2]" by (simp add: ExportConfig_def g)
  have "1 \<notin> ran (configs cm)" by (simp add: f(1))
  from import_of_export[OF g w n _ _ this e, of "\<lambda>_. Inr ?c"] g show ?thesis unfolding cm_def[symmetric] Let_def by (auto simp: f(3))
qed

text \<open>
  Only zero counts as unset: a negative limit is stored as it is. The stored object is the caller's,
  so a later write to it changes the stored configuration without validation.
\<close>

lemma negative_values_pass: "MaxRoutes h = -1 \<Longrightarrow> MaxRoutes (http_defaults h) = -1"
  by (simp add: http_defaults_def Let_def)

lemma caller_still_writes:
  "configs cm name = Some a \<Longrightarrow> GetConfig name (cm\<lparr>config_at := (config_at cm)(a := c)\<rparr>) = Some c"
  by (simp add: GetConfig_def)

end
