(* ===== verification/Self_Lock.thy ===== *)
theory Self_Lock
  imports Main
begin

text \<open>
  The contract of an object with one mutex that has an operation which locks it twice. An operation
  answers with the new state and whether it returned; \<open>held\<close> says that the mutex is held by an
  operation that will never release it. The monitors of the program are such objects; what follows
  from the contract is proved here once.
\<close>

definition run_ops :: "('op \<Rightarrow> 's \<Rightarrow> 's \<times> bool) \<Rightarrow> 'op list \<Rightarrow> 's \<Rightarrow> 's" where
  "run_ops step ops s = fold (\<lambda>op s. fst (step op s)) ops s"

lemma run_ops_Nil [simp]: "run_ops step [] s = s"
  and run_ops_snoc [simp]: "run_ops step (ops @ [op]) s = fst (step op (run_ops step ops s))"
  by (simp_all add: run_ops_def)

locale self_lock =
  fixes step :: "'op \<Rightarrow> 's \<Rightarrow> 's \<times> bool"
    and held :: "'s \<Rightarrow> bool"
    and relocks :: "'op \<Rightarrow> bool"
    and takes :: "'op \<Rightarrow> bool"
  assumes keeps: "held s \<Longrightarrow> held (fst (step op s))"
    and waits: "held s \<Longrightarrow> takes op \<Longrightarrow> \<not> snd (step op s)"
    and relock: "relocks op \<Longrightarrow> held (fst (step op s)) \<and> \<not> snd (step op s)"
    and frees: "\<not> held s \<Longrightarrow> \<not> relocks op \<Longrightarrow> \<not> held (fst (step op s)) \<and> snd (step op s)"
begin

lemma held_run: "held (run_ops step ops s) \<longleftrightarrow> held s \<or> (\<exists>op\<in>set ops. relocks op)"
proof (induction ops rule: rev_induct)
  case (snoc op ops)
  then show ?case using keeps relock frees by (cases "relocks op"; cases "held (run_ops step ops s)") auto
qed simp

text \<open>After a relocking operation whatever takes the mutex waits; before it, everything else returns.\<close>

lemma blocked: "\<exists>op\<in>set ops. relocks op \<Longrightarrow> takes op' \<Longrightarrow> \<not> snd (step op' (run_ops step ops s))"
  using held_run waits by blast

lemma returns:
  "\<not> held s \<Longrightarrow> \<not> (\<exists>op\<in>set ops. relocks op) \<Longrightarrow> \<not> relocks op' \<Longrightarrow> snd (step op' (run_ops step ops s))"
  using held_run frees by blast

end

end
