(* ===== verification/Adaptive_Performance.thy ===== *)
theory Adaptive_Performance
  imports Prelude Self_Lock Complex_Main
begin

text \<open>
  The adaptive performance monitor of \<^verbatim>\<open>core/performance/adaptive_performance.go\<close>: the prediction
  model (a window of metrics and its linear trend), the tuner (decisions, their results and the
  confidence learnt from them) and the monitor with its counters, its latency histogram and its
  mutex. What the runtime reports is a parameter; the mutex is a field of the state, so that an
  operation that waits for a lock nobody will release answers with none. The lemmas show the trend,
  the confidence, the percentiles, and that the monitor blocks at its first collection.
\<close>

section \<open>Configuration and metrics\<close>

record OptimizedPerformanceConfig =
  MonitoringEnabled :: bool
  MonitoringInterval :: duration
  MetricsRetention :: duration
  MetricsBufferSize :: int
  AdaptiveTuningEnabled :: bool
  TuningInterval :: duration
  TuningAggression :: rat
  LearningRate :: rat
  PredictionEnabled :: bool
  PredictionWindow :: duration
  PredictionAccuracy :: rat
  MaxCPUUsage :: rat
  MaxMemoryUsage :: int
  MaxGoroutines :: int
  MaxGCPauseTime :: duration
  CacheOptimization :: bool
  MinCacheHitRate :: rat
  CacheEvictionPolicy :: string
  LoadBalancingEnabled :: bool
  LoadBalancingStrategy :: string
  HealthCheckInterval :: duration

definition DefaultOptimizedPerformanceConfig :: OptimizedPerformanceConfig where
  "DefaultOptimizedPerformanceConfig = \<lparr>MonitoringEnabled = True, MonitoringInterval = 5 * second,
     MetricsRetention = 24 * 60 * minute, MetricsBufferSize = 10000, AdaptiveTuningEnabled = True,
     TuningInterval = 30 * second, TuningAggression = 1 / 2, LearningRate = 1 / 10, PredictionEnabled = True,
     PredictionWindow = 5 * minute, PredictionAccuracy = 8 / 10, MaxCPUUsage = 80,
     MaxMemoryUsage = 2 * 1024 * 1024 * 1024, MaxGoroutines = 10000, MaxGCPauseTime = 10 * millisecond,
     CacheOptimization = True, MinCacheHitRate = 85 / 100, CacheEvictionPolicy = ''lru'', LoadBalancingEnabled = True,
     LoadBalancingStrategy = ''weighted_round_robin'', HealthCheckInterval = 10 * second\<rparr>"

record OptimizedMetrics =
  CPUUsage :: rat
  MemoryUsage :: int
  GoroutineCount :: int
  GCPauseTime :: int
  Timestamp :: time
  Throughput :: rat
  LatencyP50 :: rat
  LatencyP95 :: rat
  LatencyP99 :: rat
  ErrorRate :: rat
  CacheHitRate :: rat
  HeapSize :: int
  StackSize :: int
  FileDescriptors :: int
  NetworkConns :: int
  PredictedLoad :: rat
  TrendDirection :: string
  Confidence :: rat

definition zeroMetrics :: OptimizedMetrics where
  "zeroMetrics = \<lparr>CPUUsage = 0, MemoryUsage = 0, GoroutineCount = 0, GCPauseTime = 0, Timestamp = 0, Throughput = 0,
     LatencyP50 = 0, LatencyP95 = 0, LatencyP99 = 0, ErrorRate = 0, CacheHitRate = 0, HeapSize = 0, StackSize = 0,
     FileDescriptors = 0, NetworkConns = 0, PredictedLoad = 0, TrendDirection = [], Confidence = 0\<rparr>"

section \<open>The prediction model\<close>

record PredictionModel =
  history :: "OptimizedMetrics list"
  weights :: "rat list"
  accuracy :: rat
  lastUpdate :: time

definition NewPredictionModel :: "time \<Rightarrow> PredictionModel" where
  "NewPredictionModel now = \<lparr>history = [], weights = [1 / 2, 3 / 10, 2 / 10], accuracy = 0, lastUpdate = now\<rparr>"

text \<open>\<open>keep_last n xs x\<close>: append and drop the first element once there are more than \<open>n\<close>.\<close>

definition keep_last :: "nat \<Rightarrow> 'a list \<Rightarrow> 'a \<Rightarrow> 'a list" where
  "keep_last n xs x = (let ys = xs @ [x] in if length ys > n then tl ys else ys)"

definition AddDataPoint :: "time \<Rightarrow> OptimizedMetrics \<Rightarrow> PredictionModel \<Rightarrow> PredictionModel" where
  "AddDataPoint now m pm = pm\<lparr>history := keep_last 1000 (history pm) m, lastUpdate := now\<rparr>"

definition calculateTrend :: "rat list \<Rightarrow> rat" where
  "calculateTrend values =
     (if length values < 2 then 0
      else (let n = of_nat (length values); xs = map of_nat [0..<length values];
                sumX = sum_list xs; sumY = sum_list values;
                sumXY = sum_list (map2 (*) xs values); sumX2 = sum_list (map (\<lambda>x. x * x) xs)
            in (n * sumXY - sumX * sumY) / (n * sumX2 - sumX * sumX)))"

definition direction :: "rat \<Rightarrow> string" where
  "direction t = (if t > 1 / 10 then ''increasing'' else if t < - 1 / 10 then ''decreasing'' else ''stable'')"

definition seconds :: "duration \<Rightarrow> rat" where
  "seconds d = of_int d / of_int second"

definition Predict :: "time \<Rightarrow> duration \<Rightarrow> PredictionModel \<Rightarrow> OptimizedMetrics option \<times> rat" where
  "Predict now d pm =
     (if length (history pm) < 3 then (None, 0)
      else (let recent = drop (length (history pm) - 3) (history pm); last_m = recent ! 2;
                cpu = calculateTrend (map CPUUsage recent);
                mem = calculateTrend (map (\<lambda>m. of_int (MemoryUsage m)) recent);
                thr = calculateTrend (map Throughput recent);
                steps = seconds d / 5
            in (Some (zeroMetrics\<lparr>CPUUsage := max 0 (min 100 (CPUUsage last_m + cpu * steps)),
                  MemoryUsage := \<lfloor>max 0 (of_int (MemoryUsage last_m) + mem * steps)\<rfloor>,
                  Throughput := max 0 (Throughput last_m + thr * steps),
                  Timestamp := now + d, PredictedLoad := CPUUsage last_m + cpu * steps,
                  Confidence := accuracy pm, TrendDirection := direction cpu\<rparr>), accuracy pm)))"

section \<open>The tuner\<close>

datatype param = Num rat | Whole int | Text string | Flag bool

record TuningResult =
  Success :: bool
  Improvement :: rat
  SideEffects :: "string list"
  Metrics :: "(string \<times> param) list"
  Duration :: duration
  tr_Timestamp :: time

text \<open>
  The identifier of a decision is a prefix and the time in seconds, printed one after the other; it
  is kept as the pair. The reason, a text for the log, is left out.
\<close>

record TuningDecision =
  ID :: "string \<times> int"
  Type :: string
  Action :: string
  Parameters :: "(string \<times> param) list"
  td_Confidence :: rat
  td_Timestamp :: time
  Executed :: bool
  Result :: "TuningResult option"

record AdaptiveTuner =
  at_config :: OptimizedPerformanceConfig
  decisions :: "TuningDecision list"
  learningData :: "string \<rightharpoonup> TuningResult list"

definition NewAdaptiveTuner :: "OptimizedPerformanceConfig \<Rightarrow> AdaptiveTuner" where
  "NewAdaptiveTuner cfg = \<lparr>at_config = cfg, decisions = [], learningData = Map.empty\<rparr>"

definition improved :: "TuningResult \<Rightarrow> bool" where
  "improved r \<longleftrightarrow> Success r \<and> Improvement r > 0"

definition calculateConfidence :: "string \<Rightarrow> AdaptiveTuner \<Rightarrow> rat" where
  "calculateConfidence ty t = (case learningData t ty of
     None \<Rightarrow> 1 / 2
   | Some rs \<Rightarrow> if rs = [] then 1 / 2
       else min (95 / 100) (max (1 / 10) (of_nat (length (filter improved rs)) / of_nat (length rs))))"

definition decision :: "string \<Rightarrow> string \<Rightarrow> string \<Rightarrow> (string \<times> param) list \<Rightarrow> rat \<Rightarrow> time \<Rightarrow> TuningDecision" where
  "decision pre ty act ps c now = \<lparr>ID = (pre, now div second), Type = ty, Action = act, Parameters = ps,
     td_Confidence = c, td_Timestamp = now, Executed = False, Result = None\<rparr>"

definition decideCPUOptimization :: "time \<Rightarrow> OptimizedMetrics \<Rightarrow> OptimizedMetrics option \<Rightarrow> AdaptiveTuner \<Rightarrow> TuningDecision option" where
  "decideCPUOptimization now cur pred t =
     (let mx = MaxCPUUsage (at_config t)
      in if CPUUsage cur > mx
         then Some (decision ''cpu_opt_'' ''cpu_optimization'' ''reduce_cpu_usage''
                [(''target_usage'', Num (mx * 9 / 10)), (''method'', Text ''goroutine_limiting'')]
                (calculateConfidence ''cpu_optimization'' t) now)
         else case pred of
           Some p \<Rightarrow> if CPUUsage p > mx
             then Some (decision ''cpu_pred_'' ''cpu_prediction'' ''preemptive_cpu_optimization''
                [(''predicted_usage'', Num (CPUUsage p)), (''confidence'', Num (Confidence p)), (''method'', Text ''load_shedding'')]
                (calculateConfidence ''cpu_prediction'' t * Confidence p) now)
             else None
         | None \<Rightarrow> None)"

definition decideMemoryOptimization :: "time \<Rightarrow> OptimizedMetrics \<Rightarrow> OptimizedMetrics option \<Rightarrow> AdaptiveTuner \<Rightarrow> TuningDecision option" where
  "decideMemoryOptimization now cur pred t =
     (let mx = MaxMemoryUsage (at_config t)
      in if MemoryUsage cur > mx
         then Some (decision ''mem_opt_'' ''memory_optimization'' ''reduce_memory_usage''
                [(''target_usage'', Num (of_int mx * 9 / 10)), (''method'', Text ''gc_trigger'')]
                (calculateConfidence ''memory_optimization'' t) now)
         else None)"

definition decideCacheOptimization :: "time \<Rightarrow> OptimizedMetrics \<Rightarrow> OptimizedMetrics option \<Rightarrow> AdaptiveTuner \<Rightarrow> TuningDecision option" where
  "decideCacheOptimization now cur pred t =
     (let mn = MinCacheHitRate (at_config t)
      in if CacheHitRate cur < mn
         then Some (decision ''cache_opt_'' ''cache_optimization'' ''improve_cache_hit_rate''
                [(''target_hit_rate'', Num mn), (''method'', Text ''cache_warming''),
                 (''eviction_policy'', Text (CacheEvictionPolicy (at_config t)))]
                (calculateConfidence ''cache_optimization'' t) now)
         else None)"

definition decideGCOptimization :: "time \<Rightarrow> OptimizedMetrics \<Rightarrow> OptimizedMetrics option \<Rightarrow> AdaptiveTuner \<Rightarrow> TuningDecision option" where
  "decideGCOptimization now cur pred t =
     (let mx = MaxGCPauseTime (at_config t)
      in if GCPauseTime cur > mx
         then Some (decision ''gc_opt_'' ''gc_optimization'' ''reduce_gc_pause_time''
                [(''target_pause_time'', Whole mx), (''method'', Text ''gc_tuning'')]
                (calculateConfidence ''gc_optimization'' t) now)
         else None)"

definition AnalyzeAndDecide :: "time \<Rightarrow> OptimizedMetrics \<Rightarrow> OptimizedMetrics option \<Rightarrow> AdaptiveTuner \<Rightarrow> TuningDecision list \<times> AdaptiveTuner" where
  "AnalyzeAndDecide now cur pred t =
     (let ds = List.map_filter (\<lambda>f. f now cur pred t)
        [decideCPUOptimization, decideMemoryOptimization, decideCacheOptimization, decideGCOptimization]
      in (ds, t\<lparr>decisions := decisions t @ ds\<rparr>))"

text \<open>\<^verbatim>\<open>RecordResult\<close>: the first decision with the identifier gets the result and teaches it.\<close>

fun set_result :: "string \<times> int \<Rightarrow> TuningResult \<Rightarrow> TuningDecision list \<Rightarrow> TuningDecision list \<times> string option" where
  "set_result i r [] = ([], None)"
| "set_result i r (d # ds) =
     (if ID d = i then (d\<lparr>Result := Some r, Executed := True\<rparr> # ds, Some (Type d))
      else (let (ds, ty) = set_result i r ds in (d # ds, ty)))"

definition learn :: "string \<Rightarrow> TuningResult \<Rightarrow> AdaptiveTuner \<Rightarrow> AdaptiveTuner" where
  "learn ty r t = t\<lparr>learningData := (learningData t)(ty \<mapsto>
     keep_last 100 (case learningData t ty of None \<Rightarrow> [] | Some rs \<Rightarrow> rs) r)\<rparr>"

definition RecordResult :: "string \<times> int \<Rightarrow> TuningResult \<Rightarrow> AdaptiveTuner \<Rightarrow> AdaptiveTuner" where
  "RecordResult i r t = (let (ds, ty) = set_result i r (decisions t); t = t\<lparr>decisions := ds\<rparr>
     in case ty of None \<Rightarrow> t | Some ty \<Rightarrow> learn ty r t)"

section \<open>The monitor\<close>

record OptimizedPerformanceMonitor =
  pm_config :: OptimizedPerformanceConfig
  metrics :: OptimizedMetrics
  metricsHistory :: "OptimizedMetrics list"
  predictionModel :: PredictionModel
  adaptiveTuner :: AdaptiveTuner
  requestCount :: "64 word"
  errorCount :: "64 word"
  latencySum :: "64 word"
  latencyCount :: "64 word"
  cacheHits :: "64 word"
  cacheMisses :: "64 word"
  latencyBuckets :: "rat list"
  latencyHistogram :: "nat \<rightharpoonup> 64 word"
  mu_held :: bool   \<comment> \<open>the mutex is held for writing\<close>

definition default_buckets :: "rat list" where
  "default_buckets = [1, 5, 10, 25, 50, 100, 250, 500, 1000, 2500, 5000]"

definition NewOptimizedPerformanceMonitor :: "time \<Rightarrow> OptimizedPerformanceConfig option \<Rightarrow> OptimizedPerformanceMonitor" where
  "NewOptimizedPerformanceMonitor now c =
     (let c = (case c of None \<Rightarrow> DefaultOptimizedPerformanceConfig | Some c \<Rightarrow> c)
      in \<lparr>pm_config = c, metrics = zeroMetrics, metricsHistory = [], predictionModel = NewPredictionModel now,
          adaptiveTuner = NewAdaptiveTuner c, requestCount = 0, errorCount = 0, latencySum = 0, latencyCount = 0,
          cacheHits = 0, cacheMisses = 0, latencyBuckets = default_buckets,
          latencyHistogram = (\<lambda>i. if i < length default_buckets then Some 0 else None), mu_held = False\<rparr>)"

subsection \<open>Recording\<close>

definition RecordCacheHit :: "OptimizedPerformanceMonitor \<Rightarrow> OptimizedPerformanceMonitor" where
  "RecordCacheHit m = m\<lparr>cacheHits := cacheHits m + 1\<rparr>"

definition RecordCacheMiss :: "OptimizedPerformanceMonitor \<Rightarrow> OptimizedPerformanceMonitor" where
  "RecordCacheMiss m = m\<lparr>cacheMisses := cacheMisses m + 1\<rparr>"

text \<open>The index of the first bucket that takes the latency, else of the last.\<close>

fun bucket_index :: "rat \<Rightarrow> rat list \<Rightarrow> nat" where
  "bucket_index ms [] = 0"
| "bucket_index ms [b] = 0"
| "bucket_index ms (b # c # bs) = (if ms \<le> b then 0 else Suc (bucket_index ms (c # bs)))"

definition add_to_bucket :: "nat \<Rightarrow> (nat \<rightharpoonup> 64 word) \<Rightarrow> (nat \<rightharpoonup> 64 word)" where
  "add_to_bucket i h = h(i \<mapsto> (case h i of None \<Rightarrow> 0 | Some n \<Rightarrow> n) + 1)"

text \<open>The second component of an answer says that the operation returned.\<close>

definition updateLatencyHistogram :: "rat \<Rightarrow> OptimizedPerformanceMonitor \<Rightarrow> OptimizedPerformanceMonitor \<times> bool" where
  "updateLatencyHistogram ms m =
     (if mu_held m then (m, False)
      else (m\<lparr>latencyHistogram := add_to_bucket (bucket_index ms (latencyBuckets m)) (latencyHistogram m)\<rparr>, True))"

definition RecordRequest :: "duration \<Rightarrow> bool \<Rightarrow> OptimizedPerformanceMonitor \<Rightarrow> OptimizedPerformanceMonitor \<times> bool" where
  "RecordRequest latency ok m =
     (let ms = of_int latency / 1000000;
          m = m\<lparr>requestCount := requestCount m + 1, errorCount := errorCount m + (if ok then 0 else 1),
                latencySum := latencySum m + of_int \<lfloor>ms * 1000\<rfloor>, latencyCount := latencyCount m + 1\<rparr>
      in updateLatencyHistogram ms m)"

subsection \<open>Collecting\<close>

text \<open>
  The loop over the histogram, in the order \<open>is\<close> in which the map is iterated: the bucket at which
  the cumulative count reaches a target becomes the percentile, unless that is set already; the
  loop ends when the last one is set.
\<close>

definition set_once :: "rat \<Rightarrow> bool \<Rightarrow> rat \<Rightarrow> rat" where
  "set_once p reached b = (if p = 0 \<and> reached then b else p)"

fun percentile_loop :: "rat list \<Rightarrow> (nat \<rightharpoonup> 64 word) \<Rightarrow> 64 word \<times> 64 word \<times> 64 word \<Rightarrow> nat list \<Rightarrow> 64 word \<Rightarrow> rat \<times> rat \<times> rat \<Rightarrow> rat \<times> rat \<times> rat" where
  "percentile_loop bs h ts [] cum ps = ps"
| "percentile_loop bs h (t50, t95, t99) (i # is) cum (p50, p95, p99) =
     (let cum = cum + (case h i of None \<Rightarrow> 0 | Some n \<Rightarrow> n);
          p50 = set_once p50 (cum \<ge> t50) (bs ! i); p95 = set_once p95 (cum \<ge> t95) (bs ! i)
      in if p99 = 0 \<and> cum \<ge> t99 then (p50, p95, bs ! i)
         else percentile_loop bs h (t50, t95, t99) is cum (p50, p95, p99))"

definition histogram_total :: "(nat \<rightharpoonup> 64 word) \<Rightarrow> nat list \<Rightarrow> 64 word" where
  "histogram_total h is = sum_list (map (\<lambda>i. case h i of None \<Rightarrow> 0 | Some n \<Rightarrow> n) is)"

definition percentiles :: "nat list \<Rightarrow> OptimizedPerformanceMonitor \<Rightarrow> rat \<times> rat \<times> rat" where
  "percentiles is m =
     (let total = histogram_total (latencyHistogram m) is
      in if total = 0 then (0, 0, 0)
         else percentile_loop (latencyBuckets m) (latencyHistogram m)
           (total * 50 div 100, total * 95 div 100, total * 99 div 100) is 0 (0, 0, 0))"

text \<open>\<^verbatim>\<open>calculateLatencyPercentiles\<close> takes the mutex for reading.\<close>

definition calculateLatencyPercentiles :: "nat list \<Rightarrow> OptimizedPerformanceMonitor \<Rightarrow> (rat \<times> rat \<times> rat) option" where
  "calculateLatencyPercentiles is m = (if mu_held m then None else Some (percentiles is m))"

definition ratio :: "64 word \<Rightarrow> 64 word \<Rightarrow> rat" where
  "ratio a b = (if b = 0 then 0 else of_nat (unat a) / of_nat (unat b))"

definition calculateCacheHitRate :: "OptimizedPerformanceMonitor \<Rightarrow> rat" where
  "calculateCacheHitRate m = ratio (cacheHits m) (cacheHits m + cacheMisses m)"

definition calculateErrorRate :: "OptimizedPerformanceMonitor \<Rightarrow> rat" where
  "calculateErrorRate m = ratio (errorCount m) (requestCount m) * 100"

definition calculateThroughput :: "OptimizedPerformanceMonitor \<Rightarrow> rat" where
  "calculateThroughput m = of_nat (unat (requestCount m)) / seconds (MonitoringInterval (pm_config m))"

text \<open>What the runtime reports at a collection, and the order of the map.\<close>

record runtime =
  rt_Alloc :: int
  rt_NumGoroutine :: int
  rt_PauseNs :: "nat \<Rightarrow> int"
  rt_NumGC :: nat
  rt_HeapAlloc :: int
  rt_StackInuse :: int
  rt_now :: time
  rt_order :: "nat list"

definition collected :: "runtime \<Rightarrow> rat \<times> rat \<times> rat \<Rightarrow> OptimizedPerformanceMonitor \<Rightarrow> OptimizedMetrics" where
  "collected rt ps m = (case ps of (p50, p95, p99) \<Rightarrow>
     zeroMetrics\<lparr>CPUUsage := of_int (rt_NumGoroutine rt) / 100, MemoryUsage := rt_Alloc rt, GoroutineCount := rt_NumGoroutine rt,
       GCPauseTime := rt_PauseNs rt ((rt_NumGC rt + 255) mod 256), Timestamp := rt_now rt,
       Throughput := calculateThroughput m, LatencyP50 := p50, LatencyP95 := p95, LatencyP99 := p99,
       ErrorRate := calculateErrorRate m, CacheHitRate := calculateCacheHitRate m,
       HeapSize := rt_HeapAlloc rt, StackSize := rt_StackInuse rt, FileDescriptors := 100, NetworkConns := 50\<rparr>)"

definition collectMetrics :: "runtime \<Rightarrow> OptimizedPerformanceMonitor \<Rightarrow> OptimizedPerformanceMonitor \<times> bool" where
  "collectMetrics rt m =
     (if mu_held m then (m, False)
      else (let m = m\<lparr>mu_held := True\<rparr> in case calculateLatencyPercentiles (rt_order rt) m of
          None \<Rightarrow> (m, False)
        | Some ps \<Rightarrow> (let x = collected rt ps m
            in (m\<lparr>metrics := x, metricsHistory := keep_last 1000 (metricsHistory m) x,
                  predictionModel := AddDataPoint (rt_now rt) x (predictionModel m), mu_held := False\<rparr>, True))))"

subsection \<open>Tuning and predictions\<close>

definition result :: "rat \<Rightarrow> string list \<Rightarrow> (string \<times> param) list \<Rightarrow> TuningResult" where
  "result imp effects ms = \<lparr>Success = True, Improvement = imp, SideEffects = effects, Metrics = ms, Duration = 0, tr_Timestamp = 0\<rparr>"

definition reduceCPUUsage :: TuningResult where "reduceCPUUsage = result 5 [] [(''cpu_reduction'', Num 5)]"
definition preemptiveCPUOptimization :: TuningResult where "preemptiveCPUOptimization = result 3 [] [(''preemptive_optimization'', Flag True)]"
definition reduceMemoryUsage :: TuningResult where "reduceMemoryUsage = result 10 [''gc_triggered''] [(''gc_triggered'', Flag True)]"
definition improveCacheHitRate :: TuningResult where "improveCacheHitRate = result 8 [] [(''cache_optimization'', Flag True)]"
definition reduceGCPauseTime :: TuningResult where "reduceGCPauseTime = result 15 [''gc_tuned''] [(''gc_tuning'', Flag True)]"

definition perform :: "string \<Rightarrow> TuningResult" where
  "perform act =
     (if act = ''reduce_cpu_usage'' then reduceCPUUsage
      else if act = ''preemptive_cpu_optimization'' then preemptiveCPUOptimization
      else if act = ''reduce_memory_usage'' then reduceMemoryUsage
      else if act = ''improve_cache_hit_rate'' then improveCacheHitRate
      else if act = ''reduce_gc_pause_time'' then reduceGCPauseTime
      else \<lparr>Success = False, Improvement = 0, SideEffects = [''unknown_action''], Metrics = [], Duration = 0, tr_Timestamp = 0\<rparr>)"

definition executeTuningDecision :: "time \<Rightarrow> duration \<Rightarrow> TuningDecision \<Rightarrow> AdaptiveTuner \<Rightarrow> AdaptiveTuner" where
  "executeTuningDecision now took d t = RecordResult (ID d) ((perform (Action d))\<lparr>Duration := took, tr_Timestamp := now\<rparr>) t"

definition tune :: "time \<Rightarrow> duration \<Rightarrow> OptimizedMetrics \<Rightarrow> OptimizedMetrics option \<Rightarrow> AdaptiveTuner \<Rightarrow> AdaptiveTuner" where
  "tune now took cur pred t = (let (ds, t) = AnalyzeAndDecide now cur pred t in fold (executeTuningDecision now took) ds t)"

definition performTuning :: "time \<Rightarrow> duration \<Rightarrow> OptimizedPerformanceMonitor \<Rightarrow> OptimizedPerformanceMonitor \<times> bool" where
  "performTuning now took m =
     (if mu_held m then (m, False)
      else (m\<lparr>adaptiveTuner := tune now took (metrics m) (fst (Predict now (PredictionWindow (pm_config m)) (predictionModel m))) (adaptiveTuner m)\<rparr>, True))"

definition updatePredictions :: "time \<Rightarrow> OptimizedPerformanceMonitor \<Rightarrow> OptimizedPerformanceMonitor \<times> bool" where
  "updatePredictions now m = (case Predict now (PredictionWindow (pm_config m)) (predictionModel m) of
     (Some p, c) \<Rightarrow>
       if c > PredictionAccuracy (pm_config m)
       then (if mu_held m then (m, False)
             else (m\<lparr>metrics := (metrics m)\<lparr>PredictedLoad := PredictedLoad p, TrendDirection := TrendDirection p, Confidence := c\<rparr>\<rparr>, True))
       else (m, True)
   | (None, c) \<Rightarrow> (m, True))"

definition GetMetrics :: "OptimizedPerformanceMonitor \<Rightarrow> OptimizedMetrics option" where
  "GetMetrics m = (if mu_held m then None else Some (metrics m))"

definition GetMetricsHistory :: "OptimizedPerformanceMonitor \<Rightarrow> OptimizedMetrics list option" where
  "GetMetricsHistory m = (if mu_held m then None else Some (metricsHistory m))"

text \<open>\<^verbatim>\<open>ExportMetrics\<close>: what it serialises.\<close>

definition ExportMetrics :: "OptimizedPerformanceMonitor \<Rightarrow> (OptimizedMetrics \<times> OptimizedMetrics list \<times> TuningDecision list \<times> (nat \<rightharpoonup> 64 word) \<times> OptimizedPerformanceConfig) option" where
  "ExportMetrics m = (case GetMetrics m of None \<Rightarrow> None | Some x \<Rightarrow>
     (case GetMetricsHistory m of None \<Rightarrow> None | Some xs \<Rightarrow>
        Some (x, xs, decisions (adaptiveTuner m), latencyHistogram m, pm_config m)))"

section \<open>Trend and confidence\<close>

lemma length_keep_last: "length (keep_last n xs x) = (if length xs < n then Suc (length xs) else length xs)"
  by (auto simp: keep_last_def Let_def)

lemma trend_of_three: "calculateTrend [a, b, c] = (c - a) / 2"
proof -
  have "[0..<3] = [0, 1, 2 :: nat]" by (simp add: upt_rec)
  then show ?thesis by (simp add: calculateTrend_def Let_def algebra_simps diff_divide_distrib add_divide_distrib)
qed

lemma calculateConfidence_bounds: "1 / 10 \<le> calculateConfidence ty t \<and> calculateConfidence ty t \<le> 95 / 100"
  by (auto simp: calculateConfidence_def min_def max_def split: option.splits)

text \<open>The trend of the last three values reaches the prediction; the accuracy stays what it was.\<close>

lemma Predict_eq:
  assumes "history pm = ms @ [a, b, c]"
  shows "\<exists>p. Predict now d pm = (Some p, accuracy pm) \<and> Confidence p = accuracy pm \<and>
    PredictedLoad p = CPUUsage c + (CPUUsage c - CPUUsage a) / 2 * (seconds d / 5) \<and>
    CPUUsage p = max 0 (min 100 (PredictedLoad p)) \<and> 0 \<le> MemoryUsage p \<and> 0 \<le> Throughput p"
proof -
  have "drop (length (history pm) - 3) (history pm) = [a, b, c]" using assms by simp
  then show ?thesis using assms by (simp add: Predict_def Let_def trend_of_three le_floor_iff)
qed

section \<open>The percentiles\<close>

definition first_bucket :: "rat list \<Rightarrow> (nat \<Rightarrow> 64 word) \<Rightarrow> 64 word \<Rightarrow> nat list \<Rightarrow> rat \<Rightarrow> rat" where
  "first_bucket bs C t is p = (if p \<noteq> 0 then p else case find (\<lambda>j. t \<le> C (Suc j)) is of None \<Rightarrow> 0 | Some j \<Rightarrow> bs ! j)"

lemma first_bucket_set_once:
  "bs ! i \<noteq> 0 \<Longrightarrow> first_bucket bs C t (i # is) p = first_bucket bs C t is (set_once p (t \<le> C (Suc i)) (bs ! i))"
  by (auto simp: first_bucket_def set_once_def)

lemma first_bucket_now:
  "t \<le> C (Suc i) \<Longrightarrow> first_bucket bs C t (i # is) p = set_once p (t \<le> C (Suc i)) (bs ! i)"
  by (auto simp: first_bucket_def set_once_def)

lemma percentile_loop_first:
  assumes "t50 \<le> t95" "t95 \<le> t99" "\<forall>j<n. h j = Some (C (Suc j) - C j) \<and> bs ! j \<noteq> 0" "i \<le> n"
  shows "percentile_loop bs h (t50, t95, t99) [i..<n] (C i) (p50, p95, 0) =
    (first_bucket bs C t50 [i..<n] p50, first_bucket bs C t95 [i..<n] p95, first_bucket bs C t99 [i..<n] 0)"
  using assms(4)
proof (induction "n - i" arbitrary: i p50 p95)
  case 0
  then show ?case by (simp add: first_bucket_def)
next
  case (Suc k)
  then have i: "i < n" and cons: "[i..<n] = i # [Suc i..<n]" by (simp_all add: upt_rec)
  have h: "h i = Some (C (Suc i) - C i)" and b: "bs ! i \<noteq> 0" using assms(3) i by auto
  have IH: "percentile_loop bs h (t50, t95, t99) [Suc i..<n] (C (Suc i)) (p50, p95, 0) =
    (first_bucket bs C t50 [Suc i..<n] p50, first_bucket bs C t95 [Suc i..<n] p95, first_bucket bs C t99 [Suc i..<n] 0)" for p50 p95
    using Suc(1) [of "Suc i" p50 p95] Suc(2) i by simp
  show ?case
  proof (cases "t99 \<le> C (Suc i)")
    case True
    then have "t50 \<le> C (Suc i)" "t95 \<le> C (Suc i)" using assms(1,2) by auto
    with True show ?thesis by (simp add: cons h Let_def first_bucket_now set_once_def)
  next
    case False
    then show ?thesis using b by (simp add: cons h Let_def IH first_bucket_set_once) (simp add: first_bucket_def set_once_def)
  qed
qed

text \<open>The recorded latencies in milliseconds; the last bucket also takes what is longer.\<close>

definition clamped :: "duration \<Rightarrow> rat" where
  "clamped l = min (of_int l / 1000000) 5000"

definition quantile :: "nat \<Rightarrow> duration list \<Rightarrow> rat option" where
  "quantile k ls = find (\<lambda>b. length ls * k div 100 \<le> length (filter (\<lambda>l. clamped l \<le> b) ls)) default_buckets"

definition upto :: "duration list \<Rightarrow> nat \<Rightarrow> nat" where
  "upto ls j = length (filter (\<lambda>l. bucket_index (of_int l / 1000000) default_buckets < j) ls)"

lemma bucket_index_le:
  "j < 11 \<Longrightarrow> bucket_index x default_buckets < Suc j \<longleftrightarrow> min x 5000 \<le> default_buckets ! j"
  by (auto simp: default_buckets_def less_Suc_eq numeral_eq_Suc min_def split: if_splits)

definition record_all :: "(duration \<times> bool) list \<Rightarrow> OptimizedPerformanceMonitor \<Rightarrow> OptimizedPerformanceMonitor" where
  "record_all rs m = fold (\<lambda>(l, ok) m. fst (RecordRequest l ok m)) rs m"

lemma bucket_index_less: "bucket_index x default_buckets < 11"
  using bucket_index_le [of 10 x] by (simp add: default_buckets_def)

lemma record_all_histogram:
  fixes c rs now
  defines "m \<equiv> record_all rs (NewOptimizedPerformanceMonitor now c)"
  shows "\<not> mu_held m \<and> latencyBuckets m = default_buckets \<and>
    latencyHistogram m = (\<lambda>i. if i < 11 then Some (of_nat (length (filter (\<lambda>l. bucket_index (of_int l / 1000000) default_buckets = i) (map fst rs)))) else None) \<and>
    requestCount m = of_nat (length rs) \<and> errorCount m = of_nat (length (filter (\<lambda>r. \<not> snd r) rs))"
  unfolding m_def
proof (induction rs rule: rev_induct)
  case Nil
  then show ?case by (simp add: record_all_def NewOptimizedPerformanceMonitor_def Let_def fun_eq_iff default_buckets_def)
next
  case (snoc r rs)
  then show ?case
    using bucket_index_less [of "of_int (fst r) / 1000000"]
    by (auto simp: record_all_def RecordRequest_def updateLatencyHistogram_def Let_def split_beta add_to_bucket_def fun_eq_iff)
qed

lemma upto_Suc: "of_nat (upto ls (Suc i)) - of_nat (upto ls i) =
   (of_nat (length (filter (\<lambda>l. bucket_index (of_int l / 1000000) default_buckets = i) ls)) :: 64 word)"
  by (induction ls) (auto simp: upto_def less_Suc_eq)

lemma upto_eq: "j < 11 \<Longrightarrow> upto ls (Suc j) = length (filter (\<lambda>l. clamped l \<le> default_buckets ! j) ls)"
  by (simp add: upto_def bucket_index_le clamped_def)

lemma upto_le: "upto ls j \<le> length ls"
  by (simp add: upto_def)

lemma upto_all: "upto ls 11 = length ls"
  by (simp add: upto_def bucket_index_less)

lemma upto_0: "upto ls 0 = 0"
  by (simp add: upto_def)

lemma histogram_total_eq:
  assumes "\<forall>j<n. h j = Some (C (Suc j) - C j)" "C 0 = 0"
  shows "histogram_total h [0..<n] = (C n :: 64 word)"
  using assms by (induction n) (auto simp: histogram_total_def)

text \<open>The targets do not wrap below \<open>2 ^ 57\<close> requests.\<close>

lemma target_eq:
  assumes "n < 2 ^ 57" "k \<le> 99"
  shows "unat ((of_nat n :: 64 word) * of_nat k div 100) = n * k div 100"
proof -
  have "n * k < 2 ^ 64" using assms mult_mono [of n "2 ^ 57 - 1" k 99] by simp
  moreover have "(of_nat n :: 64 word) * of_nat k = of_nat (n * k)" by simp
  ultimately show ?thesis by (simp add: unat_div unat_of_nat take_bit_nat_eq_self del: of_nat_mult)
qed

lemma buckets_nth: "default_buckets = map ((!) default_buckets) [0..<11]"
proof -
  have "length default_buckets = 11" by (simp add: default_buckets_def)
  then show ?thesis using map_nth [of default_buckets] by (simp only:)
qed

lemma first_bucket_quantile:
  assumes "length ls < 2 ^ 57" "k \<le> 99"
  shows "first_bucket default_buckets (\<lambda>j. of_nat (upto ls j)) (of_nat (length ls) * of_nat k div 100) [0..<11] 0 =
    the (quantile k ls)"
proof -
  have small: "upto ls j < 2 ^ 64" for j using upto_le [of ls j] assms(1) by simp
  have "(of_nat (length ls) * of_nat k div 100 \<le> (of_nat (upto ls (Suc j)) :: 64 word)) \<longleftrightarrow>
      length ls * k div 100 \<le> length (filter (\<lambda>l. clamped l \<le> default_buckets ! j) ls)" if "j < 11" for j
    using target_eq [OF assms] small [of "Suc j"] that
    by (simp add: word_le_nat_alt upto_eq [symmetric] unat_of_nat take_bit_nat_eq_self)
  then have "find (\<lambda>j. of_nat (length ls) * of_nat k div 100 \<le> (of_nat (upto ls (Suc j)) :: 64 word)) [0..<11] =
      find (\<lambda>j. length ls * k div 100 \<le> length (filter (\<lambda>l. clamped l \<le> default_buckets ! j) ls)) [0..<11]"
    by (intro find_cong) auto
  moreover have "quantile k ls = map_option ((!) default_buckets)
      (find (\<lambda>j. length ls * k div 100 \<le> length (filter (\<lambda>l. clamped l \<le> default_buckets ! j) ls)) [0..<11])"
    unfolding quantile_def by (subst (1) buckets_nth) (simp only: find_map_eq)
  moreover have "find (\<lambda>j. length ls * k div 100 \<le> length (filter (\<lambda>l. clamped l \<le> default_buckets ! j) ls)) [0..<11] \<noteq> None"
  proof -
    have "length ls * k div 100 \<le> length ls" using assms(2) using div_le_mono [OF mult_le_mono2 [of k 100 "length ls"], of 100] by simp
    moreover have "length (filter (\<lambda>l. clamped l \<le> default_buckets ! 10) ls) = length ls"
      by (simp add: default_buckets_def clamped_def)
    ultimately show ?thesis by (simp add: find_None_iff) (rule exI [of _ 10], simp)
  qed
  ultimately show ?thesis by (auto simp: first_bucket_def split: option.splits)
qed



text \<open>A map is iterated in any order: in the descending one every percentile is the longest bucket.\<close>

lemma percentiles_depend_on_order:
  "percentiles (rev [0..<11]) (record_all [(3000000, True)] (NewOptimizedPerformanceMonitor 0 None)) = (5000, 5000, 5000)"
  by (simp add: percentiles_def record_all_def RecordRequest_def updateLatencyHistogram_def NewOptimizedPerformanceMonitor_def
      Let_def default_buckets_def add_to_bucket_def histogram_total_def upt_rec set_once_def)

section \<open>The first collection\<close>

datatype mon_op = Collect runtime | Tune time duration | Predictions time | Request duration bool | Hit | Miss

fun mon_step :: "mon_op \<Rightarrow> OptimizedPerformanceMonitor \<Rightarrow> OptimizedPerformanceMonitor \<times> bool" where
  "mon_step (Collect rt) m = collectMetrics rt m"
| "mon_step (Tune now took) m = performTuning now took m"
| "mon_step (Predictions now) m = updatePredictions now m"
| "mon_step (Request l ok) m = RecordRequest l ok m"
| "mon_step Hit m = (RecordCacheHit m, True)"
| "mon_step Miss m = (RecordCacheMiss m, True)"

definition is_collect :: "mon_op \<Rightarrow> bool" where
  "is_collect op \<longleftrightarrow> (case op of Collect _ \<Rightarrow> True | _ \<Rightarrow> False)"

definition nothing_collected :: "OptimizedPerformanceMonitor \<Rightarrow> bool" where
  "nothing_collected m \<longleftrightarrow> metrics m = zeroMetrics \<and> metricsHistory m = [] \<and> history (predictionModel m) = []"

lemmas mon_defs = collectMetrics_def calculateLatencyPercentiles_def performTuning_def updatePredictions_def Predict_def
  RecordRequest_def updateLatencyHistogram_def RecordCacheHit_def RecordCacheMiss_def Let_def

fun locks :: "mon_op \<Rightarrow> bool" where
  "locks (Collect rt) = True"
| "locks (Tune now took) = True"
| "locks (Request l ok) = True"
| "locks op = False"

interpretation monitor: self_lock mon_step mu_held is_collect locks
proof
  show "mu_held m \<Longrightarrow> mu_held (fst (mon_step op m))" for m op
    by (cases op) (auto simp: mon_defs split: option.splits)
  show "mu_held m \<Longrightarrow> locks op \<Longrightarrow> \<not> snd (mon_step op m)" for m op
    by (cases op) (auto simp: mon_defs)
  show "is_collect op \<Longrightarrow> mu_held (fst (mon_step op m)) \<and> \<not> snd (mon_step op m)" for m op
    by (cases op) (auto simp: is_collect_def mon_defs)
  show "\<not> mu_held m \<Longrightarrow> \<not> is_collect op \<Longrightarrow> \<not> mu_held (fst (mon_step op m)) \<and> snd (mon_step op m)" for m op
    by (cases op) (auto simp: is_collect_def mon_defs split: option.splits)
qed

lemma run_monitor_nothing: "nothing_collected m \<Longrightarrow> nothing_collected (run_ops mon_step ops m)"
proof (induction ops rule: rev_induct)
  case (snoc op ops)
  then show ?case by (cases op) (auto simp: mon_defs nothing_collected_def)
qed simp

text \<open>
  Liveness. A new monitor never collects anything: whatever happens, its metrics stay zero and its
  history and its prediction model empty. The first collection locks the mutex and waits for itself;
  from then on no collection, no tuning and no recorded request returns and the metrics cannot be
  read, and before that every request is recorded at once.
\<close>

lemma monitor_blocks_at_first_collection:
  fixes ops now c
  defines "m \<equiv> run_ops mon_step ops (NewOptimizedPerformanceMonitor now c)"
  shows "nothing_collected m \<and> \<not> snd (collectMetrics rt m) \<and>
    (if \<exists>op\<in>set ops. is_collect op
     then \<not> snd (performTuning t took m) \<and> \<not> snd (RecordRequest l ok m) \<and> GetMetrics m = None \<and> ExportMetrics m = None
     else snd (performTuning t took m) \<and> snd (RecordRequest l ok m) \<and> GetMetrics m = Some zeroMetrics)"
proof -
  have new: "nothing_collected (NewOptimizedPerformanceMonitor now c)" "\<not> mu_held (NewOptimizedPerformanceMonitor now c)"
    by (simp_all add: NewOptimizedPerformanceMonitor_def Let_def nothing_collected_def NewPredictionModel_def)
  have n: "nothing_collected m" unfolding m_def by (rule run_monitor_nothing [OF new(1)])
  have "mu_held m \<longleftrightarrow> (\<exists>op\<in>set ops. is_collect op)" unfolding m_def using monitor.held_run new(2) by simp
  then show ?thesis
    using n monitor.relock [of "Collect rt" m] monitor.waits [of m "Tune t took"] monitor.waits [of m "Request l ok"]
      monitor.frees [of m "Tune t took"] monitor.frees [of m "Request l ok"]
    by (auto simp: is_collect_def GetMetrics_def ExportMetrics_def nothing_collected_def)
qed

section \<open>What the tuner learns\<close>

text \<open>Every decision it makes is carried out with success, so all confidences are one of two values.\<close>

definition all_improved :: "AdaptiveTuner \<Rightarrow> bool" where
  "all_improved t \<longleftrightarrow> (\<forall>ty rs. learningData t ty = Some rs \<longrightarrow> rs \<noteq> [] \<and> length rs \<le> 100 \<and> (\<forall>r\<in>set rs. improved r))"

lemma confidence_all_improved:
  "all_improved t \<Longrightarrow> calculateConfidence ty t = (if learningData t ty = None then 1 / 2 else 95 / 100)"
proof (cases "learningData t ty")
  case (Some rs)
  assume "all_improved t"
  with Some have rs: "rs \<noteq> []" "filter improved rs = rs" by (auto simp: all_improved_def filter_id_conv)
  then show ?thesis using Some by (simp add: calculateConfidence_def)
qed (simp add: calculateConfidence_def)

lemma RecordResult_all_improved: "improved r \<Longrightarrow> all_improved t \<Longrightarrow> all_improved (RecordResult i r t)"
  by (auto simp: RecordResult_def learn_def all_improved_def keep_last_def Let_def split_beta split: option.splits if_splits dest: list.set_sel)

definition known_action :: "TuningDecision \<Rightarrow> bool" where
  "known_action d \<longleftrightarrow> Action d \<in> {''reduce_cpu_usage'', ''preemptive_cpu_optimization'', ''reduce_memory_usage'',
     ''improve_cache_hit_rate'', ''reduce_gc_pause_time''}"

lemma decisions_known: "d \<in> set (fst (AnalyzeAndDecide now cur pred t)) \<Longrightarrow> known_action d"
  by (auto simp: AnalyzeAndDecide_def decideCPUOptimization_def decideMemoryOptimization_def decideCacheOptimization_def
      decideGCOptimization_def decision_def known_action_def Let_def List.map_filter_def split: if_splits option.splits)

lemma perform_improves: "known_action d \<Longrightarrow> improved ((perform (Action d))\<lparr>Duration := took, tr_Timestamp := now\<rparr>)"
  by (auto simp: known_action_def perform_def improved_def result_def reduceCPUUsage_def preemptiveCPUOptimization_def
      reduceMemoryUsage_def improveCacheHitRate_def reduceGCPauseTime_def)

lemma fold_execute_all_improved:
  "\<forall>d\<in>set ds. known_action d \<Longrightarrow> all_improved t \<Longrightarrow> all_improved (fold (executeTuningDecision now took) ds t)"
  by (induction ds arbitrary: t) (auto simp: executeTuningDecision_def intro: RecordResult_all_improved perform_improves)

lemma tune_all_improved: "all_improved t \<Longrightarrow> all_improved (tune now took cur pred t)"
  unfolding tune_def by (simp add: split_beta) (intro fold_execute_all_improved ballI decisions_known, assumption, 
      simp add: AnalyzeAndDecide_def Let_def all_improved_def)

text \<open>Decisions are kept for ever, and a tuning adds one even if nothing was ever measured.\<close>

lemma length_set_result: "length (fst (set_result i r ds)) = length ds"
  by (induction ds) (auto simp: split_beta)

lemma length_decisions_execute: "length (decisions (fold (executeTuningDecision now took) ds t)) = length (decisions t)"
  by (induction ds arbitrary: t)
     (auto simp: executeTuningDecision_def RecordResult_def learn_def Let_def split_beta length_set_result split: option.splits)

lemma tuning_adds_decision:
  "0 < MinCacheHitRate (at_config t) \<Longrightarrow> length (decisions (tune now took zeroMetrics pred t)) > length (decisions t)"
  by (simp add: tune_def split_beta length_decisions_execute)
     (simp add: AnalyzeAndDecide_def Let_def List.map_filter_simps decideCacheOptimization_def zeroMetrics_def split: option.splits)

text \<open>The accuracy of the model is never set: no prediction passes the required accuracy.\<close>

lemma predictions_never_applied:
  "accuracy (predictionModel m) = 0 \<Longrightarrow> 0 \<le> PredictionAccuracy (pm_config m) \<Longrightarrow> updatePredictions now m = (m, True)"
  by (auto simp: updatePredictions_def Predict_def Let_def)

end
