(* ===== verification/App_Config.thy ===== *)
theory App_Config
  imports Prelude Complex_Main
begin

text \<open>
  The configuration manager of \<^verbatim>\<open>core/config\<close>: the configuration records, the defaults that are set
  for keys the file does not have, the getters, and reloading. The library that reads the file
  (viper) is a parameter, a record of its functions; \<open>viper_ok\<close> states what its documentation
  says of them: a value that was set is read back, leaves unrelated keys alone and takes
  precedence over the file. The lemmas show which value every key has after loading and reloading.
\<close>

section \<open>Configuration records\<close>

datatype LoadBalanceStrategy = LoadBalanceStrategyRoundRobin | LoadBalanceStrategyWeightedRoundRobin |
  LoadBalanceStrategyLeastConnections | LoadBalanceStrategyLeastResponseTime | LoadBalanceStrategyConsistentHash

record ServerConfig =
  sv_Address :: string
  sv_ReadTimeout :: int
  sv_WriteTimeout :: int
  sv_IdleTimeout :: int

record MonitorConfig =
  mo_Interval :: int
  mo_MetricsEnabled :: bool
  mo_MetricsAddress :: string

record LoggerConfig =
  lg_Level :: string
  lg_Format :: string
  lg_LogDir :: string
  lg_BaseName :: string
  lg_TimeFormat :: string
  lg_MaxSizeMB :: int
  lg_MaxAgeDays :: int
  lg_MaxBackups :: int
  lg_Compress :: bool
  lg_EnableWarnFile :: bool
  lg_EnableErrorFile :: bool

record HTTPConfig =
  hc_Enabled :: bool
  hc_MaxConnections :: int

record WebSocketConfig =
  wc_Enabled :: bool
  wc_MaxConnections :: int

record GRPCConfig =
  gc_Enabled :: bool
  gc_MaxConnections :: int

record CustomConfig =
  cu_Enabled :: bool

record ProtocolConfig =
  pr_HTTP :: HTTPConfig
  pr_WebSocket :: WebSocketConfig
  pr_GRPC :: GRPCConfig
  pr_Custom :: CustomConfig

record TLSConfig =
  tl_Enabled :: bool
  tl_CertFile :: string
  tl_KeyFile :: string

record AuthConfig =
  au_Enabled :: bool
  au_JWTSecret :: string

record SecurityConfig =
  se_Enabled :: bool
  se_SecurityLevel :: int
  se_DOSThreshold :: int
  se_DOSWindowSize :: int
  se_DOSCleanupInterval :: int
  se_DOSBlockDuration :: int
  se_SYNCookieCleanupInterval :: int
  se_DPIMaxPacketSize :: int
  se_DefaultAuthPolicy :: string
  se_EventBufferSize :: int
  se_MetricsInterval :: int
  se_TLS :: TLSConfig
  se_Auth :: AuthConfig

record DetectorConfig =
  de_BufferSize :: int
  de_ReadTimeout :: int
  de_MaxDetectSize :: int

record ObservabilityConfig =
  ob_Enabled :: bool
  ob_SamplingRate :: rat

record ProcessorConfig =
  ps_MaxConcurrency :: int
  ps_QueueSize :: int
  ps_Timeout :: int

record MessageBusConfig =
  mb_BufferSize :: int
  mb_PublishStrategy :: string
  mb_MaxSubscribers :: int

record ConnectionPoolConfig =
  cp_MaxSize :: int
  cp_MaxIdleTime :: int

record GoroutinePoolConfig =
  gp_Workers :: int
  gp_QueueSize :: int

record BufferPoolConfig =
  bp_DefaultSize :: int
  bp_MaxPoolSize :: int

record PoolConfig =
  po_Connection :: ConnectionPoolConfig
  po_Goroutine :: GoroutinePoolConfig
  po_Buffer :: BufferPoolConfig

record ProtocolConfigThreshold =
  th_ProtocolFailureThreshold :: rat
  th_ServiceFailureThreshold :: rat

record ProtocolThresholds =
  pt_HTTP :: ProtocolConfigThreshold
  pt_GRPC :: ProtocolConfigThreshold
  pt_WebSocket :: ProtocolConfigThreshold

record CircuitBreakerConfig =
  cb_Enabled :: bool
  cb_FailureThreshold :: rat
  cb_ResetTimeout :: int
  cb_Protocols :: ProtocolThresholds

record DegradationThresholds =
  dt_Simplified :: rat
  dt_CriticalOnly :: rat
  dt_MaintainOnly :: rat

record DegradationConfig =
  dg_Enabled :: bool
  dg_MonitoringInterval :: int
  dg_Thresholds :: DegradationThresholds

record ReliabilityConfig =
  re_CircuitBreaker :: CircuitBreakerConfig
  re_Degradation :: DegradationConfig

record RouterConfig =
  ro_MaxRoutes :: int
  ro_CompressionEnabled :: bool

record OptimizedConnectionPoolConfig =
  oc_MaxConnections :: int
  oc_MinConnections :: int
  oc_MaxIdleTime :: duration
  oc_HealthCheckInterval :: duration
  oc_ConnectionTimeout :: duration
  oc_EnableLoadBalancing :: bool
  oc_EnableMetrics :: bool
  oc_BufferSize :: int

record OptimizedGoroutinePoolConfig =
  og_MinWorkers :: int
  og_MaxWorkers :: int
  og_QueueSize :: int
  og_ScaleUpThreshold :: rat
  og_ScaleDownThreshold :: rat
  og_ScaleInterval :: duration
  og_WorkerTimeout :: duration
  og_EnableMetrics :: bool

record OptimizedRouterConfig =
  orc_MaxConcurrency :: int
  orc_RequestTimeout :: duration
  orc_EnableLoadBalancing :: bool
  orc_EnableCaching :: bool
  orc_EnableFailover :: bool
  orc_EnableMetrics :: bool
  orc_HealthCheckInterval :: duration
  orc_CacheSize :: int
  orc_CacheTTL :: duration
  orc_LoadBalanceStrategy :: LoadBalanceStrategy
  orc_FailoverThreshold :: int
  orc_MetricsInterval :: duration

record HTTPProtocolConfig =
  hp_Enabled :: bool
  hp_EnableHTTP2 :: bool
  hp_MaxHeaderSize :: int
  hp_ReadTimeout :: duration
  hp_WriteTimeout :: duration
  hp_IdleTimeout :: duration
  hp_EnableGzip :: bool
  hp_MaxRequestSize :: int

record GRPCProtocolConfig =
  gr_Enabled :: bool
  gr_MaxRecvMsgSize :: int
  gr_MaxSendMsgSize :: int
  gr_ConnectionTimeout :: duration
  gr_KeepaliveTime :: duration
  gr_KeepaliveTimeout :: duration
  gr_EnableReflection :: bool
  gr_EnableHealthCheck :: bool
  gr_MaxConcurrentStreams :: int

record WebSocketProtocolConfig =
  ws_Enabled :: bool
  ws_MaxConnections :: int
  ws_PingInterval :: duration
  ws_PongTimeout :: duration
  ws_MaxMessageSize :: int
  ws_EnableCompression :: bool
  ws_ReadBufferSize :: int
  ws_WriteBufferSize :: int
  ws_HandshakeTimeout :: duration

section \<open>The configuration library\<close>

datatype setting = VInt int | VBool bool | VStr string | VFloat rat

record ('v, 'f) viper =
  IsSet :: "'v \<Rightarrow> string \<Rightarrow> bool"
  Set :: "string \<Rightarrow> setting \<Rightarrow> 'v \<Rightarrow> 'v"
  GetString :: "'v \<Rightarrow> string \<Rightarrow> string"
  GetInt :: "'v \<Rightarrow> string \<Rightarrow> int"
  GetInt64 :: "'v \<Rightarrow> string \<Rightarrow> int"
  GetBool :: "'v \<Rightarrow> string \<Rightarrow> bool"
  GetFloat64 :: "'v \<Rightarrow> string \<Rightarrow> rat"
  GetDuration :: "'v \<Rightarrow> string \<Rightarrow> duration"
  GetStringMap :: "'v \<Rightarrow> string \<Rightarrow> (string \<times> setting) list"
  ReadInConfig :: "'f \<Rightarrow> 'v \<Rightarrow> 'v option"

definition has_value :: "('v, 'f) viper \<Rightarrow> 'v \<Rightarrow> string \<Rightarrow> setting \<Rightarrow> bool" where
  "has_value V v k d \<longleftrightarrow> (case d of VInt i \<Rightarrow> GetInt V v k = i \<and> GetInt64 V v k = i | VBool b \<Rightarrow> GetBool V v k = b
     | VStr s \<Rightarrow> GetString V v k = s | VFloat x \<Rightarrow> GetFloat64 V v k = x)"

definition same_at :: "('v, 'f) viper \<Rightarrow> 'v \<Rightarrow> 'v \<Rightarrow> string \<Rightarrow> bool" where
  "same_at V v v' k \<longleftrightarrow> IsSet V v k = IsSet V v' k \<and> GetString V v k = GetString V v' k \<and> GetInt V v k = GetInt V v' k \<and>
     GetInt64 V v k = GetInt64 V v' k \<and> GetBool V v k = GetBool V v' k \<and> GetFloat64 V v k = GetFloat64 V v' k \<and>
     GetDuration V v k = GetDuration V v' k \<and> GetStringMap V v k = GetStringMap V v' k"

definition zero_at :: "('v, 'f) viper \<Rightarrow> 'v \<Rightarrow> string \<Rightarrow> bool" where
  "zero_at V v k \<longleftrightarrow> GetString V v k = [] \<and> GetInt V v k = 0 \<and> GetInt64 V v k = 0 \<and> \<not> GetBool V v k \<and> GetFloat64 V v k = 0 \<and>
     GetDuration V v k = 0 \<and> GetStringMap V v k = []"

text \<open>Keys are paths with dots: related keys are equal or one is above the other.\<close>

definition related :: "string \<Rightarrow> string \<Rightarrow> bool" where
  "related k k' \<longleftrightarrow> k = k' \<or> has_prefix k' (k @ ''.'') \<or> has_prefix k (k' @ ''.'')"

definition viper_ok :: "('v, 'f) viper \<Rightarrow> bool" where
  "viper_ok V \<longleftrightarrow> (\<forall>v k x. IsSet V (Set V k x v) k \<and> has_value V (Set V k x v) k x) \<and>
     (\<forall>v k x k'. \<not> related k k' \<longrightarrow> same_at V (Set V k x v) v k') \<and>
     (\<forall>v k. \<not> IsSet V v k \<longrightarrow> zero_at V v k) \<and>
     (\<forall>f v k x. ReadInConfig V f (Set V k x v) = map_option (Set V k x) (ReadInConfig V f v))"

section \<open>Loading\<close>

definition default_values :: "(string \<times> setting) list" where
  "default_values = [(''server.address'', VStr '':8080''),
    (''monitor.interval'', VInt 10),
    (''monitor.metrics.enabled'', VBool True),
    (''monitor.metrics.address'', VStr '':9090''),
    (''logger.level'', VStr ''info''),
    (''logger.format'', VStr ''text''),
    (''logger.log_dir'', VStr ''./logs''),
    (''logger.base_name'', VStr ''muxcore''),
    (''logger.max_size'', VInt 100),
    (''logger.max_age'', VInt 7),
    (''logger.max_backups'', VInt 3),
    (''protocols.http.enabled'', VBool True),
    (''protocols.websocket.enabled'', VBool True),
    (''protocols.grpc.enabled'', VBool True),
    (''protocols.custom.enabled'', VBool False),
    (''pools.connection.max_size'', VInt 1000),
    (''pools.connection.max_idle_time'', VInt 300),
    (''pools.goroutine.workers'', VInt 0),
    (''pools.goroutine.queue_size'', VInt 1000),
    (''security.enabled'', VBool True),
    (''security.security_level'', VInt 1),
    (''security.tls.enabled'', VBool False),
    (''security.auth.enabled'', VBool False),
    (''detector.buffer_size'', VInt 4096),
    (''detector.read_timeout'', VInt 5),
    (''detector.max_detect_size'', VInt 1024),
    (''observability.enabled'', VBool True),
    (''observability.sampling_rate'', VFloat (1 / 10)),
    (''reliability.circuit_breaker.enabled'', VBool True),
    (''reliability.circuit_breaker.failure_threshold'', VFloat (1 / 10)),
    (''reliability.circuit_breaker.reset_timeout'', VInt 30),
    (''processor.max_concurrency'', VInt 1000),
    (''processor.queue_size'', VInt 10000),
    (''processor.timeout'', VInt 30),
    (''message_bus.buffer_size'', VInt 1000),
    (''message_bus.max_subscribers'', VInt 100),
    (''pools.buffer.default_size'', VInt 4096),
    (''pools.buffer.max_pool_size'', VInt 1000),
    (''security.dos_threshold'', VInt 1000),
    (''security.dos_window_size'', VInt 60),
    (''security.dos_cleanup_interval'', VInt 300),
    (''security.dos_block_duration'', VInt 600),
    (''security.syn_cookie_cleanup_interval'', VInt 120),
    (''security.dpi_max_packet_size'', VInt 8192),
    (''security.default_auth_policy'', VStr ''allow''),
    (''security.event_buffer_size'', VInt 10000),
    (''security.metrics_interval'', VInt 30),
    (''protocols.http.enable_http2'', VBool True),
    (''protocols.http.max_header_size'', VInt 1048576),
    (''protocols.http.enable_gzip'', VBool True),
    (''protocols.http.max_request_size'', VInt 10485760),
    (''protocols.http.read_timeout'', VInt 30),
    (''protocols.http.write_timeout'', VInt 30),
    (''protocols.http.idle_timeout'', VInt 120),
    (''protocols.grpc.max_recv_msg_size'', VInt 4194304),
    (''protocols.grpc.max_send_msg_size'', VInt 4194304),
    (''protocols.grpc.connection_timeout'', VInt 10),
    (''protocols.grpc.keepalive_time'', VInt 30),
    (''protocols.grpc.keepalive_timeout'', VInt 5),
    (''protocols.grpc.enable_reflection'', VBool False),
    (''protocols.grpc.enable_health_check'', VBool True),
    (''protocols.grpc.max_concurrent_streams'', VInt 1000),
    (''protocols.websocket.max_connections'', VInt 5000),
    (''protocols.websocket.ping_interval'', VInt 30),
    (''protocols.websocket.pong_timeout'', VInt 10),
    (''protocols.websocket.max_message_size'', VInt 1048576),
    (''protocols.websocket.enable_compression'', VBool True),
    (''protocols.websocket.read_buffer_size'', VInt 4096),
    (''protocols.websocket.write_buffer_size'', VInt 4096),
    (''protocols.websocket.handshake_timeout'', VInt 10),
    (''logger.enable_warn_file'', VBool True),
    (''logger.enable_error_file'', VBool True),
    (''reliability.degradation.enabled'', VBool False),
    (''reliability.degradation.monitoring_interval'', VInt 60),
    (''reliability.degradation.thresholds.simplified'', VFloat (7 / 10)),
    (''reliability.degradation.thresholds.critical_only'', VFloat (5 / 10)),
    (''reliability.degradation.thresholds.maintain_only'', VFloat (3 / 10)),
    (''reliability.circuit_breaker.protocols.http.protocol_failure_threshold'', VFloat (1 / 10)),
    (''reliability.circuit_breaker.protocols.http.service_failure_threshold'', VFloat (15 / 100)),
    (''reliability.circuit_breaker.protocols.grpc.protocol_failure_threshold'', VFloat (1 / 10)),
    (''reliability.circuit_breaker.protocols.grpc.service_failure_threshold'', VFloat (15 / 100)),
    (''reliability.circuit_breaker.protocols.websocket.protocol_failure_threshold'', VFloat (1 / 10)),
    (''reliability.circuit_breaker.protocols.websocket.service_failure_threshold'', VFloat (15 / 100)),
    (''router.max_routes'', VInt 10000),
    (''router.compression_enabled'', VBool True)]"

definition fill :: "('v, 'f) viper \<Rightarrow> (string \<times> setting) list \<Rightarrow> 'v \<Rightarrow> 'v" where
  "fill V ds v = fold (\<lambda>(k, d) v. if \<not> IsSet V v k then Set V k d v else v) ds v"

definition validateConfig :: "('v, 'f) viper \<Rightarrow> 'v \<Rightarrow> 'v" where
  "validateConfig V v = fill V default_values v"

datatype config_error = ConfigNotFound | ConfigParseError

definition NewConfigManager :: "('v, 'f) viper \<Rightarrow> 'v \<Rightarrow> 'f \<Rightarrow> config_error + 'v" where
  "NewConfigManager V fresh f = (case ReadInConfig V f fresh of None \<Rightarrow> Inl ConfigNotFound | Some v \<Rightarrow> Inr (validateConfig V v))"

text \<open>\<^verbatim>\<open>Reload\<close> changes the library in place; where the file cannot be read it stays as it was.\<close>

definition Reload :: "('v, 'f) viper \<Rightarrow> 'f \<Rightarrow> 'v \<Rightarrow> config_error option \<times> 'v" where
  "Reload V f v = (case ReadInConfig V f v of None \<Rightarrow> (Some ConfigParseError, v) | Some v \<Rightarrow> (None, validateConfig V v))"

section \<open>The getters\<close>

definition strategy_of :: "('v, 'f) viper \<Rightarrow> 'v \<Rightarrow> LoadBalanceStrategy" where
  "strategy_of V v =
     (if IsSet V v ''router.optimized.load_balance_strategy''
      then (let s = GetString V v ''router.optimized.load_balance_strategy''
            in if s = ''weighted_round_robin'' then LoadBalanceStrategyWeightedRoundRobin
               else if s = ''least_connections'' then LoadBalanceStrategyLeastConnections
               else if s = ''least_response_time'' then LoadBalanceStrategyLeastResponseTime
               else if s = ''consistent_hash'' then LoadBalanceStrategyConsistentHash
               else LoadBalanceStrategyRoundRobin)
      else LoadBalanceStrategyRoundRobin)"

definition GetServerConfig :: "('v, 'f) viper \<Rightarrow> 'v \<Rightarrow> ServerConfig" where
  "GetServerConfig V v = \<lparr>sv_Address = GetString V v ''server.address'',
       sv_ReadTimeout = 0,
       sv_WriteTimeout = 0,
       sv_IdleTimeout = 0\<rparr>"

definition GetMonitorConfig :: "('v, 'f) viper \<Rightarrow> 'v \<Rightarrow> MonitorConfig" where
  "GetMonitorConfig V v = \<lparr>mo_Interval = GetInt V v ''monitor.interval'',
       mo_MetricsEnabled = GetBool V v ''monitor.metrics.enabled'',
       mo_MetricsAddress = GetString V v ''monitor.metrics.address''\<rparr>"

definition GetLoggerConfig :: "('v, 'f) viper \<Rightarrow> 'v \<Rightarrow> LoggerConfig" where
  "GetLoggerConfig V v = \<lparr>lg_Level = GetString V v ''logger.level'',
       lg_Format = GetString V v ''logger.format'',
       lg_LogDir = GetString V v ''logger.log_dir'',
       lg_BaseName = GetString V v ''logger.base_name'',
       lg_TimeFormat = GetString V v ''logger.time_format'',
       lg_MaxSizeMB = GetInt V v ''logger.max_size'',
       lg_MaxAgeDays = GetInt V v ''logger.max_age'',
       lg_MaxBackups = GetInt V v ''logger.max_backups'',
       lg_Compress = False,
       lg_EnableWarnFile = GetBool V v ''logger.enable_warn_file'',
       lg_EnableErrorFile = GetBool V v ''logger.enable_error_file''\<rparr>"

definition GetProtocolConfig :: "('v, 'f) viper \<Rightarrow> 'v \<Rightarrow> ProtocolConfig" where
  "GetProtocolConfig V v = \<lparr>pr_HTTP = \<lparr>hc_Enabled = GetBool V v ''protocols.http.enabled'',
          hc_MaxConnections = GetInt V v ''protocols.http.max_connections''\<rparr>,
       pr_WebSocket = \<lparr>wc_Enabled = GetBool V v ''protocols.websocket.enabled'',
          wc_MaxConnections = GetInt V v ''protocols.websocket.max_connections''\<rparr>,
       pr_GRPC = \<lparr>gc_Enabled = GetBool V v ''protocols.grpc.enabled'',
          gc_MaxConnections = GetInt V v ''protocols.grpc.max_connections''\<rparr>,
       pr_Custom = \<lparr>cu_Enabled = GetBool V v ''protocols.custom.enabled''\<rparr>\<rparr>"

definition GetHTTPProtocolConfig :: "('v, 'f) viper \<Rightarrow> 'v \<Rightarrow> HTTPProtocolConfig" where
  "GetHTTPProtocolConfig V v =
    (let c = \<lparr>hp_Enabled = GetBool V v ''protocols.http.enabled'',
       hp_EnableHTTP2 = GetBool V v ''protocols.http.enable_http2'',
       hp_MaxHeaderSize = GetInt V v ''protocols.http.max_header_size'',
       hp_ReadTimeout = 0,
       hp_WriteTimeout = 0,
       hp_IdleTimeout = 0,
       hp_EnableGzip = GetBool V v ''protocols.http.enable_gzip'',
       hp_MaxRequestSize = GetInt64 V v ''protocols.http.max_request_size''\<rparr>;
         c = (if IsSet V v ''protocols.http.read_timeout'' then c\<lparr>hp_ReadTimeout := GetInt V v ''protocols.http.read_timeout'' * second\<rparr> else c);
         c = (if IsSet V v ''protocols.http.write_timeout'' then c\<lparr>hp_WriteTimeout := GetInt V v ''protocols.http.write_timeout'' * second\<rparr> else c);
         c = (if IsSet V v ''protocols.http.idle_timeout'' then c\<lparr>hp_IdleTimeout := GetInt V v ''protocols.http.idle_timeout'' * second\<rparr> else c)
     in c)"

definition GetGRPCProtocolConfig :: "('v, 'f) viper \<Rightarrow> 'v \<Rightarrow> GRPCProtocolConfig" where
  "GetGRPCProtocolConfig V v =
    (let c = \<lparr>gr_Enabled = GetBool V v ''protocols.grpc.enabled'',
       gr_MaxRecvMsgSize = GetInt V v ''protocols.grpc.max_recv_msg_size'',
       gr_MaxSendMsgSize = GetInt V v ''protocols.grpc.max_send_msg_size'',
       gr_ConnectionTimeout = 0,
       gr_KeepaliveTime = 0,
       gr_KeepaliveTimeout = 0,
       gr_EnableReflection = GetBool V v ''protocols.grpc.enable_reflection'',
       gr_EnableHealthCheck = GetBool V v ''protocols.grpc.enable_health_check'',
       gr_MaxConcurrentStreams = (GetInt V v ''protocols.grpc.max_concurrent_streams'') mod 2 ^ 32\<rparr>;
         c = (if IsSet V v ''protocols.grpc.connection_timeout'' then c\<lparr>gr_ConnectionTimeout := GetInt V v ''protocols.grpc.connection_timeout'' * second\<rparr> else c);
         c = (if IsSet V v ''protocols.grpc.keepalive_time'' then c\<lparr>gr_KeepaliveTime := GetInt V v ''protocols.grpc.keepalive_time'' * second\<rparr> else c);
         c = (if IsSet V v ''protocols.grpc.keepalive_timeout'' then c\<lparr>gr_KeepaliveTimeout := GetInt V v ''protocols.grpc.keepalive_timeout'' * second\<rparr> else c)
     in c)"

definition GetWebSocketProtocolConfig :: "('v, 'f) viper \<Rightarrow> 'v \<Rightarrow> WebSocketProtocolConfig" where
  "GetWebSocketProtocolConfig V v =
    (let c = \<lparr>ws_Enabled = GetBool V v ''protocols.websocket.enabled'',
       ws_MaxConnections = GetInt V v ''protocols.websocket.max_connections'',
       ws_PingInterval = 0,
       ws_PongTimeout = 0,
       ws_MaxMessageSize = GetInt64 V v ''protocols.websocket.max_message_size'',
       ws_EnableCompression = GetBool V v ''protocols.websocket.enable_compression'',
       ws_ReadBufferSize = GetInt V v ''protocols.websocket.read_buffer_size'',
       ws_WriteBufferSize = GetInt V v ''protocols.websocket.write_buffer_size'',
       ws_HandshakeTimeout = 0\<rparr>;
         c = (if IsSet V v ''protocols.websocket.ping_interval'' then c\<lparr>ws_PingInterval := GetInt V v ''protocols.websocket.ping_interval'' * second\<rparr> else c);
         c = (if IsSet V v ''protocols.websocket.pong_timeout'' then c\<lparr>ws_PongTimeout := GetInt V v ''protocols.websocket.pong_timeout'' * second\<rparr> else c);
         c = (if IsSet V v ''protocols.websocket.handshake_timeout'' then c\<lparr>ws_HandshakeTimeout := GetInt V v ''protocols.websocket.handshake_timeout'' * second\<rparr> else c)
     in c)"

definition GetOptimizedConnectionPoolConfig :: "('v, 'f) viper \<Rightarrow> 'v \<Rightarrow> OptimizedConnectionPoolConfig" where
  "GetOptimizedConnectionPoolConfig V v =
    (let c = \<lparr>oc_MaxConnections = 1000,
       oc_MinConnections = 10,
       oc_MaxIdleTime = 300 * second,
       oc_HealthCheckInterval = 30 * second,
       oc_ConnectionTimeout = 10 * second,
       oc_EnableLoadBalancing = True,
       oc_EnableMetrics = True,
       oc_BufferSize = 4096\<rparr>;
         c = (if IsSet V v ''pools.optimized_connection.max_connections'' then c\<lparr>oc_MaxConnections := GetInt V v ''pools.optimized_connection.max_connections''\<rparr> else c);
         c = (if IsSet V v ''pools.optimized_connection.min_connections'' then c\<lparr>oc_MinConnections := GetInt V v ''pools.optimized_connection.min_connections''\<rparr> else c);
         c = (if IsSet V v ''pools.optimized_connection.max_idle_time'' then c\<lparr>oc_MaxIdleTime := GetInt V v ''pools.optimized_connection.max_idle_time'' * second\<rparr> else c);
         c = (if IsSet V v ''pools.optimized_connection.health_check_interval'' then c\<lparr>oc_HealthCheckInterval := GetInt V v ''pools.optimized_connection.health_check_interval'' * second\<rparr> else c);
         c = (if IsSet V v ''pools.optimized_connection.connection_timeout'' then c\<lparr>oc_ConnectionTimeout := GetInt V v ''pools.optimized_connection.connection_timeout'' * second\<rparr> else c);
         c = (if IsSet V v ''pools.optimized_connection.enable_load_balancing'' then c\<lparr>oc_EnableLoadBalancing := GetBool V v ''pools.optimized_connection.enable_load_balancing''\<rparr> else c);
         c = (if IsSet V v ''pools.optimized_connection.enable_metrics'' then c\<lparr>oc_EnableMetrics := GetBool V v ''pools.optimized_connection.enable_metrics''\<rparr> else c);
         c = (if IsSet V v ''pools.optimized_connection.buffer_size'' then c\<lparr>oc_BufferSize := GetInt V v ''pools.optimized_connection.buffer_size''\<rparr> else c)
     in c)"

definition GetOptimizedGoroutinePoolConfig :: "('v, 'f) viper \<Rightarrow> 'v \<Rightarrow> OptimizedGoroutinePoolConfig" where
  "GetOptimizedGoroutinePoolConfig V v =
    (let c = \<lparr>og_MinWorkers = 10,
       og_MaxWorkers = 1000,
       og_QueueSize = 1000,
       og_ScaleUpThreshold = 8 / 10,
       og_ScaleDownThreshold = 2 / 10,
       og_ScaleInterval = 10 * second,
       og_WorkerTimeout = 30 * second,
       og_EnableMetrics = True\<rparr>;
         c = (if IsSet V v ''pools.optimized_goroutine.min_workers'' then c\<lparr>og_MinWorkers := GetInt V v ''pools.optimized_goroutine.min_workers''\<rparr> else c);
         c = (if IsSet V v ''pools.optimized_goroutine.max_workers'' then c\<lparr>og_MaxWorkers := GetInt V v ''pools.optimized_goroutine.max_workers''\<rparr> else c);
         c = (if IsSet V v ''pools.optimized_goroutine.queue_size'' then c\<lparr>og_QueueSize := GetInt V v ''pools.optimized_goroutine.queue_size''\<rparr> else c);
         c = (if IsSet V v ''pools.optimized_goroutine.scale_up_threshold'' then c\<lparr>og_ScaleUpThreshold := GetFloat64 V v ''pools.optimized_goroutine.scale_up_threshold''\<rparr> else c);
         c = (if IsSet V v ''pools.optimized_goroutine.scale_down_threshold'' then c\<lparr>og_ScaleDownThreshold := GetFloat64 V v ''pools.optimized_goroutine.scale_down_threshold''\<rparr> else c);
         c = (if IsSet V v ''pools.optimized_goroutine.scale_interval'' then c\<lparr>og_ScaleInterval := GetInt V v ''pools.optimized_goroutine.scale_interval'' * second\<rparr> else c);
         c = (if IsSet V v ''pools.optimized_goroutine.worker_timeout'' then c\<lparr>og_WorkerTimeout := GetInt V v ''pools.optimized_goroutine.worker_timeout'' * second\<rparr> else c);
         c = (if IsSet V v ''pools.optimized_goroutine.enable_metrics'' then c\<lparr>og_EnableMetrics := GetBool V v ''pools.optimized_goroutine.enable_metrics''\<rparr> else c)
     in c)"

definition GetOptimizedRouterConfig :: "('v, 'f) viper \<Rightarrow> 'v \<Rightarrow> OptimizedRouterConfig" where
  "GetOptimizedRouterConfig V v =
    (let strategy = strategy_of V v; c = \<lparr>orc_MaxConcurrency = 1000,
       orc_RequestTimeout = 30 * second,
       orc_EnableLoadBalancing = True,
       orc_EnableCaching = True,
       orc_EnableFailover = True,
       orc_EnableMetrics = True,
       orc_HealthCheckInterval = 10 * second,
       orc_CacheSize = 10000,
       orc_CacheTTL = 5 * minute,
       orc_LoadBalanceStrategy = strategy,
       orc_FailoverThreshold = 3,
       orc_MetricsInterval = 30 * second\<rparr>;
         c = (if IsSet V v ''router.optimized.max_concurrency'' then c\<lparr>orc_MaxConcurrency := GetInt V v ''router.optimized.max_concurrency''\<rparr> else c);
         c = (if IsSet V v ''router.optimized.request_timeout'' then c\<lparr>orc_RequestTimeout := GetInt V v ''router.optimized.request_timeout'' * second\<rparr> else c);
         c = (if IsSet V v ''router.optimized.enable_load_balancing'' then c\<lparr>orc_EnableLoadBalancing := GetBool V v ''router.optimized.enable_load_balancing''\<rparr> else c);
         c = (if IsSet V v ''router.optimized.enable_caching'' then c\<lparr>orc_EnableCaching := GetBool V v ''router.optimized.enable_caching''\<rparr> else c);
         c = (if IsSet V v ''router.optimized.enable_failover'' then c\<lparr>orc_EnableFailover := GetBool V v ''router.optimized.enable_failover''\<rparr> else c);
         c = (if IsSet V v ''router.optimized.enable_metrics'' then c\<lparr>orc_EnableMetrics := GetBool V v ''router.optimized.enable_metrics''\<rparr> else c);
         c = (if IsSet V v ''router.optimized.health_check_interval'' then c\<lparr>orc_HealthCheckInterval := GetInt V v ''router.optimized.health_check_interval'' * second\<rparr> else c);
         c = (if IsSet V v ''router.optimized.cache_size'' then c\<lparr>orc_CacheSize := GetInt V v ''router.optimized.cache_size''\<rparr> else c);
         c = (if IsSet V v ''router.optimized.cache_ttl'' then c\<lparr>orc_CacheTTL := GetInt V v ''router.optimized.cache_ttl'' * second\<rparr> else c);
         c = (if IsSet V v ''router.optimized.failover_threshold'' then c\<lparr>orc_FailoverThreshold := GetInt V v ''router.optimized.failover_threshold''\<rparr> else c);
         c = (if IsSet V v ''router.optimized.metrics_interval'' then c\<lparr>orc_MetricsInterval := GetInt V v ''router.optimized.metrics_interval'' * second\<rparr> else c)
     in c)"

definition GetPoolConfig :: "('v, 'f) viper \<Rightarrow> 'v \<Rightarrow> PoolConfig" where
  "GetPoolConfig V v = \<lparr>po_Connection = \<lparr>cp_MaxSize = GetInt V v ''pools.connection.max_size'',
          cp_MaxIdleTime = GetInt V v ''pools.connection.max_idle_time''\<rparr>,
       po_Goroutine = \<lparr>gp_Workers = GetInt V v ''pools.goroutine.workers'',
          gp_QueueSize = GetInt V v ''pools.goroutine.queue_size''\<rparr>,
       po_Buffer = \<lparr>bp_DefaultSize = GetInt V v ''pools.buffer.default_size'',
          bp_MaxPoolSize = GetInt V v ''pools.buffer.max_pool_size''\<rparr>\<rparr>"

definition GetReliabilityConfig :: "('v, 'f) viper \<Rightarrow> 'v \<Rightarrow> ReliabilityConfig" where
  "GetReliabilityConfig V v = \<lparr>re_CircuitBreaker = \<lparr>cb_Enabled = GetBool V v ''reliability.circuit_breaker.enabled'',
          cb_FailureThreshold = GetFloat64 V v ''reliability.circuit_breaker.failure_threshold'',
          cb_ResetTimeout = GetInt V v ''reliability.circuit_breaker.reset_timeout'',
          cb_Protocols = \<lparr>pt_HTTP = \<lparr>th_ProtocolFailureThreshold = GetFloat64 V v ''reliability.circuit_breaker.protocols.http.protocol_failure_threshold'',
                th_ServiceFailureThreshold = GetFloat64 V v ''reliability.circuit_breaker.protocols.http.service_failure_threshold''\<rparr>,
             pt_GRPC = \<lparr>th_ProtocolFailureThreshold = GetFloat64 V v ''reliability.circuit_breaker.protocols.grpc.protocol_failure_threshold'',
                th_ServiceFailureThreshold = GetFloat64 V v ''reliability.circuit_breaker.protocols.grpc.service_failure_threshold''\<rparr>,
             pt_WebSocket = \<lparr>th_ProtocolFailureThreshold = GetFloat64 V v ''reliability.circuit_breaker.protocols.websocket.protocol_failure_threshold'',
                th_ServiceFailureThreshold = GetFloat64 V v ''reliability.circuit_breaker.protocols.websocket.service_failure_threshold''\<rparr>\<rparr>\<rparr>,
       re_Degradation = \<lparr>dg_Enabled = GetBool V v ''reliability.degradation.enabled'',
          dg_MonitoringInterval = GetInt V v ''reliability.degradation.monitoring_interval'',
          dg_Thresholds = \<lparr>dt_Simplified = GetFloat64 V v ''reliability.degradation.thresholds.simplified'',
             dt_CriticalOnly = GetFloat64 V v ''reliability.degradation.thresholds.critical_only'',
             dt_MaintainOnly = GetFloat64 V v ''reliability.degradation.thresholds.maintain_only''\<rparr>\<rparr>\<rparr>"

definition GetRouterConfig :: "('v, 'f) viper \<Rightarrow> 'v \<Rightarrow> RouterConfig" where
  "GetRouterConfig V v = \<lparr>ro_MaxRoutes = GetInt V v ''router.max_routes'',
       ro_CompressionEnabled = GetBool V v ''router.compression_enabled''\<rparr>"

definition GetSecurityConfig :: "('v, 'f) viper \<Rightarrow> 'v \<Rightarrow> SecurityConfig" where
  "GetSecurityConfig V v = \<lparr>se_Enabled = GetBool V v ''security.enabled'',
       se_SecurityLevel = GetInt V v ''security.security_level'',
       se_DOSThreshold = GetInt V v ''security.dos_threshold'',
       se_DOSWindowSize = GetInt V v ''security.dos_window_size'',
       se_DOSCleanupInterval = GetInt V v ''security.dos_cleanup_interval'',
       se_DOSBlockDuration = GetInt V v ''security.dos_block_duration'',
       se_SYNCookieCleanupInterval = GetInt V v ''security.syn_cookie_cleanup_interval'',
       se_DPIMaxPacketSize = GetInt V v ''security.dpi_max_packet_size'',
       se_DefaultAuthPolicy = GetString V v ''security.default_auth_policy'',
       se_EventBufferSize = GetInt V v ''security.event_buffer_size'',
       se_MetricsInterval = GetInt V v ''security.metrics_interval'',
       se_TLS = \<lparr>tl_Enabled = GetBool V v ''security.tls.enabled'',
          tl_CertFile = GetString V v ''security.tls.cert_file'',
          tl_KeyFile = GetString V v ''security.tls.key_file''\<rparr>,
       se_Auth = \<lparr>au_Enabled = GetBool V v ''security.auth.enabled'',
          au_JWTSecret = GetString V v ''security.auth.jwt_secret''\<rparr>\<rparr>"

definition GetDetectorConfig :: "('v, 'f) viper \<Rightarrow> 'v \<Rightarrow> DetectorConfig" where
  "GetDetectorConfig V v = \<lparr>de_BufferSize = GetInt V v ''detector.buffer_size'',
       de_ReadTimeout = GetInt V v ''detector.read_timeout'',
       de_MaxDetectSize = GetInt V v ''detector.max_detect_size''\<rparr>"

definition GetProcessorConfig :: "('v, 'f) viper \<Rightarrow> 'v \<Rightarrow> ProcessorConfig" where
  "GetProcessorConfig V v = \<lparr>ps_MaxConcurrency = GetInt V v ''processor.max_concurrency'',
       ps_QueueSize = GetInt V v ''processor.queue_size'',
       ps_Timeout = GetInt V v ''processor.timeout''\<rparr>"

definition GetMessageBusConfig :: "('v, 'f) viper \<Rightarrow> 'v \<Rightarrow> MessageBusConfig" where
  "GetMessageBusConfig V v = \<lparr>mb_BufferSize = GetInt V v ''message_bus.buffer_size'',
       mb_PublishStrategy = GetString V v ''message_bus.publish_strategy'',
       mb_MaxSubscribers = GetInt V v ''message_bus.max_subscribers''\<rparr>"

record ObservabilitySettings =
  os_MetricsEnabled :: bool
  os_MetricsInterval :: duration
  os_MetricsRetention :: duration
  os_MetricsBufferSize :: int
  os_TracingEnabled :: bool
  os_SamplingRate :: rat
  os_MaxSpansPerTrace :: int
  os_TraceTimeout :: duration
  os_PerformanceEnabled :: bool
  os_ResourceMonitoring :: bool
  os_HealthCheckEnabled :: bool
  os_HealthCheckInterval :: duration
  os_AlertingEnabled :: bool
  os_AlertThresholds :: "string \<rightharpoonup> rat"
  os_AlertCooldown :: duration

text \<open>A threshold that is not a float panics in the type assertion: \<open>None\<close>.\<close>

fun thresholds :: "(string \<times> setting) list \<Rightarrow> (string \<rightharpoonup> rat) \<Rightarrow> (string \<rightharpoonup> rat) option" where
  "thresholds [] m = Some m"
| "thresholds ((k, VFloat x) # kvs) m = thresholds kvs (m(k \<mapsto> x))"
| "thresholds (kv # kvs) m = None"

definition GetObservabilityConfig :: "('v, 'f) viper \<Rightarrow> 'v \<Rightarrow> ObservabilitySettings option" where
  "GetObservabilityConfig V v = map_option (\<lambda>th.
     \<lparr>os_MetricsEnabled = GetBool V v ''observability.optimized.metrics_enabled'',
      os_MetricsInterval = GetDuration V v ''observability.optimized.metrics_interval'',
      os_MetricsRetention = GetDuration V v ''observability.optimized.metrics_retention'',
      os_MetricsBufferSize = GetInt V v ''observability.optimized.metrics_buffer_size'',
      os_TracingEnabled = GetBool V v ''observability.enabled'',
      os_SamplingRate = GetFloat64 V v ''observability.sampling_rate'',
      os_MaxSpansPerTrace = GetInt V v ''observability.max_spans_per_trace'',
      os_TraceTimeout = GetDuration V v ''observability.trace_timeout'',
      os_PerformanceEnabled = GetBool V v ''observability.performance_enabled'',
      os_ResourceMonitoring = GetBool V v ''observability.resource_monitoring'',
      os_HealthCheckEnabled = GetBool V v ''observability.health_check_enabled'',
      os_HealthCheckInterval = GetDuration V v ''observability.health_check_interval'',
      os_AlertingEnabled = GetBool V v ''observability.alerting_enabled'',
      os_AlertThresholds = th, os_AlertCooldown = GetDuration V v ''observability.alert_cooldown''\<rparr>)
     (thresholds (GetStringMap V v ''observability.alerting_thresholds'') Map.empty)"

section \<open>What a key holds after loading\<close>

lemma related_sym: "related k k' \<longleftrightarrow> related k' k"
  by (auto simp: related_def)

definition unrelated_keys :: "(string \<times> setting) list \<Rightarrow> bool" where
  "unrelated_keys ds \<longleftrightarrow> sorted_wrt (\<lambda>a b. \<not> related (fst a) (fst b)) ds"

fun apart :: "string \<Rightarrow> string \<Rightarrow> bool" where
  "apart (x # xs) (y # ys) = (x \<noteq> y \<or> apart xs ys)"
| "apart [] (y # ys) = (y \<noteq> CHR ''.'')"
| "apart (x # xs) [] = (x \<noteq> CHR ''.'')"
| "apart [] [] = False"

lemma apart_iff: "apart k k' \<longleftrightarrow> \<not> related k k'"
  by (induction k k' rule: apart.induct) (auto simp: related_def has_prefix_append)

fun all_apart :: "string list \<Rightarrow> bool" where
  "all_apart [] = True"
| "all_apart (k # ks) = (list_all (apart k) ks \<and> all_apart ks)"

lemma unrelated_Cons:
  "unrelated_keys ((k, d) # ds) \<longleftrightarrow> unrelated_keys ds \<and> (\<forall>(k', d')\<in>set ds. \<not> related k' k \<and> \<not> related k k')"
  using related_sym [of k] by (auto simp: unrelated_keys_def)

lemma all_apart_unrelated: "all_apart (map fst ds) \<Longrightarrow> unrelated_keys ds"
  by (induction ds) (auto simp: unrelated_keys_def list_all_iff apart_iff)

lemma defaults_apart: "all_apart (map fst default_values)"
  by code_simp

lemmas defaults_unrelated = all_apart_unrelated [OF defaults_apart]

lemma viper_okD:
  assumes "viper_ok V"
  shows "IsSet V (Set V k x v) k" "has_value V (Set V k x v) k x"
    "\<not> related k k' \<Longrightarrow> same_at V (Set V k x v) v k'" "\<not> IsSet V v k \<Longrightarrow> zero_at V v k"
    "ReadInConfig V f (Set V k x v) = map_option (Set V k x) (ReadInConfig V f v)"
  using assms by (simp_all add: viper_ok_def)

lemma same_at_refl [simp]: "same_at V v v k"
  by (simp add: same_at_def)

lemma same_at_trans: "same_at V a b k \<Longrightarrow> same_at V b c k \<Longrightarrow> same_at V a c k"
  by (simp add: same_at_def)

lemma same_at_IsSet: "same_at V a b k \<Longrightarrow> IsSet V a k = IsSet V b k"
  by (simp add: same_at_def)

lemma same_at_has_value: "same_at V a b k \<Longrightarrow> has_value V a k d = has_value V b k d"
  by (simp add: same_at_def has_value_def split: setting.splits)

lemma fill_Cons: "fill V ((k, d) # ds) v = fill V ds (if IsSet V v k then v else Set V k d v)"
  by (simp add: fill_def)

lemma fill_unrelated:
  "viper_ok V \<Longrightarrow> \<forall>(k', d)\<in>set ds. \<not> related k' k \<Longrightarrow> same_at V (fill V ds v) v k"
proof (induction ds arbitrary: v)
  case (Cons a ds)
  obtain k' d where a: "a = (k', d)" by (cases a)
  have "same_at V (fill V ds (if IsSet V v k' then v else Set V k' d v)) (if IsSet V v k' then v else Set V k' d v) k"
    using Cons by auto
  moreover have "same_at V (if IsSet V v k' then v else Set V k' d v) v k"
    using Cons(2,3) viper_okD(3) [of V k' k d v] by (simp add: a)
  ultimately show ?case unfolding a fill_Cons by (rule same_at_trans)
qed (simp add: fill_def)

lemma fill_key:
  "viper_ok V \<Longrightarrow> unrelated_keys ds \<Longrightarrow> (k, d) \<in> set ds \<Longrightarrow>
    (if IsSet V v k then same_at V (fill V ds v) v k else IsSet V (fill V ds v) k \<and> has_value V (fill V ds v) k d)"
proof (induction ds arbitrary: v)
  case (Cons a ds)
  obtain k' d' where a: "a = (k', d')" by (cases a)
  show ?case
  proof (cases "(k, d) = a")
    case True
    then have "\<forall>(k', d)\<in>set ds. \<not> related k' k"
      using Cons.prems(2) by (auto simp: unrelated_Cons a)
    note same = fill_unrelated [OF Cons.prems(1) this]
    then show ?thesis using True viper_okD(1,2) [OF Cons.prems(1), of k d v] same_at_IsSet [OF same] same_at_has_value [OF same, of _ d]
        same
      by (simp add: a fill_Cons)
  next
    case False
    then have mem: "(k, d) \<in> set ds" and nr: "\<not> related k' k" and un: "unrelated_keys ds"
      using Cons.prems(2,3) False by (auto simp: unrelated_Cons a)
    have "same_at V (Set V k' d' v) v k" by (rule viper_okD(3) [OF Cons.prems(1) nr])
    moreover define w where "w = (if IsSet V v k' then v else Set V k' d' v)"
    ultimately have w: "same_at V w v k" by simp
    show ?thesis using Cons.IH [OF Cons.prems(1) un mem, of w] same_at_IsSet [OF w] same_at_trans [OF _ w]
      by (auto simp: a fill_Cons w_def [symmetric] split: if_splits)
  qed
qed simp

text \<open>Filling is setting the keys that are missing, which a later reading keeps.\<close>

definition set_all :: "('v, 'f) viper \<Rightarrow> (string \<times> setting) list \<Rightarrow> 'v \<Rightarrow> 'v" where
  "set_all V ds v = fold (\<lambda>(k, d). Set V k d) ds v"

lemma fill_is_set_all:
  "viper_ok V \<Longrightarrow> unrelated_keys ds \<Longrightarrow> fill V ds v = set_all V (filter (\<lambda>(k, d). \<not> IsSet V v k) ds) v"
proof (induction ds arbitrary: v)
  case (Cons a ds)
  obtain k d where a: "a = (k, d)" by (cases a)
  have "IsSet V (Set V k d v) k' = IsSet V v k'" if "(k', d') \<in> set ds" for k' d'
    using Cons.prems that viper_okD(3) [of V k k' d v, THEN same_at_IsSet] by (auto simp: unrelated_Cons a)
  then have "filter (\<lambda>(k', d'). \<not> IsSet V (Set V k d v) k') ds = filter (\<lambda>(k', d'). \<not> IsSet V v k') ds"
    by (auto intro: filter_cong)
  then show ?case using Cons by (simp add: fill_Cons a set_all_def unrelated_Cons)
qed (simp add: fill_def set_all_def)

lemma read_set_all: "viper_ok V \<Longrightarrow> ReadInConfig V f (set_all V ds v) = map_option (set_all V ds) (ReadInConfig V f v)"
proof (induction ds arbitrary: v)
  case Nil
  then show ?case by (cases "ReadInConfig V f v") (simp_all add: set_all_def)
next
  case (Cons a ds)
  then show ?case by (cases "ReadInConfig V f v") (simp_all add: set_all_def split_beta viper_okD(5))
qed

lemma set_all_key:
  assumes "viper_ok V" "unrelated_keys ds"
  shows "(k, d) \<in> set ds \<Longrightarrow> IsSet V (set_all V ds v) k \<and> has_value V (set_all V ds v) k d"
    "(\<forall>(k', d)\<in>set ds. \<not> related k' k) \<Longrightarrow> same_at V (set_all V ds v) v k"
proof -
  show same: "(\<forall>(k', d)\<in>set ds. \<not> related k' k) \<Longrightarrow> same_at V (set_all V ds v) v k" for ds v k
  proof (induction ds arbitrary: v)
    case (Cons a ds)
    then have "same_at V (set_all V ds (Set V (fst a) (snd a) v)) (Set V (fst a) (snd a) v) k" by simp
    moreover have "same_at V (Set V (fst a) (snd a) v) v k" using Cons(2) viper_okD(3) [OF assms(1)] by (cases a) auto
    ultimately have "same_at V (set_all V ds (Set V (fst a) (snd a) v)) v k" by (rule same_at_trans)
    then show ?case by (simp add: set_all_def split_beta)
  qed (simp add: set_all_def)
  show "(k, d) \<in> set ds \<Longrightarrow> IsSet V (set_all V ds v) k \<and> has_value V (set_all V ds v) k d"
    using assms(2)
  proof (induction ds arbitrary: v)
    case (Cons a ds)
    show ?case
    proof (cases "a = (k, d)")
      case True
      then have "\<forall>(k', d)\<in>set ds. \<not> related k' k"
        using Cons.prems(2) by (auto simp: unrelated_Cons)
      then have "same_at V (set_all V ds (Set V k d v)) (Set V k d v) k" by (rule same)
      then show ?thesis using True viper_okD(1,2) [OF assms(1), of k d v] same_at_IsSet [of V _ _ k] same_at_has_value [of V _ _ k d]
        by (simp add: set_all_def)
    next
      case False
      then show ?thesis using Cons by (cases a) (auto simp: set_all_def unrelated_Cons)
    qed
  qed simp
qed

lemma validate_key:
  assumes "viper_ok V" "(k, d) \<in> set default_values"
  shows "if IsSet V v k then same_at V (validateConfig V v) v k
    else IsSet V (validateConfig V v) k \<and> has_value V (validateConfig V v) k d"
  unfolding validateConfig_def by (rule fill_key [OF assms(1) defaults_unrelated assms(2)])

lemma validate_other: "viper_ok V \<Longrightarrow> \<forall>(k', d)\<in>set default_values. \<not> related k' k \<Longrightarrow> same_at V (validateConfig V v) v k"
  unfolding validateConfig_def by (rule fill_unrelated)

definition missing :: "('v, 'f) viper \<Rightarrow> 'v \<Rightarrow> (string \<times> setting) list" where
  "missing V v = filter (\<lambda>(k, d). \<not> IsSet V v k) default_values"

lemma unrelated_filter: "unrelated_keys ds \<Longrightarrow> unrelated_keys (filter P ds)"
  by (simp add: unrelated_keys_def sorted_wrt_filter)

lemma unrelated_distinct: "unrelated_keys ds \<Longrightarrow> (k, d) \<in> set ds \<Longrightarrow> (k', d') \<in> set ds \<Longrightarrow> related k' k \<Longrightarrow> k' = k \<and> d' = d"
proof (induction ds)
  case (Cons a ds)
  then show ?case by (cases a) (auto simp: unrelated_Cons)
qed simp

lemma reload_read:
  assumes "viper_ok V" "ReadInConfig V f' v0 = Some v1"
  shows "Reload V f' (validateConfig V v0) = (None, validateConfig V (set_all V (missing V v0) v1))"
  using assms read_set_all [OF assms(1)]
  by (simp add: Reload_def validateConfig_def fill_is_set_all [OF assms(1) defaults_unrelated, of v0] missing_def)

lemma reloaded_key:
  fixes v0 v1
  assumes ok: "viper_ok V" and kd: "(k, d) \<in> set default_values"
  defines "v' \<equiv> validateConfig V (set_all V (missing V v0) v1)"
  shows "if IsSet V v0 k \<and> IsSet V v1 k then same_at V v' v1 k else has_value V v' k d"
proof -
  define w where "w = set_all V (missing V v0) v1"
  note un = unrelated_filter [OF defaults_unrelated, of "\<lambda>(k, d). \<not> IsSet V v0 k", folded missing_def]
  note key = validate_key [OF ok kd, of w]
  show ?thesis
  proof (cases "IsSet V v0 k")
    case True
    then have "\<forall>(k', d')\<in>set (missing V v0). \<not> related k' k"
      using unrelated_distinct [OF defaults_unrelated kd] by (auto simp: missing_def)
    then have "same_at V w v1 k" unfolding w_def by (rule set_all_key(2) [OF ok un])
    then show ?thesis using key True same_at_trans [of V "validateConfig V w" w k v1] same_at_IsSet [of V w v1 k]
      by (auto simp: v'_def w_def [symmetric] split: if_splits)
  next
    case False
    then have "(k, d) \<in> set (missing V v0)" using kd by (simp add: missing_def)
    then have "IsSet V w k \<and> has_value V w k d" unfolding w_def by (rule set_all_key(1) [OF ok un])
    then show ?thesis using key False same_at_has_value [of V "validateConfig V w" w k d] by (simp add: v'_def w_def [symmetric])
  qed
qed

lemma reloaded_other:
  assumes ok: "viper_ok V" and un: "\<forall>(k', d)\<in>set default_values. \<not> related k' k"
  shows "same_at V (validateConfig V (set_all V (missing V v0) v1)) v1 k"
proof -
  have "\<forall>(k', d)\<in>set (missing V v0). \<not> related k' k" using un by (auto simp: missing_def)
  then have "same_at V (set_all V (missing V v0) v1) v1 k"
    by (rule set_all_key(2) [OF ok unrelated_filter [OF defaults_unrelated, of "\<lambda>(k, d). \<not> IsSet V v0 k", folded missing_def]])
  then show ?thesis by (rule same_at_trans [OF validate_other [OF ok un]])
qed


text \<open>A library of two layers, what was set and what was read, as the documentation describes it.\<close>

definition lookup :: "(string \<rightharpoonup> setting) \<times> (string \<rightharpoonup> setting) \<Rightarrow> string \<Rightarrow> setting option" where
  "lookup v k = (case fst v k of Some x \<Rightarrow> Some x | None \<Rightarrow> snd v k)"

definition two_layers :: "((string \<rightharpoonup> setting) \<times> (string \<rightharpoonup> setting), (string \<rightharpoonup> setting) option) viper" where
  "two_layers = \<lparr>IsSet = (\<lambda>v k. lookup v k \<noteq> None), Set = (\<lambda>k x v. ((fst v)(k \<mapsto> x), snd v)),
     GetString = (\<lambda>v k. case lookup v k of Some (VStr s) \<Rightarrow> s | _ \<Rightarrow> []),
     GetInt = (\<lambda>v k. case lookup v k of Some (VInt i) \<Rightarrow> i | _ \<Rightarrow> 0),
     GetInt64 = (\<lambda>v k. case lookup v k of Some (VInt i) \<Rightarrow> i | _ \<Rightarrow> 0),
     GetBool = (\<lambda>v k. case lookup v k of Some (VBool b) \<Rightarrow> b | _ \<Rightarrow> False),
     GetFloat64 = (\<lambda>v k. case lookup v k of Some (VFloat x) \<Rightarrow> x | _ \<Rightarrow> 0),
     GetDuration = (\<lambda>v k. case lookup v k of Some (VInt i) \<Rightarrow> i | _ \<Rightarrow> 0),
     GetStringMap = (\<lambda>v k. []), ReadInConfig = (\<lambda>f v. map_option (\<lambda>m. (fst v, m)) f)\<rparr>"

lemma viper_ok_two_layers: "viper_ok two_layers"
  by (auto simp: viper_ok_def two_layers_def lookup_def has_value_def same_at_def zero_at_def related_def option.map_comp o_def
      split: setting.splits option.splits)


section \<open>Keys without a default\<close>

lemma no_default_zero:
  assumes "viper_ok V" "list_all (\<lambda>kd. apart (fst kd) k) default_values" "\<not> IsSet V v k"
  shows "zero_at V (validateConfig V v) k"
proof -
  have "same_at V (validateConfig V v) v k"
    using assms(2) by (intro validate_other [OF assms(1)]) (auto simp: list_all_iff apart_iff)
  then show ?thesis using viper_okD(4) [OF assms(1,3)] by (simp add: same_at_def zero_at_def)
qed

lemma time_format_empty:
  assumes "viper_ok V" "\<not> IsSet V v ''logger.time_format''"
  shows "lg_TimeFormat (GetLoggerConfig V (validateConfig V v)) = []"
  using no_default_zero [OF assms(1) _ assms(2)] by (simp add: GetLoggerConfig_def zero_at_def default_values_def)

lemma http_connections_zero:
  assumes "viper_ok V" "\<not> IsSet V v ''protocols.http.max_connections''"
  shows "hc_MaxConnections (pr_HTTP (GetProtocolConfig V (validateConfig V v))) = 0"
  using no_default_zero [OF assms(1) _ assms(2)] by (simp add: GetProtocolConfig_def zero_at_def default_values_def)

lemma whole_threshold_panics:
  "GetStringMap V v ''observability.alerting_thresholds'' = [(''cpu'', VInt 80)] \<Longrightarrow> GetObservabilityConfig V v = None"
  by (simp add: GetObservabilityConfig_def)

lemma server_timeouts_ignored: "sv_ReadTimeout (GetServerConfig V v) = 0 \<and> sv_WriteTimeout (GetServerConfig V v) = 0"
  by (simp add: GetServerConfig_def)

end
