(* ===== verification/Router_Monitor.thy ===== *)
theory Router_Monitor
  imports Router_Config Self_Lock "HOL-Library.Signed_Division"
begin

text \<open>
  The router monitor of \<^verbatim>\<open>core/router/router_monitor.go\<close>: counters, the window of response times,
  the metrics of each route, their collection, the health check and the alerts. The mutex is a field;
  collecting locks it twice, so the monitor is an object of the contract \<open>self_lock\<close>. The lemmas
  show what the counters and the window hold, that an alert is raised at most once of each type, and
  that no alert is ever raised by a monitor that was started new.
\<close>

section \<open>State\<close>

record RouterMetrics =
  TotalRequests :: int
  SuccessfulRequests :: int
  FailedRequests :: int
  ActiveRequests :: int
  AverageResponseTime :: duration
  MinResponseTime :: duration
  rt_MaxResponseTime :: duration
  P95ResponseTime :: duration
  P99ResponseTime :: duration
  ErrorRate :: rat
  TimeoutCount :: int
  CircuitBreakerTrips :: int
  CacheHits :: int
  CacheMisses :: int
  CacheHitRate :: rat
  CPUUsage :: rat
  MemoryUsage :: rat
  GoroutineCount :: int
  Timestamp :: time

record RouteMetrics =
  Path :: string
  Method :: string
  RequestCount :: int
  SuccessCount :: int
  ErrorCount :: int
  rm_AverageResponseTime :: duration
  LastAccessed :: time

text \<open>The message of an alert, a text for the log, is left out; its metrics are the value and the threshold.\<close>

record AlertEvent =
  ae_ID :: time
  ae_Type :: string
  Severity :: string
  Metrics :: "rat \<times> rat"
  ae_Timestamp :: time
  Resolved :: bool

record RouterMonitor =
  rm_config :: MonitoringConfig
  metrics :: RouterMetrics
  routeMetrics :: "string \<rightharpoonup> RouteMetrics"
  metricsHistory :: "RouterMetrics list"
  alerts :: "AlertEvent list"
  running :: bool
  cancelled :: bool
  alertHandlers :: nat
  handled :: "(nat \<times> AlertEvent) list"   \<comment> \<open>the alerts given to each handler\<close>
  responseTimes :: "duration list"
  mutex_held :: bool

definition zeroMetrics :: "time \<Rightarrow> RouterMetrics" where
  "zeroMetrics now = \<lparr>TotalRequests = 0, SuccessfulRequests = 0, FailedRequests = 0, ActiveRequests = 0,
     AverageResponseTime = 0, MinResponseTime = 0, rt_MaxResponseTime = 0, P95ResponseTime = 0, P99ResponseTime = 0,
     ErrorRate = 0, TimeoutCount = 0, CircuitBreakerTrips = 0, CacheHits = 0, CacheMisses = 0, CacheHitRate = 0,
     CPUUsage = 0, MemoryUsage = 0, GoroutineCount = 0, Timestamp = now\<rparr>"

definition default_config :: MonitoringConfig where
  "default_config = \<lparr>mc_Enabled = True, MetricsInterval = 30 * second, mc_HealthCheckInterval = 60 * second,
     EnableTracing = False, EnableProfiling = False, MaxMetricsHistory = 1000, mc_AlertThresholds = None\<rparr>"

definition NewRouterMonitor :: "time \<Rightarrow> MonitoringConfig option \<Rightarrow> RouterMonitor" where
  "NewRouterMonitor now c = \<lparr>rm_config = (case c of None \<Rightarrow> default_config | Some c \<Rightarrow> c), metrics = zeroMetrics now,
     routeMetrics = Map.empty, metricsHistory = [], alerts = [], running = False, cancelled = False, alertHandlers = 0,
     handled = [], responseTimes = [], mutex_held = False\<rparr>"

section \<open>Operations\<close>

text \<open>The second component of an answer says that the operation returned.\<close>

definition Start :: "RouterMonitor \<Rightarrow> RouterMonitor \<times> bool" where
  "Start m = (if \<not> mc_Enabled (rm_config m) then (m, True) else if mutex_held m then (m, False) else (m\<lparr>running := True\<rparr>, True))"

definition Stop :: "RouterMonitor \<Rightarrow> RouterMonitor \<times> bool" where
  "Stop m = (if mutex_held m then (m, False) else if \<not> running m then (m, True) else (m\<lparr>running := False, cancelled := True\<rparr>, True))"

definition recordResponseTime :: "duration \<Rightarrow> RouterMonitor \<Rightarrow> RouterMonitor" where
  "recordResponseTime d m = (let rs = responseTimes m @ [d]
     in m\<lparr>responseTimes := (if length rs > 10000 then drop 1000 rs else rs)\<rparr>)"

definition route_key :: "string \<Rightarrow> string \<Rightarrow> string" where
  "route_key meth path = meth @ '':'' @ path"

definition count_request :: "duration \<Rightarrow> bool \<Rightarrow> time \<Rightarrow> RouteMetrics \<Rightarrow> RouteMetrics" where
  "count_request d ok now r =
     (let r = r\<lparr>RequestCount := RequestCount r + 1\<rparr>;
          r = (if ok then r\<lparr>SuccessCount := SuccessCount r + 1\<rparr> else r\<lparr>ErrorCount := ErrorCount r + 1\<rparr>);
          r = (if RequestCount r = 1 then r\<lparr>rm_AverageResponseTime := d\<rparr>
               else r\<lparr>rm_AverageResponseTime := (rm_AverageResponseTime r * (RequestCount r - 1) + d) sdiv RequestCount r\<rparr>)
      in r\<lparr>LastAccessed := now\<rparr>)"

definition updateRouteMetrics :: "string \<Rightarrow> string \<Rightarrow> duration \<Rightarrow> bool \<Rightarrow> time \<Rightarrow> RouterMonitor \<Rightarrow> RouterMonitor \<times> bool" where
  "updateRouteMetrics meth path d ok now m =
     (if mutex_held m then (m, False)
      else (let k = route_key meth path;
                r = (case routeMetrics m k of Some r \<Rightarrow> r
                   | None \<Rightarrow> \<lparr>Path = path, Method = meth, RequestCount = 0, SuccessCount = 0, ErrorCount = 0,
                       rm_AverageResponseTime = 0, LastAccessed = 0\<rparr>)
            in (m\<lparr>routeMetrics := (routeMetrics m)(k \<mapsto> count_request d ok now r)\<rparr>, True)))"

definition RecordRequest :: "string \<Rightarrow> string \<Rightarrow> duration \<Rightarrow> bool \<Rightarrow> time \<Rightarrow> RouterMonitor \<Rightarrow> RouterMonitor \<times> bool" where
  "RecordRequest meth path d ok now m =
     (if \<not> mc_Enabled (rm_config m) then (m, True)
      else (let x = metrics m; x = x\<lparr>TotalRequests := TotalRequests x + 1\<rparr>;
                x = (if ok then x\<lparr>SuccessfulRequests := SuccessfulRequests x + 1\<rparr> else x\<lparr>FailedRequests := FailedRequests x + 1\<rparr>)
            in updateRouteMetrics meth path d ok now (recordResponseTime d (m\<lparr>metrics := x\<rparr>))))"

definition RecordActiveRequest :: "int \<Rightarrow> RouterMonitor \<Rightarrow> RouterMonitor" where
  "RecordActiveRequest delta m = m\<lparr>metrics := (metrics m)\<lparr>ActiveRequests := ActiveRequests (metrics m) + delta\<rparr>\<rparr>"

definition RecordCacheHit :: "RouterMonitor \<Rightarrow> RouterMonitor" where
  "RecordCacheHit m = m\<lparr>metrics := (metrics m)\<lparr>CacheHits := CacheHits (metrics m) + 1\<rparr>\<rparr>"

definition RecordCacheMiss :: "RouterMonitor \<Rightarrow> RouterMonitor" where
  "RecordCacheMiss m = m\<lparr>metrics := (metrics m)\<lparr>CacheMisses := CacheMisses (metrics m) + 1\<rparr>\<rparr>"

definition RecordTimeout :: "RouterMonitor \<Rightarrow> RouterMonitor" where
  "RecordTimeout m = m\<lparr>metrics := (metrics m)\<lparr>TimeoutCount := TimeoutCount (metrics m) + 1\<rparr>\<rparr>"

definition RecordCircuitBreakerTrip :: "RouterMonitor \<Rightarrow> RouterMonitor" where
  "RecordCircuitBreakerTrip m = m\<lparr>metrics := (metrics m)\<lparr>CircuitBreakerTrips := CircuitBreakerTrips (metrics m) + 1\<rparr>\<rparr>"

text \<open>The readers take the mutex for reading; the copy of the metrics carries the present time.\<close>

definition GetMetrics :: "time \<Rightarrow> RouterMonitor \<Rightarrow> RouterMetrics option" where
  "GetMetrics now m = (if mutex_held m then None else Some ((metrics m)\<lparr>Timestamp := now\<rparr>))"

definition GetRouteMetrics :: "RouterMonitor \<Rightarrow> (string \<rightharpoonup> RouteMetrics) option" where
  "GetRouteMetrics m = (if mutex_held m then None else Some (routeMetrics m))"

definition GetMetricsHistory :: "RouterMonitor \<Rightarrow> RouterMetrics list option" where
  "GetMetricsHistory m = (if mutex_held m then None else Some (metricsHistory m))"

definition GetAlerts :: "RouterMonitor \<Rightarrow> AlertEvent list option" where
  "GetAlerts m = (if mutex_held m then None else Some (alerts m))"

definition AddAlertHandler :: "RouterMonitor \<Rightarrow> RouterMonitor \<times> bool" where
  "AddAlertHandler m = (if mutex_held m then (m, False) else (m\<lparr>alertHandlers := alertHandlers m + 1\<rparr>, True))"

section \<open>Collecting\<close>

definition calculateResponseTimeStats :: "duration list \<Rightarrow> RouterMetrics \<Rightarrow> RouterMetrics" where
  "calculateResponseTimeStats rs x =
     (case rs of [] \<Rightarrow> x
      | r # _ \<Rightarrow>
        (let mn = foldl (\<lambda>a d. if d < a then d else a) r rs; mx = foldl (\<lambda>a d. if d > a then d else a) r rs;
             x = x\<lparr>AverageResponseTime := sum_list rs sdiv int (length rs), MinResponseTime := mn, rt_MaxResponseTime := mx\<rparr>
         in if length rs \<ge> 20
            then x\<lparr>P95ResponseTime := \<lfloor>rat_of_int mx * 95 / 100\<rfloor>, P99ResponseTime := \<lfloor>rat_of_int mx * 99 / 100\<rfloor>\<rparr> else x))"

text \<open>What the runtime reports: memory in use and obtained, goroutines, the time.\<close>

record runtime =
  rt_Alloc :: int
  rt_Sys :: int
  rt_NumGoroutine :: int
  rt_now :: time

definition collectSystemMetrics :: "runtime \<Rightarrow> RouterMetrics \<Rightarrow> RouterMetrics" where
  "collectSystemMetrics rt x = x\<lparr>MemoryUsage := of_int (rt_Alloc rt) / of_int (rt_Sys rt), GoroutineCount := rt_NumGoroutine rt, CPUUsage := 1 / 10\<rparr>"

definition rates :: "RouterMetrics \<Rightarrow> RouterMetrics" where
  "rates x =
     (let x = (if TotalRequests x > 0 then x\<lparr>ErrorRate := of_int (FailedRequests x) / of_int (TotalRequests x)\<rparr> else x);
          n = CacheHits x + CacheMisses x
      in if n > 0 then x\<lparr>CacheHitRate := of_int (CacheHits x) / of_int n\<rparr> else x)"

definition collectMetrics :: "runtime \<Rightarrow> RouterMonitor \<Rightarrow> RouterMonitor \<times> bool" where
  "collectMetrics rt m =
     (if mutex_held m then (m, False)
      else (let m = m\<lparr>mutex_held := True\<rparr>;
                m = m\<lparr>metrics := collectSystemMetrics rt (calculateResponseTimeStats (responseTimes m) (rates (metrics m)))\<rparr>
            in case GetMetrics (rt_now rt) m of
                 None \<Rightarrow> (m, False)
               | Some x \<Rightarrow> (let xs = metricsHistory m @ [x]
                   in (m\<lparr>metricsHistory := (if int (length xs) > MaxMetricsHistory (rm_config m) then tl xs else xs), mutex_held := False\<rparr>, True))))"

section \<open>Health and alerts\<close>

text \<open>The health check only logs; its answer is the list of the issues.\<close>

definition performHealthCheck :: "time \<Rightarrow> RouterMonitor \<Rightarrow> string list option" where
  "performHealthCheck now m = (case GetMetrics now m of None \<Rightarrow> None | Some x \<Rightarrow>
     Some (case mc_AlertThresholds (rm_config m) of None \<Rightarrow> []
       | Some t \<Rightarrow> (if ErrorRate x > MaxErrorRate t then [''High error rate''] else []) @
           (if AverageResponseTime x > MaxResponseTime t then [''High response time''] else []) @
           (if CPUUsage x > MaxCPUUsage t then [''High CPU usage''] else []) @
           (if MemoryUsage x > MaxMemoryUsage t then [''High memory usage''] else [])))"

definition triggerAlert :: "string \<Rightarrow> string \<Rightarrow> rat \<times> rat \<Rightarrow> time \<Rightarrow> RouterMonitor \<Rightarrow> RouterMonitor" where
  "triggerAlert ty sev vals now m =
     (if \<exists>a\<in>set (alerts m). ae_Type a = ty \<and> \<not> Resolved a then m
      else (let a = \<lparr>ae_ID = now, ae_Type = ty, Severity = sev, Metrics = vals, ae_Timestamp = now, Resolved = False\<rparr>
            in m\<lparr>alerts := alerts m @ [a], handled := handled m @ map (\<lambda>h. (h, a)) [0..<alertHandlers m]\<rparr>))"

definition alert_tests :: "AlertThresholds \<Rightarrow> RouterMetrics \<Rightarrow> (bool \<times> string \<times> string \<times> rat \<times> rat) list" where
  "alert_tests t x =
     [(ErrorRate x > MaxErrorRate t, ''high_error_rate'', ''critical'', ErrorRate x, MaxErrorRate t),
      (AverageResponseTime x > MaxResponseTime t, ''high_response_time'', ''warning'', of_int (AverageResponseTime x), of_int (MaxResponseTime t)),
      (CPUUsage x > MaxCPUUsage t, ''high_cpu_usage'', ''warning'', CPUUsage x, MaxCPUUsage t)]"

definition checkAlerts :: "time \<Rightarrow> RouterMonitor \<Rightarrow> RouterMonitor \<times> bool" where
  "checkAlerts now m = (case mc_AlertThresholds (rm_config m) of None \<Rightarrow> (m, True)
   | Some t \<Rightarrow> (case GetMetrics now m of None \<Rightarrow> (m, False)
     | Some x \<Rightarrow> (fold (\<lambda>(p, ty, sev, vals) m. if p then triggerAlert ty sev vals now m else m) (alert_tests t x) m, True)))"

section \<open>Any sequence of operations\<close>

datatype rm_op = Request string string duration bool time | Active int | Hit | Miss | Timeout | Trip |
  Collect runtime | Alerts time | Starts | Stops | Handler

fun rm_step :: "rm_op \<Rightarrow> RouterMonitor \<Rightarrow> RouterMonitor \<times> bool" where
  "rm_step (Request meth path d ok now) m = RecordRequest meth path d ok now m"
| "rm_step (Active delta) m = (RecordActiveRequest delta m, True)"
| "rm_step Hit m = (RecordCacheHit m, True)"
| "rm_step Miss m = (RecordCacheMiss m, True)"
| "rm_step Timeout m = (RecordTimeout m, True)"
| "rm_step Trip m = (RecordCircuitBreakerTrip m, True)"
| "rm_step (Collect rt) m = collectMetrics rt m"
| "rm_step (Alerts now) m = checkAlerts now m"
| "rm_step Starts m = Start m"
| "rm_step Stops m = Stop m"
| "rm_step Handler m = AddAlertHandler m"

lemmas rm_defs = RecordRequest_def updateRouteMetrics_def recordResponseTime_def RecordActiveRequest_def RecordCacheHit_def
  RecordCacheMiss_def RecordTimeout_def RecordCircuitBreakerTrip_def collectMetrics_def GetMetrics_def checkAlerts_def
  Start_def Stop_def AddAlertHandler_def Let_def

fun is_collect :: "rm_op \<Rightarrow> bool" where
  "is_collect (Collect rt) = True"
| "is_collect op = False"

fun takes_mutex :: "rm_op \<Rightarrow> bool" where
  "takes_mutex (Collect rt) = True"
| "takes_mutex Stops = True"
| "takes_mutex Handler = True"
| "takes_mutex op = False"

lemma triggerAlert_keeps [simp]:
  "mutex_held (triggerAlert ty sev vals now m) = mutex_held m" "metrics (triggerAlert ty sev vals now m) = metrics m"
  "rm_config (triggerAlert ty sev vals now m) = rm_config m" "responseTimes (triggerAlert ty sev vals now m) = responseTimes m"
  "routeMetrics (triggerAlert ty sev vals now m) = routeMetrics m"
  by (auto simp: triggerAlert_def Let_def)

lemma checkAlerts_keeps [simp]:
  "mutex_held (fst (checkAlerts now m)) = mutex_held m" "metrics (fst (checkAlerts now m)) = metrics m"
  "rm_config (fst (checkAlerts now m)) = rm_config m" "responseTimes (fst (checkAlerts now m)) = responseTimes m"
  "routeMetrics (fst (checkAlerts now m)) = routeMetrics m"
  by (auto simp: checkAlerts_def alert_tests_def split: option.splits)

lemma snd_checkAlerts: "snd (checkAlerts now m) \<longleftrightarrow> \<not> mutex_held m \<or> mc_AlertThresholds (rm_config m) = None"
  by (auto simp: checkAlerts_def GetMetrics_def split: option.splits)

interpretation router_monitor: self_lock rm_step mutex_held is_collect takes_mutex
proof
  show "mutex_held m \<Longrightarrow> mutex_held (fst (rm_step op m))" for m op
    by (cases op) (auto simp: RecordRequest_def updateRouteMetrics_def recordResponseTime_def RecordActiveRequest_def RecordCacheHit_def
      RecordCacheMiss_def RecordTimeout_def RecordCircuitBreakerTrip_def collectMetrics_def Start_def Stop_def AddAlertHandler_def Let_def)
  show "mutex_held m \<Longrightarrow> takes_mutex op \<Longrightarrow> \<not> snd (rm_step op m)" for m op
    by (cases op) (auto simp: rm_defs)
  show "is_collect op \<Longrightarrow> mutex_held (fst (rm_step op m)) \<and> \<not> snd (rm_step op m)" for m op
    by (cases op) (auto simp: collectMetrics_def GetMetrics_def Let_def)
  show "\<not> mutex_held m \<Longrightarrow> \<not> is_collect op \<Longrightarrow> \<not> mutex_held (fst (rm_step op m)) \<and> snd (rm_step op m)" for m op
    by (cases op) (auto simp: snd_checkAlerts RecordRequest_def updateRouteMetrics_def recordResponseTime_def RecordActiveRequest_def RecordCacheHit_def
      RecordCacheMiss_def RecordTimeout_def RecordCircuitBreakerTrip_def Start_def Stop_def AddAlertHandler_def Let_def)
qed

lemma run_config: "rm_config (run_ops rm_step ops m) = rm_config m"
proof (induction ops rule: rev_induct)
  case (snoc op ops)
  then show ?case by (cases op) (auto simp: RecordRequest_def updateRouteMetrics_def recordResponseTime_def RecordActiveRequest_def RecordCacheHit_def
      RecordCacheMiss_def RecordTimeout_def RecordCircuitBreakerTrip_def collectMetrics_def GetMetrics_def Start_def Stop_def AddAlertHandler_def Let_def)
qed simp

section \<open>What is counted\<close>

fun request_of :: "rm_op \<Rightarrow> (string \<times> duration \<times> bool) option" where
  "request_of (Request meth path d ok now) = Some (route_key meth path, d, ok)"
| "request_of op = None"

definition requests :: "rm_op list \<Rightarrow> (string \<times> duration \<times> bool) list" where
  "requests ops = List.map_filter request_of ops"

lemma requests_snoc: "requests (ops @ [op]) = requests ops @ (case request_of op of None \<Rightarrow> [] | Some r \<Rightarrow> [r])"
  by (simp add: requests_def List.map_filter_def split: option.splits)

text \<open>The window drops its 1000 oldest times whenever it exceeds 10000.\<close>

definition recent :: "duration list \<Rightarrow> duration list \<Rightarrow> bool" where
  "recent w ds \<longleftrightarrow> (\<exists>k. w = drop k ds \<and> length w \<le> 10000 \<and> (0 < k \<longrightarrow> 9001 \<le> length w) \<and> k \<le> length ds)"

lemma recent_snoc: "recent w ds \<Longrightarrow> recent (if length (w @ [d]) > 10000 then drop 1000 (w @ [d]) else w @ [d]) (ds @ [d])"
proof -
  assume "recent w ds"
  then obtain k where k: "w = drop k ds" "length w \<le> 10000" "0 < k \<longrightarrow> 9001 \<le> length w" "k \<le> length ds"
    using that unfolding recent_def by blast
  show ?thesis
  proof (cases "length (w @ [d]) > 10000")
    case True
    then have "drop 1000 (w @ [d]) = drop (k + 1000) (ds @ [d])" "length ds = k + 10000" using k by (auto simp: add.commute)
    with True show ?thesis using k unfolding recent_def by (intro exI [of _ "k + 1000"]) simp
  next
    case False
    then show ?thesis using k unfolding recent_def by (intro exI [of _ k]) auto
  qed
qed

definition counted :: "(string \<times> duration \<times> bool) list \<Rightarrow> RouteMetrics option \<Rightarrow> bool" where
  "counted rs r \<longleftrightarrow> (case r of None \<Rightarrow> rs = []
     | Some r \<Rightarrow> rs \<noteq> [] \<and> RequestCount r = int (length rs) \<and> SuccessCount r = int (length (filter (\<lambda>(_, _, ok). ok) rs)) \<and>
         ErrorCount r = int (length (filter (\<lambda>(_, _, ok). \<not> ok) rs)))"

lemma counted_snoc:
  "counted rs r \<Longrightarrow> counted (rs @ [(k, d, ok)]) (Some (count_request d ok now (case r of Some r \<Rightarrow> r
     | None \<Rightarrow> \<lparr>Path = path, Method = meth, RequestCount = 0, SuccessCount = 0, ErrorCount = 0, rm_AverageResponseTime = 0, LastAccessed = 0\<rparr>)))"
  by (cases r) (auto simp: counted_def count_request_def Let_def)

definition of_route :: "string \<Rightarrow> (string \<times> duration \<times> bool) list \<Rightarrow> (string \<times> duration \<times> bool) list" where
  "of_route k rs = filter (\<lambda>r. fst r = k) rs"

definition monitor_inv :: "(string \<times> duration \<times> bool) list \<Rightarrow> RouterMonitor \<Rightarrow> bool" where
  "monitor_inv rs m \<longleftrightarrow> TotalRequests (metrics m) = int (length rs) \<and>
     SuccessfulRequests (metrics m) = int (length (filter (\<lambda>(_, _, ok). ok) rs)) \<and>
     FailedRequests (metrics m) = int (length (filter (\<lambda>(_, _, ok). \<not> ok) rs)) \<and>
     recent (responseTimes m) (map (\<lambda>(_, d, _). d) rs) \<and>
     (\<not> mutex_held m \<longrightarrow> (\<forall>k. counted (of_route k rs) (routeMetrics m k)))"

lemma of_route_snoc: "of_route k (rs @ [(k', d, ok)]) = of_route k rs @ (if k' = k then [(k', d, ok)] else [])"
  by (simp add: of_route_def)

lemma monitor_inv_other:
  assumes "monitor_inv rs m" "TotalRequests (metrics m') = TotalRequests (metrics m)"
    "SuccessfulRequests (metrics m') = SuccessfulRequests (metrics m)" "FailedRequests (metrics m') = FailedRequests (metrics m)"
    "responseTimes m' = responseTimes m" "routeMetrics m' = routeMetrics m" "\<not> mutex_held m' \<Longrightarrow> \<not> mutex_held m"
  shows "monitor_inv rs m'"
  using assms by (simp add: monitor_inv_def)

lemma monitor_inv_request:
  assumes inv: "monitor_inv rs m" and en: "mc_Enabled (rm_config m)"
  shows "monitor_inv (rs @ [(route_key meth path, d, ok)]) (fst (RecordRequest meth path d ok now m))"
proof -
  have rec: "recent (if length (responseTimes m @ [d]) > 10000 then drop 1000 (responseTimes m @ [d]) else responseTimes m @ [d])
      (map (\<lambda>(_, d, _). d) rs @ [d])"
    using inv by (intro recent_snoc) (simp add: monitor_inv_def)
  have cnt: "counted (of_route (route_key meth path) rs @ [(route_key meth path, d, ok)]) (Some (count_request d ok now (case routeMetrics m (route_key meth path) of
      Some r \<Rightarrow> r | None \<Rightarrow> \<lparr>Path = path, Method = meth, RequestCount = 0, SuccessCount = 0, ErrorCount = 0, rm_AverageResponseTime = 0, LastAccessed = 0\<rparr>)))"
    if "\<not> mutex_held m"
    using inv that by (intro counted_snoc) (simp add: monitor_inv_def)
  show ?thesis
  proof (cases "mutex_held m")
    case True
    then show ?thesis using inv en rec
      by (auto simp: RecordRequest_def updateRouteMetrics_def recordResponseTime_def Let_def monitor_inv_def)
  next
    case False
    then show ?thesis using inv en rec cnt
      by (auto simp: RecordRequest_def updateRouteMetrics_def recordResponseTime_def Let_def monitor_inv_def of_route_snoc)
  qed
qed

lemma monitor_inv_collect: "monitor_inv rs m \<Longrightarrow> monitor_inv rs (fst (collectMetrics rt m))"
  by (auto simp: collectMetrics_def GetMetrics_def Let_def monitor_inv_def collectSystemMetrics_def calculateResponseTimeStats_def
      rates_def split: list.splits)

lemma monitor_inv_step:
  "monitor_inv rs m \<Longrightarrow> mc_Enabled (rm_config m) \<Longrightarrow>
    monitor_inv (rs @ (case request_of op of None \<Rightarrow> [] | Some r \<Rightarrow> [r])) (fst (rm_step op m))"
  by (cases op) (auto intro: monitor_inv_request monitor_inv_collect elim: monitor_inv_other
      simp: RecordActiveRequest_def RecordCacheHit_def RecordCacheMiss_def RecordTimeout_def RecordCircuitBreakerTrip_def
        Start_def Stop_def AddAlertHandler_def)

text \<open>
  Accounting. Whatever an enabled new monitor is told, its totals are those of the recorded requests,
  even of those that wait for ever; its response times are the most recent ones, at most 10000 and at
  least 9001 once any was dropped; and until a collection each route has the numbers of its own requests.
\<close>

lemma router_monitor_counts:
  fixes ops now cfg
  assumes "mc_Enabled cfg"
  defines "m \<equiv> run_ops rm_step ops (NewRouterMonitor now (Some cfg))"
  defines "rs \<equiv> requests ops"
  shows "TotalRequests (metrics m) = int (length rs) \<and>
    SuccessfulRequests (metrics m) = int (length (filter (\<lambda>(_, _, ok). ok) rs)) \<and>
    FailedRequests (metrics m) = int (length (filter (\<lambda>(_, _, ok). \<not> ok) rs)) \<and>
    (\<exists>k. responseTimes m = drop k (map (\<lambda>(_, d, _). d) rs) \<and> length (responseTimes m) \<le> 10000 \<and>
       (k = 0 \<or> length (responseTimes m) > 9000)) \<and>
    ((\<exists>op\<in>set ops. is_collect op) \<or> (\<forall>k. counted (of_route k rs) (routeMetrics m k)))"
proof -
  have "monitor_inv rs m" unfolding m_def rs_def
  proof (induction ops rule: rev_induct)
    case Nil
    then show ?case by (simp add: requests_def monitor_inv_def NewRouterMonitor_def zeroMetrics_def recent_def counted_def of_route_def
        List.map_filter_simps)
  next
    case (snoc op ops)
    then show ?case
      using monitor_inv_step [of "requests ops" "run_ops rm_step ops (NewRouterMonitor now (Some cfg))" op] assms(1)
      by (simp add: requests_snoc run_config NewRouterMonitor_def)
  qed
  moreover have "mutex_held m \<longleftrightarrow> (\<exists>op\<in>set ops. is_collect op)"
    unfolding m_def using router_monitor.held_run by (simp add: NewRouterMonitor_def)
  ultimately show ?thesis by (fastforce simp: monitor_inv_def recent_def)
qed

lemma router_monitor_counts_witness:
  "TotalRequests (metrics (run_ops rm_step [Request ''GET'' ''/'' 5 True 1, Hit, Request ''GET'' ''/a'' 7 False 2]
     (NewRouterMonitor 0 (Some default_config)))) = 2"
  using router_monitor_counts [of default_config "[Request ''GET'' ''/'' 5 True 1, Hit, Request ''GET'' ''/a'' 7 False 2]" 0]
  by (simp add: default_config_def requests_def List.map_filter_simps)

section \<open>Collections and alerts\<close>

text \<open>
  A collection never returns, and after one no request is recorded to its end. No alert is ever raised:
  the metrics that are compared with the thresholds are set by a collection only.
\<close>

definition silent :: "RouterMonitor \<Rightarrow> bool" where
  "silent m \<longleftrightarrow> alerts m = [] \<and> (\<not> mutex_held m \<longrightarrow> ErrorRate (metrics m) = 0 \<and> AverageResponseTime (metrics m) = 0 \<and> CPUUsage (metrics m) = 0)"

lemma silent_step:
  assumes "silent m" "\<forall>t. mc_AlertThresholds (rm_config m) = Some t \<longrightarrow> 0 \<le> MaxErrorRate t \<and> 0 \<le> MaxResponseTime t \<and> 0 \<le> MaxCPUUsage t"
  shows "silent (fst (rm_step op m))"
proof (cases op)
  case (Alerts now)
  have "fst (checkAlerts now m) = m" using assms
    by (cases "mc_AlertThresholds (rm_config m)") (auto simp: checkAlerts_def GetMetrics_def silent_def alert_tests_def)
  then show ?thesis using Alerts assms(1) by simp
qed (use assms(1) in \<open>auto simp: silent_def RecordRequest_def updateRouteMetrics_def recordResponseTime_def RecordActiveRequest_def RecordCacheHit_def
      RecordCacheMiss_def RecordTimeout_def RecordCircuitBreakerTrip_def collectMetrics_def GetMetrics_def Start_def Stop_def AddAlertHandler_def Let_def\<close>)

lemma no_alert_ever:
  fixes ops now cfg
  assumes "\<forall>t. mc_AlertThresholds cfg = Some t \<longrightarrow> 0 \<le> MaxErrorRate t \<and> 0 \<le> MaxResponseTime t \<and> 0 \<le> MaxCPUUsage t"
  shows "alerts (run_ops rm_step ops (NewRouterMonitor now (Some cfg))) = []"
proof -
  have "silent (run_ops rm_step ops (NewRouterMonitor now (Some cfg)))"
  proof (induction ops rule: rev_induct)
    case Nil
    then show ?case by (simp add: silent_def NewRouterMonitor_def zeroMetrics_def)
  next
    case (snoc op ops)
    then show ?case using silent_step [of "run_ops rm_step ops (NewRouterMonitor now (Some cfg))" op] assms
      by (simp add: run_config NewRouterMonitor_def)
  qed
  then show ?thesis by (simp add: silent_def)
qed

lemma router_monitor_blocks:
  "mc_Enabled (rm_config m) \<Longrightarrow> \<exists>op\<in>set ops. is_collect op \<Longrightarrow>
    \<not> snd (RecordRequest meth path d ok now (run_ops rm_step ops m)) \<and> \<not> snd (collectMetrics rt (run_ops rm_step ops m)) \<and>
    GetMetrics now (run_ops rm_step ops m) = None"
  using router_monitor.held_run [of ops m]
  by (auto simp: RecordRequest_def updateRouteMetrics_def recordResponseTime_def collectMetrics_def GetMetrics_def Let_def run_config)

text \<open>An alert is raised at most once of each type, since none is ever resolved.\<close>

definition one_of_each :: "RouterMonitor \<Rightarrow> bool" where
  "one_of_each m \<longleftrightarrow> distinct (map ae_Type (alerts m)) \<and> (\<forall>a\<in>set (alerts m). \<not> Resolved a)"

lemma triggerAlert_once: "one_of_each m \<Longrightarrow> one_of_each (triggerAlert ty sev vals now m)"
  by (auto simp: one_of_each_def triggerAlert_def Let_def)

text \<open>The percentiles are fractions of the longest time, whatever the others are.\<close>

lemma percentile_of_maximum:
  "P95ResponseTime (calculateResponseTimeStats (replicate 19 1 @ [1000]) x) = 950"
  by (simp add: calculateResponseTimeStats_def Let_def numeral_eq_Suc)

text \<open>Two routes share their numbers when the joined texts are equal.\<close>

lemma route_key_collision: "route_key ''GET'' ''a:/x'' = route_key ''GET:a'' ''/x''"
  by (simp add: route_key_def)

end
