(* ===== verification/Observability.thy ===== *)
theory Observability
  imports App_Config "HOL-Library.Multiset" "HOL-Library.Sublist" "HOL-Library.AList"
begin

text \<open>
  The observability system of \<^verbatim>\<open>core/observability/observability.go\<close>: metric series behind a buffered
  channel, spans with sampling, alerts with a cooldown, health checks, and the system that joins them.
  A channel with its one receiving goroutine is modelled once and used for metrics and for spans. The
  lemmas show that no recorded point is lost or duplicated without being counted, how many spans are
  sampled, when alerts are raised, and what the health status says.
\<close>

section \<open>A channel with one receiver\<close>

text \<open>
  The receiver waits in its \<^verbatim>\<open>select\<close>, has taken a value, or is between two rounds of its loop. A send
  that is not to block succeeds if the buffer has room or the receiver waits.
\<close>

datatype 'a receiver = Waiting | Handling 'a | Looping | Stopped

record 'a channel =
  capacity :: int
  queue :: "'a list"
  recv :: "'a receiver"

definition new_channel :: "int \<Rightarrow> 'a channel" where
  "new_channel n = \<lparr>capacity = n, queue = [], recv = Looping\<rparr>"

definition try_send :: "'a \<Rightarrow> 'a channel \<Rightarrow> 'a channel \<times> bool" where
  "try_send x c =
     (if recv c = Waiting \<and> queue c = [] then (c\<lparr>recv := Handling x\<rparr>, True)
      else if int (length (queue c)) < capacity c then (c\<lparr>queue := queue c @ [x]\<rparr>, True)
      else (c, False))"

text \<open>One round: enter the select (or leave for good when the context is done), or take the next value.\<close>

definition receive :: "bool \<Rightarrow> 'a channel \<Rightarrow> 'a channel option" where
  "receive stop c = (case recv c of
     Looping \<Rightarrow> Some (if stop then c\<lparr>recv := Stopped\<rparr> else case queue c of
         [] \<Rightarrow> c\<lparr>recv := Waiting\<rparr> | x # xs \<Rightarrow> c\<lparr>queue := xs, recv := Handling x\<rparr>)
   | Waiting \<Rightarrow> if stop then Some (c\<lparr>recv := Stopped\<rparr>) else None
   | _ \<Rightarrow> None)"

definition held :: "'a channel \<Rightarrow> 'a list" where
  "held c = (case recv c of Handling x \<Rightarrow> [x] | _ \<Rightarrow> [])"

lemma try_send_contents:
  "try_send x c = (c', ok) \<Longrightarrow> recv c = Waiting \<longrightarrow> queue c = [] \<Longrightarrow> held c' @ queue c' = held c @ queue c @ (if ok then [x] else [])"
  by (auto simp: try_send_def held_def split: if_splits receiver.splits)

lemma receive_contents: "receive d c = Some c' \<Longrightarrow> held c' @ queue c' = held c @ queue c"
  by (auto simp: receive_def held_def split: receiver.splits if_splits list.splits)

definition channel_ok :: "'a channel \<Rightarrow> bool" where
  "channel_ok c \<longleftrightarrow> (recv c = Waiting \<longrightarrow> queue c = []) \<and> int (length (queue c)) \<le> max 0 (capacity c)"

lemma channel_ok_intros [inv_intros]:
  "channel_ok (new_channel n)"
  "channel_ok c \<Longrightarrow> channel_ok (fst (try_send x c))"
  "channel_ok c \<Longrightarrow> receive d c = Some c' \<Longrightarrow> channel_ok c'"
  "channel_ok c \<Longrightarrow> channel_ok (c\<lparr>recv := Looping\<rparr>)"
  by (auto simp: channel_ok_def new_channel_def try_send_def receive_def split: receiver.splits if_splits list.splits)

section \<open>Metrics\<close>

record MetricPoint =
  mp_Name :: string
  Value :: rat
  mp_Timestamp :: time
  Labels :: "string \<rightharpoonup> string"

record MetricSeries =
  ms_Name :: string
  Points :: "MetricPoint list"
  LastUpdate :: time

record OptimizedMetrics =
  series :: "string \<rightharpoonup> MetricSeries"
  buffer :: "MetricPoint channel"
  retention :: duration
  lastCleanup :: time

definition NewOptimizedMetrics :: "ObservabilitySettings \<Rightarrow> time \<Rightarrow> OptimizedMetrics" where
  "NewOptimizedMetrics cfg now = \<lparr>series = Map.empty, buffer = new_channel (os_MetricsBufferSize cfg),
     retention = os_MetricsRetention cfg, lastCleanup = now\<rparr>"

definition Record :: "string \<Rightarrow> rat \<Rightarrow> (string \<rightharpoonup> string) \<Rightarrow> time \<Rightarrow> OptimizedMetrics \<Rightarrow> OptimizedMetrics \<times> bool" where
  "Record name v labels now m =
     (let (b, ok) = try_send \<lparr>mp_Name = name, Value = v, mp_Timestamp = now, Labels = labels\<rparr> (buffer m)
      in (m\<lparr>buffer := b\<rparr>, ok))"

definition storeMetric :: "MetricPoint \<Rightarrow> time \<Rightarrow> OptimizedMetrics \<Rightarrow> OptimizedMetrics" where
  "storeMetric p now m =
     (let s = (case series m (mp_Name p) of Some s \<Rightarrow> s | None \<Rightarrow> \<lparr>ms_Name = mp_Name p, Points = [], LastUpdate = 0\<rparr>)
      in m\<lparr>series := (series m)(mp_Name p \<mapsto> s\<lparr>Points := Points s @ [p], LastUpdate := now\<rparr>)\<rparr>)"

text \<open>\<^verbatim>\<open>processMetrics\<close>: one step of the goroutine.\<close>

definition processMetrics :: "bool \<Rightarrow> time \<Rightarrow> OptimizedMetrics \<Rightarrow> OptimizedMetrics option" where
  "processMetrics stop now m = (case recv (buffer m) of
     Handling p \<Rightarrow> Some ((storeMetric p now m)\<lparr>buffer := (buffer m)\<lparr>recv := Looping\<rparr>\<rparr>)
   | _ \<Rightarrow> map_option (\<lambda>b. m\<lparr>buffer := b\<rparr>) (receive stop (buffer m)))"

definition clean_series :: "time \<Rightarrow> MetricSeries \<Rightarrow> MetricSeries option" where
  "clean_series cutoff s =
     (let ps = filter (\<lambda>p. mp_Timestamp p > cutoff) (Points s)
      in if ps = [] \<and> LastUpdate s < cutoff then None else Some (s\<lparr>Points := ps\<rparr>))"

definition performCleanup :: "time \<Rightarrow> OptimizedMetrics \<Rightarrow> OptimizedMetrics" where
  "performCleanup now m = m\<lparr>series := (\<lambda>n. Option.bind (series m n) (clean_series (now - retention m))), lastCleanup := now\<rparr>"

definition GetMetric :: "string \<Rightarrow> OptimizedMetrics \<Rightarrow> MetricSeries option" where
  "GetMetric name m = series m name"

definition GetAllMetrics :: "OptimizedMetrics \<Rightarrow> (string \<rightharpoonup> MetricSeries)" where
  "GetAllMetrics m = series m"

section \<open>Tracing\<close>

record Span =
  TraceID :: string
  SpanID :: string
  ParentID :: string
  Operation :: string
  StartTime :: time
  EndTime :: time
  sp_Duration :: duration
  Tags :: "string \<rightharpoonup> string"
  Logs :: "string list"
  Status :: "int \<times> string"

record OptimizedTracing =
  spans :: "string \<rightharpoonup> Span"
  activeSpans :: "string \<rightharpoonup> Span"
  span_buffer :: "Span channel"
  rate :: rat
  trace_timeout :: duration
  sampleCount :: int

definition NewOptimizedTracing :: "ObservabilitySettings \<Rightarrow> OptimizedTracing" where
  "NewOptimizedTracing cfg = \<lparr>spans = Map.empty, activeSpans = Map.empty, span_buffer = new_channel 1000,
     rate = os_SamplingRate cfg, trace_timeout = os_TraceTimeout cfg, sampleCount = 0\<rparr>"

definition shouldSample :: "OptimizedTracing \<Rightarrow> OptimizedTracing \<times> bool" where
  "shouldSample t = (let n = sampleCount t + 1 in (t\<lparr>sampleCount := n\<rparr>, of_int (n mod 100) / 100 < rate t))"

definition tr_StartSpan :: "string \<Rightarrow> string \<Rightarrow> string \<Rightarrow> string \<Rightarrow> (string \<rightharpoonup> string) \<Rightarrow> time \<Rightarrow> OptimizedTracing \<Rightarrow> OptimizedTracing \<times> Span option" where
  "tr_StartSpan tid sid pid oper tags now t =
     (let (t, s) = shouldSample t
      in if \<not> s then (t, None)
         else (let sp = \<lparr>TraceID = tid, SpanID = sid, ParentID = pid, Operation = oper, StartTime = now, EndTime = 0,
                 sp_Duration = 0, Tags = tags, Logs = [], Status = (0, ''OK'')\<rparr>
               in (t\<lparr>activeSpans := (activeSpans t)(sid \<mapsto> sp)\<rparr>, Some sp)))"

definition tr_FinishSpan :: "string \<Rightarrow> time \<Rightarrow> OptimizedTracing \<Rightarrow> OptimizedTracing \<times> bool" where
  "tr_FinishSpan sid now t = (case activeSpans t sid of
     None \<Rightarrow> (t, False)
   | Some sp \<Rightarrow>
       (let (b, ok) = try_send (sp\<lparr>EndTime := now, sp_Duration := now - StartTime sp\<rparr>) (span_buffer t)
        in (t\<lparr>activeSpans := (activeSpans t)(sid := None), span_buffer := b\<rparr>, ok)))"

definition storeSpan :: "Span \<Rightarrow> OptimizedTracing \<Rightarrow> OptimizedTracing" where
  "storeSpan sp t = t\<lparr>spans := (spans t)(SpanID sp \<mapsto> sp)\<rparr>"

definition processSpans :: "bool \<Rightarrow> OptimizedTracing \<Rightarrow> OptimizedTracing option" where
  "processSpans stop t = (case recv (span_buffer t) of
     Handling sp \<Rightarrow> Some ((storeSpan sp t)\<lparr>span_buffer := (span_buffer t)\<lparr>recv := Looping\<rparr>\<rparr>)
   | _ \<Rightarrow> map_option (\<lambda>b. t\<lparr>span_buffer := b\<rparr>) (receive stop (span_buffer t)))"

definition performSpanCleanup :: "time \<Rightarrow> OptimizedTracing \<Rightarrow> OptimizedTracing" where
  "performSpanCleanup now t = (let cutoff = now - trace_timeout t
     in t\<lparr>spans := filter_map (\<lambda>_ sp. \<not> EndTime sp < cutoff) (spans t),
          activeSpans := filter_map (\<lambda>_ sp. \<not> StartTime sp < cutoff) (activeSpans t)\<rparr>)"

definition GetSpan :: "string \<Rightarrow> OptimizedTracing \<Rightarrow> Span option" where
  "GetSpan sid t = spans t sid"

section \<open>Alerts\<close>

text \<open>The identifier of an alert joins the metric and the time in seconds; it is kept as the pair.\<close>

record Alert =
  al_ID :: "string \<times> int"
  Metric :: string
  Threshold :: rat
  CurrentValue :: rat
  al_Severity :: string
  al_Timestamp :: time

record AlertManager =
  am_alerts :: "(string \<times> int) \<rightharpoonup> Alert"
  lastAlert :: "string \<rightharpoonup> time"
  am_config :: ObservabilitySettings

definition NewAlertManager :: "ObservabilitySettings \<Rightarrow> AlertManager" where
  "NewAlertManager cfg = \<lparr>am_alerts = Map.empty, lastAlert = Map.empty, am_config = cfg\<rparr>"

text \<open>\<^verbatim>\<open>getSeverity\<close>: for a value above a threshold 0 the quotient is infinite.\<close>

definition getSeverity :: "rat \<Rightarrow> rat \<Rightarrow> string" where
  "getSeverity th v =
     (if th = 0 then if v > 0 then ''critical'' else ''info''
      else if (v - th) / th > 1 / 2 then ''critical'' else if (v - th) / th > 2 / 10 then ''warning'' else ''info'')"

definition am_triggerAlert :: "string \<Rightarrow> rat \<Rightarrow> rat \<Rightarrow> time \<Rightarrow> AlertManager \<Rightarrow> AlertManager" where
  "am_triggerAlert me th v now am =
     (if (case lastAlert am me of Some t \<Rightarrow> now - t < os_AlertCooldown (am_config am) | None \<Rightarrow> False) then am
      else (let a = \<lparr>al_ID = (me, now div second), Metric = me, Threshold = th, CurrentValue = v,
                     al_Severity = getSeverity th v, al_Timestamp = now\<rparr>
            in am\<lparr>am_alerts := (am_alerts am)(al_ID a \<mapsto> a), lastAlert := (lastAlert am)(me \<mapsto> now)\<rparr>))"

definition CheckThreshold :: "string \<Rightarrow> rat \<Rightarrow> time \<Rightarrow> AlertManager \<Rightarrow> AlertManager" where
  "CheckThreshold me v now am =
     (if \<not> os_AlertingEnabled (am_config am) then am
      else case os_AlertThresholds (am_config am) me of None \<Rightarrow> am
        | Some th \<Rightarrow> if v > th then am_triggerAlert me th v now am else am)"

section \<open>Health\<close>

text \<open>The messages and the metadata of a check, texts for a reader, are left out.\<close>

record CheckResult =
  cr_Status :: string
  cr_Duration :: duration

record runtime =
  rt_Alloc :: int
  rt_TotalAlloc :: int
  rt_Sys :: int
  rt_HeapAlloc :: int
  rt_HeapSys :: int
  rt_NumGC :: int
  rt_PauseTotalNs :: int
  rt_NumGoroutine :: int
  rt_NumCPU :: int

record HealthStatus =
  hs_Status :: string
  hs_Timestamp :: time
  Checks :: "string \<rightharpoonup> CheckResult"
  Uptime :: duration
  Version :: string

record HealthChecker =
  checks :: "(string \<times> (runtime \<Rightarrow> CheckResult)) list"   \<comment> \<open>one per name, in any order\<close>
  lastStatus :: "HealthStatus option"
  startTime :: time

definition checkMemory :: "runtime \<Rightarrow> CheckResult" where
  "checkMemory rt = (let mb = rat_of_int (rt_Alloc rt) / 1024 / 1024
     in \<lparr>cr_Status = (if mb > 2000 then ''critical'' else if mb > 1000 then ''warning'' else ''healthy''), cr_Duration = 0\<rparr>)"

definition checkGoroutines :: "runtime \<Rightarrow> CheckResult" where
  "checkGoroutines rt =
     \<lparr>cr_Status = (if rt_NumGoroutine rt > 5000 then ''critical'' else if rt_NumGoroutine rt > 1000 then ''warning'' else ''healthy''), cr_Duration = 0\<rparr>"

definition RegisterCheck :: "string \<Rightarrow> (runtime \<Rightarrow> CheckResult) \<Rightarrow> HealthChecker \<Rightarrow> HealthChecker" where
  "RegisterCheck name c hc = hc\<lparr>checks := AList.update name c (checks hc)\<rparr>"

definition NewHealthChecker :: "time \<Rightarrow> HealthChecker" where
  "NewHealthChecker now = RegisterCheck ''goroutines'' checkGoroutines (RegisterCheck ''memory'' checkMemory
     \<lparr>checks = [], lastStatus = None, startTime = now\<rparr>)"

text \<open>\<open>took\<close> is the time each check takes.\<close>

definition PerformHealthCheck :: "runtime \<Rightarrow> (string \<Rightarrow> duration) \<Rightarrow> time \<Rightarrow> HealthChecker \<Rightarrow> HealthChecker \<times> HealthStatus" where
  "PerformHealthCheck rt took now hc =
     (let results = map (\<lambda>(n, c). (n, (c rt)\<lparr>cr_Duration := took n\<rparr>)) (checks hc);
          healthy = list_all (\<lambda>(n, r). cr_Status r = ''healthy'') results;
          st = \<lparr>hs_Status = (if healthy then ''healthy'' else ''unhealthy''), hs_Timestamp = now, Checks = map_of results,
                Uptime = now - startTime hc, Version = ''1.0.0''\<rparr>
      in (hc\<lparr>lastStatus := Some st\<rparr>, st))"

section \<open>The system\<close>

record Observability =
  ob_config :: ObservabilitySettings
  ob_metrics :: OptimizedMetrics
  tracing :: OptimizedTracing
  alertManager :: AlertManager
  healthChecker :: HealthChecker
  stopped :: bool

datatype start_error = ConfigMissing

text \<open>A monitor whose interval is not positive panics as it makes its ticker: the second component.\<close>

definition NewOptimizedObservability :: "time \<Rightarrow> ObservabilitySettings option \<Rightarrow> start_error + (Observability \<times> bool)" where
  "NewOptimizedObservability now c = (case c of None \<Rightarrow> Inl ConfigMissing
   | Some c \<Rightarrow> Inr (\<lparr>ob_config = c, ob_metrics = NewOptimizedMetrics c now, tracing = NewOptimizedTracing c,
        alertManager = NewAlertManager c, healthChecker = NewHealthChecker now, stopped = False\<rparr>,
       os_PerformanceEnabled c \<and> os_MetricsInterval c \<le> 0 \<or> os_HealthCheckEnabled c \<and> os_HealthCheckInterval c \<le> 0))"

definition RecordMetric :: "string \<Rightarrow> rat \<Rightarrow> (string \<rightharpoonup> string) \<Rightarrow> time \<Rightarrow> Observability \<Rightarrow> Observability" where
  "RecordMetric name v labels now ob =
     (if \<not> os_MetricsEnabled (ob_config ob) then ob
      else ob\<lparr>ob_metrics := fst (Record name v labels now (ob_metrics ob)), alertManager := CheckThreshold name v now (alertManager ob)\<rparr>)"

definition StartSpan :: "string \<Rightarrow> string \<Rightarrow> string \<Rightarrow> string \<Rightarrow> (string \<rightharpoonup> string) \<Rightarrow> time \<Rightarrow> Observability \<Rightarrow> Observability \<times> Span option" where
  "StartSpan tid sid pid oper tags now ob =
     (if \<not> os_TracingEnabled (ob_config ob) then (ob, None)
      else (let (t, sp) = tr_StartSpan tid sid pid oper tags now (tracing ob) in (ob\<lparr>tracing := t\<rparr>, sp)))"

definition FinishSpan :: "string \<Rightarrow> time \<Rightarrow> Observability \<Rightarrow> Observability" where
  "FinishSpan sid now ob = (if \<not> os_TracingEnabled (ob_config ob) then ob else ob\<lparr>tracing := fst (tr_FinishSpan sid now (tracing ob))\<rparr>)"

definition system_metrics :: "runtime \<Rightarrow> (string \<times> int) list" where
  "system_metrics rt = [(''memory.alloc'', rt_Alloc rt), (''memory.total_alloc'', rt_TotalAlloc rt), (''memory.sys'', rt_Sys rt),
     (''memory.heap_alloc'', rt_HeapAlloc rt), (''memory.heap_sys'', rt_HeapSys rt), (''gc.num_gc'', rt_NumGC rt),
     (''gc.pause_total_ns'', rt_PauseTotalNs rt), (''runtime.goroutines'', rt_NumGoroutine rt), (''runtime.num_cpu'', rt_NumCPU rt)]"

definition collectSystemMetrics :: "runtime \<Rightarrow> time \<Rightarrow> Observability \<Rightarrow> Observability" where
  "collectSystemMetrics rt now ob = fold (\<lambda>(n, v). RecordMetric n (of_int v) Map.empty now) (system_metrics rt) ob"

definition GetHealthStatus :: "runtime \<Rightarrow> (string \<Rightarrow> duration) \<Rightarrow> time \<Rightarrow> Observability \<Rightarrow> Observability \<times> HealthStatus" where
  "GetHealthStatus rt took now ob = (let (hc, st) = PerformHealthCheck rt took now (healthChecker ob) in (ob\<lparr>healthChecker := hc\<rparr>, st))"

definition GetMetrics :: "Observability \<Rightarrow> (string \<rightharpoonup> MetricSeries)" where
  "GetMetrics ob = GetAllMetrics (ob_metrics ob)"

definition GetAlerts :: "Observability \<Rightarrow> ((string \<times> int) \<rightharpoonup> Alert)" where
  "GetAlerts ob = am_alerts (alertManager ob)"

definition Stop :: "Observability \<Rightarrow> Observability" where
  "Stop ob = ob\<lparr>stopped := True\<rparr>"

section \<open>Sampling\<close>

text \<open>\<open>sampled n t\<close>: how many of the next \<open>n\<close> spans are sampled.\<close>

fun sampled :: "nat \<Rightarrow> OptimizedTracing \<Rightarrow> nat" where
  "sampled 0 t = 0"
| "sampled (Suc n) t = (let (t, s) = shouldSample t in (if s then 1 else 0) + sampled n t)"

lemma sampled_eq:
  "sampled n t = card {i \<in> {sampleCount t + 1..sampleCount t + int n}. of_int (i mod 100) / 100 < rate t}"
proof (induction n arbitrary: t)
  case (Suc n)
  define P where "P = (\<lambda>i. of_int (i mod 100) / 100 < rate t)"
  define S where "S = {i \<in> {sampleCount t + 2..sampleCount t + int (Suc n)}. P i}"
  have "S \<subseteq> {sampleCount t + 2..sampleCount t + int (Suc n)}" by (auto simp: S_def)
  then have S: "finite S" "sampleCount t + 1 \<notin> S" by (auto intro: finite_subset)
  have "{i \<in> {sampleCount t + 1..sampleCount t + int (Suc n)}. P i} = (if P (sampleCount t + 1) then insert (sampleCount t + 1) S else S)"
    by (auto simp: S_def le_less)
  moreover have "sampled n (t\<lparr>sampleCount := sampleCount t + 1\<rparr>) = card S"
    using Suc [of "t\<lparr>sampleCount := sampleCount t + 1\<rparr>"] by (simp add: S_def P_def algebra_simps)
  ultimately show ?case using S unfolding P_def [symmetric] by (simp add: shouldSample_def Let_def P_def)
qed simp

lemma residues_bij: "bij_betw (\<lambda>i. i mod 100) {a + 1..a + 100} {0..<100 :: int}"
proof -
  have inj: "inj_on (\<lambda>i. i mod 100) {a + 1..a + 100}"
  proof (rule inj_onI)
    fix x y assume xy: "x \<in> {a + 1..a + 100}" "y \<in> {a + 1..a + 100}" "x mod 100 = y mod 100"
    then have "100 dvd x - y" by (simp add: mod_eq_dvd_iff)
    moreover have "\<bar>x - y\<bar> < 100" using xy by auto
    ultimately show "x = y" using dvd_imp_le_int [of "x - y" 100] by auto
  qed
  have "(\<lambda>i. i mod 100) ` {a + 1..a + 100} = {0..<100}"
    using card_image [OF inj] by (intro card_subset_eq) auto
  then show ?thesis using inj by (simp add: bij_betw_def)
qed

lemma residues_below:
  assumes "0 \<le> r" "r \<le> 1"
  shows "card {j \<in> {0..<100 :: int}. rat_of_int j / 100 < r} = nat \<lceil>100 * r\<rceil>"
proof -
  define c where "c = \<lceil>100 * r\<rceil>"
  have iff: "rat_of_int j / 100 < r \<longleftrightarrow> j < c" for j
    unfolding c_def less_ceiling_iff by linarith
  have "c \<le> 100" unfolding c_def using assms by (simp add: ceiling_le_iff)
  then have "{j \<in> {0..<100 :: int}. rat_of_int j / 100 < r} = {0..<c}" unfolding iff by auto
  then show ?thesis by (simp add: c_def)
qed

text \<open>
  Sampling. For a rate between 0 and 1, of any 100 spans that are started one after the other
  exactly the percentage is sampled, rounded up.
\<close>

lemma sampling_is_exact:
  assumes "0 \<le> rate t" "rate t \<le> 1"
  shows "sampled 100 t = nat \<lceil>100 * rate t\<rceil>"
proof -
  define a where "a = sampleCount t"
  have img: "(\<lambda>i. i mod 100) ` {a + 1..a + 100} = {0..<100}" using bij_betw_imp_surj_on [OF residues_bij] .
  have "{j \<in> {0..<100}. of_int j / 100 < rate t} = (\<lambda>i. i mod 100) ` {i \<in> {a + 1..a + 100}. of_int (i mod 100) / 100 < rate t}"
    unfolding img [symmetric] by blast
  moreover have inj: "inj_on (\<lambda>i. i mod 100) {i \<in> {a + 1..a + 100}. of_int (i mod 100) / 100 < rate t}"
    using residues_bij [of a] by (auto simp: bij_betw_def intro: inj_on_subset)
  ultimately show ?thesis
    using residues_below [OF assms] card_image [OF inj] by (simp add: sampled_eq a_def)
qed

lemma sampling_is_exact_witness:
  "sampled 100 \<lparr>spans = Map.empty, activeSpans = Map.empty, span_buffer = new_channel 1000, rate = 15 / 100,
     trace_timeout = 0, sampleCount = 77\<rparr> = 15"
  using sampling_is_exact [of "\<lparr>spans = Map.empty, activeSpans = Map.empty, span_buffer = new_channel 1000, rate = 15 / 100,
     trace_timeout = 0, sampleCount = 77\<rparr>"] by simp

text \<open>Every span is sampled for itself: a child may be sampled where its parent is not.\<close>

lemma trace_is_broken:
  fixes t :: OptimizedTracing
  assumes "rate t = 1 / 10" "sampleCount t = 98"
  shows "snd (tr_StartSpan ''t'' ''parent'' [] ''op'' Map.empty now t) = None \<and>
    snd (tr_StartSpan ''t'' ''child'' ''parent'' ''op'' Map.empty now (fst (tr_StartSpan ''t'' ''parent'' [] ''op'' Map.empty now t))) \<noteq> None"
  using assms by (simp add: tr_StartSpan_def shouldSample_def Let_def)

section \<open>Metric points\<close>

datatype metric_op = Rec string rat "string \<rightharpoonup> string" time | Proc bool time | Clean time

text \<open>The state, the points that were accepted, in order, and the cutoffs of the cleanups.\<close>

type_synonym account = "OptimizedMetrics \<times> MetricPoint list \<times> time list"

fun metric_step :: "metric_op \<Rightarrow> account \<Rightarrow> account" where
  "metric_step (Rec name v labels now) (m, acc, cuts) =
     (case Record name v labels now m of (m', ok) \<Rightarrow>
        (m', if ok then acc @ [\<lparr>mp_Name = name, Value = v, mp_Timestamp = now, Labels = labels\<rparr>] else acc, cuts))"
| "metric_step (Proc stop now) (m, acc, cuts) = (case processMetrics stop now m of None \<Rightarrow> (m, acc, cuts) | Some m' \<Rightarrow> (m', acc, cuts))"
| "metric_step (Clean now) (m, acc, cuts) = (performCleanup now m, acc, (now - retention m) # cuts)"

definition points :: "string \<Rightarrow> OptimizedMetrics \<Rightarrow> MetricPoint list" where
  "points n m = (case series m n of None \<Rightarrow> [] | Some s \<Rightarrow> Points s)"

definition alive :: "time list \<Rightarrow> MetricPoint \<Rightarrow> bool" where
  "alive cuts p \<longleftrightarrow> (\<forall>c\<in>set cuts. mp_Timestamp p > c)"

definition accounted :: "account \<Rightarrow> bool" where
  "accounted a \<longleftrightarrow> (case a of (m, acc, cuts) \<Rightarrow> channel_ok (buffer m) \<and>
     (\<exists>stored. acc = stored @ held (buffer m) @ queue (buffer m) \<and>
       (\<forall>n. subseq (points n m) (filter (\<lambda>p. mp_Name p = n) stored) \<and>
            filter (alive cuts) (points n m) = filter (\<lambda>p. mp_Name p = n \<and> alive cuts p) stored)))"

lemma points_clean: "points n (performCleanup now m) = filter (\<lambda>p. mp_Timestamp p > now - retention m) (points n m)"
  by (auto simp: points_def performCleanup_def clean_series_def Let_def split: option.splits)

lemma points_store: "points n (storeMetric p now m) = (if mp_Name p = n then points n m @ [p] else points n m)"
  by (auto simp: points_def storeMetric_def Let_def split: option.splits)

lemma points_buffer [simp]: "points n (m\<lparr>buffer := b\<rparr>) = points n m"
  by (simp add: points_def)

lemma accounted_Rec:
  assumes "accounted (m, acc, cuts)"
  shows "accounted (metric_step (Rec name v labels now) (m, acc, cuts))"
proof -
  define x where "x = \<lparr>mp_Name = name, Value = v, mp_Timestamp = now, Labels = labels\<rparr>"
  obtain b ok where b: "try_send x (buffer m) = (b, ok)" by fastforce
  from assms obtain stored where st: "channel_ok (buffer m)" "acc = stored @ held (buffer m) @ queue (buffer m)"
    "\<forall>n. subseq (points n m) (filter (\<lambda>p. mp_Name p = n) stored) \<and>
       filter (alive cuts) (points n m) = filter (\<lambda>p. mp_Name p = n \<and> alive cuts p) stored"
    by (auto simp: accounted_def)
  have "held b @ queue b = held (buffer m) @ queue (buffer m) @ (if ok then [x] else [])"
    using try_send_contents [OF b] st(1) by (simp add: channel_ok_def)
  moreover have "channel_ok b" using channel_ok_intros(2) [OF st(1), of x] b by simp
  ultimately show ?thesis using st(2,3) b
    by (auto simp: accounted_def Record_def x_def [symmetric] intro!: exI [of _ stored])
qed

lemma accounted_Proc:
  assumes "accounted (m, acc, cuts)"
  shows "accounted (metric_step (Proc stop now) (m, acc, cuts))"
proof (cases "recv (buffer m)")
  case (Handling p)
  from assms obtain stored where st: "channel_ok (buffer m)" "acc = stored @ held (buffer m) @ queue (buffer m)"
    "\<forall>n. subseq (points n m) (filter (\<lambda>p. mp_Name p = n) stored) \<and>
       filter (alive cuts) (points n m) = filter (\<lambda>p. mp_Name p = n \<and> alive cuts p) stored"
    by (auto simp: accounted_def)
  then show ?thesis using Handling
    by (auto simp: accounted_def processMetrics_def points_store held_def channel_ok_intros intro!: exI [of _ "stored @ [p]"])
next
  case other: Waiting
  show ?thesis using assms other receive_contents [of stop "buffer m"] channel_ok_intros(3) [of "buffer m" stop]
    by (cases "receive stop (buffer m)") (auto simp: accounted_def processMetrics_def)
next
  case other: Looping
  show ?thesis using assms other receive_contents [of stop "buffer m"] channel_ok_intros(3) [of "buffer m" stop]
    by (cases "receive stop (buffer m)") (auto simp: accounted_def processMetrics_def)
next
  case Stopped
  then show ?thesis using assms by (simp add: processMetrics_def receive_def)
qed

lemma accounted_Clean:
  assumes "accounted (m, acc, cuts)"
  shows "accounted (metric_step (Clean now) (m, acc, cuts))"
proof -
  from assms obtain stored where st: "channel_ok (buffer m)" "acc = stored @ held (buffer m) @ queue (buffer m)"
    "\<And>n. subseq (points n m) (filter (\<lambda>p. mp_Name p = n) stored)"
    "\<And>n. filter (alive cuts) (points n m) = filter (\<lambda>p. mp_Name p = n \<and> alive cuts p) stored"
    by (auto simp: accounted_def)
  define c where "c = now - retention m"
  have "filter (alive (c # cuts)) (filter (\<lambda>p. c < mp_Timestamp p) (points n m)) =
      filter (\<lambda>p. mp_Name p = n \<and> alive (c # cuts) p) stored" for n
  proof -
    have "filter (alive (c # cuts)) (filter (\<lambda>p. c < mp_Timestamp p) (points n m)) =
        filter (\<lambda>p. c < mp_Timestamp p) (filter (alive cuts) (points n m))"
      by (auto simp: alive_def intro: filter_cong)
    then show ?thesis by (auto simp: st(4) alive_def intro: filter_cong)
  qed
  moreover have "subseq (filter (\<lambda>p. c < mp_Timestamp p) (points n m)) (filter (\<lambda>p. mp_Name p = n) stored)" for n
    using st(3) [of n] subseq_filter_left subseq_order.order_trans by blast
  moreover have "buffer (performCleanup now m) = buffer m" by (simp add: performCleanup_def)
  ultimately show ?thesis using st(1,2) by (auto simp: accounted_def points_clean c_def)
qed


section \<open>Alerts\<close>

text \<open>The times at which alerts of one metric are raised: those of the exceeding values, thinned by the cooldown.\<close>

fun thinned :: "duration \<Rightarrow> time option \<Rightarrow> time list \<Rightarrow> time list" where
  "thinned c l [] = []"
| "thinned c l (t # ts) = (if (case l of Some l \<Rightarrow> t - l < c | None \<Rightarrow> False) then thinned c l ts else t # thinned c (Some t) ts)"

definition last_raised :: "time option \<Rightarrow> time list \<Rightarrow> time option" where
  "last_raised l ts = (if ts = [] then l else Some (last ts))"

lemma thinned_snoc:
  "thinned c l (ts @ [t]) = thinned c l ts @
     (if (case last_raised l (thinned c l ts) of Some l \<Rightarrow> t - l < c | None \<Rightarrow> False) then [] else [t])"
proof (induction ts arbitrary: l)
  case (Cons a ts)
  have "last_raised l (a # thinned c (Some a) ts) = last_raised (Some a) (thinned c (Some a) ts)" by (simp add: last_raised_def)
  then show ?case using Cons by simp
qed (simp add: last_raised_def)

lemma thinned_spaced: "0 \<le> c \<Longrightarrow> sorted_wrt (\<lambda>s t. s + c \<le> t) (thinned c l ts)"
  and thinned_after: "0 \<le> c \<Longrightarrow> t \<in> set (thinned c (Some l0) ts) \<Longrightarrow> l0 + c \<le> t"
proof -
  show "0 \<le> c \<Longrightarrow> t \<in> set (thinned c (Some l0) ts) \<Longrightarrow> l0 + c \<le> t" for t l0 ts
    by (induction ts arbitrary: l0) (auto split: if_splits, force)
  then show "0 \<le> c \<Longrightarrow> sorted_wrt (\<lambda>s t. s + c \<le> t) (thinned c l ts)"
    by (induction ts arbitrary: l) (auto split: if_splits option.splits)
qed

definition exceeding :: "string \<Rightarrow> rat \<Rightarrow> (string \<times> rat \<times> time) list \<Rightarrow> time list" where
  "exceeding me th calls = map (\<lambda>(_, _, t). t) (filter (\<lambda>(n, v, _). n = me \<and> v > th) calls)"

definition check_all :: "(string \<times> rat \<times> time) list \<Rightarrow> AlertManager \<Rightarrow> AlertManager" where
  "check_all calls am = fold (\<lambda>(n, v, t). CheckThreshold n v t) calls am"

lemma check_all_snoc: "check_all (calls @ [(n, v, t)]) am = CheckThreshold n v t (check_all calls am)"
  by (simp add: check_all_def)

lemma CheckThreshold_config [simp]: "am_config (CheckThreshold n v t am) = am_config am"
  by (simp add: CheckThreshold_def am_triggerAlert_def Let_def split: option.splits)

lemma check_all_config [simp]: "am_config (check_all calls am) = am_config am"
  by (induction calls rule: rev_induct) (auto simp: check_all_snoc split_paired_all, simp add: check_all_def)

lemma exceeding_snoc: "exceeding me th (calls @ [(n, v, t)]) = exceeding me th calls @ (if n = me \<and> v > th then [t] else [])"
  by (simp add: exceeding_def)

definition raised_times :: "string \<Rightarrow> AlertManager \<Rightarrow> time set" where
  "raised_times me am = {al_Timestamp a | a k. am_alerts am k = Some a \<and> Metric a = me}"

definition alerts_inv :: "string \<Rightarrow> rat \<Rightarrow> (string \<times> rat \<times> time) list \<Rightarrow> AlertManager \<Rightarrow> bool" where
  "alerts_inv me th calls am \<longleftrightarrow>
     (let ts = thinned (os_AlertCooldown (am_config am)) None (exceeding me th calls)
      in lastAlert am me = last_raised None ts \<and>
         (\<forall>s a. am_alerts am (me, s) = Some a \<longrightarrow> s = al_Timestamp a div second \<and> al_Timestamp a \<in> set ts \<and> Threshold a = th \<and> th < CurrentValue a) \<and>
         (\<forall>t\<in>set ts. \<exists>a. am_alerts am (me, t div second) = Some a \<and> al_Timestamp a = t) \<and>
         (\<forall>k a. am_alerts am k = Some a \<longrightarrow> fst k = Metric a))"

lemma alerts_inv_key: "alerts_inv me th calls am \<Longrightarrow> am_alerts am k = Some a \<Longrightarrow> fst k = Metric a"
  unfolding alerts_inv_def Let_def by blast

lemma alerts_inv_cong:
  assumes "alerts_inv me th calls am" "am_config am' = am_config am" "lastAlert am' me = lastAlert am me"
    "\<And>s. am_alerts am' (me, s) = am_alerts am (me, s)" "\<And>k a. am_alerts am' k = Some a \<Longrightarrow> fst k = Metric a"
    "exceeding me th calls' = exceeding me th calls"
  shows "alerts_inv me th calls' am'"
  using assms unfolding alerts_inv_def Let_def by presburger

lemma last_raised_bound:
  assumes "0 \<le> c" "t' \<in> set (thinned c None ts)" "\<not> (case last_raised None (thinned c None ts) of Some l \<Rightarrow> t - l < c | None \<Rightarrow> False)"
  shows "t' + c \<le> t"
proof -
  let ?xs = "thinned c None ts"
  have "?xs \<noteq> []" using assms(2) by auto
  then have "last ?xs + c \<le> t" using assms(3) by (simp add: last_raised_def)
  moreover have "t' \<le> last ?xs"
  proof (cases "t' = last ?xs")
    case False
    obtain ys where ys: "?xs = ys @ [last ?xs]" using \<open>?xs \<noteq> []\<close> append_butlast_last_id by metis
    then have "t' \<in> set ys" using assms(2) False by (metis Un_iff empty_iff empty_set insert_iff list.simps(15) set_append)
    moreover have "sorted_wrt (\<lambda>s t. s + c \<le> t) (ys @ [last ?xs])" using thinned_spaced [OF assms(1), of None ts] ys by simp
    ultimately show ?thesis using assms(1) by (auto simp: sorted_wrt_append)
  qed simp
  ultimately show ?thesis by simp
qed

lemma later_second: "t' + c \<le> t \<Longrightarrow> second \<le> c \<Longrightarrow> t' div second < t div second"
  using zdiv_mono1 [of "t' + second" t second] by (simp add: second_def)

lemma alerts_inv_step:
  assumes inv: "alerts_inv me th calls am" and on: "os_AlertingEnabled (am_config am)"
    and th: "os_AlertThresholds (am_config am) me = Some th" and cool: "second \<le> os_AlertCooldown (am_config am)"
  shows "alerts_inv me th (calls @ [(n, v, t)]) (CheckThreshold n v t am)"
proof -
  define c where "c = os_AlertCooldown (am_config am)"
  define xs where "xs = thinned c None (exceeding me th calls)"
  have c: "0 \<le> c" "second \<le> c" using cool by (simp_all add: c_def second_def)
  have la: "lastAlert am me = last_raised None xs" using inv by (simp add: alerts_inv_def c_def xs_def Let_def)
  show ?thesis
  proof (cases "n = me \<and> th < v")
    case False
    then have "exceeding me th (calls @ [(n, v, t)]) = exceeding me th calls" by (auto simp: exceeding_snoc)
    moreover have "lastAlert (CheckThreshold n v t am) me = lastAlert am me"
      "\<And>s. am_alerts (CheckThreshold n v t am) (me, s) = am_alerts am (me, s)"
      using False th by (auto simp: CheckThreshold_def am_triggerAlert_def Let_def split: option.splits)
    moreover have "fst k = Metric a" if "am_alerts (CheckThreshold n v t am) k = Some a" for k a
      using alerts_inv_key [OF inv] that
      by (auto simp: CheckThreshold_def am_triggerAlert_def Let_def split: option.splits if_splits)
    ultimately show ?thesis by (intro alerts_inv_cong [OF inv]) auto
  next
    case True
    then have ex: "exceeding me th (calls @ [(me, v, t)]) = exceeding me th calls @ [t]" by (simp add: exceeding_snoc)
    let ?early = "case last_raised None xs of Some l \<Rightarrow> t - l < c | None \<Rightarrow> False"
    show ?thesis
    proof (cases ?early)
      case early: True
      then have "CheckThreshold n v t am = am"
        using True on th la unfolding c_def by (simp add: CheckThreshold_def am_triggerAlert_def)
      then show ?thesis using inv early True by (simp add: alerts_inv_def ex thinned_snoc Let_def c_def [symmetric] xs_def [symmetric])
    next
      case late: False
      define a where "a = \<lparr>al_ID = (me, t div second), Metric = me, Threshold = th, CurrentValue = v,
        al_Severity = getSeverity th v, al_Timestamp = t\<rparr>"
      have upd: "CheckThreshold me v t am = am\<lparr>am_alerts := (am_alerts am)((me, t div second) \<mapsto> a), lastAlert := (lastAlert am)(me \<mapsto> t)\<rparr>"
        using True on th la late unfolding c_def by (auto simp: CheckThreshold_def am_triggerAlert_def a_def Let_def)
      have new: "t' div second \<noteq> t div second" if "t' \<in> set xs" for t'
        using later_second [OF last_raised_bound [OF c(1) that [unfolded xs_def] late [unfolded xs_def]] c(2)] by simp
      have ts: "thinned c None (exceeding me th calls @ [t]) = xs @ [t]" using late by (simp add: thinned_snoc xs_def)
      note old = inv [unfolded alerts_inv_def c_def [symmetric] xs_def [symmetric] Let_def]
      have nm: "n = me" using True by simp
      show ?thesis unfolding alerts_inv_def Let_def CheckThreshold_config c_def [symmetric] ex ts nm
      proof (intro conjI allI impI ballI)
        show "lastAlert (CheckThreshold me v t am) me = last_raised None (xs @ [t])" by (simp add: upd last_raised_def)
        fix s b assume b: "am_alerts (CheckThreshold me v t am) (me, s) = Some b"
        then show "s = al_Timestamp b div second" "al_Timestamp b \<in> set (xs @ [t])" "Threshold b = th" "th < CurrentValue b"
          using old True unfolding upd by (auto simp: a_def split: if_splits)
      next
        fix t' assume "t' \<in> set (xs @ [t])"
        then show "\<exists>b. am_alerts (CheckThreshold me v t am) (me, t' div second) = Some b \<and> al_Timestamp b = t'"
          using old new [of t'] unfolding upd by (cases "t' = t") (auto simp: a_def)
      next
        fix k b assume "am_alerts (CheckThreshold me v t am) k = Some b"
        then show "fst k = Metric b" using alerts_inv_key [OF inv] unfolding upd by (auto simp: a_def split: if_splits)
      qed
    qed
  qed
qed


definition demo_settings :: ObservabilitySettings where
  "demo_settings = \<lparr>os_MetricsEnabled = True, os_MetricsInterval = second, os_MetricsRetention = minute, os_MetricsBufferSize = 2,
     os_TracingEnabled = True, os_SamplingRate = 1 / 10, os_MaxSpansPerTrace = 0, os_TraceTimeout = minute,
     os_PerformanceEnabled = False, os_ResourceMonitoring = False, os_HealthCheckEnabled = False, os_HealthCheckInterval = 0,
     os_AlertingEnabled = True, os_AlertThresholds = [''cpu'' \<mapsto> 80], os_AlertCooldown = minute\<rparr>"


text \<open>A channel of capacity 0 takes a point only from a receiver that waits.\<close>

lemma unbuffered_drops: "recv c \<noteq> Waiting \<Longrightarrow> capacity c = 0 \<Longrightarrow> try_send x c = (c, False)"
  by (simp add: try_send_def)

text \<open>The default configuration has no metrics interval: a performance monitor that is switched on panics.\<close>

lemma missing_interval_panics:
  assumes "os_PerformanceEnabled c" "os_MetricsInterval c = 0"
  shows "\<exists>ob. NewOptimizedObservability now (Some c) = Inr (ob, True)"
  using assms by (simp add: NewOptimizedObservability_def)

lemma negative_threshold_is_info: "th < 0 \<Longrightarrow> v > th \<Longrightarrow> getSeverity th v = ''info''"
  by (simp add: getSeverity_def divide_less_0_iff less_divide_eq mult_le_0_iff)

section \<open>Health\<close>

text \<open>The status is healthy exactly if every registered check is, and the last status is kept.\<close>

lemma PerformHealthCheck_iff:
  "hs_Status (snd (PerformHealthCheck rt took now hc)) = ''healthy'' \<longleftrightarrow> (\<forall>(n, c)\<in>set (checks hc). cr_Status (c rt) = ''healthy'')"
  by (auto simp: PerformHealthCheck_def Let_def list_all_iff split_beta)

lemma new_health_iff:
  "hs_Status (snd (PerformHealthCheck rt took now (NewHealthChecker start))) = ''healthy'' \<longleftrightarrow>
     rt_Alloc rt \<le> 1000 * 1024 * 1024 \<and> rt_NumGoroutine rt \<le> 1000"
proof -
  have "rat_of_int (rt_Alloc rt) / 1024 / 1024 \<le> 1000 \<longleftrightarrow> rt_Alloc rt \<le> 1000 * 1024 * 1024"
    using of_int_le_iff [of "rt_Alloc rt" "1000 * 1024 * 1024", where ?'a = rat] by (simp add: divide_le_eq)
  then show ?thesis
    by (auto simp: PerformHealthCheck_iff NewHealthChecker_def RegisterCheck_def checkMemory_def checkGoroutines_def Let_def)
qed

end
