(* ===== verification/Logger.thy ===== *)
theory Logger
  imports App_Config "HOL-Library.Multiset"
begin

text \<open>
  The logger of \<^verbatim>\<open>pkg/logger\<close>: levels (\<^verbatim>\<open>level.go\<close>), the files a record goes to
  (\<^verbatim>\<open>zap_logger.go\<close>), the asynchronous logger and the package functions (\<^verbatim>\<open>logger.go\<close>), and the
  logger over standard output (\<^verbatim>\<open>std_logger.go\<close>). The backend is a list of calls; formatting a message
  is the library's. The lemmas show where a record goes, that the asynchronous logger loses and
  duplicates nothing while the program runs, and what becomes of fatal messages.
\<close>

section \<open>Levels\<close>

type_synonym Level = int

definition TraceLevel :: Level where "TraceLevel = 0"
definition DebugLevel :: Level where "DebugLevel = 1"
definition InfoLevel :: Level where "InfoLevel = 2"
definition WarnLevel :: Level where "WarnLevel = 3"
definition ErrorLevel :: Level where "ErrorLevel = 4"
definition FatalLevel :: Level where "FatalLevel = 5"

lemmas level_defs = TraceLevel_def DebugLevel_def InfoLevel_def WarnLevel_def ErrorLevel_def FatalLevel_def

definition level_String :: "Level \<Rightarrow> string" where
  "level_String l = (if l = TraceLevel then ''trace'' else if l = DebugLevel then ''debug'' else if l = InfoLevel then ''info''
     else if l = WarnLevel then ''warn'' else if l = ErrorLevel then ''error'' else if l = FatalLevel then ''fatal'' else ''unknown'')"

text \<open>
  \<^verbatim>\<open>strings.ToLower\<close> as far as a comparison with ASCII text can tell: besides the ASCII letters, the
  dotted capital I (bytes C4 B0) and the Kelvin sign (E2 84 AA) become ASCII letters.
\<close>

definition ascii_lower :: "char \<Rightarrow> char" where
  "ascii_lower c = (if of_char c \<ge> (65 :: nat) \<and> of_char c \<le> (90 :: nat) then char_of (of_char c + 32 :: nat) else c)"

fun ToLower :: "string \<Rightarrow> string" where
  "ToLower [] = []"
| "ToLower (c # cs) =
     (if c = CHR 0xC4 \<and> take 1 cs = [CHR 0xB0] then CHR ''i'' # ToLower (drop 1 cs)
      else if c = CHR 0xE2 \<and> take 2 cs = [CHR 0x84, CHR 0xAA] then CHR ''k'' # ToLower (drop 2 cs)
      else ascii_lower c # ToLower cs)"

definition ParseLevel :: "string \<Rightarrow> Level" where
  "ParseLevel s = (let s = ToLower s in
     if s = ''trace'' then TraceLevel else if s = ''debug'' then DebugLevel else if s = ''info'' then InfoLevel
     else if s = ''warn'' \<or> s = ''warning'' then WarnLevel else if s = ''error'' then ErrorLevel
     else if s = ''fatal'' then FatalLevel else InfoLevel)"

text \<open>The levels of zap: debug is -1, fatal 5.\<close>

definition toZapLevel :: "Level \<Rightarrow> int" where
  "toZapLevel l = (if l = TraceLevel then - 1 else if l = DebugLevel then - 1 else if l = InfoLevel then 0
     else if l = WarnLevel then 1 else if l = ErrorLevel then 2 else if l = FatalLevel then 5 else 0)"

lemma ParseLevel_String: "0 \<le> l \<Longrightarrow> l \<le> 5 \<Longrightarrow> ParseLevel (level_String l) = l"
proof -
  assume "0 \<le> l" "l \<le> 5"
  then have "l \<in> {0, 1, 2, 3, 4, 5}" by auto
  then show ?thesis
    by (elim insertE) (simp_all add: level_String_def ParseLevel_def level_defs ascii_lower_def Let_def)
qed

lemma toZapLevel_mono: "0 \<le> l \<Longrightarrow> l \<le> l' \<Longrightarrow> l' \<le> 5 \<Longrightarrow> toZapLevel l \<le> toZapLevel l'"
  by (auto simp: toZapLevel_def level_defs)

section \<open>The files of the zap logger\<close>

record Config =
  LogDir :: string
  BaseName :: string
  Format :: string
  cfg_Level :: Level
  Compress :: bool
  TimeFormat :: string
  MaxSizeMB :: int
  MaxBackups :: int
  MaxAgeDays :: int
  EnableWarnFile :: bool
  EnableErrorFile :: bool

definition Clone :: "Config \<Rightarrow> Config" where
  "Clone c = \<lparr>LogDir = LogDir c, BaseName = BaseName c, Format = Format c, cfg_Level = cfg_Level c, Compress = Compress c,
     TimeFormat = TimeFormat c, MaxSizeMB = MaxSizeMB c, MaxBackups = MaxBackups c, MaxAgeDays = MaxAgeDays c,
     EnableWarnFile = EnableWarnFile c, EnableErrorFile = EnableErrorFile c\<rparr>"

text \<open>A core: the configuration its rolling writer is made from, the encoding, and the least level it takes.\<close>

datatype encoding = JSON | Console

record core =
  writer :: Config
  encoder :: encoding
  least :: int

text \<open>\<open>None\<close>: the error for a missing configuration.\<close>

definition NewZapLoggerWithConfig :: "Config option \<Rightarrow> core list option" where
  "NewZapLoggerWithConfig c = map_option (\<lambda>cfg.
     let enc = (if Format cfg = ''json'' then JSON else Console)
     in [\<lparr>writer = cfg, encoder = enc, least = toZapLevel (cfg_Level cfg)\<rparr>] @
        (if EnableWarnFile cfg then [\<lparr>writer = (Clone cfg)\<lparr>BaseName := BaseName (Clone cfg) @ ''-warn''\<rparr>, encoder = enc, least = 1\<rparr>] else []) @
        (if EnableErrorFile cfg then [\<lparr>writer = (Clone cfg)\<lparr>BaseName := BaseName (Clone cfg) @ ''-error''\<rparr>, encoder = enc, least = 2\<rparr>] else [])) c"

text \<open>The base names of the files a record of a level is written to.\<close>

definition written_to :: "core list \<Rightarrow> Level \<Rightarrow> string list" where
  "written_to cs l = map (\<lambda>c. BaseName (writer c)) (filter (\<lambda>c. toZapLevel l \<ge> least c) cs)"

text \<open>
  For the levels that are logged: the main file takes what is at or above the configured level, the
  warning and the error file take their levels whatever the configured one is.
\<close>

lemma written_to_files:
  assumes "NewZapLoggerWithConfig (Some cfg) = Some cs" "DebugLevel \<le> l" "l \<le> FatalLevel" "0 \<le> cfg_Level cfg" "cfg_Level cfg \<le> 5"
  shows "written_to cs l = (if l \<ge> cfg_Level cfg then [BaseName cfg] else []) @
    (if EnableWarnFile cfg \<and> l \<ge> WarnLevel then [BaseName cfg @ ''-warn''] else []) @
    (if EnableErrorFile cfg \<and> l \<ge> ErrorLevel then [BaseName cfg @ ''-error''] else [])"
proof -
  have "l \<in> {1, 2, 3, 4, 5}" "cfg_Level cfg \<in> {0, 1, 2, 3, 4, 5}" using assms(2-5) by (auto simp: level_defs)
  then show ?thesis using assms(1)
    by (elim insertE) (auto simp: NewZapLoggerWithConfig_def Let_def written_to_def Clone_def toZapLevel_def level_defs)
qed

section \<open>The asynchronous logger\<close>

record 'a LogEvent =
  ev_Level :: Level
  ev_Format :: string
  Args :: "'a list"
  IsFatal :: bool

datatype 'a call = Formatted Level string "'a list" | Plain Level "'a list"

definition acquireLogEvent :: "Level \<Rightarrow> string \<Rightarrow> 'a list \<Rightarrow> 'a LogEvent" where
  "acquireLogEvent l f as = \<lparr>ev_Level = l, ev_Format = f, Args = as, IsFatal = (l = FatalLevel)\<rparr>"

definition handleEvent :: "'a LogEvent \<Rightarrow> 'a call list" where
  "handleEvent e = (if ev_Level e \<in> {DebugLevel, InfoLevel, WarnLevel, ErrorLevel, FatalLevel}
     then [if ev_Format e \<noteq> [] then Formatted (ev_Level e) (ev_Format e) (Args e) else Plain (ev_Level e) (Args e)] else [])"

text \<open>
  Where the goroutine \<^verbatim>\<open>processEvents\<close> is, and where a caller of \<^verbatim>\<open>Fatal\<close> is: both take events from
  the channel, the caller in \<^verbatim>\<open>flushEvents\<close>.
\<close>

datatype 'a worker = Looping | Holding "'a LogEvent" | Flushing | FlushHolding "'a LogEvent" | Gone
datatype 'a caller = CallerFlush | CallerHolds "'a LogEvent" | CallerDone

record 'a AsyncLogger =
  channel :: "'a LogEvent list"
  size :: nat
  worker :: "'a worker"
  callers :: "'a caller list"
  stopped :: bool
  handled :: "'a LogEvent list"
  sent :: "'a LogEvent list"
  exited :: bool

definition NewAsyncLogger :: "int \<Rightarrow> 'a AsyncLogger" where
  "NewAsyncLogger n = \<lparr>channel = [], size = nat (if n \<le> 0 then 1000 else n), worker = Looping, callers = [],
     stopped = False, handled = [], sent = [], exited = False\<rparr>"

text \<open>\<open>None\<close>: the channel is full, the caller waits.\<close>

definition send :: "'a LogEvent \<Rightarrow> 'a AsyncLogger \<Rightarrow> 'a AsyncLogger option" where
  "send e l = (if length (channel l) < size l then Some (l\<lparr>channel := channel l @ [e], sent := sent l @ [e]\<rparr>) else None)"

text \<open>The calls for an event; the backends end the process when they have written a fatal message.\<close>

definition handle :: "'a LogEvent \<Rightarrow> 'a AsyncLogger \<Rightarrow> 'a AsyncLogger" where
  "handle e l = l\<lparr>handled := handled l @ [e], exited := (exited l \<or> ev_Level e = FatalLevel)\<rparr>"

definition backend :: "'a AsyncLogger \<Rightarrow> 'a call list" where
  "backend l = concat (map handleEvent (handled l))"

text \<open>One step of the goroutine; \<open>pick\<close>: the choice of \<^verbatim>\<open>select\<close> when both cases are ready.\<close>

definition processEvents :: "bool \<Rightarrow> 'a AsyncLogger \<Rightarrow> 'a AsyncLogger option" where
  "processEvents pick l = (case worker l of
     Looping \<Rightarrow> if stopped l \<and> pick then Some (l\<lparr>worker := Flushing\<rparr>)
       else (case channel l of [] \<Rightarrow> None | e # es \<Rightarrow> Some (l\<lparr>channel := es, worker := Holding e\<rparr>))
   | Holding e \<Rightarrow> Some (handle e (l\<lparr>worker := Looping\<rparr>))
   | Flushing \<Rightarrow> Some (case channel l of [] \<Rightarrow> l\<lparr>worker := Gone\<rparr> | e # es \<Rightarrow> l\<lparr>channel := es, worker := FlushHolding e\<rparr>)
   | FlushHolding e \<Rightarrow> Some (handle e (l\<lparr>worker := Flushing\<rparr>))
   | Gone \<Rightarrow> None)"

text \<open>A caller of \<^verbatim>\<open>Fatal\<close> after its send; when it returns, the package function exits the process.\<close>

definition flushEvents :: "nat \<Rightarrow> 'a AsyncLogger \<Rightarrow> 'a AsyncLogger option" where
  "flushEvents i l = (if length (callers l) \<le> i then None else case callers l ! i of
     CallerFlush \<Rightarrow> Some (case channel l of [] \<Rightarrow> l\<lparr>callers := (callers l)[i := CallerDone]\<rparr>
       | e # es \<Rightarrow> l\<lparr>channel := es, callers := (callers l)[i := CallerHolds e]\<rparr>)
   | CallerHolds e \<Rightarrow> Some (handle e (l\<lparr>callers := (callers l)[i := CallerFlush]\<rparr>))
   | CallerDone \<Rightarrow> Some (l\<lparr>exited := True\<rparr>))"

text \<open>\<open>None\<close>: closing a closed channel panics.\<close>

definition Stop :: "'a AsyncLogger \<Rightarrow> 'a AsyncLogger option" where
  "Stop l = (if stopped l then None else Some (l\<lparr>stopped := True\<rparr>))"

datatype 'a act = Log Level string "'a list" | Fatal string "'a list" | Work bool | Flush nat | StopCall

fun al_act :: "'a act \<Rightarrow> 'a AsyncLogger \<Rightarrow> 'a AsyncLogger option" where
  "al_act (Log lv f as) l = (if lv = FatalLevel then None else send (acquireLogEvent lv f as) l)"
| "al_act (Fatal f as) l = map_option (\<lambda>l. l\<lparr>callers := callers l @ [CallerFlush]\<rparr>) (send (acquireLogEvent FatalLevel f as) l)"
| "al_act (Work pick) l = processEvents pick l"
| "al_act (Flush i) l = flushEvents i l"
| "al_act StopCall l = Stop l"

inductive al_step :: "'a AsyncLogger \<Rightarrow> 'a AsyncLogger \<Rightarrow> bool" where
  al_step: "\<not> exited l \<Longrightarrow> al_act a l = Some l' \<Longrightarrow> al_step l l'"

inductive_cases al_stepE: "al_step l l'"

section \<open>Where the messages are\<close>

fun worker_held :: "'a worker \<Rightarrow> 'a LogEvent list" where
  "worker_held (Holding e) = [e]"
| "worker_held (FlushHolding e) = [e]"
| "worker_held _ = []"

fun caller_held :: "'a caller \<Rightarrow> 'a LogEvent list" where
  "caller_held (CallerHolds e) = [e]"
| "caller_held _ = []"

definition in_hands :: "'a AsyncLogger \<Rightarrow> 'a LogEvent list" where
  "in_hands l = worker_held (worker l) @ concat (map caller_held (callers l))"

definition al_inv :: "'a AsyncLogger \<Rightarrow> bool" where
  "al_inv l \<longleftrightarrow> mset (sent l) = mset (handled l @ in_hands l @ channel l) \<and> length (channel l) \<le> size l \<and>
     (callers l = [] \<longrightarrow> sent l = handled l @ in_hands l @ channel l)"

lemmas callers_upd = mset_concat_map_update[where f = caller_held]

lemma al_inv_New [inv_intros]: "al_inv (NewAsyncLogger n)"
  by (simp add: al_inv_def NewAsyncLogger_def in_hands_def)

lemma al_inv_send: "al_inv l \<Longrightarrow> send e l = Some l' \<Longrightarrow> al_inv l'"
  by (auto simp: al_inv_def send_def in_hands_def split: if_splits)

lemma al_inv_process: "al_inv l \<Longrightarrow> processEvents p l = Some l' \<Longrightarrow> al_inv l'"
  by (auto simp: al_inv_def processEvents_def handle_def in_hands_def split: worker.splits if_splits list.splits)

lemma al_inv_flush:
  assumes "al_inv l" "flushEvents i l = Some l'" shows "al_inv l'"
proof -
  have i: "i < length (callers l)" using assms(2) by (simp add: flushEvents_def split: if_splits)
  then have ne: "callers l \<noteq> []" by auto
  show ?thesis
  proof (cases "callers l ! i")
    case CallerFlush
    show ?thesis
    proof (cases "channel l")
      case Nil
      then show ?thesis using assms i ne CallerFlush callers_upd[OF i, of CallerDone]
        by (auto simp: flushEvents_def al_inv_def in_hands_def)
    next
      case (Cons e es)
      then show ?thesis using assms i ne CallerFlush callers_upd[OF i, of "CallerHolds e"]
        by (auto simp: flushEvents_def al_inv_def in_hands_def)
    qed
  next
    case (CallerHolds e)
    then have "mset (concat (map caller_held ((callers l)[i := CallerFlush]))) + {#e#} = mset (concat (map caller_held (callers l)))"
      using callers_upd[OF i, of CallerFlush] by simp
    from this[symmetric] show ?thesis using assms i ne CallerHolds
      by (auto simp: flushEvents_def al_inv_def in_hands_def handle_def)
  next
    case CallerDone
    with assms i show ?thesis by (auto simp: flushEvents_def al_inv_def in_hands_def)
  qed
qed

lemma al_inv_step [inv_intros]: assumes "al_step l l'" "al_inv l" shows "al_inv l'"
proof -
  obtain a where a: "al_act a l = Some l'" using assms(1) by (blast elim: al_stepE)
  show ?thesis
  proof (cases a)
    case (Log lv f as)
    with a assms(2) show ?thesis by (auto split: if_splits intro: al_inv_send)
  next
    case (Fatal f as)
    with a obtain l1 where "send (acquireLogEvent FatalLevel f as) l = Some l1" "l' = l1\<lparr>callers := callers l1 @ [CallerFlush]\<rparr>"
      by auto
    with al_inv_send[OF assms(2)] show ?thesis by (auto simp: al_inv_def in_hands_def)
  next
    case StopCall
    with a assms(2) show ?thesis by (auto simp: Stop_def al_inv_def in_hands_def split: if_splits)
  qed (use a assms(2) in \<open>auto intro: al_inv_process al_inv_flush\<close>)
qed

text \<open>
  C33. In every interleaving of loggers, callers of \<^verbatim>\<open>Fatal\<close>, the goroutine and \<^verbatim>\<open>Stop\<close>, each message
  sent is at the backend, in the hands of one goroutine or on the channel, exactly once; without a
  fatal message the backend gets the calls of the messages in the order in which they were sent.
\<close>

theorem async_logger_accounts:
  assumes "al_step\<^sup>*\<^sup>* (NewAsyncLogger n) l"
  shows "mset (sent l) = mset (handled l @ in_hands l @ channel l) \<and> length (channel l) \<le> size l \<and>
    (callers l = [] \<longrightarrow> concat (map handleEvent (sent l)) =
       backend l @ concat (map handleEvent (in_hands l)) @ concat (map handleEvent (channel l)))"
proof -
  from assms have "al_inv l" by induction (auto intro: inv_intros)
  then show ?thesis by (auto simp: al_inv_def backend_def)
qed

fun run_acts :: "'a act list \<Rightarrow> 'a AsyncLogger \<Rightarrow> 'a AsyncLogger option" where
  "run_acts [] l = Some l"
| "run_acts (a # as) l = (if exited l then None else Option.bind (al_act a l) (run_acts as))"

lemma run_acts_reach: "run_acts as l = Some l' \<Longrightarrow> al_step\<^sup>*\<^sup>* l l'"
proof (induction as arbitrary: l)
  case (Cons a as)
  from Cons.prems obtain l1 where "\<not> exited l" "al_act a l = Some l1" "run_acts as l1 = Some l'"
    by (auto split: if_splits Option.bind_splits)
  then show ?case using Cons.IH al_step.intros by (meson converse_rtranclp_into_rtranclp)
qed simp

lemmas al_simps = NewAsyncLogger_def send_def processEvents_def flushEvents_def Stop_def handle_def acquireLogEvent_def level_defs

theorem async_logger_accounts_witness:
  "\<exists>l :: nat AsyncLogger. run_acts [Log InfoLevel ''a'' [], Log WarnLevel ''b'' [7], Work False] (NewAsyncLogger 2) = Some l \<and>
     backend l @ concat (map handleEvent (in_hands l)) @ concat (map handleEvent (channel l)) =
       [Formatted InfoLevel ''a'' [], Formatted WarnLevel ''b'' [7]]"
proof -
  obtain l :: "nat AsyncLogger" where l: "run_acts [Log InfoLevel ''a'' [], Log WarnLevel ''b'' [7], Work False] (NewAsyncLogger 2) = Some l"
    "callers l = []" "sent l = [acquireLogEvent InfoLevel ''a'' [], acquireLogEvent WarnLevel ''b'' [7]]"
    by (simp add: al_simps)
  then show ?thesis using async_logger_accounts[OF run_acts_reach[OF l(1)]]
    by (simp add: handleEvent_def acquireLogEvent_def level_defs)
qed

text \<open>A fatal message can be lost: the goroutine takes it, and the caller finds nothing to flush and exits.\<close>

lemma fatal_message_lost:
  "\<exists>l :: nat AsyncLogger. al_step\<^sup>*\<^sup>* (NewAsyncLogger 10) l \<and> exited l \<and> sent l = [acquireLogEvent FatalLevel ''x'' []] \<and> backend l = []"
proof -
  obtain l :: "nat AsyncLogger" where l:
    "run_acts [Fatal ''x'' [], Work False, Flush 0, Flush 0] (NewAsyncLogger 10) = Some l"
    "exited l" "sent l = [acquireLogEvent FatalLevel ''x'' []]" "handled l = []"
    by (simp add: al_simps)
  then show ?thesis using run_acts_reach[OF l(1)] by (intro exI[of _ l]) (simp add: backend_def)
qed

text \<open>
  After \<^verbatim>\<open>Stop\<close> has returned messages are accepted until the channel is full, then every caller blocks;
  unless someone calls \<^verbatim>\<open>Fatal\<close> they never reach the backend.
\<close>

lemma after_Stop:
  assumes "al_step\<^sup>*\<^sup>* l l'" "worker l = Gone" "callers l = []" "callers l' = []"
  shows "backend l' = backend l \<and> worker l' = Gone"
proof -
  have grow: "length (callers l1) \<le> length (callers l2)" if st: "al_step l1 l2" for l1 l2 :: "'a AsyncLogger"
  proof -
    obtain a where "al_act a l1 = Some l2" using st by (blast elim: al_stepE)
    then show ?thesis
      by (cases a) (auto simp: send_def processEvents_def flushEvents_def handle_def Stop_def
        split: if_splits worker.splits caller.splits list.splits)
  qed
  from assms show ?thesis
  proof (induction rule: rtranclp_induct)
    case (step l1 l2)
    have "callers l1 = []" using grow[OF step.hyps(2)] step.prems(3) by simp
    with step have l1: "handled l1 = handled l1 \<and> backend l1 = backend l \<and> worker l1 = Gone" by blast
    obtain a where "al_act a l1 = Some l2" using step.hyps(2) by (blast elim: al_stepE)
    then have "handled l2 = handled l1 \<and> worker l2 = Gone" using l1 \<open>callers l1 = []\<close>
      by (cases a) (auto simp: send_def processEvents_def flushEvents_def Stop_def split: if_splits)
    with l1 show ?case by (simp add: backend_def)
  qed simp
qed

lemma second_Stop_panics: "stopped l \<Longrightarrow> Stop l = None"
  by (simp add: Stop_def)

section \<open>The package functions\<close>

record 'l log_package =
  loggers :: "'l list"
  once_done :: bool

datatype 'l sink = Printed | To 'l

definition no_loggers :: "'l log_package" where "no_loggers = \<lparr>loggers = [], once_done = False\<rparr>"

definition AddLogger :: "'l list \<Rightarrow> 'l log_package \<Rightarrow> 'l log_package" where
  "AddLogger ls p = (if ls \<noteq> [] \<and> \<not> once_done p then \<lparr>loggers = loggers p @ ls, once_done = True\<rparr> else p)"

text \<open>Where a call of \<^verbatim>\<open>Debug\<close>, \<^verbatim>\<open>Info\<close>, \<^verbatim>\<open>Warn\<close>, \<^verbatim>\<open>Error\<close> and their formatting variants goes, and one of \<^verbatim>\<open>Fatal\<close>.\<close>

definition pkg_log :: "'l log_package \<Rightarrow> 'l sink list" where
  "pkg_log p = (if length (loggers p) = 0 then [Printed] else map To (loggers p))"

text \<open>\<^verbatim>\<open>Fatalf\<close> compares with 9.\<close>

definition pkg_Fatalf :: "'l log_package \<Rightarrow> 'l sink list" where
  "pkg_Fatalf p = (if length (loggers p) = 9 then [Printed] else map To (loggers p))"

lemma Fatalf_drops_message: "pkg_Fatalf no_loggers = [] \<and> pkg_log no_loggers = [Printed]"
  by (simp add: pkg_Fatalf_def pkg_log_def no_loggers_def)

lemma only_first_AddLogger: "ls \<noteq> [] \<Longrightarrow> fold AddLogger (ls # lss) no_loggers = AddLogger ls no_loggers"
proof -
  have "once_done p \<Longrightarrow> fold AddLogger lss p = p" for p :: "'a log_package"
    by (induction lss) (simp_all add: AddLogger_def)
  then show "ls \<noteq> [] \<Longrightarrow> ?thesis" by (simp add: AddLogger_def)
qed

text \<open>
  \<^verbatim>\<open>InitDefaultLogger\<close>: \<open>V\<close> and \<open>v\<close> are the package's own viper instance. The logger that is added is the
  zap logger, behind an asynchronous one if \<^verbatim>\<open>logger.async\<close> is set.
\<close>

datatype logger_kind = ZapLogger "core list" | Async "core list" int

definition InitDefaultLogger ::
    "('v, 'f) viper \<Rightarrow> 'v \<Rightarrow> Config option \<Rightarrow> logger_kind log_package \<Rightarrow> logger_kind log_package option" where
  "InitDefaultLogger V v c p =
     (let cfg = (case c of Some cfg \<Rightarrow> cfg
          | None \<Rightarrow> \<lparr>LogDir = GetString V v ''logger.log_dir'', BaseName = GetString V v ''logger.base_name'',
              Format = GetString V v ''logger.format'', cfg_Level = GetInt V v ''logger.level'',
              Compress = GetBool V v ''logger.compress'', TimeFormat = GetString V v ''logger.time_format'',
              MaxSizeMB = GetInt V v ''logger.max_size_mb'', MaxBackups = GetInt V v ''logger.max_backups'',
              MaxAgeDays = GetInt V v ''logger.max_age_days'', EnableWarnFile = GetBool V v ''logger.enable_warn_file'',
              EnableErrorFile = GetBool V v ''logger.enable_error_file''\<rparr>)
      in map_option (\<lambda>cs. AddLogger [if GetBool V v ''logger.async'' then Async cs (GetInt V v ''logger.async_channel_size'')
                                      else ZapLogger cs] p) (NewZapLoggerWithConfig (Some cfg)))"

text \<open>
  The configuration manager makes a viper instance of its own, so that the package's has no value: the
  logger is never asynchronous.
\<close>

lemma never_async:
  assumes "viper_ok V" "\<And>k. \<not> IsSet V v k" "InitDefaultLogger V v c no_loggers = Some p"
  shows "\<exists>cs. loggers p = [ZapLogger cs]"
proof -
  have "\<not> GetBool V v ''logger.async''" using assms(1,2) by (simp add: viper_ok_def zero_at_def)
  with assms(3) show ?thesis by (auto simp: InitDefaultLogger_def Let_def AddLogger_def no_loggers_def)
qed

section \<open>The logger over standard output\<close>

definition std_prefix :: "Level \<Rightarrow> string" where
  "std_prefix l = (if l = DebugLevel then ''[DEBUG]'' else if l = InfoLevel then ''[INFO]'' else if l = WarnLevel then ''[WARN]''
     else if l = ErrorLevel then ''[ERROR]'' else ''[FATAL]'')"

text \<open>The format and the arguments given to \<^verbatim>\<open>Printf\<close>, or the operands given to \<^verbatim>\<open>Print\<close>, a string first.\<close>

definition std_Printf :: "Level \<Rightarrow> string \<Rightarrow> 'a list \<Rightarrow> string \<times> 'a list" where
  "std_Printf l f as = (std_prefix l @ '' '' @ f, as)"

definition std_Print :: "Level \<Rightarrow> 'a list \<Rightarrow> string \<times> 'a list" where
  "std_Print l as = (std_prefix l, as)"

end
