(* ===== verification/Control_Plane.thy ===== *)
theory Control_Plane
  imports Detector Reliability Goroutine_Pool Enhanced_Router Observability Processor_Manager Websocket_Handler Logger Mux_Errors
begin

text \<open>
  The control plane of \<^verbatim>\<open>core/control\<close> with the listener of \<^verbatim>\<open>core/listener/listener.go\<close> and the command
  line of \<^verbatim>\<open>cmd/muxcore/main.go\<close>: how the components of the other theories are built from the
  configuration and joined, how a connection goes from the socket through the pools and the detector
  to a handler, and how the plane is started and stopped. The detector serves one connection at a time.
  The lemmas show what becomes of the connections of a plane built from any configuration, and of a
  plane that is started again.
\<close>

section \<open>The listener\<close>

text \<open>Where an accept loop is: at its \<^verbatim>\<open>select\<close>, in \<^verbatim>\<open>Accept\<close>, or gone.\<close>

datatype loop_pc = AtSelect | InAccept | Exited

record Listener =
  li_addr :: string
  li_open :: bool
  li_cancelled :: bool
  li_loops :: "loop_pc list"

definition NewListener :: "string \<Rightarrow> Listener" where
  "NewListener addr = \<lparr>li_addr = addr, li_open = False, li_cancelled = False, li_loops = []\<rparr>"

text \<open>\<open>failed\<close>: the error of \<^verbatim>\<open>net.Listen\<close>, if any.\<close>

definition listener_Start :: "time \<Rightarrow> string option \<Rightarrow> Listener \<Rightarrow> MuxError + Listener" where
  "listener_Start now failed l = (case failed of
     Some e \<Rightarrow> Inl (WithContext (WithCause (Mux_Errors.New ErrCodeNetworkRefused CategoryNetwork LevelError
                 ''failed to start listener'' now) e) ''address'' (CtxString (li_addr l)))
   | None \<Rightarrow> Inr (l\<lparr>li_open := True, li_loops := li_loops l @ [AtSelect]\<rparr>))"

text \<open>\<^verbatim>\<open>Stop\<close> cancels and closes, and returns when every loop is gone.\<close>

definition listener_Stop :: "Listener \<Rightarrow> Listener" where
  "listener_Stop l = l\<lparr>li_cancelled := True, li_open := False\<rparr>"

definition loops_gone :: "Listener \<Rightarrow> bool" where
  "loops_gone l \<longleftrightarrow> (\<forall>p\<in>set (li_loops l). p = Exited)"

definition loop_select :: "nat \<Rightarrow> Listener \<Rightarrow> Listener" where
  "loop_select i l = l\<lparr>li_loops := (li_loops l)[i := if li_cancelled l then Exited else InAccept]\<rparr>"

definition loop_error :: "nat \<Rightarrow> Listener \<Rightarrow> Listener" where
  "loop_error i l = l\<lparr>li_loops := (li_loops l)[i := if li_cancelled l then Exited else AtSelect]\<rparr>"

section \<open>The plane\<close>

text \<open>
  How far a call of \<^verbatim>\<open>Stop\<close> is; it holds the mutex meanwhile. Connections are numbered as they are
  accepted: \<open>accepted\<close> has their identifiers, the sockets and the buffer sizes; a detection is the task of
  that number. \<open>handed\<close>: what handlers were given.
\<close>

datatype stop_pc = NoStop | WaitListener | WaitMonitor

record 'c Plane =
  cp_router :: OptimizedRouter
  cp_workers :: nat
  cp_router_cancelled :: bool
  cp_observability :: Observability
  cp_processors :: ProcessorManager
  cp_reliability :: ReliabilityManager
  cp_bus :: MessageBus
  cp_detector :: "nat ProtocolDetector"
  cp_connections :: ConnectionPool
  cp_goroutines :: SimplePool
  cp_listener :: Listener
  cp_cancelled :: bool
  cp_monitors :: nat
  cp_state :: string
  cp_stopping :: stop_pc
  accepted :: "(string \<times> 'c \<times> int) list"
  handed :: "(nat \<times> bytes) list"
  panicked :: bool

datatype plane_error = AlreadyRunning | NotRunning | StartListener MuxError

text \<open>Starting the router adds \<^verbatim>\<open>MaxConcurrency\<close> workers.\<close>

definition plane_Start :: "time \<Rightarrow> string option \<Rightarrow> 'c Plane \<Rightarrow> 'c Plane \<times> plane_error option" where
  "plane_Start now failed cp =
     (if cp_state cp = ''running'' then (cp, Some AlreadyRunning)
      else (let cp = cp\<lparr>cp_cancelled := False, cp_state := ''starting'',
                        cp_workers := cp_workers cp + nat (Enhanced_Router.MaxConcurrency (or_config (cp_router cp)))\<rparr>
        in case listener_Start now failed (cp_listener cp) of
             Inl e \<Rightarrow> (cp, Some (StartListener e))
           | Inr l \<Rightarrow> (cp\<lparr>cp_listener := l, cp_monitors := cp_monitors cp + 1, cp_state := ''running''\<rparr>, None)))"

definition Stop_begin :: "'c Plane \<Rightarrow> 'c Plane \<times> plane_error option" where
  "Stop_begin cp =
     (if cp_state cp \<noteq> ''running'' then (cp, Some NotRunning)
      else (cp\<lparr>cp_state := ''stopping'', cp_cancelled := True, cp_listener := listener_Stop (cp_listener cp),
               cp_stopping := WaitListener\<rparr>, None))"

definition Stop_components :: "'c Plane \<Rightarrow> 'c Plane" where
  "Stop_components cp = cp\<lparr>cp_router_cancelled := True, cp_observability := Observability.Stop (cp_observability cp),
     cp_stopping := WaitMonitor\<rparr>"

definition Stop_end :: "'c Plane \<Rightarrow> 'c Plane" where
  "Stop_end cp = cp\<lparr>cp_state := ''stopped'', cp_stopping := NoStop\<rparr>"

definition plane_performHealthCheck :: "time \<Rightarrow> 'c Plane \<Rightarrow> 'c Plane" where
  "plane_performHealthCheck now cp = cp\<lparr>cp_observability := RecordMetric ''health_check'' 1
     [''component'' \<mapsto> ''control_plane'', ''status'' \<mapsto> ''healthy''] now (cp_observability cp)\<rparr>"

section \<open>From the socket to a handler\<close>

text \<open>
  A buffer as a \<^verbatim>\<open>Get\<close> of the plane's buffer pool (4096 bytes, at most 1000 buffers) hands it out, in any
  interleaving of its users.
\<close>

definition pool_buffer :: "BytesBuffer \<Rightarrow> bool" where
  "pool_buffer b \<longleftrightarrow> (\<exists>threads s t c s' a. reachable 4096 1000 threads s \<and> Get_step t c s = Some s' \<and>
     a \<in> owned s' t \<and> a \<notin> owned s t \<and> b = heap s' a)"

text \<open>The body of the accept loop for a connection; the size is read off a buffer of the pool.\<close>

definition accept_conn :: "nat \<Rightarrow> BytesBuffer \<Rightarrow> string \<Rightarrow> 'c \<Rightarrow> SimplePool \<Rightarrow> 'c Plane \<Rightarrow> 'c Plane" where
  "accept_conn i b newID c gp cp = (case Bytes b of None \<Rightarrow> cp\<lparr>panicked := True\<rparr>
   | Some bs \<Rightarrow>
       (let (pool, cid) = Reliability.AddConnection newID (length (accepted cp)) (cp_connections cp);
            l = cp_listener cp
        in cp\<lparr>cp_connections := pool, cp_goroutines := gp, accepted := accepted cp @ [(cid, c, int (length bs))],
              cp_listener := l\<lparr>li_loops := (li_loops l)[i := AtSelect]\<rparr>\<rparr>))"

text \<open>What the detector's verdict does to the pool of connections.\<close>

definition after_detection :: "string \<Rightarrow> nat verdict \<Rightarrow> 'c Plane \<Rightarrow> 'c Plane" where
  "after_detection cid v cp = (case v of
     Handled h data \<Rightarrow> cp\<lparr>handed := handed cp @ [(h, data)]\<rparr>
   | _ \<Rightarrow> cp\<lparr>cp_connections := fst (Reliability.RemoveConnection cid (cp_connections cp))\<rparr>)"

definition detection :: "'c net_api \<Rightarrow> string \<Rightarrow> int \<Rightarrow> string list \<Rightarrow> BytesBuffer \<Rightarrow> nat \<Rightarrow> 'c Plane \<Rightarrow> 'c Plane" where
  "detection api ip port ks b t cp = (case accepted cp ! t of (cid, c, n) \<Rightarrow>
     (case DetectProtocol api ip port ks b (NewBufferedConn c n) (cp_detector cp) of
        None \<Rightarrow> cp\<lparr>panicked := True\<rparr>
      | Some (d, bc, b, v) \<Rightarrow> after_detection cid v (cp\<lparr>cp_detector := d\<rparr>)))"

text \<open>
  Steps of a plane: calls of \<^verbatim>\<open>Start\<close> and \<^verbatim>\<open>Stop\<close>, the accept loops, the goroutine pool (a worker takes a
  task, or a task is run to its end), and the monitor.
\<close>

inductive plane_step :: "'c net_api \<Rightarrow> 'c Plane \<Rightarrow> 'c Plane \<Rightarrow> bool" for api where
  start: "cp_stopping cp = NoStop \<Longrightarrow> plane_step api cp (fst (plane_Start now failed cp))"
| stop: "cp_stopping cp = NoStop \<Longrightarrow> plane_step api cp (fst (Stop_begin cp))"
| stop_listener: "cp_stopping cp = WaitListener \<Longrightarrow> loops_gone (cp_listener cp) \<Longrightarrow> plane_step api cp (Stop_components cp)"
| stop_end: "cp_stopping cp = WaitMonitor \<Longrightarrow> cp_monitors cp = 0 \<Longrightarrow> plane_step api cp (Stop_end cp)"
| select: "i < length (li_loops (cp_listener cp)) \<Longrightarrow> li_loops (cp_listener cp) ! i = AtSelect \<Longrightarrow>
    plane_step api cp (cp\<lparr>cp_listener := loop_select i (cp_listener cp)\<rparr>)"
| accept_error: "i < length (li_loops (cp_listener cp)) \<Longrightarrow> li_loops (cp_listener cp) ! i = InAccept \<Longrightarrow>
    plane_step api cp (cp\<lparr>cp_listener := loop_error i (cp_listener cp)\<rparr>)"
| accept: "i < length (li_loops (cp_listener cp)) \<Longrightarrow> li_loops (cp_listener cp) ! i = InAccept \<Longrightarrow>
    pool_buffer b \<Longrightarrow> newID \<notin> fst ` set (accepted cp) \<Longrightarrow> gp \<in> SimpleSubmit (length (accepted cp)) (cp_goroutines cp) \<Longrightarrow>
    plane_step api cp (accept_conn i b newID c gp cp)"
| take_task: "sp_step (cp_goroutines cp) gp \<Longrightarrow> length (sp_tasks gp) < length (sp_tasks (cp_goroutines cp)) \<Longrightarrow>
    plane_step api cp (cp\<lparr>cp_goroutines := gp\<rparr>)"
| run_task: "sp_step (cp_goroutines cp) gp \<Longrightarrow> sp_done gp = sp_done (cp_goroutines cp) @ [t] \<Longrightarrow> pool_buffer b \<Longrightarrow>
    plane_step api cp (detection api ip port ks b t (cp\<lparr>cp_goroutines := gp\<rparr>))"
| health_check: "0 < cp_monitors cp \<Longrightarrow> plane_step api cp (plane_performHealthCheck now cp)"
| monitor_exit: "0 < cp_monitors cp \<Longrightarrow> cp_cancelled cp \<Longrightarrow> plane_step api cp (cp\<lparr>cp_monitors := cp_monitors cp - 1\<rparr>)"

inductive_cases plane_stepE: "plane_step api cp cp'"

section \<open>Building\<close>

primrec strategy_number :: "App_Config.LoadBalanceStrategy \<Rightarrow> Load_Balancer.LoadBalanceStrategy" where
  "strategy_number LoadBalanceStrategyRoundRobin = RoundRobin"
| "strategy_number LoadBalanceStrategyWeightedRoundRobin = WeightedRoundRobin"
| "strategy_number LoadBalanceStrategyLeastConnections = LeastConnections"
| "strategy_number LoadBalanceStrategyLeastResponseTime = LeastResponseTime"
| "strategy_number LoadBalanceStrategyConsistentHash = ConsistentHashStrategy"

definition convertToRouterConfig :: "App_Config.OptimizedRouterConfig \<Rightarrow> Enhanced_Router.OptimizedRouterConfig" where
  "convertToRouterConfig c = \<lparr>
     Enhanced_Router.OptimizedRouterConfig.MaxConcurrency = orc_MaxConcurrency c,
     Enhanced_Router.OptimizedRouterConfig.RequestTimeout = orc_RequestTimeout c,
     Enhanced_Router.OptimizedRouterConfig.EnableLoadBalancing = orc_EnableLoadBalancing c,
     Enhanced_Router.OptimizedRouterConfig.EnableCaching = orc_EnableCaching c,
     Enhanced_Router.OptimizedRouterConfig.EnableFailover = orc_EnableFailover c,
     Enhanced_Router.OptimizedRouterConfig.EnableMetrics = orc_EnableMetrics c,
     Enhanced_Router.OptimizedRouterConfig.HealthCheckInterval = orc_HealthCheckInterval c,
     Enhanced_Router.OptimizedRouterConfig.CacheSize = orc_CacheSize c,
     Enhanced_Router.OptimizedRouterConfig.CacheTTL = orc_CacheTTL c,
     Enhanced_Router.OptimizedRouterConfig.cfg_LoadBalanceStrategy = strategy_number (orc_LoadBalanceStrategy c),
     Enhanced_Router.OptimizedRouterConfig.FailoverThreshold = orc_FailoverThreshold c,
     Enhanced_Router.OptimizedRouterConfig.MetricsInterval = orc_MetricsInterval c\<rparr>"

text \<open>The handlers are objects that two registries share: the numbers 0, 1 and 2.\<close>

definition register :: "bool \<Rightarrow> string \<Rightarrow> nat \<Rightarrow> 'c Plane \<Rightarrow> 'c Plane" where
  "register enabled p h cp = (if enabled
     then cp\<lparr>cp_processors := Processor_Manager.RegisterHandler p h (cp_processors cp),
             cp_detector := Detector.RegisterHandler p h (cp_detector cp)\<rparr> else cp)"

definition registerProtocolHandlers :: "ProtocolConfig \<Rightarrow> 'c Plane \<Rightarrow> 'c Plane" where
  "registerProtocolHandlers pc cp = register (wc_Enabled (pr_WebSocket pc)) ''websocket'' 2
     (register (gc_Enabled (pr_GRPC pc)) ''grpc'' 1 (register (hc_Enabled (pr_HTTP pc)) ''http'' 0 cp))"

text \<open>
  \<open>v\<close>: the configuration that was loaded; \<open>nodes_at\<close>: the memory the routes' nodes will be in. \<open>None\<close>: a
  panic, here or, with an interval that is not positive, in a goroutine that was started.
\<close>

definition Build :: "('v, 'f) viper \<Rightarrow> 'v \<Rightarrow> node_heap \<Rightarrow> time \<Rightarrow> 'c Plane option" where
  "Build V v nodes_at now =
     Option.bind (GetObservabilityConfig V v) (\<lambda>oc.
     Option.bind NewDetector (\<lambda>d.
     case NewOptimizedObservability now (Some oc) of
       Inl e \<Rightarrow> None
     | Inr (ob, bad) \<Rightarrow> if bad then None else
         (let gp = NewSimplePool (gp_Workers (po_Goroutine (GetPoolConfig V v))) (gp_QueueSize (po_Goroutine (GetPoolConfig V v)));
              cp = \<lparr>cp_router = NewOptimizedRouter (convertToRouterConfig (GetOptimizedRouterConfig V v)) nodes_at now,
                cp_workers = 0, cp_router_cancelled = False, cp_observability = ob,
                cp_processors = NewProcessorManager, cp_reliability = NewReliabilityManager, cp_bus = NewMessageBus,
                cp_detector = d, cp_connections = NewPool, cp_goroutines = gp,
                cp_listener = NewListener (sv_Address (GetServerConfig V v)),
                cp_cancelled = False, cp_monitors = 0, cp_state = [], cp_stopping = NoStop,
                accepted = [], handed = [], panicked = False\<rparr>
          in Some (registerProtocolHandlers (GetProtocolConfig V v) cp))))"

text \<open>\<^verbatim>\<open>initializeLoggerWithOverrides\<close>: \<open>V0\<close> and \<open>v0\<close> are the viper of the logger's package.\<close>

definition final_level :: "string \<Rightarrow> string \<Rightarrow> bool \<Rightarrow> string" where
  "final_level configured logLevel verbose =
     (let l = (if logLevel \<noteq> [] then logLevel else configured) in if verbose then ''debug'' else l)"

definition initializeLoggerWithOverrides ::
    "('v, 'f) viper \<Rightarrow> 'v \<Rightarrow> LoggerConfig \<Rightarrow> string \<Rightarrow> bool \<Rightarrow> logger_kind log_package \<Rightarrow> logger_kind log_package option" where
  "initializeLoggerWithOverrides V0 v0 lc logLevel verbose =
     InitDefaultLogger V0 v0 (Some \<lparr>LogDir = lg_LogDir lc, BaseName = lg_BaseName lc, Format = lg_Format lc,
       cfg_Level = ParseLevel (final_level (lg_Level lc) logLevel verbose), Compress = lg_Compress lc,
       TimeFormat = lg_TimeFormat lc, MaxSizeMB = lg_MaxSizeMB lc, MaxBackups = lg_MaxBackups lc,
       MaxAgeDays = lg_MaxAgeDays lc, EnableWarnFile = lg_EnableWarnFile lc, EnableErrorFile = lg_EnableErrorFile lc\<rparr>)"

text \<open>The default of the flag \<^verbatim>\<open>--log-level\<close> of the command line.\<close>

definition default_logLevel :: string where "default_logLevel = ''info''"

lemma configured_level_ignored: "final_level configured default_logLevel False = ''info''"
  by (simp add: final_level_def default_logLevel_def)

section \<open>The tasks of the goroutine pool\<close>

fun task_of :: "Goroutine_Pool.worker \<Rightarrow> nat list" where
  "task_of (Goroutine_Pool.Busy t) = [t]"
| "task_of _ = []"

definition sp_running :: "SimplePool \<Rightarrow> nat list" where
  "sp_running p = concat (map task_of (sp_workers p)) @ sp_temporary p"

definition sp_all :: "SimplePool \<Rightarrow> nat multiset" where
  "sp_all p = mset (sp_tasks p @ sp_running p @ sp_done p)"

lemma SimpleSubmit_all:
  assumes "gp \<in> SimpleSubmit t p" "\<not> sp_cancelled p"
  shows "sp_all gp = add_mset t (sp_all p) \<and> sp_done gp = sp_done p \<and> \<not> sp_cancelled gp"
  using assms by (auto simp: SimpleSubmit_def sp_all_def sp_running_def split: if_splits)

text \<open>Taking a task and running one to its end move one task.\<close>

lemma sp_step_all:
  assumes "sp_step p p'" "\<not> sp_cancelled p" "length (sp_tasks p') < length (sp_tasks p) \<or> length (sp_done p) < length (sp_done p')"
  shows "sp_all p' = sp_all p \<and> \<not> sp_cancelled p' \<and> (length (sp_tasks p') < length (sp_tasks p) \<longrightarrow> sp_done p' = sp_done p)"
  using assms
proof (induction rule: sp_step.induct)
  case (take i p u ts)
  with mset_concat_map_update[of i "sp_workers p" task_of "Busy u"] show ?case
    by (auto simp: sp_all_def sp_running_def)
next
  case (finish i p u)
  with mset_concat_map_update[of i "sp_workers p" task_of Goroutine_Pool.Waiting] show ?case
    by (auto simp: sp_all_def sp_running_def)
next
  case (submit p' u p)
  then show ?case by (auto simp: SimpleSubmit_def split: if_splits)
qed (auto simp: sp_all_def sp_running_def)

section \<open>Every connection is refused\<close>

lemma Get_hands_out: "Get_step t c s = Some s' \<Longrightarrow> a \<in> owned s' t \<Longrightarrow> a \<notin> owned s t \<Longrightarrow> \<exists>x. heap s' a = Reset x"
  by (cases "pcs s ! t") (auto simp: Get_step_def give_def set_pc_def Let_def split: option.splits if_splits)

lemma pool_buffer_clean: "pool_buffer b \<Longrightarrow> clean b"
  unfolding pool_buffer_def using Get_hands_out clean_Reset by metis

definition detector_idle :: "nat ProtocolDetector \<Rightarrow> bool" where
  "detector_idle d \<longleftrightarrow> portProtocolMap d = Map.empty \<and> handlers d ''unknown'' = None \<and>
     (0 < hashFunctionCount (bloomFilter d) \<longrightarrow> bitset (bloomFilter d) \<noteq> [])"

definition refusing :: "'c Plane \<Rightarrow> bool" where
  "refusing cp \<longleftrightarrow> detector_idle (cp_detector cp) \<and> handed cp = [] \<and> \<not> panicked cp \<and> \<not> sp_cancelled (cp_goroutines cp) \<and>
     distinct (map fst (accepted cp)) \<and> sp_all (cp_goroutines cp) = mset [0..<length (accepted cp)] \<and>
     dom (cp_connections cp) = {fst (accepted cp ! t) |t. t < length (accepted cp) \<and> t \<notin> set (sp_done (cp_goroutines cp))}"

lemma refusing_cong:
  "refusing cp \<Longrightarrow> cp_detector cp' = cp_detector cp \<Longrightarrow> handed cp' = handed cp \<Longrightarrow> panicked cp' = panicked cp \<Longrightarrow>
   cp_goroutines cp' = cp_goroutines cp \<Longrightarrow> accepted cp' = accepted cp \<Longrightarrow> cp_connections cp' = cp_connections cp \<Longrightarrow> refusing cp'"
  by (simp add: refusing_def)

lemma detection_refuses:
  assumes "detector_idle (cp_detector cp)" "clean b"
  shows "\<exists>v. detection api ip port ks b t cp = after_detection (fst (accepted cp ! t)) v cp \<and> (\<forall>h data. v \<noteq> Handled h data)"
proof -
  obtain cid c n where t: "accepted cp ! t = (cid, c, n)" by (cases "accepted cp ! t")
  have "\<exists>bc v b'. DetectProtocol api ip port ks b (NewBufferedConn c n) (cp_detector cp) = Some (cp_detector cp, bc, b', v) \<and>
      (case v of ReadFailed e \<Rightarrow> True | Rejected p \<Rightarrow> p = ''unknown'' \<and> handlers (cp_detector cp) ''unknown'' = None \<and> BufferedConn.closed bc
       | Handled h data \<Rightarrow> handlers (cp_detector cp) ''unknown'' = Some h \<and> data = [])"
    using assms unfolding detector_idle_def by (intro DetectProtocol_empty) auto
  then obtain bc v b' where
    d: "DetectProtocol api ip port ks b (NewBufferedConn c n) (cp_detector cp) = Some (cp_detector cp, bc, b', v)"
    "\<forall>h data. v = Handled h data \<longrightarrow> handlers (cp_detector cp) ''unknown'' = Some h" by fastforce
  moreover have "\<forall>h data. v \<noteq> Handled h data" using d(2) assms(1) by (auto simp: detector_idle_def)
  moreover have "cp\<lparr>cp_detector := cp_detector cp\<rparr> = cp" by simp
  ultimately show ?thesis by (intro exI[of _ v]) (simp add: detection_def t)
qed

lemma refusing_detection:
  assumes ref: "refusing cp" and step: "sp_step (cp_goroutines cp) gp" "sp_done gp = sp_done (cp_goroutines cp) @ [t]" and b: "pool_buffer b"
  shows "refusing (detection api ip port ks b t (cp\<lparr>cp_goroutines := gp\<rparr>))"
proof -
  let ?n = "length (accepted cp)" let ?cid = "fst (accepted cp ! t)"
  note r = ref[unfolded refusing_def]
  have all: "sp_all gp = mset [0..<?n]" "\<not> sp_cancelled gp" using sp_step_all[OF step(1)] step(2) r by auto
  have "mset (sp_tasks gp @ sp_running gp @ sp_done gp) = mset [0..<?n]" using all(1) by (simp only: sp_all_def)
  then have d: "distinct (sp_tasks gp @ sp_running gp @ sp_done gp)" "set (sp_tasks gp @ sp_running gp @ sp_done gp) = {0..<?n}"
    by (metis distinct_upt mset_eq_imp_distinct_iff, metis set_upt mset_eq_setD)
  then have t: "t < ?n" "t \<notin> set (sp_done (cp_goroutines cp))" using step(2) by auto
  have id: "fst (accepted cp ! u) = ?cid \<longleftrightarrow> u = t" if "u < ?n" for u
    using nth_eq_iff_index_eq[of "map fst (accepted cp)" u t] r that t(1) by simp
  obtain v where v: "detection api ip port ks b t (cp\<lparr>cp_goroutines := gp\<rparr>) = after_detection ?cid v (cp\<lparr>cp_goroutines := gp\<rparr>)"
    "\<forall>h data. v \<noteq> Handled h data"
    using detection_refuses[of "cp\<lparr>cp_goroutines := gp\<rparr>" b api ip port ks t] r pool_buffer_clean[OF b] by auto
  then have eq: "detection api ip port ks b t (cp\<lparr>cp_goroutines := gp\<rparr>) =
      cp\<lparr>cp_goroutines := gp, cp_connections := fst (Reliability.RemoveConnection ?cid (cp_connections cp))\<rparr>"
    by (cases v) (simp_all add: after_detection_def)
  have "dom (fst (Reliability.RemoveConnection ?cid (cp_connections cp))) = dom (cp_connections cp) - {?cid}"
    by (auto simp: Reliability.RemoveConnection_def split: option.splits if_splits)
  also have "\<dots> = {fst (accepted cp ! u) |u. u < ?n \<and> u \<notin> set (sp_done gp)}"
    using r id step(2) t(1) by auto
  finally show ?thesis unfolding eq using r all by (simp add: refusing_def)
qed

lemma refusing_accept:
  assumes ref: "refusing cp" and b: "pool_buffer b" and new: "newID \<notin> fst ` set (accepted cp)"
    and gp: "gp \<in> SimpleSubmit (length (accepted cp)) (cp_goroutines cp)"
  shows "refusing (accept_conn i b newID c gp cp)"
proof -
  let ?n = "length (accepted cp)"
  note r = ref[unfolded refusing_def]
  have "Bytes b = Some []" using pool_buffer_clean[OF b] by (simp add: clean_def Bytes_def)
  moreover have s: "sp_all gp = add_mset ?n (sp_all (cp_goroutines cp))" "sp_done gp = sp_done (cp_goroutines cp)" "\<not> sp_cancelled gp"
    using SimpleSubmit_all[OF gp] r by auto
  have "set (sp_done (cp_goroutines cp)) \<subseteq> {0..<?n}"
  proof -
    have "mset (sp_tasks (cp_goroutines cp) @ sp_running (cp_goroutines cp) @ sp_done (cp_goroutines cp)) = mset [0..<?n]"
      using r by (simp only: sp_all_def)
    from mset_eq_setD[OF this] show ?thesis by auto
  qed
  then have new_done: "?n \<notin> set (sp_done (cp_goroutines cp))" by auto
  have "{fst ((accepted cp @ [(newID, c, 0)]) ! t) |t. t < Suc ?n \<and> t \<notin> set (sp_done (cp_goroutines cp))} =
      insert newID {fst (accepted cp ! t) |t. t < ?n \<and> t \<notin> set (sp_done (cp_goroutines cp))}" (is "?A = insert newID ?B")
  proof (intro set_eqI iffI)
    fix x assume "x \<in> ?A"
    then obtain t where "x = fst ((accepted cp @ [(newID, c, 0)]) ! t)" "t < Suc ?n" "t \<notin> set (sp_done (cp_goroutines cp))" by blast
    then show "x \<in> insert newID ?B" by (cases "t < ?n") (auto simp: nth_append)
  next
    fix x assume x: "x \<in> insert newID ?B"
    show "x \<in> ?A"
    proof (cases "x = newID")
      case True
      with new_done show ?thesis by (auto intro!: exI[of _ ?n])
    next
      case False
      with x obtain t where "x = fst (accepted cp ! t)" "t < ?n" "t \<notin> set (sp_done (cp_goroutines cp))" by blast
      then show ?thesis by (auto simp: nth_append intro!: exI[of _ t])
    qed
  qed
  ultimately show ?thesis using r s new
    by (simp add: refusing_def accept_conn_def Reliability.AddConnection_def Let_def)
qed

lemma refusing_step: "plane_step api cp cp' \<Longrightarrow> refusing cp \<Longrightarrow> refusing cp'"
proof (induction rule: plane_step.induct)
  case (start cp now failed)
  then show ?case
    by (elim refusing_cong) (auto simp: plane_Start_def Let_def split: sum.split)
next
  case (take_task cp gp)
  then have "sp_all gp = sp_all (cp_goroutines cp) \<and> \<not> sp_cancelled gp \<and> sp_done gp = sp_done (cp_goroutines cp)"
    using sp_step_all[OF take_task.hyps(1)] by (simp add: refusing_def)
  with take_task show ?case by (simp add: refusing_def)
next
  case (accept i cp b newID gp c)
  then show ?case by (intro refusing_accept)
next
  case (run_task cp gp t b ip port ks)
  then show ?case by (intro refusing_detection)
qed (elim refusing_cong; simp add: Stop_begin_def Stop_components_def Stop_end_def plane_performHealthCheck_def)+

lemma NewDetector_idle: "\<exists>d :: 'h ProtocolDetector. NewDetector = Some d \<and> handlers d = Map.empty \<and> portProtocolMap d = Map.empty \<and>
    bitset (bloomFilter d) \<noteq> []"
proof -
  have "bitset bf \<noteq> [] \<Longrightarrow> \<exists>bf'. fold (\<lambda>s b. Option.bind b (bloom_Add s)) ss (Some bf) = Some bf' \<and> bitset bf' \<noteq> []" for ss bf
  proof (induction ss arbitrary: bf)
    case (Cons s ss)
    then obtain bf1 where b: "bloom_Add s bf = Some bf1" by (auto simp: bloom_Add_def)
    have "length (bitset bf1) = length (bitset bf)" using length_bloom_Add[OF b] by simp
    then have "bitset bf1 \<noteq> []" using Cons.prems by (metis length_0_conv)
    with Cons.IH b show ?case by simp
  qed simp
  from this[of "NewBloomFilter 1024 3" signatures] obtain bf where
    "preloadProtocolSignatures (NewBloomFilter 1024 3) = Some bf" "bitset bf \<noteq> []"
    by (auto simp: preloadProtocolSignatures_def NewBloomFilter_def)
  then show ?thesis by (simp add: NewDetector_def)
qed

lemma New_detector_idle:
  assumes "NewDetector = Some d" shows "handlers d = Map.empty \<and> detector_idle d"
proof -
  from NewDetector_idle obtain d' :: "nat ProtocolDetector" where
    d': "NewDetector = Some d'" "handlers d' = Map.empty" "portProtocolMap d' = Map.empty" "bitset (bloomFilter d') \<noteq> []" by blast
  from d'(1) assms have "d = d'" by (metis option.inject)
  with d' show ?thesis by (simp add: detector_idle_def)
qed

lemma NewSimplePool_tasks: "sp_all (NewSimplePool n q) = {#} \<and> \<not> sp_cancelled (NewSimplePool n q) \<and> sp_done (NewSimplePool n q) = []"
proof -
  have "concat (map task_of (replicate k Goroutine_Pool.Waiting)) = []" for k by (induction k) simp_all
  then show ?thesis by (simp add: sp_all_def sp_running_def NewSimplePool_def)
qed

lemma Build_refusing: "Build V v nodes_at now = Some cp \<Longrightarrow> refusing cp"
  using New_detector_idle NewSimplePool_tasks
  by (fastforce simp: Build_def Let_def refusing_def detector_idle_def registerProtocolHandlers_def register_def NewPool_def
    Detector.RegisterHandler_def split: Option.bind_splits sum.splits if_splits)


definition demo_settings :: "string \<rightharpoonup> setting" where
  "demo_settings = [''protocols.http.enabled'' \<mapsto> VBool True]"

lemma Build_init:
  "Build V v nodes_at now = Some cp \<Longrightarrow> cp_state cp = [] \<and> cp_stopping cp = NoStop \<and> cp_monitors cp = 0 \<and>
     li_loops (cp_listener cp) = [] \<and> \<not> li_cancelled (cp_listener cp) \<and> accepted cp = [] \<and>
     cp_goroutines cp = NewSimplePool (gp_Workers (po_Goroutine (GetPoolConfig V v))) (gp_QueueSize (po_Goroutine (GetPoolConfig V v)))"
  by (auto simp: Build_def Let_def registerProtocolHandlers_def register_def NewListener_def split: Option.bind_splits sum.splits if_splits)

lemma demo_Build: "\<exists>cp :: 'c Plane. Build two_layers (Map.empty, demo_settings) nodes_at now = Some cp \<and>
    handlers (cp_detector cp) ''http'' = Some 0"
proof -
  obtain d :: "nat ProtocolDetector" where d: "NewDetector = Some d" using NewDetector_idle by blast
  have "GetStringMap two_layers (Map.empty, demo_settings) ''observability.alerting_thresholds'' = []"
    "GetBool two_layers (Map.empty, demo_settings) ''observability.performance_enabled'' = False"
    "GetBool two_layers (Map.empty, demo_settings) ''observability.health_check_enabled'' = False"
    "GetBool two_layers (Map.empty, demo_settings) ''protocols.http.enabled'' = True"
    "GetBool two_layers (Map.empty, demo_settings) ''protocols.grpc.enabled'' = False"
    "GetBool two_layers (Map.empty, demo_settings) ''protocols.websocket.enabled'' = False"
    by (simp_all add: two_layers_def lookup_def demo_settings_def)
  then show ?thesis
    by (simp add: d Build_def GetObservabilityConfig_def NewOptimizedObservability_def registerProtocolHandlers_def
      GetProtocolConfig_def register_def Detector.RegisterHandler_def Let_def)
qed

definition silent_conn :: "nat net_api" where
  "silent_conn = \<lparr>conn_read = (\<lambda>n c. (c, [], Some ''EOF'')), conn_write = (\<lambda>bs c. (c, Inr (int (length bs)))), conn_close = (\<lambda>c. (c, None))\<rparr>"

lemma a_pool_buffer: "\<exists>b. pool_buffer b"
proof -
  obtain s where s: "run [AGet 0 None, AGet 0 None] (NewUnifiedBufferPool 4096 1000 1) = Some s" "pcs s ! 0 = GetSync"
    "owned s 0 = {}" by (simp add: run_simps)
  have "reachable 4096 1000 1 s" by (rule run_reachable[OF reach_init s(1)])
  moreover obtain s' where "Get_step 0 None s = Some s'" "next_buf s \<in> owned s' 0" using s(2) by (simp add: run_simps)
  moreover have "next_buf s \<notin> owned s 0" using s(3) by simp
  ultimately show ?thesis unfolding pool_buffer_def by blast
qed

text \<open>The first three steps of a plane: it starts, and accepts a connection.\<close>

lemma first_accept:
  assumes "Build V v nodes_at now = Some cp"
  shows "\<exists>cp'. (plane_step api)\<^sup>*\<^sup>* cp cp' \<and> map fst (accepted cp') = [''a''] \<and> sp_done (cp_goroutines cp') = []"
proof -
  from Build_init[OF assms] obtain n q where i: "cp_state cp = []" "cp_stopping cp = NoStop" "li_loops (cp_listener cp) = []"
    "\<not> li_cancelled (cp_listener cp)" "accepted cp = []" "cp_goroutines cp = NewSimplePool n q" by blast
  define s1 where "s1 = fst (plane_Start 0 None cp)"
  define s2 where "s2 = s1\<lparr>cp_listener := loop_select 0 (cp_listener s1)\<rparr>"
  have s1: "li_loops (cp_listener s1) = [AtSelect]" "\<not> li_cancelled (cp_listener s1)" "accepted s1 = []" "cp_goroutines s1 = NewSimplePool n q"
    using i by (simp_all add: s1_def plane_Start_def listener_Start_def Let_def)
  then have s2: "li_loops (cp_listener s2) = [InAccept]" "accepted s2 = []" "cp_goroutines s2 = NewSimplePool n q"
    by (simp_all add: s2_def loop_select_def)
  obtain b where b: "pool_buffer b" using a_pool_buffer by blast
  then have "Bytes b = Some []" using pool_buffer_clean by (simp add: clean_def Bytes_def)
  define gp where "gp = (NewSimplePool n q)\<lparr>sp_tasks := [0]\<rparr>"
  have gp: "gp \<in> SimpleSubmit 0 (NewSimplePool n q)" by (simp add: gp_def SimpleSubmit_def NewSimplePool_def)
  have "plane_step api cp s1" unfolding s1_def using i(2) by (rule plane_step.start)
  moreover have "plane_step api s1 s2" unfolding s2_def by (rule plane_step.select) (simp_all add: s1)
  moreover have "plane_step api s2 (accept_conn 0 b ''a'' undefined gp s2)"
    by (rule plane_step.accept) (use s2 b gp in simp_all)
  ultimately have "(plane_step api)\<^sup>*\<^sup>* cp (accept_conn 0 b ''a'' undefined gp s2)"
    by (meson converse_rtranclp_into_rtranclp rtranclp.rtrancl_refl)
  then show ?thesis using s2 \<open>Bytes b = Some []\<close>
    by (intro exI[of _ "accept_conn 0 b ''a'' undefined gp s2"])
      (simp add: accept_conn_def Reliability.AddConnection_def gp_def NewSimplePool_def Let_def)
qed


section \<open>A plane that is started again\<close>

definition deaf :: "Listener \<Rightarrow> bool" where
  "deaf l \<longleftrightarrow> li_cancelled l \<and> InAccept \<notin> set (li_loops l)"

lemma detection_frame:
  "cp_listener (detection api ip port ks b t cp) = cp_listener cp \<and> accepted (detection api ip port ks b t cp) = accepted cp \<and>
   cp_state (detection api ip port ks b t cp) = cp_state cp \<and> cp_stopping (detection api ip port ks b t cp) = cp_stopping cp"
  by (simp add: detection_def after_detection_def split: prod.split option.split verdict.split)

lemma deaf_loop: "deaf l \<Longrightarrow> deaf (loop_select i l)"
  by (auto simp: deaf_def loop_select_def dest: set_update_subset_insert[THEN subsetD])

lemma deaf_step: "plane_step api cp cp' \<Longrightarrow> deaf (cp_listener cp) \<Longrightarrow> deaf (cp_listener cp') \<and> accepted cp' = accepted cp"
proof (induction rule: plane_step.induct)
  case (start cp now failed)
  then show ?case by (auto simp: plane_Start_def listener_Start_def deaf_def Let_def split: option.split)
next
  case (run_task cp gp t b ip port ks)
  then show ?case by (simp add: detection_frame)
next
  case (select i cp)
  then show ?case by (simp add: deaf_loop)
next
  case (accept_error i cp)
  then show ?case using nth_mem[of i "li_loops (cp_listener cp)"] by (simp add: deaf_def)
next
  case (accept i cp b newID gp c)
  then show ?case using nth_mem[of i "li_loops (cp_listener cp)"] by (simp add: deaf_def)
qed (auto simp: Stop_begin_def Stop_components_def Stop_end_def plane_performHealthCheck_def listener_Stop_def deaf_def)

definition life_inv :: "'c Plane \<Rightarrow> bool" where
  "life_inv cp \<longleftrightarrow> (cp_stopping cp \<noteq> NoStop \<longrightarrow> cp_state cp = ''stopping'' \<and> li_cancelled (cp_listener cp)) \<and>
     (cp_stopping cp = WaitMonitor \<or> cp_state cp = ''stopped'' \<longrightarrow> deaf (cp_listener cp))"

lemma life_inv_step: "plane_step api cp cp' \<Longrightarrow> life_inv cp \<Longrightarrow> life_inv cp'"
proof (induction rule: plane_step.induct)
  case (start cp now failed)
  then show ?case by (auto simp: life_inv_def plane_Start_def Let_def split: sum.split)
next
  case (stop_listener cp)
  then show ?case by (auto simp: life_inv_def Stop_components_def deaf_def loops_gone_def)
next
  case (run_task cp gp t b ip port ks)
  then show ?case by (simp add: life_inv_def detection_frame)
next
  case (select i cp)
  then show ?case by (auto simp: life_inv_def deaf_loop) (simp_all add: loop_select_def)
next
  case (accept_error i cp)
  then show ?case using nth_mem[of i "li_loops (cp_listener cp)"] by (auto simp: life_inv_def deaf_def loop_error_def)
next
  case (accept i cp b newID gp c)
  then show ?case using nth_mem[of i "li_loops (cp_listener cp)"]
    by (auto simp: life_inv_def deaf_def accept_conn_def Let_def split: option.split prod.split)
qed (auto simp: life_inv_def Stop_begin_def Stop_end_def plane_performHealthCheck_def listener_Stop_def)

text \<open>
  C35. A plane that was stopped can be started again, without an error and with the state
  \<^verbatim>\<open>running\<close>; but it never accepts a connection any more: the context of its listener stays cancelled.
\<close>

theorem restarted_plane_accepts_nothing:
  assumes "Build V v nodes_at now = Some cp0" and "(plane_step api)\<^sup>*\<^sup>* cp0 cp" and "cp_state cp = ''stopped''"
    and "(plane_step api)\<^sup>*\<^sup>* cp cp'"
  shows "accepted cp' = accepted cp \<and> snd (plane_Start t None cp) = None \<and> cp_state (fst (plane_Start t None cp)) = ''running''"
proof -
  from assms(2) have "life_inv cp"
    by induction (use Build_init[OF assms(1)] life_inv_step in \<open>auto simp: life_inv_def\<close>)
  then have "deaf (cp_listener cp)" using assms(3) by (simp add: life_inv_def)
  with assms(4) have "deaf (cp_listener cp') \<and> accepted cp' = accepted cp"
    by induction (use deaf_step in \<open>fastforce+\<close>)
  then show ?thesis using assms(3) by (simp add: plane_Start_def listener_Start_def Let_def)
qed

lemma stopped_reachable:
  assumes "Build V v nodes_at now = Some cp"
  shows "\<exists>cp'. (plane_step api)\<^sup>*\<^sup>* cp cp' \<and> cp_state cp' = ''stopped''"
proof -
  from Build_init[OF assms] have i: "cp_state cp = []" "cp_stopping cp = NoStop" "li_loops (cp_listener cp) = []"
    "\<not> li_cancelled (cp_listener cp)" "cp_monitors cp = 0" by blast+
  define s1 where "s1 = fst (plane_Start 0 None cp)"
  define s2 where "s2 = fst (Stop_begin s1)"
  define s3 where "s3 = s2\<lparr>cp_listener := loop_select 0 (cp_listener s2)\<rparr>"
  define s4 where "s4 = Stop_components s3"
  define s5 where "s5 = s4\<lparr>cp_monitors := cp_monitors s4 - 1\<rparr>"
  have s1: "li_loops (cp_listener s1) = [AtSelect]" "cp_state s1 = ''running''" "cp_monitors s1 = 1" "cp_stopping s1 = NoStop"
    using i by (simp_all add: s1_def plane_Start_def listener_Start_def Let_def)
  have s2: "li_loops (cp_listener s2) = [AtSelect]" "li_cancelled (cp_listener s2)" "cp_monitors s2 = 1" "cp_stopping s2 = WaitListener" "cp_cancelled s2"
    using s1 by (simp_all add: s2_def Stop_begin_def listener_Stop_def)
  have s3: "loops_gone (cp_listener s3)" "cp_monitors s3 = 1" "cp_stopping s3 = WaitListener" "cp_cancelled s3"
    using s2 by (simp_all add: s3_def loop_select_def loops_gone_def)
  have s4: "cp_monitors s4 = 1" "cp_stopping s4 = WaitMonitor" "cp_cancelled s4" using s3 by (simp_all add: s4_def Stop_components_def)
  have "plane_step api cp s1" unfolding s1_def using i(2) by (rule plane_step.start)
  moreover have "plane_step api s1 s2" unfolding s2_def using s1(4) by (rule plane_step.stop)
  moreover have "plane_step api s2 s3" unfolding s3_def by (rule plane_step.select) (simp_all add: s2)
  moreover have "plane_step api s3 s4" unfolding s4_def using s3(3,1) by (rule plane_step.stop_listener)
  moreover have "plane_step api s4 s5" unfolding s5_def by (rule plane_step.monitor_exit) (simp_all add: s4)
  moreover have "plane_step api s5 (Stop_end s5)" by (rule plane_step.stop_end) (simp_all add: s5_def s4)
  ultimately have "(plane_step api)\<^sup>*\<^sup>* cp (Stop_end s5)"
    by (meson converse_rtranclp_into_rtranclp rtranclp.rtrancl_refl)
  then show ?thesis by (intro exI[of _ "Stop_end s5"]) (simp add: Stop_end_def)
qed

theorem restarted_plane_accepts_nothing_witness:
  "\<exists>cp0 cp. Build two_layers (Map.empty, demo_settings) (\<lambda>_. undefined) 0 = Some cp0 \<and> (plane_step silent_conn)\<^sup>*\<^sup>* cp0 cp \<and>
     cp_state cp = ''stopped'' \<and> cp_state (fst (plane_Start 1 None cp)) = ''running'' \<and>
     accepted (fst (plane_Start 1 None cp)) = accepted cp"
proof -
  obtain cp0 :: "nat Plane" where cp0: "Build two_layers (Map.empty, demo_settings) (\<lambda>_. undefined) 0 = Some cp0"
    using demo_Build by blast
  from stopped_reachable[OF cp0, of silent_conn] obtain cp where cp: "(plane_step silent_conn)\<^sup>*\<^sup>* cp0 cp"
    "cp_state cp = ''stopped''" by (elim exE conjE)
  have "life_inv cp" using cp(1) by induction (use Build_init[OF cp0] life_inv_step in \<open>auto simp: life_inv_def\<close>)
  then have "cp_stopping cp = NoStop" using cp(2) by (auto simp: life_inv_def)
  then have "(plane_step silent_conn)\<^sup>*\<^sup>* cp (fst (plane_Start 1 None cp))" by (blast intro: plane_step.start)
  from restarted_plane_accepts_nothing[OF cp0 cp this, of 1] cp0 cp show ?thesis
    by (intro exI[of _ cp0] exI[of _ cp]) simp
qed

text \<open>A start that fails at the listener has started the router; the next one starts its workers again.\<close>

lemma retry_doubles_workers:
  assumes "cp_state cp \<noteq> ''running''"
  shows "cp_workers (fst (plane_Start now' None (fst (plane_Start now (Some e) cp)))) =
      cp_workers cp + 2 * nat (Enhanced_Router.MaxConcurrency (or_config (cp_router cp))) \<and>
    snd (Stop_begin (fst (plane_Start now (Some e) cp))) = Some NotRunning"
  using assms by (simp add: plane_Start_def listener_Start_def Stop_begin_def Let_def)

end
