(* ===== verification/Protocol_Processor.thy ===== *)
theory Protocol_Processor
  imports Cache_Contract Complex_Main
begin

text \<open>
  The protocol processor of \<^verbatim>\<open>core/performance/performance_tuner.go\<close>: the cache of protocols, the
  tasks on their way through the batch, the queue and the workers, and the metrics. A task is the
  number of the call that made it. The lemmas show that the cache keeps the contract of
  \<open>Cache_Contract\<close> and when it is bounded, that no task is lost or duplicated, and what becomes of the
  processor when it is stopped and started again.
\<close>

section \<open>Configuration and data\<close>

record ProcessorConfig =
  MaxConcurrency :: int
  QueueSize :: int
  Timeout :: duration
  EnablePipelining :: bool
  EnableBatching :: bool
  BatchSize :: int
  BatchTimeout :: duration
  EnableCompression :: bool
  EnableCaching :: bool
  CacheSize :: int
  CacheTTL :: duration

definition defaultConfig :: "int \<Rightarrow> ProcessorConfig" where
  "defaultConfig cpus = \<lparr>MaxConcurrency = cpus * 2, QueueSize = 10000, Timeout = 30 * second, EnablePipelining = True,
     EnableBatching = True, BatchSize = 100, BatchTimeout = 10 * millisecond, EnableCompression = False,
     EnableCaching = True, CacheSize = 10000, CacheTTL = 5 * minute\<rparr>"

record ProcessingTask =
  ConnID :: string
  task_Protocol :: string
  Data :: string
  Handler :: nat
  StartTime :: time

record ProcessingResult =
  TaskID :: nat
  Success :: bool
  res_Latency :: duration
  BytesRead :: nat

record ProtocolCache =
  Protocol :: string
  Timestamp :: time
  HitCount :: nat

section \<open>The cache\<close>

type_synonym cache = "string \<rightharpoonup> ProtocolCache"

definition getCachedProtocol :: "duration \<Rightarrow> string \<Rightarrow> time \<Rightarrow> cache \<Rightarrow> ProtocolCache option" where
  "getCachedProtocol ttl key now m = (case m key of None \<Rightarrow> None
     | Some c \<Rightarrow> if now - Timestamp c > ttl then None else Some c)"

text \<open>The search for the oldest entry; \<open>ks\<close>: the keys in the order of \<^verbatim>\<open>range\<close>.\<close>

fun oldest :: "cache \<Rightarrow> string list \<Rightarrow> string \<times> time \<Rightarrow> string" where
  "oldest m [] best = fst best"
| "oldest m (k # ks) best = oldest m ks (case m k of None \<Rightarrow> best
     | Some c \<Rightarrow> if Timestamp c < snd best then (k, Timestamp c) else best)"

definition updateCache :: "int \<Rightarrow> string list \<Rightarrow> string \<Rightarrow> string \<Rightarrow> time \<Rightarrow> time \<Rightarrow> cache \<Rightarrow> cache" where
  "updateCache sz ks key protocol now now2 m =
     (let m = (if int (map_len m) \<ge> sz
               then (let k = oldest m ks ([], now) in if k \<noteq> [] then m(k := None) else m) else m)
      in m(key \<mapsto> \<lparr>Protocol = protocol, Timestamp = now2, HitCount = 0\<rparr>))"

definition cleanExpiredCache :: "duration \<Rightarrow> time \<Rightarrow> cache \<Rightarrow> cache" where
  "cleanExpiredCache ttl now m = filter_map (\<lambda>k c. \<not> now - Timestamp c > ttl) m"

definition cache_contents :: "duration \<Rightarrow> cache \<Rightarrow> (string \<rightharpoonup> string \<times> time)" where
  "cache_contents ttl m = (\<lambda>k. map_option (\<lambda>c. (Protocol c, Timestamp c + ttl)) (m k))"

datatype cache_op = CGet string time | CUpdate int "string list" string string time time | CClean time

fun cache_step :: "duration \<Rightarrow> cache_op \<Rightarrow> cache \<Rightarrow> (cache \<times> string option) option" where
  "cache_step ttl (CGet k now) m = Some (m, map_option Protocol (getCachedProtocol ttl k now m))"
| "cache_step ttl (CUpdate sz ks k p now now2) m = Some (updateCache sz ks k p now now2 m, None)"
| "cache_step ttl (CClean now) m = Some (cleanExpiredCache ttl now m, None)"

fun cache_spec :: "duration \<Rightarrow> cache_op \<Rightarrow> (string \<rightharpoonup> string \<times> time) \<Rightarrow> (string \<rightharpoonup> string \<times> time)" where
  "cache_spec ttl (CUpdate sz ks k p now now2) m = m(k \<mapsto> (p, now2 + ttl))"
| "cache_spec ttl _ m = m"

fun cache_query :: "cache_op \<Rightarrow> (string \<times> time) option" where
  "cache_query (CGet k now) = Some (k, now)"
| "cache_query _ = None"

interpretation pcache: lossy_cache "cache_step ttl" "\<lambda>_. True" "cache_contents ttl" "cache_spec ttl" cache_query "\<lambda>_. True"
  for ttl
proof
  fix m :: cache and op
  show "\<exists>m' r. cache_step ttl op m = Some (m', r) \<and> True \<and> cache_contents ttl m' \<subseteq>\<^sub>m cache_spec ttl op (cache_contents ttl m)"
    by (cases op) (auto simp: cache_contents_def updateCache_def cleanExpiredCache_def map_le_def Let_def filter_map_Some
      split: if_splits)
next
  fix m m' :: cache and op v assume "cache_step ttl op m = Some (m', Some v)"
  then show "\<exists>k now e. cache_query op = Some (k, now) \<and> cache_contents ttl m k = Some (v, e) \<and> now \<le> e"
    by (cases op) (auto simp: getCachedProtocol_def cache_contents_def split: option.splits if_splits)
next
  fix m m' :: "string \<rightharpoonup> string \<times> time" and op assume "m \<subseteq>\<^sub>m m'"
  then show "cache_spec ttl op m \<subseteq>\<^sub>m cache_spec ttl op m'" by (cases op) (auto simp: map_le_def)
qed

text \<open>
  With keys that are not empty, and entries older than the reading of the clock, the cache holds at
  most \<^verbatim>\<open>CacheSize\<close> entries (one, if that is less).
\<close>

lemma oldest_in:
  "set ks \<subseteq> dom m \<Longrightarrow> oldest m ks best \<in> dom m \<or> oldest m ks best = fst best \<and> (\<forall>k\<in>set ks. snd best \<le> Timestamp (the (m k)))"
proof (induction ks arbitrary: best)
  case (Cons k ks)
  then obtain c where c: "m k = Some c" by auto
  show ?case
  proof (cases "Timestamp c < snd best")
    case True
    with Cons.IH[of "(k, Timestamp c)"] Cons.prems c show ?thesis by auto
  next
    case False
    with Cons.IH[of best] Cons.prems c show ?thesis by auto
  qed
qed simp

lemma updateCache_bounded:
  fixes now2 :: time and p :: string
  assumes "finite (dom m)" "[] \<notin> dom m" "\<forall>c\<in>ran m. Timestamp c < now" "set ks = dom m"
    and "int (map_len m) \<le> max 1 sz" "key \<noteq> []"
  defines "m' \<equiv> updateCache sz ks key p now now2 m"
  shows "finite (dom m') \<and> [] \<notin> dom m' \<and> int (map_len m') \<le> max 1 sz"
proof (cases "int (map_len m) \<ge> sz")
  case False
  with assms map_len_upd_le[OF assms(1), of key "\<lparr>Protocol = p, Timestamp = now2, HitCount = 0\<rparr>"]
  show ?thesis by (auto simp: updateCache_def)
next
  case True
  let ?k = "oldest m ks ([], now)"
  define m1 where "m1 = (if ?k \<noteq> [] then m(?k := None) else m)"
  have m1: "m1 = Map.empty \<or> Suc (map_len m1) = map_len m"
  proof (cases "m = Map.empty")
    case True
    then show ?thesis using assms(4) by (simp add: m1_def)
  next
    case False
    then obtain k c where k: "m k = Some c" by (metis not_None_eq)
    then have "Timestamp c < now" using assms(3) by (auto simp: ran_def)
    moreover have "k \<in> set ks" using assms(4) k by auto
    ultimately have "?k \<in> dom m" using oldest_in[of ks m "([], now)"] assms(4) k by (metis domI eq_refl linorder_not_less option.sel snd_conv)
    moreover from this assms(2) have "?k \<noteq> []" by metis
    ultimately show ?thesis using map_len_del[OF assms(1)] by (simp add: m1_def)
  qed
  have fin: "finite (dom m1)" "[] \<notin> dom m1" using assms(1,2) by (auto simp: m1_def)
  have m': "m' = m1(key \<mapsto> \<lparr>Protocol = p, Timestamp = now2, HitCount = 0\<rparr>)"
    using True by (simp add: m'_def updateCache_def m1_def Let_def)
  have "int (map_len m') \<le> max 1 sz"
    using m1 map_len_upd_le[OF fin(1), of key "\<lparr>Protocol = p, Timestamp = now2, HitCount = 0\<rparr>"] assms(5) unfolding m' by auto
  then show ?thesis using fin assms(6) unfolding m' by auto
qed

text \<open>
  An entry under the empty key, which is that of a connection without initial data, is never evicted
  and, while it is the oldest, nothing else is: the cache grows without bound.
\<close>

lemma oldest_empty:
  assumes c: "m [] = Some c" and others: "\<And>k c'. m k = Some c' \<Longrightarrow> k \<noteq> [] \<Longrightarrow> Timestamp c < Timestamp c'"
  shows "best = ([], Timestamp c) \<or> snd best > Timestamp c \<and> [] \<in> set ks \<Longrightarrow> oldest m ks best = []"
proof (induction ks arbitrary: best)
  case (Cons k ks)
  let ?best = "case m k of None \<Rightarrow> best | Some c \<Rightarrow> if Timestamp c < snd best then (k, Timestamp c) else best"
  have "?best = ([], Timestamp c) \<or> snd ?best > Timestamp c \<and> [] \<in> set ks"
  proof (cases "k = []")
    case True
    then show ?thesis using Cons.prems c by auto
  next
    case False
    then show ?thesis using Cons.prems others[of k] by (cases "m k") auto
  qed
  then show ?case using Cons.IH[of ?best] by simp
qed auto

lemma empty_key_unbounded:
  fixes p :: string and sz :: int
  assumes ord: "\<And>m. finite (dom m) \<Longrightarrow> set (ord m) = dom m" and "distinct (map fst kts)" and "[] \<notin> fst ` set kts"
    and "\<forall>(k, t)\<in>set kts. 0 < t"
  defines "m \<equiv> fold (\<lambda>(k, t) m. updateCache sz (ord m) k p t t m) kts (updateCache sz (ord Map.empty) [] p 0 0 Map.empty)"
  shows "map_len m = Suc (length kts)"
proof -
  have "dom m = insert [] (fst ` set kts) \<and> (\<exists>c. m [] = Some c \<and> Timestamp c = 0) \<and>
      (\<forall>k c'. m k = Some c' \<and> k \<noteq> [] \<longrightarrow> 0 < Timestamp c')" if "\<forall>(k, t)\<in>set kts. 0 < t" "[] \<notin> fst ` set kts"
    unfolding m_def using that
  proof (induction kts rule: rev_induct)
    case Nil
    have "ord Map.empty = []" using ord[of Map.empty] by simp
    then have "updateCache sz (ord Map.empty) [] p 0 0 Map.empty = [[] \<mapsto> \<lparr>Protocol = p, Timestamp = 0, HitCount = 0\<rparr>]"
      by (simp add: updateCache_def)
    then show ?case by (auto simp: dom_def)
  next
    case (snoc kt kts)
    obtain k t where kt: "kt = (k, t)" by (cases kt)
    let ?m = "fold (\<lambda>(k, t) m. updateCache sz (ord m) k p t t m) kts (updateCache sz (ord Map.empty) [] p 0 0 Map.empty)"
    from snoc have m: "dom ?m = insert [] (fst ` set kts)" "\<And>k c'. ?m k = Some c' \<Longrightarrow> k \<noteq> [] \<Longrightarrow> 0 < Timestamp c'" by auto
    from snoc obtain c where c: "?m [] = Some c" "Timestamp c = 0" by auto
    have "oldest ?m (ord ?m) ([], t) = []"
      by (rule oldest_empty[of ?m, OF c(1)]) (use m ord[of ?m] c snoc.prems kt in auto)
    moreover define m2 where "m2 = ?m(k \<mapsto> \<lparr>Protocol = p, Timestamp = t, HitCount = 0\<rparr>)"
    ultimately have "updateCache sz (ord ?m) k p t t ?m = m2" by (simp add: updateCache_def)
    moreover have k: "k \<noteq> []" "0 < t" using snoc.prems kt by auto
    moreover have "dom m2 = insert [] (fst ` set (kts @ [kt]))" unfolding m2_def using m(1) kt by (simp add: insert_commute)
    moreover have "m2 [] = Some c" using c(1) k(1) by (simp add: m2_def)
    moreover have "\<forall>k' c'. m2 k' = Some c' \<and> k' \<noteq> [] \<longrightarrow> 0 < Timestamp c'" using m(2) k(2) by (auto simp: m2_def)
    ultimately show ?case using c(2) kt by simp
  qed
  then have "dom m = insert [] (fst ` set kts)" using assms(3,4) by blast
  moreover have "card (fst ` set kts) = length kts" using assms(2) by (metis distinct_card length_map list.set_map)
  ultimately show ?thesis using assms(3) by (simp add: map_len_def)
qed

section \<open>The processor\<close>

text \<open>
  A goroutine of a worker waits in its \<^verbatim>\<open>select\<close>, runs a task, or is gone. A task that does not fit
  into the queue when a batch is processed runs in a goroutine of its own (\<open>direct\<close>). \<open>results\<close>: what was
  sent on the channel of a task, which has room for one. \<open>waiting\<close>: the calls that wait for a result.
  \<open>ch_closed\<close>: the stop channels, of the processor and of every worker, are closed.
\<close>

datatype worker = Idle | Busy nat | Gone

record OptimizedMetrics =
  ProcessedRequests :: nat
  AverageLatency :: nat
  Throughput :: rat
  ErrorRate :: rat
  CPUUsage :: rat
  MemoryUsage :: nat
  ActiveConnections :: int
  QueueDepth :: nat
  CacheHitRate :: rat
  ProtocolParseTime :: nat
  met_Timestamp :: time

record OptimizedProtocolProcessor =
  config :: ProcessorConfig
  metrics :: OptimizedMetrics
  queue_cap :: nat
  pool_size :: nat
  taskQueue :: "nat list"
  batchQueue :: "nat list"
  workers :: "worker list"
  batchers :: nat
  direct :: "nat list"
  running :: bool
  ch_closed :: bool
  protocolCache :: cache
  totalRequests :: nat
  totalLatency :: nat
  totalErrors :: nat
  cacheHits :: nat
  cacheMisses :: nat
  parseTimeTotal :: nat
  activeConnections :: int
  tasks :: "ProcessingTask list"
  finished :: "nat list"
  dropped :: "nat list"
  results :: "nat \<rightharpoonup> ProcessingResult"
  waiting :: "nat list"

definition zero_metrics :: OptimizedMetrics where
  "zero_metrics = \<lparr>ProcessedRequests = 0, AverageLatency = 0, Throughput = 0, ErrorRate = 0, CPUUsage = 0, MemoryUsage = 0,
     ActiveConnections = 0, QueueDepth = 0, CacheHitRate = 0, ProtocolParseTime = 0, met_Timestamp = 0\<rparr>"

definition NewOptimizedProtocolProcessor :: "int \<Rightarrow> ProcessorConfig option \<Rightarrow> OptimizedProtocolProcessor" where
  "NewOptimizedProtocolProcessor cpus c = (let cfg = (case c of None \<Rightarrow> defaultConfig cpus | Some cfg \<Rightarrow> cfg) in
     \<lparr>config = cfg, metrics = zero_metrics, queue_cap = nat (QueueSize cfg), pool_size = nat (MaxConcurrency cfg),
      taskQueue = [], batchQueue = [], workers = [], batchers = 0, direct = [], running = False, ch_closed = False,
      protocolCache = Map.empty, totalRequests = 0, totalLatency = 0, totalErrors = 0, cacheHits = 0, cacheMisses = 0,
      parseTimeTotal = 0, activeConnections = 0, tasks = [], finished = [], dropped = [], results = Map.empty, waiting = []\<rparr>)"

definition Start :: "OptimizedProtocolProcessor \<Rightarrow> OptimizedProtocolProcessor" where
  "Start s = (if running s then s
     else s\<lparr>running := True, workers := workers s @ replicate (pool_size s) Idle,
            batchers := batchers s + (if EnableBatching (config s) then 1 else 0)\<rparr>)"

text \<open>\<open>None\<close>: a channel is closed twice and the processor panics.\<close>

definition Stop :: "OptimizedProtocolProcessor \<Rightarrow> OptimizedProtocolProcessor option" where
  "Stop s = (if \<not> running s then Some s else if ch_closed s then None else Some (s\<lparr>running := False, ch_closed := True\<rparr>))"

definition submitTask :: "nat \<Rightarrow> OptimizedProtocolProcessor \<Rightarrow> OptimizedProtocolProcessor" where
  "submitTask t s =
     (if length (taskQueue s) < queue_cap s then s\<lparr>taskQueue := taskQueue s @ [t]\<rparr>
      else s\<lparr>totalErrors := totalErrors s + 1, dropped := dropped s @ [t],
             results := (results s)(t \<mapsto> \<lparr>TaskID = t, Success = False, res_Latency = 0, BytesRead = 0\<rparr>)\<rparr>)"

definition enqueue_or_run :: "nat \<Rightarrow> OptimizedProtocolProcessor \<Rightarrow> OptimizedProtocolProcessor" where
  "enqueue_or_run t s =
     (if length (taskQueue s) < queue_cap s then s\<lparr>taskQueue := taskQueue s @ [t]\<rparr> else s\<lparr>direct := direct s @ [t]\<rparr>)"

definition processBatch :: "OptimizedProtocolProcessor \<Rightarrow> OptimizedProtocolProcessor" where
  "processBatch s = fold enqueue_or_run (batchQueue s) (s\<lparr>batchQueue := []\<rparr>)"

definition submitBatchTask :: "nat \<Rightarrow> OptimizedProtocolProcessor \<Rightarrow> OptimizedProtocolProcessor" where
  "submitBatchTask t s = (let s = s\<lparr>batchQueue := batchQueue s @ [t]\<rparr>
     in if int (length (batchQueue s)) \<ge> BatchSize (config s) then processBatch s else s)"

definition key_of :: "string \<Rightarrow> string" where
  "key_of data = take (min (length data) 64) data"

text \<open>
  \<^verbatim>\<open>ProcessConnection\<close> up to its wait; \<open>select\<close>: what the processor manager answers for a protocol.
\<close>

definition ProcessConnection ::
    "(string \<Rightarrow> nat option) \<Rightarrow> string \<Rightarrow> string \<Rightarrow> string \<Rightarrow> time \<Rightarrow> time \<Rightarrow> OptimizedProtocolProcessor \<Rightarrow> OptimizedProtocolProcessor" where
  "ProcessConnection select cid protocol data now now2 s =
     (if \<not> running s then s
      else (let s = s\<lparr>activeConnections := activeConnections s + 1\<rparr>;
                (s, protocol) = (if \<not> EnableCaching (config s) then (s, protocol)
                   else case getCachedProtocol (CacheTTL (config s)) (key_of data) now (protocolCache s) of
                     Some c \<Rightarrow> (s\<lparr>cacheHits := cacheHits s + 1,
                        protocolCache := (protocolCache s)(key_of data \<mapsto> c\<lparr>HitCount := HitCount c + 1\<rparr>)\<rparr>, Protocol c)
                   | None \<Rightarrow> (s\<lparr>cacheMisses := cacheMisses s + 1\<rparr>, protocol))
        in case select protocol of
             None \<Rightarrow> s\<lparr>totalErrors := totalErrors s + 1, activeConnections := activeConnections s - 1\<rparr>
           | Some h \<Rightarrow>
               (let t = length (tasks s);
                    s = s\<lparr>tasks := tasks s @ [\<lparr>ConnID = cid, task_Protocol = protocol, Data = data, Handler = h, StartTime = now2\<rparr>],
                          waiting := waiting s @ [t]\<rparr>
                in if EnableBatching (config s) then submitBatchTask t s else submitTask t s)))"

text \<open>The end of the wait: with the result, or after \<^verbatim>\<open>Timeout\<close>.\<close>

definition got_result :: "nat \<Rightarrow> OptimizedProtocolProcessor \<Rightarrow> OptimizedProtocolProcessor" where
  "got_result t s = s\<lparr>waiting := remove1 t (waiting s), activeConnections := activeConnections s - 1\<rparr>"

definition timed_out :: "nat \<Rightarrow> OptimizedProtocolProcessor \<Rightarrow> OptimizedProtocolProcessor" where
  "timed_out t s = (got_result t s)\<lparr>totalErrors := totalErrors s + 1\<rparr>"

text \<open>\<^verbatim>\<open>processTask\<close> after the handler returned, with its readings of the clock.\<close>

definition processTask ::
    "nat \<Rightarrow> string list \<Rightarrow> nat \<Rightarrow> nat \<Rightarrow> time \<Rightarrow> time \<Rightarrow> time \<Rightarrow> OptimizedProtocolProcessor \<Rightarrow> OptimizedProtocolProcessor" where
  "processTask t ks latency parse now now2 now3 s =
     (let task = tasks s ! t; s = s\<lparr>parseTimeTotal := parseTimeTotal s + parse\<rparr>;
          s = (if EnableCaching (config s)
               then s\<lparr>protocolCache := updateCache (CacheSize (config s)) ks (key_of (Data task)) (task_Protocol task) now now2 (protocolCache s)\<rparr>
               else s);
          s = (if results s t = None
               then s\<lparr>results := (results s)(t \<mapsto> \<lparr>TaskID = t, Success = True, res_Latency = now3 - StartTime task, BytesRead = length (Data task)\<rparr>)\<rparr>
               else s)
      in s\<lparr>totalRequests := totalRequests s + 1, totalLatency := totalLatency s + latency, finished := finished s @ [t]\<rparr>)"

definition ratio :: "nat \<Rightarrow> nat \<Rightarrow> rat" where
  "ratio a b = (if b > 0 then of_nat a / of_nat b else 0)"

text \<open>\<open>goroutines\<close>, \<open>cpus\<close> and \<open>alloc\<close>: what the runtime reports.\<close>

definition updateMetrics :: "nat \<Rightarrow> nat \<Rightarrow> nat \<Rightarrow> time \<Rightarrow> OptimizedProtocolProcessor \<Rightarrow> OptimizedProtocolProcessor" where
  "updateMetrics goroutines cpus alloc now s = s\<lparr>metrics :=
     \<lparr>ProcessedRequests = totalRequests s,
      AverageLatency = (if totalRequests s > 0 then totalLatency s div totalRequests s else 0),
      Throughput = of_nat (totalRequests s) / 60, ErrorRate = ratio (totalErrors s) (totalRequests s),
      CPUUsage = of_nat goroutines / of_nat cpus * 5, MemoryUsage = alloc, ActiveConnections = activeConnections s,
      QueueDepth = length (taskQueue s), CacheHitRate = ratio (cacheHits s) (cacheHits s + cacheMisses s),
      ProtocolParseTime = (if totalRequests s > 0 then parseTimeTotal s div totalRequests s else 0), met_Timestamp = now\<rparr>\<rparr>"

definition GetMetrics :: "OptimizedProtocolProcessor \<Rightarrow> OptimizedMetrics" where
  "GetMetrics s = metrics s"

definition GetCacheStats :: "OptimizedProtocolProcessor \<Rightarrow> nat \<times> nat \<times> nat \<times> rat" where
  "GetCacheStats s = (map_len (protocolCache s), cacheHits s, cacheMisses s, ratio (cacheHits s) (cacheHits s + cacheMisses s))"

definition UpdateConfig :: "ProcessorConfig \<Rightarrow> OptimizedProtocolProcessor \<Rightarrow> OptimizedProtocolProcessor" where
  "UpdateConfig cfg s = s\<lparr>config := cfg\<rparr>"

text \<open>
  One step of the goroutine of worker \<open>i\<close>: \<open>Take\<close>, \<open>Quit\<close> (its channel is closed, or it was told to stop) or
  the end of its task.
\<close>

inductive opp_step :: "OptimizedProtocolProcessor \<Rightarrow> OptimizedProtocolProcessor \<Rightarrow> bool" where
  start: "opp_step s (Start s)"
| stop: "Stop s = Some s' \<Longrightarrow> opp_step s s'"
| connection: "opp_step s (ProcessConnection sel cid pr data now now2 s)"
| result: "t \<in> set (waiting s) \<Longrightarrow> results s t \<noteq> None \<Longrightarrow> opp_step s (got_result t s)"
| timeout: "t \<in> set (waiting s) \<Longrightarrow> opp_step s (timed_out t s)"
| batch_tick: "0 < batchers s \<Longrightarrow> opp_step s (processBatch s)"
| batch_quit: "0 < batchers s \<Longrightarrow> ch_closed s \<Longrightarrow> opp_step s (s\<lparr>batchers := batchers s - 1\<rparr>)"
| work_take: "i < length (workers s) \<Longrightarrow> workers s ! i = Idle \<Longrightarrow> taskQueue s = t # ts \<Longrightarrow>
    opp_step s (s\<lparr>taskQueue := ts, workers := (workers s)[i := Busy t]\<rparr>)"
| work_done: "i < length (workers s) \<Longrightarrow> workers s ! i = Busy t \<Longrightarrow>
    opp_step s (processTask t ks lat parse now now2 now3 (s\<lparr>workers := (workers s)[i := Idle]\<rparr>))"
| work_quit: "i < length (workers s) \<Longrightarrow> workers s ! i = Idle \<Longrightarrow> ch_closed s \<Longrightarrow>
    opp_step s (s\<lparr>workers := (workers s)[i := Gone]\<rparr>)"
| direct_done: "t \<in> set (direct s) \<Longrightarrow>
    opp_step s (processTask t ks lat parse now now2 now3 (s\<lparr>direct := remove1 t (direct s)\<rparr>))"
| collect: "opp_step s (updateMetrics g c a now s)"
| clean: "opp_step s (s\<lparr>protocolCache := cleanExpiredCache (CacheTTL (config s)) now (protocolCache s)\<rparr>)"
| update_config: "opp_step s (UpdateConfig cfg s)"

section \<open>No task is lost\<close>

fun task_in :: "worker \<Rightarrow> nat list" where
  "task_in (Busy t) = [t]"
| "task_in _ = []"

definition in_work :: "OptimizedProtocolProcessor \<Rightarrow> nat list" where
  "in_work s = concat (map task_in (workers s)) @ direct s"

definition places :: "OptimizedProtocolProcessor \<Rightarrow> nat multiset" where
  "places s = mset (batchQueue s @ taskQueue s @ in_work s @ finished s @ dropped s)"

definition opp_inv :: "OptimizedProtocolProcessor \<Rightarrow> bool" where
  "opp_inv s \<longleftrightarrow> places s = mset [0..<length (tasks s)] \<and> length (taskQueue s) \<le> queue_cap s \<and>
     totalRequests s = length (finished s) \<and> activeConnections s = int (length (waiting s)) \<and>
     distinct (waiting s) \<and> set (waiting s) \<subseteq> {..<length (tasks s)} \<and> length (dropped s) \<le> totalErrors s \<and>
     dom (results s) = set (finished s) \<union> set (dropped s)"

lemmas inv_defs = opp_inv_def places_def in_work_def

lemma opp_inv_New [inv_intros]: "opp_inv (NewOptimizedProtocolProcessor cpus c)"
  by (simp add: inv_defs NewOptimizedProtocolProcessor_def Let_def)

lemma replicate_Idle: "concat (map task_in (replicate n Idle)) = []"
  by (induction n) simp_all

lemma opp_inv_counters [simp]:
  "opp_inv (s\<lparr>cacheHits := a\<rparr>) = opp_inv s"
  "opp_inv (s\<lparr>cacheMisses := a\<rparr>) = opp_inv s"
  "opp_inv (s\<lparr>protocolCache := m\<rparr>) = opp_inv s"
  by (simp_all add: inv_defs)

lemma opp_inv_Start: "opp_inv s \<Longrightarrow> opp_inv (Start s)"
  by (simp add: inv_defs Start_def replicate_Idle)

text \<open>Processing a batch moves its tasks to the queue, as far as there is room, and to goroutines of their own.\<close>

lemma enqueue_batch:
  "length (taskQueue s) \<le> queue_cap s \<Longrightarrow>
   \<exists>q d. fold enqueue_or_run ts s = s\<lparr>taskQueue := q, direct := d\<rparr> \<and> mset (q @ d) = mset (ts @ taskQueue s @ direct s) \<and>
     length q = min (queue_cap s) (length (taskQueue s) + length ts)"
proof (induction ts arbitrary: s)
  case Nil
  then show ?case by (intro exI[of _ "taskQueue s"] exI[of _ "direct s"]) simp
next
  case (Cons t ts)
  let ?s = "enqueue_or_run t s"
  have s: "length (taskQueue ?s) \<le> queue_cap ?s" "queue_cap ?s = queue_cap s"
    "?s = s\<lparr>taskQueue := taskQueue ?s, direct := direct ?s\<rparr>"
    "mset (taskQueue ?s @ direct ?s) = add_mset t (mset (taskQueue s @ direct s))"
    "min (queue_cap s) (length (taskQueue ?s) + length ts) = min (queue_cap s) (length (taskQueue s) + Suc (length ts))"
    using Cons.prems by (auto simp: enqueue_or_run_def)
  from Cons.IH[OF s(1)] obtain q d where
    qd: "fold enqueue_or_run ts ?s = ?s\<lparr>taskQueue := q, direct := d\<rparr>" "mset (q @ d) = mset (ts @ taskQueue ?s @ direct ?s)"
      "length q = min (queue_cap ?s) (length (taskQueue ?s) + length ts)" by blast
  have "?s\<lparr>taskQueue := q, direct := d\<rparr> = s\<lparr>taskQueue := q, direct := d\<rparr>" by (simp add: enqueue_or_run_def)
  moreover have "mset (q @ d) = mset ((t # ts) @ taskQueue s @ direct s)" using qd(2) s(4) by simp
  moreover have "length q = min (queue_cap s) (length (taskQueue s) + length (t # ts))" using qd(3) s(2,5) by simp
  ultimately show ?case using qd(1) by auto
qed

lemma opp_inv_batch: "opp_inv s \<Longrightarrow> opp_inv (processBatch s)"
proof -
  assume inv: "opp_inv s"
  then obtain q d where b: "fold enqueue_or_run (batchQueue s) (s\<lparr>batchQueue := []\<rparr>) = s\<lparr>batchQueue := [], taskQueue := q, direct := d\<rparr>"
    "mset (q @ d) = mset (batchQueue s @ taskQueue s @ direct s)" "length q \<le> queue_cap s"
    using enqueue_batch[of "s\<lparr>batchQueue := []\<rparr>" "batchQueue s"] by (auto simp: opp_inv_def)
  have "places (s\<lparr>batchQueue := [], taskQueue := q, direct := d\<rparr>) = places s"
    using b(2) by (simp add: places_def in_work_def ac_simps)
  with inv b show ?thesis by (simp add: processBatch_def opp_inv_def)
qed

text \<open>The invariant without the task that is submitted.\<close>

lemma opp_inv_connection: assumes "opp_inv s" shows "opp_inv (ProcessConnection sel cid pr data now now2 s)"
proof (cases "running s")
  case False
  with assms show ?thesis by (simp add: ProcessConnection_def)
next
  case True
  define s0 where "s0 = s\<lparr>activeConnections := activeConnections s + 1\<rparr>"
  define s1p where "s1p = (if \<not> EnableCaching (config s0) then (s0, pr)
      else case getCachedProtocol (CacheTTL (config s0)) (key_of data) now (protocolCache s0) of
        Some c \<Rightarrow> (s0\<lparr>cacheHits := cacheHits s0 + 1, protocolCache := (protocolCache s0)(key_of data \<mapsto> c\<lparr>HitCount := HitCount c + 1\<rparr>)\<rparr>, Protocol c)
      | None \<Rightarrow> (s0\<lparr>cacheMisses := cacheMisses s0 + 1\<rparr>, pr))"
  obtain s1 p where s1p: "s1p = (s1, p)" by (cases s1p)
  have s1: "opp_inv (s1\<lparr>activeConnections := activeConnections s1 - 1\<rparr>)"
    using assms s1p by (auto simp: s1p_def s0_def split: if_splits option.splits)
  let ?t = "length (tasks s1)"
  let ?task = "\<lambda>h. \<lparr>ConnID = cid, task_Protocol = p, Data = data, Handler = h, StartTime = now2\<rparr>"
  let ?s2 = "\<lambda>h. s1\<lparr>tasks := tasks s1 @ [?task h], waiting := waiting s1 @ [?t]\<rparr>"
  have eq: "ProcessConnection sel cid pr data now now2 s = (case sel p of
      None \<Rightarrow> s1\<lparr>totalErrors := totalErrors s1 + 1, activeConnections := activeConnections s1 - 1\<rparr>
    | Some h \<Rightarrow> if EnableBatching (config s1) then submitBatchTask ?t (?s2 h) else submitTask ?t (?s2 h))"
    unfolding ProcessConnection_def using True
    by (simp only: if_False Let_def s0_def[symmetric] s1p_def[symmetric] s1p prod.case not_True_eq_False simp_thms)
      (simp split: option.split)
  have fresh: "?t \<notin> set (waiting s1)" using s1 by (auto simp: opp_inv_def)
  have batched: "opp_inv ((?s2 h)\<lparr>batchQueue := batchQueue s1 @ [?t]\<rparr>)" for h
    using s1 fresh by (simp add: inv_defs lessThan_Suc subset_insertI2 del: mset_upt)
  have "opp_inv (submitBatchTask ?t (?s2 h))" for h
    using batched[of h] opp_inv_batch[OF batched[of h]] by (simp add: submitBatchTask_def Let_def)
  moreover have "opp_inv (submitTask ?t (?s2 h))" for h
    using s1 fresh by (simp add: submitTask_def inv_defs lessThan_Suc subset_insertI2 insert_commute del: mset_upt)
  moreover have "opp_inv (s1\<lparr>totalErrors := totalErrors s1 + 1, activeConnections := activeConnections s1 - 1\<rparr>)"
    using s1 by (simp add: inv_defs)
  ultimately show ?thesis unfolding eq by (simp split: option.split)
qed

lemma opp_inv_Stop: "Stop s = Some s' \<Longrightarrow> opp_inv s \<Longrightarrow> opp_inv s'"
  by (simp add: Stop_def split: if_splits) (hypsubst, simp add: inv_defs)

lemma opp_inv_got_result:
  assumes t: "t \<in> set (waiting s)" and inv: "opp_inv s"
  shows "opp_inv (got_result t s)" "opp_inv (timed_out t s)"
proof -
  have "length (waiting s) = Suc (length (remove1 t (waiting s)))"
    using t by (simp add: length_remove1) (metis Suc_pred length_pos_if_in_set)
  then show "opp_inv (got_result t s)" "opp_inv (timed_out t s)"
    using inv set_remove1_subset[of t "waiting s"] by (simp_all add: got_result_def timed_out_def inv_defs subset_iff)
qed

text \<open>A task that a worker or a goroutine of its own has finished goes from its hands to the finished ones.\<close>

lemma opp_inv_processTask:
  assumes inv: "opp_inv s" and hands: "mset (in_work s) = add_mset t (mset (in_work (s\<lparr>workers := w, direct := d\<rparr>)))"
  shows "opp_inv (processTask t ks lat parse now now2 now3 (s\<lparr>workers := w, direct := d\<rparr>))"
proof -
  let ?r = "\<lparr>TaskID = t, Success = True, res_Latency = now3 - StartTime (tasks s ! t), BytesRead = length (Data (tasks s ! t))\<rparr>"
  have "count (places s) t \<le> 1" using inv by (simp add: opp_inv_def count_mset_set')
  then have "count (mset (finished s)) t = 0 \<and> count (mset (dropped s)) t = 0" using hands by (simp add: places_def)
  then have new: "t \<notin> set (finished s)" "t \<notin> set (dropped s)" by simp_all
  have none: "results s t = None" using inv new unfolding opp_inv_def by auto
  have "dom ((results s)(t \<mapsto> ?r)) = set (finished s @ [t]) \<union> set (dropped s)" using inv by (auto simp: opp_inv_def)
  moreover have "places (processTask t ks lat parse now now2 now3 (s\<lparr>workers := w, direct := d\<rparr>)) = places s"
    using arg_cong[OF hands, of "\<lambda>m. m + mset (batchQueue s @ taskQueue s @ finished s @ dropped s)"]
    by (simp add: processTask_def Let_def places_def in_work_def ac_simps)
  ultimately show ?thesis using inv none
    by (simp add: processTask_def Let_def opp_inv_def del: mset_upt dom_fun_upd)
qed

lemma hands_off:
  assumes "i < length ws"
  shows "ws ! i = Busy t \<Longrightarrow> mset (concat (map task_in ws)) = add_mset t (mset (concat (map task_in (ws[i := Idle]))))"
    and "ws ! i = Idle \<Longrightarrow> mset (concat (map task_in (ws[i := Busy t]))) = add_mset t (mset (concat (map task_in ws)))"
    and "ws ! i = Idle \<Longrightarrow> mset (concat (map task_in (ws[i := Gone]))) = mset (concat (map task_in ws))"
  using mset_concat_map_update[OF assms, of task_in] by auto

lemma opp_inv_step: "opp_step s s' \<Longrightarrow> opp_inv s \<Longrightarrow> opp_inv s'"
proof (induction rule: opp_step.induct)
  case (work_take i s t ts)
  then show ?case using hands_off(2)[of i "workers s" t] by (simp add: inv_defs del: mset_upt)
next
  case (work_done i s t ks lat parse now now2 now3)
  then have "mset (in_work s) = add_mset t (mset (in_work (s\<lparr>workers := (workers s)[i := Idle], direct := direct s\<rparr>)))"
    using hands_off(1)[of i "workers s" t] by (simp add: in_work_def)
  from opp_inv_processTask[OF work_done(3) this, of ks lat parse now now2 now3] show ?case by simp
next
  case (work_quit i s)
  then show ?case using hands_off(3)[of i "workers s"] by (simp add: inv_defs del: mset_upt)
next
  case (direct_done t s ks lat parse now now2 now3)
  then have "mset (in_work s) = add_mset t (mset (in_work (s\<lparr>workers := workers s, direct := remove1 t (direct s)\<rparr>)))"
    by (simp add: in_work_def)
  from opp_inv_processTask[OF direct_done(2) this, of ks lat parse now now2 now3] show ?case by simp
qed (simp_all add: opp_inv_Start opp_inv_Stop opp_inv_connection opp_inv_got_result opp_inv_batch,
     simp_all add: inv_defs updateMetrics_def UpdateConfig_def)

lemma opp_inv_run: "opp_step\<^sup>*\<^sup>* s s' \<Longrightarrow> opp_inv s \<Longrightarrow> opp_inv s'"
  by (induction rule: rtranclp_induct) (auto intro: opp_inv_step)


definition small_config :: ProcessorConfig where
  "small_config = (defaultConfig 1)\<lparr>MaxConcurrency := 1, QueueSize := 1, EnableBatching := False, EnableCaching := False\<rparr>"

definition submit :: "OptimizedProtocolProcessor \<Rightarrow> OptimizedProtocolProcessor" where
  "submit = ProcessConnection (\<lambda>_. Some 0) ''c'' ''http'' ''GET'' 0 0"

definition busy_state :: OptimizedProtocolProcessor where
  "busy_state = (let s = submit (submit (submit (Start (NewOptimizedProtocolProcessor 1 (Some small_config)))))
     in processTask 0 [] 0 0 0 0 0 (s\<lparr>taskQueue := [], workers := [Idle]\<rparr>))"

lemmas busy_defs = busy_state_def submit_def Start_def NewOptimizedProtocolProcessor_def small_config_def
  defaultConfig_def ProcessConnection_def submitTask_def processTask_def Let_def

lemma run_submit: "opp_step\<^sup>*\<^sup>* a b \<Longrightarrow> opp_step\<^sup>*\<^sup>* a (submit b)"
  unfolding submit_def by (erule rtranclp.rtrancl_into_rtrancl) (rule connection)

lemma busy_reachable: "opp_step\<^sup>*\<^sup>* (NewOptimizedProtocolProcessor 1 (Some small_config)) busy_state"
proof -
  let ?new = "NewOptimizedProtocolProcessor 1 (Some small_config)"
  let ?s = "submit (submit (submit (Start ?new)))"
  have "opp_step\<^sup>*\<^sup>* ?new ?s"
    by (rule run_submit, rule run_submit, rule run_submit, rule r_into_rtranclp, rule start)
  moreover have "opp_step ?s (?s\<lparr>taskQueue := [], workers := (workers ?s)[0 := Busy 0]\<rparr>)"
    by (rule work_take) (simp_all add: busy_defs)
  moreover have "opp_step (?s\<lparr>taskQueue := [], workers := (workers ?s)[0 := Busy 0]\<rparr>) busy_state"
    using work_done[of 0 "?s\<lparr>taskQueue := [], workers := (workers ?s)[0 := Busy 0]\<rparr>" 0 "[]" 0 0 0 0 0]
    by (simp add: busy_defs)
  ultimately show ?thesis by (meson rtranclp.rtrancl_into_rtrancl)
qed


text \<open>
  The dropped tasks are errors but not requests: the error rate is not a fraction of the requests.
\<close>

lemma error_rate_exceeds_one: "ErrorRate (metrics (updateMetrics g c a now busy_state)) = 2"
  by (simp add: updateMetrics_def ratio_def busy_defs)

text \<open>A full queue does not bound the work: the tasks of a batch that do not fit get goroutines of their own.\<close>

lemma full_queue_spawns:
  assumes "length (taskQueue s) = queue_cap s"
  shows "direct (processBatch s) = direct s @ batchQueue s" "taskQueue (processBatch s) = taskQueue s"
proof -
  have "length (taskQueue s) = queue_cap s \<Longrightarrow> fold enqueue_or_run ts s = s\<lparr>direct := direct s @ ts\<rparr>" for ts s
    by (induction ts arbitrary: s) (simp_all add: enqueue_or_run_def)
  from this[of "s\<lparr>batchQueue := []\<rparr>" "batchQueue s"] assms
  show "direct (processBatch s) = direct s @ batchQueue s" "taskQueue (processBatch s) = taskQueue s"
    by (simp_all add: processBatch_def)
qed

text \<open>
  Stopping leaves the batch where it is: once the goroutine of the batch is gone, nothing takes a task from
  it as long as the processor is stopped. Its callers wait for their timeout.
\<close>

lemma batch_survives_Stop:
  "opp_step s s' \<Longrightarrow> \<not> running s \<Longrightarrow> batchers s = 0 \<Longrightarrow> \<not> running s' \<Longrightarrow> batchQueue s' = batchQueue s \<and> batchers s' = 0"
  by (induction rule: opp_step.induct)
    (auto simp: Start_def Stop_def ProcessConnection_def got_result_def timed_out_def processTask_def updateMetrics_def
      UpdateConfig_def Let_def)

text \<open>The channels closed by a stop are never made again: stopping a restarted processor panics.\<close>

lemma restarted_Stop_panics:
  "running s \<Longrightarrow> Stop s = Some s1 \<Longrightarrow> Stop (Start s1) = None"
  by (auto simp: Stop_def Start_def split: if_splits)

lemma restarted_workers_quit:
  assumes "running s" "Stop s = Some s1" "0 < pool_size s"
  shows "\<exists>s2. opp_step (Start s1) s2 \<and> workers s2 = (workers (Start s1))[length (workers s1) := Gone]"
proof -
  have "ch_closed (Start s1)" "length (workers s1) < length (workers (Start s1))" "workers (Start s1) ! length (workers s1) = Idle"
    using assms by (auto simp: Stop_def Start_def nth_append split: if_splits)
  from work_quit[OF this(2,3,1)] show ?thesis by (intro exI conjI) auto
qed

end
