(* ===== verification/Resources.thy ===== *)
theory Resources
  imports Prelude "HOL-Library.AList"
begin

text \<open>
  The resources of \<^verbatim>\<open>core/performance\<close>: the cores of \<^verbatim>\<open>cpu_cache.go\<close>, the shared pages of
  \<^verbatim>\<open>memory_manager.go\<close> and the quotas of \<^verbatim>\<open>resource_manager.go\<close>. The lemmas show that a core has one holder
  at a time and that the quotas share the resources, as long as nobody disables the manager or sets two
  quotas at once, and what happens otherwise.
\<close>

section \<open>Cores\<close>

record CPUAffinityManager =
  coreCount :: int
  assignedCores :: "int \<rightharpoonup> bool"
  cam_enabled :: bool

definition NewCPUAffinityManager :: "int \<Rightarrow> CPUAffinityManager" where
  "NewCPUAffinityManager cpus = \<lparr>coreCount = cpus, assignedCores = Map.empty, cam_enabled = True\<rparr>"

text \<open>A key that is not in the map reads as \<open>False\<close>.\<close>

definition assigned :: "CPUAffinityManager \<Rightarrow> int \<Rightarrow> bool" where
  "assigned cam i = (assignedCores cam i = Some True)"

text \<open>What \<^verbatim>\<open>AssignCore\<close> and \<^verbatim>\<open>ReleaseCore\<close> do after they have read \<^verbatim>\<open>enabled\<close>, without the mutex.\<close>

definition assign_body :: "CPUAffinityManager \<Rightarrow> CPUAffinityManager \<times> int \<times> bool" where
  "assign_body cam = (case find (\<lambda>i. \<not> assigned cam i) [0..coreCount cam - 1] of
     Some i \<Rightarrow> (cam\<lparr>assignedCores := (assignedCores cam)(i \<mapsto> True)\<rparr>, i, True)
   | None \<Rightarrow> (cam, -1, False))"

definition AssignCore :: "CPUAffinityManager \<Rightarrow> CPUAffinityManager \<times> int \<times> bool" where
  "AssignCore cam = (if \<not> cam_enabled cam then (cam, -1, False) else assign_body cam)"

definition release_body :: "int \<Rightarrow> CPUAffinityManager \<Rightarrow> CPUAffinityManager" where
  "release_body i cam =
     (if i \<ge> 0 \<and> i < coreCount cam then cam\<lparr>assignedCores := (assignedCores cam)(i \<mapsto> False)\<rparr> else cam)"

definition ReleaseCore :: "int \<Rightarrow> CPUAffinityManager \<Rightarrow> CPUAffinityManager" where
  "ReleaseCore i cam = (if \<not> cam_enabled cam then cam else release_body i cam)"

text \<open>The error, which is always nil, and whether a message says that the goroutine is bound: nothing binds it.\<close>

definition BindToCore :: "int \<Rightarrow> CPUAffinityManager \<Rightarrow> string option \<times> bool" where
  "BindToCore i cam = (if \<not> cam_enabled cam \<or> i < 0 \<or> i \<ge> coreCount cam then (None, False) else (None, True))"

definition cam_Enable :: "CPUAffinityManager \<Rightarrow> CPUAffinityManager" where
  "cam_Enable cam = cam\<lparr>cam_enabled := True\<rparr>"

definition cam_Disable :: "CPUAffinityManager \<Rightarrow> CPUAffinityManager" where
  "cam_Disable cam = cam\<lparr>cam_enabled := False, assignedCores := (\<lambda>i. map_option (\<lambda>_. False) (assignedCores cam i))\<rparr>"

text \<open>
  The goroutines that use the cores: \<open>assigning\<close> of them are between the check and the mutex, the cores of
  \<open>releasing\<close> are given back by goroutines there, those of \<open>held\<close> are in use.
\<close>

record cores =
  manager :: CPUAffinityManager
  assigning :: nat
  releasing :: "int list"
  held :: "int list"

definition new_cores :: "int \<Rightarrow> cores" where
  "new_cores cpus = \<lparr>manager = NewCPUAffinityManager cpus, assigning = 0, releasing = [], held = []\<rparr>"

datatype cam_act = AssignCheck | AssignBody | ReleaseCheck int | ReleaseBody int | CamEnable | CamDisable

fun cam_step :: "cam_act \<Rightarrow> cores \<Rightarrow> cores option" where
  "cam_step AssignCheck s = Some (if cam_enabled (manager s) then s\<lparr>assigning := assigning s + 1\<rparr> else s)"
| "cam_step AssignBody s = (if assigning s = 0 then None
     else (case assign_body (manager s) of (cam, i, ok) \<Rightarrow>
       Some (s\<lparr>manager := cam, assigning := assigning s - 1, held := (if ok then i # held s else held s)\<rparr>)))"
| "cam_step (ReleaseCheck i) s = (if i \<notin> set (held s) then None
     else Some (s\<lparr>held := remove1 i (held s), releasing := (if cam_enabled (manager s) then i # releasing s else releasing s)\<rparr>))"
| "cam_step (ReleaseBody i) s = (if i \<notin> set (releasing s) then None
     else Some (s\<lparr>manager := release_body i (manager s), releasing := remove1 i (releasing s)\<rparr>))"
| "cam_step CamEnable s = Some (s\<lparr>manager := cam_Enable (manager s)\<rparr>)"
| "cam_step CamDisable s = Some (s\<lparr>manager := cam_Disable (manager s)\<rparr>)"

fun cam_run :: "cam_act list \<Rightarrow> cores \<Rightarrow> cores option" where
  "cam_run [] s = Some s"
| "cam_run (a # as) s = Option.bind (cam_step a s) (cam_run as)"

definition cam_inv :: "cores \<Rightarrow> bool" where
  "cam_inv s \<longleftrightarrow> cam_enabled (manager s) \<and> distinct (held s @ releasing s) \<and>
     (\<forall>i. assigned (manager s) i \<longleftrightarrow> i \<in> set (held s @ releasing s)) \<and> set (held s @ releasing s) \<subseteq> {0..<coreCount (manager s)}"

lemma assign_body_ok:
  "assign_body cam = (cam', i, True) \<Longrightarrow>
   \<not> assigned cam i \<and> 0 \<le> i \<and> i < coreCount cam \<and> cam' = cam\<lparr>assignedCores := (assignedCores cam)(i \<mapsto> True)\<rparr>"
  by (auto simp: assign_body_def find_Some_iff split: option.splits)

lemma assign_body_full:
  "assign_body cam = (cam', i, False) \<Longrightarrow> cam' = cam \<and> (\<forall>i. 0 \<le> i \<and> i < coreCount cam \<longrightarrow> assigned cam i)"
  by (auto simp: assign_body_def find_None_iff split: option.splits)

lemma cam_step_inv:
  assumes step: "cam_step a s = Some s'" and "a \<noteq> CamDisable" and inv: "cam_inv s" shows "cam_inv s'"
proof (cases a)
  case AssignBody
  obtain cam i ok where b: "assign_body (manager s) = (cam, i, ok)" by (metis prod_cases3)
  show ?thesis
  proof (cases ok)
    case True
    with assign_body_ok[of "manager s" cam i] b step inv AssignBody show ?thesis
      by (auto simp: cam_inv_def assigned_def split: if_splits)
  next
    case False
    with assign_body_full[of "manager s" cam i] b step inv AssignBody show ?thesis
      by (auto simp: cam_inv_def split: if_splits)
  qed
next
  case (ReleaseBody i)
  then have "0 \<le> i \<and> i < coreCount (manager s)" using step inv by (auto simp: cam_inv_def split: if_splits)
  with ReleaseBody step inv show ?thesis
    by (auto simp: cam_inv_def assigned_def release_body_def split: if_splits)
next
  case (ReleaseCheck i)
  with step inv show ?thesis by (auto simp: cam_inv_def subset_iff split: if_splits)
qed (use assms in \<open>auto simp: cam_inv_def cam_Enable_def assigned_def\<close>)

lemma cam_run_inv: "cam_run as s = Some s' \<Longrightarrow> CamDisable \<notin> set as \<Longrightarrow> cam_inv s \<Longrightarrow> cam_inv s'"
proof (induction as arbitrary: s)
  case (Cons a as)
  then obtain s1 where "cam_step a s = Some s1" "cam_run as s1 = Some s'" by (auto split: Option.bind_splits)
  then show ?case using Cons cam_step_inv[of a s s1] by auto
qed simp

lemma cam_inv_new: "cam_inv (new_cores cpus)"
  by (simp add: cam_inv_def new_cores_def NewCPUAffinityManager_def assigned_def)

text \<open>
  As long as nobody disables the manager, no core is in the hands of two goroutines, however their
  assignments and releases interleave, each is one of the machine, and an assignment fails exactly when
  all cores are taken.
\<close>

lemma cores_exclusive:
  assumes "cam_run as (new_cores cpus) = Some s" and "CamDisable \<notin> set as"
  shows "distinct (held s @ releasing s) \<and> set (held s @ releasing s) \<subseteq> {0..<coreCount (manager s)} \<and>
    (snd (snd (AssignCore (manager s))) \<longleftrightarrow> set (held s @ releasing s) \<noteq> {0..<coreCount (manager s)})"
proof -
  have inv: "cam_inv s" using cam_run_inv[OF assms cam_inv_new] .
  obtain cam i ok where b: "assign_body (manager s) = (cam, i, ok)" by (metis prod_cases3)
  have "ok \<longleftrightarrow> set (held s @ releasing s) \<noteq> {0..<coreCount (manager s)}"
  proof (cases ok)
    case True
    with b assign_body_ok[of "manager s" cam i] have "i \<in> {0..<coreCount (manager s)}" "\<not> assigned (manager s) i" by simp_all
    with True inv show ?thesis unfolding cam_inv_def by blast
  next
    case False
    with b assign_body_full[of "manager s" cam i] have "\<forall>i\<in>{0..<coreCount (manager s)}. assigned (manager s) i" by simp
    with False inv show ?thesis unfolding cam_inv_def by blast
  qed
  then show ?thesis using inv b by (simp add: cam_inv_def AssignCore_def)
qed

lemma cores_exclusive_witness:
  "\<exists>s. cam_run [AssignCheck, AssignCheck, AssignBody, AssignBody, ReleaseCheck 0, ReleaseBody 0] (new_cores 2) = Some s \<and>
     held s = [1] \<and> distinct (held s @ releasing s)"
proof -
  have "cam_run [AssignCheck, AssignCheck, AssignBody, AssignBody, ReleaseCheck 0, ReleaseBody 0] (new_cores 2) =
      Some \<lparr>manager = \<lparr>coreCount = 2, assignedCores = [0 \<mapsto> False, 1 \<mapsto> True], cam_enabled = True\<rparr>,
        assigning = 0, releasing = [], held = [1]\<rparr>"
    by (simp add: new_cores_def NewCPUAffinityManager_def assign_body_def release_body_def assigned_def upto.simps fun_upd_twist)
  from cores_exclusive[OF this] this show ?thesis by simp
qed

text \<open>Disabling gives every core free, those in use as well: after enabling they are assigned again.\<close>

lemma disable_frees_held_cores:
  "\<exists>s. cam_run [AssignCheck, AssignBody, CamDisable, CamEnable, AssignCheck, AssignBody] (new_cores 1) = Some s \<and> held s = [0, 0]"
  by (simp add: new_cores_def NewCPUAffinityManager_def assign_body_def assigned_def upto.simps cam_Disable_def cam_Enable_def)

text \<open>
  An assignment that checked before the disabling succeeds after it; its release is then ignored and the
  core is lost for good.
\<close>

lemma late_assignment_leaks:
  "\<exists>s. cam_run [AssignCheck, CamDisable, AssignBody, ReleaseCheck 0, CamEnable] (new_cores 1) = Some s \<and>
     held s = [] \<and> releasing s = [] \<and> AssignCore (manager s) = (manager s, -1, False)"
  by (simp add: new_cores_def NewCPUAffinityManager_def assign_body_def assigned_def upto.simps cam_Disable_def cam_Enable_def
      AssignCore_def)

text \<open>A release does not look at who holds the core.\<close>

lemma anyone_releases:
  "cam_enabled cam \<Longrightarrow> 0 \<le> i \<Longrightarrow> i < coreCount cam \<Longrightarrow> \<not> assigned (ReleaseCore i cam) i"
  by (simp add: ReleaseCore_def release_body_def assigned_def)

section \<open>Shared pages\<close>

text \<open>
  Text is a list of code points here. \<^verbatim>\<open>string(rune(i))\<close> is the character number \<open>i\<close>, or U+FFFD if there is
  none. A page is its start and end in the memory that \<^verbatim>\<open>mmap\<close> gave.
\<close>

type_synonym page = "int \<times> int"

record MemoryManager =
  sharedPages :: "nat list \<rightharpoonup> page"
  mm_enabled :: bool
  numaAware :: bool
  preallocatedPages :: int

definition rune_of :: "nat \<Rightarrow> nat" where
  "rune_of i = (if i < 0xD800 \<or> 0xDFFF < i \<and> i \<le> 0x10FFFF then i else 0xFFFD)"

definition pageID :: "nat \<Rightarrow> nat list" where
  "pageID i = map of_char ''prealloc_'' @ [rune_of i]"

text \<open>\<open>mmap n\<close>: the start of a new region of \<open>n\<close> bytes, or none.\<close>

definition preallocateMemory :: "(int \<Rightarrow> int option) \<Rightarrow> int \<Rightarrow> MemoryManager \<Rightarrow> MemoryManager" where
  "preallocateMemory mmap pageSize mm =
     (if preallocatedPages mm \<le> 0 then mm
      else case mmap (preallocatedPages mm * pageSize) of
          None \<Rightarrow> mm
        | Some memory \<Rightarrow> fold (\<lambda>i mm. mm\<lparr>sharedPages := (sharedPages mm)(pageID i \<mapsto>
             (memory + int i * pageSize, memory + int i * pageSize + pageSize))\<rparr>) [0..<nat (preallocatedPages mm)] mm)"

definition NewMemoryManager :: "(int \<Rightarrow> int option) \<Rightarrow> int \<Rightarrow> int \<Rightarrow> bool \<Rightarrow> MemoryManager" where
  "NewMemoryManager mmap pageSize n numa = preallocateMemory mmap pageSize
     \<lparr>sharedPages = Map.empty, mm_enabled = True, numaAware = numa, preallocatedPages = n\<rparr>"

text \<open>\<open>Inl ()\<close>: a page newly made for the caller.\<close>

definition GetSharedPage :: "nat list \<Rightarrow> MemoryManager \<Rightarrow> (unit + page) option" where
  "GetSharedPage k mm = (if \<not> mm_enabled mm then Some (Inl ()) else map_option Inr (sharedPages mm k))"

definition AllocateAlignedMemory :: "(int \<Rightarrow> int option) \<Rightarrow> int \<Rightarrow> int \<Rightarrow> int \<Rightarrow> MemoryManager \<Rightarrow> page option" where
  "AllocateAlignedMemory mmap pageSize sz alignment mm =
     (let sz = go_quot (sz + pageSize - 1) pageSize * pageSize in map_option (\<lambda>a. (a, a + sz)) (mmap sz))"

definition mm_Enable :: "MemoryManager \<Rightarrow> MemoryManager" where "mm_Enable mm = mm\<lparr>mm_enabled := True\<rparr>"
definition mm_Disable :: "MemoryManager \<Rightarrow> MemoryManager" where "mm_Disable mm = mm\<lparr>mm_enabled := False\<rparr>"
definition SetNUMAAware :: "bool \<Rightarrow> MemoryManager \<Rightarrow> MemoryManager" where "SetNUMAAware b mm = mm\<lparr>numaAware := b\<rparr>"

text \<open>Up to the first surrogate the pages have names of their own, and the page of a name is the one of its number.\<close>

lemma pageID_inject: "i < 0xD800 \<Longrightarrow> j < 0xD800 \<Longrightarrow> pageID i = pageID j \<longleftrightarrow> i = j"
  by (simp add: pageID_def rune_of_def)

lemma fold_pages:
  "sharedPages (fold (\<lambda>i mm. mm\<lparr>sharedPages := (sharedPages mm)(pageID i \<mapsto> f i)\<rparr>) is mm) =
   sharedPages mm ++ map_of (rev (map (\<lambda>i. (pageID i, f i)) is))"
  by (induction "is" arbitrary: mm) (simp_all add: map_add_upd_left map_add_assoc[symmetric] fun_upd_def map_add_def fun_eq_iff split: option.split)

lemma fold_pages_enabled:
  "mm_enabled (fold (\<lambda>i mm. mm\<lparr>sharedPages := (sharedPages mm)(pageID i \<mapsto> f i)\<rparr>) is mm) = mm_enabled mm"
  by (induction "is" arbitrary: mm) simp_all

lemma preallocated_pages:
  assumes "mmap (n * pageSize) = Some a" "0 < n" "n \<le> 0xD800" "int i < n"
  shows "GetSharedPage (pageID i) (NewMemoryManager mmap pageSize n numa) = Some (Inr (a + int i * pageSize, a + int i * pageSize + pageSize))"
proof -
  let ?f = "\<lambda>i. (a + int i * pageSize, a + int i * pageSize + pageSize)"
  let ?m0 = "\<lparr>sharedPages = Map.empty, mm_enabled = True, numaAware = numa, preallocatedPages = n\<rparr>"
  have new: "NewMemoryManager mmap pageSize n numa =
      fold (\<lambda>i mm. mm\<lparr>sharedPages := (sharedPages mm)(pageID i \<mapsto> ?f i)\<rparr>) [0..<nat n] ?m0"
    using assms by (simp add: NewMemoryManager_def preallocateMemory_def)
  have "inj_on pageID (set [0..<nat n])" using assms(3) by (auto intro!: inj_onI simp: pageID_inject)
  then have "map_of (rev (map (\<lambda>i. (pageID i, ?f i)) [0..<nat n])) (pageID i) = Some (?f i)"
    using assms(4) by (intro map_of_is_SomeI) (auto simp: rev_map[symmetric] distinct_map comp_def)
  then show ?thesis unfolding new GetSharedPage_def fold_pages fold_pages_enabled by simp
qed

text \<open>From there on pages share a name, and all but the last of them are lost.\<close>

lemma surrogate_pages_collide: "0xD800 \<le> i \<Longrightarrow> i \<le> 0xDFFF \<Longrightarrow> pageID i = pageID 0xD800"
  by (simp add: pageID_def rune_of_def)

text \<open>The alignment is not looked at, and no memory is asked for as an empty region, which \<^verbatim>\<open>mmap\<close> refuses.\<close>

lemma allocation_ignores_alignment:
  "AllocateAlignedMemory mmap pageSize sz alignment mm = AllocateAlignedMemory mmap pageSize sz 1 mm"
  by (simp add: AllocateAlignedMemory_def)

lemma allocate_nothing: "0 < pageSize \<Longrightarrow> mmap 0 = None \<Longrightarrow> AllocateAlignedMemory mmap pageSize 0 al mm = None"
  by (simp add: AllocateAlignedMemory_def go_quot_nonneg)

lemma allocation_covers:
  assumes "0 < pageSize" "0 < sz" "AllocateAlignedMemory mmap pageSize sz al mm = Some (a, b)"
  shows "sz \<le> b - a \<and> b - a < sz + pageSize"
proof -
  have "b - a = (sz + pageSize - 1) div pageSize * pageSize"
    using assms by (auto simp: AllocateAlignedMemory_def Let_def go_quot_nonneg)
  moreover have "(sz + pageSize - 1) div pageSize * pageSize + (sz + pageSize - 1) mod pageSize = sz + pageSize - 1"
    by simp
  moreover have "0 \<le> (sz + pageSize - 1) mod pageSize" "(sz + pageSize - 1) mod pageSize < pageSize" using assms(1) by simp_all
  ultimately show ?thesis by linarith
qed

section \<open>Quotas\<close>

text \<open>
  The quotas are pairs of a type and its quota, one for each type; a \<^verbatim>\<open>range\<close> over the map only adds them
  up, so that its order does not matter.
\<close>

record ResourceQuota =
  CPU :: int
  Memory :: int
  IO :: int

record ResourceManager =
  quotas :: "(string \<times> ResourceQuota) list"
  rm_enabled :: bool
  totalCPU :: int
  totalMemory :: int
  totalIO :: int

definition NewResourceManager :: "int \<Rightarrow> int \<Rightarrow> int \<Rightarrow> ResourceManager" where
  "NewResourceManager cpu memory io =
     \<lparr>quotas = [(''http'', \<lparr>CPU = 45, Memory = 45, IO = 45\<rparr>), (''streaming'', \<lparr>CPU = 30, Memory = 30, IO = 30\<rparr>),
        (''system'', \<lparr>CPU = 15, Memory = 15, IO = 15\<rparr>), (''management'', \<lparr>CPU = 10, Memory = 10, IO = 10\<rparr>)],
      rm_enabled = True, totalCPU = cpu, totalMemory = memory, totalIO = io\<rparr>"

fun others_quota :: "string \<Rightarrow> (string \<times> ResourceQuota) list \<Rightarrow> int \<times> int \<times> int \<Rightarrow> int \<times> int \<times> int" where
  "others_quota rt [] acc = acc"
| "others_quota rt ((k, q) # qs) (c, m, i) =
     others_quota rt qs (if k \<noteq> rt then (c + CPU q, m + Memory q, i + IO q) else (c, m, i))"

text \<open>The check under the read lock, and the store under the lock that is taken after it.\<close>

definition quota_fits :: "string \<Rightarrow> ResourceQuota \<Rightarrow> ResourceManager \<Rightarrow> bool" where
  "quota_fits rt q rm = (case others_quota rt (quotas rm) (0, 0, 0) of (c, m, i) \<Rightarrow>
     \<not> (CPU q > 100 - c \<or> Memory q > 100 - m \<or> IO q > 100 - i))"

definition store_quota :: "string \<Rightarrow> ResourceQuota \<Rightarrow> ResourceManager \<Rightarrow> ResourceManager" where
  "store_quota rt q rm = rm\<lparr>quotas := AList.update rt q (quotas rm)\<rparr>"

definition SetQuota :: "string \<Rightarrow> ResourceQuota \<Rightarrow> ResourceManager \<Rightarrow> ResourceManager \<times> bool" where
  "SetQuota rt q rm = (if \<not> quota_fits rt q rm then (rm, False) else (store_quota rt q rm, True))"

definition GetQuota :: "string \<Rightarrow> ResourceManager \<Rightarrow> ResourceQuota option" where
  "GetQuota rt rm = map_of (quotas rm) rt"

definition GetAvailableResources :: "string \<Rightarrow> ResourceManager \<Rightarrow> int \<times> int \<times> int" where
  "GetAvailableResources rt rm =
     (if \<not> rm_enabled rm then (totalCPU rm, totalMemory rm, totalIO rm)
      else case map_of (quotas rm) rt of None \<Rightarrow> (0, 0, 0)
        | Some q \<Rightarrow> (go_quot (totalCPU rm * CPU q) 100, go_quot (totalMemory rm * Memory q) 100, go_quot (totalIO rm * IO q) 100))"

definition rm_Enable :: "ResourceManager \<Rightarrow> ResourceManager" where "rm_Enable rm = rm\<lparr>rm_enabled := True\<rparr>"
definition rm_Disable :: "ResourceManager \<Rightarrow> ResourceManager" where "rm_Disable rm = rm\<lparr>rm_enabled := False\<rparr>"

definition quota_sum :: "(ResourceQuota \<Rightarrow> int) \<Rightarrow> (string \<times> ResourceQuota) list \<Rightarrow> int" where
  "quota_sum f qs = sum_list (map (f \<circ> snd) qs)"

definition nonneg :: "ResourceQuota \<Rightarrow> bool" where
  "nonneg q \<longleftrightarrow> 0 \<le> CPU q \<and> 0 \<le> Memory q \<and> 0 \<le> IO q"

definition rm_inv :: "ResourceManager \<Rightarrow> bool" where
  "rm_inv rm \<longleftrightarrow> distinct (map fst (quotas rm)) \<and> list_all (nonneg \<circ> snd) (quotas rm) \<and>
     quota_sum CPU (quotas rm) \<le> 100 \<and> quota_sum Memory (quotas rm) \<le> 100 \<and> quota_sum IO (quotas rm) \<le> 100"

lemma others_quota_sum:
  "others_quota rt qs (c, m, i) =
   (let os = filter (\<lambda>kq. fst kq \<noteq> rt) qs in (c + quota_sum CPU os, m + quota_sum Memory os, i + quota_sum IO os))"
  by (induction rt qs "(c, m, i)" arbitrary: c m i rule: others_quota.induct) (auto simp: quota_sum_def Let_def)

lemma quota_sum_update:
  "distinct (map fst qs) \<Longrightarrow> quota_sum f (AList.update rt q qs) = quota_sum f (filter (\<lambda>kq. fst kq \<noteq> rt) qs) + f q"
proof (induction qs)
  case (Cons kq qs)
  obtain k x where kq: "kq = (k, x)" by (cases kq)
  show ?case
  proof (cases "k = rt")
    case True
    with Cons.prems kq have "filter (\<lambda>kq. fst kq \<noteq> rt) qs = qs" by (auto simp: filter_id_conv image_iff)
    with True kq show ?thesis by (simp add: quota_sum_def)
  qed (use Cons kq in \<open>simp add: quota_sum_def\<close>)
qed (simp add: quota_sum_def)

lemma list_all_update: "P (rt, q) \<Longrightarrow> list_all P qs \<Longrightarrow> list_all P (AList.update rt q qs)"
  by (induction qs) auto

lemma SetQuota_inv: "rm_inv rm \<Longrightarrow> nonneg q \<Longrightarrow> rm_inv (fst (SetQuota rt q rm))"
  by (auto simp: rm_inv_def SetQuota_def quota_fits_def store_quota_def others_quota_sum quota_sum_update distinct_update
    list_all_update Let_def)

text \<open>What the types get of one resource of size \<open>t\<close>.\<close>

lemma shares_le:
  assumes "0 \<le> t" "list_all (\<lambda>kq. 0 \<le> f (snd kq)) qs"
  shows "sum_list (map (\<lambda>kq. go_quot (t * f (snd kq)) 100) qs) \<le> t * quota_sum f qs div 100"
  using assms(2)
proof (induction qs)
  case (Cons kq qs)
  have "t * f (snd kq) div 100 + t * quota_sum f qs div 100 \<le> (t * f (snd kq) + t * quota_sum f qs) div 100" by linarith
  with Cons assms(1) show ?case by (simp add: quota_sum_def go_quot_nonneg algebra_simps)
qed (simp add: quota_sum_def)

lemma sum_keys_le:
  fixes h :: "'v \<Rightarrow> int"
  assumes "distinct ks" "distinct (map fst qs)" "list_all (\<lambda>kq. 0 \<le> h (snd kq)) qs"
  shows "sum_list (map (\<lambda>k. case map_of qs k of None \<Rightarrow> 0 | Some q \<Rightarrow> h q) ks) \<le> sum_list (map (\<lambda>kq. h (snd kq)) qs)"
proof -
  let ?g = "\<lambda>k. case map_of qs k of None \<Rightarrow> 0 | Some q \<Rightarrow> h q"
  have pos: "0 \<le> ?g k" for k using assms(3) by (auto simp: list_all_iff dest!: map_of_SomeD split: option.split)
  have "sum_list (map ?g ks) = sum ?g (set ks)" using assms(1) by (simp add: sum_list_distinct_conv_sum_set)
  also have "\<dots> = sum ?g (set ks \<inter> fst ` set qs)"
    by (rule sum.mono_neutral_right) (auto split: option.split dest!: map_of_SomeD intro: rev_image_eqI)
  also have "\<dots> \<le> sum ?g (fst ` set qs)" by (rule sum_mono2) (use pos in auto)
  also have "\<dots> = sum_list (map ?g (map fst qs))" using sum_list_distinct_conv_sum_set[OF assms(2), of ?g] by simp
  also have "map ?g (map fst qs) = map (\<lambda>kq. h (snd kq)) qs" using assms(2) by auto
  finally show ?thesis .
qed

lemma shares_bounded:
  assumes "distinct rts" "distinct (map fst qs)" "list_all (\<lambda>kq. 0 \<le> f (snd kq)) qs" "quota_sum f qs \<le> 100" "0 \<le> t"
  shows "sum_list (map (\<lambda>k. case map_of qs k of None \<Rightarrow> 0 | Some q \<Rightarrow> go_quot (t * f q) 100) rts) \<le> t"
proof -
  have "list_all (\<lambda>kq. 0 \<le> go_quot (t * f (snd kq)) 100) qs" using assms(3,5) by (auto simp: list_all_iff go_quot_nonneg pos_imp_zdiv_nonneg_iff)
  with assms have "sum_list (map (\<lambda>k. case map_of qs k of None \<Rightarrow> 0 | Some q \<Rightarrow> go_quot (t * f q) 100) rts) \<le>
      sum_list (map (\<lambda>kq. go_quot (t * f (snd kq)) 100) qs)" by (intro sum_keys_le)
  also have "\<dots> \<le> t * quota_sum f qs div 100" by (rule shares_le[OF assms(5,3)])
  also have "\<dots> \<le> t * 100 div 100" by (intro zdiv_mono1 mult_left_mono) (use assms in simp_all)
  finally show ?thesis by simp
qed

definition set_quotas :: "(string \<times> ResourceQuota) list \<Rightarrow> ResourceManager \<Rightarrow> ResourceManager" where
  "set_quotas calls rm = fold (\<lambda>(rt, q) rm. fst (SetQuota rt q rm)) calls rm"

lemma set_quotas_inv:
  "list_all (nonneg \<circ> snd) calls \<Longrightarrow> rm_inv rm \<Longrightarrow> rm_inv (set_quotas calls rm) \<and> rm_enabled (set_quotas calls rm) = rm_enabled rm \<and>
     totalCPU (set_quotas calls rm) = totalCPU rm \<and> totalMemory (set_quotas calls rm) = totalMemory rm \<and>
     totalIO (set_quotas calls rm) = totalIO rm"
proof (induction calls arbitrary: rm)
  case (Cons rq calls)
  obtain rt q where rq: "rq = (rt, q)" by (cases rq)
  have "rm_inv (fst (SetQuota rt q rm))" using Cons.prems rq by (simp add: SetQuota_inv)
  from Cons.IH[OF _ this] Cons.prems rq show ?case by (simp add: set_quotas_def SetQuota_def store_quota_def)
qed (simp add: set_quotas_def)

lemma rm_inv_New: "rm_inv (NewResourceManager c m i)"
  by (simp add: rm_inv_def NewResourceManager_def quota_sum_def nonneg_def)

text \<open>
  C37. Whatever quotas are set, one after the other and none of them negative, and refused or not, the
  resources available to any types together are at most those of the machine.
\<close>

theorem quotas_share_resources:
  assumes "list_all (nonneg \<circ> snd) calls" "0 \<le> c" "0 \<le> m" "0 \<le> i" "distinct rts"
  shows "let rm = set_quotas calls (NewResourceManager c m i) in
    sum_list (map (\<lambda>rt. fst (GetAvailableResources rt rm)) rts) \<le> c \<and>
    sum_list (map (\<lambda>rt. fst (snd (GetAvailableResources rt rm))) rts) \<le> m \<and>
    sum_list (map (\<lambda>rt. snd (snd (GetAvailableResources rt rm))) rts) \<le> i"
proof -
  define rm where "rm = set_quotas calls (NewResourceManager c m i)"
  have inv: "rm_inv rm" "rm_enabled rm" "totalCPU rm = c" "totalMemory rm = m" "totalIO rm = i"
    using set_quotas_inv[OF assms(1) rm_inv_New, of c m i] by (simp_all add: rm_def NewResourceManager_def)
  have avail: "GetAvailableResources rt rm =
      ((case map_of (quotas rm) rt of None \<Rightarrow> 0 | Some q \<Rightarrow> go_quot (c * CPU q) 100),
       (case map_of (quotas rm) rt of None \<Rightarrow> 0 | Some q \<Rightarrow> go_quot (m * Memory q) 100),
       (case map_of (quotas rm) rt of None \<Rightarrow> 0 | Some q \<Rightarrow> go_quot (i * IO q) 100))" for rt
    using inv by (simp add: GetAvailableResources_def split: option.split)
  have "list_all (\<lambda>kq. 0 \<le> CPU (snd kq)) (quotas rm)" "list_all (\<lambda>kq. 0 \<le> Memory (snd kq)) (quotas rm)"
    "list_all (\<lambda>kq. 0 \<le> IO (snd kq)) (quotas rm)" using inv(1) by (simp_all add: rm_inv_def nonneg_def list_all_iff)
  with inv(1) assms(2-5) show ?thesis unfolding rm_def[symmetric] by (simp add: avail shares_bounded rm_inv_def)
qed

theorem quotas_share_resources_witness:
  "let rm = set_quotas [(''http'', \<lparr>CPU = 20, Memory = 20, IO = 20\<rparr>), (''system'', \<lparr>CPU = 40, Memory = 40, IO = 40\<rparr>),
       (''batch'', \<lparr>CPU = 1, Memory = 0, IO = 0\<rparr>)] (NewResourceManager 64 1000 33)
   in fst (GetAvailableResources ''system'' rm) = 25 \<and> map_of (quotas rm) ''batch'' = None \<and>
      sum_list (map (\<lambda>rt. fst (GetAvailableResources rt rm)) [''http'', ''streaming'', ''system'', ''management'']) \<le> 64"
  using quotas_share_resources[of "[(''http'', \<lparr>CPU = 20, Memory = 20, IO = 20\<rparr>), (''system'', \<lparr>CPU = 40, Memory = 40, IO = 40\<rparr>),
       (''batch'', \<lparr>CPU = 1, Memory = 0, IO = 0\<rparr>)]" 64 1000 33 "[''http'', ''streaming'', ''system'', ''management'']"]
  by (simp add: Let_def nonneg_def) (simp add: set_quotas_def SetQuota_def quota_fits_def store_quota_def NewResourceManager_def
      GetAvailableResources_def go_quot_nonneg)

text \<open>The check and the store are not one step: two calls that overlap give away more than there is.\<close>

lemma overlapping_quotas:
  fixes c m i :: int
  defines "q \<equiv> \<lambda>n. \<lparr>CPU = n, Memory = n, IO = n\<rparr>"
  defines "rm \<equiv> fst (SetQuota ''http'' (q 25) (NewResourceManager c m i))"
  shows "quota_fits ''http'' (q 45) rm" "quota_fits ''streaming'' (q 50) rm"
    and "quota_sum CPU (quotas (store_quota ''streaming'' (q 50) (store_quota ''http'' (q 45) rm))) = 120"
  by (simp_all add: q_def rm_def SetQuota_def quota_fits_def store_quota_def NewResourceManager_def quota_sum_def)

text \<open>A negative quota is accepted and makes room that does not exist.\<close>

lemma negative_quota_overcommits:
  "fst (GetAvailableResources ''http'' (set_quotas [(''system'', \<lparr>CPU = -100, Memory = 0, IO = 0\<rparr>),
     (''http'', \<lparr>CPU = 160, Memory = 0, IO = 0\<rparr>)] (NewResourceManager 100 1 1))) = 160"
  by (simp add: set_quotas_def SetQuota_def quota_fits_def store_quota_def NewResourceManager_def GetAvailableResources_def
      go_quot_nonneg)

end
