(* ===== verification/Performance_Monitor.thy ===== *)
theory Performance_Monitor
  imports Prelude Complex_Main
begin

text \<open>
  The performance monitor of \<^verbatim>\<open>core/performance/performance_monitor.go\<close>: the metrics, the thresholds, and the
  two loops with the channel of tuning actions between them as a step relation. The lemmas show that no
  action is lost or executed twice and what the actions do to the process, and how the loops end.
\<close>

section \<open>Data\<close>

record PerformanceMetrics =
  CPUUsage :: rat
  MemoryUsage :: nat
  GoroutineCount :: int
  GCPauseTime :: int
  AllocRate :: nat
  CacheHitRate :: rat
  Throughput :: nat
  Latency :: int
  Timestamp :: time

record PerformanceThresholds =
  MaxCPUUsage :: rat
  MaxMemoryUsage :: nat
  MaxGoroutines :: int
  MaxGCPauseTime :: int
  MinCacheHitRate :: rat
  MaxLatency :: int

record TuningAction =
  Type :: string
  Description :: string
  Parameters :: "(string \<times> rat) list"
  act_Timestamp :: time

text \<open>What the runtime reports: the memory statistics, the goroutines and the processors.\<close>

record runtime_stats =
  Alloc :: nat
  TotalAlloc :: nat
  PauseNs :: "int list"
  NumGC :: nat
  NumGoroutine :: nat
  NumCPU :: nat

definition defaultThresholds :: PerformanceThresholds where
  "defaultThresholds = \<lparr>MaxCPUUsage = 80, MaxMemoryUsage = 1024 * 1024 * 1024, MaxGoroutines = 10000,
     MaxGCPauseTime = 10 * 1000 * 1000, MinCacheHitRate = 8 / 10, MaxLatency = 100 * 1000 * 1000\<rparr>"

section \<open>The monitor\<close>

text \<open>
  A monitoring loop is at its \<^verbatim>\<open>select\<close>, has collected the metrics, sends the actions that are left of a
  check, or is gone; a tuning loop waits, executes an action, or is gone. \<open>maxprocs\<close> is the setting of the
  runtime, \<open>preallocated\<close> the number of buffers asked of the pool (\<^verbatim>\<open>nil\<close> is none), \<open>collections\<close> that of the
  forced garbage collections. \<open>raised\<close>: every action a check made.
\<close>

datatype monitor_pc = Selecting | Collected | Sending "TuningAction list" | MonitorGone
datatype tuner_pc = Waiting | Executing TuningAction | TunerGone

record PerformanceMonitor =
  enabled :: bool
  metrics :: PerformanceMetrics
  thresholds :: PerformanceThresholds
  tuningActions :: "TuningAction list"
  has_pool :: bool
  totalRequests :: nat
  totalLatency :: nat
  cacheHits :: nat
  cacheMisses :: nat
  stopped :: bool
  tuningChan :: "TuningAction list"
  monitors :: "monitor_pc list"
  tuners :: "tuner_pc list"
  maxprocs :: int
  preallocated :: nat
  collections :: nat
  raised :: "TuningAction list"

definition NewPerformanceMonitor :: "bool \<Rightarrow> int \<Rightarrow> PerformanceMonitor" where
  "NewPerformanceMonitor pool procs = \<lparr>enabled = True,
     metrics = \<lparr>CPUUsage = 0, MemoryUsage = 0, GoroutineCount = 0, GCPauseTime = 0, AllocRate = 0, CacheHitRate = 0,
       Throughput = 0, Latency = 0, Timestamp = 0\<rparr>,
     thresholds = defaultThresholds, tuningActions = [], has_pool = pool, totalRequests = 0, totalLatency = 0, cacheHits = 0,
     cacheMisses = 0, stopped = False, tuningChan = [], monitors = [], tuners = [], maxprocs = procs, preallocated = 0,
     collections = 0, raised = []\<rparr>"

definition Start :: "PerformanceMonitor \<Rightarrow> PerformanceMonitor" where
  "Start pm = (if \<not> enabled pm then pm else pm\<lparr>monitors := monitors pm @ [Selecting], tuners := tuners pm @ [Waiting]\<rparr>)"

text \<open>\<open>None\<close>: the channel is closed twice.\<close>

definition Stop :: "PerformanceMonitor \<Rightarrow> PerformanceMonitor option" where
  "Stop pm = (if stopped pm then None else Some (pm\<lparr>stopped := True\<rparr>))"

definition getCPUUsage :: "runtime_stats \<Rightarrow> rat" where
  "getCPUUsage r = of_nat (NumGoroutine r) / of_nat (NumCPU r) * 10"

definition collectMetrics :: "runtime_stats \<Rightarrow> time \<Rightarrow> PerformanceMonitor \<Rightarrow> PerformanceMonitor" where
  "collectMetrics r now pm =
     (let ops = cacheHits pm + cacheMisses pm;
          rate = (if ops > 0 then of_nat (cacheHits pm) / of_nat ops else 0);
          avg = (if totalRequests pm > 0 then int (totalLatency pm div totalRequests pm) else 0)
      in pm\<lparr>metrics := \<lparr>CPUUsage = getCPUUsage r, MemoryUsage = Alloc r, GoroutineCount = int (NumGoroutine r),
            GCPauseTime = PauseNs r ! ((NumGC r + 255) mod 256), AllocRate = TotalAlloc r, CacheHitRate = rate,
            Throughput = totalRequests pm, Latency = avg, Timestamp = now\<rparr>\<rparr>)"

text \<open>The actions of a check, in the order in which they are sent.\<close>

definition checkThresholds :: "time \<Rightarrow> PerformanceMetrics \<Rightarrow> PerformanceThresholds \<Rightarrow> TuningAction list" where
  "checkThresholds now m th =
     (if CPUUsage m > MaxCPUUsage th
      then [\<lparr>Type = ''cpu_optimization'', Description = ''High CPU usage detected, optimizing CPU affinity'',
             Parameters = [(''cpu_usage'', CPUUsage m), (''threshold'', MaxCPUUsage th)], act_Timestamp = now\<rparr>] else []) @
     (if MemoryUsage m > MaxMemoryUsage th
      then [\<lparr>Type = ''memory_optimization'', Description = ''High memory usage detected, triggering GC and memory optimization'',
             Parameters = [(''memory_usage'', of_nat (MemoryUsage m)), (''threshold'', of_nat (MaxMemoryUsage th))],
             act_Timestamp = now\<rparr>] else []) @
     (if CacheHitRate m < MinCacheHitRate th
      then [\<lparr>Type = ''cache_optimization'', Description = ''Low cache hit rate detected, optimizing cache strategy'',
             Parameters = [(''hit_rate'', CacheHitRate m), (''threshold'', MinCacheHitRate th)], act_Timestamp = now\<rparr>] else []) @
     (if GCPauseTime m > MaxGCPauseTime th
      then [\<lparr>Type = ''gc_optimization'', Description = ''High GC pause time detected, optimizing garbage collection'',
             Parameters = [(''gc_pause_time'', of_int (GCPauseTime m)), (''threshold'', of_int (MaxGCPauseTime th))],
             act_Timestamp = now\<rparr>] else [])"

definition optimizeCPU :: "PerformanceMonitor \<Rightarrow> PerformanceMonitor" where "optimizeCPU pm = pm"
definition optimizeMemory :: "PerformanceMonitor \<Rightarrow> PerformanceMonitor" where "optimizeMemory pm = pm\<lparr>collections := collections pm + 1\<rparr>"
definition optimizeCache :: "PerformanceMonitor \<Rightarrow> PerformanceMonitor" where
  "optimizeCache pm = (if has_pool pm then pm\<lparr>preallocated := preallocated pm + 100\<rparr> else pm)"
definition optimizeGC :: "PerformanceMonitor \<Rightarrow> PerformanceMonitor" where "optimizeGC pm = pm\<lparr>maxprocs := maxprocs pm + 10\<rparr>"

definition executeTuningAction :: "TuningAction \<Rightarrow> PerformanceMonitor \<Rightarrow> PerformanceMonitor" where
  "executeTuningAction a pm =
     (let pm = pm\<lparr>tuningActions := tuningActions pm @ [a]\<rparr>
      in if Type a = ''cpu_optimization'' then optimizeCPU pm
         else if Type a = ''memory_optimization'' then optimizeMemory pm
         else if Type a = ''cache_optimization'' then optimizeCache pm
         else if Type a = ''gc_optimization'' then optimizeGC pm
         else pm)"

definition RecordRequest :: "nat \<Rightarrow> PerformanceMonitor \<Rightarrow> PerformanceMonitor" where
  "RecordRequest latency pm = pm\<lparr>totalRequests := totalRequests pm + 1, totalLatency := totalLatency pm + latency\<rparr>"

definition RecordCacheHit :: "PerformanceMonitor \<Rightarrow> PerformanceMonitor" where
  "RecordCacheHit pm = pm\<lparr>cacheHits := cacheHits pm + 1\<rparr>"

definition RecordCacheMiss :: "PerformanceMonitor \<Rightarrow> PerformanceMonitor" where
  "RecordCacheMiss pm = pm\<lparr>cacheMisses := cacheMisses pm + 1\<rparr>"

definition GetMetrics :: "PerformanceMonitor \<Rightarrow> PerformanceMetrics" where "GetMetrics pm = metrics pm"
definition GetTuningActions :: "PerformanceMonitor \<Rightarrow> TuningAction list" where "GetTuningActions pm = tuningActions pm"

definition SetThresholds :: "PerformanceThresholds \<Rightarrow> PerformanceMonitor \<Rightarrow> PerformanceMonitor" where
  "SetThresholds th pm = pm\<lparr>thresholds := th\<rparr>"

definition set_enabled :: "bool \<Rightarrow> PerformanceMonitor \<Rightarrow> PerformanceMonitor" where
  "set_enabled b pm = pm\<lparr>enabled := b\<rparr>"

text \<open>The steps of the loops; a send waits while the channel of 100 is full.\<close>

inductive pm_step :: "PerformanceMonitor \<Rightarrow> PerformanceMonitor \<Rightarrow> bool" where
  start: "pm_step pm (Start pm)"
| stop: "Stop pm = Some pm' \<Longrightarrow> pm_step pm pm'"
| request: "pm_step pm (RecordRequest l pm)"
| hit: "pm_step pm (RecordCacheHit pm)"
| miss: "pm_step pm (RecordCacheMiss pm)"
| set_thresholds: "pm_step pm (SetThresholds th pm)"
| enable: "pm_step pm (set_enabled b pm)"
| tick: "i < length (monitors pm) \<Longrightarrow> monitors pm ! i = Selecting \<Longrightarrow>
    pm_step pm ((collectMetrics r now pm)\<lparr>monitors := (monitors pm)[i := Collected]\<rparr>)"
| check: "i < length (monitors pm) \<Longrightarrow> monitors pm ! i = Collected \<Longrightarrow> acts = checkThresholds now (metrics pm) (thresholds pm) \<Longrightarrow>
    pm_step pm (pm\<lparr>monitors := (monitors pm)[i := Sending acts], raised := raised pm @ acts\<rparr>)"
| send: "i < length (monitors pm) \<Longrightarrow> monitors pm ! i = Sending (a # acts) \<Longrightarrow> length (tuningChan pm) < 100 \<Longrightarrow>
    pm_step pm (pm\<lparr>monitors := (monitors pm)[i := Sending acts], tuningChan := tuningChan pm @ [a]\<rparr>)"
| sent: "i < length (monitors pm) \<Longrightarrow> monitors pm ! i = Sending [] \<Longrightarrow> pm_step pm (pm\<lparr>monitors := (monitors pm)[i := Selecting]\<rparr>)"
| monitor_quit: "i < length (monitors pm) \<Longrightarrow> monitors pm ! i = Selecting \<Longrightarrow> stopped pm \<Longrightarrow>
    pm_step pm (pm\<lparr>monitors := (monitors pm)[i := MonitorGone]\<rparr>)"
| take: "i < length (tuners pm) \<Longrightarrow> tuners pm ! i = Waiting \<Longrightarrow> tuningChan pm = a # acts \<Longrightarrow>
    pm_step pm (pm\<lparr>tuners := (tuners pm)[i := Executing a], tuningChan := acts\<rparr>)"
| execute: "i < length (tuners pm) \<Longrightarrow> tuners pm ! i = Executing a \<Longrightarrow>
    pm_step pm (executeTuningAction a (pm\<lparr>tuners := (tuners pm)[i := Waiting]\<rparr>))"
| tuner_quit: "i < length (tuners pm) \<Longrightarrow> tuners pm ! i = Waiting \<Longrightarrow> stopped pm \<Longrightarrow>
    pm_step pm (pm\<lparr>tuners := (tuners pm)[i := TunerGone]\<rparr>)"

section \<open>No action is lost\<close>

fun unsent :: "monitor_pc \<Rightarrow> TuningAction list" where
  "unsent (Sending acts) = acts"
| "unsent _ = []"

fun in_hand :: "tuner_pc \<Rightarrow> TuningAction list" where
  "in_hand (Executing a) = [a]"
| "in_hand _ = []"

definition executed :: "string \<Rightarrow> PerformanceMonitor \<Rightarrow> nat" where
  "executed ty pm = length (filter (\<lambda>a. Type a = ty) (tuningActions pm))"

definition tuning_actions :: "PerformanceMonitor \<Rightarrow> TuningAction multiset" where
  "tuning_actions pm = mset (tuningActions pm @ concat (map in_hand (tuners pm)) @ tuningChan pm @ concat (map unsent (monitors pm)))"

definition pm_inv :: "int \<Rightarrow> PerformanceMonitor \<Rightarrow> bool" where
  "pm_inv procs pm \<longleftrightarrow> mset (raised pm) = tuning_actions pm \<and> length (tuningChan pm) \<le> 100 \<and>
     maxprocs pm = procs + 10 * int (executed ''gc_optimization'' pm) \<and>
     preallocated pm = (if has_pool pm then 100 * executed ''cache_optimization'' pm else 0) \<and>
     collections pm = executed ''memory_optimization'' pm"

lemma executeTuningAction_simps [simp]:
  "tuningActions (executeTuningAction a pm) = tuningActions pm @ [a]"
  "tuners (executeTuningAction a pm) = tuners pm" "tuningChan (executeTuningAction a pm) = tuningChan pm"
  "monitors (executeTuningAction a pm) = monitors pm" "raised (executeTuningAction a pm) = raised pm"
  "has_pool (executeTuningAction a pm) = has_pool pm"
  "maxprocs (executeTuningAction a pm) = maxprocs pm + (if Type a = ''gc_optimization'' then 10 else 0)"
  "preallocated (executeTuningAction a pm) = preallocated pm + (if has_pool pm \<and> Type a = ''cache_optimization'' then 100 else 0)"
  "collections (executeTuningAction a pm) = collections pm + (if Type a = ''memory_optimization'' then 1 else 0)"
  by (simp_all add: executeTuningAction_def Let_def optimizeCPU_def optimizeMemory_def optimizeCache_def optimizeGC_def)

lemma pmon_inv_New: "pm_inv procs (NewPerformanceMonitor pool procs)"
  by (simp add: pm_inv_def tuning_actions_def NewPerformanceMonitor_def executed_def)

lemmas pm_defs = pm_inv_def tuning_actions_def executed_def

lemma pmon_step_inv: "pm_step pm pm' \<Longrightarrow> pm_inv procs pm \<Longrightarrow> pm_inv procs pm'"
proof (induction rule: pm_step.induct)
  case (stop pm pm')
  then show ?case by (auto simp: Stop_def pm_defs split: if_splits)
next
  case (tick i pm r now)
  then show ?case using mset_concat_map_update[of i "monitors pm" unsent Collected]
    by (simp add: pm_defs collectMetrics_def Let_def)
next
  case (check i pm acts now)
  then show ?case using mset_concat_map_update[of i "monitors pm" unsent "Sending acts"] by (simp add: pm_defs)
next
  case (send i pm a acts)
  then show ?case using mset_concat_map_update[of i "monitors pm" unsent "Sending acts"] by (simp add: pm_defs)
next
  case (sent i pm)
  then show ?case using mset_concat_map_update[of i "monitors pm" unsent Selecting] by (simp add: pm_defs)
next
  case (monitor_quit i pm)
  then show ?case using mset_concat_map_update[of i "monitors pm" unsent MonitorGone] by (simp add: pm_defs)
next
  case (take i pm a acts)
  then show ?case using mset_concat_map_update[of i "tuners pm" in_hand "Executing a"] by (simp add: pm_defs)
next
  case (execute i pm a)
  then show ?case using mset_concat_map_update[of i "tuners pm" in_hand Waiting] by (simp add: pm_defs)
next
  case (tuner_quit i pm)
  then show ?case using mset_concat_map_update[of i "tuners pm" in_hand TunerGone] by (simp add: pm_defs)
qed (simp_all add: pm_defs Start_def RecordRequest_def RecordCacheHit_def RecordCacheMiss_def SetThresholds_def set_enabled_def)

text \<open>
  However checks, sends, executions, starts and stops interleave, each action a check raised is once in
  the history, in execution, on the channel or unsent; each executed optimisation of the garbage
  collection has raised the number of processors by 10, and each of the cache has added 100 buffers.
\<close>

lemma tuning_actions_accounted:
  assumes "pm_step\<^sup>*\<^sup>* (NewPerformanceMonitor pool procs) pm"
  shows "mset (raised pm) = mset (tuningActions pm @ concat (map in_hand (tuners pm)) @ tuningChan pm @ concat (map unsent (monitors pm))) \<and>
    length (tuningChan pm) \<le> 100 \<and> maxprocs pm = procs + 10 * int (executed ''gc_optimization'' pm) \<and>
    preallocated pm = (if has_pool pm then 100 * executed ''cache_optimization'' pm else 0)"
proof -
  have "pm_inv procs pm" using assms by (induction rule: rtranclp_induct) (auto intro: pmon_inv_New pmon_step_inv)
  then show ?thesis by (simp add: pm_inv_def tuning_actions_def)
qed

text \<open>Without any cache operation the rate is 0: with the default thresholds every check asks for more buffers.\<close>

lemma unused_cache_is_tuned:
  fixes r :: runtime_stats and now :: time
  assumes "cacheHits pm + cacheMisses pm = 0" "thresholds pm = defaultThresholds"
  defines "pm' \<equiv> collectMetrics r now pm"
  shows "''cache_optimization'' \<in> Type ` set (checkThresholds t (metrics pm') (thresholds pm'))"
  using assms by (simp add: pm'_def collectMetrics_def checkThresholds_def defaultThresholds_def Let_def)

text \<open>The limits on goroutines and on the latency are not looked at.\<close>

lemma limits_not_checked:
  "checkThresholds t m (th\<lparr>MaxGoroutines := a, MaxLatency := b\<rparr>) = checkThresholds t m th"
  by (simp add: checkThresholds_def)

text \<open>
  The tuning loop may end before the monitoring loop: then the latter, once the channel is full, waits in its
  send for ever, whatever else happens, unless the monitor is started again.
\<close>

definition blocked :: "nat \<Rightarrow> PerformanceMonitor \<Rightarrow> bool" where
  "blocked i pm \<longleftrightarrow> i < length (monitors pm) \<and> (\<exists>a acts. monitors pm ! i = Sending (a # acts)) \<and>
     length (tuningChan pm) = 100 \<and> set (tuners pm) \<subseteq> {TunerGone}"

lemma blocked_for_ever:
  assumes "pm_step pm pm'" "blocked i pm" "length (tuners pm') = length (tuners pm)"
  shows "blocked i pm' \<and> monitors pm' ! i = monitors pm ! i"
  using assms
proof (induction rule: pm_step.induct)
  case (tick j pm r now)
  then show ?case by (cases "j = i") (auto simp: blocked_def collectMetrics_def Let_def)
next
  case (check j pm acts now)
  then show ?case by (cases "j = i") (auto simp: blocked_def)
next
  case (sent j pm)
  then show ?case by (cases "j = i") (auto simp: blocked_def)
next
  case (monitor_quit j pm)
  then show ?case by (cases "j = i") (auto simp: blocked_def)
qed (auto simp: blocked_def Start_def Stop_def RecordRequest_def RecordCacheHit_def RecordCacheMiss_def SetThresholds_def
  set_enabled_def subset_iff in_set_conv_nth split: if_splits)

lemma second_close_panics: "Stop pm = Some pm' \<Longrightarrow> Stop pm' = None"
  by (auto simp: Stop_def split: if_splits)

end
