(* ===== verification/Grpc_Handler.thy ===== *)
theory Grpc_Handler
  imports Prelude
begin

text \<open>
  The gRPC handler of \<^verbatim>\<open>core/protocols/grpc\<close> with the interceptors of \<^verbatim>\<open>core/interceptor\<close>, and the
  configurations of the three protocols. Of the library a server is the options it was made with and the
  services registered with it, a client connection its target and whether it is shut down. The lemmas show
  that the connection manager keeps one live connection for each target, that the interceptors change no
  answer, and what the listener of a single connection does.
\<close>

section \<open>Configurations\<close>

record GRPCConfig =
  MaxRecvMsgSize :: int
  MaxSendMsgSize :: int
  ConnectionTimeout :: duration
  KeepaliveTime :: duration
  KeepaliveTimeout :: duration
  EnableReflection :: bool
  EnableHealthCheck :: bool
  MaxConcurrentStreams :: nat

definition DefaultGRPCConfig :: GRPCConfig where
  "DefaultGRPCConfig = \<lparr>MaxRecvMsgSize = push_bit 20 4, MaxSendMsgSize = push_bit 20 4, ConnectionTimeout = 30 * second,
     KeepaliveTime = 30 * second, KeepaliveTimeout = 5 * second, EnableReflection = True, EnableHealthCheck = True,
     MaxConcurrentStreams = 1000\<rparr>"

record HTTPConfig =
  EnableHTTP2 :: bool
  MaxHeaderSize :: int
  ReadTimeout :: duration
  WriteTimeout :: duration
  IdleTimeout :: duration
  EnableGzip :: bool
  MaxRequestSize :: int

definition DefaultHTTPConfig :: HTTPConfig where
  "DefaultHTTPConfig = \<lparr>EnableHTTP2 = True, MaxHeaderSize = push_bit 20 1, ReadTimeout = 30 * second, WriteTimeout = 30 * second,
     IdleTimeout = 120 * second, EnableGzip = True, MaxRequestSize = push_bit 20 32\<rparr>"

record WebSocketConfig =
  MaxConnections :: int
  PingInterval :: duration
  PongTimeout :: duration
  MaxMessageSize :: int
  EnableCompression :: bool
  ReadBufferSize :: int
  WriteBufferSize :: int
  HandshakeTimeout :: duration

definition DefaultWebSocketConfig :: WebSocketConfig where
  "DefaultWebSocketConfig = \<lparr>MaxConnections = 1000, PingInterval = 30 * second, PongTimeout = 10 * second,
     MaxMessageSize = 1024 * 1024, EnableCompression = True, ReadBufferSize = 4096, WriteBufferSize = 4096,
     HandshakeTimeout = 10 * second\<rparr>"

section \<open>The connection manager\<close>

record ClientConn =
  Target :: string
  Shutdown :: bool

text \<open>The connections ever made, by number, and the map of the manager.\<close>

record GRPCConnectionManager =
  conns :: "ClientConn list"
  connections :: "string \<rightharpoonup> nat"

definition NewGRPCConnectionManager :: GRPCConnectionManager where
  "NewGRPCConnectionManager = \<lparr>conns = [], connections = Map.empty\<rparr>"

text \<open>The part under the read lock: the connection that is there and not shut down.\<close>

definition find_conn :: "string \<Rightarrow> GRPCConnectionManager \<Rightarrow> nat option" where
  "find_conn t cm = (case connections cm t of None \<Rightarrow> None | Some c \<Rightarrow> if \<not> Shutdown (conns cm ! c) then Some c else None)"

text \<open>The part under the write lock, which looks again; \<open>dials\<close>: whether \<^verbatim>\<open>grpc.Dial\<close> succeeds.\<close>

definition dial_conn :: "bool \<Rightarrow> string \<Rightarrow> GRPCConnectionManager \<Rightarrow> GRPCConnectionManager \<times> nat option" where
  "dial_conn dials t cm = (case find_conn t cm of
     Some c \<Rightarrow> (cm, Some c)
   | None \<Rightarrow> if \<not> dials then (cm, None)
       else (cm\<lparr>conns := conns cm @ [\<lparr>Target = t, Shutdown = False\<rparr>], connections := (connections cm)(t \<mapsto> length (conns cm))\<rparr>,
             Some (length (conns cm))))"

definition GetConnection :: "bool \<Rightarrow> string \<Rightarrow> GRPCConnectionManager \<Rightarrow> GRPCConnectionManager \<times> nat option" where
  "GetConnection dials t cm = (case find_conn t cm of Some c \<Rightarrow> (cm, Some c) | None \<Rightarrow> dial_conn dials t cm)"

definition shut :: "nat \<Rightarrow> GRPCConnectionManager \<Rightarrow> GRPCConnectionManager" where
  "shut c cm = cm\<lparr>conns := (conns cm)[c := (conns cm ! c)\<lparr>Shutdown := True\<rparr>]\<rparr>"

definition CloseConnection :: "string \<Rightarrow> GRPCConnectionManager \<Rightarrow> GRPCConnectionManager" where
  "CloseConnection t cm = (case connections cm t of
     None \<Rightarrow> cm | Some c \<Rightarrow> shut c (cm\<lparr>connections := (connections cm)(t := None)\<rparr>))"

text \<open>\<open>ts\<close>: the targets in the order of \<^verbatim>\<open>range\<close>.\<close>

definition CloseAll :: "string list \<Rightarrow> GRPCConnectionManager \<Rightarrow> GRPCConnectionManager" where
  "CloseAll ts cm = fold CloseConnection ts cm"

text \<open>
  The steps of any number of callers: \<^verbatim>\<open>GetConnection\<close> finds no connection under the read lock and goes on
  to dial at any later time (\<open>Dial\<close>). Closing a connection from outside, by whoever got it, is \<open>ShutConn\<close>.
\<close>

datatype cm_act = Dial bool string | CloseOne string | CloseEach "string list" | ShutConn nat

fun cm_step :: "cm_act \<Rightarrow> GRPCConnectionManager \<Rightarrow> GRPCConnectionManager" where
  "cm_step (Dial dials t) cm = fst (dial_conn dials t cm)"
| "cm_step (CloseOne t) cm = CloseConnection t cm"
| "cm_step (CloseEach ts) cm = CloseAll ts cm"
| "cm_step (ShutConn c) cm = shut c cm"

text \<open>Every live connection is the one of the map for its target, and the map has only connections to its targets.\<close>

definition cm_live :: "GRPCConnectionManager \<Rightarrow> bool" where
  "cm_live cm \<longleftrightarrow> (\<forall>c<length (conns cm). Shutdown (conns cm ! c) \<or> connections cm (Target (conns cm ! c)) = Some c)"

definition cm_wf :: "GRPCConnectionManager \<Rightarrow> bool" where
  "cm_wf cm \<longleftrightarrow> (\<forall>t c. connections cm t = Some c \<longrightarrow> c < length (conns cm) \<and> Target (conns cm ! c) = t)"

definition cm_inv :: "GRPCConnectionManager \<Rightarrow> bool" where
  "cm_inv cm \<longleftrightarrow> cm_live cm \<and> cm_wf cm"

lemma shut_simps [simp]:
  "length (conns (shut c cm)) = length (conns cm)" "connections (shut c cm) = connections cm"
  "c' < length (conns cm) \<Longrightarrow> Target (conns (shut c cm) ! c') = Target (conns cm ! c')"
  "c' < length (conns cm) \<Longrightarrow> Shutdown (conns (shut c cm) ! c') \<longleftrightarrow> c' = c \<or> Shutdown (conns cm ! c')"
  by (cases "c' = c"; auto simp: shut_def)+

lemma cm_inv_shut: "cm_inv cm \<Longrightarrow> cm_inv (shut c cm)"
  by (simp add: cm_inv_def cm_live_def cm_wf_def)

lemma cm_inv_close: assumes "cm_inv cm" shows "cm_inv (CloseConnection t cm)"
proof (cases "connections cm t")
  case (Some c)
  let ?cm = "cm\<lparr>connections := (connections cm)(t := None)\<rparr>"
  have "cm_wf (shut c ?cm)" using assms by (auto simp: cm_inv_def cm_wf_def)
  moreover have "cm_live (shut c ?cm)" unfolding cm_live_def
  proof (intro allI impI)
    fix d assume d: "d < length (conns (shut c ?cm))"
    show "Shutdown (conns (shut c ?cm) ! d) \<or> connections (shut c ?cm) (Target (conns (shut c ?cm) ! d)) = Some d"
    proof (cases "Target (conns cm ! d) = t \<and> \<not> Shutdown (conns cm ! d)")
      case True
      with assms Some d have "d = c" by (auto simp: cm_inv_def cm_live_def)
      with d show ?thesis by simp
    qed (use assms d in \<open>auto simp: cm_inv_def cm_live_def\<close>)
  qed
  ultimately show ?thesis using Some by (simp add: cm_inv_def CloseConnection_def)
qed (use assms in \<open>simp add: CloseConnection_def\<close>)

lemma cm_inv_dial: assumes "cm_inv cm" shows "cm_inv (fst (dial_conn d t cm))"
proof (cases "find_conn t cm = None \<and> d")
  case True
  let ?n = "length (conns cm)"
  let ?cm = "cm\<lparr>conns := conns cm @ [\<lparr>Target = t, Shutdown = False\<rparr>], connections := (connections cm)(t \<mapsto> ?n)\<rparr>"
  have "cm_wf ?cm" using assms by (auto simp: cm_inv_def cm_wf_def nth_append less_Suc_eq)
  moreover have "cm_live ?cm" unfolding cm_live_def
  proof (intro allI impI)
    fix c assume c: "c < length (conns ?cm)"
    show "Shutdown (conns ?cm ! c) \<or> connections ?cm (Target (conns ?cm ! c)) = Some c"
    proof (cases "c < ?n \<and> Target (conns cm ! c) = t")
      case True
      with assms have "Shutdown (conns cm ! c) \<or> connections cm t = Some c" by (auto simp: cm_inv_def cm_live_def)
      with \<open>find_conn t cm = None \<and> d\<close> have "Shutdown (conns cm ! c)" by (auto simp: find_conn_def split: if_splits)
      with True show ?thesis by (simp add: nth_append)
    qed (use assms c in \<open>auto simp: cm_inv_def cm_live_def nth_append less_Suc_eq\<close>)
  qed
  ultimately show ?thesis using True by (simp add: cm_inv_def dial_conn_def)
qed (use assms in \<open>auto simp: dial_conn_def split: option.splits\<close>)

lemma cm_inv_closes: "cm_inv cm \<Longrightarrow> cm_inv (CloseAll ts cm)"
  unfolding CloseAll_def by (induction ts arbitrary: cm) (simp_all add: cm_inv_close)

lemma cm_step_inv: "cm_inv cm \<Longrightarrow> cm_inv (cm_step a cm)"
  by (cases a) (simp_all add: cm_inv_shut cm_inv_close cm_inv_dial cm_inv_closes)

lemma cm_run_inv: "cm_inv (fold cm_step as NewGRPCConnectionManager)"
proof -
  have "cm_inv cm \<Longrightarrow> cm_inv (fold cm_step as cm)" for cm by (induction as arbitrary: cm) (simp_all add: cm_step_inv)
  then show ?thesis by (simp add: cm_inv_def cm_live_def cm_wf_def NewGRPCConnectionManager_def)
qed

text \<open>
  C38. However callers get, close and shut connections, each connection that is not shut down is the one
  the manager holds for its target, so that there is at most one for each target and none is lost, and a
  caller whose dial succeeds gets a live connection to its target.
\<close>

theorem grpc_one_live_connection:
  "let cm = fold cm_step as NewGRPCConnectionManager in
   (\<forall>c<length (conns cm). Shutdown (conns cm ! c) \<or> connections cm (Target (conns cm ! c)) = Some c) \<and>
   (case GetConnection True t cm of (cm', r) \<Rightarrow>
      \<exists>c. r = Some c \<and> c < length (conns cm') \<and> Target (conns cm' ! c) = t \<and> Shutdown (conns cm' ! c) = False)"
proof -
  let ?cm = "fold cm_step as NewGRPCConnectionManager"
  have inv: "cm_inv ?cm" by (rule cm_run_inv)
  have "\<exists>c. snd (GetConnection True t ?cm) = Some c \<and> c < length (conns (fst (GetConnection True t ?cm))) \<and>
      Target (conns (fst (GetConnection True t ?cm)) ! c) = t \<and> \<not> Shutdown (conns (fst (GetConnection True t ?cm)) ! c)"
    using inv by (cases "find_conn t ?cm")
      (auto simp: GetConnection_def dial_conn_def find_conn_def cm_inv_def cm_wf_def split: option.splits if_splits)
  then show ?thesis using inv by (simp add: Let_def cm_inv_def cm_live_def case_prod_unfold)
qed

definition cm_example :: "cm_act list" where
  "cm_example = [Dial True ''a:1'', Dial True ''a:1'', ShutConn 0, Dial True ''a:1'', Dial True ''b:1'', CloseOne ''b:1'']"

theorem grpc_one_live_connection_witness:
  "let cm = fold cm_step cm_example NewGRPCConnectionManager in
   length (conns cm) = 3 \<and> connections cm ''a:1'' = Some 1 \<and>
   (\<forall>c<3. Shutdown (conns cm ! c) \<or> connections cm (Target (conns cm ! c)) = Some c)"
proof -
  have "length (conns (fold cm_step cm_example NewGRPCConnectionManager)) = 3"
    "connections (fold cm_step cm_example NewGRPCConnectionManager) ''a:1'' = Some 1"
    by (simp_all add: cm_example_def NewGRPCConnectionManager_def dial_conn_def find_conn_def shut_def CloseConnection_def)
  with grpc_one_live_connection[of cm_example "''a:1''"] show ?thesis by (simp add: Let_def)
qed

section \<open>Health checks\<close>

text \<open>The status of a response; a registered server answers with what it likes.\<close>

datatype ServingStatus = UNKNOWN | SERVING | NOT_SERVING | SERVICE_UNKNOWN

record 'e HealthServer =
  srv_Check :: "string \<Rightarrow> 'e + ServingStatus"
  srv_Watch :: "string \<Rightarrow> ServingStatus list \<times> 'e option"

type_synonym 'e HealthChecker = "string \<rightharpoonup> 'e HealthServer"

definition NewHealthChecker :: "'e HealthChecker" where "NewHealthChecker = Map.empty"

definition hc_RegisterService :: "string \<Rightarrow> 'e HealthServer \<Rightarrow> 'e HealthChecker \<Rightarrow> 'e HealthChecker" where
  "hc_RegisterService name server hc = hc(name \<mapsto> server)"

definition hc_Check :: "string \<Rightarrow> 'e HealthChecker \<Rightarrow> 'e + ServingStatus" where
  "hc_Check service hc = (case hc service of Some s \<Rightarrow> srv_Check s service | None \<Rightarrow> Inr SERVING)"

text \<open>What is sent on the stream, and the error with which the call ends; \<open>send\<close>: the error of a send.\<close>

definition hc_Watch :: "'e option \<Rightarrow> string \<Rightarrow> 'e HealthChecker \<Rightarrow> ServingStatus list \<times> 'e option" where
  "hc_Watch send service hc = (case hc service of Some s \<Rightarrow> srv_Watch s service | None \<Rightarrow> ([SERVING], send))"

text \<open>A service nobody registered is serving, and watching it ends after the first message.\<close>

lemma unknown_service_is_serving:
  "service \<notin> dom hc \<Longrightarrow> hc_Check service hc = Inr SERVING \<and> hc_Watch None service hc = ([SERVING], None)"
  by (simp add: hc_Check_def hc_Watch_def domIff)

lemma registered_service_answers:
  "hc_Check n (hc_RegisterService n s hc) = srv_Check s n" "n' \<noteq> n \<Longrightarrow> hc_Check n' (hc_RegisterService n s hc) = hc_Check n' hc"
  by (simp_all add: hc_Check_def hc_RegisterService_def)

section \<open>The handler\<close>

text \<open>Interceptors and services by number. A server has the options of the time at which it was made.\<close>

record Server =
  srv_unary :: "nat list"
  srv_stream :: "nat list"
  srv_recv :: int
  srv_sendsize :: int
  srv_streams :: nat
  srv_services :: "string list"
  srv_stopped :: bool

record GRPCHandler =
  grpcServer :: "Server option"
  unaryInterceptors :: "nat list"
  streamInterceptors :: "nat list"
  gh_config :: GRPCConfig
  connManager :: GRPCConnectionManager

definition NewGRPCHandlerWithConfig :: "GRPCConfig \<Rightarrow> GRPCHandler" where
  "NewGRPCHandlerWithConfig config = \<lparr>grpcServer = None, unaryInterceptors = [], streamInterceptors = [], gh_config = config,
     connManager = NewGRPCConnectionManager\<rparr>"

definition NewGRPCHandler :: GRPCHandler where "NewGRPCHandler = NewGRPCHandlerWithConfig DefaultGRPCConfig"

definition AddUnaryInterceptor :: "nat \<Rightarrow> GRPCHandler \<Rightarrow> GRPCHandler" where
  "AddUnaryInterceptor i h = h\<lparr>unaryInterceptors := unaryInterceptors h @ [i]\<rparr>"

definition AddStreamInterceptor :: "nat \<Rightarrow> GRPCHandler \<Rightarrow> GRPCHandler" where
  "AddStreamInterceptor i h = h\<lparr>streamInterceptors := streamInterceptors h @ [i]\<rparr>"

definition health_service :: string where "health_service = ''grpc.health.v1.Health''"

definition InitializeServer :: "GRPCHandler \<Rightarrow> GRPCHandler" where
  "InitializeServer h = (let c = gh_config h in h\<lparr>grpcServer := Some \<lparr>srv_unary = unaryInterceptors h,
     srv_stream = streamInterceptors h, srv_recv = MaxRecvMsgSize c, srv_sendsize = MaxSendMsgSize c,
     srv_streams = MaxConcurrentStreams c, srv_services = (if EnableHealthCheck c then [health_service] else []), srv_stopped = False\<rparr>\<rparr>)"

definition ensure_server :: "GRPCHandler \<Rightarrow> GRPCHandler" where
  "ensure_server h = (if grpcServer h = None then InitializeServer h else h)"

text \<open>
  The goroutine that \<^verbatim>\<open>Handle\<close> starts gives the listener of the connection to the server it finds then:
  the result is that server, and whether it serves; afterwards the connection is closed.
\<close>

definition gh_Handle :: "GRPCHandler \<Rightarrow> GRPCHandler" where
  "gh_Handle h = ensure_server h"

definition gh_serve :: "GRPCHandler \<Rightarrow> (Server \<times> bool) option" where
  "gh_serve h = map_option (\<lambda>s. (s, \<not> srv_stopped s)) (grpcServer h)"

definition gh_RegisterService :: "string \<Rightarrow> GRPCHandler \<Rightarrow> GRPCHandler" where
  "gh_RegisterService name h = (let h = ensure_server h
     in h\<lparr>grpcServer := map_option (\<lambda>s. s\<lparr>srv_services := srv_services s @ [name]\<rparr>) (grpcServer h)\<rparr>)"

definition GracefulStop :: "GRPCHandler \<Rightarrow> GRPCHandler" where
  "GracefulStop h = h\<lparr>grpcServer := map_option (\<lambda>s. s\<lparr>srv_stopped := True\<rparr>) (grpcServer h)\<rparr>"

text \<open>Interceptors count that were added before the first service or connection; later ones are never called.\<close>

lemma interceptors_before_first_use:
  "grpcServer h = None \<Longrightarrow> \<exists>s. grpcServer (gh_RegisterService n h) = Some s \<and> srv_unary s = unaryInterceptors h"
  by (simp add: gh_RegisterService_def ensure_server_def InitializeServer_def Let_def)

lemma late_interceptor_ignored:
  "grpcServer h \<noteq> None \<Longrightarrow> grpcServer (gh_Handle (AddUnaryInterceptor i (AddStreamInterceptor j h))) = grpcServer h"
  by (auto simp: gh_Handle_def ensure_server_def AddUnaryInterceptor_def AddStreamInterceptor_def)

text \<open>After a stop the handler keeps the stopped server: every later connection is closed at once.\<close>

lemma stopped_handler_serves_nothing:
  "grpcServer h \<noteq> None \<Longrightarrow> gh_serve (gh_Handle (gh_RegisterService n (GracefulStop h))) \<noteq> None \<and>
     (\<forall>s b. gh_serve (gh_Handle (gh_RegisterService n (GracefulStop h))) = Some (s, b) \<longrightarrow> \<not> b)"
  by (auto simp: gh_serve_def gh_Handle_def gh_RegisterService_def GracefulStop_def ensure_server_def Let_def)

text \<open>
  The server is not made under the mutex: two goroutines that both find none make one each, and what was
  registered with the first is lost.
\<close>

lemma server_made_twice:
  assumes "grpcServer h = None"
  shows "\<exists>s. grpcServer (InitializeServer (gh_RegisterService n h)) = Some s \<and>
    srv_services s = (if EnableHealthCheck (gh_config h) then [health_service] else [])"
  using assms by (simp add: gh_RegisterService_def ensure_server_def InitializeServer_def Let_def)

section \<open>The listener of one connection\<close>

type_synonym singleListener = "nat option"

text \<open>The connection may be \<^verbatim>\<open>nil\<close> (\<open>None\<close>); the error always is.\<close>

definition sl_Accept :: "singleListener \<Rightarrow> singleListener \<times> nat option \<times> string option" where
  "sl_Accept l = (None, l, None)"

text \<open>The connection it closes, if any.\<close>

definition sl_Close :: "singleListener \<Rightarrow> nat option" where "sl_Close l = l"

text \<open>\<open>None\<close>: a method of \<^verbatim>\<open>nil\<close> is called and panics.\<close>

definition sl_Addr :: "(nat \<Rightarrow> string) \<Rightarrow> singleListener \<Rightarrow> string option" where
  "sl_Addr LocalAddr l = map_option LocalAddr l"

text \<open>
  After the connection was accepted the address panics, closing closes nothing, and the next call neither
  waits nor fails but returns no connection at all.
\<close>

lemma listener_after_accept:
  assumes "sl_Accept (Some c) = (l, r)"
  shows "r = (Some c, None)" "sl_Addr addr l = None" "sl_Close l = None" "sl_Accept l = (None, None, None)"
  using assms by (auto simp: sl_Accept_def sl_Addr_def sl_Close_def)

section \<open>Interceptors\<close>

text \<open>The log is passed through; a handler returns its response and error.\<close>

type_synonym ('r, 'e) unary = "string list \<Rightarrow> string list \<times> 'r \<times> 'e option"

definition LoggingInterceptor :: "('e \<Rightarrow> string) \<Rightarrow> string \<Rightarrow> ('r, 'e) unary \<Rightarrow> ('r, 'e) unary" where
  "LoggingInterceptor show_err FullMethod h log =
     (case h (log @ [''gRPC request: '' @ FullMethod]) of
       (log, resp, Some e) \<Rightarrow> (log @ [''gRPC error: '' @ show_err e], resp, Some e)
     | (log, resp, None) \<Rightarrow> (log @ [''gRPC response: '' @ FullMethod], resp, None))"

definition AuthInterceptor :: "string \<Rightarrow> ('r, 'e) unary \<Rightarrow> ('r, 'e) unary" where
  "AuthInterceptor FullMethod h log = h (log @ [''Authenticating gRPC request: '' @ FullMethod])"

text \<open>Both give every request to the handler and its answer to the client; the authentication refuses none.\<close>

definition logs_only :: "('r, 'e) unary \<Rightarrow> bool" where
  "logs_only h \<longleftrightarrow> (\<exists>a f. \<forall>log. snd (h log) = a \<and> fst (h log) = log @ f)"

lemma interceptors_transparent:
  assumes "logs_only h"
  shows "snd (LoggingInterceptor se m h log) = snd (h log)" "snd (AuthInterceptor m h log) = snd (h log)"
    "logs_only (LoggingInterceptor se m h)" "logs_only (AuthInterceptor m h)"
proof -
  obtain r e f where h: "h log = (log @ f, r, e)" for log using assms unfolding logs_only_def by (metis prod.collapse)
  show "snd (LoggingInterceptor se m h log) = snd (h log)" "snd (AuthInterceptor m h log) = snd (h log)"
    by (simp_all add: LoggingInterceptor_def AuthInterceptor_def h split: option.split)
  show "logs_only (LoggingInterceptor se m h)"
    by (cases e) (auto simp: logs_only_def LoggingInterceptor_def h)
  show "logs_only (AuthInterceptor m h)" by (auto simp: logs_only_def AuthInterceptor_def h)
qed

end
