(* ===== verification/Admin_Api.thy ===== *)
theory Admin_Api
  imports Http_Router Complex_Main
begin

text \<open>
  The administration interface of \<^verbatim>\<open>core/api/admin_api.go\<close>: its routes in the HTTP router and its handlers.
  Decoding JSON, parsing a duration and the readings of the clock, in nanoseconds, are parameters; the
  fields of an answer are listed by name. The lemmas show which handler a request reaches, and that the
  answers say nothing about the server.
\<close>

section \<open>Requests and answers\<close>

datatype field = FText string | FInt int | FRat rat | FBool bool | FObject "(string \<times> field) list"

datatype answer = HttpError string int | Json "(string \<times> field) list"

record request =
  Query :: "string \<Rightarrow> string"
  Body :: string

definition protocols :: "string list" where "protocols = [''http'', ''websocket'', ''grpc'']"

section \<open>Handlers\<close>

definition parseDuration :: "(string \<Rightarrow> duration option) \<Rightarrow> string \<Rightarrow> duration option" where
  "parseDuration ParseDuration granularity = ParseDuration granularity"

text \<open>\<open>ns p\<close>: the five readings of the clock for protocol \<open>p\<close>.\<close>

definition protocol_stats :: "nat list \<Rightarrow> (string \<times> field) list" where
  "protocol_stats ns = [(''requests'', FInt (1000 + int (ns ! 0 mod 1000))), (''errors'', FInt (int (ns ! 1 mod 100))),
     (''latency'', FRat (of_nat (ns ! 2 mod 1000) / 100)), (''throughput'', FRat (of_nat (ns ! 3 mod 10000) / 10)),
     (''active_sessions'', FInt (int (ns ! 4 mod 500)))]"

definition getProtocolStats :: "(string \<Rightarrow> duration option) \<Rightarrow> (string \<Rightarrow> nat list) \<Rightarrow> int \<Rightarrow> request \<Rightarrow> answer" where
  "getProtocolStats ParseDuration ns now r =
     (let granularity = (if Query r ''granularity'' = [] then ''5m'' else Query r ''granularity'')
      in case parseDuration ParseDuration granularity of
           None \<Rightarrow> HttpError ''Invalid granularity parameter'' 400
         | Some _ \<Rightarrow> Json [(''granularity'', FText granularity), (''timestamp'', FInt now),
             (''stats'', FObject (map (\<lambda>p. (p, FObject (protocol_stats (ns p)))) protocols))])"

text \<open>\<open>Decode\<close>: the rate limit in a body.\<close>

definition throttleProtocol :: "(string \<Rightarrow> int option) \<Rightarrow> request \<Rightarrow> answer" where
  "throttleProtocol Decode r =
     (if Query r ''id'' = [] then HttpError ''Protocol ID is required'' 400
      else case Decode (Body r) of
          None \<Rightarrow> HttpError ''Invalid request body'' 400
        | Some limit \<Rightarrow> if limit < 0 then HttpError ''Rate limit must be non-negative'' 400
            else Json [(''success'', FBool True), (''message'', FText ''Rate limit set successfully''),
              (''protocol_id'', FText (Query r ''id'')), (''rate_limit'', FInt limit)])"

text \<open>\<open>Decode\<close>: the strategy in a body, with its parameters left out as nothing reads them.\<close>

definition updateRoutingStrategy :: "(string \<Rightarrow> string option) \<Rightarrow> request \<Rightarrow> answer" where
  "updateRoutingStrategy Decode r = (case Decode (Body r) of
     None \<Rightarrow> HttpError ''Invalid request body'' 400
   | Some strategy \<Rightarrow> if strategy = [] then HttpError ''Strategy is required'' 400
       else Json [(''success'', FBool True), (''message'', FText ''Routing strategy updated successfully''), (''strategy'', FText strategy)])"

fun count_connections :: "(string \<Rightarrow> nat) \<Rightarrow> string list \<Rightarrow> (string \<times> field) list \<times> int \<Rightarrow> (string \<times> field) list \<times> int" where
  "count_connections ns [] acc = acc"
| "count_connections ns (p # ps) (stats, tot) =
     (let n = int (ns p mod 1000) in count_connections ns ps (stats @ [(p, FInt n)], tot + n))"

definition collectConnectionStats :: "(string \<Rightarrow> nat) \<Rightarrow> int \<Rightarrow> (string \<times> field) list" where
  "collectConnectionStats ns now = (case count_connections ns protocols ([], 0) of (stats, tot) \<Rightarrow>
     [(''timestamp'', FInt now), (''total_connections'', FInt tot), (''by_protocol'', FObject stats)])"

text \<open>
  The loop over the ticks; a tick has its readings of the clock and says whether the send succeeds. What was
  sent, and whether the connection was closed: the loop ends at the first failure only.
\<close>

fun monitorConnections :: "((string \<Rightarrow> nat) \<times> int \<times> bool) list \<Rightarrow> (string \<times> field) list list \<times> bool" where
  "monitorConnections [] = ([], False)"
| "monitorConnections ((ns, now, ok) # ticks) = (let stats = collectConnectionStats ns now
     in if \<not> ok then ([], True) else (case monitorConnections ticks of (sent, cl) \<Rightarrow> (stats # sent, cl)))"

section \<open>Routes\<close>

datatype admin_handler = ProtocolStats | Throttle | RoutingStrategy | Monitor

definition RegisterRoutes :: "regexp_pkg \<Rightarrow> admin_handler HTTPRouter \<Rightarrow> admin_handler HTTPRouter option" where
  "RegisterRoutes rx r =
     Option.bind (GET rx ''/protocols/stats'' ProtocolStats r) (\<lambda>r.
     Option.bind (POST rx ''/protocols/:id/throttle'' Throttle r) (\<lambda>r.
     Option.bind (PUT rx ''/routing/strategy'' RoutingStrategy r) (\<lambda>r.
     GET rx ''/debug/connection-monitor'' Monitor r)))"

definition admin_ops :: "admin_handler router_op list" where
  "admin_ops = [AddOp ''GET'' ''/protocols/stats'' ProtocolStats [], AddOp ''POST'' ''/protocols/:id/throttle'' Throttle [],
     AddOp ''PUT'' ''/routing/strategy'' RoutingStrategy [], AddOp ''GET'' ''/debug/connection-monitor'' Monitor []]"

lemma RegisterRoutes_run: "RegisterRoutes rx NewHTTPRouter = run_router rx admin_ops"
  by (simp add: RegisterRoutes_def run_router_def admin_ops_def GET_def POST_def PUT_def AddRoute_def)
    (simp split: Option.bind_split)

section \<open>Which handler answers\<close>

lemma throttle_captures:
  "fits (template ''/protocols/:id/throttle'') caps \<Longrightarrow> fill (template ''/protocols/:id/throttle'') caps = ''/protocols/'' @ x @ ''/throttle'' \<Longrightarrow>
   caps = [x]"
proof -
  assume f: "fits (template ''/protocols/:id/throttle'') caps" "fill (template ''/protocols/:id/throttle'') caps = ''/protocols/'' @ x @ ''/throttle''"
  have t: "template ''/protocols/:id/throttle'' = map Lit ''/protocols/'' @ [Seg] @ map Lit ''/throttle''" by simp
  from f show "caps = [x]" unfolding t by (cases caps; cases "tl caps") auto
qed

text \<open>
  A request to throttle a protocol reaches its handler with the name from the path as a parameter; the
  handler looks for it in the query, and without one there every such request is refused.
\<close>

lemma throttle_route:
  assumes x: "x \<noteq> []" "CHR ''/'' \<notin> set x" "x \<noteq> '':id''"
  shows "\<exists>r. RegisterRoutes rx NewHTTPRouter = Some r \<and>
    ServeHTTP rx ''POST'' (''/protocols/'' @ x @ ''/throttle'') r = Some (Throttle, [''id'' \<mapsto> x])"
proof -
  let ?s = "''/protocols/'' @ x @ ''/throttle''" and ?p = "''/protocols/:id/throttle''"
  let ?e = "(''POST'', ?p, Throttle, [] :: (admin_handler \<Rightarrow> admin_handler) list)"
  from run_router_ok[of rx admin_ops] obtain r where r: "run_router rx admin_ops = Some r"
    "routes r = map (route_of rx) (added admin_ops)" "global_middlewares r = []" by (auto simp: used_def admin_ops_def)
  have t: "template ?p = map Lit ''/protocols/'' @ [Seg] @ map Lit ''/throttle''" by simp
  have "fits (template ?p) [x] \<and> fill (template ?p) [x] = ?s" unfolding t using x(1,2) by simp
  then have inst: "instance_of ?p ?s" unfolding instance_of_def by (intro conjI disjI1 exI[of _ "[x]"]) auto
  have exact: "find (\<lambda>(m, p, h, ms). m = ''POST'' \<and> p = ?s) (added admin_ops) = None" using x(3) by (simp add: added_def admin_ops_def)
  have plain: "\<forall>(m, p, h, ms)\<in>set (added admin_ops). plain p" by (simp add: added_def admin_ops_def plain_def meta_def)
  have found: "find (\<lambda>(m, p, h, ms). m = ''POST'' \<and> instance_of p ?s) (added admin_ops) = Some ?e"
    using inst by (simp add: added_def admin_ops_def)
  from match_pattern_added(2)[OF plain found, of rx] obtain caps where
    "match_pattern rx ''POST'' ?s (routes r) = Some (route_of rx ?e, bind_params (param_matches ?p) caps)" "caps = [x]"
    using throttle_captures[of _ x] unfolding r(2) by fastforce
  then have "ServeHTTP rx ''POST'' ?s r = Some (Throttle, bind_params (param_matches ?p) [x])"
    using exact buildHandler_route_of[OF r(3), of rx "''POST''" ?p Throttle "[]"] find_exact[of "''POST''" ?s rx "added admin_ops"]
    by (simp add: ServeHTTP_def matchRoute_def r(2))
  moreover have "bind_params (param_matches ?p) [x] = [''id'' \<mapsto> x]" by (simp add: bind_params_def)
  ultimately show ?thesis using r(1) by (simp add: RegisterRoutes_run)
qed

lemma throttle_needs_query:
  "Query r ''id'' = [] \<Longrightarrow> throttleProtocol Decode r = HttpError ''Protocol ID is required'' 400"
  by (simp add: throttleProtocol_def)

lemma throttle_accepts_iff:
  "(\<exists>fs. throttleProtocol Decode r = Json fs) \<longleftrightarrow> Query r ''id'' \<noteq> [] \<and> (\<exists>n\<ge>0. Decode (Body r) = Some n)"
  by (auto simp: throttleProtocol_def split: option.splits)

text \<open>The statistics depend on the clock alone, and the total of the monitor is that of its parts.\<close>

lemma stats_ignore_query_but_granularity:
  "Query r ''granularity'' = Query r' ''granularity'' \<Longrightarrow> getProtocolStats pd ns now r = getProtocolStats pd ns now r'"
  by (simp add: getProtocolStats_def)

lemma count_connections_sum:
  "count_connections ns ps (stats, n) = (stats @ map (\<lambda>p. (p, FInt (int (ns p mod 1000)))) ps, n + (\<Sum>p\<leftarrow>ps. int (ns p mod 1000)))"
  by (induction ps arbitrary: stats n) (simp_all add: Let_def)

lemma connection_total:
  "\<exists>tot parts. map_of (collectConnectionStats ns now) ''total_connections'' = Some (FInt tot) \<and>
     map_of (collectConnectionStats ns now) ''by_protocol'' = Some (FObject (map (\<lambda>p. (p, FInt (parts p))) protocols)) \<and>
     tot = (\<Sum>p\<leftarrow>protocols. parts p) \<and> 0 \<le> tot \<and> tot < 3000"
proof -
  let ?parts = "\<lambda>p. int (ns p mod 1000)"
  have "0 \<le> (\<Sum>p\<leftarrow>protocols. ?parts p) \<and> (\<Sum>p\<leftarrow>protocols. ?parts p) < 3000"
    using mod_less_divisor[of 1000 "ns ''http''"] mod_less_divisor[of 1000 "ns ''websocket''"] mod_less_divisor[of 1000 "ns ''grpc''"]
    unfolding protocols_def by simp
  then show ?thesis
    by (intro exI[of _ "\<Sum>p\<leftarrow>protocols. ?parts p"] exI[of _ ?parts]) (simp add: collectConnectionStats_def count_connections_sum)
qed

text \<open>The monitor sends one message for each tick up to the first failure, and without one never ends.\<close>

lemma monitor_sends:
  "monitorConnections ticks = (map (\<lambda>(ns, now, ok). collectConnectionStats ns now) (takeWhile (\<lambda>(ns, now, ok). ok) ticks),
     \<exists>(ns, now, ok)\<in>set ticks. \<not> ok)"
  by (induction ticks rule: monitorConnections.induct) (auto simp: Let_def split: prod.splits)

end
