(* ===== verification/Error_Middleware.thy ===== *)
theory Error_Middleware
  imports Error_Manager
begin

text \<open>
  The rest of \<^verbatim>\<open>pkg/errors\<close>: the functions that make and test errors and the converters of
  \<^verbatim>\<open>converter.go\<close>, and the HTTP middleware and gRPC interceptor of \<^verbatim>\<open>middleware.go\<close>. A format with its
  arguments is the text it gives. The lemmas show for which errors the conversion returns, and what a
  client gets for the answers and the panics of a handler.
\<close>

section \<open>Making errors\<close>

definition SystemError :: "ErrorCode \<Rightarrow> string \<Rightarrow> time \<Rightarrow> MuxError" where
  "SystemError code = New code CategorySystem LevelError"
definition NetworkError :: "ErrorCode \<Rightarrow> string \<Rightarrow> time \<Rightarrow> MuxError" where
  "NetworkError code = New code CategoryNetwork LevelError"
definition ProtocolError :: "ErrorCode \<Rightarrow> string \<Rightarrow> time \<Rightarrow> MuxError" where
  "ProtocolError code = New code CategoryProtocol LevelError"
definition BufferError :: "ErrorCode \<Rightarrow> string \<Rightarrow> time \<Rightarrow> MuxError" where
  "BufferError code = New code CategoryBuffer LevelError"
definition ConfigError :: "ErrorCode \<Rightarrow> string \<Rightarrow> time \<Rightarrow> MuxError" where
  "ConfigError code = New code CategoryConfig LevelError"
definition AuthError :: "ErrorCode \<Rightarrow> string \<Rightarrow> time \<Rightarrow> MuxError" where
  "AuthError code = New code CategoryAuth LevelError"
definition ValidationError :: "ErrorCode \<Rightarrow> string \<Rightarrow> time \<Rightarrow> MuxError" where
  "ValidationError code = New code CategoryValidation LevelError"
definition BusinessError :: "ErrorCode \<Rightarrow> string \<Rightarrow> time \<Rightarrow> MuxError" where
  "BusinessError code = New code CategoryBusiness LevelError"
definition WASMError :: "ErrorCode \<Rightarrow> string \<Rightarrow> time \<Rightarrow> MuxError" where
  "WASMError code = New code CategoryWASM LevelError"
definition GovernanceError :: "ErrorCode \<Rightarrow> string \<Rightarrow> time \<Rightarrow> MuxError" where
  "GovernanceError code = New code CategoryGovernance LevelError"

definition TimeoutError :: "string \<Rightarrow> time \<Rightarrow> MuxError" where
  "TimeoutError = NetworkError ErrCodeNetworkTimeout"
definition NotFoundError :: "string \<Rightarrow> time \<Rightarrow> MuxError" where
  "NotFoundError resource = ConfigError ErrCodeConfigNotFound (resource @ '' not found'')"
definition UnauthorizedError :: "string \<Rightarrow> time \<Rightarrow> MuxError" where
  "UnauthorizedError = AuthError ErrCodeAuthUnauthorized"
definition ForbiddenError :: "string \<Rightarrow> time \<Rightarrow> MuxError" where
  "ForbiddenError = AuthError ErrCodeAuthForbidden"
definition InvalidInputError :: "string \<Rightarrow> time \<Rightarrow> MuxError" where
  "InvalidInputError field = ValidationError ErrCodeValidationFormat (''Invalid input for field: '' @ field)"
definition RequiredFieldError :: "string \<Rightarrow> time \<Rightarrow> MuxError" where
  "RequiredFieldError field = ValidationError ErrCodeValidationRequired (''Required field missing: '' @ field)"
definition OutOfMemoryError :: "time \<Rightarrow> MuxError" where
  "OutOfMemoryError = SystemError ErrCodeSystemOutOfMemory ''System out of memory''"
definition ResourceLimitError :: "string \<Rightarrow> time \<Rightarrow> MuxError" where
  "ResourceLimitError resource = SystemError ErrCodeSystemResourceLimit (''Resource limit exceeded: '' @ resource)"
definition InternalError :: "string \<Rightarrow> time \<Rightarrow> MuxError" where
  "InternalError = SystemError ErrCodeSystemInternalError"

lemmas constructor_defs = SystemError_def NetworkError_def ProtocolError_def BufferError_def ConfigError_def AuthError_def
  ValidationError_def BusinessError_def WASMError_def GovernanceError_def TimeoutError_def NotFoundError_def
  UnauthorizedError_def ForbiddenError_def InvalidInputError_def RequiredFieldError_def OutOfMemoryError_def
  ResourceLimitError_def InternalError_def

section \<open>Testing errors\<close>

text \<open>The tests look at the error itself, not along its chain; \<open>None\<close> is \<^verbatim>\<open>nil\<close>.\<close>

definition is_MuxError :: "go_error option \<Rightarrow> MuxError option" where
  "is_MuxError err = (case err of None \<Rightarrow> None | Some e \<Rightarrow> if error_type e = ''*errors.MuxError'' then as_MuxError e else None)"

definition test :: "(MuxError \<Rightarrow> bool) \<Rightarrow> go_error option \<Rightarrow> bool" where
  "test p err = (case is_MuxError err of None \<Rightarrow> False | Some m \<Rightarrow> p m)"

definition IsTimeout :: "go_error option \<Rightarrow> bool" where "IsTimeout = test (\<lambda>m. err_Code m = ErrCodeNetworkTimeout)"
definition IsNotFound :: "go_error option \<Rightarrow> bool" where "IsNotFound = test (\<lambda>m. err_Code m = ErrCodeConfigNotFound)"
definition IsUnauthorized :: "go_error option \<Rightarrow> bool" where "IsUnauthorized = test (\<lambda>m. err_Code m = ErrCodeAuthUnauthorized)"
definition IsForbidden :: "go_error option \<Rightarrow> bool" where "IsForbidden = test (\<lambda>m. err_Code m = ErrCodeAuthForbidden)"
definition IsValidationError :: "go_error option \<Rightarrow> bool" where "IsValidationError = test (\<lambda>m. err_Category m = CategoryValidation)"
definition IsNetworkError :: "go_error option \<Rightarrow> bool" where "IsNetworkError = test (\<lambda>m. err_Category m = CategoryNetwork)"
definition IsSystemError :: "go_error option \<Rightarrow> bool" where "IsSystemError = test (\<lambda>m. err_Category m = CategorySystem)"
definition IsFatal :: "go_error option \<Rightarrow> bool" where "IsFatal = test (\<lambda>m. err_Level m = LevelFatal)"
definition IsRetryable :: "go_error option \<Rightarrow> bool" where
  "IsRetryable = test (\<lambda>m. err_Category m = CategoryNetwork \<or> err_Code m = ErrCodeSystemResourceLimit \<or> err_Code m = ErrCodeBufferPoolEmpty)"

text \<open>A \<^verbatim>\<open>MuxError\<close> as an error value, and the same wrapped by \<^verbatim>\<open>fmt.Errorf("...%w", e)\<close>.\<close>

definition mux_value :: "MuxError \<Rightarrow> go_error" where
  "mux_value m = \<lparr>as_MuxError = Some m, as_NetError = None, as_Errno = None, error_text = ErrorText m, error_type = ''*errors.MuxError''\<rparr>"

definition wrapped_value :: "string \<Rightarrow> MuxError \<Rightarrow> go_error" where
  "wrapped_value s m = (mux_value m)\<lparr>error_text := s @ ErrorText m, error_type := ''*fmt.wrapError''\<rparr>"

lemma test_mux_value: "test p (Some (mux_value m)) = p m"
  by (simp add: test_def is_MuxError_def mux_value_def)

text \<open>A wrapped error fails every test, although the conversion gives it back.\<close>

lemma wrapped_fails_tests: "\<not> test p (Some (wrapped_value s m))"
  by (simp add: test_def is_MuxError_def wrapped_value_def)

section \<open>Registered converters\<close>

text \<open>
  What \<^verbatim>\<open>InitBuiltinConverters\<close> registers: \<open>Again\<close> calls the global conversion with the same error, the
  others look at the type of the error; a client may register functions of its own, which may give \<^verbatim>\<open>nil\<close>.
\<close>

datatype converter = Again | OpError | DNSError | Own "go_error \<Rightarrow> MuxError option"

type_synonym ErrorConverter = "string \<rightharpoonup> converter"

definition NewErrorConverter :: ErrorConverter where "NewErrorConverter = Map.empty"

definition RegisterConverter :: "string \<Rightarrow> converter \<Rightarrow> ErrorConverter \<Rightarrow> ErrorConverter" where
  "RegisterConverter ty f ec = ec(ty \<mapsto> f)"

definition InitBuiltinConverters :: "ErrorConverter \<Rightarrow> ErrorConverter" where
  "InitBuiltinConverters ec = RegisterConverter ''*net.DNSError'' DNSError (RegisterConverter ''*net.OpError'' OpError
     (RegisterConverter ''*errors.errorString'' Again ec))"

definition net_flags :: "go_error \<Rightarrow> bool \<times> bool" where
  "net_flags e = (case as_NetError e of None \<Rightarrow> (False, False) | Some f \<Rightarrow> f)"

definition convertOpError :: "go_error \<Rightarrow> time \<Rightarrow> MuxError option" where
  "convertOpError e now = (if error_type e \<noteq> ''*net.OpError'' then None
     else Some (if fst (net_flags e) then NetworkError ErrCodeNetworkTimeout (error_text e) now
       else if snd (net_flags e) then NetworkError ErrCodeNetworkConnectionLost (error_text e) now
       else NetworkError ErrCodeNetworkUnknown (error_text e) now))"

definition convertDNSError :: "go_error \<Rightarrow> time \<Rightarrow> MuxError option" where
  "convertDNSError e now = (if error_type e \<noteq> ''*net.DNSError'' then None
     else Some (if fst (net_flags e) then NetworkError ErrCodeNetworkTimeout (error_text e) now
       else NetworkError ErrCodeNetworkUnreachable (error_text e) now))"

text \<open>The global conversion: outer \<open>None\<close> is a call that never returns, inner \<open>None\<close> the result \<^verbatim>\<open>nil\<close>.\<close>

partial_function (option) gConvert :: "ErrorConverter \<Rightarrow> go_error option \<Rightarrow> time \<Rightarrow> MuxError option option" where
  "gConvert ec err now = (case err of None \<Rightarrow> Some None
   | Some e \<Rightarrow> (case as_MuxError e of Some m \<Rightarrow> Some (Some m)
     | None \<Rightarrow> (case ec (error_type e) of
         None \<Rightarrow> Some (Some (convertBuiltin e now))
       | Some Again \<Rightarrow> gConvert ec err now
       | Some OpError \<Rightarrow> Some (convertOpError e now)
       | Some DNSError \<Rightarrow> Some (convertDNSError e now)
       | Some (Own f) \<Rightarrow> Some (f e))))"

lemma gConvert_again:
  assumes "gConvert ec err now = Some r"
  shows "err = Some e \<Longrightarrow> as_MuxError e = None \<Longrightarrow> ec (error_type e) \<noteq> Some Again"
proof (induction arbitrary: e rule: gConvert.raw_induct[OF _ assms])
  case (1 rec ec err now r)
  show ?case
  proof
    assume "ec (error_type e) = Some Again"
    with 1 have "rec ec err now = Some r" by simp
    from 1(1)[OF this 1(3,4)] \<open>ec (error_type e) = Some Again\<close> show False by simp
  qed
qed

text \<open>
  C39. With the built-in converters registered an error whose chain holds a \<^verbatim>\<open>MuxError\<close> is converted to that,
  one of the types of \<^verbatim>\<open>net\<close> by its flags, and any other by its chain and text, except those that
  \<^verbatim>\<open>errors.New\<close> makes: for these the conversion never returns.
\<close>

theorem convert_returns_iff:
  "gConvert (InitBuiltinConverters NewErrorConverter) (Some e) now =
     (case as_MuxError e of Some m \<Rightarrow> Some (Some m)
      | None \<Rightarrow> if error_type e = ''*errors.errorString'' then None
          else Some (Some (if error_type e = ''*net.OpError''
              then NetworkError (if fst (net_flags e) then ErrCodeNetworkTimeout
                else if snd (net_flags e) then ErrCodeNetworkConnectionLost else ErrCodeNetworkUnknown) (error_text e) now
            else if error_type e = ''*net.DNSError''
              then NetworkError (if fst (net_flags e) then ErrCodeNetworkTimeout else ErrCodeNetworkUnreachable) (error_text e) now
            else convertBuiltin e now)))"
proof (cases "as_MuxError e = None \<and> error_type e = ''*errors.errorString''")
  case True
  then have "gConvert (InitBuiltinConverters NewErrorConverter) (Some e) now = None"
    using gConvert_again[of "InitBuiltinConverters NewErrorConverter" "Some e" now _ e]
    by (cases "gConvert (InitBuiltinConverters NewErrorConverter) (Some e) now")
      (auto simp: InitBuiltinConverters_def RegisterConverter_def)
  with True show ?thesis by simp
next
  case False
  then show ?thesis
    by (subst gConvert.simps) (auto simp: InitBuiltinConverters_def RegisterConverter_def NewErrorConverter_def
      convertOpError_def convertDNSError_def split: option.split)
qed

section \<open>Handling an error\<close>

text \<open>
  \<open>Diverges\<close>: the conversion never returns. \<open>Fails\<close>: the manager dereferences \<^verbatim>\<open>nil\<close>. \<open>Exits\<close>: the log of a
  fatal error ends the process.
\<close>

datatype 'a handling = Diverges | Fails | Exits | Gives ErrorManager shutdown_chan 'a

definition manage :: "bool \<Rightarrow> time \<Rightarrow> MuxError option \<Rightarrow> shutdown_chan \<Rightarrow> ErrorManager \<Rightarrow> MuxError handling" where
  "manage ctx_done now err ch em = (case Handle ctx_done now err ch em of
     Panicked \<Rightarrow> Fails | Exited _ \<Rightarrow> Exits | Returned em ch e _ _ _ \<Rightarrow> Gives em ch e)"

definition HandleError ::
    "ErrorConverter \<Rightarrow> go_error option \<Rightarrow> time \<Rightarrow> shutdown_chan \<Rightarrow> ErrorManager \<Rightarrow> MuxError option handling" where
  "HandleError ec err now ch em = (if err = None then Gives em ch None
     else case gConvert ec err now of None \<Rightarrow> Diverges
       | Some m \<Rightarrow> (case manage False now m ch em of
           Diverges \<Rightarrow> Diverges | Fails \<Rightarrow> Fails | Exits \<Rightarrow> Exits | Gives em ch e \<Rightarrow> Gives em ch (Some e)))"

text \<open>The result says whether it panics with the error.\<close>

definition MustHandleError ::
    "ErrorConverter \<Rightarrow> go_error option \<Rightarrow> time \<Rightarrow> shutdown_chan \<Rightarrow> ErrorManager \<Rightarrow> bool handling" where
  "MustHandleError ec err now ch em = (if err = None then Gives em ch False
     else case gConvert ec err now of None \<Rightarrow> Diverges
       | Some m \<Rightarrow> (case manage False now m ch em of
           Diverges \<Rightarrow> Diverges | Fails \<Rightarrow> Fails | Exits \<Rightarrow> Exits | Gives em ch e \<Rightarrow> Gives em ch (err_Level e = LevelFatal)))"

text \<open>A panic that is no error is given the text of its value; \<open>stack\<close>: what \<^verbatim>\<open>debug.Stack\<close> gives.\<close>

definition panic_error :: "string option \<Rightarrow> string \<Rightarrow> time \<Rightarrow> MuxError" where
  "panic_error stack text now = (let e = SystemError ErrCodeSystemPanic text now
     in case stack of None \<Rightarrow> e | Some s \<Rightarrow> WithContext e ''stack'' (CtxString s))"

definition RecoverAndHandle ::
    "string option \<Rightarrow> string \<Rightarrow> time \<Rightarrow> shutdown_chan \<Rightarrow> ErrorManager \<Rightarrow> MuxError option handling" where
  "RecoverAndHandle rec stack now ch em = (case rec of None \<Rightarrow> Gives em ch None
     | Some text \<Rightarrow> (case manage False now (Some (panic_error (Some stack) text now)) ch em of
         Diverges \<Rightarrow> Diverges | Fails \<Rightarrow> Fails | Exits \<Rightarrow> Exits | Gives em ch e \<Rightarrow> Gives em ch (Some e)))"

lemma manage_not_fatal: "err_Level e \<noteq> LevelFatal \<Longrightarrow> \<exists>em' ch' e'. manage cd now (Some e) ch em = Gives em' ch' e'"
  by (simp add: manage_def Handle_def Let_def case_prod_beta)

lemma manage_fatal: "err_Level e = LevelFatal \<Longrightarrow> manage cd now (Some e) ch em = Exits"
  by (simp add: manage_def Handle_def Let_def)

text \<open>A panic handler never ends the process; \<^verbatim>\<open>MustHandleError\<close> never panics, since the log of a fatal error exits first.\<close>

lemma RecoverAndHandle_returns: "\<exists>em' ch' r. RecoverAndHandle rec stack now ch em = Gives em' ch' r"
proof (cases rec)
  case (Some t)
  have "err_Level (panic_error (Some stack) t now) \<noteq> LevelFatal"
    by (simp add: panic_error_def Let_def constructor_defs New_def WithContext_def)
  from manage_not_fatal[OF this, of False now ch em] Some show ?thesis by (auto simp: RecoverAndHandle_def)
qed (simp add: RecoverAndHandle_def)

text \<open>
  Classified by the word alone, an error whose text has \<^verbatim>\<open>memory\<close> and none of the words looked for before it
  is fatal: handling it ends the process.
\<close>

lemma memory_exits:
  assumes "contains_sub t ''memory''" "\<not> contains_kw t [''timeout'', ''timed out'', ''connection refused'', ''refused'', ''connection reset'', ''reset'']"
  shows "HandleError NewErrorConverter (Some \<lparr>as_MuxError = None, as_NetError = None, as_Errno = None, error_text = t, error_type = ty\<rparr>) now ch em = Exits"
proof -
  have "contains_kw t [''out of memory'', ''memory'']" using assms(1) by (intro contains_kw_sub[of "''memory''"]) simp_all
  with assms(2) have "convertText t now = New ErrCodeSystemOutOfMemory CategorySystem LevelFatal t now"
    by (auto simp: convertText_def contains_kw_def)
  then show ?thesis
    by (simp add: HandleError_def gConvert.simps NewErrorConverter_def convertBuiltin_def manage_fatal New_def)
qed

section \<open>The HTTP middleware\<close>

text \<open>
  The writer of \<^verbatim>\<open>net/http\<close>: the header, what was sent of it with the status, and the body. The first call
  of \<^verbatim>\<open>WriteHeader\<close> counts. An error response is a chunk of the body.
\<close>

record HTTPErrorResponse =
  re_Error :: string
  re_Code :: string
  re_Message :: string
  re_Details :: "(string \<times> ctx_value) list option"
  re_Context :: "(string \<rightharpoonup> ctx_value) option"
  re_Timestamp :: time
  re_RequestID :: string
  re_TraceID :: string

datatype chunk = Text string | ErrorJson HTTPErrorResponse

record http_writer =
  header :: "string \<rightharpoonup> string"
  sent :: "(int \<times> (string \<rightharpoonup> string)) option"
  body :: "chunk list"

definition new_writer :: http_writer where
  "new_writer = \<lparr>header = Map.empty, sent = None, body = []\<rparr>"

definition send_header :: "int \<Rightarrow> http_writer \<Rightarrow> http_writer" where
  "send_header s w = (if sent w = None then w\<lparr>sent := Some (s, header w)\<rparr> else w)"

definition send_body :: "chunk \<Rightarrow> http_writer \<Rightarrow> http_writer" where
  "send_body c w = (let w = send_header 200 w in w\<lparr>body := body w @ [c]\<rparr>)"

definition set_header :: "string \<Rightarrow> string \<Rightarrow> http_writer \<Rightarrow> http_writer" where
  "set_header k v w = w\<lparr>header := (header w)(k \<mapsto> v)\<rparr>"

record HTTPErrorMiddleware =
  includeStack :: bool
  debugMode :: bool

definition NewHTTPErrorMiddleware :: "(HTTPErrorMiddleware \<Rightarrow> HTTPErrorMiddleware) list \<Rightarrow> HTTPErrorMiddleware" where
  "NewHTTPErrorMiddleware options = fold (\<lambda>f m. f m) options \<lparr>includeStack = False, debugMode = False\<rparr>"

definition WithStackTrace :: "bool \<Rightarrow> HTTPErrorMiddleware \<Rightarrow> HTTPErrorMiddleware" where "WithStackTrace b m = m\<lparr>includeStack := b\<rparr>"
definition WithDebugMode :: "bool \<Rightarrow> HTTPErrorMiddleware \<Rightarrow> HTTPErrorMiddleware" where "WithDebugMode b m = m\<lparr>debugMode := b\<rparr>"

text \<open>
  The request: its path and the headers read from it. \<open>encodes\<close>: whether a response can be encoded as JSON,
  \<open>stack_of\<close>: the stack in an error, \<open>StatusText\<close>: that of \<^verbatim>\<open>net/http\<close>.
\<close>

record http_request =
  rq_path :: string
  rq_RequestID :: string
  rq_TraceID :: string

record mw_env =
  encodes :: "HTTPErrorResponse \<Rightarrow> bool"
  stack_of :: "MuxError \<Rightarrow> string"
  StatusText :: "int \<Rightarrow> string"
  clock :: time

definition error_details :: "mw_env \<Rightarrow> HTTPErrorMiddleware \<Rightarrow> MuxError \<Rightarrow> (string \<times> ctx_value) list" where
  "error_details env m e = [(''level'', CtxString (show_nat (level_rank (err_Level e)))), (''category'', CtxString (categoryName (err_Category e)))] @
     (if includeStack m \<and> stack_of env e \<noteq> [] then [(''stack'', CtxString (stack_of env e))] else []) @
     (case err_Cause e of None \<Rightarrow> [] | Some c \<Rightarrow> [(''cause'', CtxString c)])"

definition error_response :: "mw_env \<Rightarrow> HTTPErrorMiddleware \<Rightarrow> http_request \<Rightarrow> MuxError \<Rightarrow> HTTPErrorResponse" where
  "error_response env m r e = \<lparr>re_Error = ErrorText e, re_Code = show_int (err_Code e), re_Message = err_Message e,
     re_Details = (if debugMode m then Some (error_details env m e) else None),
     re_Context = (if debugMode m \<and> err_Context e \<noteq> Map.empty then Some (err_Context e) else None), re_Timestamp = clock env,
     re_RequestID = rq_RequestID r, re_TraceID = rq_TraceID r\<rparr>"

definition internal_error_json :: string where
  "internal_error_json = [CHR ''{'', CHR 0x22] @ ''error'' @ [CHR 0x22, CHR '':'', CHR 0x22] @ ''Internal server error'' @
     [CHR 0x22, CHR '','', CHR 0x22] @ ''code'' @ [CHR 0x22, CHR '':'', CHR 0x22] @ ''SYSTEM_INTERNAL_ERROR'' @ [CHR 0x22, CHR ''}'']"

definition writeErrorResponse :: "mw_env \<Rightarrow> HTTPErrorMiddleware \<Rightarrow> http_request \<Rightarrow> MuxError \<Rightarrow> http_writer \<Rightarrow> http_writer" where
  "writeErrorResponse env m r e w =
     (let w = set_header ''X-Error-Category'' (categoryName (err_Category e))
            (set_header ''X-Error-Code'' (show_int (err_Code e)) (set_header ''Content-Type'' ''application/json'' w));
          w = send_header (getHTTPStatusCode e) w;
          resp = error_response env m r e
      in if encodes env resp then send_body (ErrorJson resp) w
         else send_body (Text internal_error_json) (send_header 500 w))"

text \<open>The wrapped writer, with the error manager its errors go to.\<close>

record responseWriter =
  rw_writer :: http_writer
  rw_written :: bool
  rw_manager :: "ErrorManager \<times> shutdown_chan"

definition status_error :: "mw_env \<Rightarrow> http_request \<Rightarrow> int \<Rightarrow> MuxError" where
  "status_error env r s =
     (if s \<ge> 500 then SystemError ErrCodeSystemInternalError (StatusText env s) (clock env)
      else if s = 404 then NotFoundError (rq_path r) (clock env)
      else if s = 401 then UnauthorizedError ''Authentication required'' (clock env)
      else if s = 403 then ForbiddenError ''Access denied'' (clock env)
      else ValidationError ErrCodeValidationFormat (StatusText env s) (clock env))"

text \<open>An error that is not fatal is handled, and the manager goes on; \<open>manage\<close> says what it is afterwards.\<close>

definition managed :: "mw_env \<Rightarrow> MuxError \<Rightarrow> ErrorManager \<times> shutdown_chan \<Rightarrow> ((ErrorManager \<times> shutdown_chan) \<times> MuxError) option" where
  "managed env e mc = (case manage False (clock env) (Some e) (snd mc) (fst mc) of Gives em ch e \<Rightarrow> Some ((em, ch), e) | _ \<Rightarrow> None)"

text \<open>\<open>None\<close>: the process exits.\<close>

definition mw_WriteHeader :: "mw_env \<Rightarrow> HTTPErrorMiddleware \<Rightarrow> http_request \<Rightarrow> int \<Rightarrow> responseWriter \<Rightarrow> responseWriter option" where
  "mw_WriteHeader env m r s rw =
     (if rw_written rw then Some rw
      else (let rw = rw\<lparr>rw_written := True\<rparr> in
        if s \<ge> 400
        then map_option (\<lambda>(mc, e). rw\<lparr>rw_manager := mc, rw_writer := writeErrorResponse env m r e (rw_writer rw)\<rparr>)
               (managed env (status_error env r s) (rw_manager rw))
        else Some (rw\<lparr>rw_writer := send_header s (rw_writer rw)\<rparr>)))"

definition mw_Write :: "mw_env \<Rightarrow> HTTPErrorMiddleware \<Rightarrow> http_request \<Rightarrow> string \<Rightarrow> responseWriter \<Rightarrow> responseWriter option" where
  "mw_Write env m r d rw = map_option (\<lambda>rw. rw\<lparr>rw_writer := send_body (Text d) (rw_writer rw)\<rparr>)
     (if \<not> rw_written rw then mw_WriteHeader env m r 200 rw else Some rw)"

text \<open>What a handler does, one call after the other; it may end in a panic with a text and the stack.\<close>

datatype handler_act = CallWriteHeader int | CallWrite string | CallPanic string string

fun serve :: "mw_env \<Rightarrow> HTTPErrorMiddleware \<Rightarrow> http_request \<Rightarrow> handler_act list \<Rightarrow> responseWriter \<Rightarrow> responseWriter option" where
  "serve env m r [] rw = Some rw"
| "serve env m r (CallWriteHeader s # acts) rw = Option.bind (mw_WriteHeader env m r s rw) (serve env m r acts)"
| "serve env m r (CallWrite d # acts) rw = Option.bind (mw_Write env m r d rw) (serve env m r acts)"
| "serve env m r (CallPanic t stack # acts) rw =
     map_option (\<lambda>(mc, e). rw\<lparr>rw_manager := mc, rw_writer := writeErrorResponse env m r e (rw_writer rw)\<rparr>)
       (managed env (panic_error (if includeStack m then Some stack else None) t (clock env)) (rw_manager rw))"

definition Middleware :: "mw_env \<Rightarrow> HTTPErrorMiddleware \<Rightarrow> http_request \<Rightarrow> handler_act list \<Rightarrow> ErrorManager \<times> shutdown_chan \<Rightarrow> responseWriter option" where
  "Middleware env m r acts mc = serve env m r acts \<lparr>rw_writer = new_writer, rw_written = False, rw_manager = mc\<rparr>"

section \<open>What the client gets\<close>

lemma managed_ok:
  "err_Level e \<noteq> LevelFatal \<Longrightarrow> \<exists>mc' e'. managed env e mc = Some (mc', e')"
  using manage_not_fatal[of e False "clock env" "snd mc" "fst mc"] by (auto simp: managed_def)

text \<open>Recovering may count a retry in the error, which leaves its code, category and level.\<close>

definition same_error :: "MuxError \<Rightarrow> MuxError \<Rightarrow> bool" where
  "same_error e e' \<longleftrightarrow> err_Code e' = err_Code e \<and> err_Level e' = err_Level e \<and> err_Category e' = err_Category e \<and> err_Message e' = err_Message e"

lemma tryRecover_same: "tryRecover cd e rs = (e', x, n) \<Longrightarrow> same_error e e'"
proof (induction cd e rs rule: tryRecover.induct)
  case (2 cd e r rs)
  then show ?case
    by (cases r) (auto simp: retry_Recover_def same_error_def WithContext_def Let_def split: if_splits prod.splits)
qed (simp add: same_error_def)

lemma managed_same: "managed env e mc = Some (mc', e') \<Longrightarrow> same_error e e'"
  using tryRecover_same[of False e "em_recoveries (fst mc)"]
  by (cases "tryRecover False e (em_recoveries (fst mc))")
    (auto simp: managed_def manage_def Handle_def Let_def split: if_splits prod.splits handle_result.splits handling.splits)

text \<open>The same calls on the writer of the server, without the middleware.\<close>

fun direct :: "handler_act list \<Rightarrow> http_writer \<Rightarrow> http_writer" where
  "direct [] w = w"
| "direct (CallWriteHeader s # acts) w = direct acts (send_header s w)"
| "direct (CallWrite d # acts) w = direct acts (send_body (Text d) w)"
| "direct (CallPanic t stack # acts) w = w"

fun panics :: "handler_act list \<Rightarrow> bool" where
  "panics [] = False"
| "panics (CallPanic t stack # acts) = True"
| "panics (a # acts) = panics acts"

lemma send_header_again: "sent w \<noteq> None \<Longrightarrow> send_header s w = w"
  by (simp add: send_header_def)

lemma sent_after [simp]: "sent (send_header s w) \<noteq> None" "sent (send_body c w) \<noteq> None" "sent (writeErrorResponse env m r e w) \<noteq> None"
  by (auto simp: send_header_def send_body_def writeErrorResponse_def Let_def)

lemma serve_written:
  "rw_written rw \<Longrightarrow> sent (rw_writer rw) \<noteq> None \<Longrightarrow> \<not> panics acts \<Longrightarrow>
   serve env m r acts rw = Some (rw\<lparr>rw_writer := direct acts (rw_writer rw)\<rparr>)"
proof (induction acts arbitrary: rw)
  case (Cons a acts)
  show ?case
  proof (cases a)
    case (CallWriteHeader s)
    with Cons show ?thesis by (simp add: mw_WriteHeader_def send_header_again)
  next
    case (CallWrite d)
    with Cons.IH[of "rw\<lparr>rw_writer := send_body (Text d) (rw_writer rw)\<rparr>"] Cons.prems show ?thesis by (simp add: mw_Write_def)
  next
    case (CallPanic t stack)
    with Cons.prems show ?thesis by simp
  qed
qed simp

lemma serve_from [simp]:
  "sent w \<noteq> None \<Longrightarrow> \<not> panics acts \<Longrightarrow> serve env m r acts \<lparr>rw_writer = w, rw_written = True, rw_manager = mc\<rparr> =
     Some \<lparr>rw_writer = direct acts w, rw_written = True, rw_manager = mc\<rparr>"
  by (simp add: serve_written)

lemma send_body_header: "send_body c (send_header 200 w) = send_body c w"
  by (simp add: send_body_def send_header_again)

text \<open>
  A handler whose first status is below 400, or that begins to write, gets its answer through unchanged. For
  any other status the client gets the response of an error made from the status alone, and behind it
  whatever the handler writes.
\<close>

lemma answer_unchanged:
  assumes "\<not> panics acts" "case acts of CallWriteHeader s # _ \<Rightarrow> s < 400 | _ \<Rightarrow> True"
  shows "map_option rw_writer (Middleware env m r acts mc) = Some (direct acts new_writer)"
proof (cases acts)
  case (Cons a rest)
  then show ?thesis using assms
    by (cases a) (simp_all add: Middleware_def mw_WriteHeader_def mw_Write_def send_body_header)
qed (simp add: Middleware_def)

lemma answer_rewritten:
  assumes "400 \<le> s" "\<not> panics acts"
  shows "\<exists>e. same_error (status_error env r s) e \<and>
    map_option rw_writer (Middleware env m r (CallWriteHeader s # acts) mc) = Some (direct acts (writeErrorResponse env m r e new_writer))"
proof -
  have "err_Level (status_error env r s) \<noteq> LevelFatal" by (simp add: status_error_def constructor_defs New_def)
  from managed_ok[OF this, of env mc] obtain mc' e where e: "managed env (status_error env r s) mc = Some (mc', e)" by blast
  with managed_same[OF e] assms show ?thesis
    by (intro exI[of _ e]) (simp add: Middleware_def mw_WriteHeader_def)
qed

text \<open>The status is taken from the code of that error: most are replaced by 400 or 500.\<close>

definition answered_status :: "int \<Rightarrow> int" where
  "answered_status s = (if s \<ge> 500 then 500 else if s = 401 \<or> s = 403 \<or> s = 404 then s else 400)"

lemma status_error_status: "same_error (status_error env r s) e \<Longrightarrow> getHTTPStatusCode e = answered_status s"
  by (auto simp: same_error_def status_error_def constructor_defs New_def getHTTPStatusCode_def err_codes answered_status_def Let_def)

lemma direct_body: "\<not> panics acts \<Longrightarrow> sent w \<noteq> None \<Longrightarrow>
   body (direct acts w) = body w @ concat (map (\<lambda>a. case a of CallWrite d \<Rightarrow> [Text d] | _ \<Rightarrow> []) acts) \<and> sent (direct acts w) = sent w"
proof (induction acts arbitrary: w)
  case (Cons a acts)
  then show ?case
  proof (cases a)
    case (CallWrite d)
    with Cons.IH[of "send_body (Text d) w"] Cons.prems show ?thesis by (auto simp: send_body_def send_header_again)
  qed (auto simp: send_header_again)
qed simp

lemma rewritten_answer:
  assumes "400 \<le> s" "\<not> panics acts" "\<And>resp. encodes env resp"
  shows "\<exists>w resp hdr. map_option rw_writer (Middleware env m r (CallWriteHeader s # acts) mc) = Some w \<and>
    sent w = Some (answered_status s, hdr) \<and>
    body w = ErrorJson resp # concat (map (\<lambda>a. case a of CallWrite d \<Rightarrow> [Text d] | _ \<Rightarrow> []) acts)"
proof -
  from answer_rewritten[OF assms(1,2), of env r m mc] obtain e where e: "same_error (status_error env r s) e"
    "map_option rw_writer (Middleware env m r (CallWriteHeader s # acts) mc) = Some (direct acts (writeErrorResponse env m r e new_writer))"
    by blast
  let ?w = "writeErrorResponse env m r e new_writer"
  have "\<exists>hdr. sent ?w = Some (answered_status s, hdr)" "body ?w = [ErrorJson (error_response env m r e)]"
    using assms(3) status_error_status[OF e(1)]
    by (simp_all add: writeErrorResponse_def Let_def send_header_def send_body_def set_header_def new_writer_def)
  with e(2) direct_body[OF assms(2), of ?w] show ?thesis by auto
qed

text \<open>A panic after the first byte: the status stays what it was, and the error follows what was written.\<close>

lemma panic_after_write:
  assumes "\<And>resp. encodes env resp"
  shows "\<exists>w resp. map_option rw_writer (Middleware env m r [CallWrite d, CallPanic t stack] mc) = Some w \<and>
    map_option fst (sent w) = Some 200 \<and> body w = [Text d, ErrorJson resp]"
proof -
  let ?e = "panic_error (if includeStack m then Some stack else None) t (clock env)"
  have "err_Level ?e \<noteq> LevelFatal" by (simp add: panic_error_def Let_def constructor_defs New_def WithContext_def)
  from managed_ok[OF this, of env mc] obtain mc' e where "managed env ?e mc = Some (mc', e)" by blast
  then show ?thesis using assms
    by (simp add: Middleware_def mw_Write_def mw_WriteHeader_def writeErrorResponse_def Let_def send_header_def send_body_def
      set_header_def new_writer_def)
qed

section \<open>The gRPC interceptor\<close>

text \<open>A handler returns a response and an error, or panics; a status of gRPC is its code and message.\<close>

datatype 'r grpc_outcome = Responds 'r "go_error option" | PanicsWith string string

type_synonym grpc_status = "grpc_code \<times> string"

definition convertToGRPCError :: "MuxError \<Rightarrow> grpc_status" where
  "convertToGRPCError e = (getGRPCCode e, err_Message e)"

text \<open>
  The response (none is \<^verbatim>\<open>nil\<close>) and the status with which the call ends; \<open>None\<close>: the conversion does not
  return, gives \<^verbatim>\<open>nil\<close> or the process exits. The results of the function have no names, so that the deferred
  recovery leaves them \<^verbatim>\<open>nil\<close>.
\<close>

definition UnaryServerInterceptor ::
    "ErrorConverter \<Rightarrow> bool \<Rightarrow> time \<Rightarrow> 'r grpc_outcome \<Rightarrow> ErrorManager \<times> shutdown_chan \<Rightarrow>
     ((ErrorManager \<times> shutdown_chan) \<times> 'r option \<times> grpc_status option) option" where
  "UnaryServerInterceptor ec stacks now h mc = (case h of
     PanicsWith t stack \<Rightarrow> (case manage False now (Some (panic_error (if stacks then Some stack else None) t now)) (snd mc) (fst mc) of
         Gives em ch _ \<Rightarrow> Some ((em, ch), None, None) | _ \<Rightarrow> None)
   | Responds r None \<Rightarrow> Some (mc, Some r, None)
   | Responds r (Some err) \<Rightarrow> (case gConvert ec (Some err) now of
         Some (Some e) \<Rightarrow> (case manage False now (Some e) (snd mc) (fst mc) of
             Gives em ch e \<Rightarrow> Some ((em, ch), Some r, Some (convertToGRPCError e)) | _ \<Rightarrow> None)
       | _ \<Rightarrow> None))"

text \<open>The interceptor of streams is the same without a response.\<close>

definition StreamServerInterceptor ::
    "ErrorConverter \<Rightarrow> bool \<Rightarrow> time \<Rightarrow> unit grpc_outcome \<Rightarrow> ErrorManager \<times> shutdown_chan \<Rightarrow>
     ((ErrorManager \<times> shutdown_chan) \<times> grpc_status option) option" where
  "StreamServerInterceptor ec stacks now h mc =
     map_option (\<lambda>(mc, _, st). (mc, st)) (UnaryServerInterceptor ec stacks now h mc)"

text \<open>A call whose handler panics ends without an error, and without a response.\<close>

lemma panicking_call_succeeds:
  "\<exists>mc'. UnaryServerInterceptor ec stacks now (PanicsWith t stack) mc = Some (mc', None, None)"
proof -
  have "err_Level (panic_error (if stacks then Some stack else None) t now) \<noteq> LevelFatal"
    by (simp add: panic_error_def Let_def constructor_defs New_def WithContext_def)
  from manage_not_fatal[OF this, of False now "snd mc" "fst mc"] show ?thesis by (auto simp: UnaryServerInterceptor_def)
qed

text \<open>An error of the framework that is not fatal ends the call with the status of its code.\<close>

lemma grpc_status_of_error:
  assumes "err_Level m \<noteq> LevelFatal"
  shows "\<exists>mc'. UnaryServerInterceptor ec stacks now (Responds r (Some (mux_value m))) mc = Some (mc', Some r, Some (getGRPCCode m, err_Message m))"
proof -
  have conv: "gConvert ec (Some (mux_value m)) now = Some (Some m)" by (simp add: gConvert.simps mux_value_def)
  from manage_not_fatal[OF assms, of False now "snd mc" "fst mc"] obtain em ch e where
    e: "manage False now (Some m) (snd mc) (fst mc) = Gives em ch e" by blast
  have "same_error m e" using managed_same[of "\<lparr>encodes = \<lambda>_. True, stack_of = \<lambda>_. [], StatusText = \<lambda>_. [], clock = now\<rparr>" m mc "(em, ch)" e] e
    by (simp add: managed_def)
  then have "getGRPCCode e = getGRPCCode m \<and> err_Message e = err_Message m" by (simp add: same_error_def getGRPCCode_def Let_def)
  then show ?thesis using conv e by (simp add: UnaryServerInterceptor_def convertToGRPCError_def)
qed

end
