(* ===== verification/Security_Lifecycle.thy ===== *)
theory Security_Lifecycle
  imports Optimized_Security
begin

text \<open>
  The rest of \<^verbatim>\<open>core/security/security_manager_enhanced.go\<close>: starting and stopping the manager, its three
  goroutines, the collected metrics and the readers. \<open>None\<close> is a panic. Left out: the text of log
  records and of the JSON export.
\<close>

section \<open>The parts and their readers\<close>

definition NewConnectionTracker :: tracker where "NewConnectionTracker = Map.empty"

definition GetConnection :: "string \<Rightarrow> tracker \<Rightarrow> ConnectionInfo option" where
  "GetConnection i ct = ct i"

text \<open>\<open>ks\<close>: the identifiers in the order \<^verbatim>\<open>range\<close> visits them.\<close>

fun GetConnectionsByIP :: "string \<Rightarrow> string list \<Rightarrow> tracker \<Rightarrow> ConnectionInfo list" where
  "GetConnectionsByIP ip [] ct = []"
| "GetConnectionsByIP ip (k # ks) ct = (case ct k of
     None \<Rightarrow> GetConnectionsByIP ip ks ct
   | Some c \<Rightarrow> if CiIP c = ip then c # GetConnectionsByIP ip ks ct else GetConnectionsByIP ip ks ct)"

definition NewThreatDetector :: "(string \<rightharpoonup> ThreatSignature) \<times> (string \<rightharpoonup> BehaviorProfile) \<times> AnomalyDetector" where
  "NewThreatDetector = (map_of (map (\<lambda>s. (SigID s, s)) default_signatures), Map.empty,
     \<lparr>baselines = Map.empty, ad_threshold = 8 / 10\<rparr>)"

definition GetBaseline :: "string \<Rightarrow> AnomalyDetector \<Rightarrow> rat \<times> bool" where
  "GetBaseline k ad = (case baselines ad k of None \<Rightarrow> (0, False) | Some v \<Rightarrow> (v, True))"

definition GetThreshold :: "AnomalyDetector \<Rightarrow> rat" where
  "GetThreshold ad = ad_threshold ad"

definition calculateAvgRequestSize :: "string \<Rightarrow> int \<Rightarrow> rat" where
  "calculateAvgRequestSize src n = of_int n"

definition NewResponseEngine :: block_list where "NewResponseEngine = Map.empty"

text \<open>The connections of an address are found whatever the order of the map.\<close>

lemma ConnectionsByIP_order:
  assumes "distinct ks" "set ks = dom ct"
  shows "length (GetConnectionsByIP ip ks ct) = ConnectionsByIP ip ct"
    and "c \<in> set (GetConnectionsByIP ip ks ct) \<longleftrightarrow> (\<exists>i. ct i = Some c \<and> CiIP c = ip)"
proof -
  have len: "length (GetConnectionsByIP ip ks ct) = card {k \<in> set ks. \<exists>c. ct k = Some c \<and> CiIP c = ip}"
    using assms(1)
  proof (induction ks)
    case (Cons k ks)
    have "{j \<in> set (k # ks). \<exists>c. ct j = Some c \<and> CiIP c = ip} =
        (if \<exists>c. ct k = Some c \<and> CiIP c = ip then insert k {j \<in> set ks. \<exists>c. ct j = Some c \<and> CiIP c = ip}
         else {j \<in> set ks. \<exists>c. ct j = Some c \<and> CiIP c = ip})" by auto
    with Cons show ?case by (auto split: option.split)
  qed simp
  have "{k \<in> set ks. \<exists>c. ct k = Some c \<and> CiIP c = ip} = dom (filter_map (\<lambda>_ c. CiIP c = ip) ct)"
    unfolding assms(2) by (auto simp: filter_map_Some)
  with len show "length (GetConnectionsByIP ip ks ct) = ConnectionsByIP ip ct"
    by (simp add: ConnectionsByIP_def map_len_def)
  have "c \<in> set (GetConnectionsByIP ip ks ct) \<longleftrightarrow> (\<exists>i\<in>set ks. ct i = Some c \<and> CiIP c = ip)"
    by (induction ks) (auto split: option.split)
  then show "c \<in> set (GetConnectionsByIP ip ks ct) \<longleftrightarrow> (\<exists>i. ct i = Some c \<and> CiIP c = ip)"
    using assms(2) by auto
qed

section \<open>Metrics\<close>

record OptimizedSecurityMetrics =
  TotalConnections :: int
  BlockedConnections :: int
  ActiveConnections :: int
  TotalThreats :: int
  BlockedThreats :: int
  ByType :: "string \<Rightarrow> int"
  BySeverity :: "string \<Rightarrow> int"
  AuthAttempts :: int
  FailedAuthAttempts :: int
  SuccessfulAuths :: int
  AvgResponseTime :: rat
  Throughput :: rat
  ErrorRate :: rat
  MetricsUpdate :: time

definition fresh_metrics :: OptimizedSecurityMetrics where
  "fresh_metrics = \<lparr>TotalConnections = 0, BlockedConnections = 0, ActiveConnections = 0, TotalThreats = 0,
     BlockedThreats = 0, ByType = (\<lambda>_. 0), BySeverity = (\<lambda>_. 0), AuthAttempts = 0, FailedAuthAttempts = 0,
     SuccessfulAuths = 0, AvgResponseTime = 0, Throughput = 0, ErrorRate = 0, MetricsUpdate = 0\<rparr>"

text \<open>
  The counters are loaded one after the other while requests go on: \<open>a\<close> to \<open>e\<close> are the manager as each
  load finds it. \<^verbatim>\<open>int64\<close> of a counter reads its bits with a sign.
\<close>

definition collectMetrics :: "OptimizedSecurityManager \<Rightarrow> OptimizedSecurityManager \<Rightarrow> OptimizedSecurityManager \<Rightarrow>
    OptimizedSecurityManager \<Rightarrow> OptimizedSecurityManager \<Rightarrow> time \<Rightarrow> OptimizedSecurityMetrics \<Rightarrow> OptimizedSecurityMetrics" where
  "collectMetrics a b c d e now m = m\<lparr>TotalConnections := sint (totalConnections a),
     BlockedConnections := sint (blockedConnections b), TotalThreats := sint (totalThreats c),
     BlockedThreats := sint (blockedThreats d), MetricsUpdate := now, ActiveConnections := int (map_len (connections e))\<rparr>"

text \<open>The two maps belong to the manager's own counts and are copied.\<close>

definition GetMetrics :: "OptimizedSecurityManager \<Rightarrow> OptimizedSecurityMetrics \<Rightarrow> OptimizedSecurityMetrics" where
  "GetMetrics sm m = m\<lparr>ByType := ThreatsByType sm, BySeverity := ThreatsBySeverity sm\<rparr>"

definition GetThreatSignatures :: "OptimizedSecurityManager \<Rightarrow> string \<rightharpoonup> ThreatSignature" where
  "GetThreatSignatures sm = signatures sm"

definition GetBehaviorProfiles :: "OptimizedSecurityManager \<Rightarrow> string \<rightharpoonup> BehaviorProfile" where
  "GetBehaviorProfiles sm = behaviorProfiles sm"

definition GetBlockedIPs :: "OptimizedSecurityManager \<Rightarrow> block_list" where
  "GetBlockedIPs sm = blacklist sm"

definition GetConnectionInfo :: "string \<Rightarrow> OptimizedSecurityManager \<Rightarrow> ConnectionInfo option" where
  "GetConnectionInfo i sm = GetConnection i (connections sm)"

text \<open>What is exported: metrics, configuration and the sizes of the three maps.\<close>

definition ExportMetrics :: "OptimizedSecurityManager \<Rightarrow> OptimizedSecurityMetrics \<Rightarrow>
    OptimizedSecurityMetrics \<times> OptimizedSecurityConfig \<times> nat \<times> nat \<times> nat" where
  "ExportMetrics sm m = (GetMetrics sm m, config sm, map_len (connections sm), map_len (signatures sm), map_len (blacklist sm))"

lemma metrics_never_filled:
  "AuthAttempts (GetMetrics sm (collectMetrics a b c d e now m)) = AuthAttempts m"
  "AvgResponseTime (GetMetrics sm (collectMetrics a b c d e now m)) = AvgResponseTime m"
  "ErrorRate (GetMetrics sm (collectMetrics a b c d e now m)) = ErrorRate m"
  by (simp_all add: GetMetrics_def collectMetrics_def)

text \<open>
  A threat is counted as blocked before it is counted: a collection between the two loads of a request
  that blocks shows more blocked threats than threats.
\<close>

lemma blocked_exceeds_total:
  assumes "totalThreats c = 0" "blockedThreats c = 0"
    and "d = c\<lparr>blockedThreats := 1\<rparr>"
  shows "TotalThreats (collectMetrics a b c d e now m) < BlockedThreats (collectMetrics a b c d e now m)"
  using assms by (simp add: collectMetrics_def)

section \<open>Start, stop and the goroutines\<close>

record SecurityService =
  mgr :: OptimizedSecurityManager
  metrics :: OptimizedSecurityMetrics
  ctx_done :: bool
  events_closed :: bool
  processors :: nat     \<comment> \<open>running event processors, metrics collectors and cleanup workers\<close>
  collectors :: nat
  cleaners :: nat

definition NewSecurityService :: "OptimizedSecurityConfig option \<Rightarrow> SecurityService option" where
  "NewSecurityService cfg = map_option (\<lambda>sm. \<lparr>mgr = sm, metrics = fresh_metrics, ctx_done = False, events_closed = False,
     processors = 0, collectors = 0, cleaners = 0\<rparr>) (NewOptimizedSecurityManager cfg)"

text \<open>\<^verbatim>\<open>time.NewTicker\<close> panics for an interval that is not positive.\<close>

definition StartService :: "SecurityService \<Rightarrow> SecurityService option" where
  "StartService s = (let cfg = config (mgr s) in
     if \<not> Enabled cfg then Some s
     else if MetricsEnabled cfg \<and> MetricsInterval cfg \<le> 0 then None
     else Some (s\<lparr>processors := processors s + 1, collectors := collectors s + (if MetricsEnabled cfg then 1 else 0),
       cleaners := cleaners s + 1\<rparr>))"

definition StopService :: "SecurityService \<Rightarrow> SecurityService option" where
  "StopService s = (if events_closed s then None else Some (s\<lparr>ctx_done := True, events_closed := True\<rparr>))"

text \<open>A request; a \<^verbatim>\<open>select\<close> that sends on a closed channel panics, its default branch notwithstanding.\<close>

definition ServiceCheckConnection :: "(string \<times> int) option \<Rightarrow> string \<Rightarrow> string \<Rightarrow> string \<Rightarrow> time \<Rightarrow> SecurityService \<Rightarrow>
    (SecurityService \<times> bool \<times> string) option" where
  "ServiceCheckConnection addr la ua pr now s =
     (let (sm, ok, why) = CheckConnection addr la ua pr now (mgr s)
      in if events_closed s \<and> why = ''ddos_protection'' then None else Some (s\<lparr>mgr := sm\<rparr>, ok, why))"

definition ServiceCheckData :: "(string \<Rightarrow> bytes \<Rightarrow> bool) \<Rightarrow> string list \<Rightarrow> bytes \<Rightarrow> string \<Rightarrow> string \<Rightarrow> time \<Rightarrow> SecurityService \<Rightarrow>
    (SecurityService \<times> bool \<times> string list) option" where
  "ServiceCheckData match ks data src tgt now s =
     (let cfg = config (mgr s); (sm, ok, rs) = CheckData match ks data src tgt now (mgr s)
      in if events_closed s \<and> Enabled cfg \<and> ThreatDetectionEnabled cfg \<and> snd (DetectThreats match ks data src tgt now (mgr s)) \<noteq> []
         then None else Some (s\<lparr>mgr := sm\<rparr>, ok, rs))"

text \<open>
  The service with its goroutines. A processor that finds the channel closed receives nil and goes round
  again; with both cases of its \<^verbatim>\<open>select\<close> ready it may still take an event after the stop.
\<close>

inductive sec_step :: "SecurityService \<Rightarrow> SecurityService option \<Rightarrow> bool" where
  start: "sec_step s (StartService s)"
| stop: "sec_step s (StopService s)"
| conn: "sec_step s (map_option fst (ServiceCheckConnection addr la ua pr now s))"
| data: "sec_step s (map_option fst (ServiceCheckData match ks d src tgt now s))"
| update: "sec_step s (Some (s\<lparr>mgr := (mgr s)\<lparr>connections := UpdateConnection i sent received now (connections (mgr s))\<rparr>\<rparr>))"
| block: "sec_step s (Some (s\<lparr>mgr := BlockIP ip dur now (mgr s)\<rparr>))"
| unblock: "sec_step s (Some (s\<lparr>mgr := UnblockIP ip (mgr s)\<rparr>))"
| add_sig: "sec_step s (Some (s\<lparr>mgr := AddThreatSignature sg (mgr s)\<rparr>))"
| del_sig: "sec_step s (Some (s\<lparr>mgr := RemoveThreatSignature i (mgr s)\<rparr>))"
| reconfigure: "sec_step s (Some (s\<lparr>mgr := UpdateConfig cfg (mgr s)\<rparr>))"
| event: "0 < processors s \<Longrightarrow> sec_step s (Some (s\<lparr>mgr := fst (eventProcessor (mgr s))\<rparr>))"
| collect: "0 < collectors s \<Longrightarrow> sec_step s (Some (s\<lparr>metrics := collectMetrics (mgr s) (mgr s) (mgr s) (mgr s) (mgr s) now (metrics s)\<rparr>))"
| clean: "0 < cleaners s \<Longrightarrow> sec_step s (Some (s\<lparr>mgr := cleanupWorker now (mgr s)\<rparr>))"
| processor_exit: "ctx_done s \<Longrightarrow> 0 < processors s \<Longrightarrow> sec_step s (Some (s\<lparr>processors := processors s - 1\<rparr>))"
| collector_exit: "ctx_done s \<Longrightarrow> 0 < collectors s \<Longrightarrow> sec_step s (Some (s\<lparr>collectors := collectors s - 1\<rparr>))"
| cleaner_exit: "ctx_done s \<Longrightarrow> 0 < cleaners s \<Longrightarrow> sec_step s (Some (s\<lparr>cleaners := cleaners s - 1\<rparr>))"

text \<open>Only a start with a bad interval, a second stop, or a threat found after the stop panics.\<close>

lemma panics_only_after_stop:
  assumes "sec_step s None"
  shows "events_closed s \<or> Enabled (config (mgr s)) \<and> MetricsEnabled (config (mgr s)) \<and> MetricsInterval (config (mgr s)) \<le> 0"
  using assms
  by (cases rule: sec_step.cases)
    (auto simp: StartService_def StopService_def ServiceCheckConnection_def ServiceCheckData_def Let_def split: if_splits prod.splits)

lemma second_service_stop_panics: "StopService s = Some s' \<Longrightarrow> StopService s' = None"
  by (auto simp: StopService_def split: if_splits)

lemma request_after_stop_panics:
  assumes "StopService s = Some s'" "Enabled (config (mgr s))" "ThreatDetectionEnabled (config (mgr s))"
    and "AnomalyDetectionEnabled (config (mgr s))" "10000 < length d"
  shows "ServiceCheckData match ks d src tgt now s' = None"
  using assms by (auto simp: StopService_def ServiceCheckData_def DetectThreats_def detectAnomalies_def Let_def split: if_splits prod.splits)

text \<open>The channel is never over its capacity, and stays what it was made with.\<close>

definition service_ok :: "SecurityService \<Rightarrow> bool" where
  "service_ok s \<longleftrightarrow> int (length (events (mgr s))) \<le> event_cap (mgr s) \<and> (ctx_done s \<longleftrightarrow> events_closed s)"

lemma publish_bounded:
  "int (length (events sm)) \<le> event_cap sm \<Longrightarrow>
   int (length (events (publishThreatEvent te sm))) \<le> event_cap (publishThreatEvent te sm)"
  "event_cap (publishThreatEvent te sm) = event_cap sm"
  by (auto simp: publishThreatEvent_def)

lemma respond_all_bounded:
  "int (length (events sm)) \<le> event_cap sm \<Longrightarrow>
   int (length (events (fst (respond_all now tes sm)))) \<le> event_cap (fst (respond_all now tes sm))"
proof (induction tes arbitrary: sm)
  case (Cons te tes)
  obtain bl r where "RespondToThreat (config sm) te now (blacklist sm) = (bl, r)" by fastforce
  with Cons publish_bounded(1)[OF Cons.prems] show ?case by (simp add: Let_def case_prod_unfold)
qed simp

lemma CheckData_bounded:
  assumes "int (length (events sm)) \<le> event_cap sm"
  shows "int (length (events (fst (CheckData match ks d src tgt now sm)))) \<le> event_cap (fst (CheckData match ks d src tgt now sm))"
proof (cases "Enabled (config sm) \<and> ThreatDetectionEnabled (config sm)")
  case True
  have "int (length (events (fst (DetectThreats match ks d src tgt now sm)))) \<le> event_cap (fst (DetectThreats match ks d src tgt now sm))"
    using assms by (simp add: DetectThreats_def Let_def case_prod_unfold)
  from respond_all_bounded[OF this] True show ?thesis by (simp add: CheckData_run Let_def)
qed (use assms in \<open>auto simp: CheckData_def\<close>)

lemma CheckConnection_bounded:
  assumes "int (length (events sm)) \<le> event_cap sm"
  shows "int (length (events (fst (CheckConnection addr la ua pr now sm)))) \<le> event_cap (fst (CheckConnection addr la ua pr now sm))"
  using assms publish_bounded(1) by (auto simp: CheckConnection_def Let_def split: option.split prod.split)

lemma eventProcessor_bounded:
  assumes "int (length (events sm)) \<le> event_cap sm"
  shows "int (length (events (fst (eventProcessor sm)))) \<le> event_cap (fst (eventProcessor sm))"
  using assms by (auto simp: eventProcessor_def processEvent_def split: list.split)

lemma service_inv:
  assumes "sec_step s (Some s')" "service_ok s"
  shows "service_ok s'"
  using assms
proof (cases rule: sec_step.cases)
  case (conn addr la ua pr now)
  with assms(2) CheckConnection_bounded[of "mgr s" addr la ua pr now] show ?thesis
    by (auto simp: ServiceCheckConnection_def service_ok_def Let_def case_prod_unfold split: if_splits)
next
  case (data match ks d src tgt now)
  with assms(2) CheckData_bounded[of "mgr s" match ks d src tgt now] show ?thesis
    by (auto simp: ServiceCheckData_def service_ok_def Let_def case_prod_unfold split: if_splits)
next
  case event
  with assms(2) eventProcessor_bounded[of "mgr s"] show ?thesis by (simp add: service_ok_def)
qed (auto simp: service_ok_def StartService_def StopService_def BlockIP_def UnblockIP_def AddThreatSignature_def
    RemoveThreatSignature_def UpdateConfig_def cleanupWorker_def Let_def split: if_splits)

section \<open>No accepted event is lost\<close>

definition of_type :: "string \<Rightarrow> ThreatEvent list \<Rightarrow> int" where
  "of_type ty tes = int (length (filter (\<lambda>te. TeType te = ty) tes))"

text \<open>Processed and waiting events of a type: what the processor moves between and nothing else changes but a publication.\<close>

definition accounted :: "string \<Rightarrow> OptimizedSecurityManager \<Rightarrow> int" where
  "accounted ty sm = ThreatsByType sm ty + of_type ty (events sm)"

lemma eventProcessor_accounted: "accounted ty (fst (eventProcessor sm)) = accounted ty sm"
  by (simp add: eventProcessor_def processEvent_def accounted_def of_type_def split: list.split)

lemma publish_accounted:
  "accounted ty (publishThreatEvent te sm) =
     accounted ty sm + (if int (length (events sm)) < event_cap sm \<and> TeType te = ty then 1 else 0)"
  by (simp add: publishThreatEvent_def accounted_def of_type_def)

lemma eventProcessor_length: "Suc n = length (events sm) \<Longrightarrow> n = length (events (fst (eventProcessor sm)))"
  by (auto simp: eventProcessor_def processEvent_def split: list.split)

text \<open>With as many rounds as events wait, the processor has counted each of them under its type.\<close>

lemma drained:
  assumes "sm' = ((\<lambda>sm. fst (eventProcessor sm)) ^^ length (events sm)) sm"
  shows "events sm' = [] \<and> ThreatsByType sm' ty = ThreatsByType sm ty + of_type ty (events sm)"
proof -
  have "events (((\<lambda>sm. fst (eventProcessor sm)) ^^ n) sm) = []" if "n = length (events sm)" for n sm
    using that
  proof (induction n arbitrary: sm)
    case (Suc n)
    show ?case unfolding funpow_Suc_right o_apply by (rule Suc.IH[OF eventProcessor_length[OF Suc.prems]])
  qed simp
  then have "events sm' = []" using assms by simp
  moreover have "accounted ty (((\<lambda>sm. fst (eventProcessor sm)) ^^ n) sm) = accounted ty sm" for n
    by (induction n) (simp_all add: eventProcessor_accounted)
  then have "accounted ty sm' = accounted ty sm" using assms by simp
  ultimately show ?thesis by (simp add: accounted_def of_type_def)
qed

text \<open>After a stop every goroutine can end, whatever waits in the channel.\<close>

inductive sec_steps :: "SecurityService \<Rightarrow> SecurityService \<Rightarrow> bool" where
  refl: "sec_steps s s"
| more: "sec_steps s t \<Longrightarrow> sec_step t (Some u) \<Longrightarrow> sec_steps s u"

lemma sec_steps_first: "sec_step s (Some t) \<Longrightarrow> sec_steps t u \<Longrightarrow> sec_steps s u"
  by (rotate_tac 1, induction rule: sec_steps.induct) (auto intro: sec_steps.intros)

lemma goroutines_end:
  assumes "ctx_done s"
  shows "sec_steps s (s\<lparr>processors := 0, collectors := 0, cleaners := 0\<rparr>)"
  using assms
proof (induction "processors s + collectors s + cleaners s" arbitrary: s rule: less_induct)
  case less
  consider (p) "0 < processors s" | (c) "0 < collectors s" | (l) "0 < cleaners s" | (z) "processors s = 0" "collectors s = 0" "cleaners s = 0"
    by auto
  then show ?case
  proof cases
    case p
    with less.hyps[of "s\<lparr>processors := processors s - 1\<rparr>"] less.prems show ?thesis
      by (auto intro: sec_steps_first[OF sec_step.processor_exit])
  next
    case c
    with less.hyps[of "s\<lparr>collectors := collectors s - 1\<rparr>"] less.prems show ?thesis
      by (auto intro: sec_steps_first[OF sec_step.collector_exit])
  next
    case l
    with less.hyps[of "s\<lparr>cleaners := cleaners s - 1\<rparr>"] less.prems show ?thesis
      by (auto intro: sec_steps_first[OF sec_step.cleaner_exit])
  next
    case z
    then have "s\<lparr>processors := 0, collectors := 0, cleaners := 0\<rparr> = s" by simp
    then show ?thesis by (simp add: sec_steps.refl)
  qed
qed

end
