(* ===== verification/Bus_Lifecycle.thy ===== *)
theory Bus_Lifecycle
  imports Message_Bus
begin

text \<open>
  The life of the message bus of \<^verbatim>\<open>core/bus/enhanced_message_bus.go\<close>: its configuration, the goroutines it
  starts, the connection objects it closes, and \<^verbatim>\<open>Close\<close>. The operations are those of \<open>Message_Bus\<close>.
\<close>

section \<open>Configuration and compression\<close>

record BusConfig =
  cfg_MaxConnections :: int
  MessageTimeout :: duration
  CleanupInterval :: duration
  RetryAttempts :: int
  BatchSize :: int
  CompressionEnabled :: bool
  EnableMetrics :: bool
  EnableTracing :: bool
  PartitionCount :: int
  MaxQueueSize :: int
  EnablePersistence :: bool
  PersistencePath :: string

definition DefaultBusConfig :: BusConfig where
  "DefaultBusConfig = \<lparr>cfg_MaxConnections = 10000, MessageTimeout = 30 * second, CleanupInterval = 5 * minute,
     RetryAttempts = 3, BatchSize = 100, CompressionEnabled = True, EnableMetrics = True, EnableTracing = False,
     PartitionCount = 4, MaxQueueSize = 10000, EnablePersistence = False, PersistencePath = ''/tmp/muxcore_bus''\<rparr>"

definition GzipCompress :: "bytes \<Rightarrow> bytes" where "GzipCompress data = data"
definition GzipDecompress :: "bytes \<Rightarrow> bytes" where "GzipDecompress data = data"

definition NewInMemoryMessageStore :: MessageStore where "NewInMemoryMessageStore = Map.empty"

section \<open>The service\<close>

text \<open>\<open>closed_conns\<close>: the connection objects whose \<^verbatim>\<open>Close\<close> was called; \<open>closers\<close>: the callers of \<^verbatim>\<open>Close\<close> that wait.\<close>

record bus_service =
  the_bus :: bus
  bus_router :: MessageRouter
  bus_config :: BusConfig
  bus_done :: bool
  cleanup_runs :: bool
  metrics_runs :: bool
  closers :: nat
  closed_conns :: "nat set"

text \<open>
  A negative partition count panics in \<^verbatim>\<open>make\<close>, a cleanup interval that is not positive in the goroutine
  started last (\<^verbatim>\<open>time.NewTicker\<close>): either way the program ends.
\<close>

definition NewBusService :: "BusConfig option \<Rightarrow> MessageStore option \<Rightarrow> bus_service option" where
  "NewBusService cfg st =
     (let cfg = (case cfg of None \<Rightarrow> DefaultBusConfig | Some c \<Rightarrow> c);
          st = (case st of None \<Rightarrow> NewInMemoryMessageStore | Some s \<Rightarrow> s)
      in case NewMessageRouter (PartitionCount cfg) of None \<Rightarrow> None
         | Some r \<Rightarrow> if CleanupInterval cfg \<le> 0 then None
             else Some \<lparr>the_bus = NewEnhancedMessageBus (cfg_MaxConnections cfg) (RetryAttempts cfg) (CompressionEnabled cfg) st,
               bus_router = r, bus_config = cfg, bus_done = False, cleanup_runs = True, metrics_runs = EnableMetrics cfg,
               closers = 0, closed_conns = {}\<rparr>)"

definition GetConnectionCount :: "bus_service \<Rightarrow> int" where
  "GetConnectionCount s = int (map_len (connections (the_bus s)))"

definition GetSubscriptionCount :: "bus_service \<Rightarrow> int" where
  "GetSubscriptionCount s = int (map_len (subscriptions (the_bus s)))"

definition GetMetrics :: "bus_service \<Rightarrow> BusMetrics" where
  "GetMetrics s = busMetrics (the_bus s)"

text \<open>The connections a cleanup closes: the inactive ones it meets.\<close>

definition inactive_conns :: "wires \<Rightarrow> string list \<Rightarrow> bus \<Rightarrow> nat set" where
  "inactive_conns w cs b = {conn. \<not> is_active w conn \<and> (\<exists>c\<in>set cs. connections b c = Some conn)}"

definition cleanup_tick :: "wires \<Rightarrow> (bus \<Rightarrow> string list) \<Rightarrow> string list \<Rightarrow> time \<Rightarrow> bus_service \<Rightarrow> bus_service" where
  "cleanup_tick w ks cs now s = s\<lparr>the_bus := cleanup w ks cs now (the_bus s),
     closed_conns := closed_conns s \<union> inactive_conns w cs (the_bus s)\<rparr>"

text \<open>\<^verbatim>\<open>UnregisterConnection\<close> closes the object before it forgets it.\<close>

definition unregister :: "string \<Rightarrow> string list \<Rightarrow> bus_service \<Rightarrow> bus_service" where
  "unregister c ks s = s\<lparr>the_bus := UnregisterConnection c ks (the_bus s),
     closed_conns := closed_conns s \<union> {conn. connections (the_bus s) c = Some conn}\<rparr>"

text \<open>The second half of \<^verbatim>\<open>Close\<close>, after the wait group: the registered connections are closed but stay registered.\<close>

definition close_all :: "bus_service \<Rightarrow> bus_service" where
  "close_all s = s\<lparr>closers := closers s - 1, closed_conns := closed_conns s \<union> ran (connections (the_bus s))\<rparr>"

text \<open>The operations that remove no connection are those of \<open>bus_step\<close>; those that remove one close it too.\<close>

inductive svc_step :: "bus_service \<Rightarrow> bus_service \<Rightarrow> bool" where
  operation: "bus_step (the_bus s) b \<Longrightarrow> dom (connections (the_bus s)) \<subseteq> dom (connections b) \<Longrightarrow>
     svc_step s (s\<lparr>the_bus := b\<rparr>)"
| unregister: "dom (subscriptions (the_bus s)) \<subseteq> set ks \<Longrightarrow> svc_step s (unregister c ks s)"
| cleanup_tick: "cleanup_runs s \<Longrightarrow> set cs = dom (connections (the_bus s)) \<Longrightarrow>
     (\<And>b'. dom (subscriptions b') \<subseteq> dom (subscriptions (the_bus s)) \<Longrightarrow> dom (subscriptions b') \<subseteq> set (ks b')) \<Longrightarrow>
     svc_step s (cleanup_tick w ks cs now s)"
| metrics_tick: "metrics_runs s \<Longrightarrow> svc_step s (s\<lparr>the_bus := updateMetrics (the_bus s)\<rparr>)"
| close: "svc_step s (s\<lparr>bus_done := True, closers := closers s + 1\<rparr>)"
| cleanup_exit: "bus_done s \<Longrightarrow> cleanup_runs s \<Longrightarrow> svc_step s (s\<lparr>cleanup_runs := False\<rparr>)"
| metrics_exit: "bus_done s \<Longrightarrow> metrics_runs s \<Longrightarrow> svc_step s (s\<lparr>metrics_runs := False\<rparr>)"
| closed: "0 < closers s \<Longrightarrow> \<not> cleanup_runs s \<Longrightarrow> \<not> metrics_runs s \<Longrightarrow> svc_step s (close_all s)"

inductive_cases svc_stepE: "svc_step s s'"

section \<open>What holds in every run\<close>

definition svc_inv :: "bus_service \<Rightarrow> bool" where
  "svc_inv s \<longleftrightarrow> bus_wf (the_bus s) \<and> (closers s > 0 \<longrightarrow> bus_done s)"

lemma svc_inv_step [inv_intros]: "svc_step s s' \<Longrightarrow> svc_inv s \<Longrightarrow> svc_inv s'"
proof (induction rule: svc_step.induct)
  case (operation s b)
  then show ?case using bus_step_wf by (simp add: svc_inv_def)
next
  case (unregister s ks c)
  then show ?case using bus_step_wf[OF step_Unregister] by (simp add: svc_inv_def unregister_def)
next
  case (cleanup_tick s cs ks w now)
  then show ?case using bus_step_wf[OF step_cleanup[of "the_bus s" ks w cs now]] by (simp add: svc_inv_def cleanup_tick_def)
next
  case (metrics_tick s)
  then show ?case using bus_step_wf[OF step_updateMetrics] by (simp add: svc_inv_def)
qed (auto simp: svc_inv_def close_all_def)

lemma svc_inv_New: "NewBusService cfg st = Some s \<Longrightarrow> svc_inv s"
  by (auto simp: NewBusService_def svc_inv_def Let_def bus_wf_New split: option.splits if_splits)

text \<open>A caller of \<^verbatim>\<open>Close\<close> always returns: the loops are told to end, and then every registered connection is closed.\<close>

lemma close_returns:
  assumes "svc_inv s" "0 < closers s"
  shows "\<exists>s'. svc_step\<^sup>*\<^sup>* s s' \<and> closers s' = closers s - 1 \<and> the_bus s' = the_bus s \<and>
    ran (connections (the_bus s')) \<subseteq> closed_conns s'"
proof -
  let ?s1 = "s\<lparr>cleanup_runs := False\<rparr>" and ?s2 = "s\<lparr>cleanup_runs := False, metrics_runs := False\<rparr>"
  have d: "bus_done s" using assms by (simp add: svc_inv_def)
  have "svc_step\<^sup>*\<^sup>* s ?s1"
  proof (cases "cleanup_runs s")
    case True
    then show ?thesis using svc_step.cleanup_exit d by blast
  next
    case False
    then have "?s1 = s" by simp
    then show ?thesis by simp
  qed
  moreover have "svc_step\<^sup>*\<^sup>* ?s1 ?s2"
  proof (cases "metrics_runs s")
    case True
    then show ?thesis using svc_step.metrics_exit[of ?s1] d by auto
  next
    case False
    then have "?s2 = ?s1" by simp
    then show ?thesis by simp
  qed
  moreover have "svc_step ?s2 (close_all ?s2)" using assms(2) by (intro svc_step.closed) simp_all
  ultimately have "svc_step\<^sup>*\<^sup>* s (close_all ?s2)" by auto
  then show ?thesis by (rule exI[of _ "close_all ?s2", OF conjI]) (auto simp: close_all_def)
qed

lemma drop_subscriptions_of_connections: "connections (drop_subscriptions_of c ks b) = connections b"
  by (induction ks arbitrary: b) (simp_all add: drop_subscription_fields split: option.split)

lemma drop_inactive_connections:
  "connections (drop_inactive w ks cs b) c =
    (if c \<in> set cs \<and> (\<exists>conn. connections b c = Some conn \<and> \<not> is_active w conn) then None else connections b c)"
proof (induction cs arbitrary: b)
  case (Cons d cs)
  show ?case
    by (auto simp: Cons UnregisterConnection_def drop_subscriptions_of_connections split: option.split)
qed simp

lemma inactive_conns_removed:
  "conn \<in> inactive_conns w cs b \<Longrightarrow> \<exists>c. connections b c = Some conn \<and> connections (cleanup w ks cs now b) c = None"
  by (auto simp: inactive_conns_def cleanup_def drop_inactive_connections)

text \<open>Unless a caller of \<^verbatim>\<open>Close\<close> waits, a connection is closed only when a name it had is no longer registered.\<close>

lemma closes_only_removed:
  assumes "svc_step s s'" "conn \<in> closed_conns s'" "conn \<notin> closed_conns s" "closers s = 0"
  shows "\<exists>c. connections (the_bus s) c = Some conn \<and> connections (the_bus s') c = None"
  using assms
  by (auto elim!: svc_stepE intro!: inactive_conns_removed simp: close_all_def cleanup_tick_def unregister_def
      UnregisterConnection_def drop_subscriptions_of_connections)

text \<open>A connection registered under a name in use replaces the other, which is neither closed nor unregistered.\<close>

lemma replaced_connection_leaks:
  assumes "connections b c = Some old" "int (map_len (connections b)) < maxConnections b" "the_bus s' = b"
  shows "svc_step s' (s'\<lparr>the_bus := fst (RegisterConnection c new b)\<rparr>) \<and>
    closed_conns (s'\<lparr>the_bus := fst (RegisterConnection c new b)\<rparr>) = closed_conns s' \<and>
    connections (fst (RegisterConnection c new b)) c = Some new"
  using assms svc_step.operation[OF step_Register[of "the_bus s'" c new]] by (auto simp: RegisterConnection_def)

text \<open>
  A closed bus is not marked closed: connections may still be registered, and a message is still sent to
  connections that \<^verbatim>\<open>Close\<close> has closed.
\<close>

lemma closed_bus_still_sends:
  assumes "connections (the_bus s) c = Some conn" "send_ok w conn 0" "0 \<le> retryAttempts (the_bus s)"
  shows "conn \<in> closed_conns (close_all s) \<and> SendDirect w c (the_bus (close_all s)) = None"
proof -
  have "sendWithRetry w conn (the_bus s) = (1, 0, None)"
    using assms(2,3) by (cases "nat (retryAttempts (the_bus s) + 1)") (auto simp: sendWithRetry_def)
  with assms(1) show ?thesis by (auto simp: close_all_def SendDirect_def ranI)
qed

lemma GzipCompressor_is_identity: "GzipDecompress (GzipCompress d) = d" "length (GzipCompress d) = length d"
  by (simp_all add: GzipCompress_def GzipDecompress_def)

lemma counts_within_limit: "svc_inv s \<Longrightarrow> GetConnectionCount s \<le> max 0 (maxConnections (the_bus s))"
  using subs_invD(8)[of "{}" "the_bus s"] by (simp add: svc_inv_def bus_wf_def GetConnectionCount_def)

end
