(* ===== verification/Router_Lifecycle.thy ===== *)
theory Router_Lifecycle
  imports Enhanced_Router
begin

text \<open>
  Starting and stopping the \<^verbatim>\<open>OptimizedRouter\<close> of \<^verbatim>\<open>core/router/enhanced_router.go\<close>: its workers, the three
  periodic goroutines, and what callers of \<^verbatim>\<open>RouteRequest\<close> see then. The channels and the processing of a
  request are those of \<open>Enhanced_Router\<close>.
\<close>

section \<open>Readers\<close>

definition GetMetrics :: "OptimizedRouter \<Rightarrow> OptimizedRouterMetrics" where
  "GetMetrics r = metrics r"

record cache_stats =
  st_hits :: int
  st_misses :: int
  st_evictions :: int
  hit_rate :: rat
  entry_count :: int
  max_size :: int

definition GetCacheStats :: "OptimizedRouter \<Rightarrow> cache_stats" where
  "GetCacheStats r = (let rc = routeCache r in
     \<lparr>st_hits = hits rc, st_misses = misses rc, st_evictions = evictions rc,
      hit_rate = (if hits rc + misses rc > 0 then of_int (hits rc) / of_int (hits rc + misses rc) else 0),
      entry_count = int (map_len (entries rc)), max_size = maxSize rc\<rparr>)"

lemma hit_rate_bounds:
  assumes "0 \<le> hits (routeCache r)" "0 \<le> misses (routeCache r)"
  shows "0 \<le> hit_rate (GetCacheStats r) \<and> hit_rate (GetCacheStats r) \<le> 1"
proof (cases "hits (routeCache r) + misses (routeCache r) > 0")
  case True
  let ?h = "of_int (hits (routeCache r)) :: rat" and ?s = "of_int (hits (routeCache r) + misses (routeCache r)) :: rat"
  have "0 < ?s" "0 \<le> ?h" "?h \<le> ?s" using True assms by (simp_all only: of_int_0_less_iff of_int_0_le_iff of_int_le_iff)
  then show ?thesis using True by (simp add: GetCacheStats_def Let_def divide_le_eq_1)
qed (simp add: GetCacheStats_def Let_def)

section \<open>The service\<close>

text \<open>
  \<open>idle\<close> counts the workers that wait for a request, \<open>working (chans s)\<close> the requests in the hands of the
  others, \<open>lost\<close> the requests a worker took and dropped.
\<close>

record router_service =
  router :: OptimizedRouter
  chans :: channels
  idle :: nat
  rt_done :: bool
  metrics_loops :: nat
  health_loops :: nat
  cleanup_loops :: nat
  lost :: "nat list"

definition conc :: "OptimizedRouter \<Rightarrow> nat" where
  "conc r = nat (MaxConcurrency (or_config r))"

text \<open>A negative \<^verbatim>\<open>MaxConcurrency\<close> panics in \<^verbatim>\<open>make\<close>.\<close>

definition NewRouterService :: "OptimizedRouterConfig \<Rightarrow> node_heap \<Rightarrow> time \<Rightarrow> router_service option" where
  "NewRouterService cfg h now = (if MaxConcurrency cfg < 0 then None
     else Some \<lparr>router = NewOptimizedRouter cfg h now, chans = idle_channels, idle = 0, rt_done = False,
       metrics_loops = 0, health_loops = 0, cleanup_loops = 0, lost = []\<rparr>)"

text \<open>A ticker whose interval is not positive panics.\<close>

definition StartRouter :: "router_service \<Rightarrow> router_service option" where
  "StartRouter s = (let cfg = or_config (router s) in
     if EnableMetrics cfg \<and> MetricsInterval cfg \<le> 0 \<or> HealthCheckInterval cfg \<le> 0 then None
     else Some (s\<lparr>idle := idle s + conc (router s), metrics_loops := metrics_loops s + (if EnableMetrics cfg then 1 else 0),
       health_loops := health_loops s + 1, cleanup_loops := cleanup_loops s + (if EnableCaching cfg then 1 else 0)\<rparr>))"

definition StopRouter :: "router_service \<Rightarrow> router_service" where
  "StopRouter s = s\<lparr>rt_done := True\<rparr>"

text \<open>
  \<open>n\<close> fixes the capacity of the channels, twice the concurrency the router was made with. A worker whose
  context is done may still take a waiting request, for a \<^verbatim>\<open>select\<close> with several cases ready takes any.
\<close>

inductive rt_step :: "nat \<Rightarrow> router_service \<Rightarrow> router_service \<Rightarrow> bool" for n where
  submit: "length (requestQueue (chans s)) < 2 * n \<Longrightarrow>
     rt_step n s (s\<lparr>chans := (chans s)\<lparr>requestQueue := requestQueue (chans s) @ [next_req (chans s)],
       waiting := next_req (chans s) # waiting (chans s), next_req := next_req (chans s) + 1\<rparr>\<rparr>)"
| submit_timeout: "rt_step n s (s\<lparr>chans := (chans s)\<lparr>next_req := next_req (chans s) + 1\<rparr>\<rparr>)"
| take: "requestQueue (chans s) = q # qs \<Longrightarrow> 0 < idle s \<Longrightarrow> processRequest env rq (router s) = Some (r, res) \<Longrightarrow>
     set (entry_order env) = dom (entries (routeCache (router s))) \<Longrightarrow>
     rt_step n s (s\<lparr>router := r, idle := idle s - 1, chans := (chans s)\<lparr>requestQueue := qs, working := q # working (chans s)\<rparr>\<rparr>)"
| finish: "q \<in> set (working (chans s)) \<Longrightarrow> length (resultQueue (chans s)) < 2 * n \<Longrightarrow>
     rt_step n s (s\<lparr>idle := idle s + 1, chans := (chans s)\<lparr>working := remove1 q (working (chans s)),
       resultQueue := resultQueue (chans s) @ [q]\<rparr>\<rparr>)"
| drop: "rt_done s \<Longrightarrow> q \<in> set (working (chans s)) \<Longrightarrow>
     rt_step n s (s\<lparr>lost := q # lost s, chans := (chans s)\<lparr>working := remove1 q (working (chans s))\<rparr>\<rparr>)"
| worker_exit: "rt_done s \<Longrightarrow> 0 < idle s \<Longrightarrow> rt_step n s (s\<lparr>idle := idle s - 1\<rparr>)"
| receive: "c \<in> set (waiting (chans s)) \<Longrightarrow> resultQueue (chans s) = q # qs \<Longrightarrow>
     rt_step n s (s\<lparr>router := updateMetrics res now (router s), chans := (chans s)\<lparr>waiting := remove1 c (waiting (chans s)),
       resultQueue := qs, got := (c, q) # got (chans s)\<rparr>\<rparr>)"
| result_timeout: "c \<in> set (waiting (chans s)) \<Longrightarrow>
     rt_step n s (s\<lparr>chans := (chans s)\<lparr>waiting := remove1 c (waiting (chans s))\<rparr>\<rparr>)"
| metrics_tick: "0 < metrics_loops s \<Longrightarrow> rt_step n s (s\<lparr>router := calculateMetrics now now2 (router s)\<rparr>)"
| health_tick: "0 < health_loops s \<Longrightarrow> rt_step n s (s\<lparr>router := performHealthCheck now (router s)\<rparr>)"
| cleanup_tick: "0 < cleanup_loops s \<Longrightarrow>
     rt_step n s (s\<lparr>router := (router s)\<lparr>routeCache := cache_Cleanup now (routeCache (router s))\<rparr>\<rparr>)"
| loop_exit: "rt_done s \<Longrightarrow> ml \<le> metrics_loops s \<Longrightarrow> hl \<le> health_loops s \<Longrightarrow> cl \<le> cleanup_loops s \<Longrightarrow>
     rt_step n s (s\<lparr>metrics_loops := ml, health_loops := hl, cleanup_loops := cl\<rparr>)"
| stop: "rt_step n s (StopRouter s)"

inductive_cases rt_stepE: "rt_step n s s'"

section \<open>The workers implement the channels\<close>

text \<open>
  With at most \<open>n\<close> workers every step is a step of the channel relation, does not touch the channels, or
  is the loss of a request, which only a stop allows.
\<close>

lemma rt_step_refines:
  assumes "rt_step n s s'" "idle s + length (working (chans s)) \<le> n"
  shows "idle s' + length (working (chans s')) \<le> n \<and>
    (chan_step n (chans s) (chans s') \<or> chans s' = chans s \<or>
     rt_done s \<and> (\<exists>q\<in>set (working (chans s)). lost s' = q # lost s \<and>
       chans s' = (chans s)\<lparr>working := remove1 q (working (chans s))\<rparr>))"
  using assms
proof (induction rule: rt_step.induct)
  case (submit s)
  then show ?case using chan_step.submit[of "chans s" n] by simp
next
  case (submit_timeout s)
  then show ?case using chan_step.submit_timeout[of n "chans s"] by simp
next
  case (take s q qs env rq r res)
  then show ?case using chan_step.take[of "chans s" q qs n] by auto
next
  case (finish q s)
  then have "length (remove1 q (working (chans s))) + 1 = length (working (chans s))"
    by (metis One_nat_def Suc_pred add.commute length_pos_if_in_set length_remove1 plus_1_eq_Suc)
  with finish show ?case using chan_step.finish[of q "chans s" n] by (simp del: length_remove1)
next
  case (receive c s q qs res now)
  then show ?case using chan_step.receive[of c "chans s" q qs n] by simp
next
  case (result_timeout c s)
  then show ?case using chan_step.result_timeout[of c "chans s" n] by simp
next
  case (drop s q)
  then show ?case by (auto simp: length_remove1)
qed (auto simp: StopRouter_def)

lemma chan_inv_drop: "chan_inv n c \<Longrightarrow> chan_inv n (c\<lparr>working := remove1 q (working c)\<rparr>)"
  using set_remove1_subset[of q "working c"] length_remove1[of q "working c"]
  unfolding chan_inv_def by (auto simp: distinct_remove1)

text \<open>A run is a sequence of such steps after one start.\<close>

definition rt_inv :: "nat \<Rightarrow> router_service \<Rightarrow> bool" where
  "rt_inv n s \<longleftrightarrow> chan_inv n (chans s) \<and> idle s + length (working (chans s)) \<le> n"

lemma rt_inv_step [inv_intros]: "rt_step n s s' \<Longrightarrow> rt_inv n s \<Longrightarrow> rt_inv n s'"
  using rt_step_refines[of n s s'] chan_inv_step[of n "chans s" "chans s'"] chan_inv_drop unfolding rt_inv_def by auto

lemma rt_inv_start:
  assumes "NewRouterService cfg h now = Some s0" "StartRouter s0 = Some s"
  shows "rt_inv (nat (MaxConcurrency cfg)) s"
proof -
  from assms(1) have "idle s0 = 0" "chans s0 = idle_channels" "conc (router s0) = nat (MaxConcurrency cfg)"
    by (auto simp: NewRouterService_def conc_def NewOptimizedRouter_def split: if_splits)
  with assms(2) show ?thesis
    by (auto simp: StartRouter_def rt_inv_def chan_inv_def idle_channels_def Let_def split: if_splits)
qed

lemma rt_run:
  "NewRouterService cfg h now = Some s0 \<Longrightarrow> StartRouter s0 = Some s \<Longrightarrow> (rt_step (nat (MaxConcurrency cfg)))\<^sup>*\<^sup>* s s' \<Longrightarrow>
   rt_inv (nat (MaxConcurrency cfg)) s'"
  by (rotate_tac 2, induction rule: rtranclp_induct) (auto intro: rt_inv_start rt_inv_step)

section \<open>After a stop\<close>

text \<open>
  Once the workers have ended nobody takes a request: the answers still to come are the results that wait,
  a submission is accepted while the queue has room, and its caller can only time out.
\<close>

definition workers_gone :: "router_service \<Rightarrow> bool" where
  "workers_gone s \<longleftrightarrow> rt_done s \<and> idle s = 0 \<and> working (chans s) = []"

definition answers :: "router_service \<Rightarrow> nat list" where
  "answers s = rev (map snd (got (chans s))) @ resultQueue (chans s)"

lemma workers_gone_step:
  assumes "rt_step n s s'" "workers_gone s"
  shows "workers_gone s' \<and> answers s' = answers s"
  using assms by (auto elim!: rt_stepE simp: workers_gone_def answers_def StopRouter_def)

lemma stopped_router_answers_nothing_new:
  assumes "(rt_step n)\<^sup>*\<^sup>* s s'" "workers_gone s"
  shows "workers_gone s' \<and> answers s' = answers s"
  using assms by (induction rule: rtranclp_induct) (auto dest: workers_gone_step)

text \<open>And they can all end: a stopped router reaches that state by the steps of its workers alone.\<close>

lemma workers_end:
  assumes "rt_done s"
  shows "\<exists>s'. (rt_step n)\<^sup>*\<^sup>* s s' \<and> workers_gone s' \<and> requestQueue (chans s') = requestQueue (chans s)"
  using assms
proof (induction "idle s + length (working (chans s))" arbitrary: s rule: less_induct)
  case less
  show ?case
  proof (cases "working (chans s)")
    case Nil
    show ?thesis
    proof (cases "idle s")
      case 0
      with Nil less.prems show ?thesis by (auto simp: workers_gone_def)
    next
      case (Suc k)
      let ?t = "s\<lparr>idle := idle s - 1\<rparr>"
      have "rt_step n s ?t" using less.prems Suc by (intro rt_step.worker_exit) simp_all
      moreover obtain s' where "(rt_step n)\<^sup>*\<^sup>* ?t s'" "workers_gone s'" "requestQueue (chans s') = requestQueue (chans s)"
        using less.hyps[of ?t] less.prems Suc by auto
      ultimately show ?thesis by (meson converse_rtranclp_into_rtranclp)
    qed
  next
    case (Cons q qs)
    let ?t = "s\<lparr>lost := q # lost s, chans := (chans s)\<lparr>working := remove1 q (working (chans s))\<rparr>\<rparr>"
    have "rt_step n s ?t" using less.prems Cons by (intro rt_step.drop) simp_all
    moreover obtain s' where "(rt_step n)\<^sup>*\<^sup>* ?t s'" "workers_gone s'" "requestQueue (chans s') = requestQueue (chans s)"
      using less.hyps[of ?t] less.prems Cons by auto
    ultimately show ?thesis by (meson converse_rtranclp_into_rtranclp)
  qed
qed

text \<open>A second start makes workers whose context is done from the beginning: nothing clears the stop.\<close>

lemma restart_stays_done: "StartRouter s = Some s' \<Longrightarrow> rt_done s' = rt_done s"
  by (auto simp: StartRouter_def Let_def split: if_splits)

lemma never_undone: "(rt_step n)\<^sup>*\<^sup>* s s' \<Longrightarrow> rt_done s \<Longrightarrow> rt_done s'"
  by (induction rule: rtranclp_induct) (auto elim!: rt_stepE simp: StopRouter_def)

section \<open>The cache in a running router\<close>

lemma cache_inv_Get [inv_intros]: "cache_inv rc \<Longrightarrow> cache_inv (fst (cache_Get key now t rc))"
  by (auto simp: cache_Get_def cache_inv_def map_len_upd domI insert_absorb split: option.split)

lemma dom_cache_Get [simp]: "dom (entries (fst (cache_Get key now t rc))) = dom (entries rc)"
  by (auto simp: cache_Get_def split: option.split)

lemma cache_inv_processRequest [inv_intros]:
  assumes "processRequest env q r = Some (r', res)" "cache_inv (routeCache r)"
    and "set (entry_order env) = dom (entries (routeCache r))"
  shows "cache_inv (routeCache r')"
proof -
  let ?g = "cache_Get (generateKey (key_order env) q) (t_get env) (t_get env) (routeCache r)"
  have "cache_inv (fst ?g)" "set (entry_order env) = dom (entries (fst ?g))"
    using assms(2,3) by (simp_all add: cache_inv_Get)
  with assms show ?thesis
    by (auto simp: processRequest_def Let_def case_prod_beta cache_Put_ok generateKey_nonempty
        dest!: selectNode_cache split: option.splits if_splits)
qed

lemma cache_inv_Cleanup [inv_intros]: "cache_inv rc \<Longrightarrow> cache_inv (cache_Cleanup now rc)"
proof -
  assume a: "cache_inv rc"
  let ?k = "filter_map (\<lambda>k e. \<not> now > ExpireTime e) (entries rc)"
  have "map_len ?k \<le> map_len (entries rc)"
    unfolding map_len_def using a by (intro card_mono dom_filter_map) (simp add: cache_inv_def)
  with a dom_filter_map[of "\<lambda>k e. \<not> now > ExpireTime e" "entries rc"] show ?thesis
    by (auto simp: cache_inv_def cache_Cleanup_def Let_def)
qed

lemma cache_inv_frame:
  "routeCache (calculateMetrics now now2 r) = routeCache r"
  "routeCache (performHealthCheck now r) = routeCache r"
  "entries (routeCache (updateMetrics res now r)) = entries (routeCache r)"
  "maxSize (routeCache (updateMetrics res now r)) = maxSize (routeCache r)"
  by (simp_all add: calculateMetrics_def calculateNodeUtilization_def calculateLoadBalanceEfficiency_def
      performHealthCheck_def updateMetrics_def Let_def case_prod_beta)

text \<open>Through every interleaving of callers, workers and tickers the cache stays within its size.\<close>

lemma running_cache_inv:
  assumes "(rt_step n)\<^sup>*\<^sup>* s s'" "cache_inv (routeCache (router s))"
  shows "cache_inv (routeCache (router s'))"
  using assms
proof (induction rule: rtranclp_induct)
  case (step t u)
  then have "cache_inv (routeCache (router t))" by simp
  with step.hyps(2) show ?case
    by (cases rule: rt_step.cases)
      (auto intro: cache_inv_processRequest cache_inv_Cleanup simp: cache_inv_frame StopRouter_def,
       auto simp: cache_inv_def cache_inv_frame)
qed simp

end
