(* ===== verification/Http_Serving.thy ===== *)
theory Http_Serving
  imports Http_Router
begin

text \<open>
  How the router of \<^verbatim>\<open>core/router/http_router.go\<close> answers a request: its configuration, the default
  handlers and the recovery from a panic. A handler gets the parameters and the response so far and
  returns the response and the value it panicked with, if it did.
\<close>

section \<open>Responses and handlers\<close>

text \<open>\<^verbatim>\<open>http.ResponseWriter\<close>: the first status counts, and writing without one sends 200.\<close>

record response =
  rsp_status :: "int option"
  rsp_body :: string

definition no_response :: response where "no_response = \<lparr>rsp_status = None, rsp_body = []\<rparr>"

definition rsp_WriteHeader :: "int \<Rightarrow> response \<Rightarrow> response" where
  "rsp_WriteHeader code r = (if rsp_status r = None then r\<lparr>rsp_status := Some code\<rparr> else r)"

definition rsp_Write :: "string \<Rightarrow> response \<Rightarrow> response" where
  "rsp_Write s r = (let r = rsp_WriteHeader 200 r in r\<lparr>rsp_body := rsp_body r @ s\<rparr>)"

type_synonym serving = "(string \<rightharpoonup> string) \<Rightarrow> response \<Rightarrow> response \<times> string option"

text \<open>\<^verbatim>\<open>http.NotFound\<close>.\<close>

definition http_NotFound :: serving where
  "http_NotFound ps r = (rsp_Write (''404 page not found'' @ [CHR 0x0A]) (rsp_WriteHeader 404 r), None)"

definition defaultNotFoundHandler :: serving where "defaultNotFoundHandler = http_NotFound"

definition defaultMethodNotAllowedHandler :: serving where
  "defaultMethodNotAllowedHandler ps r = (rsp_Write ''Method Not Allowed'' (rsp_WriteHeader 405 r), None)"

definition defaultPanicHandler :: "string \<Rightarrow> serving" where
  "defaultPanicHandler p ps r = (rsp_Write ''Internal Server Error'' (rsp_WriteHeader 500 r), None)"

section \<open>The router with its configuration\<close>

record HandlerConfig =
  CaseSensitive :: bool
  StrictSlash :: bool
  UseEncodedPath :: bool
  SkipClean :: bool
  NotFoundHandler :: "serving option"
  MethodNotAllowed :: "serving option"
  PanicHandler :: "(string \<Rightarrow> serving) option"

definition default_config :: HandlerConfig where
  "default_config = \<lparr>CaseSensitive = False, StrictSlash = False, UseEncodedPath = False, SkipClean = False,
     NotFoundHandler = Some defaultNotFoundHandler, MethodNotAllowed = Some defaultMethodNotAllowedHandler,
     PanicHandler = Some defaultPanicHandler\<rparr>"

text \<open>A panic of the panic handler itself is not recovered: it is the second component.\<close>

definition serve :: "regexp_pkg \<Rightarrow> HandlerConfig \<Rightarrow> string \<Rightarrow> string \<Rightarrow> serving HTTPRouter \<Rightarrow> response \<Rightarrow> response \<times> string option" where
  "serve rx cfg method path r rsp =
     (let (rsp, panic) = (case ServeHTTP rx method path r of
           Some (h, ps) \<Rightarrow> h ps rsp
         | None \<Rightarrow> (case NotFoundHandler cfg of Some h \<Rightarrow> h Map.empty rsp | None \<Rightarrow> http_NotFound Map.empty rsp))
      in case panic of None \<Rightarrow> (rsp, None)
         | Some p \<Rightarrow> (case PanicHandler cfg of Some h \<Rightarrow> h p Map.empty rsp | None \<Rightarrow> defaultPanicHandler p Map.empty rsp))"

text \<open>With the default configuration no panic leaves the router, and every request is answered.\<close>

lemma default_serving_recovers: "snd (serve rx default_config method path r rsp) = None"
  by (auto simp: serve_def default_config_def defaultPanicHandler_def Let_def split: option.split prod.split)

lemma panic_answer:
  assumes "ServeHTTP rx method path r = Some (h, ps)" "h ps rsp = (rsp', Some p)"
  shows "serve rx default_config method path r rsp =
    (rsp'\<lparr>rsp_status := Some (case rsp_status rsp' of None \<Rightarrow> 500 | Some s \<Rightarrow> s), rsp_body := rsp_body rsp' @ ''Internal Server Error''\<rparr>, None)"
  using assms by (auto simp: serve_def default_config_def defaultPanicHandler_def rsp_Write_def rsp_WriteHeader_def Let_def split: option.split)

lemma nothing_found:
  assumes "ServeHTTP rx method path r = None" "rsp_status rsp = None"
  shows "fst (serve rx default_config method path r rsp) =
    rsp\<lparr>rsp_status := Some 404, rsp_body := rsp_body rsp @ ''404 page not found'' @ [CHR 0x0A]\<rparr>"
  using assms by (simp add: serve_def default_config_def defaultNotFoundHandler_def http_NotFound_def rsp_Write_def rsp_WriteHeader_def Let_def)

text \<open>The handler for a known path under another method is never called: such a request gets 404.\<close>

lemma method_handler_unused: "serve rx (cfg\<lparr>MethodNotAllowed := h\<rparr>) = serve rx cfg"
  by (intro ext) (auto simp: serve_def split: option.split)

lemma flags_unused: "serve rx (cfg\<lparr>CaseSensitive := a, StrictSlash := b, UseEncodedPath := c, SkipClean := d\<rparr>) = serve rx cfg"
  by (intro ext) (auto simp: serve_def split: option.split)

lemma other_method_not_found:
  assumes "\<forall>rt\<in>set (routes r). rt_Method rt \<noteq> method" "rsp_status rsp = None"
  shows "rsp_status (fst (serve rx default_config method path r rsp)) = Some 404"
proof -
  have f: "find (\<lambda>rt. rt_Method rt = method \<and> rt_Path rt = path) (routes r) = None"
    using assms(1) by (auto simp: find_None_iff)
  have "match_pattern rx method path rts = None" if "\<forall>rt\<in>set rts. rt_Method rt \<noteq> method" for rts :: "serving Route list"
    using that by (induction rts) auto
  then have "ServeHTTP rx method path r = None" using f assms(1) by (simp add: ServeHTTP_def matchRoute_def)
  from nothing_found[OF this assms(2)] show ?thesis by simp
qed

end
