(* ===== verification/Periodic.thy ===== *)
theory Periodic
  imports Prelude
begin

text \<open>
  The goroutine that every component of the program starts for its periodic work: a ticker, and a loop
  whose \<^verbatim>\<open>select\<close> waits for the next tick or for the end of the component's context. What such a loop
  keeps of its component's invariant, and when it returns, is proved here once.
\<close>

section \<open>The loop\<close>

text \<open>What the \<^verbatim>\<open>select\<close> takes; a tick carries what its round reads (clock, map orders, measurements).\<close>

datatype 'a wake = Tick 'a | Done

datatype loop_end = Awaiting | Returned | Stuck   \<comment> \<open>\<open>Stuck\<close>: a round that does not return\<close>

fun periodic :: "('a \<Rightarrow> 's \<Rightarrow> 's \<times> bool) \<Rightarrow> 'a wake list \<Rightarrow> 's \<Rightarrow> 's \<times> loop_end" where
  "periodic body [] s = (s, Awaiting)"
| "periodic body (Done # ws) s = (s, Returned)"
| "periodic body (Tick x # ws) s = (let (s, ok) = body x s in if ok then periodic body ws s else (s, Stuck))"

text \<open>\<^verbatim>\<open>time.NewTicker\<close> panics for an interval that is not positive.\<close>

definition ticker_loop :: "duration \<Rightarrow> ('a \<Rightarrow> 's \<Rightarrow> 's \<times> bool) \<Rightarrow> 'a wake list \<Rightarrow> 's \<Rightarrow> ('s \<times> loop_end) option" where
  "ticker_loop d body ws s = (if d \<le> 0 then None else Some (periodic body ws s))"

definition always :: "('a \<Rightarrow> 's \<Rightarrow> 's) \<Rightarrow> 'a \<Rightarrow> 's \<Rightarrow> 's \<times> bool" where
  "always body x s = (body x s, True)"

lemma always_simps [simp]: "fst (always body x s) = body x s" "snd (always body x s)"
  by (simp_all add: always_def)

fun ticks :: "'a wake list \<Rightarrow> 'a list" where
  "ticks [] = []"
| "ticks (Done # ws) = []"
| "ticks (Tick x # ws) = x # ticks ws"

text \<open>Rounds that return make a fold over the ticks before the context ends, and nothing after it.\<close>

lemma periodic_always:
  "periodic (always body) ws s = (fold body (ticks ws) s, if Done \<in> set ws then Returned else Awaiting)"
  by (induction ws arbitrary: s rule: ticks.induct) (simp_all add: always_def)

lemma nothing_after_Done: "periodic body (ws @ Done # vs) s = periodic body (ws @ [Done]) s"
  by (induction ws arbitrary: s rule: ticks.induct) (simp_all add: case_prod_unfold Let_def)

section \<open>Its contract\<close>

locale periodic_task =
  fixes body :: "'a \<Rightarrow> 's \<Rightarrow> 's \<times> bool" and inv :: "'s \<Rightarrow> bool"
  assumes round_inv: "inv s \<Longrightarrow> inv (fst (body x s))"
begin

lemma loop_inv: "inv s \<Longrightarrow> inv (fst (periodic body ws s))"
  using round_inv by (induction ws arbitrary: s rule: ticks.induct) (auto simp: case_prod_unfold Let_def)

lemma ticker_inv: "inv s \<Longrightarrow> ticker_loop d body ws s = Some (s', e) \<Longrightarrow> inv s'"
  using loop_inv[of s ws] by (auto simp: ticker_loop_def split: if_splits)

end

text \<open>A task whose rounds always return ends exactly when its context does.\<close>

locale returning_task = periodic_task +
  assumes round_returns: "inv s \<Longrightarrow> snd (body x s)"
begin

lemma loop_end: "inv s \<Longrightarrow> snd (periodic body ws s) = (if Done \<in> set ws then Returned else Awaiting)"
  using round_inv round_returns by (induction ws arbitrary: s rule: ticks.induct) (auto simp: case_prod_unfold Let_def)

lemma never_stuck: "inv s \<Longrightarrow> ticker_loop d body ws s = Some (s', e) \<Longrightarrow> e \<noteq> Stuck \<and> (e = Returned \<longleftrightarrow> Done \<in> set ws)"
  using loop_end[of s ws] by (auto simp: ticker_loop_def split: if_splits)

end

text \<open>A task with a round that never returns is stuck at its first tick, cancelled afterwards or not.\<close>

locale blocking_task = periodic_task +
  assumes round_blocks: "inv s \<Longrightarrow> \<not> snd (body x s)"
begin

lemma stuck_at_first_tick: "inv s \<Longrightarrow> snd (periodic body (Tick x # ws) s) = Stuck"
  using round_blocks by (simp add: case_prod_unfold Let_def)

end

end
