(* ===== verification/Background_Loops.thy ===== *)
theory Background_Loops
  imports Periodic Router_Lifecycle Bus_Lifecycle Security_Lifecycle Enhanced_Pool Goroutine_Pool Observability
    Router_Monitor Router_Cache Protocol_Processor Adaptive_Performance Websocket_Batch
begin

text \<open>
  The periodic goroutines of the components, each as its ticker loop over the round that the theory of the
  component defines, and the contract of \<open>Periodic\<close> for each: the loop keeps the invariant of its
  component and returns when the context ends, or, for two monitors, is stuck at its first tick.
\<close>

section \<open>Routers\<close>

definition rt_collectMetrics :: "(time \<times> time) wake list \<Rightarrow> OptimizedRouter \<Rightarrow> (OptimizedRouter \<times> loop_end) option" where
  "rt_collectMetrics ws r = ticker_loop (Enhanced_Router.MetricsInterval (or_config r))
     (always (\<lambda>(now, now2). calculateMetrics now now2)) ws r"

definition rt_healthCheck :: "time wake list \<Rightarrow> OptimizedRouter \<Rightarrow> (OptimizedRouter \<times> loop_end) option" where
  "rt_healthCheck ws r = ticker_loop (Enhanced_Router.HealthCheckInterval (or_config r)) (always Enhanced_Router.performHealthCheck) ws r"

definition clean_route_cache :: "time \<Rightarrow> OptimizedRouter \<Rightarrow> OptimizedRouter" where
  "clean_route_cache now r = r\<lparr>routeCache := cache_Cleanup now (routeCache r)\<rparr>"

definition rt_cacheCleanup :: "time wake list \<Rightarrow> OptimizedRouter \<Rightarrow> (OptimizedRouter \<times> loop_end) option" where
  "rt_cacheCleanup ws r = ticker_loop minute (always clean_route_cache) ws r"

interpretation rt_metrics: returning_task "always (\<lambda>(now, now2). calculateMetrics now now2)" "\<lambda>r. cache_inv (routeCache r)"
  by unfold_locales (auto simp: cache_inv_frame)

interpretation rt_health: returning_task "always Enhanced_Router.performHealthCheck" "\<lambda>r. cache_inv (routeCache r)"
  by unfold_locales (auto simp: cache_inv_frame)

interpretation rt_cleaning: returning_task "always clean_route_cache" "\<lambda>r. cache_inv (routeCache r)"
  by unfold_locales (auto simp: clean_route_cache_def cache_inv_Cleanup)

definition rc_cleanupWorker :: "(string list \<times> time) wake list \<Rightarrow> RouterCache \<Rightarrow> (RouterCache \<times> loop_end) option" where
  "rc_cleanupWorker ws c = ticker_loop (10 * minute) (always (\<lambda>(ks, now). Router_Cache.cleanup ks now)) ws c"

definition rc_statsWorker :: "unit wake list \<Rightarrow> RouterCache \<Rightarrow> (RouterCache \<times> loop_end) option" where
  "rc_statsWorker ws c = ticker_loop minute (always (\<lambda>_. updateStats)) ws c"

lemma wf_cleanup [inv_intros]: "cache_wf c \<Longrightarrow> cache_wf (Router_Cache.cleanup ks now c)"
  by (simp add: Router_Cache.cleanup_def fold_removeEntry)

interpretation rc_cleaning: returning_task "always (\<lambda>(ks, now). Router_Cache.cleanup ks now)" cache_wf
  by unfold_locales (auto intro: wf_cleanup)

interpretation rc_stats: returning_task "always (\<lambda>_. updateStats)" cache_wf
  by unfold_locales (simp_all add: updateStats_def)

text \<open>The monitor of the router: its alert and health rounds wait for ever once a collection has been started.\<close>

definition rm_alertChecker :: "time wake list \<Rightarrow> RouterMonitor \<Rightarrow> (RouterMonitor \<times> loop_end) option" where
  "rm_alertChecker ws m = ticker_loop (10 * second) checkAlerts ws m"

definition rm_health_round :: "time \<Rightarrow> RouterMonitor \<Rightarrow> RouterMonitor \<times> bool" where
  "rm_health_round now m = (m, Router_Monitor.performHealthCheck now m \<noteq> None)"

definition rm_healthChecker :: "duration \<Rightarrow> time wake list \<Rightarrow> RouterMonitor \<Rightarrow> (RouterMonitor \<times> loop_end) option" where
  "rm_healthChecker interval ws m = ticker_loop interval rm_health_round ws m"

interpretation rm_alerts: returning_task checkAlerts "\<lambda>m. \<not> mutex_held m"
  by unfold_locales (simp_all add: snd_checkAlerts)

interpretation rm_health: returning_task rm_health_round "\<lambda>m. \<not> mutex_held m"
  by unfold_locales (simp_all add: rm_health_round_def Router_Monitor.performHealthCheck_def Router_Monitor.GetMetrics_def)

interpretation rm_alerts_held: blocking_task checkAlerts "\<lambda>m. mutex_held m \<and> mc_AlertThresholds (rm_config m) \<noteq> None"
  by unfold_locales (simp_all add: snd_checkAlerts)

interpretation rm_health_held: blocking_task rm_health_round mutex_held
  by unfold_locales (simp_all add: rm_health_round_def Router_Monitor.performHealthCheck_def Router_Monitor.GetMetrics_def)

section \<open>Bus, security and pools\<close>

definition bus_cleanupLoop :: "(wires \<times> (bus \<Rightarrow> string list) \<times> string list \<times> time) wake list \<Rightarrow> bus_service \<Rightarrow>
    (bus_service \<times> loop_end) option" where
  "bus_cleanupLoop ws s = ticker_loop (CleanupInterval (bus_config s)) (always (\<lambda>(w, ks, cs, now). cleanup_tick w ks cs now)) ws s"

definition bus_metrics_round :: "bus_service \<Rightarrow> bus_service" where
  "bus_metrics_round s = s\<lparr>the_bus := Message_Bus.updateMetrics (the_bus s)\<rparr>"

definition bus_metricsLoop :: "unit wake list \<Rightarrow> bus_service \<Rightarrow> (bus_service \<times> loop_end) option" where
  "bus_metricsLoop ws s = ticker_loop (30 * second) (always (\<lambda>_. bus_metrics_round)) ws s"

interpretation bus_metering: returning_task "always (\<lambda>_. bus_metrics_round)" svc_inv
  by unfold_locales (auto simp: bus_metrics_round_def svc_inv_def dest: bus_step_wf[OF step_updateMetrics])

interpretation bus_cleaning: returning_task "always (\<lambda>(w, ks, cs, now). cleanup_tick w ks cs now)"
  "\<lambda>s. closers s > 0 \<longrightarrow> bus_done s"
  by unfold_locales (auto simp: cleanup_tick_def)

definition sec_metricsCollector :: "time wake list \<Rightarrow> SecurityService \<Rightarrow> (SecurityService \<times> loop_end) option" where
  "sec_metricsCollector ws s = ticker_loop (Optimized_Security.MetricsInterval (Optimized_Security.config (mgr s)))
     (always (\<lambda>now s. s\<lparr>SecurityService.metrics := Security_Lifecycle.collectMetrics (mgr s) (mgr s) (mgr s) (mgr s) (mgr s) now
        (SecurityService.metrics s)\<rparr>)) ws s"

definition sec_cleanupWorker :: "time wake list \<Rightarrow> SecurityService \<Rightarrow> (SecurityService \<times> loop_end) option" where
  "sec_cleanupWorker ws s = ticker_loop minute (always (\<lambda>now s. s\<lparr>mgr := Optimized_Security.cleanupWorker now (mgr s)\<rparr>)) ws s"

interpretation sec_cleaning: returning_task "always (\<lambda>now s. s\<lparr>mgr := Optimized_Security.cleanupWorker now (mgr s)\<rparr>)" service_ok
  by unfold_locales (simp_all add: service_ok_def Optimized_Security.cleanupWorker_def)

interpretation sec_metering: returning_task "always (\<lambda>now s. s\<lparr>SecurityService.metrics :=
    Security_Lifecycle.collectMetrics (mgr s) (mgr s) (mgr s) (mgr s) (mgr s) now (SecurityService.metrics s)\<rparr>)" service_ok
  by unfold_locales (simp_all add: service_ok_def)

definition cp_healthChecker :: "((nat \<Rightarrow> bool) \<times> nat list) wake list \<Rightarrow> ConnectionPool \<Rightarrow> (ConnectionPool \<times> loop_end) option" where
  "cp_healthChecker ws p = ticker_loop (Enhanced_Pool.HealthCheckInterval (pool_cfg p))
     (always (\<lambda>(dead, as). Enhanced_Pool.performHealthCheck dead as)) ws p"

definition cp_idleConnectionCleaner :: "(time \<times> string list) wake list \<Rightarrow> ConnectionPool \<Rightarrow> (ConnectionPool \<times> loop_end) option" where
  "cp_idleConnectionCleaner ws p = ticker_loop minute (always (\<lambda>(now, ids). cleanIdleConnections now ids)) ws p"

text \<open>The metrics are only logged.\<close>

definition cp_metricsUpdater :: "time wake list \<Rightarrow> ConnectionPool \<Rightarrow> (ConnectionPool \<times> loop_end) option" where
  "cp_metricsUpdater ws p = ticker_loop (10 * second) (always (\<lambda>_ p. p)) ws p"

interpretation cp_health: returning_task "always (\<lambda>(dead, as). Enhanced_Pool.performHealthCheck dead as)" pool_inv
  by unfold_locales (auto intro: pool_inv_health)

interpretation cp_cleaning: returning_task "always (\<lambda>(now, ids). cleanIdleConnections now ids)" pool_inv
  by unfold_locales (auto intro: pool_inv_clean)

definition gp_autoScaler :: "duration \<Rightarrow> unit wake list \<Rightarrow> GoroutinePool \<Rightarrow> (GoroutinePool \<times> loop_end) option" where
  "gp_autoScaler interval ws p = ticker_loop interval (always (\<lambda>_. performAutoScale)) ws p"

interpretation gp_scaling: returning_task "always (\<lambda>_. performAutoScale)" gp_inv
  by unfold_locales (auto intro: gp_inv_step gp_step.scale)

text \<open>The pool never has more workers than its larger bound, however long the scaler runs.\<close>

lemma scaler_bounded:
  assumes "gp_autoScaler d ws (NewGoroutinePool c) = Some (p, e)"
  shows "workerCount p \<le> max (max 0 (MinWorkers (gp_cfg p))) (MaxWorkers (gp_cfg p))"
  using gp_scaling.ticker_inv[OF gp_inv_New assms[unfolded gp_autoScaler_def]] by (simp add: gp_inv_def)

section \<open>Performance and observability\<close>

definition opp_batchProcessor :: "unit wake list \<Rightarrow> OptimizedProtocolProcessor \<Rightarrow> (OptimizedProtocolProcessor \<times> loop_end) option" where
  "opp_batchProcessor ws s = ticker_loop (Protocol_Processor.BatchTimeout (Protocol_Processor.config s))
     (always (\<lambda>_ s. if batchQueue s \<noteq> [] then processBatch s else s)) ws s"

definition clean_protocols :: "time \<Rightarrow> OptimizedProtocolProcessor \<Rightarrow> OptimizedProtocolProcessor" where
  "clean_protocols now s = s\<lparr>protocolCache := cleanExpiredCache (Protocol_Processor.CacheTTL (Protocol_Processor.config s)) now (protocolCache s)\<rparr>"

definition opp_cacheCleanup :: "time wake list \<Rightarrow> OptimizedProtocolProcessor \<Rightarrow> (OptimizedProtocolProcessor \<times> loop_end) option" where
  "opp_cacheCleanup ws s = ticker_loop minute (always clean_protocols) ws s"

definition opp_metricsCollector :: "(nat \<times> nat \<times> nat \<times> time) wake list \<Rightarrow> OptimizedProtocolProcessor \<Rightarrow>
    (OptimizedProtocolProcessor \<times> loop_end) option" where
  "opp_metricsCollector ws s = ticker_loop (5 * second) (always (\<lambda>(g, c, a, now). Protocol_Processor.updateMetrics g c a now)) ws s"

interpretation opp_batching: returning_task "always (\<lambda>_ s. if batchQueue s \<noteq> [] then processBatch s else s)" opp_inv
  by unfold_locales (auto intro: opp_inv_batch)

interpretation opp_cleaning: returning_task "always clean_protocols" opp_inv
  by unfold_locales (simp_all add: clean_protocols_def)

interpretation opp_metering: returning_task "always (\<lambda>(g, c, a, now). Protocol_Processor.updateMetrics g c a now)" opp_inv
  by unfold_locales (auto intro: opp_inv_step opp_step.collect)

definition pm_monitoringLoop :: "Adaptive_Performance.runtime wake list \<Rightarrow> OptimizedPerformanceMonitor \<Rightarrow>
    (OptimizedPerformanceMonitor \<times> loop_end) option" where
  "pm_monitoringLoop ws m = ticker_loop (MonitoringInterval (pm_config m)) Adaptive_Performance.collectMetrics ws m"

definition pm_tuningLoop :: "(time \<times> duration) wake list \<Rightarrow> OptimizedPerformanceMonitor \<Rightarrow>
    (OptimizedPerformanceMonitor \<times> loop_end) option" where
  "pm_tuningLoop ws m = ticker_loop (TuningInterval (pm_config m)) (\<lambda>(now, took). performTuning now took) ws m"

text \<open>A quarter of the prediction window, as an integer.\<close>

definition pm_predictionLoop :: "time wake list \<Rightarrow> OptimizedPerformanceMonitor \<Rightarrow> (OptimizedPerformanceMonitor \<times> loop_end) option" where
  "pm_predictionLoop ws m = ticker_loop (go_quot (PredictionWindow (pm_config m)) 4) updatePredictions ws m"

interpretation pm_monitoring: blocking_task Adaptive_Performance.collectMetrics "\<lambda>m. True"
  by unfold_locales (simp_all add: Adaptive_Performance.collectMetrics_def calculateLatencyPercentiles_def Let_def)

interpretation pm_tuning: returning_task "\<lambda>(now, took). performTuning now took" "\<lambda>m. \<not> mu_held m \<and> all_improved (adaptiveTuner m)"
  by unfold_locales (auto simp: performTuning_def tune_all_improved)

interpretation pm_tuning_held: blocking_task "\<lambda>(now, took). performTuning now took" "\<lambda>m. mu_held m"
  by unfold_locales (auto simp: performTuning_def)

lemma tuning_stuck_after_collection:
  "snd (periodic (\<lambda>(now, took). performTuning now took) (Tick x # ws)
     (fst (periodic Adaptive_Performance.collectMetrics (Tick rt # vs) m))) = Stuck"
  by (rule pm_tuning_held.stuck_at_first_tick)
    (simp add: Adaptive_Performance.collectMetrics_def calculateLatencyPercentiles_def Let_def)

text \<open>What \<^verbatim>\<open>Start\<close> starts: the monitoring, the tuning and the prediction loop.\<close>

definition pm_Start :: "OptimizedPerformanceMonitor \<Rightarrow> bool \<times> bool \<times> bool" where
  "pm_Start m = (if \<not> MonitoringEnabled (pm_config m) then (False, False, False)
     else (True, AdaptiveTuningEnabled (pm_config m), PredictionEnabled (pm_config m)))"

lemma default_starts_all: "pm_config m = DefaultOptimizedPerformanceConfig \<Longrightarrow> pm_Start m = (True, True, True)"
  by (simp add: pm_Start_def DefaultOptimizedPerformanceConfig_def)

definition ob_cleanupMetrics :: "time wake list \<Rightarrow> Observability.OptimizedMetrics \<Rightarrow> (Observability.OptimizedMetrics \<times> loop_end) option" where
  "ob_cleanupMetrics ws m = ticker_loop (60 * minute) (always performCleanup) ws m"

definition ob_cleanupSpans :: "time wake list \<Rightarrow> OptimizedTracing \<Rightarrow> (OptimizedTracing \<times> loop_end) option" where
  "ob_cleanupSpans ws t = ticker_loop (10 * minute) (always performSpanCleanup) ws t"

definition ob_performanceMonitor :: "duration \<Rightarrow> (Observability.runtime \<times> time) wake list \<Rightarrow> Observability \<Rightarrow> (Observability \<times> loop_end) option" where
  "ob_performanceMonitor interval ws ob = ticker_loop interval (always (\<lambda>(rt, now). Observability.collectSystemMetrics rt now)) ws ob"

definition ob_healthMonitor :: "duration \<Rightarrow> (Observability.runtime \<times> (string \<Rightarrow> duration) \<times> time) wake list \<Rightarrow> HealthChecker \<Rightarrow>
    (HealthChecker \<times> loop_end) option" where
  "ob_healthMonitor interval ws hc = ticker_loop interval (always (\<lambda>(rt, took, now) hc. fst (PerformHealthCheck rt took now hc))) ws hc"

lemma performCleanup_keeps_recent:
  "points n (fold performCleanup nows m) = filter (\<lambda>p. \<forall>now\<in>set nows. mp_Timestamp p > now - retention m) (points n m)"
proof (induction nows arbitrary: m)
  case (Cons now nows)
  have "retention (performCleanup now m) = retention m" by (simp add: performCleanup_def)
  with Cons show ?case by (simp add: points_clean conj_commute)
qed simp

text \<open>After any run of the cleaner exactly the points that were young enough at every tick are kept.\<close>

lemma cleaner_keeps_recent:
  assumes "ob_cleanupMetrics ws m = Some (m', e)"
  shows "points n m' = filter (\<lambda>p. \<forall>now\<in>set (ticks ws). mp_Timestamp p > now - retention m) (points n m)"
  using assms by (auto simp: ob_cleanupMetrics_def ticker_loop_def periodic_always performCleanup_keeps_recent split: if_splits)

definition ws_metricsCollector :: "unit wake list \<Rightarrow> Handler \<Rightarrow> (Handler \<times> loop_end) option" where
  "ws_metricsCollector ws h = ticker_loop (10 * second)
     (always (\<lambda>_ h. h\<lparr>ws_metrics := Websocket_Batch.collectMetrics (Websocket_Batch.EnableBatching (ws_config h)) (ws_metrics h)\<rparr>)) ws h"

end
