(* ===== verification/Command_Line.thy ===== *)
theory Command_Line
  imports Control_Plane
begin

text \<open>
  The program \<^verbatim>\<open>cmd/muxcore/main.go\<close>: the flags of its command \<^verbatim>\<open>serve\<close>, and a run of it from the command
  line to the exit status. Parsing the command line (cobra) and delivering signals (os/signal) are outside;
  what the run does with them is here, over the control plane of \<open>Control_Plane\<close>.
\<close>

section \<open>Flags\<close>

record flags =
  configPath :: string
  verbose :: bool
  logLevel :: string
  address :: string
  cert :: string
  key_file :: string

definition default_flags :: flags where
  "default_flags = \<lparr>configPath = ''config.yaml'', verbose = False, logLevel = default_logLevel,
     address = '':8080'', cert = [], key_file = []\<rparr>"

definition program_version :: string where "program_version = ''1.0.0''"

definition version_text :: string where
  "version_text = ''MuxCore version '' @ program_version @ [CHR 0x0A]"

section \<open>A run of serve\<close>

text \<open>
  \<open>file_at\<close> gives the configuration file of a path, \<open>fresh\<close> is a new viper, \<open>V0\<close> and \<open>v0\<close> that of the
  logger's package, \<open>p\<close> the loggers there are.
\<close>

definition NewControlPlaneBuilderWithLogConfig ::
    "('v, 'f) viper \<Rightarrow> 'v \<Rightarrow> (string \<Rightarrow> 'f) \<Rightarrow> ('w, 'g) viper \<Rightarrow> 'w \<Rightarrow> string \<Rightarrow> string \<Rightarrow> bool \<Rightarrow> logger_kind log_package \<Rightarrow>
     string + ('v \<times> logger_kind log_package)" where
  "NewControlPlaneBuilderWithLogConfig V fresh file_at V0 v0 path level verb p =
     (case NewConfigManager V fresh (file_at path) of
        Inl e \<Rightarrow> Inl ''failed to create config manager''
      | Inr v \<Rightarrow> (case initializeLoggerWithOverrides V0 v0 (GetLoggerConfig V v) level verb p of
          None \<Rightarrow> Inl ''failed to initialize logger'' | Some p \<Rightarrow> Inr (v, p)))"

datatype 'c server = Failed string | Crashed | Serving "'c Plane" | Stopping "'c Plane" | Finished "'c Plane" "plane_error option"

text \<open>\<open>failed\<close>: the error of \<^verbatim>\<open>net.Listen\<close>, if any.\<close>

definition runServer ::
    "('v, 'f) viper \<Rightarrow> 'v \<Rightarrow> (string \<Rightarrow> 'f) \<Rightarrow> ('w, 'g) viper \<Rightarrow> 'w \<Rightarrow> flags \<Rightarrow> logger_kind log_package \<Rightarrow> node_heap \<Rightarrow>
     time \<Rightarrow> string option \<Rightarrow> 'c server" where
  "runServer V fresh file_at V0 v0 fl p nodes_at now failed =
     (case NewControlPlaneBuilderWithLogConfig V fresh file_at V0 v0 (configPath fl) (logLevel fl) (verbose fl) p of
        Inl e \<Rightarrow> Failed (''failed to create control plane builder: '' @ e)
      | Inr (v, p) \<Rightarrow> (case Build V v nodes_at now of
          None \<Rightarrow> Crashed
        | Some cp \<Rightarrow> (case plane_Start now failed cp of
            (cp, Some e) \<Rightarrow> Failed ''failed to start control plane''
          | (cp, None) \<Rightarrow> Serving cp)))"

text \<open>
  While it serves and while it stops, the plane goes on by its own steps; a signal calls \<^verbatim>\<open>Stop\<close>, whose
  return ends the program.
\<close>

inductive server_step :: "'c net_api \<Rightarrow> 'c server \<Rightarrow> 'c server \<Rightarrow> bool" for api where
  run: "plane_step api cp cp' \<Longrightarrow> cp_state cp' = ''running'' \<Longrightarrow> server_step api (Serving cp) (Serving cp')"
| signal: "Stop_begin cp = (cp', None) \<Longrightarrow> server_step api (Serving cp) (Stopping cp')"
| signal_error: "Stop_begin cp = (cp', Some e) \<Longrightarrow> server_step api (Serving cp) (Finished cp' (Some e))"
| shut: "plane_step api cp cp' \<Longrightarrow> cp_state cp' = ''stopping'' \<Longrightarrow> server_step api (Stopping cp) (Stopping cp')"
| ended: "plane_step api cp cp' \<Longrightarrow> cp_state cp' = ''stopped'' \<Longrightarrow> server_step api (Stopping cp) (Finished cp' None)"

inductive_cases server_stepE: "server_step api s s'"

text \<open>\<^verbatim>\<open>main\<close>: the exit status; 2 is that of a panic.\<close>

fun exit_code :: "'c server \<Rightarrow> int option" where
  "exit_code (Failed e) = Some 1"
| "exit_code Crashed = Some 2"
| "exit_code (Finished cp None) = Some 0"
| "exit_code (Finished cp (Some e)) = Some 1"
| "exit_code s = None"

section \<open>What holds in every run\<close>

fun plane_of :: "'c server \<Rightarrow> 'c Plane option" where
  "plane_of (Serving cp) = Some cp"
| "plane_of (Stopping cp) = Some cp"
| "plane_of (Finished cp e) = Some cp"
| "plane_of s = None"

definition stop_ok :: "'c Plane \<Rightarrow> bool" where
  "stop_ok cp \<longleftrightarrow> cp_state cp = ''stopping'' \<and> cp_cancelled cp \<and> li_cancelled (cp_listener cp) \<and> cp_stopping cp \<noteq> NoStop"

fun server_inv :: "'c server \<Rightarrow> bool" where
  "server_inv (Serving cp) = (refusing cp \<and> cp_state cp = ''running'' \<and> cp_stopping cp = NoStop)"
| "server_inv (Stopping cp) = (refusing cp \<and> stop_ok cp)"
| "server_inv (Finished cp e) = (refusing cp \<and> e = None)"
| "server_inv s = True"

lemma detection_more_frame: "cp_cancelled (detection api ip port ks b t cp) = cp_cancelled cp"
  by (simp add: detection_def after_detection_def split: prod.split option.split verdict.split)

text \<open>A plane in the state running is not being stopped, and keeps that state unless \<^verbatim>\<open>Stop\<close> is called.\<close>

lemma running_step:
  "plane_step api cp cp' \<Longrightarrow> cp_stopping cp = NoStop \<Longrightarrow> cp_state cp' = ''running'' \<Longrightarrow> cp_state cp = ''running'' \<Longrightarrow> cp_stopping cp' = NoStop"
  by (induction rule: plane_step.induct)
    (auto simp: plane_Start_def Stop_begin_def Stop_end_def accept_conn_def plane_performHealthCheck_def detection_frame Let_def
      split: sum.split option.split prod.split)

lemma stopping_step:
  "plane_step api cp cp' \<Longrightarrow> stop_ok cp \<Longrightarrow> cp_state cp' = ''stopping'' \<Longrightarrow> stop_ok cp'"
  by (induction rule: plane_step.induct)
    (auto simp: stop_ok_def Stop_end_def Stop_components_def accept_conn_def plane_performHealthCheck_def loop_select_def loop_error_def
      detection_frame detection_more_frame Let_def split: option.split prod.split)

lemma server_inv_step: "server_step api s s' \<Longrightarrow> server_inv s \<Longrightarrow> server_inv s'"
proof (induction rule: server_step.induct)
  case (run cp cp')
  then show ?case using refusing_step running_step by fastforce
next
  case (signal cp cp')
  then have "refusing cp'" by (elim server_inv.simps(1)[THEN iffD1, THEN conjE] refusing_cong) (auto simp: Stop_begin_def split: if_splits)
  with signal show ?case by (auto simp: Stop_begin_def stop_ok_def listener_Stop_def split: if_splits)
next
  case (signal_error cp cp' e)
  then show ?case by (simp add: Stop_begin_def)
next
  case (shut cp cp')
  then show ?case using refusing_step stopping_step by fastforce
next
  case (ended cp cp')
  then show ?case using refusing_step by fastforce
qed

lemma plane_started:
  assumes "Build V v nodes_at now = Some cp0" "plane_Start now failed cp0 = (cp, None)"
  shows "refusing cp \<and> cp_state cp = ''running'' \<and> cp_stopping cp = NoStop"
proof -
  note b = Build_init[OF assms(1)] and r = Build_refusing[OF assms(1)]
  have "plane_step undefined cp0 (fst (plane_Start now failed cp0))" using b by (intro plane_step.start) simp
  from refusing_step[OF this r] have "refusing cp" using assms(2) by simp
  then show ?thesis using assms(2) b by (auto simp: plane_Start_def Let_def split: sum.splits if_splits)
qed

lemma server_inv_start: "server_inv (runServer V fresh file_at V0 v0 fl p nodes_at now failed)"
  by (auto simp: runServer_def dest: plane_started split: sum.split option.split prod.split)

lemma server_run_inv:
  "(server_step api)\<^sup>*\<^sup>* (runServer V fresh file_at V0 v0 fl p nodes_at now failed) s \<Longrightarrow> server_inv s"
  by (induction rule: rtranclp_induct) (simp_all add: server_inv_start server_inv_step)

text \<open>Whatever the flags and the configuration, no run of the program ever gives a connection to a handler.\<close>

lemma server_serves_nobody:
  assumes "(server_step api)\<^sup>*\<^sup>* (runServer V fresh file_at V0 v0 fl p nodes_at now failed) s" "plane_of s = Some cp"
  shows "handed cp = [] \<and> \<not> panicked cp"
  using server_run_inv[OF assms(1)] assms(2) by (cases s) (auto simp: refusing_def)

section \<open>The shutdown\<close>

definition open_loops :: "Listener \<Rightarrow> nat" where
  "open_loops l = length (filter (\<lambda>p. p \<noteq> Exited) (li_loops l))"

lemma close_loop:
  assumes "i < length (li_loops l)" "li_loops l ! i \<noteq> Exited"
  shows "open_loops (l\<lparr>li_loops := (li_loops l)[i := Exited]\<rparr>) < open_loops l"
proof -
  let ?f = "filter (\<lambda>p. p \<noteq> Exited)"
  have "length (?f ((li_loops l)[i := Exited])) = length (?f (take i (li_loops l))) + length (?f (drop (Suc i) (li_loops l)))"
    using assms(1) by (simp add: upd_conv_take_nth_drop)
  moreover have "length (?f (li_loops l)) = length (?f (take i (li_loops l))) + Suc (length (?f (drop (Suc i) (li_loops l))))"
    by (subst id_take_nth_drop[OF assms(1)]) (simp add: assms(2))
  ultimately show ?thesis by (simp add: open_loops_def)
qed

text \<open>A plane that is being stopped can finish, by steps of its own goroutines alone.\<close>

definition to_do :: "'c Plane \<Rightarrow> nat" where
  "to_do cp = open_loops (cp_listener cp) + cp_monitors cp + (if cp_stopping cp = WaitListener then 1 else 0)"

lemma stop_progress:
  assumes "stop_ok cp"
  shows "\<exists>cp'. plane_step api cp cp' \<and> (cp_state cp' = ''stopped'' \<or> stop_ok cp' \<and> to_do cp' < to_do cp)"
proof (cases "cp_stopping cp")
  case NoStop
  with assms show ?thesis by (simp add: stop_ok_def)
next
  case WaitListener
  show ?thesis
  proof (cases "loops_gone (cp_listener cp)")
    case True
    with WaitListener have "plane_step api cp (Stop_components cp)" by (intro plane_step.stop_listener)
    moreover have "stop_ok (Stop_components cp)" "to_do (Stop_components cp) < to_do cp"
      using WaitListener assms by (simp_all add: stop_ok_def to_do_def Stop_components_def)
    ultimately show ?thesis by blast
  next
    case False
    then obtain i where i: "i < length (li_loops (cp_listener cp))" "li_loops (cp_listener cp) ! i \<noteq> Exited"
      by (auto simp: loops_gone_def in_set_conv_nth)
    let ?l = "(cp_listener cp)\<lparr>li_loops := (li_loops (cp_listener cp))[i := Exited]\<rparr>"
    have "li_cancelled (cp_listener cp)" using assms by (simp add: stop_ok_def)
    then have "loop_select i (cp_listener cp) = ?l" "loop_error i (cp_listener cp) = ?l" by (simp_all add: loop_select_def loop_error_def)
    then have "plane_step api cp (cp\<lparr>cp_listener := ?l\<rparr>)"
      using i plane_step.select[of i cp api] plane_step.accept_error[of i cp api] by (cases "li_loops (cp_listener cp) ! i") auto
    moreover have "stop_ok (cp\<lparr>cp_listener := ?l\<rparr>)" using assms by (simp add: stop_ok_def)
    moreover have "to_do (cp\<lparr>cp_listener := ?l\<rparr>) < to_do cp" using close_loop[OF i] by (simp add: to_do_def)
    ultimately show ?thesis by blast
  qed
next
  case WaitMonitor
  show ?thesis
  proof (cases "cp_monitors cp")
    case 0
    with WaitMonitor have "plane_step api cp (Stop_end cp)" by (intro plane_step.stop_end)
    moreover have "cp_state (Stop_end cp) = ''stopped''" by (simp add: Stop_end_def)
    ultimately show ?thesis by blast
  next
    case (Suc n)
    then have "plane_step api cp (cp\<lparr>cp_monitors := cp_monitors cp - 1\<rparr>)" using assms by (intro plane_step.monitor_exit) (simp_all add: stop_ok_def)
    moreover have "stop_ok (cp\<lparr>cp_monitors := cp_monitors cp - 1\<rparr>)" "to_do (cp\<lparr>cp_monitors := cp_monitors cp - 1\<rparr>) < to_do cp"
      using Suc assms by (simp_all add: stop_ok_def to_do_def)
    ultimately show ?thesis by blast
  qed
qed

lemma stopping_finishes:
  "stop_ok cp \<Longrightarrow> \<exists>cp'. (server_step api)\<^sup>*\<^sup>* (Stopping cp) (Finished cp' None)"
proof (induction "to_do cp" arbitrary: cp rule: less_induct)
  case less
  from stop_progress[OF less.prems, of api] obtain cp1 where c: "plane_step api cp cp1"
    "cp_state cp1 = ''stopped'' \<or> stop_ok cp1 \<and> to_do cp1 < to_do cp" by blast
  show ?case
  proof (cases "cp_state cp1 = ''stopped''")
    case True
    from server_step.ended[OF c(1) this] show ?thesis by (intro exI[of _ cp1] r_into_rtranclp)
  next
    case False
    with c have o: "stop_ok cp1" "to_do cp1 < to_do cp" by auto
    then have "server_step api (Stopping cp) (Stopping cp1)" using c(1) by (intro server_step.shut) (simp_all add: stop_ok_def)
    moreover obtain cp' where "(server_step api)\<^sup>*\<^sup>* (Stopping cp1) (Finished cp' None)" using less.hyps[OF o(2,1)] by blast
    ultimately have "(server_step api)\<^sup>*\<^sup>* (Stopping cp) (Finished cp' None)" by (rule converse_rtranclp_into_rtranclp)
    then show ?thesis ..
  qed
qed

lemma ended_first: "(server_step api)\<^sup>*\<^sup>* s0 s \<Longrightarrow> plane_of s = None \<Longrightarrow> s = s0"
proof (induction rule: rtranclp_induct)
  case (step t u)
  from step.hyps(2) have "plane_of u \<noteq> None" by (cases rule: server_step.cases) simp_all
  with step.prems show ?case by simp
qed simp


text \<open>With an empty configuration file the program serves, and with a port in use it ends with status 1.\<close>

lemma empty_config_Build: "\<exists>cp :: 'c Plane. Build two_layers (validateConfig two_layers (Map.empty, Map.empty)) nodes_at now = Some cp"
proof -
  obtain d :: "nat ProtocolDetector" where d: "NewDetector = Some d" using NewDetector_idle by blast
  have "zero_at two_layers (validateConfig two_layers (Map.empty, Map.empty)) k"
    if "list_all (\<lambda>kd. apart (fst kd) k) default_values" for k
    using viper_ok_two_layers that by (rule no_default_zero) (simp add: two_layers_def lookup_def)
  then have "zero_at two_layers (validateConfig two_layers (Map.empty, Map.empty)) k"
    if "k \<in> {''observability.alerting_thresholds'', ''observability.performance_enabled'', ''observability.health_check_enabled''}" for k
    using that by (auto simp: default_values_def)
  then have "GetStringMap two_layers (validateConfig two_layers (Map.empty, Map.empty)) ''observability.alerting_thresholds'' = []"
    "GetBool two_layers (validateConfig two_layers (Map.empty, Map.empty)) ''observability.performance_enabled'' = False"
    "GetBool two_layers (validateConfig two_layers (Map.empty, Map.empty)) ''observability.health_check_enabled'' = False"
    by (simp_all add: zero_at_def)
  then show ?thesis by (simp add: d Build_def GetObservabilityConfig_def NewOptimizedObservability_def Let_def)
qed

definition demo_run :: "string option \<Rightarrow> nat server" where
  "demo_run failed = runServer two_layers (Map.empty, Map.empty) (\<lambda>_. Some Map.empty) two_layers (Map.empty, Map.empty)
     default_flags no_loggers (\<lambda>_. undefined) 0 failed"

lemma demo_serves: "(\<exists>cp. demo_run None = Serving cp) \<and> exit_code (demo_run (Some ''address already in use'')) = Some 1"
proof -
  obtain cp :: "nat Plane" where cp: "Build two_layers (validateConfig two_layers (Map.empty, Map.empty)) (\<lambda>_. undefined) 0 = Some cp"
    using empty_config_Build by blast
  have "ReadInConfig two_layers (Some Map.empty) (Map.empty, Map.empty) = Some (Map.empty, Map.empty)"
    by (simp add: two_layers_def)
  with cp Build_init[OF cp] show ?thesis
    by (simp add: demo_run_def runServer_def NewControlPlaneBuilderWithLogConfig_def NewConfigManager_def default_flags_def
      initializeLoggerWithOverrides_def InitDefaultLogger_def NewZapLoggerWithConfig_def plane_Start_def listener_Start_def Let_def)
qed


text \<open>The flags of the address and the certificates are never read.\<close>

lemma address_flags_ignored:
  "runServer V fresh file_at V0 v0 (fl\<lparr>address := a, cert := c, key_file := k\<rparr>) p nodes_at now failed =
   runServer V fresh file_at V0 v0 fl p nodes_at now failed"
  by (simp add: runServer_def)

end
