(* ===== verification/Spec2Isabelle.thy ===== *)
theory Spec2Isabelle
  imports Error_Manager Buffer_Pool Router_Cache Enhanced_Router Message_Bus Security_Manager Optimized_Security
    Policy_Engine Protocol_Manager Reliability Radix_Tree Http_Handler Http_Router Buffered_Conn Detector
    Enhanced_Pool Goroutine_Pool Websocket_Batch Websocket_Handler Connection_Manager Processor_Manager
    Deployment Rolling_Writer Router_Config Adaptive_Performance App_Config Router_Monitor Observability Logger Control_Plane Protocol_Processor
    Resources Performance_Monitor Grpc_Handler Admin_Api Error_Middleware
    Security_Lifecycle Bus_Lifecycle Router_Lifecycle Http_Serving Periodic Background_Loops Command_Line
begin

text \<open>
  A verification development for muxcore, a Go server that accepts connections, finds out which protocol
  each of them speaks and hands it to a handler. Paths below are relative to \<^verbatim>\<open>src/\<close>.

  \<^bold>\<open>The program.\<close> \<^verbatim>\<open>cmd/muxcore\<close> reads the configuration (\<^verbatim>\<open>core/config\<close>), builds the control plane
  (\<^verbatim>\<open>core/control\<close>) and starts it. The plane owns a listener (\<^verbatim>\<open>core/listener\<close>) whose accept loop wraps each
  connection in a buffered connection (\<^verbatim>\<open>core/network\<close>), adds it to a pool (\<^verbatim>\<open>core/pool\<close>) and gives it to the
  detector (\<^verbatim>\<open>core/detector\<close>), which reads a prefix through a buffer of the pool of \<^verbatim>\<open>pkg/buffer\<close> and selects a
  handler by protocol (\<^verbatim>\<open>core/handler\<close>, \<^verbatim>\<open>core/protocols\<close>). Beside this path stand the routers
  (\<^verbatim>\<open>core/router\<close>), the message bus (\<^verbatim>\<open>core/bus\<close>), security, governance, reliability, performance and
  observability, and the libraries for errors and logging under \<^verbatim>\<open>pkg\<close>.

  \<^bold>\<open>Conventions\<close> (\<open>Prelude\<close>). A struct is a record with the fields of the source, an enumeration a
  datatype or the integers of its constants, a map a partial function, a shared pointer an address into
  a heap where aliasing matters. A panic, or a mutex locked twice, is \<open>None\<close> or a constructor of the
  result; an error is a value. Readings of the clock, of random numbers and of the order of a \<^verbatim>\<open>range\<close> are
  arguments. What is not in the repository (sockets, JSON, regular expressions, gzip, WASM, viper, the
  runtime statistics, user callbacks) is a parameter; where a lemma needs a law of one, the law is a
  named hypothesis, and its witness gives a function that has it. \<^verbatim>\<open>float64\<close> values are rationals, so that
  rounding is outside the model; words keep their width where the code depends on it (hashes, variable
  length integers, cookies), elsewhere a counter is a number that does not wrap. Goroutines are step
  relations over a shared state: an invariant holds however they interleave, with the mutexes as fields
  of the state where a lemma is about them.

  \<^bold>\<open>The theories\<close>, in the order of their imports:

  \<^item> \<open>Mux_Errors\<close> (\<^verbatim>\<open>pkg/errors/errors.go\<close>, \<^verbatim>\<open>converter.go\<close>, \<^verbatim>\<open>middleware.go\<close>): error values, their conversion, the
    status tables. \<open>Error_Middleware\<close> (\<^verbatim>\<open>middleware.go\<close>, \<^verbatim>\<open>converter.go\<close>): the converters with their
    registry, and the middlewares that recover from panics. \<open>Error_Manager\<close> (\<^verbatim>\<open>handler.go\<close>,
    \<^verbatim>\<open>builtin.go\<close>): handlers by priority, recovery, the built-in handlers; registration is a stable sort.
  \<^item> \<open>Bytes_Buffer\<close>, \<open>Buffer_Pool\<close> (\<^verbatim>\<open>pkg/buffer\<close>): the buffer as a queue of bytes, its variable length
    integers, and the lock-free pool, one step per atomic instruction.
  \<^item> \<open>Cache_Contract\<close>: what a client of a cache relies on. \<open>Router_Cache\<close> (\<^verbatim>\<open>router_cache.go\<close>): the cache of
    routes with its three eviction policies.
  \<^item> \<open>Hash_Ring\<close>, \<open>Load_Balancer\<close>, \<open>Enhanced_Router\<close> (\<^verbatim>\<open>enhanced_router.go\<close>, \<^verbatim>\<open>multidimensional_router.go\<close>): the
    ring with the FNV-1a hashes computed, the strategies over a heap of nodes, the router with its cache,
    metrics and channels. \<open>Router_Lifecycle\<close>: starting and stopping its workers.
  \<^item> \<open>Radix_Tree\<close>, \<open>Http_Router\<close>, \<open>Http_Serving\<close> (its default handlers, panics), \<open>Router_Config\<close>, \<open>Router_Monitor\<close>: the other files of \<^verbatim>\<open>core/router\<close>.
  \<^item> \<open>Message_Bus\<close>, \<open>Bus_Lifecycle\<close> (its goroutines and \<^verbatim>\<open>Close\<close>), \<open>Websocket_Handler\<close>, \<open>Websocket_Batch\<close>,
    \<open>Http_Handler\<close>, \<open>Grpc_Handler\<close>, \<open>Admin_Api\<close>: \<^verbatim>\<open>core/bus\<close>, \<^verbatim>\<open>core/protocols\<close>, \<^verbatim>\<open>core/interceptor\<close> and
    \<^verbatim>\<open>core/api\<close>.
  \<^item> \<open>Security_Basics\<close> (\<^verbatim>\<open>auth.go\<close>, \<^verbatim>\<open>syn_cookie.go\<close>, \<^verbatim>\<open>dos_protection.go\<close>, \<^verbatim>\<open>dpi.go\<close>), \<open>Security_Manager\<close>,
    \<open>Optimized_Security\<close> and \<open>Security_Lifecycle\<close> (\<^verbatim>\<open>security_manager_enhanced.go\<close>, its operations and its
    goroutines): \<^verbatim>\<open>core/security\<close>.
  \<^item> \<open>Policy_Engine\<close>, \<open>Protocol_Manager\<close> (with the WASM loader), \<open>Reliability\<close> (with \<^verbatim>\<open>connection_pool.go\<close>),
    \<open>Deployment\<close>: \<^verbatim>\<open>core/governance\<close>, \<^verbatim>\<open>core/reliability\<close>, \<^verbatim>\<open>core/deployment\<close>.
  \<^item> \<open>Enhanced_Pool\<close>, \<open>Goroutine_Pool\<close>, \<open>Connection_Manager\<close>, \<open>Buffered_Conn\<close>, \<open>Detector\<close>, \<open>Processor_Manager\<close>:
    the pools, the connection and the way to a handler.
  \<^item> \<open>Self_Lock\<close>: a component whose operation takes the mutex it holds. \<open>Adaptive_Performance\<close>,
    \<open>Protocol_Processor\<close>, \<open>Resources\<close>, \<open>Performance_Monitor\<close>, \<open>Observability\<close>: \<^verbatim>\<open>core/performance\<close> and
    \<^verbatim>\<open>core/observability\<close>.
  \<^item> \<open>App_Config\<close>, \<open>Logger\<close>, \<open>Rolling_Writer\<close>: configuration and logging.
  \<^item> \<open>Control_Plane\<close>: the composition of listener, pool, buffers, detector and router as the builder makes it.
    \<open>Command_Line\<close> (\<^verbatim>\<open>cmd/muxcore/main.go\<close>): a run of the program from its flags to its exit status.
  \<^item> \<open>Periodic\<close>: a goroutine that calls a task at every tick of a ticker until it is told to stop.
    \<open>Background_Loops\<close>: the loops of the components above as instances of it.

  \<^bold>\<open>The interfaces\<close> are locales. \<open>lossy_cache\<close> (a hit is the current value) is interpreted by the caches of
  \<open>Router_Cache\<close>, \<open>Enhanced_Router\<close> and \<open>Protocol_Processor\<close>; \<open>evictor\<close> by the eviction policies;
  \<open>byte_channel\<close> by the buffer, for \<open>Buffered_Conn\<close>; \<open>prioritised_handlers\<close> by the error manager;
  \<open>node_selector\<close> and its extension \<open>total_selector\<close> by the strategies of both routers; \<open>message_queue\<close> by
  the priority queue of the bus; \<open>self_lock\<close> by the two monitors; \<open>periodic_task\<close> with its extensions \<open>returning_task\<close> and \<open>blocking_task\<close>, in
  \<open>Background_Loops\<close>, by every ticker loop: a returning task keeps its loop stoppable, a blocking one
  leaves the goroutine at its first tick for ever.

  \<^bold>\<open>What the groups of lemmas show.\<close> Each component has an invariant that every operation keeps, and what
  each operation answers on every branch. The properties, numbered from C1 on,
  are of four groups. Correctness against a reference: the stable sort of handlers and of messages, the
  queue of bytes, the current values of a cache, the successor on the ring, the instances of a route, the
  sliding window of the limiter, the quantiles of the histogram, the thinned alerts, the guards of the
  security manager. Exact accounting under any interleaving: no buffer, task, message, result, metric
  point or connection is lost or held twice. Selection: only healthy nodes and connections, one active
  version, exactly the granted permissions. Endings: a signalled server can always finish its shutdown,
  the conversion of an error ends unless
  \<^verbatim>\<open>errors.New\<close> made it. And what the code does not do: mutexes held for ever, a
  control plane that refuses every connection, a restart that accepts none. The other defects found are
  lemmas beside the definitions.

  \<^bold>\<open>Bounds and fuel.\<close> \<open>peek_loop\<close> runs as many rounds as bytes are asked for, and each round that does not
  end it adds one; the walks of the radix tree descend at most as many nodes as were made; the search for
  a free file name tries one name more than there are files; the percentiles are exact for fewer than
  \<open>2 ^ 57\<close> requests, where the rank does not overflow. All other recursion is structural or has its
  termination proof, and a loop that may not end (a blocked mutex, a full channel) is a step that is not
  enabled.

  \<^bold>\<open>Not modelled.\<close> The parsing of the command line (cobra) and the delivery of signals; the texts of
  logs, alerts, reports, JSON exports and stack traces, and the writing of audit logs; random identifiers;
  the latency counter of the bus, which only adds clock readings; the pool of log event objects; the
  bodies of library functions (sockets, TLS, gzip, zap, viper, gRPC, WASM), which are parameters. Rounding
  of floating point numbers and overflow of 64-bit counters are left out, as said under the conventions.
\<close>

end
